(* ===== verification/Prelude.thy ===== *)
theory Prelude
  imports Main "HOL-Library.AList" "HOL-Library.Multiset" "HOL-Library.Sublist" "HOL-Library.Char_ord"
begin

text \<open>
  Shared vocabulary of the development.  JavaScript strings are modelled by HOL
  strings, that is by their Latin-1 fragment (one char per code unit), which is exactly
  what the wire protocols see; a JavaScript Map is an association list in insertion
  order (AList.update is Map.set, AList.delete is Map.delete); numbers that count are
  nat or int and times are integer milliseconds.  The theory has the string helpers the
  components share (trim, slice, join, split, decimal printing and parsing), the lemmas
  on insertion-ordered maps, and the interfaces that several components satisfy: a
  machine with an invariant, a codec, a resumable stream decoder and a bounded pool.
\<close>

named_theorems q_frame \<open>which fields of the mail queue an operation leaves alone\<close>
named_theorems parse_simps \<open>defining equations of scanners, unfolded in witnesses\<close>

section \<open>JavaScript maps as insertion-ordered association lists\<close>

type_synonym ('k, 'v) jsmap = "('k \<times> 'v) list"

abbreviation jskeys :: "('k, 'v) jsmap \<Rightarrow> 'k list" where
  "jskeys m \<equiv> map fst m"

abbreviation jsvals :: "('k, 'v) jsmap \<Rightarrow> 'v list" where
  "jsvals m \<equiv> map snd m"

lemma update_fresh: "k \<notin> set (jskeys m) \<Longrightarrow> AList.update k v m = m @ [(k, v)]"
  by (induction m) auto

lemma length_update: "length (AList.update k v m) = (if k \<in> set (jskeys m) then length m else Suc (length m))"
  by (induction m) auto

lemma length_delete_le: "length (AList.delete k m) \<le> length m"
  by (simp add: AList.delete_eq)

lemma delete_fresh: "k \<notin> set (jskeys m) \<Longrightarrow> AList.delete k m = m"
  by (induction m) (auto simp: AList.delete_eq)

lemma length_delete_in: "k \<in> set (jskeys m) \<Longrightarrow> length (AList.delete k m) < length m"
proof (induction m)
  case (Cons p m)
  then show ?case using length_delete_le[of k m] by (cases p) auto
qed simp

lemma set_keys_delete: "set (jskeys (AList.delete k m)) = set (jskeys m) - {k}"
  by (auto simp: AList.delete_eq image_iff)

lemma set_keys_update: "set (jskeys (AList.update k v m)) = insert k (set (jskeys m))"
  by (induction m) auto

lemma keys_update_image [simp]: "fst ` set (AList.update k v m) = insert k (fst ` set m)"
  using set_keys_update[of k v m] by simp

lemma keys_delete_image [simp]: "fst ` set (AList.delete k m) = fst ` set m - {k}"
  using set_keys_delete[of k m] by simp

lemma distinct_keys_delete: "distinct (jskeys m) \<Longrightarrow> distinct (jskeys (AList.delete k m))"
  by (rule AList.distinct_delete)

lemma distinct_keys_update: "distinct (jskeys m) \<Longrightarrow> distinct (jskeys (AList.update k v m))"
  by (rule AList.distinct_update)

lemma map_of_delete: "map_of (AList.delete k m) x = (if x = k then None else map_of m x)"
  by (simp add: AList.delete_conv')

lemma map_of_update: "map_of (AList.update k v m) x = (if x = k then Some v else map_of m x)"
  by (simp add: AList.update_conv')

lemma mset_delete:
  assumes "distinct (jskeys m)" "map_of m k = Some v"
  shows "mset (jsvals m) = add_mset v (mset (jsvals (AList.delete k m)))"
  using assms
proof (induction m)
  case (Cons p m)
  obtain a b where p: "p = (a, b)" by (cases p)
  show ?case
  proof (cases "a = k")
    case True
    with Cons.prems p have "k \<notin> set (jskeys m)" by (auto simp: image_iff)
    with Cons.prems p True show ?thesis by (simp add: delete_fresh)
  next
    case False
    with Cons p show ?thesis by auto
  qed
qed simp

lemma set_vals_delete: "set (jsvals (AList.delete k m)) \<subseteq> set (jsvals m)"
  by (auto simp: AList.delete_eq)

section \<open>Strings\<close>

definition sp :: char where "sp = CHR '' ''"
definition cr :: char where "cr = CHR 0x0D"
definition lf :: char where "lf = CHR 0x0A"
definition dquote :: char where "dquote = CHR 0x22"
definition backslash :: char where "backslash = CHR 0x5C"

definition crlf :: string where "crlf = [cr, lf]"

lemmas char_names = sp_def cr_def lf_def dquote_def backslash_def crlf_def

text \<open>White space as trim() and the regular expression class \s see it (Latin-1 part).\<close>

definition js_ws :: "char \<Rightarrow> bool" where
  "js_ws c = (let n = of_char c :: nat in (9 \<le> n \<and> n \<le> 13) \<or> n = 32 \<or> n = 160)"

definition js_ltrim :: "string \<Rightarrow> string" where "js_ltrim s = dropWhile js_ws s"
definition js_rtrim :: "string \<Rightarrow> string" where "js_rtrim s = rev (dropWhile js_ws (rev s))"
definition js_trim :: "string \<Rightarrow> string" where "js_trim s = js_rtrim (js_ltrim s)"

text \<open>Case conversion: ASCII letters and the Latin-1 letters that toLowerCase() maps.\<close>

definition char_lower :: "char \<Rightarrow> char" where
  "char_lower c = (let n = of_char c :: nat in
     if (65 \<le> n \<and> n \<le> 90) \<or> (192 \<le> n \<and> n \<le> 222 \<and> n \<noteq> 215) then char_of (n + 32) else c)"

definition js_lower :: "string \<Rightarrow> string" where "js_lower s = map char_lower s"

definition char_upper :: "char \<Rightarrow> char" where
  "char_upper c = (let n = of_char c :: nat in if 97 \<le> n \<and> n \<le> 122 then char_of (n - 32) else c)"

definition ascii_upper :: "string \<Rightarrow> string" where "ascii_upper s = map char_upper s"

definition is_digit :: "char \<Rightarrow> bool" where
  "is_digit c = (let n = of_char c :: nat in 48 \<le> n \<and> n \<le> 57)"

definition digit_val :: "char \<Rightarrow> nat" where "digit_val c = of_char c - 48"
definition digit_char :: "nat \<Rightarrow> char" where "digit_char d = char_of (48 + d)"

fun show_nat :: "nat \<Rightarrow> string" where
  "show_nat n = (if n < 10 then [digit_char n] else show_nat (n div 10) @ [digit_char (n mod 10)])"
declare show_nat.simps [simp del]

definition show_int :: "int \<Rightarrow> string" where
  "show_int i = (if i < 0 then CHR ''-'' # show_nat (nat (- i)) else show_nat (nat i))"

text \<open>The value of a run of decimal digits, the way parseInt(_, 10) reads it.\<close>

definition read_digits :: "string \<Rightarrow> nat" where
  "read_digits s = foldl (\<lambda>n c. n * 10 + digit_val c) 0 s"

text \<open>parseInt(s, 10): None is NaN.\<close>

definition js_parseInt :: "string \<Rightarrow> int option" where
  "js_parseInt s =
     (let t = js_ltrim s;
          neg = (t \<noteq> [] \<and> hd t = CHR ''-'');
          u = (if t \<noteq> [] \<and> (hd t = CHR ''-'' \<or> hd t = CHR ''+'') then tl t else t);
          ds = takeWhile is_digit u
      in if ds = [] then None else Some (if neg then - int (read_digits ds) else int (read_digits ds)))"

lemma digit_char_val: "d < 10 \<Longrightarrow> digit_val (digit_char d) = d"
  by (simp add: digit_val_def digit_char_def)

lemma digit_char_is_digit: "d < 10 \<Longrightarrow> is_digit (digit_char d)"
  by (simp add: is_digit_def digit_char_def)

lemma read_digits_snoc: "read_digits (s @ [c]) = read_digits s * 10 + digit_val c"
  by (simp add: read_digits_def)

lemma read_show_nat: "read_digits (show_nat n) = n"
proof (induction n rule: show_nat.induct)
  case (1 n)
  show ?case
  proof (cases "n < 10")
    case True
    then show ?thesis by (subst show_nat.simps) (simp add: read_digits_def digit_char_val)
  next
    case False
    have "show_nat n = show_nat (n div 10) @ [digit_char (n mod 10)]"
      using False by (subst show_nat.simps) simp
    then have "read_digits (show_nat n) = read_digits (show_nat (n div 10)) * 10 + digit_val (digit_char (n mod 10))"
      by (simp only: read_digits_snoc)
    then show ?thesis using 1 False by (simp add: digit_char_val)
  qed
qed

lemma show_nat_digits: "list_all is_digit (show_nat n)"
proof (induction n rule: show_nat.induct)
  case (1 n)
  show ?case
  proof (cases "n < 10")
    case True
    then show ?thesis by (subst show_nat.simps) (simp add: digit_char_is_digit)
  next
    case False
    have "show_nat n = show_nat (n div 10) @ [digit_char (n mod 10)]"
      using False by (subst show_nat.simps) simp
    then show ?thesis using 1 False by (simp add: digit_char_is_digit)
  qed
qed

lemma show_nat_nonempty: "show_nat n \<noteq> []"
  by (subst show_nat.simps) simp

fun js_join :: "string \<Rightarrow> string list \<Rightarrow> string" where
  "js_join sep [] = []"
| "js_join sep [x] = x"
| "js_join sep (x # y # r) = x @ sep @ js_join sep (y # r)"

text \<open>Split on a single character, as String.split does: never empty, one piece per separator plus one.\<close>

fun js_split :: "char \<Rightarrow> string \<Rightarrow> string list" where
  "js_split d [] = [[]]"
| "js_split d (c # s) = (if c = d then [] # js_split d s
     else case js_split d s of [] \<Rightarrow> [[c]] | p # r \<Rightarrow> (c # p) # r)"

lemma js_split_nonempty: "js_split d s \<noteq> []"
  by (cases s) (auto split: list.splits)

lemma js_join_split: "js_join [d] (js_split d s) = s"
proof (induction s)
  case (Cons c s)
  obtain p r where pr: "js_split d s = p # r" using js_split_nonempty[of d s] by (cases "js_split d s") auto
  show ?case
  proof (cases "c = d")
    case True
    then show ?thesis using Cons.IH pr by simp
  next
    case False
    then show ?thesis using Cons.IH pr by (cases r) auto
  qed
qed simp

lemma js_split_no_sep: "p \<in> set (js_split d s) \<Longrightarrow> d \<notin> set p"
proof (induction s arbitrary: p)
  case (Cons c s)
  obtain q r where qr: "js_split d s = q # r" using js_split_nonempty[of d s] by (cases "js_split d s") auto
  with Cons show ?case by (cases "c = d") (auto split: if_splits)
qed simp

lemma js_ltrim_nil: "js_ltrim [] = []" by (simp add: js_ltrim_def)

lemma js_trim_set: "set (js_trim s) \<subseteq> set s"
  unfolding js_trim_def js_rtrim_def js_ltrim_def by (metis set_dropWhileD set_rev subsetI)

section \<open>Interfaces\<close>

text \<open>
  A deterministic machine driven by events, some of which are legal in a state, with an
  invariant every legal step keeps.  The client lemmas lift the law to whole runs.
\<close>

fun run :: "('s \<Rightarrow> 'e \<Rightarrow> 's) \<Rightarrow> 's \<Rightarrow> 'e list \<Rightarrow> 's" where
  "run step s [] = s"
| "run step s (e # es) = run step (step s e) es"

fun legal_run :: "('s \<Rightarrow> 'e \<Rightarrow> 's) \<Rightarrow> ('s \<Rightarrow> 'e \<Rightarrow> bool) \<Rightarrow> 's \<Rightarrow> 'e list \<Rightarrow> bool" where
  "legal_run step ok s [] = True"
| "legal_run step ok s (e # es) = (ok s e \<and> legal_run step ok (step s e) es)"

lemma run_append: "run step s (es @ fs) = run step (run step s es) fs"
  by (induction es arbitrary: s) auto

locale machine =
  fixes step :: "'s \<Rightarrow> 'e \<Rightarrow> 's"
    and ok :: "'s \<Rightarrow> 'e \<Rightarrow> bool"
    and inv :: "'s \<Rightarrow> bool"
  assumes inv_step: "inv s \<Longrightarrow> ok s e \<Longrightarrow> inv (step s e)"
begin

lemma inv_run: "inv s \<Longrightarrow> legal_run step ok s es \<Longrightarrow> inv (run step s es)"
  by (induction es arbitrary: s) (auto intro: inv_step)

lemma inv_prefix: "inv s \<Longrightarrow> legal_run step ok s (es @ fs) \<Longrightarrow> inv (run step s es)"
  by (induction es arbitrary: s) (auto intro: inv_step)

end

text \<open>
  A machine that refines an abstract one: every legal step is a step of the abstract machine on the abstract
  states, and what the abstract machine keeps, it keeps.
\<close>

locale refinement = machine +
  fixes abs :: "'s \<Rightarrow> 'a"
    and astep :: "'a \<Rightarrow> 'a \<Rightarrow> bool"
    and ainv :: "'a \<Rightarrow> bool"
  assumes sim: "inv s \<Longrightarrow> ok s e \<Longrightarrow> astep (abs s) (abs (step s e))"
    and ainv_step: "ainv a \<Longrightarrow> astep a a' \<Longrightarrow> ainv a'"
begin

lemma sim_run:
  assumes "inv s" "legal_run step ok s (es @ [e])"
  shows "astep (abs (run step s es)) (abs (run step s (es @ [e])))"
proof -
  have "inv (run step s es)" by (rule inv_prefix[OF assms])
  moreover have "ok (run step s es) e" using assms(2) by (induction es arbitrary: s) simp_all
  ultimately show ?thesis using sim by (simp add: run_append)
qed

lemma ainv_run: "inv s \<Longrightarrow> ainv (abs s) \<Longrightarrow> legal_run step ok s es \<Longrightarrow> ainv (abs (run step s es))"
  by (induction es arbitrary: s) (auto intro: inv_step ainv_step sim)

end

text \<open>A codec: what the encoder writes the decoder reads back, on the valid values.\<close>

locale codec =
  fixes enc :: "'a \<Rightarrow> 'w"
    and dec :: "'w \<Rightarrow> 'a option"
    and valid :: "'a \<Rightarrow> bool"
  assumes dec_enc: "valid x \<Longrightarrow> dec (enc x) = Some x"
begin

lemma enc_inj: "valid x \<Longrightarrow> valid y \<Longrightarrow> enc x = enc y \<Longrightarrow> x = y"
  by (metis dec_enc option.inject)

end

text \<open>
  A resumable decoder: feeding a chunk returns the new state and the items it completed.
  The input has to fit (the decoders have limits).  The law says that two chunks are as good
  as their concatenation; then any division of the input into chunks produces the same
  items and the same final state.
\<close>

fun feed_all :: "('s \<Rightarrow> 'c list \<Rightarrow> 's \<times> 'o list) \<Rightarrow> 's \<Rightarrow> 'c list list \<Rightarrow> 's \<times> 'o list" where
  "feed_all feed s [] = (s, [])"
| "feed_all feed s (c # cs) = (let (s1, o1) = feed s c; (s2, o2) = feed_all feed s1 cs in (s2, o1 @ o2))"

locale stream_decoder =
  fixes feed :: "'s \<Rightarrow> 'c list \<Rightarrow> 's \<times> 'o list"
    and fits :: "'s \<Rightarrow> 'c list \<Rightarrow> bool"
  assumes feed_nil: "fits s [] \<Longrightarrow> feed s [] = (s, [])"
    and fits_first: "fits s (c @ d) \<Longrightarrow> fits s c"
    and fits_rest: "fits s (c @ d) \<Longrightarrow> fits (fst (feed s c)) d"
    and feed_append: "fits s (c @ d) \<Longrightarrow>
      feed s (c @ d) = (fst (feed (fst (feed s c)) d), snd (feed s c) @ snd (feed (fst (feed s c)) d))"
begin

lemma feed_chunks: "fits s (concat cs) \<Longrightarrow> feed_all feed s cs = feed s (concat cs)"
proof (induction cs arbitrary: s)
  case Nil
  then show ?case by (simp add: feed_nil)
next
  case (Cons c cs)
  have f: "fits s (c @ concat cs)" using Cons.prems by simp
  have "feed_all feed (fst (feed s c)) cs = feed (fst (feed s c)) (concat cs)"
    by (rule Cons.IH[OF fits_rest[OF f]])
  then show ?case using feed_append[OF f] by (simp add: case_prod_beta Let_def)
qed

lemma rechunk: "fits s (concat cs) \<Longrightarrow> concat cs = concat ds \<Longrightarrow> feed_all feed s cs = feed_all feed s ds"
  by (simp add: feed_chunks)

end

end
