(* ===== verification/Errors.thy ===== *)
theory Errors
  imports Prelude
begin

text \<open>
  The error hierarchy of src/src/errors.ts.  Every class is a subclass of MailTsError, so
  an error is one record whose name field tells the class, with the fields a subclass adds
  as options (None where the class does not have them).  The constructors below are the
  class constructors: they fix the code and the retryable flag, which is all the retry
  policy and the pools look at.
\<close>

datatype error_code = ECONFIG | ECONN | EAUTH | EREJECT | ETIMEOUT | EPIPE | ETLS | EMIME
  | EQUEUE | EIMAP | ETEMPLATE | ELIMIT

datatype error_name = NMailTsError | NSmtpError | NSmtpAuthError | NSmtpConnError | NSmtpRejectError
  | NSmtpTimeoutError | NSmtpTlsError | NImapError | NImapAuthError | NImapConnError | NQueueError
  | NTransportError | NLimitError | NOAuthError | NConfigError | NMimeError | NTemplateError

record mail_error =
  e_name :: error_name
  e_message :: string
  e_code :: error_code
  e_retryable :: bool
  e_replyCode :: "int option"
  e_replyLines :: "string list"
  e_responseCode :: "string option"
  e_status :: "nat option"
  e_provider :: "string option"
  e_retryAfterMs :: "int option"
  e_oauthCode :: "string option"

definition MailTsError :: "string \<Rightarrow> error_code \<Rightarrow> bool \<Rightarrow> mail_error" where
  "MailTsError msg code retryable = \<lparr> e_name = NMailTsError, e_message = msg, e_code = code,
     e_retryable = retryable, e_replyCode = None, e_replyLines = [], e_responseCode = None,
     e_status = None, e_provider = None, e_retryAfterMs = None, e_oauthCode = None \<rparr>"

definition SmtpError :: "string \<Rightarrow> error_code \<Rightarrow> int \<Rightarrow> string list \<Rightarrow> bool \<Rightarrow> mail_error" where
  "SmtpError msg code replyCode lines retryable = (MailTsError msg code retryable)
     \<lparr> e_name := NSmtpError, e_replyCode := Some replyCode, e_replyLines := lines \<rparr>"

definition SmtpAuthError :: "string \<Rightarrow> int \<Rightarrow> string list \<Rightarrow> mail_error" where
  "SmtpAuthError msg replyCode lines = (SmtpError msg EAUTH replyCode lines False) \<lparr> e_name := NSmtpAuthError \<rparr>"

definition SmtpConnError :: "string \<Rightarrow> int \<Rightarrow> string list \<Rightarrow> mail_error" where
  "SmtpConnError msg replyCode lines = (SmtpError msg ECONN replyCode lines True) \<lparr> e_name := NSmtpConnError \<rparr>"

definition SmtpRejectError :: "string \<Rightarrow> int \<Rightarrow> string list \<Rightarrow> mail_error" where
  "SmtpRejectError msg replyCode lines = (SmtpError msg EREJECT replyCode lines False) \<lparr> e_name := NSmtpRejectError \<rparr>"

definition SmtpTimeoutError :: "string \<Rightarrow> mail_error" where
  "SmtpTimeoutError phase = (MailTsError (''SMTP timeout during phase: '' @ phase) ETIMEOUT True) \<lparr> e_name := NSmtpTimeoutError \<rparr>"

definition SmtpTlsError :: "string \<Rightarrow> mail_error" where
  "SmtpTlsError msg = (MailTsError msg ETLS False) \<lparr> e_name := NSmtpTlsError \<rparr>"

definition ImapError :: "string \<Rightarrow> bool \<Rightarrow> error_code \<Rightarrow> string option \<Rightarrow> mail_error" where
  "ImapError msg retryable code rc = (MailTsError msg code retryable) \<lparr> e_name := NImapError, e_responseCode := rc \<rparr>"

definition ImapAuthError :: "string \<Rightarrow> string option \<Rightarrow> mail_error" where
  "ImapAuthError msg rc = (ImapError msg False EAUTH rc) \<lparr> e_name := NImapAuthError \<rparr>"

definition ImapConnError :: "string \<Rightarrow> mail_error" where
  "ImapConnError msg = (ImapError msg True ECONN None) \<lparr> e_name := NImapConnError \<rparr>"

definition QueueError :: "string \<Rightarrow> mail_error" where
  "QueueError msg = (MailTsError msg EQUEUE False) \<lparr> e_name := NQueueError \<rparr>"

definition TransportError :: "string \<Rightarrow> string \<Rightarrow> nat \<Rightarrow> bool \<Rightarrow> int option \<Rightarrow> mail_error" where
  "TransportError msg provider status retryable retryAfter =
     (MailTsError msg (if status = 401 \<or> status = 403 then EAUTH else if status = 0 then ECONN else EREJECT) retryable)
       \<lparr> e_name := NTransportError, e_provider := Some provider, e_status := Some status, e_retryAfterMs := retryAfter \<rparr>"

definition LimitError :: "string \<Rightarrow> mail_error" where
  "LimitError msg = (MailTsError msg ELIMIT False) \<lparr> e_name := NLimitError \<rparr>"

definition OAuthError :: "string \<Rightarrow> string option \<Rightarrow> bool \<Rightarrow> mail_error" where
  "OAuthError msg oc retryable = (MailTsError msg EAUTH retryable) \<lparr> e_name := NOAuthError, e_oauthCode := oc \<rparr>"

definition ConfigError :: "string \<Rightarrow> mail_error" where
  "ConfigError msg = (MailTsError msg ECONFIG False) \<lparr> e_name := NConfigError \<rparr>"

definition MimeError :: "string \<Rightarrow> mail_error" where
  "MimeError msg = (MailTsError msg EMIME False) \<lparr> e_name := NMimeError \<rparr>"

definition TemplateError :: "string \<Rightarrow> mail_error" where
  "TemplateError msg = (MailTsError msg ETEMPLATE False) \<lparr> e_name := NTemplateError \<rparr>"

lemmas error_defs = MailTsError_def SmtpError_def SmtpAuthError_def SmtpConnError_def SmtpRejectError_def
  SmtpTimeoutError_def SmtpTlsError_def ImapError_def ImapAuthError_def ImapConnError_def QueueError_def
  TransportError_def LimitError_def OAuthError_def ConfigError_def MimeError_def TemplateError_def

definition smtp_error_from_reply :: "int \<Rightarrow> string list \<Rightarrow> mail_error" where
  "smtp_error_from_reply code lines =
     (let text = js_trim (js_join '' '' (map (drop 4) lines)); c = show_int code in
      if code = 535 \<or> code = 534 \<or> code = 538 then
        SmtpAuthError (''SMTP authentication failed ('' @ c @ ''): '' @ text) code lines
      else if code \<ge> 500 then
        SmtpRejectError (''SMTP rejected message ('' @ c @ ''): '' @ text) code lines
      else if code \<ge> 400 then
        SmtpError (''SMTP transient failure ('' @ c @ ''): '' @ text) ECONN code lines True
      else
        SmtpError (''Unexpected SMTP reply ('' @ c @ ''): '' @ text) ECONN code lines False)"

lemma retryable_flags [simp]:
  "e_retryable (MailTsError m c r) = r" "e_code (MailTsError m c r) = c"
  "e_retryable (SmtpError m c n l r) = r" "e_code (SmtpError m c n l r) = c"
  "e_retryable (SmtpAuthError m n l) = False" "e_retryable (SmtpConnError m n l) = True"
  "e_retryable (SmtpRejectError m n l) = False" "e_retryable (SmtpTimeoutError p) = True"
  "e_retryable (SmtpTlsError m) = False" "e_retryable (ImapAuthError m o1) = False"
  "e_retryable (ImapConnError m) = True" "e_retryable (QueueError m) = False"
  "e_retryable (LimitError m) = False" "e_retryable (ConfigError m) = False"
  "e_retryable (MimeError m) = False" "e_retryable (TemplateError m) = False"
  by (simp_all add: error_defs)

end
