(* ===== verification/Address.thy ===== *)
theory Address
  imports Errors
begin

text \<open>
  Address fields (src/src/core/Address.ts) and the Message-ID generator of
  src/src/core/Message.ts.  A field of the options is absent, one address or an array
  of addresses; an address is a string or an object with an email and a name.  The
  regular expressions are written out as the decomposition they compute.
\<close>

datatype email_address = AddrStr string | AddrObj string "string option"

datatype addr_field = NoAddr | OneAddr email_address | ManyAddr "email_address list"

record parsed_address =
  pa_email :: string
  pa_name :: "string option"

definition sanitizeHeader :: "string \<Rightarrow> string" where
  "sanitizeHeader v = List.filter (\<lambda>c. c \<noteq> cr \<and> c \<noteq> lf) v"

definition or_undefined :: "string \<Rightarrow> string option" where
  "or_undefined s = (if s = [] then None else Some s)"

text \<open>
  The match of a trimmed string against an optional quote, a display name without quote
  or angle bracket, an optional quote, white space and a bracketed address that ends the
  string.  The lazy name group takes the characters up to the closing quote, or up to the
  trailing white space when there is none.
\<close>

definition match_angle :: "string \<Rightarrow> (string \<times> string) option" where
  "match_angle t =
     (let r = (case t of c # t1 \<Rightarrow> if c = dquote then t1 else t | [] \<Rightarrow> []);
          pre = takeWhile (\<lambda>c. c \<noteq> CHR ''<'') r;
          post = drop (length pre) r
      in case post of [] \<Rightarrow> None | lt # body \<Rightarrow>
        (if length body < 2 \<or> last body \<noteq> CHR ''>'' \<or> CHR ''>'' \<in> set (butlast body) then None
         else if dquote \<in> set pre then
           (let name = takeWhile (\<lambda>c. c \<noteq> dquote) pre; gap = drop (Suc (length name)) pre in
            if list_all js_ws gap then Some (name, butlast body) else None)
         else Some (js_rtrim pre, butlast body)))"

definition parseAddress :: "email_address \<Rightarrow> parsed_address" where
  "parseAddress addr = (case addr of
     AddrStr s \<Rightarrow> (let t = js_trim s in case match_angle t of
         Some (n, e) \<Rightarrow> \<lparr> pa_email = sanitizeHeader (js_trim e), pa_name = or_undefined (sanitizeHeader (js_trim n)) \<rparr>
       | None \<Rightarrow> \<lparr> pa_email = sanitizeHeader t, pa_name = None \<rparr>)
   | AddrObj e n \<Rightarrow> \<lparr> pa_email = sanitizeHeader (js_trim e),
       pa_name = (case n of None \<Rightarrow> None | Some s \<Rightarrow> if s = [] then None else Some (sanitizeHeader (js_trim s))) \<rparr>)"

definition parseAddressList :: "addr_field \<Rightarrow> string option \<Rightarrow> parsed_address list" where
  "parseAddressList field fallback =
     (let arr = (case field of NoAddr \<Rightarrow> [] | OneAddr a \<Rightarrow> if a = AddrStr [] then [] else [a] | ManyAddr as \<Rightarrow> as);
          named = (\<lambda>p. (pa_name p = None \<or> pa_name p = Some []) \<and> fallback \<noteq> None \<and> fallback \<noteq> Some [])
      in case map parseAddress arr of [] \<Rightarrow> []
         | p # ps \<Rightarrow> (if named p then p \<lparr> pa_name := fallback \<rparr> else p) # ps)"

definition extractEmails :: "addr_field \<Rightarrow> string list" where
  "extractEmails field = map pa_email (parseAddressList field None)"

text \<open>The characters the domain of a generated Message-ID keeps.\<close>

definition domain_char :: "char \<Rightarrow> bool" where
  "domain_char c = (let n = of_char c :: nat in
     (65 \<le> n \<and> n \<le> 90) \<or> (97 \<le> n \<and> n \<le> 122) \<or> is_digit c \<or> c = CHR ''.'' \<or> c = CHR ''-'')"

text \<open>The random hex token is an argument.\<close>

definition generateMessageId :: "string \<Rightarrow> string \<Rightarrow> string" where
  "generateMessageId token from_addr =
     (let d0 = (case js_split (CHR ''@'') from_addr of _ # d # _ \<Rightarrow> d | _ \<Rightarrow> []);
          d1 = List.filter domain_char d0;
          d = (if d1 = [] then ''mailts.local'' else d1)
      in ''<'' @ token @ ''@'' @ d @ ''>'')"

lemma sanitize_no_crlf: "cr \<notin> set (sanitizeHeader v)" "lf \<notin> set (sanitizeHeader v)"
  by (auto simp: sanitizeHeader_def)

lemma parse_email_no_crlf: "cr \<notin> set (pa_email (parseAddress a)) \<and> lf \<notin> set (pa_email (parseAddress a))"
  by (auto simp: parseAddress_def Let_def sanitize_no_crlf split: email_address.splits option.splits)

lemma parse_name_no_crlf: "pa_name (parseAddress a) = Some n \<Longrightarrow> cr \<notin> set n \<and> lf \<notin> set n"
  by (auto simp: parseAddress_def or_undefined_def Let_def sanitize_no_crlf
           split: email_address.splits option.splits if_splits)

lemma extractEmails_no_crlf:
  "e \<in> set (extractEmails f) \<Longrightarrow> cr \<notin> set e \<and> lf \<notin> set e"
  by (auto simp: extractEmails_def parseAddressList_def Let_def parse_email_no_crlf
           split: addr_field.splits list.splits if_splits)

lemma length_parseAddressList:
  "length (parseAddressList f n) = (case f of NoAddr \<Rightarrow> 0 | OneAddr a \<Rightarrow> if a = AddrStr [] then 0 else 1 | ManyAddr as \<Rightarrow> length as)"
proof -
  have "length (case map parseAddress arr of [] \<Rightarrow> [] | p # ps \<Rightarrow> g p # ps) = length arr" for arr g
    by (cases arr) auto
  then show ?thesis by (auto simp: parseAddressList_def Let_def split: addr_field.splits)
qed

text \<open>A generated Message-ID never has white space or line breaks in its domain.\<close>

lemma generateMessageId_shape:
  "\<exists>d. generateMessageId tok from_addr = ''<'' @ tok @ ''@'' @ d @ ''>'' \<and> d \<noteq> [] \<and> list_all domain_char d"
proof -
  have m: "list_all domain_char ''mailts.local''" by (simp add: domain_char_def is_digit_def)
  have f: "list_all domain_char (List.filter domain_char x)" for x by (induction x) auto
  define x where "x = (case js_split (CHR ''@'') from_addr of _ # d # _ \<Rightarrow> d | _ \<Rightarrow> [])"
  define d where "d = (if List.filter domain_char x = [] then ''mailts.local'' else List.filter domain_char x)"
  have "generateMessageId tok from_addr = ''<'' @ tok @ ''@'' @ d @ ''>''"
    by (simp only: generateMessageId_def Let_def d_def x_def)
  moreover have "d \<noteq> []" by (auto simp: d_def)
  moreover have "list_all domain_char d" using m f by (simp add: d_def)
  ultimately show ?thesis by blast
qed

end
