(* ===== verification/QueueTypes.thy ===== *)
theory QueueTypes
  imports Address
begin

text \<open>
  The data of the send queue: src/src/types/queue.ts, the fields of EmailOptions the queue
  and its rate limiter read (src/src/types/core.ts), SendResult, and the reason-aware abort
  controller of src/src/queue/JobController.ts.  Dates are integer milliseconds.
\<close>

record email_options =
  o_from :: addr_field
  o_to :: addr_field
  o_cc :: addr_field
  o_bcc :: addr_field
  o_subject :: "string option"
  o_text :: "string option"
  o_html :: "string option"
  o_messageId :: "string option"

datatype job_priority = Critical | High | Normal | Low

definition PRIORITY_ORDER :: "job_priority list" where
  "PRIORITY_ORDER = [Critical, High, Normal, Low]"

lemma PRIORITY_ORDER_all: "p \<in> set PRIORITY_ORDER" "distinct PRIORITY_ORDER"
  by (cases p) (auto simp: PRIORITY_ORDER_def)

text \<open>The scheduling order on the tiers, most urgent first.\<close>

instantiation job_priority :: linorder
begin

definition less_eq_job_priority :: "job_priority \<Rightarrow> job_priority \<Rightarrow> bool" where
  "less_eq_job_priority a b = (case a of Critical \<Rightarrow> True | High \<Rightarrow> b \<noteq> Critical
     | Normal \<Rightarrow> b = Normal \<or> b = Low | Low \<Rightarrow> b = Low)"

definition less_job_priority :: "job_priority \<Rightarrow> job_priority \<Rightarrow> bool" where
  "less_job_priority a b = (a \<le> b \<and> \<not> b \<le> (a :: job_priority))"

instance
  by standard (auto simp: less_eq_job_priority_def less_job_priority_def split: job_priority.splits)

end

datatype job_status = StPending | StScheduled | StRunning | StSuccess | StDead | StCancelled

record q_job =
  j_id :: string
  j_options :: email_options
  j_attempts :: int
  j_errors :: "mail_error list"
  j_createdAt :: int
  j_lastAttemptAt :: "int option"
  j_status :: job_status
  j_notBefore :: "int option"
  j_idempotencyKey :: "string option"
  j_priority :: job_priority
  j_cancelledAt :: "int option"

record enqueue_options =
  eo_priority :: "job_priority option"
  eo_sendAt :: "int option"
  eo_id :: "string option"
  eo_idempotencyKey :: "string option"

datatype shutdown_pending_mode = SpDrain | SpKeep | SpCancel

record shutdown_options =
  so_timeoutMs :: "int option"
  so_pending :: "shutdown_pending_mode option"

record shutdown_result =
  sr_cancelled :: int
  sr_remaining :: nat

record queue_stats =
  st_pending :: nat
  st_scheduled :: nat
  st_running :: nat
  st_succeeded :: nat
  st_dead :: nat
  st_cancelled :: nat

datatype limit_by = ByQueue | BySender | ByFn "q_job \<Rightarrow> string"

record rate_limit_options =
  rl_perSecond :: "int option"
  rl_perMinute :: "int option"
  rl_perHour :: "int option"
  rl_perDay :: "int option"
  rl_by :: limit_by
  rl_countRecipients :: bool

text \<open>SendResult and what a rejected promise may carry: one of our errors or anything else.\<close>

datatype send_result = SendOk string "string list" "string list" | SendErr mail_error int

datatype thrown = ThrownMailTs mail_error | ThrownOther string

datatype send_outcome = Resolved send_result | Rejected thrown

datatype control_reason = Interrupt | Cancel | Abort

text \<open>JobController.trigger: the first caller wins, later ones change nothing.\<close>

definition ctrl_trigger :: "control_reason \<Rightarrow> control_reason option \<Rightarrow> control_reason option" where
  "ctrl_trigger r reason = (if reason \<noteq> None then reason else Some r)"

definition ctrl_interrupt :: "control_reason option \<Rightarrow> control_reason option" where "ctrl_interrupt = ctrl_trigger Interrupt"
definition ctrl_cancel :: "control_reason option \<Rightarrow> control_reason option" where "ctrl_cancel = ctrl_trigger Cancel"
definition ctrl_abort :: "control_reason option \<Rightarrow> control_reason option" where "ctrl_abort = ctrl_trigger Abort"

lemma ctrl_first_wins: "ctrl_trigger r (ctrl_trigger r0 None) = Some r0"
  by (simp add: ctrl_trigger_def)

lemma ctrl_trigger_set: "ctrl_trigger r c \<noteq> None"
  by (auto simp: ctrl_trigger_def)

end
