(* ===== verification/RetryPolicy.thy ===== *)
theory RetryPolicy
  imports QueueTypes Complex_Main
begin

text \<open>
  src/src/queue/RetryPolicy.ts: whether a failed attempt is retried and after which delay.
  Delays are computed exactly on rationals and floored, as Math.floor does; the value of
  Math.random() is the argument rnd, a rational of the interval [0, 1).
\<close>

datatype backoff_kind = Linear | Exponential | Fixed

record retry_options =
  ro_maxRetries :: "int option"
  ro_initialDelay :: "int option"
  ro_maxDelay :: "int option"
  ro_backoff :: "backoff_kind option"
  ro_jitter :: "bool option"

record retry_policy =
  rp_maxRetries :: int
  rp_initialDelay :: int
  rp_maxDelay :: int
  rp_backoff :: backoff_kind
  rp_jitter :: bool

definition or_default :: "'a option \<Rightarrow> 'a \<Rightarrow> 'a" where
  "or_default x d = (case x of None \<Rightarrow> d | Some y \<Rightarrow> y)"

lemma or_default_simps [simp]: "or_default None d = d" "or_default (Some x) d = x"
  by (simp_all add: or_default_def)

definition new_policy :: "retry_options \<Rightarrow> retry_policy" where
  "new_policy o1 = \<lparr> rp_maxRetries = or_default (ro_maxRetries o1) 5,
     rp_initialDelay = or_default (ro_initialDelay o1) 1000,
     rp_maxDelay = or_default (ro_maxDelay o1) 60000,
     rp_backoff = or_default (ro_backoff o1) Exponential,
     rp_jitter = or_default (ro_jitter o1) True \<rparr>"

definition shouldRetry :: "retry_policy \<Rightarrow> int \<Rightarrow> mail_error \<Rightarrow> bool" where
  "shouldRetry p attempts err =
     (if attempts > rp_maxRetries p then False
      else if e_retryable err = False then False
      else True)"

definition base_delay :: "retry_policy \<Rightarrow> int \<Rightarrow> int" where
  "base_delay p attempt = (case rp_backoff p of
     Exponential \<Rightarrow> min (rp_initialDelay p * 2 ^ nat attempt) (rp_maxDelay p)
   | Linear \<Rightarrow> min (rp_initialDelay p * (attempt + 1)) (rp_maxDelay p)
   | Fixed \<Rightarrow> rp_initialDelay p)"

definition delayFor :: "retry_policy \<Rightarrow> rat \<Rightarrow> int \<Rightarrow> int" where
  "delayFor p rnd attempt =
     (let delay = of_int (base_delay p attempt) :: rat;
          jitterRange = delay * (3 / 10)
      in if rp_jitter p then \<lfloor>delay - jitterRange + rnd * jitterRange * 2\<rfloor> else \<lfloor>delay\<rfloor>)"

text \<open>A policy the configuration makes sense for.\<close>

definition valid_policy :: "retry_policy \<Rightarrow> bool" where
  "valid_policy p \<longleftrightarrow> rp_initialDelay p \<ge> 0 \<and> rp_maxDelay p \<ge> 0"

lemma base_delay_nonneg: "valid_policy p \<Longrightarrow> attempt \<ge> 0 \<Longrightarrow> base_delay p attempt \<ge> 0"
  by (auto simp: base_delay_def valid_policy_def split: backoff_kind.splits)

lemma base_delay_capped: "rp_backoff p \<noteq> Fixed \<Longrightarrow> base_delay p attempt \<le> rp_maxDelay p"
  by (auto simp: base_delay_def split: backoff_kind.splits)

lemma base_delay_mono:
  assumes "valid_policy p" "0 \<le> a" "a \<le> b"
  shows "base_delay p a \<le> base_delay p b"
proof (cases "rp_backoff p")
  case Exponential
  have "(2::int) ^ nat a \<le> 2 ^ nat b" using assms by (intro power_increasing) auto
  then have "rp_initialDelay p * 2 ^ nat a \<le> rp_initialDelay p * 2 ^ nat b"
    using assms by (intro mult_left_mono) (auto simp: valid_policy_def)
  then show ?thesis using Exponential by (simp add: base_delay_def)
next
  case Linear
  have "rp_initialDelay p * (a + 1) \<le> rp_initialDelay p * (b + 1)"
    using assms by (intro mult_left_mono) (auto simp: valid_policy_def)
  then show ?thesis using Linear by (simp add: base_delay_def)
qed (simp add: base_delay_def)

lemma jitter_lower:
  assumes "0 \<le> (d::rat)" "0 \<le> rnd"
  shows "d * (7 / 10) \<le> d - d * (3 / 10) + rnd * (d * (3 / 10)) * 2"
proof -
  have "0 \<le> rnd * (d * (3 / 10)) * 2" using assms by (intro mult_nonneg_nonneg) auto
  then show ?thesis by (simp add: algebra_simps)
qed

lemma jitter_upper:
  assumes "0 \<le> (d::rat)" "rnd \<le> 1"
  shows "d - d * (3 / 10) + rnd * (d * (3 / 10)) * 2 \<le> d * (13 / 10)"
proof -
  have "rnd * (d * (3 / 10)) * 2 \<le> 1 * (d * (3 / 10)) * 2"
    using assms by (intro mult_right_mono) auto
  then show ?thesis by (simp add: algebra_simps)
qed

lemma delayFor_bounds:
  assumes "valid_policy p" "attempt \<ge> 0" "0 \<le> rnd" "rnd \<le> 1"
  shows "\<lfloor>of_int (base_delay p attempt) * (7 / 10 :: rat)\<rfloor> \<le> delayFor p rnd attempt"
    and "delayFor p rnd attempt \<le> \<lfloor>of_int (base_delay p attempt) * (13 / 10 :: rat)\<rfloor>"
proof -
  let ?d = "of_int (base_delay p attempt) :: rat"
  have d: "0 \<le> ?d" using base_delay_nonneg assms by simp
  have lo: "?d * (7 / 10) \<le> ?d" "?d \<le> ?d * (13 / 10)" using d by (simp_all add: mult_le_cancel_left1 mult_le_cancel_left2)
  show "\<lfloor>?d * (7 / 10)\<rfloor> \<le> delayFor p rnd attempt"
    using jitter_lower[OF d assms(3)] floor_mono[OF lo(1)] by (auto simp: delayFor_def Let_def intro: floor_mono)
  show "delayFor p rnd attempt \<le> \<lfloor>?d * (13 / 10)\<rfloor>"
    using jitter_upper[OF d assms(4)] floor_mono[OF lo(2)] by (auto simp: delayFor_def Let_def intro: floor_mono)
qed

lemma delayFor_nonneg:
  assumes "valid_policy p" "attempt \<ge> 0" "0 \<le> rnd" "rnd \<le> 1"
  shows "0 \<le> delayFor p rnd attempt"
proof -
  have "0 \<le> of_int (base_delay p attempt) * (7 / 10 :: rat)" using base_delay_nonneg assms by simp
  then have "0 \<le> \<lfloor>of_int (base_delay p attempt) * (7 / 10 :: rat)\<rfloor>" by (simp only: zero_le_floor)
  then show ?thesis using delayFor_bounds(1)[OF assms] by linarith
qed

lemma shouldRetry_within: "shouldRetry p n err \<Longrightarrow> n \<le> rp_maxRetries p \<and> e_retryable err"
  by (auto simp: shouldRetry_def split: if_splits)

end
