(* ===== verification/RateLimiter.thy ===== *)
theory RateLimiter
  imports QueueTypes
begin

text \<open>
  src/src/queue/RateLimiter.ts: the sliding-window limiter.  The windows are the pairs of
  the window length and the limit that the constructor keeps; the state is the map from a
  bucket key to the uses recorded for it, oldest first.
\<close>

record use_entry =
  u_t :: int
  u_cost :: int

type_synonym limiter_state = "(string, use_entry list) jsmap"

definition rl_windows :: "rate_limit_options \<Rightarrow> (int \<times> int) list" where
  "rl_windows opts = List.map_filter (\<lambda>(v, ms). case v of None \<Rightarrow> None | Some l \<Rightarrow> if l > 0 then Some (ms, l) else None)
     [(rl_perSecond opts, 1000), (rl_perMinute opts, 60000), (rl_perHour opts, 3600000), (rl_perDay opts, 86400000)]"

definition rl_enabled :: "rate_limit_options \<Rightarrow> bool" where
  "rl_enabled opts \<longleftrightarrow> rl_windows opts \<noteq> []"

definition rl_key :: "rate_limit_options \<Rightarrow> q_job \<Rightarrow> string" where
  "rl_key opts job = (case rl_by opts of
     ByFn f \<Rightarrow> f job
   | BySender \<Rightarrow> js_lower (case parseAddressList (o_from (j_options job)) None of [] \<Rightarrow> [] | p # _ \<Rightarrow> pa_email p)
   | ByQueue \<Rightarrow> ''*'')"

definition rl_cost :: "rate_limit_options \<Rightarrow> q_job \<Rightarrow> int" where
  "rl_cost opts job = (if \<not> rl_countRecipients opts then 1
     else max 1 (int (sum_list (map (\<lambda>f. length (parseAddressList f None))
       [o_to (j_options job), o_cc (j_options job), o_bcc (j_options job)]))))"

definition rl_prune :: "rate_limit_options \<Rightarrow> string \<Rightarrow> int \<Rightarrow> limiter_state \<Rightarrow> use_entry list \<times> limiter_state" where
  "rl_prune opts key now st =
     (let longest = Max (set (map fst (rl_windows opts)));
          list = List.filter (\<lambda>u. u_t u > now - longest) (case map_of st key of None \<Rightarrow> [] | Some l \<Rightarrow> l)
      in (list, AList.update key list st))"

text \<open>Cost in use inside one window.\<close>

fun rl_used :: "int \<Rightarrow> int \<Rightarrow> use_entry list \<Rightarrow> int" where
  "rl_used now ms [] = 0"
| "rl_used now ms (u # us) = (if u_t u > now - ms then u_cost u else 0) + rl_used now ms us"

text \<open>The inner loop: when enough capacity expires from this window.\<close>

fun rl_scan :: "int \<Rightarrow> int \<Rightarrow> int \<Rightarrow> use_entry list \<Rightarrow> int \<Rightarrow> int" where
  "rl_scan now ms wait [] free = wait"
| "rl_scan now ms wait (u # us) free =
     (if u_t u \<le> now - ms then rl_scan now ms wait us free
      else if free - u_cost u \<le> 0 then max wait (u_t u + ms - now)
      else rl_scan now ms wait us (free - u_cost u))"

definition rl_window_wait :: "int \<Rightarrow> int \<Rightarrow> use_entry list \<Rightarrow> int \<times> int \<Rightarrow> int \<Rightarrow> int" where
  "rl_window_wait now cost uses w wait = (case w of (ms, limit) \<Rightarrow>
     if cost > limit then wait
     else let used = rl_used now ms uses in
       if used + cost \<le> limit then wait
       else rl_scan now ms wait uses (used + cost - limit))"

definition rl_waitFor :: "rate_limit_options \<Rightarrow> q_job \<Rightarrow> int \<Rightarrow> limiter_state \<Rightarrow> int \<times> limiter_state" where
  "rl_waitFor opts job now st =
     (let key = rl_key opts job; cost = rl_cost opts job; (uses, st1) = rl_prune opts key now st
      in (fold (rl_window_wait now cost uses) (rl_windows opts) 0, st1))"

definition rl_record :: "rate_limit_options \<Rightarrow> q_job \<Rightarrow> int \<Rightarrow> limiter_state \<Rightarrow> limiter_state" where
  "rl_record opts job now st =
     (let key = rl_key opts job; list = (case map_of st key of None \<Rightarrow> [] | Some l \<Rightarrow> l)
      in AList.update key (list @ [\<lparr> u_t = now, u_cost = rl_cost opts job \<rparr>]) st)"


text \<open>
  What the limiter promises: the job fits when, in every window that could ever hold it,
  the cost still in use plus its own cost stays within the limit.
\<close>

definition rl_stored :: "limiter_state \<Rightarrow> string \<Rightarrow> use_entry list" where
  "rl_stored st key = (case map_of st key of None \<Rightarrow> [] | Some l \<Rightarrow> l)"

definition rl_fits :: "rate_limit_options \<Rightarrow> use_entry list \<Rightarrow> int \<Rightarrow> int \<Rightarrow> bool" where
  "rl_fits opts uses now cost \<longleftrightarrow>
     (\<forall>(ms, limit) \<in> set (rl_windows opts). cost \<le> limit \<longrightarrow> rl_used now ms uses + cost \<le> limit)"

definition uses_ok :: "use_entry list \<Rightarrow> bool" where
  "uses_ok us \<longleftrightarrow> sorted (map u_t us) \<and> (\<forall>u\<in>set us. u_cost u > 0)"

lemma windows_pos: "(ms, limit) \<in> set (rl_windows opts) \<Longrightarrow> ms > 0 \<and> limit > 0"
  by (auto simp: rl_windows_def List.map_filter_def split: option.splits if_splits)

lemma rl_cost_pos: "rl_cost opts job > 0"
  by (auto simp: rl_cost_def)

lemma rl_used_nonneg: "\<forall>u\<in>set us. u_cost u > 0 \<Longrightarrow> rl_used now ms us \<ge> 0"
  by (induction us) (auto simp: add_nonneg_nonneg)

lemma rl_used_antimono:
  "\<forall>u\<in>set us. u_cost u > 0 \<Longrightarrow> now \<le> now' \<Longrightarrow> rl_used now' ms us \<le> rl_used now ms us"
  by (induction us) (auto simp: add_mono)

lemma rl_used_none: "\<forall>u\<in>set us. u_t u \<le> now - ms \<Longrightarrow> rl_used now ms us = 0"
  by (induction us) auto

lemma rl_used_append: "rl_used now ms (us @ vs) = rl_used now ms us + rl_used now ms vs"
  by (induction us) auto

lemma rl_used_filter:
  "ms \<le> longest \<Longrightarrow> t0 \<le> now \<Longrightarrow> rl_used now ms (List.filter (\<lambda>u. u_t u > t0 - longest) us) = rl_used now ms us"
  by (induction us) auto

lemma rl_scan_ge: "rl_scan now ms wait us free \<ge> wait"
  by (induction now ms wait us free rule: rl_scan.induct) auto

text \<open>
  The scan stops at the use whose expiry frees enough capacity: after it the window has
  room, and at every earlier moment it has not.
\<close>

lemma rl_scan_exact:
  assumes "uses_ok us" "0 < free" "free \<le> rl_used now ms us"
  shows "\<exists>d>0. rl_scan now ms wait us free = max wait d \<and> (\<exists>v\<in>set us. now + d = u_t v + ms) \<and>
      (\<forall>t\<ge>now + d. rl_used t ms us \<le> rl_used now ms us - free) \<and>
      (\<forall>t. now \<le> t \<and> t < now + d \<longrightarrow> rl_used t ms us > rl_used now ms us - free)"
  using assms
proof (induction us arbitrary: free)
  case (Cons u us)
  have ok: "uses_ok us" "\<forall>v\<in>set us. u_t u \<le> u_t v" "u_cost u > 0" "\<forall>v\<in>set us. u_cost v > 0"
    using Cons.prems(1) by (auto simp: uses_ok_def)
  show ?case
  proof (cases "u_t u \<le> now - ms")
    case True
    then have same: "rl_used t ms (u # us) = rl_used t ms us" if "t \<ge> now" for t using that by simp
    obtain d where d: "d > 0" "rl_scan now ms wait us free = max wait d" "\<exists>v\<in>set us. now + d = u_t v + ms"
        "\<And>t. t \<ge> now + d \<Longrightarrow> rl_used t ms us \<le> rl_used now ms us - free"
        "\<And>t. now \<le> t \<and> t < now + d \<Longrightarrow> rl_used t ms us > rl_used now ms us - free"
      using Cons.IH[OF ok(1) Cons.prems(2)] Cons.prems(3) same[of now] by auto
    then show ?thesis using True same by (intro exI[of _ d]) (auto simp del: rl_used.simps)
  next
    case False
    show ?thesis
    proof (cases "free - u_cost u \<le> 0")
      case True
      have "rl_used now ms us - (u_cost u + rl_used now ms us - free) \<ge> 0" if "u_cost u \<le> free" using that True by simp
      have gone: "rl_used t ms (u # us) \<le> rl_used now ms (u # us) - free" if "t \<ge> u_t u + ms" for t
        using that True False ok rl_used_antimono[OF ok(4), of now t ms] by auto
      have still: "rl_used t ms (u # us) > rl_used now ms (u # us) - free" if "now \<le> t" "t < u_t u + ms" for t
      proof -
        have all: "u_t v > t - ms" if "v \<in> set us" for v using that ok(2) \<open>t < u_t u + ms\<close> by force
        have "rl_used t ms vs = rl_used now ms vs" if "set vs \<subseteq> set us" for vs
          using that by (induction vs) (use all that \<open>now \<le> t\<close> in force)+
        then have "rl_used t ms us = rl_used now ms us" by blast
        then show ?thesis using that False Cons.prems(2) by simp
      qed
      show ?thesis using True False gone still by (intro exI[of _ "u_t u + ms - now"]) auto
    next
      case large: False
      have "free - u_cost u \<le> rl_used now ms us" using Cons.prems(3) False by simp
      then obtain d where d: "d > 0" "rl_scan now ms wait us (free - u_cost u) = max wait d"
          "\<exists>v\<in>set us. now + d = u_t v + ms"
          "\<And>t. t \<ge> now + d \<Longrightarrow> rl_used t ms us \<le> rl_used now ms us - (free - u_cost u)"
          "\<And>t. now \<le> t \<and> t < now + d \<Longrightarrow> rl_used t ms us > rl_used now ms us - (free - u_cost u)"
        using Cons.IH[OF ok(1), of "free - u_cost u"] large by auto
      have u_gone: "u_t u \<le> now + d - ms" using d(3) ok(2) by force
      have gone: "rl_used t ms (u # us) \<le> rl_used now ms (u # us) - free" if "t \<ge> now + d" for t
        using d(4)[OF that] u_gone that False by auto
      have still: "rl_used t ms (u # us) > rl_used now ms (u # us) - free" if "now \<le> t \<and> t < now + d" for t
        using d(5)[OF that] False ok(3) by auto
      show ?thesis using False large d gone still by (intro exI[of _ d]) (auto simp del: rl_used.simps)
    qed
  qed
qed simp

lemma rl_window_wait_ge: "rl_window_wait now cost uses w wait \<ge> wait"
  by (auto simp: rl_window_wait_def Let_def rl_scan_ge split: prod.splits)

lemma rl_window_wait_exact:
  assumes "uses_ok uses" "cost > 0" "w = (ms, limit)"
  shows "if cost \<le> limit \<and> rl_used now ms uses + cost > limit
         then \<exists>d>0. rl_window_wait now cost uses w wait = max wait d \<and>
              (\<forall>t\<ge>now + d. rl_used t ms uses + cost \<le> limit) \<and>
              (\<forall>t. now \<le> t \<and> t < now + d \<longrightarrow> rl_used t ms uses + cost > limit)
         else rl_window_wait now cost uses w wait = wait"
proof (cases "cost \<le> limit \<and> rl_used now ms uses + cost > limit")
  case True
  let ?free = "rl_used now ms uses + cost - limit"
  from rl_scan_exact[OF assms(1), of ?free now ms wait] True obtain d where
    "d > 0" "rl_scan now ms wait uses ?free = max wait d"
    and late: "\<forall>t\<ge>now + d. rl_used t ms uses \<le> rl_used now ms uses - ?free"
    and early: "\<forall>t. now \<le> t \<and> t < now + d \<longrightarrow> rl_used t ms uses > rl_used now ms uses - ?free" by auto
  moreover have "\<forall>t\<ge>now + d. rl_used t ms uses + cost \<le> limit" using late by fastforce
  moreover have "\<forall>t. now \<le> t \<and> t < now + d \<longrightarrow> rl_used t ms uses + cost > limit" using early by fastforce
  ultimately show ?thesis using True assms(3) by (auto simp: rl_window_wait_def Let_def)
qed (auto simp: rl_window_wait_def Let_def assms(3))

lemma fold_wait_ge: "fold (rl_window_wait now cost uses) ws w0 \<ge> w0"
  by (induction ws arbitrary: w0) (auto intro: order_trans[OF rl_window_wait_ge])

text \<open>The wait over all windows is exact.\<close>

lemma rl_fold_exact:
  assumes "uses_ok uses" "cost > 0" "0 \<le> w0"
  shows "\<forall>t\<ge>now + fold (rl_window_wait now cost uses) ws w0.
           \<forall>(ms, limit) \<in> set ws. cost \<le> limit \<longrightarrow> rl_used t ms uses + cost \<le> limit"
    and "now \<le> t \<Longrightarrow> t < now + fold (rl_window_wait now cost uses) ws w0 \<Longrightarrow>
           t < now + w0 \<or> (\<exists>(ms, limit) \<in> set ws. cost \<le> limit \<and> rl_used t ms uses + cost > limit)"
  using assms(3)
proof (induction ws arbitrary: w0)
  case (Cons w ws)
  obtain ms limit where w: "w = (ms, limit)" by (cases w)
  have pos: "\<forall>u\<in>set uses. u_cost u > 0" using assms(1) by (simp add: uses_ok_def)
  note ex = rl_window_wait_exact[OF assms(1,2) w, of now]
  {
    case (1 w0)
    let ?w1 = "rl_window_wait now cost uses w w0"
    have w1: "?w1 \<ge> w0" by (rule rl_window_wait_ge)
    have here: "rl_used t ms uses + cost \<le> limit" if "t \<ge> now + ?w1" "cost \<le> limit" for t
    proof (cases "rl_used now ms uses + cost > limit")
      case True
      then show ?thesis using ex[of w0] that by auto
    next
      case False
      have "now \<le> t" using that w1 1 by linarith
      then show ?thesis using rl_used_antimono[OF pos, of now t ms] False by linarith
    qed
    show ?case using Cons.IH(1)[of ?w1] w1 1 here w fold_wait_ge[where ?w0.0="?w1" and ws=ws and now=now and cost=cost and uses=uses]
      by (auto 0 3)
  next
    case (2 w0)
    let ?w1 = "rl_window_wait now cost uses w w0"
    have w1: "?w1 \<ge> w0" by (rule rl_window_wait_ge)
    have "t < now + ?w1 \<or> (\<exists>(ms, limit) \<in> set ws. cost \<le> limit \<and> rl_used t ms uses + cost > limit)"
      using Cons.IH(2)[of ?w1] w1 2 by auto
    then show ?case
    proof
      assume "t < now + ?w1"
      then show ?thesis using ex[of w0] w 2 by (auto split: if_splits)
    qed auto
  }
qed auto

lemma rl_used_prune:
  assumes "(ms, limit) \<in> set (rl_windows opts)" "t \<ge> now"
  shows "rl_used t ms (fst (rl_prune opts key now st)) = rl_used t ms (rl_stored st key)"
proof -
  have "ms \<le> Max (set (map fst (rl_windows opts)))" using assms(1) by (intro Max_ge) force+
  then show ?thesis using assms(2) by (simp add: rl_prune_def Let_def rl_stored_def rl_used_filter)
qed

lemma uses_ok_filter: "uses_ok us \<Longrightarrow> uses_ok (List.filter P us)"
  by (auto simp: uses_ok_def intro: sorted_filter)

lemma uses_ok_prune: "uses_ok (rl_stored st key) \<Longrightarrow> uses_ok (fst (rl_prune opts key now st))"
  by (simp add: rl_prune_def Let_def rl_stored_def uses_ok_filter)

text \<open>
  waitFor is exact: after the wait it returns (and no other use) the job fits in every
  window, and at no earlier moment does it.
\<close>

lemma rl_waitFor_exact:
  fixes now :: int
  assumes "uses_ok (rl_stored st (rl_key opts job))"
  defines "w \<equiv> fst (rl_waitFor opts job now st)"
  shows "w \<ge> 0"
    and "t \<ge> now + w \<Longrightarrow> rl_fits opts (rl_stored st (rl_key opts job)) t (rl_cost opts job)"
    and "now \<le> t \<Longrightarrow> t < now + w \<Longrightarrow> \<not> rl_fits opts (rl_stored st (rl_key opts job)) t (rl_cost opts job)"
proof -
  let ?us = "fst (rl_prune opts (rl_key opts job) now st)"
  have w: "w = fold (rl_window_wait now (rl_cost opts job) ?us) (rl_windows opts) 0"
    by (simp add: w_def rl_waitFor_def Let_def case_prod_beta)
  have ok: "uses_ok ?us" by (rule uses_ok_prune[OF assms(1)])
  note exact = rl_fold_exact[OF ok rl_cost_pos[of opts job] order_refl, where ws="rl_windows opts" and now=now, folded w]
  show "w \<ge> 0" unfolding w by (rule fold_wait_ge)
  then show "rl_fits opts (rl_stored st (rl_key opts job)) t (rl_cost opts job)" if "t \<ge> now + w"
    using exact(1) that rl_used_prune[of _ _ opts now t "rl_key opts job" st]
    by (force simp: rl_fits_def)
  show "\<not> rl_fits opts (rl_stored st (rl_key opts job)) t (rl_cost opts job)" if "now \<le> t" "t < now + w"
    using exact(2)[OF that] that rl_used_prune[of _ _ opts now t "rl_key opts job" st]
    by (force simp: rl_fits_def)
qed

text \<open>
  One pass of the scheduler over the limiter (MailQueue.tick): ask, and record the use when
  the answer is now.
\<close>

definition rl_admit :: "rate_limit_options \<Rightarrow> q_job \<Rightarrow> int \<Rightarrow> limiter_state \<Rightarrow> int \<times> limiter_state" where
  "rl_admit opts job now st = (let (wait, st1) = rl_waitFor opts job now st in
     if wait > 0 then (wait, st1) else (0, rl_record opts job now st1))"

text \<open>Cost of the sends of a history in the window of length ms that ends at t.\<close>

fun rl_in_window :: "int \<Rightarrow> int \<Rightarrow> use_entry list \<Rightarrow> int" where
  "rl_in_window t ms [] = 0"
| "rl_in_window t ms (u # us) = (if t - ms < u_t u \<and> u_t u \<le> t then u_cost u else 0) + rl_in_window t ms us"

lemma in_window_append: "rl_in_window t ms (us @ vs) = rl_in_window t ms us + rl_in_window t ms vs"
  by (induction us) auto

lemma in_window_le_used:
  "\<forall>u\<in>set us. u_cost u > 0 \<and> u_t u \<le> now \<Longrightarrow> now \<le> t \<Longrightarrow> rl_in_window t ms us \<le> rl_used now ms us"
  by (induction us) (auto simp: add_mono)

text \<open>
  The uses the limit of a window binds: a job that costs more than the limit is let through
  at once and only counted, so the limit speaks of the others.
\<close>

definition rl_bound :: "int \<Rightarrow> use_entry list \<Rightarrow> use_entry list" where
  "rl_bound limit h = List.filter (\<lambda>u. u_cost u \<le> limit) h"

lemma rl_bound_append: "rl_bound limit (us @ vs) = rl_bound limit us @ rl_bound limit vs"
  by (simp add: rl_bound_def)

lemma in_window_bound: "\<forall>u\<in>set h. u_cost u > 0 \<Longrightarrow> rl_in_window t ms (rl_bound limit h) \<le> rl_in_window t ms h"
  by (induction h) (auto simp: rl_bound_def)

text \<open>
  The history h of the admitted sends of one bucket against the list the limiter kept:
  same cost in every window from now on, and no window ever over its limit.
\<close>

definition rl_inv :: "rate_limit_options \<Rightarrow> int \<Rightarrow> use_entry list \<Rightarrow> use_entry list \<Rightarrow> bool" where
  "rl_inv opts now us h \<longleftrightarrow> uses_ok us \<and> (\<forall>u\<in>set us. u_t u \<le> now) \<and> (\<forall>u\<in>set h. u_cost u > 0 \<and> u_t u \<le> now) \<and>
     (\<forall>(ms, limit)\<in>set (rl_windows opts).
        (\<forall>t\<ge>now. rl_used t ms us = rl_used t ms h) \<and> (\<forall>t. rl_in_window t ms (rl_bound limit h) \<le> limit))"

lemma rl_inv_init: "rl_inv opts now [] []"
  by (auto simp: rl_inv_def uses_ok_def rl_bound_def dest: windows_pos)

lemma rl_inv_later: "rl_inv opts now us h \<Longrightarrow> now \<le> now' \<Longrightarrow> rl_inv opts now' us h"
  by (fastforce simp: rl_inv_def)

lemma stored_waitFor:
  "rl_stored (snd (rl_waitFor opts job now st)) key =
     (if key = rl_key opts job then fst (rl_prune opts key now st) else rl_stored st key)"
  by (simp add: rl_waitFor_def rl_prune_def Let_def rl_stored_def map_of_update)

lemma stored_record:
  "rl_stored (rl_record opts job now st) key =
     (if key = rl_key opts job then rl_stored st key @ [\<lparr> u_t = now, u_cost = rl_cost opts job \<rparr>] else rl_stored st key)"
  by (simp add: rl_record_def Let_def rl_stored_def map_of_update)

lemma rl_inv_prune:
  assumes "rl_inv opts now (rl_stored st key) h"
  shows "rl_inv opts now (fst (rl_prune opts key now st)) h"
proof -
  let ?us = "fst (rl_prune opts key now st)"
  have "set ?us \<subseteq> set (rl_stored st key)" by (auto simp: rl_prune_def Let_def rl_stored_def)
  moreover have "uses_ok ?us" using assms by (intro uses_ok_prune) (simp add: rl_inv_def)
  moreover have "rl_used t ms ?us = rl_used t ms h" if "(ms, limit) \<in> set (rl_windows opts)" "t \<ge> now" for t ms limit
    using rl_used_prune[OF that, of key st] assms that by (auto simp: rl_inv_def)
  ultimately show ?thesis using assms by (auto simp: rl_inv_def)
qed

lemma rl_inv_record:
  assumes "rl_inv opts now us h" "rl_fits opts us now c" "c > 0"
  defines "e \<equiv> \<lparr> u_t = now, u_cost = c \<rparr>"
  shows "rl_inv opts now (us @ [e]) (h @ [e])"
proof -
  have b: "rl_in_window t ms (rl_bound limit (h @ [e])) \<le> limit" if w: "(ms, limit) \<in> set (rl_windows opts)" for t ms limit
  proof (cases "c \<le> limit \<and> now \<le> t \<and> t - ms < now")
    case True
    have "rl_in_window t ms (rl_bound limit h) \<le> rl_in_window t ms h"
      using assms(1) by (intro in_window_bound) (simp add: rl_inv_def)
    moreover have "rl_in_window t ms h \<le> rl_used now ms h"
      using assms(1) True by (intro in_window_le_used) (auto simp: rl_inv_def)
    moreover have "rl_used now ms h = rl_used now ms us" using assms(1) w by (auto simp: rl_inv_def)
    moreover have "rl_used now ms us + c \<le> limit" using assms(2) True w by (auto simp: rl_fits_def)
    ultimately show ?thesis using True by (simp add: rl_bound_append in_window_append) (simp add: rl_bound_def e_def)
  next
    case False
    have "rl_in_window t ms (rl_bound limit h) \<le> limit" using assms(1) w by (auto simp: rl_inv_def)
    then show ?thesis using False by (simp add: rl_bound_append in_window_append) (auto simp: rl_bound_def e_def)
  qed
  have "uses_ok (us @ [e])" using assms(1,3) by (auto simp: rl_inv_def uses_ok_def sorted_append e_def)
  then show ?thesis using assms(1,3) b by (auto simp: rl_inv_def rl_used_append e_def)
qed

text \<open>Limiter and ghost history together: requests are (job, time) pairs in time order.\<close>

definition rl_step :: "rate_limit_options \<Rightarrow> limiter_state \<times> (string \<Rightarrow> use_entry list) \<Rightarrow> q_job \<times> int
    \<Rightarrow> limiter_state \<times> (string \<Rightarrow> use_entry list)" where
  "rl_step opts s r = (case s of (st, h) \<Rightarrow> case r of (job, now) \<Rightarrow>
     (let (wait, st1) = rl_admit opts job now st; k = rl_key opts job in
      (st1, if wait > 0 then h else h(k := h k @ [\<lparr> u_t = now, u_cost = rl_cost opts job \<rparr>]))))"

lemma rl_step_inv:
  assumes "\<forall>k. rl_inv opts t0 (rl_stored st k) (h k)" "t0 \<le> now"
  shows "\<forall>k. rl_inv opts now (rl_stored (fst (rl_step opts (st, h) (job, now))) k) (snd (rl_step opts (st, h) (job, now)) k)"
proof
  fix k
  let ?key = "rl_key opts job" and ?c = "rl_cost opts job"
  have now: "rl_inv opts now (rl_stored st k) (h k)" for k using assms(1,2) rl_inv_later by blast
  obtain w st1 where w: "rl_waitFor opts job now st = (w, st1)" by fastforce
  have p: "rl_inv opts now (rl_stored st1 k) (h k)" for k
    using stored_waitFor[of opts job now st k] rl_inv_prune[OF now] now[of k] w by (auto split: if_splits)
  show "rl_inv opts now (rl_stored (fst (rl_step opts (st, h) (job, now))) k) (snd (rl_step opts (st, h) (job, now)) k)"
  proof (cases "w > 0")
    case True
    then show ?thesis using p[of k] w by (simp add: rl_step_def rl_admit_def)
  next
    case False
    have ok: "uses_ok (rl_stored st ?key)" using now[of ?key] by (simp add: rl_inv_def)
    have "w \<ge> 0" using rl_waitFor_exact(1)[OF ok, of now] w by simp
    then have fits0: "rl_fits opts (rl_stored st ?key) now ?c"
      using rl_waitFor_exact(2)[OF ok, of now now] w False by simp
    have "rl_fits opts (rl_stored st1 ?key) now ?c"
      using fits0 p[of ?key] now[of ?key] by (fastforce simp: rl_fits_def rl_inv_def)
    then show ?thesis using False w p[of k] rl_inv_record[OF p[of ?key] _ rl_cost_pos]
      by (auto simp: rl_step_def rl_admit_def stored_record Let_def)
  qed
qed

text \<open>Requests in time order.\<close>

fun requests_ok :: "rate_limit_options \<Rightarrow> int \<Rightarrow> (q_job \<times> int) list \<Rightarrow> bool" where
  "requests_ok opts t0 [] = True"
| "requests_ok opts t0 ((job, now) # rs) =
     (t0 \<le> now \<and> requests_ok opts now rs)"

lemma rl_run_inv:
  assumes "requests_ok opts t0 rs" "\<forall>k. rl_inv opts t0 (rl_stored (fst s) k) (snd s k)"
  shows "\<exists>t. \<forall>k. rl_inv opts t (rl_stored (fst (run (rl_step opts) s rs)) k) (snd (run (rl_step opts) s rs) k)"
  using assms
proof (induction rs arbitrary: s t0)
  case (Cons r rs)
  obtain job now where r: "r = (job, now)" by (cases r)
  obtain st h where s: "s = (st, h)" by (cases s)
  have "\<forall>k. rl_inv opts now (rl_stored (fst (rl_step opts s r)) k) (snd (rl_step opts s r) k)"
    using rl_step_inv[of opts t0 st h now job] Cons.prems r s by (auto simp: list_all_iff)
  then show ?case using Cons.IH[of now "rl_step opts s r"] Cons.prems(1) r by simp
qed auto

lemma rl_run_bound:
  assumes "requests_ok opts t0 rs" "(ms, limit) \<in> set (rl_windows opts)"
  shows "rl_in_window t ms (rl_bound limit (snd (run (rl_step opts) ([], \<lambda>_. []) rs) k)) \<le> limit"
proof -
  have "\<forall>k. rl_inv opts t0 (rl_stored (fst ([], \<lambda>_. [])) k) (snd ([], \<lambda>_. []) k)"
    by (simp add: rl_stored_def rl_inv_init)
  from rl_run_inv[OF assms(1) this] obtain t1 where
    "rl_inv opts t1 (rl_stored (fst (run (rl_step opts) ([], \<lambda>_. []) rs)) k) (snd (run (rl_step opts) ([], \<lambda>_. []) rs) k)"
    by blast
  then show ?thesis using assms(2) by (auto simp: rl_inv_def)
qed

end
