(* ===== verification/MailQueue.thy ===== *)
theory MailQueue
  imports RetryPolicy RateLimiter
begin

text \<open>
  src/src/queue/MailQueue.ts and src/src/queue/DeadLetterQueue.ts, operation by operation.

  Job objects are shared: the same object sits in a tier, in the scheduled map, in the
  running map, in the dead-letter queue and in the idempotency map, and is mutated in
  place.  The model keeps a heap of jobs (a list) and the containers hold references (nat
  indices).  Controllers are objects too and live in a heap of their own.

  The asynchronous function execute is cut at its awaits.  start_job runs from the call to
  the await of sendWithTimeout; settle runs when the send settles or its timeout fires,
  with the outcome as an argument; finish is the callback of the trailing finally of tick,
  which runs in a later microtask (for a dead job only after the persist callback has
  settled).  q_sending holds the executions between start and settle as pairs (job,
  controller), q_finishing the jobs whose finally callback is still to run.  Every
  operation takes the current time; randomness (ids, tokens, jitter) is an argument.
  Events are appended to a trace; listeners are assumed not to call back synchronously.
  (The dash in the text of paused_error is written as a hyphen.)
\<close>

section \<open>State\<close>

record queue_options =
  qo_concurrency :: "nat option"
  qo_maxRetries :: "int option"
  qo_retryDelay :: "int option"
  qo_maxRetryDelay :: "int option"
  qo_retryBackoff :: "backoff_kind option"
  qo_jitter :: "bool option"
  qo_jobTimeout :: "int option"
  qo_dlEnabled :: "bool option"
  qo_dlMaxAge :: "int option"
  qo_defaultPriority :: "job_priority option"
  qo_idempotencyWindowMs :: "int option"
  qo_rateLimit :: "rate_limit_options option"

record queue_cfg =
  qc_concurrency :: nat
  qc_jobTimeout :: int
  qc_defaultPriority :: job_priority
  qc_policy :: retry_policy
  qc_dlEnabled :: bool
  qc_dlMaxAge :: int
  qc_limiter :: "rate_limit_options option"
  qc_idempotencyWindowMs :: int
  qc_persistent :: bool

datatype q_event = EvEnqueued nat | EvScheduled nat | EvPromoted nat | EvThrottled nat int
  | EvStarted nat | EvSuccess nat send_result | EvRetry nat int int | EvDead nat "mail_error list"
  | EvDrained | EvCancelled nat | EvInterrupted nat | EvSettled
  | EvDrainResolved nat | EvDrainRejected nat mail_error

record mail_queue =
  q_heap :: "q_job list"
  q_pending :: "job_priority \<Rightarrow> nat list"
  q_scheduled :: "(string, nat) jsmap"
  q_running :: "(string, nat) jsmap"
  q_timer :: "int option"
  q_succeeded :: int
  q_cancelled :: int
  q_dlq :: "(string, nat) jsmap"
  q_sendFn :: bool
  q_drainWaiters :: "nat list"
  q_nextWaiter :: nat
  q_paused :: bool
  q_closed :: bool
  q_controllers :: "(string, nat) jsmap"
  q_ctrls :: "control_reason option list"
  q_sending :: "(nat \<times> nat) list"
  q_finishing :: "nat list"
  q_limiter :: limiter_state
  q_idempotent :: "(string, nat \<times> int) jsmap"
  q_throttled :: "string set"
  q_trace :: "q_event list"

text \<open>The constructor.\<close>

definition new_queue_cfg :: "queue_options \<Rightarrow> bool \<Rightarrow> queue_cfg" where
  "new_queue_cfg o1 persistent = \<lparr>
     qc_concurrency = or_default (qo_concurrency o1) 3,
     qc_jobTimeout = or_default (qo_jobTimeout o1) 30000,
     qc_defaultPriority = or_default (qo_defaultPriority o1) Normal,
     qc_policy = new_policy \<lparr> ro_maxRetries = Some (or_default (qo_maxRetries o1) 5),
        ro_initialDelay = Some (or_default (qo_retryDelay o1) 1000), ro_maxDelay = qo_maxRetryDelay o1,
        ro_backoff = Some (or_default (qo_retryBackoff o1) Exponential), ro_jitter = Some (or_default (qo_jitter o1) True) \<rparr>,
     qc_dlEnabled = or_default (qo_dlEnabled o1) True,
     qc_dlMaxAge = or_default (qo_dlMaxAge o1) 86400000,
     qc_limiter = (case qo_rateLimit o1 of None \<Rightarrow> None | Some l \<Rightarrow> if rl_enabled l then Some l else None),
     qc_idempotencyWindowMs = or_default (qo_idempotencyWindowMs o1) (7 * 86400000),
     qc_persistent = persistent \<rparr>"

definition new_queue :: mail_queue where
  "new_queue = \<lparr> q_heap = [], q_pending = (\<lambda>_. []), q_scheduled = [], q_running = [], q_timer = None,
     q_succeeded = 0, q_cancelled = 0, q_dlq = [], q_sendFn = False, q_drainWaiters = [], q_nextWaiter = 0,
     q_paused = False, q_closed = False, q_controllers = [], q_ctrls = [], q_sending = [], q_finishing = [],
     q_limiter = [], q_idempotent = [], q_throttled = {}, q_trace = [] \<rparr>"

section \<open>Access to jobs and events\<close>

abbreviation job_of :: "mail_queue \<Rightarrow> nat \<Rightarrow> q_job" where
  "job_of q r \<equiv> q_heap q ! r"

abbreviation id_of :: "mail_queue \<Rightarrow> nat \<Rightarrow> string" where
  "id_of q r \<equiv> j_id (q_heap q ! r)"

definition set_job :: "nat \<Rightarrow> (q_job \<Rightarrow> q_job) \<Rightarrow> mail_queue \<Rightarrow> mail_queue" where
  "set_job r f q = q \<lparr> q_heap := (q_heap q)[r := f (q_heap q ! r)] \<rparr>"

definition emit :: "q_event \<Rightarrow> mail_queue \<Rightarrow> mail_queue" where
  "emit e q = q \<lparr> q_trace := q_trace q @ [e] \<rparr>"

definition due_of :: "q_job \<Rightarrow> int" where
  "due_of j = (case j_notBefore j of None \<Rightarrow> 0 | Some t \<Rightarrow> t)"

definition pending_refs :: "mail_queue \<Rightarrow> nat list" where
  "pending_refs q = concat (map (q_pending q) PRIORITY_ORDER)"

definition waitingJobs :: "mail_queue \<Rightarrow> nat list" where
  "waitingJobs q = pending_refs q @ jsvals (q_scheduled q)"

definition pendingCount :: "mail_queue \<Rightarrow> nat" where
  "pendingCount q = sum_list (map (\<lambda>t. length (q_pending q t)) PRIORITY_ORDER)"

definition idleCount :: "mail_queue \<Rightarrow> nat" where
  "idleCount q = pendingCount q + length (q_running q) + length (q_scheduled q)"

definition find_job :: "string \<Rightarrow> mail_queue \<Rightarrow> nat option" where
  "find_job i q = (case map_of (q_running q) i of Some r \<Rightarrow> Some r
     | None \<Rightarrow> (case map_of (q_scheduled q) i of Some r \<Rightarrow> Some r
     | None \<Rightarrow> List.find (\<lambda>r. id_of q r = i) (waitingJobs q)))"

section \<open>Dead-letter queue\<close>

definition dlq_gc :: "int \<Rightarrow> int \<Rightarrow> q_job list \<Rightarrow> (string, nat) jsmap \<Rightarrow> (string, nat) jsmap" where
  "dlq_gc maxAge now heap d = List.filter (\<lambda>(i, r). \<not> j_createdAt (heap ! r) < now - maxAge) d"

text \<open>DeadLetterQueue.add up to the await of the persist callback, which cannot fail it.\<close>

definition dlq_add :: "queue_cfg \<Rightarrow> int \<Rightarrow> nat \<Rightarrow> mail_queue \<Rightarrow> mail_queue" where
  "dlq_add cfg now r q =
     (if \<not> qc_dlEnabled cfg then q
      else let q1 = set_job r (\<lambda>j. j \<lparr> j_status := StDead \<rparr>) q;
               q2 = q1 \<lparr> q_dlq := AList.update (id_of q1 r) r (q_dlq q1) \<rparr>;
               q3 = emit (EvDead r (j_errors (job_of q2 r))) q2
           in q3 \<lparr> q_dlq := dlq_gc (qc_dlMaxAge cfg) now (q_heap q3) (q_dlq q3) \<rparr>)"

definition dlq_load :: "nat \<Rightarrow> mail_queue \<Rightarrow> mail_queue" where
  "dlq_load r q = (let q1 = set_job r (\<lambda>j. j \<lparr> j_status := StDead \<rparr>) q
                   in q1 \<lparr> q_dlq := AList.update (id_of q1 r) r (q_dlq q1) \<rparr>)"

definition dlq_getAll :: "mail_queue \<Rightarrow> nat list" where "dlq_getAll q = jsvals (q_dlq q)"
definition dlq_get :: "string \<Rightarrow> mail_queue \<Rightarrow> nat option" where "dlq_get i q = map_of (q_dlq q) i"
definition dlq_remove :: "string \<Rightarrow> mail_queue \<Rightarrow> bool \<times> mail_queue" where
  "dlq_remove i q = (map_of (q_dlq q) i \<noteq> None, q \<lparr> q_dlq := AList.delete i (q_dlq q) \<rparr>)"
definition dlq_clear :: "mail_queue \<Rightarrow> mail_queue" where "dlq_clear q = q \<lparr> q_dlq := [] \<rparr>"

section \<open>Scheduler\<close>

definition max_timer_delay :: int where "max_timer_delay = 2 ^ 31 - 1"

definition next_due :: "mail_queue \<Rightarrow> int option" where
  "next_due q = (case map (\<lambda>r. due_of (job_of q r)) (jsvals (q_scheduled q)) of
     [] \<Rightarrow> None | t # ts \<Rightarrow> Some (fold min ts t))"

definition armSchedule :: "int \<Rightarrow> mail_queue \<Rightarrow> mail_queue" where
  "armSchedule now q = q \<lparr> q_timer := (case next_due q of None \<Rightarrow> None
     | Some next \<Rightarrow> Some (now + min (max 0 (next - now)) max_timer_delay)) \<rparr>"

fun shift_tiers :: "job_priority list \<Rightarrow> (job_priority \<Rightarrow> nat list) \<Rightarrow> (nat \<times> (job_priority \<Rightarrow> nat list)) option" where
  "shift_tiers [] p = None"
| "shift_tiers (t # ts) p = (case p t of r # rs \<Rightarrow> Some (r, p(t := rs)) | [] \<Rightarrow> shift_tiers ts p)"

definition nextPending :: "mail_queue \<Rightarrow> (nat \<times> mail_queue) option" where
  "nextPending q = (case shift_tiers PRIORITY_ORDER (q_pending q) of
     None \<Rightarrow> None | Some (r, p) \<Rightarrow> Some (r, q \<lparr> q_pending := p \<rparr>))"

text \<open>execute up to the await of the send (the send function is called in it).\<close>

definition start_job :: "int \<Rightarrow> nat \<Rightarrow> mail_queue \<Rightarrow> mail_queue" where
  "start_job now r q =
     (let c = length (q_ctrls q);
          q1 = q \<lparr> q_ctrls := q_ctrls q @ [None], q_controllers := AList.update (id_of q r) c (q_controllers q) \<rparr>;
          q2 = set_job r (\<lambda>j. j \<lparr> j_status := StRunning, j_attempts := j_attempts j + 1, j_lastAttemptAt := Some now \<rparr>) q1;
          q3 = emit (EvStarted r) q2
      in q3 \<lparr> q_sending := q_sending q3 @ [(r, c)] \<rparr>)"

text \<open>The branch of tick for a job over the rate limit.\<close>

definition throttle_job :: "int \<Rightarrow> int \<Rightarrow> nat \<Rightarrow> mail_queue \<Rightarrow> mail_queue" where
  "throttle_job now wait r q =
     (let q1 = set_job r (\<lambda>j. j \<lparr> j_status := StScheduled, j_notBefore := Some (now + wait) \<rparr>) q;
          q2 = q1 \<lparr> q_throttled := insert (id_of q1 r) (q_throttled q1),
                    q_scheduled := AList.update (id_of q1 r) r (q_scheduled q1) \<rparr>
      in emit (EvThrottled r wait) (emit (EvScheduled r) (armSchedule now q2)))"

definition launch_job :: "int \<Rightarrow> nat \<Rightarrow> mail_queue \<Rightarrow> mail_queue" where
  "launch_job now r q = start_job now r (q \<lparr> q_running := AList.update (id_of q r) r (q_running q) \<rparr>)"

text \<open>One pass of the loop of tick; None when the loop ends.\<close>

definition tick_step :: "queue_cfg \<Rightarrow> int \<Rightarrow> mail_queue \<Rightarrow> mail_queue option" where
  "tick_step cfg now q =
     (if q_paused q \<or> \<not> length (q_running q) < qc_concurrency cfg then None
      else case nextPending q of None \<Rightarrow> None | Some (r, q1) \<Rightarrow>
        (case qc_limiter cfg of
           None \<Rightarrow> Some (launch_job now r q1)
         | Some opts \<Rightarrow>
             (let (wait, ls) = rl_waitFor opts (job_of q1 r) now (q_limiter q1); q2 = q1 \<lparr> q_limiter := ls \<rparr> in
              if wait > 0 then Some (throttle_job now wait r q2)
              else Some (launch_job now r (q2 \<lparr> q_limiter := rl_record opts (job_of q2 r) now (q_limiter q2) \<rparr>)))))"

lemma shift_tiers_Some:
  "shift_tiers ts p = Some (r, p') \<Longrightarrow> \<exists>t rs. t \<in> set ts \<and> p t = r # rs \<and> p' = p(t := rs) \<and>
     (\<forall>t'\<in>set (takeWhile (\<lambda>u. u \<noteq> t) ts). p t' = [])"
proof (induction ts p rule: shift_tiers.induct)
  case (2 t ts p)
  show ?case
  proof (cases "p t")
    case Nil
    then have "shift_tiers ts p = Some (r, p')" using "2.prems" by simp
    from "2.IH"[OF Nil this] obtain t2 rs where *: "t2 \<in> set ts" "p t2 = r # rs" "p' = p(t2 := rs)"
      "\<forall>t'\<in>set (takeWhile (\<lambda>u. u \<noteq> t2) ts). p t' = []" by blast
    with Nil have "t \<noteq> t2" by auto
    with * Nil show ?thesis by (intro exI[of _ t2] exI[of _ rs]) auto
  next
    case (Cons a rs)
    then show ?thesis using "2.prems" by (intro exI[of _ t] exI[of _ rs]) auto
  qed
qed simp

lemma shift_tiers_None: "shift_tiers ts p = None \<longleftrightarrow> (\<forall>t\<in>set ts. p t = [])"
  by (induction ts p rule: shift_tiers.induct) (auto split: list.splits)

lemma nextPending_Some:
  assumes "nextPending q = Some (r, q1)"
  obtains t rs where "q_pending q t = r # rs" "q1 = q \<lparr> q_pending := (q_pending q)(t := rs) \<rparr>"
    "\<forall>t'\<in>set (takeWhile (\<lambda>u. u \<noteq> t) PRIORITY_ORDER). q_pending q t' = []"
  using assms shift_tiers_Some[of PRIORITY_ORDER "q_pending q" r]
  by (fastforce simp: nextPending_def split: option.splits)

lemma nextPending_None: "nextPending q = None \<longleftrightarrow> pending_refs q = []"
  using shift_tiers_None[of PRIORITY_ORDER "q_pending q"]
  by (auto simp: nextPending_def pending_refs_def split: option.splits)

lemma pendingCount_refs: "pendingCount q = length (pending_refs q)"
  by (simp add: pendingCount_def pending_refs_def length_concat comp_def)

lemma pendingCount_shift:
  assumes "q_pending q t = r # rs" "q_pending q' = (q_pending q)(t := rs)"
  shows "pendingCount q' < pendingCount q"
  using assms by (cases t) (auto simp: pendingCount_def PRIORITY_ORDER_def)

lemma pending_frame [simp]:
  "q_pending (set_job r f q) = q_pending q" "q_pending (emit e q) = q_pending q"
  "q_pending (armSchedule now q) = q_pending q" "q_pending (start_job now r q) = q_pending q"
  "q_pending (throttle_job now w r q) = q_pending q" "q_pending (launch_job now r q) = q_pending q"
  by (simp_all add: set_job_def emit_def armSchedule_def start_job_def throttle_job_def launch_job_def Let_def)

lemma tick_step_shift:
  assumes "tick_step cfg now q = Some q'"
  obtains t r rs where "q_pending q t = r # rs" "q_pending q' = (q_pending q)(t := rs)"
  using assms
  by (auto simp: tick_step_def Let_def split: if_splits option.splits prod.splits elim!: nextPending_Some)

lemma tick_step_decreases: "tick_step cfg now q = Some q' \<Longrightarrow> pendingCount q' < pendingCount q"
  by (metis tick_step_shift pendingCount_shift)

function tick_loop :: "queue_cfg \<Rightarrow> int \<Rightarrow> mail_queue \<Rightarrow> mail_queue" where
  "tick_loop cfg now q = (case tick_step cfg now q of None \<Rightarrow> q | Some q' \<Rightarrow> tick_loop cfg now q')"
  by pat_completeness auto
termination
  by (relation "measure (\<lambda>(cfg, now, q). pendingCount q)") (auto dest: tick_step_decreases)

declare tick_loop.simps [simp del]

definition tick :: "queue_cfg \<Rightarrow> int \<Rightarrow> mail_queue \<Rightarrow> mail_queue" where
  "tick cfg now q = (if \<not> q_sendFn q then q else tick_loop cfg now q)"

text \<open>One entry of the loop of promoteDue.\<close>

definition promote_one :: "string \<Rightarrow> nat \<Rightarrow> mail_queue \<Rightarrow> mail_queue" where
  "promote_one i r q =
     (let q1 = q \<lparr> q_scheduled := AList.delete i (q_scheduled q) \<rparr>;
          q2 = set_job r (\<lambda>j. j \<lparr> j_status := StPending, j_notBefore := None \<rparr>) q1;
          t = j_priority (job_of q2 r);
          q3 = (if i \<in> q_throttled q2
                then q2 \<lparr> q_throttled := q_throttled q2 - {i}, q_pending := (q_pending q2)(t := r # q_pending q2 t) \<rparr>
                else q2 \<lparr> q_pending := (q_pending q2)(t := q_pending q2 t @ [r]) \<rparr>)
      in emit (EvPromoted r) q3)"

definition promote_list :: "int \<Rightarrow> (string, nat) jsmap \<Rightarrow> mail_queue \<Rightarrow> mail_queue" where
  "promote_list now es q = fold (\<lambda>(i, r) q. if due_of (job_of q r) \<le> now then promote_one i r q else q) es q"

definition promoteDue :: "queue_cfg \<Rightarrow> int \<Rightarrow> mail_queue \<Rightarrow> mail_queue" where
  "promoteDue cfg now q =
     tick cfg now (armSchedule now (promote_list now (q_scheduled q) (q \<lparr> q_timer := None \<rparr>)))"

definition place :: "queue_cfg \<Rightarrow> int \<Rightarrow> nat \<Rightarrow> mail_queue \<Rightarrow> mail_queue" where
  "place cfg now r q =
     (let j = job_of q r in
      if j_status j = StScheduled \<and> j_notBefore j \<noteq> None \<and> due_of j > now
      then emit (EvScheduled r) (armSchedule now (q \<lparr> q_scheduled := AList.update (j_id j) r (q_scheduled q) \<rparr>))
      else (let q1 = set_job r (\<lambda>j. j \<lparr> j_status := StPending, j_notBefore := None \<rparr>) q;
                t = j_priority j
            in tick cfg now (q1 \<lparr> q_pending := (q_pending q1)(t := q_pending q1 t @ [r]) \<rparr>)))"

section \<open>Enqueue\<close>

definition findIdempotent :: "int \<Rightarrow> string \<Rightarrow> mail_queue \<Rightarrow> nat option \<times> mail_queue" where
  "findIdempotent now key q =
     (let q1 = (if length (q_idempotent q) > 1000
                then q \<lparr> q_idempotent := List.filter (\<lambda>(k, r, e). \<not> e \<le> now) (q_idempotent q) \<rparr> else q)
      in (case map_of (q_idempotent q1) key of
            None \<Rightarrow> (None, q1)
          | Some (r, e) \<Rightarrow> if e \<le> now then (None, q1) else (Some r, q1)))"

text \<open>
  The job enqueue builds; newId is the random hex id and token the random part of the
  generated Message-ID.
\<close>

definition new_job :: "queue_cfg \<Rightarrow> int \<Rightarrow> string \<Rightarrow> string \<Rightarrow> email_options \<Rightarrow> enqueue_options \<Rightarrow> q_job" where
  "new_job cfg now newId token opts eo =
     (let pinned = (if o_messageId opts = None \<or> o_messageId opts = Some []
                    then opts \<lparr> o_messageId := Some (generateMessageId token
                      (case parseAddressList (o_from opts) None of [] \<Rightarrow> [] | p # _ \<Rightarrow> pa_email p)) \<rparr>
                    else opts);
          notBefore = (case eo_sendAt eo of None \<Rightarrow> None | Some t \<Rightarrow> if t > now then Some t else None)
      in \<lparr> j_id = or_default (eo_id eo) newId, j_options = pinned, j_attempts = 0, j_errors = [],
           j_createdAt = now, j_lastAttemptAt = None,
           j_status = (if notBefore = None then StPending else StScheduled), j_notBefore = notBefore,
           j_idempotencyKey = eo_idempotencyKey eo,
           j_priority = or_default (eo_priority eo) (qc_defaultPriority cfg), j_cancelledAt = None \<rparr>)"

text \<open>enqueue after the idempotency lookup (which persistent queues override).\<close>

definition enqueue_new :: "queue_cfg \<Rightarrow> int \<Rightarrow> q_job \<Rightarrow> mail_queue \<Rightarrow> (mail_error + nat) \<times> mail_queue" where
  "enqueue_new cfg now job q =
     (if find_job (j_id job) q \<noteq> None then (Inl (QueueError (''Duplicate job id: '' @ j_id job)), q)
      else
        let r = length (q_heap q);
            q1 = q \<lparr> q_heap := q_heap q @ [job] \<rparr>;
            q2 = (case j_idempotencyKey job of None \<Rightarrow> q1
                  | Some k \<Rightarrow> q1 \<lparr> q_idempotent := AList.update k (r, now + qc_idempotencyWindowMs cfg) (q_idempotent q1) \<rparr>);
            q3 = emit (EvEnqueued r) q2
        in (Inr r, place cfg now r q3))"

definition enqueue :: "queue_cfg \<Rightarrow> int \<Rightarrow> string \<Rightarrow> string \<Rightarrow> email_options \<Rightarrow> enqueue_options \<Rightarrow> mail_queue
    \<Rightarrow> (mail_error + nat) \<times> mail_queue" where
  "enqueue cfg now newId token opts eo q =
     (if q_closed q then (Inl (QueueError ''Queue is shut down''), q)
      else let (existing, q1) = (case eo_idempotencyKey eo of None \<Rightarrow> (None, q) | Some k \<Rightarrow> findIdempotent now k q)
           in (case existing of
                 Some r \<Rightarrow> (Inr r, q1)
               | None \<Rightarrow> enqueue_new cfg now (new_job cfg now newId token opts eo) q1))"

definition restore :: "queue_cfg \<Rightarrow> int \<Rightarrow> q_job \<Rightarrow> mail_queue \<Rightarrow> mail_queue" where
  "restore cfg now job q =
     (if find_job (j_id job) q \<noteq> None then q
      else let job1 = (if j_status job = StRunning then job \<lparr> j_status := StPending \<rparr> else job)
           in place cfg now (length (q_heap q)) (q \<lparr> q_heap := q_heap q @ [job1] \<rparr>))"

definition setSendFn :: "queue_cfg \<Rightarrow> int \<Rightarrow> mail_queue \<Rightarrow> mail_queue" where
  "setSendFn cfg now q = tick cfg now (q \<lparr> q_sendFn := True \<rparr>)"

section \<open>The rest of an attempt\<close>

definition markCancelled :: "int \<Rightarrow> nat \<Rightarrow> mail_queue \<Rightarrow> mail_queue" where
  "markCancelled now r q =
     (let q1 = q \<lparr> q_throttled := q_throttled q - {id_of q r} \<rparr>;
          q2 = set_job r (\<lambda>j. j \<lparr> j_status := StCancelled, j_cancelledAt := Some now, j_notBefore := None \<rparr>) q1;
          q3 = q2 \<lparr> q_cancelled := q_cancelled q2 + 1 \<rparr>
      in emit (EvCancelled r) q3)"

definition outcome_error :: "send_outcome \<Rightarrow> mail_error option" where
  "outcome_error out = (case out of Resolved _ \<Rightarrow> None
     | Rejected (ThrownMailTs e) \<Rightarrow> Some e
     | Rejected (ThrownOther m) \<Rightarrow> Some (MailTsError m EQUEUE True))"

text \<open>What the timer and the abort listener of sendWithTimeout reject with.\<close>

definition timeout_outcome :: "queue_cfg \<Rightarrow> string \<Rightarrow> send_outcome" where
  "timeout_outcome cfg i = Rejected (ThrownMailTs (MailTsError
     (''Job '' @ i @ '' timed out after '' @ show_int (qc_jobTimeout cfg) @ ''ms'') ETIMEOUT True))"

definition stopped_outcome :: send_outcome where
  "stopped_outcome = Rejected (ThrownMailTs (MailTsError ''Job stopped'' EQUEUE True))"

definition interrupt_requeue :: "nat \<Rightarrow> mail_queue \<Rightarrow> mail_queue" where
  "interrupt_requeue r q =
     (let q1 = set_job r (\<lambda>j. j \<lparr> j_attempts := j_attempts j - 1, j_status := StPending \<rparr>) q;
          t = j_priority (job_of q1 r)
      in emit (EvInterrupted r) (q1 \<lparr> q_pending := (q_pending q1)(t := r # q_pending q1 t) \<rparr>))"

definition succeed_job :: "nat \<Rightarrow> send_result \<Rightarrow> mail_queue \<Rightarrow> mail_queue" where
  "succeed_job r res q =
     (let q1 = set_job r (\<lambda>j. j \<lparr> j_status := StSuccess \<rparr>) q
      in emit (EvSuccess r res) (q1 \<lparr> q_succeeded := q_succeeded q1 + 1 \<rparr>))"

definition retry_job :: "queue_cfg \<Rightarrow> int \<Rightarrow> rat \<Rightarrow> mail_error \<Rightarrow> nat \<Rightarrow> mail_queue \<Rightarrow> mail_queue" where
  "retry_job cfg now rnd err r q =
     (let delay = max (delayFor (qc_policy cfg) rnd (j_attempts (job_of q r) - 1)) (or_default (e_retryAfterMs err) 0);
          q1 = set_job r (\<lambda>j. j \<lparr> j_status := StScheduled, j_notBefore := Some (now + delay) \<rparr>) q;
          q2 = armSchedule now (q1 \<lparr> q_scheduled := AList.update (id_of q1 r) r (q_scheduled q1) \<rparr>)
      in emit (EvRetry r (j_attempts (job_of q2 r)) delay) q2)"

definition fail_job :: "queue_cfg \<Rightarrow> int \<Rightarrow> rat \<Rightarrow> mail_error \<Rightarrow> nat \<Rightarrow> mail_queue \<Rightarrow> mail_queue" where
  "fail_job cfg now rnd err r q =
     (let q1 = set_job r (\<lambda>j. j \<lparr> j_errors := j_errors j @ [err] \<rparr>) q in
      if \<not> shouldRetry (qc_policy cfg) (j_attempts (job_of q1 r)) err then dlq_add cfg now r q1
      else retry_job cfg now rnd err r q1)"

text \<open>execute after the await: c is the controller of this execution.\<close>

definition settle_body :: "queue_cfg \<Rightarrow> int \<Rightarrow> rat \<Rightarrow> nat \<Rightarrow> control_reason option \<Rightarrow> send_outcome \<Rightarrow> mail_queue \<Rightarrow> mail_queue" where
  "settle_body cfg now rnd r reason out q =
     (case reason of
        Some Cancel \<Rightarrow> markCancelled now r q
      | Some Interrupt \<Rightarrow> interrupt_requeue r q
      | _ \<Rightarrow>
        (let error = (if reason = Some Abort then Some (MailTsError ''Job aborted by caller'' EQUEUE True) else outcome_error out)
         in case error of
              Some err \<Rightarrow> fail_job cfg now rnd err r q
            | None \<Rightarrow> (case out of
                Resolved (SendOk m a b) \<Rightarrow> succeed_job r (SendOk m a b) q
              | Resolved (SendErr e n) \<Rightarrow> fail_job cfg now rnd e r q
              | Rejected _ \<Rightarrow> fail_job cfg now rnd (MailTsError ''Unknown send failure'' EQUEUE True) r q)))"

definition settle :: "queue_cfg \<Rightarrow> int \<Rightarrow> rat \<Rightarrow> nat \<times> nat \<Rightarrow> send_outcome \<Rightarrow> mail_queue \<Rightarrow> mail_queue" where
  "settle cfg now rnd x out q = (case x of (r, c) \<Rightarrow>
     (let q1 = q \<lparr> q_sending := remove1 (r, c) (q_sending q),
                   q_controllers := AList.delete (id_of q r) (q_controllers q),
                   q_finishing := q_finishing q @ [r] \<rparr>
      in settle_body cfg now rnd r (q_ctrls q1 ! c) out q1))"

section \<open>Drain\<close>

definition rejectDrainWaiters :: "mail_error \<Rightarrow> mail_queue \<Rightarrow> mail_queue" where
  "rejectDrainWaiters err q = fold (\<lambda>w. emit (EvDrainRejected w err)) (q_drainWaiters q) (q \<lparr> q_drainWaiters := [] \<rparr>)"

definition paused_error :: mail_error where
  "paused_error = QueueError ''Queue is paused - drain() would never resolve''"

definition checkDrained :: "mail_queue \<Rightarrow> mail_queue" where
  "checkDrained q =
     (let q1 = emit EvSettled q in
      if idleCount q1 = 0 then
        (let q2 = emit EvDrained q1
         in fold (\<lambda>w. emit (EvDrainResolved w)) (q_drainWaiters q2) (q2 \<lparr> q_drainWaiters := [] \<rparr>))
      else if q_paused q1 \<and> q_running q1 = [] \<and> q_drainWaiters q1 \<noteq> [] then rejectDrainWaiters paused_error q1
      else q1)"

text \<open>drain: the promise is the number of the waiter, or is settled at once.\<close>

datatype drain_result = DrainNow | DrainFailed mail_error | DrainWaiter nat

definition drain :: "mail_queue \<Rightarrow> drain_result \<times> mail_queue" where
  "drain q =
     (if idleCount q = 0 then (DrainNow, q)
      else if q_paused q then (DrainFailed paused_error, q)
      else (DrainWaiter (q_nextWaiter q),
            q \<lparr> q_drainWaiters := q_drainWaiters q @ [q_nextWaiter q], q_nextWaiter := q_nextWaiter q + 1 \<rparr>))"

text \<open>The callback of finally in tick.\<close>

definition finish :: "queue_cfg \<Rightarrow> int \<Rightarrow> nat \<Rightarrow> mail_queue \<Rightarrow> mail_queue" where
  "finish cfg now r q =
     checkDrained (tick cfg now (q \<lparr> q_finishing := remove1 r (q_finishing q),
                                     q_running := AList.delete (id_of q r) (q_running q) \<rparr>))"

section \<open>Lifecycle controls\<close>

definition resume :: "queue_cfg \<Rightarrow> int \<Rightarrow> mail_queue \<Rightarrow> mail_queue" where
  "resume cfg now q = (if q_closed q then q else tick cfg now (q \<lparr> q_paused := False \<rparr>))"

definition pause :: "mail_queue \<Rightarrow> mail_queue" where
  "pause q = checkDrained (q \<lparr> q_paused := True \<rparr>)"

fun take_tiers :: "(nat \<Rightarrow> bool) \<Rightarrow> job_priority list \<Rightarrow> (job_priority \<Rightarrow> nat list) \<Rightarrow> (nat \<times> (job_priority \<Rightarrow> nat list)) option" where
  "take_tiers P [] p = None"
| "take_tiers P (t # ts) p = (case List.find P (p t) of
     Some r \<Rightarrow> Some (r, p(t := remove1 r (p t)))
   | None \<Rightarrow> take_tiers P ts p)"

definition takeWaiting :: "int \<Rightarrow> string \<Rightarrow> mail_queue \<Rightarrow> nat option \<times> mail_queue" where
  "takeWaiting now i q = (case map_of (q_scheduled q) i of
     Some r \<Rightarrow> (Some r, armSchedule now (q \<lparr> q_scheduled := AList.delete i (q_scheduled q) \<rparr>))
   | None \<Rightarrow> (case take_tiers (\<lambda>r. id_of q r = i) PRIORITY_ORDER (q_pending q) of
       Some (r, p) \<Rightarrow> (Some r, q \<lparr> q_pending := p \<rparr>)
     | None \<Rightarrow> (None, q)))"

definition trigger_ctrl :: "control_reason \<Rightarrow> nat \<Rightarrow> mail_queue \<Rightarrow> mail_queue" where
  "trigger_ctrl r c q = q \<lparr> q_ctrls := (q_ctrls q)[c := ctrl_trigger r (q_ctrls q ! c)] \<rparr>"

definition cancel :: "int \<Rightarrow> string \<Rightarrow> mail_queue \<Rightarrow> bool \<times> mail_queue" where
  "cancel now i q = (case takeWaiting now i q of
     (Some r, q1) \<Rightarrow> (True, checkDrained (markCancelled now r q1))
   | (None, q1) \<Rightarrow> (case map_of (q_controllers q1) i of
        Some c \<Rightarrow> (True, trigger_ctrl Cancel c q1)
      | None \<Rightarrow> (False, q1)))"

definition cancelAll :: "int \<Rightarrow> mail_queue \<Rightarrow> nat \<times> mail_queue" where
  "cancelAll now q =
     (let jobs = waitingJobs q;
          q1 = armSchedule now (q \<lparr> q_pending := (\<lambda>_. []), q_scheduled := [] \<rparr>)
      in (length jobs, checkDrained (fold (markCancelled now) jobs q1)))"

text \<open>interrupt and abort differ in the reason only; cancel of a running job is above.\<close>

definition control_one :: "control_reason \<Rightarrow> string \<Rightarrow> mail_queue \<Rightarrow> bool \<times> mail_queue" where
  "control_one r i q = (case map_of (q_controllers q) i of
     None \<Rightarrow> (False, q) | Some c \<Rightarrow> (True, trigger_ctrl r c q))"

definition control_all :: "control_reason \<Rightarrow> mail_queue \<Rightarrow> nat \<times> mail_queue" where
  "control_all r q = (length (q_controllers q), fold (trigger_ctrl r) (jsvals (q_controllers q)) q)"

definition interrupt :: "string \<Rightarrow> mail_queue \<Rightarrow> bool \<times> mail_queue" where "interrupt = control_one Interrupt"
definition interruptAll :: "mail_queue \<Rightarrow> nat \<times> mail_queue" where "interruptAll = control_all Interrupt"
definition abort_job :: "string \<Rightarrow> mail_queue \<Rightarrow> bool \<times> mail_queue" where "abort_job = control_one Abort"
definition abortAll :: "mail_queue \<Rightarrow> mail_queue" where "abortAll q = snd (control_all Abort q)"

definition stats :: "mail_queue \<Rightarrow> queue_stats" where
  "stats q = \<lparr> st_pending = pendingCount q, st_scheduled = length (q_scheduled q), st_running = length (q_running q),
     st_succeeded = nat (q_succeeded q), st_dead = length (q_dlq q), st_cancelled = nat (q_cancelled q) \<rparr>"

definition list_jobs :: "mail_queue \<Rightarrow> nat list" where
  "list_jobs q = jsvals (q_running q) @ waitingJobs q"

section \<open>Shutdown\<close>

text \<open>
  shutdown is a sequence of waits.  Its local variables are in the record; sd_check is the
  check that waitUntil runs at once, on every _settled event and when its timer fires: it
  moves to the next phase when the condition holds or the deadline has passed.
\<close>

datatype sd_phase = SdDrain | SdWait | SdInterrupted | SdDone shutdown_result

record shutdown_state =
  sd_phase :: sd_phase
  sd_deadline :: "int option"
  sd_pending :: shutdown_pending_mode
  sd_before :: int
  sd_until :: int

definition deadline_passed :: "int option \<Rightarrow> int \<Rightarrow> bool" where
  "deadline_passed d now = (case d of None \<Rightarrow> False | Some t \<Rightarrow> now \<ge> t)"

definition sd_finish :: "shutdown_state \<Rightarrow> mail_queue \<Rightarrow> shutdown_state \<times> mail_queue" where
  "sd_finish s q =
     (let q1 = rejectDrainWaiters (QueueError ''Queue was shut down'') (q \<lparr> q_timer := None \<rparr>)
      in (s \<lparr> sd_phase := SdDone \<lparr> sr_cancelled = q_cancelled q1 - sd_before s, sr_remaining = length (waitingJobs q1) \<rparr> \<rparr>, q1))"

definition sd_close :: "int \<Rightarrow> shutdown_state \<Rightarrow> mail_queue \<Rightarrow> shutdown_state \<times> mail_queue" where
  "sd_close now s q =
     (let q1 = q \<lparr> q_paused := True, q_closed := True \<rparr>;
          q2 = (if sd_pending s = SpCancel then snd (cancelAll now q1) else q1)
      in (s \<lparr> sd_phase := SdWait \<rparr>, q2))"

text \<open>One check of the wait the shutdown is in; a phase is left at most once per call.\<close>

definition sd_check :: "int \<Rightarrow> shutdown_state \<Rightarrow> mail_queue \<Rightarrow> shutdown_state \<times> mail_queue" where
  "sd_check now s q = (case sd_phase s of
     SdDrain \<Rightarrow> if idleCount q = 0 \<or> deadline_passed (sd_deadline s) now then sd_close now s q else (s, q)
   | SdWait \<Rightarrow> if q_running q = [] then sd_finish s q
       else if deadline_passed (sd_deadline s) now
       then (s \<lparr> sd_phase := SdInterrupted, sd_until := now + 5000 \<rparr>, snd (interruptAll q))
       else (s, q)
   | SdInterrupted \<Rightarrow> if q_running q = [] \<or> now \<ge> sd_until s then sd_finish s q else (s, q)
   | SdDone r \<Rightarrow> (s, q))"

definition sd_start :: "queue_cfg \<Rightarrow> int \<Rightarrow> shutdown_options \<Rightarrow> mail_queue \<Rightarrow> shutdown_state \<times> mail_queue" where
  "sd_start cfg now so q =
     (let mode = or_default (so_pending so) (if qc_persistent cfg then SpKeep else SpDrain);
          s = \<lparr> sd_phase = SdDrain, sd_deadline = map_option (\<lambda>t. now + t) (so_timeoutMs so), sd_pending = mode,
                sd_before = q_cancelled q, sd_until = 0 \<rparr>
      in if mode = SpDrain then (s, resume cfg now q) else sd_close now s q)"

end
