(* ===== verification/MailQueueInv.thy ===== *)
theory MailQueueInv
  imports MailQueue
begin

text \<open>
  The invariants of the send queue.  Every job is exactly where its status says: in the
  tier of its priority when pending, in the scheduled map when scheduled, in an execution
  when running, in no container when finished.  The proof follows jobs through the moments
  when they are in a local variable of the code only: core G X allows the jobs of X to float, and
  the jobs of G to be forgotten: objects the queue no longer holds, whatever their status and id.
\<close>

section \<open>Machine of the queue operations\<close>

datatype q_op =
    OpSetSendFn int
  | OpEnqueue int string string email_options enqueue_options
  | OpRestore int q_job
  | OpTimer int
  | OpSettle int rat "nat \<times> nat" send_outcome
  | OpFinish int nat
  | OpResume int
  | OpPause
  | OpCancel int string
  | OpCancelAll int
  | OpInterrupt string
  | OpInterruptAll
  | OpAbort string
  | OpAbortAll
  | OpDrain
  | OpSdStart int shutdown_options
  | OpSdCheck int shutdown_state

primrec q_step :: "queue_cfg \<Rightarrow> mail_queue \<Rightarrow> q_op \<Rightarrow> mail_queue" where
  "q_step cfg q (OpSetSendFn now) = setSendFn cfg now q"
| "q_step cfg q (OpEnqueue now i tok opts eo) = snd (enqueue cfg now i tok opts eo q)"
| "q_step cfg q (OpRestore now job) = restore cfg now job q"
| "q_step cfg q (OpTimer now) = promoteDue cfg now q"
| "q_step cfg q (OpSettle now rnd x out) = settle cfg now rnd x out q"
| "q_step cfg q (OpFinish now r) = finish cfg now r q"
| "q_step cfg q (OpResume now) = resume cfg now q"
| "q_step cfg q OpPause = pause q"
| "q_step cfg q (OpCancel now i) = snd (cancel now i q)"
| "q_step cfg q (OpCancelAll now) = snd (cancelAll now q)"
| "q_step cfg q (OpInterrupt i) = snd (interrupt i q)"
| "q_step cfg q OpInterruptAll = snd (interruptAll q)"
| "q_step cfg q (OpAbort i) = snd (abort_job i q)"
| "q_step cfg q OpAbortAll = abortAll q"
| "q_step cfg q OpDrain = snd (drain q)"
| "q_step cfg q (OpSdStart now so) = snd (sd_start cfg now so q)"
| "q_step cfg q (OpSdCheck now s) = snd (sd_check now s q)"

text \<open>
  What the platform and the callers guarantee: executions settle and finish once, the timer
  fires only while armed, a shutdown is past its drain phase only once it has closed the
  queue, and no id is used twice (ids are random unless the caller gives them, and then
  they are to be unique); only unfinished jobs are restored from storage.
\<close>

definition fresh_id :: "string \<Rightarrow> mail_queue \<Rightarrow> bool" where
  "fresh_id i q \<longleftrightarrow> i \<notin> set (map j_id (q_heap q))"

primrec q_ok :: "mail_queue \<Rightarrow> q_op \<Rightarrow> bool" where
  "q_ok q (OpSetSendFn now) = True"
| "q_ok q (OpEnqueue now i tok opts eo) = fresh_id (or_default (eo_id eo) i) q"
| "q_ok q (OpRestore now job) = (fresh_id (j_id job) q \<and> j_status job \<in> {StPending, StScheduled, StRunning})"
| "q_ok q (OpTimer now) = (q_timer q \<noteq> None)"
| "q_ok q (OpSettle now rnd x out) = (x \<in> set (q_sending q))"
| "q_ok q (OpFinish now r) = (r \<in> set (q_finishing q))"
| "q_ok q (OpResume now) = True"
| "q_ok q OpPause = True"
| "q_ok q (OpCancel now i) = True"
| "q_ok q (OpCancelAll now) = True"
| "q_ok q (OpInterrupt i) = True"
| "q_ok q OpInterruptAll = True"
| "q_ok q (OpAbort i) = True"
| "q_ok q OpAbortAll = True"
| "q_ok q OpDrain = True"
| "q_ok q (OpSdStart now so) = True"
| "q_ok q (OpSdCheck now s) = (sd_phase s = SdDrain \<or> q_closed q)"

section \<open>Where jobs are\<close>

definition with_status :: "q_job list \<Rightarrow> job_status \<Rightarrow> nat set" where
  "with_status h s = {r. r < length h \<and> j_status (h ! r) = s}"

definition ids_ok :: "nat set \<Rightarrow> nat set \<Rightarrow> q_job list \<Rightarrow> bool" where
  "ids_ok G X h \<longleftrightarrow> inj_on (\<lambda>r. j_id (h ! r)) ({..<length h} - G) \<and> X \<subseteq> {..<length h} \<and> G \<subseteq> {..<length h} \<and> X \<inter> G = {}"

definition pend_ok :: "nat set \<Rightarrow> q_job list \<Rightarrow> (job_priority \<Rightarrow> nat list) \<Rightarrow> bool" where
  "pend_ok X h pend \<longleftrightarrow> (\<forall>p. distinct (pend p) \<and> (\<forall>r. r \<in> set (pend p) \<longleftrightarrow> r \<in> with_status h StPending \<and> r \<notin> X \<and> j_priority (h ! r) = p))"

definition sched_ok :: "nat set \<Rightarrow> q_job list \<Rightarrow> (string, nat) jsmap \<Rightarrow> bool" where
  "sched_ok X h m \<longleftrightarrow> distinct (jskeys m) \<and>
     (\<forall>i r. (i, r) \<in> set m \<longleftrightarrow> r \<in> with_status h StScheduled \<and> r \<notin> X \<and> i = j_id (h ! r)) \<and>
     (\<forall>r \<in> with_status h StScheduled. r \<notin> X \<longrightarrow> j_notBefore (h ! r) \<noteq> None)"

definition send_ok :: "bool \<Rightarrow> nat set \<Rightarrow> q_job list \<Rightarrow> (nat \<times> nat) list \<Rightarrow> bool" where
  "send_ok dl X h es \<longleftrightarrow> distinct (map fst es) \<and> (\<forall>r \<in> set (map fst es). r \<in> with_status h StRunning \<and> r \<notin> X) \<and>
     (dl \<longrightarrow> (\<forall>r \<in> with_status h StRunning. r \<notin> X \<longrightarrow> r \<in> set (map fst es)))"

definition core :: "queue_cfg \<Rightarrow> nat set \<Rightarrow> nat set \<Rightarrow> mail_queue \<Rightarrow> bool" where
  "core cfg G X q \<longleftrightarrow> ids_ok G X (q_heap q) \<and> pend_ok (X \<union> G) (q_heap q) (q_pending q) \<and>
     sched_ok (X \<union> G) (q_heap q) (q_scheduled q) \<and> send_ok (qc_dlEnabled cfg) (X \<union> G) (q_heap q) (q_sending q)"

lemma core_cong:
  "q_heap q' = q_heap q \<Longrightarrow> q_pending q' = q_pending q \<Longrightarrow> q_scheduled q' = q_scheduled q \<Longrightarrow>
   q_sending q' = q_sending q \<Longrightarrow> core cfg G X q' = core cfg G X q"
  by (simp add: core_def)

lemma with_status_update:
  "r < length h \<Longrightarrow> x \<in> with_status (h[r := j]) s \<longleftrightarrow> (if x = r then j_status j = s else x \<in> with_status h s)"
  by (auto simp: with_status_def nth_list_update)

lemma with_status_append:
  "x \<in> with_status (h @ [j]) s \<longleftrightarrow> (if x = length h then j_status j = s else x \<in> with_status h s)"
  by (auto simp: with_status_def nth_append less_Suc_eq)

lemma with_status_less: "r \<in> with_status h s \<Longrightarrow> r < length h" by (simp add: with_status_def)

lemma with_status_unique: "r \<in> with_status h s \<Longrightarrow> r \<in> with_status h t \<Longrightarrow> s = t" by (simp add: with_status_def)

lemma ids_inj:
  "ids_ok G X h \<Longrightarrow> r < length h \<Longrightarrow> s < length h \<Longrightarrow> r \<notin> G \<Longrightarrow> s \<notin> G \<Longrightarrow> j_id (h ! r) = j_id (h ! s) \<Longrightarrow> r = s"
  by (auto simp: ids_ok_def inj_on_def)

lemma core_ids_off:
  "core cfg G X q \<Longrightarrow> r < length (q_heap q) \<Longrightarrow> s < length (q_heap q) \<Longrightarrow> r \<notin> G \<Longrightarrow> s \<notin> G \<Longrightarrow> id_of q r = id_of q s \<Longrightarrow> r = s"
  by (auto simp: core_def intro: ids_inj)

lemma core_ids: "core cfg {} X q \<Longrightarrow> r < length (q_heap q) \<Longrightarrow> s < length (q_heap q) \<Longrightarrow> id_of q r = id_of q s \<Longrightarrow> r = s"
  using core_ids_off by blast

lemma sched_map_of:
  "sched_ok X h m \<Longrightarrow> map_of m i = Some r \<longleftrightarrow> r \<in> with_status h StScheduled \<and> r \<notin> X \<and> i = j_id (h ! r)"
  by (simp add: sched_ok_def map_of_eq_Some_iff)

subsection \<open>Floating jobs\<close>

lemma ids_ok_update: "ids_ok G X h \<Longrightarrow> j_id j = j_id (h ! r) \<Longrightarrow> ids_ok G X (h[r := j])"
proof -
  assume a: "ids_ok G X h" "j_id j = j_id (h ! r)"
  then have "j_id (h[r := j] ! x) = j_id (h ! x)" if "x < length h" for x using that by (cases "x = r") auto
  then show ?thesis using a(1) by (simp add: ids_ok_def inj_on_def)
qed

lemma core_set_job:
  assumes "core cfg G X q" "r \<in> X" "\<And>j. j_id (f j) = j_id j"
  shows "core cfg G X (set_job r f q)"
proof -
  have r: "r < length (q_heap q)" using assms by (auto simp: core_def ids_ok_def)
  have n: "x \<notin> X \<Longrightarrow> (q_heap q)[r := y] ! x = q_heap q ! x" for x y using assms(2) by (cases "x = r") auto
  have w: "x \<notin> X \<Longrightarrow> x \<in> with_status ((q_heap q)[r := y]) s \<longleftrightarrow> x \<in> with_status (q_heap q) s" for x y s
    using assms(2) r by (auto simp: with_status_update)
  show ?thesis using assms
    by (auto simp: core_def set_job_def ids_ok_update pend_ok_def sched_ok_def send_ok_def n w)
qed

lemma core_take_pending:
  assumes "core cfg G X q" "r \<in> set (q_pending q t)" "distinct rs" "set rs = set (q_pending q t) - {r}"
  shows "core cfg G (insert r X) (q \<lparr> q_pending := (q_pending q)(t := rs) \<rparr>)"
proof -
  have r: "r \<in> with_status (q_heap q) StPending" "j_priority (q_heap q ! r) = t" "r \<notin> X"
    using assms by (auto simp: core_def pend_ok_def)
  then have "r \<notin> with_status (q_heap q) StScheduled" "r \<notin> with_status (q_heap q) StRunning"
    by (auto dest: with_status_unique)
  then show ?thesis using assms r
    by (auto simp: core_def ids_ok_def pend_ok_def sched_ok_def send_ok_def dest: with_status_less)
qed

lemma core_take_scheduled:
  assumes "core cfg G X q" "(i, r) \<in> set (q_scheduled q)"
  shows "core cfg G (insert r X) (q \<lparr> q_scheduled := AList.delete i (q_scheduled q) \<rparr>)"
proof -
  have r: "r \<in> with_status (q_heap q) StScheduled" "i = id_of q r" "r \<notin> X" "r \<notin> G"
    using assms by (auto simp: core_def sched_ok_def)
  then have n: "r \<notin> with_status (q_heap q) StPending" "r \<notin> with_status (q_heap q) StRunning"
    by (auto dest: with_status_unique)
  have d: "(k, x) \<in> set (AList.delete i (q_scheduled q)) \<longleftrightarrow> (k, x) \<in> set (q_scheduled q) \<and> k \<noteq> i" for k x
    by (auto simp: AList.delete_eq)
  have u: "(k, x) \<in> set (q_scheduled q) \<and> k \<noteq> i \<longleftrightarrow> (k, x) \<in> set (q_scheduled q) \<and> x \<noteq> r" for k x
    using assms r core_ids_off[OF assms(1), of x r] by (auto simp: core_def sched_ok_def dest: with_status_less)
  have S: "(k, x) \<in> set (q_scheduled q) \<longleftrightarrow> x \<in> with_status (q_heap q) StScheduled \<and> x \<notin> X \<and> x \<notin> G \<and> k = id_of q x" for k x
    using assms(1) by (simp add: core_def sched_ok_def)
  have dS: "(k, x) \<in> set (AList.delete i (q_scheduled q)) \<longleftrightarrow>
      x \<in> with_status (q_heap q) StScheduled \<and> x \<notin> X \<and> x \<notin> G \<and> x \<noteq> r \<and> k = id_of q x" for k x
    unfolding d unfolding u unfolding S by blast
  have "sched_ok (insert r X \<union> G) (q_heap q) (AList.delete i (q_scheduled q))"
    using assms(1) by (auto simp: sched_ok_def dS core_def distinct_keys_delete)
  then show ?thesis using assms r(1,3,4) n
    by (auto simp: core_def ids_ok_def pend_ok_def send_ok_def dest: with_status_less)
qed

lemma remove1_keys:
  "distinct (map fst es) \<Longrightarrow> (r, c) \<in> set es \<Longrightarrow>
   distinct (map fst (remove1 (r, c) es)) \<and> set (map fst (remove1 (r, c) es)) = set (map fst es) - {r}"
proof (induction es)
  case (Cons e es)
  obtain a b where e: "e = (a, b)" by (cases e)
  show ?case
  proof (cases "e = (r, c)")
    case True
    then show ?thesis using Cons.prems by simp
  next
    case False
    then have "(r, c) \<in> set es" using Cons.prems by auto
    moreover from this have "a \<noteq> r" using Cons.prems e by force
    ultimately show ?thesis using Cons False e by auto
  qed
qed simp

lemma pend_distinct: "core cfg G X q \<Longrightarrow> distinct (q_pending q t)"
  by (simp add: core_def pend_ok_def)

lemma core_take_sending:
  assumes "core cfg G X q" "(r, c) \<in> set (q_sending q)"
  shows "core cfg G (insert r X) (q \<lparr> q_sending := remove1 (r, c) (q_sending q) \<rparr>)"
proof -
  have r: "r \<in> with_status (q_heap q) StRunning" "r \<notin> X"
    using assms by (force simp: core_def send_ok_def)+
  then have n: "r \<notin> with_status (q_heap q) StPending" "r \<notin> with_status (q_heap q) StScheduled"
    by (auto dest: with_status_unique)
  have dk: "distinct (map fst (q_sending q))" using assms by (simp add: core_def send_ok_def)
  note s = remove1_keys
  show ?thesis using assms r n s[OF dk assms(2)]
    by (auto simp: core_def ids_ok_def pend_ok_def sched_ok_def send_ok_def dest: with_status_less)
qed

lemma core_put_pending:
  assumes "core cfg G X q" "X = insert r Y" "r \<notin> Y" "j_status (job_of q r) = StPending" "t = j_priority (job_of q r)"
    "distinct rs" "set rs = insert r (set (q_pending q t))"
  shows "core cfg G Y (q \<lparr> q_pending := (q_pending q)(t := rs) \<rparr>)"
proof -
  have r: "r \<in> with_status (q_heap q) StPending" using assms by (auto simp: core_def ids_ok_def with_status_def)
  then have "r \<notin> with_status (q_heap q) StScheduled" "r \<notin> with_status (q_heap q) StRunning"
    by (auto dest: with_status_unique)
  then show ?thesis using assms r
    by (auto simp: core_def ids_ok_def pend_ok_def sched_ok_def send_ok_def)
qed

lemma pend_not_floating: "core cfg G X q \<Longrightarrow> r \<in> X \<Longrightarrow> r \<notin> set (q_pending q t)"
  by (auto simp: core_def pend_ok_def)

lemma core_put_scheduled:
  assumes "core cfg G X q" "X = insert r Y" "r \<notin> Y" "j_status (job_of q r) = StScheduled" "j_notBefore (job_of q r) \<noteq> None"
    "i = id_of q r"
  shows "core cfg G Y (q \<lparr> q_scheduled := AList.update i r (q_scheduled q) \<rparr>)"
proof -
  have r: "r \<in> with_status (q_heap q) StScheduled" "r < length (q_heap q)"
    using assms by (auto simp: core_def ids_ok_def with_status_def)
  then have n: "r \<notin> with_status (q_heap q) StPending" "r \<notin> with_status (q_heap q) StRunning"
    by (auto dest: with_status_unique)
  have "i \<notin> set (jskeys (q_scheduled q))"
  proof
    assume "i \<in> set (jskeys (q_scheduled q))"
    then obtain x where "(i, x) \<in> set (q_scheduled q)" by auto
    then have "x \<in> with_status (q_heap q) StScheduled" "x \<notin> X" "x \<notin> G" "i = id_of q x"
      using assms(1) by (auto simp: core_def sched_ok_def)
    moreover have "r \<notin> G" using assms(1,2) by (auto simp: core_def ids_ok_def)
    ultimately show False using core_ids_off[OF assms(1), of x r] r assms by (auto dest: with_status_less)
  qed
  then have "AList.update i r (q_scheduled q) = q_scheduled q @ [(i, r)]" by (rule update_fresh)
  then show ?thesis using assms r n \<open>i \<notin> set (jskeys (q_scheduled q))\<close>
    by (auto simp: core_def ids_ok_def pend_ok_def sched_ok_def send_ok_def)
qed

lemma core_put_sending:
  assumes "core cfg G X q" "X = insert r Y" "r \<notin> Y" "j_status (job_of q r) = StRunning"
  shows "core cfg G Y (q \<lparr> q_sending := q_sending q @ [(r, c)] \<rparr>)"
proof -
  have r: "r \<in> with_status (q_heap q) StRunning" using assms by (auto simp: core_def ids_ok_def with_status_def)
  then have "r \<notin> with_status (q_heap q) StPending" "r \<notin> with_status (q_heap q) StScheduled"
    by (auto dest: with_status_unique)
  then show ?thesis using assms r
    by (auto simp: core_def ids_ok_def pend_ok_def sched_ok_def send_ok_def)
qed

text \<open>A job of a final status needs no container; without a dead-letter queue a running one is dropped.\<close>

lemma core_drop:
  assumes "core cfg G X q" "X = insert r Y"
    "j_status (job_of q r) \<in> {StSuccess, StDead, StCancelled} \<or> \<not> qc_dlEnabled cfg \<and> j_status (job_of q r) = StRunning"
  shows "core cfg G Y q"
  using assms by (auto simp: core_def ids_ok_def pend_ok_def sched_ok_def send_ok_def with_status_def)

text \<open>No job but those of G has this id.\<close>

definition fresh_off :: "nat set \<Rightarrow> string \<Rightarrow> mail_queue \<Rightarrow> bool" where
  "fresh_off G i q \<longleftrightarrow> (\<forall>r. r < length (q_heap q) \<longrightarrow> r \<notin> G \<longrightarrow> id_of q r \<noteq> i)"

lemma fresh_id_off: "fresh_id i q \<Longrightarrow> fresh_off G i q"
  by (auto simp: fresh_id_def fresh_off_def)

lemma core_alloc:
  assumes "core cfg G X q" "fresh_off G (j_id j) q"
  shows "core cfg G (insert (length (q_heap q)) X) (q \<lparr> q_heap := q_heap q @ [j] \<rparr>)"
proof -
  have l: "x \<in> with_status (q_heap q) s \<Longrightarrow> (q_heap q @ [j]) ! x = q_heap q ! x" for x s
    by (auto dest: with_status_less simp: nth_append)
  have n: "length (q_heap q) \<notin> with_status (q_heap q) s" for s by (auto dest: with_status_less)
  have P: "r \<in> set (q_pending q p) \<longleftrightarrow> r \<in> with_status (q_heap q) StPending \<and> r \<notin> X \<and> r \<notin> G \<and> j_priority (q_heap q ! r) = p" for r p
    using assms(1) by (simp add: core_def pend_ok_def)
  have S: "(i, r) \<in> set (q_scheduled q) \<longleftrightarrow> r \<in> with_status (q_heap q) StScheduled \<and> r \<notin> X \<and> r \<notin> G \<and> i = j_id (q_heap q ! r)" for i r
    using assms(1) by (simp add: core_def sched_ok_def)
  have "ids_ok G (insert (length (q_heap q)) X) (q_heap q @ [j])"
    using assms by (auto simp: core_def ids_ok_def inj_on_def less_Suc_eq nth_append fresh_off_def)
  moreover have "pend_ok (insert (length (q_heap q)) X \<union> G) (q_heap q @ [j]) (q_pending q)"
    using assms(1) by (auto simp: core_def pend_ok_def P with_status_append l n)
  moreover have "sched_ok (insert (length (q_heap q)) X \<union> G) (q_heap q @ [j]) (q_scheduled q)"
    using assms(1) by (auto simp: core_def sched_ok_def S with_status_append l n)
  moreover have "send_ok (qc_dlEnabled cfg) (insert (length (q_heap q)) X \<union> G) (q_heap q @ [j]) (q_sending q)"
    using assms(1) n by (auto simp: core_def send_ok_def with_status_append)
  ultimately show ?thesis by (simp add: core_def)
qed


subsection \<open>The operations keep every job where its status says\<close>

lemma core_emit: "core cfg G X (emit e q) = core cfg G X q" by (rule core_cong) (simp_all add: emit_def)
lemma core_arm: "core cfg G X (armSchedule now q) = core cfg G X q" by (rule core_cong) (simp_all add: armSchedule_def)

lemma fold_emit: "fold (\<lambda>w. emit (f w)) ws q = q \<lparr> q_trace := q_trace q @ map f ws \<rparr>"
  by (induction ws arbitrary: q) (auto simp: emit_def)

lemma core_checkDrained: "core cfg G X (checkDrained q) = core cfg G X q"
  by (rule core_cong) (simp_all add: checkDrained_def rejectDrainWaiters_def Let_def fold_emit emit_def)

lemma core_start_job:
  assumes "core cfg G X q" "X = insert r Y" "r \<notin> Y"
  shows "core cfg G Y (start_job now r q)"
proof -
  have r: "r < length (q_heap q)" using assms by (auto simp: core_def ids_ok_def)
  let ?q1 = "q \<lparr> q_ctrls := q_ctrls q @ [None], q_controllers := AList.update (id_of q r) (length (q_ctrls q)) (q_controllers q) \<rparr>"
  let ?f = "\<lambda>j. j \<lparr> j_status := StRunning, j_attempts := j_attempts j + 1, j_lastAttemptAt := Some now \<rparr>"
  have "core cfg G X ?q1" using assms(1) by (subst core_cong[of _ q]) simp_all
  then have "core cfg G X (set_job r ?f ?q1)" by (rule core_set_job) (auto simp: assms(2))
  then have c: "core cfg G X (emit (EvStarted r) (set_job r ?f ?q1))" by (simp add: core_emit)
  show ?thesis unfolding start_job_def Let_def
    by (rule core_put_sending[OF c assms(2,3)]) (use r in \<open>simp add: emit_def set_job_def\<close>)
qed

lemma core_schedule_job:
  fixes t :: int
  assumes "core cfg G X q" "X = insert r Y" "r \<notin> Y"
  defines "q1 \<equiv> set_job r (\<lambda>j. j \<lparr> j_status := StScheduled, j_notBefore := Some t \<rparr>) q"
  shows "core cfg G Y (q1 \<lparr> q_scheduled := AList.update (id_of q1 r) r (q_scheduled q1) \<rparr>)"
proof -
  have r: "r < length (q_heap q)" using assms by (auto simp: core_def ids_ok_def)
  have "core cfg G X q1" unfolding q1_def by (rule core_set_job) (use assms in auto)
  then show ?thesis
    by (rule core_put_scheduled[OF _ assms(2,3)]) (use r in \<open>simp_all add: q1_def set_job_def\<close>)
qed

lemma core_throttle_job:
  assumes "core cfg G X q" "X = insert r Y" "r \<notin> Y"
  shows "core cfg G Y (throttle_job now wait r q)"
  unfolding throttle_job_def Let_def core_emit core_arm
  by (rule core_cong[THEN iffD2, OF _ _ _ _ core_schedule_job[OF assms, of "now + wait"]]) simp_all

lemma core_launch_job:
  assumes "core cfg G X q" "X = insert r Y" "r \<notin> Y"
  shows "core cfg G Y (launch_job now r q)"
  unfolding launch_job_def
  by (rule core_start_job[OF _ assms(2,3)]) (use assms(1) in \<open>simp add: core_def\<close>)

lemma core_nextPending:
  assumes "core cfg G {} q" "nextPending q = Some (r, q1)"
  shows "core cfg G {r} q1"
proof -
  obtain t rs where q1: "q_pending q t = r # rs" "q1 = q \<lparr> q_pending := (q_pending q)(t := rs) \<rparr>"
    using assms(2) by (rule nextPending_Some)
  have "distinct (r # rs)" using pend_distinct[OF assms(1), of t] q1(1) by simp
  then have "distinct rs" "set rs = set (q_pending q t) - {r}" "r \<in> set (q_pending q t)" using q1(1) by auto
  then show ?thesis unfolding q1(2) by (intro core_take_pending[OF assms(1)])
qed

lemma core_tick_step:
  assumes "core cfg G {} q" "tick_step cfg now q = Some q'"
  shows "core cfg G {} q'"
proof -
  obtain r q1 where q1: "nextPending q = Some (r, q1)"
    using assms(2) by (auto simp: tick_step_def split: if_splits option.splits)
  have c: "core cfg G {r} q1" by (rule core_nextPending[OF assms(1) q1])
  have c': "core cfg G {r} (q1 \<lparr> q_limiter := ls \<rparr>)" for ls using c by (simp add: core_def)
  show ?thesis using assms(2) q1 core_launch_job[OF c] core_launch_job[OF c'] core_throttle_job[OF c']
    by (auto simp: tick_step_def Let_def split: if_splits option.splits prod.splits)
qed

text \<open>Whatever one pass keeps, the whole loop keeps.\<close>

lemma tick_loop_keeps:
  "(\<And>q q'. P q \<Longrightarrow> tick_step cfg now q = Some q' \<Longrightarrow> P q') \<Longrightarrow> P q \<Longrightarrow> P (tick_loop cfg now q)"
proof (induction cfg now q rule: tick_loop.induct)
  case (1 cfg now q)
  show ?case
  proof (cases "tick_step cfg now q")
    case None
    then show ?thesis using 1 by (simp add: tick_loop.simps)
  next
    case (Some q')
    then show ?thesis using 1 by (subst tick_loop.simps) simp
  qed
qed

lemma tick_keeps:
  "(\<And>q q'. P q \<Longrightarrow> tick_step cfg now q = Some q' \<Longrightarrow> P q') \<Longrightarrow> P q \<Longrightarrow> P (tick cfg now q)"
  by (simp add: tick_def tick_loop_keeps)

lemma core_tick: "core cfg G {} q \<Longrightarrow> core cfg G {} (tick cfg now q)"
  by (rule tick_keeps) (auto intro: core_tick_step)

text \<open>The state in which place ticks.\<close>

definition placed :: "nat \<Rightarrow> mail_queue \<Rightarrow> mail_queue" where
  "placed r q = (set_job r (\<lambda>j. j \<lparr> j_status := StPending, j_notBefore := None \<rparr>) q)
     \<lparr> q_pending := (q_pending q)(j_priority (job_of q r) := q_pending q (j_priority (job_of q r)) @ [r]) \<rparr>"

lemma place_cases:
  obtains (later) "j_status (job_of q r) = StScheduled" "j_notBefore (job_of q r) \<noteq> None"
      "place cfg now r q = emit (EvScheduled r) (armSchedule now (q \<lparr> q_scheduled := AList.update (id_of q r) r (q_scheduled q) \<rparr>))"
    | (now) "place cfg now r q = tick cfg now (placed r q)"
proof (cases "j_status (job_of q r) = StScheduled \<and> j_notBefore (job_of q r) \<noteq> None \<and> due_of (job_of q r) > now")
  case True
  then show thesis by (intro later) (simp_all add: place_def Let_def)
next
  case False
  then have "place cfg now r q = tick cfg now (placed r q)" by (auto simp: place_def placed_def Let_def)
  then show thesis by (rule now)
qed

lemma core_placed:
  assumes "core cfg G {r} q"
  shows "core cfg G {} (placed r q)"
proof -
  let ?f = "\<lambda>j. j \<lparr> j_status := StPending, j_notBefore := None \<rparr>" and ?t = "j_priority (job_of q r)"
  let ?q1 = "set_job r ?f q"
  have r: "r < length (q_heap q)" using assms by (auto simp: core_def ids_ok_def)
  have c: "core cfg G {r} ?q1" by (rule core_set_job[OF assms]) auto
  have "core cfg G {} (?q1 \<lparr> q_pending := (q_pending ?q1)(?t := q_pending ?q1 ?t @ [r]) \<rparr>)"
  proof (rule core_put_pending[OF c])
    show "distinct (q_pending ?q1 ?t @ [r])"
      using pend_not_floating[OF c, of r ?t] c by (simp add: core_def pend_ok_def)
  qed (use r in \<open>simp_all add: set_job_def\<close>)
  then show ?thesis by (simp add: placed_def)
qed

lemma core_place:
  assumes "core cfg G {r} q"
  shows "core cfg G {} (place cfg now r q)"
proof (cases rule: place_cases[of q r cfg now])
  case later
  then show ?thesis using core_put_scheduled[OF assms, of r "{}" "id_of q r"] by (simp add: core_emit core_arm)
qed (simp add: core_tick core_placed[OF assms])

lemma core_promote_one:
  assumes "core cfg G {} q" "(i, r) \<in> set (q_scheduled q)"
  shows "core cfg G {} (promote_one i r q)"
proof -
  let ?f = "\<lambda>j. j \<lparr> j_status := StPending, j_notBefore := None \<rparr>" and ?t = "j_priority (job_of q r)"
  let ?q1 = "set_job r ?f (q \<lparr> q_scheduled := AList.delete i (q_scheduled q) \<rparr>)"
  have c0: "core cfg G {r} (q \<lparr> q_scheduled := AList.delete i (q_scheduled q) \<rparr>)"
    using core_take_scheduled[OF assms] by simp
  then have r: "r < length (q_heap q)" by (simp add: core_def ids_ok_def)
  have c: "core cfg G {r} ?q1" by (rule core_set_job[OF c0]) auto
  have d: "distinct (q_pending ?q1 ?t)" "r \<notin> set (q_pending ?q1 ?t)"
    using pend_not_floating[OF c, of r ?t] c by (simp_all add: core_def pend_ok_def)
  have put: "core cfg G {} (?q1 \<lparr> q_pending := (q_pending ?q1)(?t := rs) \<rparr>)" if "rs = r # q_pending ?q1 ?t \<or> rs = q_pending ?q1 ?t @ [r]" for rs
    by (rule core_put_pending[OF c]) (use r d that in \<open>auto simp: set_job_def\<close>)
  have cong: "core cfg G {} (?q1 \<lparr> q_pending := p, q_throttled := T \<rparr>) = core cfg G {} (?q1 \<lparr> q_pending := p \<rparr>)" for p T
    by (rule core_cong) simp_all
  have t: "j_priority (job_of ?q1 r) = ?t" using r by (simp add: set_job_def)
  show ?thesis using put[of "r # q_pending ?q1 ?t"] put[of "q_pending ?q1 ?t @ [r]"]
    unfolding promote_one_def Let_def core_emit t
    by (auto simp: set_job_def core_def)
qed

lemma promote_one_scheduled [simp]: "q_scheduled (promote_one i r q) = AList.delete i (q_scheduled q)"
  by (simp add: promote_one_def Let_def emit_def set_job_def)

lemma core_promote_list:
  assumes "core cfg G {} q" "set es \<subseteq> set (q_scheduled q)" "distinct (map fst es)"
  shows "core cfg G {} (promote_list now es q)"
  using assms
proof (induction es arbitrary: q)
  case Nil
  then show ?case by (simp add: promote_list_def)
next
  case (Cons e es)
  obtain i r where e: "e = (i, r)" by (cases e)
  have m: "(i, r) \<in> set (q_scheduled q)" "i \<notin> fst ` set es" using Cons.prems e by auto
  have s: "set es \<subseteq> set (q_scheduled (promote_one i r q))"
    using Cons.prems m by (auto simp: e AList.delete_eq image_iff)
  have step: "promote_list now (e # es) q =
      promote_list now es (if due_of (job_of q r) \<le> now then promote_one i r q else q)"
    by (simp add: promote_list_def e)
  show ?case unfolding step
  proof (rule Cons.IH)
    show "core cfg G {} (if due_of (job_of q r) \<le> now then promote_one i r q else q)"
      using Cons.prems(1) core_promote_one[OF Cons.prems(1) m(1)] by simp
    show "set es \<subseteq> set (q_scheduled (if due_of (job_of q r) \<le> now then promote_one i r q else q))"
      using s Cons.prems by auto
    show "distinct (map fst es)" using Cons.prems by simp
  qed
qed

lemma core_promoteDue: "core cfg G {} q \<Longrightarrow> core cfg G {} (promoteDue cfg now q)"
proof -
  assume c: "core cfg G {} q"
  have "core cfg G {} (promote_list now (q_scheduled q) (q \<lparr> q_timer := None \<rparr>))"
    by (rule core_promote_list) (use c in \<open>simp_all add: core_def sched_ok_def\<close>)
  then show ?thesis by (simp add: promoteDue_def core_arm core_tick)
qed

lemma core_markCancelled:
  assumes "core cfg G X q" "X = insert r Y"
  shows "core cfg G Y (markCancelled now r q)"
proof -
  have r: "r < length (q_heap q)" using assms by (auto simp: core_def ids_ok_def)
  let ?f = "\<lambda>j. j \<lparr> j_status := StCancelled, j_cancelledAt := Some now, j_notBefore := None \<rparr>"
  have c1: "core cfg G X (set_job r ?f q)" by (rule core_set_job[OF assms(1)]) (auto simp: assms(2))
  have "core cfg G Y (set_job r ?f q)" by (rule core_drop[OF c1 assms(2)]) (use r in \<open>simp add: set_job_def\<close>)
  then show ?thesis by (simp add: markCancelled_def Let_def emit_def core_def set_job_def)
qed

lemma core_succeed_job:
  assumes "core cfg G {r} q"
  shows "core cfg G {} (succeed_job r res q)"
proof -
  have r: "r < length (q_heap q)" using assms by (auto simp: core_def ids_ok_def)
  have c1: "core cfg G {r} (set_job r (\<lambda>j. j \<lparr> j_status := StSuccess \<rparr>) q)" by (rule core_set_job[OF assms]) auto
  have "core cfg G {} (set_job r (\<lambda>j. j \<lparr> j_status := StSuccess \<rparr>) q)"
    by (rule core_drop[OF c1, of r]) (use r in \<open>simp_all add: set_job_def\<close>)
  then show ?thesis by (simp add: succeed_job_def Let_def emit_def core_def set_job_def)
qed

lemma core_dlq_add:
  assumes "core cfg G {r} q" "j_status (job_of q r) = StRunning"
  shows "core cfg G {} (dlq_add cfg now r q)"
proof (cases "qc_dlEnabled cfg")
  case False
  then show ?thesis using core_drop[OF assms(1), of r "{}"] assms(2) by (simp add: dlq_add_def)
next
  case True
  have r: "r < length (q_heap q)" using assms by (auto simp: core_def ids_ok_def)
  have c1: "core cfg G {r} (set_job r (\<lambda>j. j \<lparr> j_status := StDead \<rparr>) q)" by (rule core_set_job[OF assms(1)]) auto
  have "core cfg G {} (set_job r (\<lambda>j. j \<lparr> j_status := StDead \<rparr>) q)"
    by (rule core_drop[OF c1, of r]) (use r in \<open>simp_all add: set_job_def\<close>)
  then show ?thesis using True by (simp add: dlq_add_def Let_def emit_def core_def set_job_def)
qed

lemma core_retry_job:
  assumes "core cfg G {r} q"
  shows "core cfg G {} (retry_job cfg now rnd err r q)"
  unfolding retry_job_def Let_def core_emit core_arm
  by (rule core_schedule_job[OF assms]) auto

lemma core_fail_job:
  assumes "core cfg G {r} q" "j_status (job_of q r) = StRunning"
  shows "core cfg G {} (fail_job cfg now rnd err r q)"
proof -
  have r: "r < length (q_heap q)" using assms by (auto simp: core_def ids_ok_def)
  let ?q1 = "set_job r (\<lambda>j. j \<lparr> j_errors := j_errors j @ [err] \<rparr>) q"
  have c: "core cfg G {r} ?q1" by (rule core_set_job[OF assms(1)]) auto
  have "j_status (job_of ?q1 r) = StRunning" using assms(2) r by (simp add: set_job_def)
  then show ?thesis using core_dlq_add[OF c] core_retry_job[OF c] by (simp add: fail_job_def Let_def)
qed

lemma core_interrupt_requeue:
  assumes "core cfg G {r} q"
  shows "core cfg G {} (interrupt_requeue r q)"
proof -
  let ?f = "\<lambda>j. j \<lparr> j_attempts := j_attempts j - 1, j_status := StPending \<rparr>" and ?t = "j_priority (job_of q r)"
  let ?q1 = "set_job r ?f q"
  have r: "r < length (q_heap q)" using assms by (auto simp: core_def ids_ok_def)
  have c: "core cfg G {r} ?q1" by (rule core_set_job[OF assms]) auto
  have t: "j_priority (job_of ?q1 r) = ?t" using r by (simp add: set_job_def)
  show ?thesis unfolding interrupt_requeue_def Let_def core_emit t
  proof (rule core_put_pending[OF c])
    show "distinct (r # q_pending ?q1 ?t)"
      using pend_not_floating[OF c, of r ?t] c by (simp add: core_def pend_ok_def)
  qed (use r in \<open>simp_all add: set_job_def\<close>)
qed

lemma core_settle_body:
  assumes "core cfg G {r} q" "j_status (job_of q r) = StRunning"
  shows "core cfg G {} (settle_body cfg now rnd r reason out q)"
  using core_fail_job[OF assms] core_succeed_job[OF assms(1)] core_interrupt_requeue[OF assms(1)]
    core_markCancelled[OF assms(1), of r]
  by (auto simp: settle_body_def Let_def split: option.splits control_reason.splits send_outcome.splits send_result.splits)

lemma sending_running:
  "core cfg G X q \<Longrightarrow> (r, c) \<in> set (q_sending q) \<Longrightarrow> r < length (q_heap q) \<and> j_status (job_of q r) = StRunning"
  by (force simp: core_def send_ok_def with_status_def)

lemma core_settle:
  assumes "core cfg G {} q" "x \<in> set (q_sending q)"
  shows "core cfg G {} (settle cfg now rnd x out q)"
proof -
  obtain r c where x: "x = (r, c)" by (cases x)
  let ?q1 = "q \<lparr> q_sending := remove1 (r, c) (q_sending q), q_controllers := AList.delete (id_of q r) (q_controllers q),
                 q_finishing := q_finishing q @ [r] \<rparr>"
  have "core cfg G {r} (q \<lparr> q_sending := remove1 (r, c) (q_sending q) \<rparr>)"
    using core_take_sending[OF assms(1), of r c] assms(2) x by simp
  then have "core cfg G {r} ?q1" by (simp add: core_def)
  moreover have "j_status (job_of ?q1 r) = StRunning" using sending_running[OF assms(1)] assms(2) x by simp
  ultimately show ?thesis unfolding x settle_def Let_def prod.case by (rule core_settle_body)
qed

lemma core_frames:
  "core cfg G X (q \<lparr> q_sendFn := b \<rparr>) = core cfg G X q"
  "core cfg G X (q \<lparr> q_paused := b \<rparr>) = core cfg G X q"
  "core cfg G X (q \<lparr> q_paused := b, q_closed := d \<rparr>) = core cfg G X q"
  "core cfg G X (q \<lparr> q_timer := tm \<rparr>) = core cfg G X q"
  "core cfg G X (q \<lparr> q_finishing := fs, q_running := rn \<rparr>) = core cfg G X q"
  "core cfg G X (q \<lparr> q_drainWaiters := ws, q_nextWaiter := n \<rparr>) = core cfg G X q"
  "core cfg G X (q \<lparr> q_drainWaiters := ws \<rparr>) = core cfg G X q"
  "core cfg G X (q \<lparr> q_idempotent := im \<rparr>) = core cfg G X q"
  "core cfg G X (q \<lparr> q_limiter := ls \<rparr>) = core cfg G X q"
  "core cfg G X (trigger_ctrl rs c q) = core cfg G X q"
  "core cfg G X (rejectDrainWaiters err q) = core cfg G X q"
  by (rule core_cong; simp add: trigger_ctrl_def rejectDrainWaiters_def fold_emit)+

lemma core_findIdempotent: "core cfg G X (snd (findIdempotent now k q)) = core cfg G X q"
  by (auto simp: findIdempotent_def Let_def core_frames split: option.splits)

lemma findIdempotent_heap: "q_heap (snd (findIdempotent now k q)) = q_heap q"
  by (auto simp: findIdempotent_def Let_def split: option.splits)

lemma core_enqueue_new:
  assumes "core cfg G {} q" "fresh_off G (j_id job) q"
  shows "core cfg G {} (snd (enqueue_new cfg now job q))"
proof -
  have "core cfg G {length (q_heap q)} (q \<lparr> q_heap := q_heap q @ [job] \<rparr>)"
    using core_alloc[OF assms(1)] assms(2) by (simp add: fresh_off_def)
  then show ?thesis using assms(1)
    by (auto simp: enqueue_new_def Let_def core_emit core_frames split: option.splits intro!: core_place)
qed

lemma core_enqueue:
  assumes "core cfg G {} q" "fresh_off G (or_default (eo_id eo) i) q"
  shows "core cfg G {} (snd (enqueue cfg now i tok opts eo q))"
proof -
  have j: "j_id (new_job cfg now i tok opts eo) = or_default (eo_id eo) i" by (simp add: new_job_def Let_def)
  have "core cfg G {} (snd (enqueue_new cfg now (new_job cfg now i tok opts eo) q'))"
    if "q_heap q' = q_heap q" "core cfg G {} q'" for q'
    using that assms(2) by (intro core_enqueue_new) (simp_all add: fresh_off_def j)
  then show ?thesis using assms(1)
    by (auto simp: enqueue_def Let_def split: option.splits prod.splits)
       (metis core_findIdempotent findIdempotent_heap snd_conv)+
qed

lemma core_restore:
  assumes "core cfg G {} q" "fresh_off G (j_id job) q"
  shows "core cfg G {} (restore cfg now job q)"
proof -
  have "core cfg G {length (q_heap q)} (q \<lparr> q_heap := q_heap q @ [j] \<rparr>)" if "j_id j = j_id job" for j
    using core_alloc[OF assms(1)] assms(2) that by (simp add: fresh_off_def)
  then show ?thesis using assms(1) by (auto simp: restore_def Let_def intro!: core_place)
qed

lemma core_resume: "core cfg G {} q \<Longrightarrow> core cfg G {} (resume cfg now q)"
  by (simp add: resume_def core_tick core_frames)

lemma core_finish: "core cfg G {} q \<Longrightarrow> core cfg G {} (finish cfg now r q)"
  by (simp add: finish_def core_checkDrained core_tick core_frames)

lemma find_Some: "List.find P xs = Some x \<Longrightarrow> x \<in> set xs \<and> P x"
  by (auto simp: find_Some_iff)

lemma take_tiers_Some:
  "take_tiers P ts p = Some (r, p') \<Longrightarrow> \<exists>t. r \<in> set (p t) \<and> P r \<and> p' = p(t := remove1 r (p t))"
  by (induction P ts p rule: take_tiers.induct) (auto split: option.splits dest: find_Some)

lemma core_takeWaiting:
  assumes "core cfg G {} q" "takeWaiting now i q = (Some r, q1)"
  shows "core cfg G {r} q1"
proof (cases "map_of (q_scheduled q) i")
  case (Some s)
  then show ?thesis using assms core_take_scheduled[OF assms(1) map_of_SomeD[OF Some]]
    by (auto simp: takeWaiting_def core_arm)
next
  case None
  then obtain p where p: "take_tiers (\<lambda>r. id_of q r = i) PRIORITY_ORDER (q_pending q) = Some (r, p)"
      "q1 = q \<lparr> q_pending := p \<rparr>"
    using assms(2) by (auto simp: takeWaiting_def split: option.splits prod.splits)
  from take_tiers_Some[OF p(1)] obtain t where t: "r \<in> set (q_pending q t)" "p = (q_pending q)(t := remove1 r (q_pending q t))"
    by blast
  show ?thesis unfolding p(2) t(2)
    by (rule core_take_pending[OF assms(1) t(1)]) (use pend_distinct[OF assms(1)] in auto)
qed

lemma takeWaiting_None: "takeWaiting now i q = (None, q1) \<Longrightarrow> q1 = q"
  by (auto simp: takeWaiting_def split: option.splits prod.splits)

lemma core_cancel:
  assumes "core cfg G {} q"
  shows "core cfg G {} (snd (cancel now i q))"
proof -
  obtain o1 q1 where t: "takeWaiting now i q = (o1, q1)" by fastforce
  show ?thesis
  proof (cases o1)
    case None
    then show ?thesis using takeWaiting_None[of now i q q1] t assms
      by (auto simp: cancel_def core_frames split: option.splits)
  next
    case (Some r)
    then show ?thesis using core_markCancelled[OF core_takeWaiting[OF assms], of now i r q1 r "{}"] t
      by (simp add: cancel_def core_checkDrained)
  qed
qed

lemma pending_set_off:
  assumes "core cfg G {} q"
  shows "set (pending_refs q) = with_status (q_heap q) StPending - G"
proof (rule set_eqI)
  fix r
  have "r \<in> set (pending_refs q) \<longleftrightarrow> (\<exists>t. r \<in> set (q_pending q t))" using PRIORITY_ORDER_all(1) by (auto simp: pending_refs_def)
  also have "\<dots> \<longleftrightarrow> r \<in> with_status (q_heap q) StPending - G" using assms by (simp add: core_def pend_ok_def)
  finally show "r \<in> set (pending_refs q) \<longleftrightarrow> r \<in> with_status (q_heap q) StPending - G" .
qed

lemma scheduled_set_off:
  assumes "core cfg G {} q"
  shows "set (jsvals (q_scheduled q)) = with_status (q_heap q) StScheduled - G"
proof (rule set_eqI)
  fix r
  have "r \<in> set (jsvals (q_scheduled q)) \<longleftrightarrow> (\<exists>i. (i, r) \<in> set (q_scheduled q))" by force
  also have "\<dots> \<longleftrightarrow> r \<in> with_status (q_heap q) StScheduled - G" using assms by (simp add: core_def sched_ok_def)
  finally show "r \<in> set (jsvals (q_scheduled q)) \<longleftrightarrow> r \<in> with_status (q_heap q) StScheduled - G" .
qed

lemma waiting_mem_off:
  assumes "core cfg G {} q"
  shows "r \<in> set (waitingJobs q) \<longleftrightarrow> (r \<in> with_status (q_heap q) StPending \<or> r \<in> with_status (q_heap q) StScheduled) \<and> r \<notin> G"
  using pending_set_off[OF assms] scheduled_set_off[OF assms] by (auto simp: waitingJobs_def)

lemma pending_set: "core cfg {} {} q \<Longrightarrow> set (pending_refs q) = with_status (q_heap q) StPending"
  using pending_set_off by simp

lemma scheduled_set: "core cfg {} {} q \<Longrightarrow> set (jsvals (q_scheduled q)) = with_status (q_heap q) StScheduled"
  using scheduled_set_off by simp

lemma waiting_mem:
  "core cfg {} {} q \<Longrightarrow> r \<in> set (waitingJobs q) \<longleftrightarrow> r \<in> with_status (q_heap q) StPending \<or> r \<in> with_status (q_heap q) StScheduled"
  using waiting_mem_off by simp

lemma distinct_pending_refs: "core cfg G X q \<Longrightarrow> distinct (pending_refs q)"
proof -
  assume c: "core cfg G X q"
  have "p \<noteq> p' \<Longrightarrow> set (q_pending q p) \<inter> set (q_pending q p') = {}" for p p'
    using c by (auto simp: core_def pend_ok_def)
  then show ?thesis using pend_distinct[OF c] by (auto simp: pending_refs_def PRIORITY_ORDER_def)
qed

lemma distinct_sched_vals: "core cfg G X q \<Longrightarrow> distinct (jsvals (q_scheduled q))"
proof -
  assume c: "core cfg G X q"
  have d: "distinct (q_scheduled q)" using c by (auto simp: core_def sched_ok_def distinct_map)
  have "inj_on snd (set (q_scheduled q))" using c by (auto simp: inj_on_def core_def sched_ok_def)
  then show ?thesis using d by (simp add: distinct_map)
qed

lemma distinct_waiting:
  assumes "core cfg G {} q"
  shows "distinct (waitingJobs q)"
proof -
  have "set (pending_refs q) \<inter> set (jsvals (q_scheduled q)) = {}"
    using assms by (force simp: pending_refs_def core_def pend_ok_def sched_ok_def dest: with_status_unique)
  then show ?thesis using distinct_pending_refs[OF assms] distinct_sched_vals[OF assms]
    by (auto simp: waitingJobs_def)
qed

lemma core_fold_markCancelled: "distinct rs \<Longrightarrow> core cfg G (set rs) q \<Longrightarrow> core cfg G {} (fold (markCancelled now) rs q)"
proof (induction rs arbitrary: q)
  case (Cons r rs)
  then show ?case using core_markCancelled[OF Cons.prems(2), of r "set rs" now] by simp
qed simp

lemma core_cancelAll:
  assumes "core cfg G {} q"
  shows "core cfg G {} (snd (cancelAll now q))"
proof -
  let ?q1 = "q \<lparr> q_pending := (\<lambda>_. []), q_scheduled := [] \<rparr>"
  have "set (waitingJobs q) \<subseteq> {..<length (q_heap q)}"
    using waiting_mem_off[OF assms] by (auto dest: with_status_less)
  moreover have "r \<in> with_status (q_heap q) StRunning \<Longrightarrow> r \<notin> with_status (q_heap q) StPending \<and> r \<notin> with_status (q_heap q) StScheduled" for r
    by (auto dest: with_status_unique)
  ultimately have "core cfg G (set (waitingJobs q)) ?q1"
    using assms waiting_mem_off[OF assms] by (auto simp: core_def ids_ok_def pend_ok_def sched_ok_def send_ok_def)
  then show ?thesis
    by (simp add: cancelAll_def Let_def core_checkDrained core_fold_markCancelled[OF distinct_waiting[OF assms]] core_arm)
qed

lemma core_fold_trigger: "core cfg G X (fold (trigger_ctrl rs) cs q) = core cfg G X q"
  by (induction cs arbitrary: q) (auto simp: core_frames)

lemma core_control: "core cfg G X (snd (control_one rs i q)) = core cfg G X q" "core cfg G X (snd (control_all rs q)) = core cfg G X q"
  by (auto simp: control_one_def control_all_def core_frames core_fold_trigger split: option.splits)

lemma core_drain: "core cfg G X (snd (drain q)) = core cfg G X q"
  by (simp add: drain_def core_frames)

lemma core_sd_close: "core cfg G {} q \<Longrightarrow> core cfg G {} (snd (sd_close now s q))"
  by (simp add: sd_close_def Let_def core_frames core_cancelAll)

lemma core_sd_finish: "core cfg G X (snd (sd_finish s q)) = core cfg G X q"
  by (simp add: sd_finish_def Let_def core_frames)

lemma core_sd_check: "core cfg G {} q \<Longrightarrow> core cfg G {} (snd (sd_check now s q))"
  by (auto simp: sd_check_def core_sd_close core_sd_finish interruptAll_def core_control split: sd_phase.splits)

lemma core_sd_start: "core cfg G {} q \<Longrightarrow> core cfg G {} (snd (sd_start cfg now so q))"
  by (auto simp: sd_start_def Let_def core_resume core_sd_close)

lemma core_init: "core cfg {} {} new_queue"
  by (simp add: core_def new_queue_def ids_ok_def pend_ok_def sched_ok_def send_ok_def with_status_def)

lemma core_step: "core cfg G {} q \<Longrightarrow> q_ok q op \<Longrightarrow> core cfg G {} (q_step cfg q op)"
  by (cases op)
     (simp_all add: setSendFn_def core_tick core_frames core_enqueue core_restore fresh_id_off core_promoteDue core_settle core_finish
        core_resume pause_def core_checkDrained core_cancel core_cancelAll interrupt_def interruptAll_def abort_job_def
        abortAll_def core_control core_drain core_sd_start core_sd_check)

interpretation mqc: machine "q_step cfg" q_ok "core cfg G {}" for cfg G
  by unfold_locales (rule core_step)

text \<open>The states a queue can reach.\<close>

definition q_reachable :: "queue_cfg \<Rightarrow> mail_queue \<Rightarrow> bool" where
  "q_reachable cfg q \<longleftrightarrow> (\<exists>ops. legal_run (q_step cfg) q_ok new_queue ops \<and> q = run (q_step cfg) new_queue ops)"

lemma reachable_core: "q_reachable cfg q \<Longrightarrow> core cfg {} {} q"
  using mqc.inv_run core_init by (auto simp: q_reachable_def)

end
