(* ===== verification/MailQueueBook.thy ===== *)
theory MailQueueBook
  imports MailQueueInv
begin

text \<open>
  The bookkeeping of the send queue: which fields each step leaves alone, the running map
  and the concurrency limit, controllers, counters, the schedule timer, throttled jobs, the
  attempt bound, and that no job waits while a slot is free.
\<close>

section \<open>Frames\<close>

lemma set_job_frame [simp]:
  "q_pending (set_job r f q) = q_pending q"
  "q_scheduled (set_job r f q) = q_scheduled q"
  "q_running (set_job r f q) = q_running q"
  "q_timer (set_job r f q) = q_timer q"
  "q_succeeded (set_job r f q) = q_succeeded q"
  "q_cancelled (set_job r f q) = q_cancelled q"
  "q_dlq (set_job r f q) = q_dlq q"
  "q_sendFn (set_job r f q) = q_sendFn q"
  "q_drainWaiters (set_job r f q) = q_drainWaiters q"
  "q_nextWaiter (set_job r f q) = q_nextWaiter q"
  "q_paused (set_job r f q) = q_paused q"
  "q_closed (set_job r f q) = q_closed q"
  "q_controllers (set_job r f q) = q_controllers q"
  "q_ctrls (set_job r f q) = q_ctrls q"
  "q_sending (set_job r f q) = q_sending q"
  "q_finishing (set_job r f q) = q_finishing q"
  "q_limiter (set_job r f q) = q_limiter q"
  "q_idempotent (set_job r f q) = q_idempotent q"
  "q_throttled (set_job r f q) = q_throttled q"
  "q_trace (set_job r f q) = q_trace q"
  by (simp_all add: set_job_def Let_def)

lemma emit_frame [simp]:
  "q_heap (emit e q) = q_heap q"
  "q_pending (emit e q) = q_pending q"
  "q_scheduled (emit e q) = q_scheduled q"
  "q_running (emit e q) = q_running q"
  "q_timer (emit e q) = q_timer q"
  "q_succeeded (emit e q) = q_succeeded q"
  "q_cancelled (emit e q) = q_cancelled q"
  "q_dlq (emit e q) = q_dlq q"
  "q_sendFn (emit e q) = q_sendFn q"
  "q_drainWaiters (emit e q) = q_drainWaiters q"
  "q_nextWaiter (emit e q) = q_nextWaiter q"
  "q_paused (emit e q) = q_paused q"
  "q_closed (emit e q) = q_closed q"
  "q_controllers (emit e q) = q_controllers q"
  "q_ctrls (emit e q) = q_ctrls q"
  "q_sending (emit e q) = q_sending q"
  "q_finishing (emit e q) = q_finishing q"
  "q_limiter (emit e q) = q_limiter q"
  "q_idempotent (emit e q) = q_idempotent q"
  "q_throttled (emit e q) = q_throttled q"
  by (simp_all add: emit_def Let_def)

lemma armSchedule_frame [simp]:
  "q_heap (armSchedule now q) = q_heap q"
  "q_pending (armSchedule now q) = q_pending q"
  "q_scheduled (armSchedule now q) = q_scheduled q"
  "q_running (armSchedule now q) = q_running q"
  "q_succeeded (armSchedule now q) = q_succeeded q"
  "q_cancelled (armSchedule now q) = q_cancelled q"
  "q_dlq (armSchedule now q) = q_dlq q"
  "q_sendFn (armSchedule now q) = q_sendFn q"
  "q_drainWaiters (armSchedule now q) = q_drainWaiters q"
  "q_nextWaiter (armSchedule now q) = q_nextWaiter q"
  "q_paused (armSchedule now q) = q_paused q"
  "q_closed (armSchedule now q) = q_closed q"
  "q_controllers (armSchedule now q) = q_controllers q"
  "q_ctrls (armSchedule now q) = q_ctrls q"
  "q_sending (armSchedule now q) = q_sending q"
  "q_finishing (armSchedule now q) = q_finishing q"
  "q_limiter (armSchedule now q) = q_limiter q"
  "q_idempotent (armSchedule now q) = q_idempotent q"
  "q_throttled (armSchedule now q) = q_throttled q"
  "q_trace (armSchedule now q) = q_trace q"
  by (simp_all add: armSchedule_def Let_def)

lemma start_job_frame [simp]:
  "q_pending (start_job now r q) = q_pending q"
  "q_scheduled (start_job now r q) = q_scheduled q"
  "q_running (start_job now r q) = q_running q"
  "q_timer (start_job now r q) = q_timer q"
  "q_succeeded (start_job now r q) = q_succeeded q"
  "q_cancelled (start_job now r q) = q_cancelled q"
  "q_dlq (start_job now r q) = q_dlq q"
  "q_sendFn (start_job now r q) = q_sendFn q"
  "q_drainWaiters (start_job now r q) = q_drainWaiters q"
  "q_nextWaiter (start_job now r q) = q_nextWaiter q"
  "q_paused (start_job now r q) = q_paused q"
  "q_closed (start_job now r q) = q_closed q"
  "q_finishing (start_job now r q) = q_finishing q"
  "q_limiter (start_job now r q) = q_limiter q"
  "q_idempotent (start_job now r q) = q_idempotent q"
  "q_throttled (start_job now r q) = q_throttled q"
  by (simp_all add: start_job_def Let_def)

lemma launch_job_frame [simp]:
  "q_pending (launch_job now r q) = q_pending q"
  "q_scheduled (launch_job now r q) = q_scheduled q"
  "q_timer (launch_job now r q) = q_timer q"
  "q_succeeded (launch_job now r q) = q_succeeded q"
  "q_cancelled (launch_job now r q) = q_cancelled q"
  "q_dlq (launch_job now r q) = q_dlq q"
  "q_sendFn (launch_job now r q) = q_sendFn q"
  "q_drainWaiters (launch_job now r q) = q_drainWaiters q"
  "q_nextWaiter (launch_job now r q) = q_nextWaiter q"
  "q_paused (launch_job now r q) = q_paused q"
  "q_closed (launch_job now r q) = q_closed q"
  "q_finishing (launch_job now r q) = q_finishing q"
  "q_limiter (launch_job now r q) = q_limiter q"
  "q_idempotent (launch_job now r q) = q_idempotent q"
  "q_throttled (launch_job now r q) = q_throttled q"
  by (simp_all add: launch_job_def Let_def)

lemma throttle_job_frame [simp]:
  "q_pending (throttle_job now w r q) = q_pending q"
  "q_running (throttle_job now w r q) = q_running q"
  "q_succeeded (throttle_job now w r q) = q_succeeded q"
  "q_cancelled (throttle_job now w r q) = q_cancelled q"
  "q_dlq (throttle_job now w r q) = q_dlq q"
  "q_sendFn (throttle_job now w r q) = q_sendFn q"
  "q_drainWaiters (throttle_job now w r q) = q_drainWaiters q"
  "q_nextWaiter (throttle_job now w r q) = q_nextWaiter q"
  "q_paused (throttle_job now w r q) = q_paused q"
  "q_closed (throttle_job now w r q) = q_closed q"
  "q_controllers (throttle_job now w r q) = q_controllers q"
  "q_ctrls (throttle_job now w r q) = q_ctrls q"
  "q_sending (throttle_job now w r q) = q_sending q"
  "q_finishing (throttle_job now w r q) = q_finishing q"
  "q_limiter (throttle_job now w r q) = q_limiter q"
  "q_idempotent (throttle_job now w r q) = q_idempotent q"
  by (simp_all add: throttle_job_def Let_def)

lemma promote_one_frame [simp]:
  "q_running (promote_one i r q) = q_running q"
  "q_timer (promote_one i r q) = q_timer q"
  "q_succeeded (promote_one i r q) = q_succeeded q"
  "q_cancelled (promote_one i r q) = q_cancelled q"
  "q_dlq (promote_one i r q) = q_dlq q"
  "q_sendFn (promote_one i r q) = q_sendFn q"
  "q_drainWaiters (promote_one i r q) = q_drainWaiters q"
  "q_nextWaiter (promote_one i r q) = q_nextWaiter q"
  "q_paused (promote_one i r q) = q_paused q"
  "q_closed (promote_one i r q) = q_closed q"
  "q_controllers (promote_one i r q) = q_controllers q"
  "q_ctrls (promote_one i r q) = q_ctrls q"
  "q_sending (promote_one i r q) = q_sending q"
  "q_finishing (promote_one i r q) = q_finishing q"
  "q_limiter (promote_one i r q) = q_limiter q"
  "q_idempotent (promote_one i r q) = q_idempotent q"
  by (simp_all add: promote_one_def Let_def)

lemma markCancelled_frame [simp]:
  "q_pending (markCancelled now r q) = q_pending q"
  "q_scheduled (markCancelled now r q) = q_scheduled q"
  "q_running (markCancelled now r q) = q_running q"
  "q_timer (markCancelled now r q) = q_timer q"
  "q_succeeded (markCancelled now r q) = q_succeeded q"
  "q_dlq (markCancelled now r q) = q_dlq q"
  "q_sendFn (markCancelled now r q) = q_sendFn q"
  "q_drainWaiters (markCancelled now r q) = q_drainWaiters q"
  "q_nextWaiter (markCancelled now r q) = q_nextWaiter q"
  "q_paused (markCancelled now r q) = q_paused q"
  "q_closed (markCancelled now r q) = q_closed q"
  "q_controllers (markCancelled now r q) = q_controllers q"
  "q_ctrls (markCancelled now r q) = q_ctrls q"
  "q_sending (markCancelled now r q) = q_sending q"
  "q_finishing (markCancelled now r q) = q_finishing q"
  "q_limiter (markCancelled now r q) = q_limiter q"
  "q_idempotent (markCancelled now r q) = q_idempotent q"
  by (simp_all add: markCancelled_def Let_def)

lemma interrupt_requeue_frame [simp]:
  "q_scheduled (interrupt_requeue r q) = q_scheduled q"
  "q_running (interrupt_requeue r q) = q_running q"
  "q_timer (interrupt_requeue r q) = q_timer q"
  "q_succeeded (interrupt_requeue r q) = q_succeeded q"
  "q_cancelled (interrupt_requeue r q) = q_cancelled q"
  "q_dlq (interrupt_requeue r q) = q_dlq q"
  "q_sendFn (interrupt_requeue r q) = q_sendFn q"
  "q_drainWaiters (interrupt_requeue r q) = q_drainWaiters q"
  "q_nextWaiter (interrupt_requeue r q) = q_nextWaiter q"
  "q_paused (interrupt_requeue r q) = q_paused q"
  "q_closed (interrupt_requeue r q) = q_closed q"
  "q_controllers (interrupt_requeue r q) = q_controllers q"
  "q_ctrls (interrupt_requeue r q) = q_ctrls q"
  "q_sending (interrupt_requeue r q) = q_sending q"
  "q_finishing (interrupt_requeue r q) = q_finishing q"
  "q_limiter (interrupt_requeue r q) = q_limiter q"
  "q_idempotent (interrupt_requeue r q) = q_idempotent q"
  "q_throttled (interrupt_requeue r q) = q_throttled q"
  by (simp_all add: interrupt_requeue_def Let_def)

lemma succeed_job_frame [simp]:
  "q_pending (succeed_job r res q) = q_pending q"
  "q_scheduled (succeed_job r res q) = q_scheduled q"
  "q_running (succeed_job r res q) = q_running q"
  "q_timer (succeed_job r res q) = q_timer q"
  "q_cancelled (succeed_job r res q) = q_cancelled q"
  "q_dlq (succeed_job r res q) = q_dlq q"
  "q_sendFn (succeed_job r res q) = q_sendFn q"
  "q_drainWaiters (succeed_job r res q) = q_drainWaiters q"
  "q_nextWaiter (succeed_job r res q) = q_nextWaiter q"
  "q_paused (succeed_job r res q) = q_paused q"
  "q_closed (succeed_job r res q) = q_closed q"
  "q_controllers (succeed_job r res q) = q_controllers q"
  "q_ctrls (succeed_job r res q) = q_ctrls q"
  "q_sending (succeed_job r res q) = q_sending q"
  "q_finishing (succeed_job r res q) = q_finishing q"
  "q_limiter (succeed_job r res q) = q_limiter q"
  "q_idempotent (succeed_job r res q) = q_idempotent q"
  "q_throttled (succeed_job r res q) = q_throttled q"
  by (simp_all add: succeed_job_def Let_def)

lemma retry_job_frame [simp]:
  "q_pending (retry_job cfg now rnd err r q) = q_pending q"
  "q_running (retry_job cfg now rnd err r q) = q_running q"
  "q_succeeded (retry_job cfg now rnd err r q) = q_succeeded q"
  "q_cancelled (retry_job cfg now rnd err r q) = q_cancelled q"
  "q_dlq (retry_job cfg now rnd err r q) = q_dlq q"
  "q_sendFn (retry_job cfg now rnd err r q) = q_sendFn q"
  "q_drainWaiters (retry_job cfg now rnd err r q) = q_drainWaiters q"
  "q_nextWaiter (retry_job cfg now rnd err r q) = q_nextWaiter q"
  "q_paused (retry_job cfg now rnd err r q) = q_paused q"
  "q_closed (retry_job cfg now rnd err r q) = q_closed q"
  "q_controllers (retry_job cfg now rnd err r q) = q_controllers q"
  "q_ctrls (retry_job cfg now rnd err r q) = q_ctrls q"
  "q_sending (retry_job cfg now rnd err r q) = q_sending q"
  "q_finishing (retry_job cfg now rnd err r q) = q_finishing q"
  "q_limiter (retry_job cfg now rnd err r q) = q_limiter q"
  "q_idempotent (retry_job cfg now rnd err r q) = q_idempotent q"
  "q_throttled (retry_job cfg now rnd err r q) = q_throttled q"
  by (simp_all add: retry_job_def Let_def)

lemma dlq_add_frame [simp]:
  "q_pending (dlq_add cfg now r q) = q_pending q"
  "q_scheduled (dlq_add cfg now r q) = q_scheduled q"
  "q_running (dlq_add cfg now r q) = q_running q"
  "q_timer (dlq_add cfg now r q) = q_timer q"
  "q_succeeded (dlq_add cfg now r q) = q_succeeded q"
  "q_cancelled (dlq_add cfg now r q) = q_cancelled q"
  "q_sendFn (dlq_add cfg now r q) = q_sendFn q"
  "q_drainWaiters (dlq_add cfg now r q) = q_drainWaiters q"
  "q_nextWaiter (dlq_add cfg now r q) = q_nextWaiter q"
  "q_paused (dlq_add cfg now r q) = q_paused q"
  "q_closed (dlq_add cfg now r q) = q_closed q"
  "q_controllers (dlq_add cfg now r q) = q_controllers q"
  "q_ctrls (dlq_add cfg now r q) = q_ctrls q"
  "q_sending (dlq_add cfg now r q) = q_sending q"
  "q_finishing (dlq_add cfg now r q) = q_finishing q"
  "q_limiter (dlq_add cfg now r q) = q_limiter q"
  "q_idempotent (dlq_add cfg now r q) = q_idempotent q"
  "q_throttled (dlq_add cfg now r q) = q_throttled q"
  by (simp_all add: dlq_add_def Let_def)

lemma fail_job_frame [simp]:
  "q_pending (fail_job cfg now rnd err r q) = q_pending q"
  "q_running (fail_job cfg now rnd err r q) = q_running q"
  "q_succeeded (fail_job cfg now rnd err r q) = q_succeeded q"
  "q_cancelled (fail_job cfg now rnd err r q) = q_cancelled q"
  "q_sendFn (fail_job cfg now rnd err r q) = q_sendFn q"
  "q_drainWaiters (fail_job cfg now rnd err r q) = q_drainWaiters q"
  "q_nextWaiter (fail_job cfg now rnd err r q) = q_nextWaiter q"
  "q_paused (fail_job cfg now rnd err r q) = q_paused q"
  "q_closed (fail_job cfg now rnd err r q) = q_closed q"
  "q_controllers (fail_job cfg now rnd err r q) = q_controllers q"
  "q_ctrls (fail_job cfg now rnd err r q) = q_ctrls q"
  "q_sending (fail_job cfg now rnd err r q) = q_sending q"
  "q_finishing (fail_job cfg now rnd err r q) = q_finishing q"
  "q_limiter (fail_job cfg now rnd err r q) = q_limiter q"
  "q_idempotent (fail_job cfg now rnd err r q) = q_idempotent q"
  "q_throttled (fail_job cfg now rnd err r q) = q_throttled q"
  by (simp_all add: fail_job_def Let_def)

lemma settle_body_frame [simp]:
  "q_running (settle_body cfg now rnd r rs out q) = q_running q"
  "q_sendFn (settle_body cfg now rnd r rs out q) = q_sendFn q"
  "q_drainWaiters (settle_body cfg now rnd r rs out q) = q_drainWaiters q"
  "q_nextWaiter (settle_body cfg now rnd r rs out q) = q_nextWaiter q"
  "q_paused (settle_body cfg now rnd r rs out q) = q_paused q"
  "q_closed (settle_body cfg now rnd r rs out q) = q_closed q"
  "q_controllers (settle_body cfg now rnd r rs out q) = q_controllers q"
  "q_ctrls (settle_body cfg now rnd r rs out q) = q_ctrls q"
  "q_sending (settle_body cfg now rnd r rs out q) = q_sending q"
  "q_finishing (settle_body cfg now rnd r rs out q) = q_finishing q"
  "q_limiter (settle_body cfg now rnd r rs out q) = q_limiter q"
  "q_idempotent (settle_body cfg now rnd r rs out q) = q_idempotent q"
  by (auto simp: settle_body_def Let_def split: option.splits control_reason.splits send_outcome.splits send_result.splits)

lemma rejectDrainWaiters_frame [simp]:
  "q_heap (rejectDrainWaiters err q) = q_heap q"
  "q_pending (rejectDrainWaiters err q) = q_pending q"
  "q_scheduled (rejectDrainWaiters err q) = q_scheduled q"
  "q_running (rejectDrainWaiters err q) = q_running q"
  "q_timer (rejectDrainWaiters err q) = q_timer q"
  "q_succeeded (rejectDrainWaiters err q) = q_succeeded q"
  "q_cancelled (rejectDrainWaiters err q) = q_cancelled q"
  "q_dlq (rejectDrainWaiters err q) = q_dlq q"
  "q_sendFn (rejectDrainWaiters err q) = q_sendFn q"
  "q_nextWaiter (rejectDrainWaiters err q) = q_nextWaiter q"
  "q_paused (rejectDrainWaiters err q) = q_paused q"
  "q_closed (rejectDrainWaiters err q) = q_closed q"
  "q_controllers (rejectDrainWaiters err q) = q_controllers q"
  "q_ctrls (rejectDrainWaiters err q) = q_ctrls q"
  "q_sending (rejectDrainWaiters err q) = q_sending q"
  "q_finishing (rejectDrainWaiters err q) = q_finishing q"
  "q_limiter (rejectDrainWaiters err q) = q_limiter q"
  "q_idempotent (rejectDrainWaiters err q) = q_idempotent q"
  "q_throttled (rejectDrainWaiters err q) = q_throttled q"
  by (auto simp: rejectDrainWaiters_def Let_def fold_emit)

lemma checkDrained_frame [simp]:
  "q_heap (checkDrained q) = q_heap q"
  "q_pending (checkDrained q) = q_pending q"
  "q_scheduled (checkDrained q) = q_scheduled q"
  "q_running (checkDrained q) = q_running q"
  "q_timer (checkDrained q) = q_timer q"
  "q_succeeded (checkDrained q) = q_succeeded q"
  "q_cancelled (checkDrained q) = q_cancelled q"
  "q_dlq (checkDrained q) = q_dlq q"
  "q_sendFn (checkDrained q) = q_sendFn q"
  "q_nextWaiter (checkDrained q) = q_nextWaiter q"
  "q_paused (checkDrained q) = q_paused q"
  "q_closed (checkDrained q) = q_closed q"
  "q_controllers (checkDrained q) = q_controllers q"
  "q_ctrls (checkDrained q) = q_ctrls q"
  "q_sending (checkDrained q) = q_sending q"
  "q_finishing (checkDrained q) = q_finishing q"
  "q_limiter (checkDrained q) = q_limiter q"
  "q_idempotent (checkDrained q) = q_idempotent q"
  "q_throttled (checkDrained q) = q_throttled q"
  by (auto simp: checkDrained_def Let_def fold_emit)

lemma trigger_ctrl_frame [simp]:
  "q_heap (trigger_ctrl rs c q) = q_heap q"
  "q_pending (trigger_ctrl rs c q) = q_pending q"
  "q_scheduled (trigger_ctrl rs c q) = q_scheduled q"
  "q_running (trigger_ctrl rs c q) = q_running q"
  "q_timer (trigger_ctrl rs c q) = q_timer q"
  "q_succeeded (trigger_ctrl rs c q) = q_succeeded q"
  "q_cancelled (trigger_ctrl rs c q) = q_cancelled q"
  "q_dlq (trigger_ctrl rs c q) = q_dlq q"
  "q_sendFn (trigger_ctrl rs c q) = q_sendFn q"
  "q_drainWaiters (trigger_ctrl rs c q) = q_drainWaiters q"
  "q_nextWaiter (trigger_ctrl rs c q) = q_nextWaiter q"
  "q_paused (trigger_ctrl rs c q) = q_paused q"
  "q_closed (trigger_ctrl rs c q) = q_closed q"
  "q_controllers (trigger_ctrl rs c q) = q_controllers q"
  "q_sending (trigger_ctrl rs c q) = q_sending q"
  "q_finishing (trigger_ctrl rs c q) = q_finishing q"
  "q_limiter (trigger_ctrl rs c q) = q_limiter q"
  "q_idempotent (trigger_ctrl rs c q) = q_idempotent q"
  "q_throttled (trigger_ctrl rs c q) = q_throttled q"
  "q_trace (trigger_ctrl rs c q) = q_trace q"
  by (simp_all add: trigger_ctrl_def Let_def)

lemma nextPending_frame:
  assumes "nextPending q = Some (r, q1)"
  obtains t rs where "q_pending q t = r # rs" "q1 = q \<lparr> q_pending := (q_pending q)(t := rs) \<rparr>" "r \<in> set (pending_refs q)"
    "\<forall>t'\<in>set (takeWhile (\<lambda>u. u \<noteq> t) PRIORITY_ORDER). q_pending q t' = []"
proof (rule nextPending_Some[OF assms])
  fix t rs
  assume a: "q_pending q t = r # rs" "q1 = q \<lparr> q_pending := (q_pending q)(t := rs) \<rparr>"
    "\<forall>t'\<in>set (takeWhile (\<lambda>u. u \<noteq> t) PRIORITY_ORDER). q_pending q t' = []"
  have "r \<in> set (pending_refs q)" using a(1) PRIORITY_ORDER_all(1)[of t] by (auto simp: pending_refs_def intro!: bexI[of _ t])
  then show thesis using that a by blast
qed

text \<open>The two ways a pass of the loop can go.\<close>

lemma tick_step_cases:
  assumes "tick_step cfg now q = Some q'"
  obtains (launch) t r rs ls where "q_pending q t = r # rs" "r \<in> set (pending_refs q)" "\<not> q_paused q"
      "length (q_running q) < qc_concurrency cfg"
      "\<forall>t'\<in>set (takeWhile (\<lambda>u. u \<noteq> t) PRIORITY_ORDER). q_pending q t' = []"
      "q' = launch_job now r (q \<lparr> q_pending := (q_pending q)(t := rs), q_limiter := ls \<rparr>)"
    | (throttle) t r rs ls w where "q_pending q t = r # rs" "r \<in> set (pending_refs q)" "\<not> q_paused q" "w > 0"
      "length (q_running q) < qc_concurrency cfg"
      "\<forall>t'\<in>set (takeWhile (\<lambda>u. u \<noteq> t) PRIORITY_ORDER). q_pending q t' = []"
      "q' = throttle_job now w r (q \<lparr> q_pending := (q_pending q)(t := rs), q_limiter := ls \<rparr>)"
proof -
  obtain r q1 where q1: "nextPending q = Some (r, q1)" and g: "\<not> q_paused q" "length (q_running q) < qc_concurrency cfg"
    using assms by (auto simp: tick_step_def split: if_splits option.splits)
  obtain t rs where t: "q_pending q t = r # rs" "q1 = q \<lparr> q_pending := (q_pending q)(t := rs) \<rparr>" "r \<in> set (pending_refs q)"
    "\<forall>t'\<in>set (takeWhile (\<lambda>u. u \<noteq> t) PRIORITY_ORDER). q_pending q t' = []"
    using q1 by (rule nextPending_frame)
  show thesis
  proof (cases "qc_limiter cfg")
    case None
    then have "q' = launch_job now r q1" using assms q1 g by (simp add: tick_step_def)
    moreover have "q1 = q \<lparr> q_pending := (q_pending q)(t := rs), q_limiter := q_limiter q \<rparr>" by (simp add: t(2))
    ultimately show thesis using launch t(1,3,4) g by blast
  next
    case (Some opts)
    obtain w ls where w: "rl_waitFor opts (job_of q1 r) now (q_limiter q1) = (w, ls)" by fastforce
    show thesis
    proof (cases "w > 0")
      case True
      then have "q' = throttle_job now w r (q1 \<lparr> q_limiter := ls \<rparr>)"
        using assms q1 g w Some by (simp add: tick_step_def)
      then show thesis using throttle t True g by (simp add: t(2))
    next
      case False
      let ?ls = "rl_record opts (job_of q1 r) now ls"
      have "q' = launch_job now r (q1 \<lparr> q_limiter := ?ls \<rparr>)"
        using assms q1 g w Some False by (simp add: tick_step_def Let_def)
      then show thesis using launch t g by (simp add: t(2))
    qed
  qed
qed

lemma tick_frame [simp]:
  "q_succeeded (tick cfg now q) = q_succeeded q"
  "q_cancelled (tick cfg now q) = q_cancelled q"
  "q_dlq (tick cfg now q) = q_dlq q"
  "q_sendFn (tick cfg now q) = q_sendFn q"
  "q_drainWaiters (tick cfg now q) = q_drainWaiters q"
  "q_nextWaiter (tick cfg now q) = q_nextWaiter q"
  "q_paused (tick cfg now q) = q_paused q"
  "q_closed (tick cfg now q) = q_closed q"
  "q_finishing (tick cfg now q) = q_finishing q"
  "q_idempotent (tick cfg now q) = q_idempotent q"
  by (rule tick_keeps[where P = "\<lambda>q'. f q' = f q" for f]; (erule tick_step_cases; simp)?; simp)+

lemma tick_stopped: "q_paused q \<or> \<not> length (q_running q) < qc_concurrency cfg \<or> pending_refs q = [] \<Longrightarrow> tick cfg now q = q"
  using nextPending_None[of q] by (auto simp: tick_def tick_loop.simps tick_step_def)

text \<open>After tick nothing that could start is left.\<close>

lemma tick_loop_done:
  "tick_step cfg now (tick_loop cfg now q) = None"
proof (induction cfg now q rule: tick_loop.induct)
  case (1 cfg now q)
  then show ?case by (cases "tick_step cfg now q") (simp_all add: tick_loop.simps[of cfg now q])
qed

lemma tick_done:
  "q_sendFn q \<Longrightarrow> q_paused q \<or> pending_refs (tick cfg now q) = [] \<or> length (q_running (tick cfg now q)) \<ge> qc_concurrency cfg"
  using tick_loop_done[of cfg now q] tick_frame(7)[of cfg now q] nextPending_None[of "tick cfg now q"]
  by (auto simp: tick_step_def tick_def Let_def split: if_splits option.splits prod.splits)

section \<open>Ids never change\<close>

abbreviation q_ids :: "mail_queue \<Rightarrow> string list" where "q_ids q \<equiv> map j_id (q_heap q)"

lemma id_of_ids: "r < length (q_heap q) \<Longrightarrow> id_of q r = q_ids q ! r" by simp

lemma ids_set_job: "(\<And>j. j_id (f j) = j_id j) \<Longrightarrow> q_ids (set_job r f q) = q_ids q"
  by (metis (no_types, lifting) set_job_def list_update_id map_update mail_queue.select_convs(1) mail_queue.update_convs(1) mail_queue.surjective)

lemma ids_steps [simp]:
  "q_ids (start_job now r q) = q_ids q"
  "q_ids (launch_job now r q) = q_ids q"
  "q_ids (throttle_job now w r q) = q_ids q"
  "q_ids (promote_one i r q) = q_ids q"
  "q_ids (markCancelled now r q) = q_ids q"
  "q_ids (interrupt_requeue r q) = q_ids q"
  "q_ids (succeed_job r res q) = q_ids q"
  "q_ids (retry_job cfg now rnd err r q) = q_ids q"
  "q_ids (dlq_add cfg now r q) = q_ids q"
  "q_ids (fail_job cfg now rnd err r q) = q_ids q"
  by (simp_all add: start_job_def launch_job_def throttle_job_def promote_one_def markCancelled_def interrupt_requeue_def
      succeed_job_def retry_job_def dlq_add_def fail_job_def Let_def ids_set_job)

lemma ids_settle [simp]: "q_ids (settle_body cfg now rnd r rs out q) = q_ids q"
  by (auto simp: settle_body_def Let_def split: option.splits control_reason.splits send_outcome.splits send_result.splits)

lemma ids_tick [simp]: "q_ids (tick cfg now q) = q_ids q"
  by (rule tick_keeps[where P = "\<lambda>q'. q_ids q' = q_ids q"]; (erule tick_step_cases; simp)?; simp)

lemma ids_promote_list [simp]: "q_ids (promote_list now es q) = q_ids q"
  unfolding promote_list_def by (induction es arbitrary: q) (auto simp: split_def)

section \<open>The running map\<close>

definition run_ok :: "queue_cfg \<Rightarrow> mail_queue \<Rightarrow> bool" where
  "run_ok cfg q \<longleftrightarrow> distinct (jskeys (q_running q)) \<and> length (q_running q) \<le> qc_concurrency cfg \<and>
     (\<forall>(i, r) \<in> set (q_running q). r < length (q_heap q) \<and> q_ids q ! r = i)"

lemma ids_length: "q_ids q' = q_ids q \<Longrightarrow> length (q_heap q') = length (q_heap q)"
  by (metis length_map)

lemma run_ok_cong: "q_running q' = q_running q \<Longrightarrow> q_ids q' = q_ids q \<Longrightarrow> run_ok cfg q' = run_ok cfg q"
  using ids_length[of q' q] by (simp add: run_ok_def)

lemma run_ok_launch:
  assumes "run_ok cfg q" "length (q_running q) < qc_concurrency cfg" "r < length (q_heap q)"
  shows "run_ok cfg (launch_job now r q)"
proof -
  have run: "q_running (launch_job now r q) = AList.update (id_of q r) r (q_running q)"
    by (simp add: launch_job_def)
  have mem: "(k, x) \<in> set (AList.update i r m) \<Longrightarrow> (k = i \<and> x = r) \<or> (k, x) \<in> set m" for k x i m
    by (induction m) (auto split: if_splits)
  have l: "length (q_heap (launch_job now r q)) = length (q_heap q)" by (rule ids_length) simp
  show ?thesis using assms
    by (auto simp: run_ok_def run l distinct_keys_update length_update dest!: mem)
qed

lemma core_pending_less: "core cfg {} X q \<Longrightarrow> r \<in> set (pending_refs q) \<Longrightarrow> r < length (q_heap q)"
  by (auto simp: pending_refs_def core_def pend_ok_def dest: with_status_less)

lemma run_ok_tick:
  assumes "core cfg {} {} q" "run_ok cfg q"
  shows "run_ok cfg (tick cfg now q)"
proof -
  have "core cfg {} {} (tick cfg now q) \<and> run_ok cfg (tick cfg now q)"
  proof (rule tick_keeps[where P = "\<lambda>q. core cfg {} {} q \<and> run_ok cfg q"])
    fix q q' assume a: "core cfg {} {} q \<and> run_ok cfg q" and s: "tick_step cfg now q = Some q'"
    then have c: "core cfg {} {} q'" using core_tick_step by blast
    from s have "run_ok cfg q'"
    proof (cases rule: tick_step_cases)
      case (launch t r rs ls)
      let ?q = "q \<lparr> q_pending := (q_pending q)(t := rs), q_limiter := ls \<rparr>"
      have "run_ok cfg ?q" using a by (simp add: run_ok_def)
      then show ?thesis using launch a core_pending_less[of cfg "{}" q r] run_ok_launch[of cfg ?q r now] by simp
    next
      case (throttle t r rs ls w)
      then have "q_running q' = q_running q" "q_ids q' = q_ids q" by simp_all
      then show ?thesis using a run_ok_cong[of q' q cfg] by blast
    qed
    then show "core cfg {} {} q' \<and> run_ok cfg q'" using c by blast
  qed (use assms in blast)
  then show ?thesis by blast
qed

section \<open>The bookkeeping invariant\<close>

text \<open>
  closed implies paused, the timer is armed while something is scheduled, throttled ids are
  ids of scheduled jobs, and no job waits while a slot is free unless a finally callback
  (which ticks) is still to run.
\<close>

definition timer_ok :: "mail_queue \<Rightarrow> bool" where
  "timer_ok q \<longleftrightarrow> q_closed q \<or> q_scheduled q = [] \<or> q_timer q \<noteq> None"

definition throttled_ok :: "mail_queue \<Rightarrow> bool" where
  "throttled_ok q \<longleftrightarrow> q_throttled q \<subseteq> set (jskeys (q_scheduled q))"

definition stall_free :: "queue_cfg \<Rightarrow> mail_queue \<Rightarrow> bool" where
  "stall_free cfg q \<longleftrightarrow> q_finishing q \<noteq> [] \<or> \<not> q_sendFn q \<or> q_paused q \<or> pending_refs q = [] \<or>
     length (q_running q) \<ge> qc_concurrency cfg"

definition book :: "queue_cfg \<Rightarrow> mail_queue \<Rightarrow> bool" where
  "book cfg q \<longleftrightarrow> core cfg {} {} q \<and> run_ok cfg q \<and> (q_closed q \<longrightarrow> q_paused q) \<and> timer_ok q \<and> throttled_ok q"

lemma arm_timer: "timer_ok (armSchedule now q)"
  by (auto simp: timer_ok_def armSchedule_def next_due_def split: list.splits option.splits)

lemma timer_ok_emit [simp]: "timer_ok (emit e q) = timer_ok q" by (simp add: timer_ok_def)

lemma throttle_timer: "timer_ok (throttle_job now w r q)"
  by (simp add: throttle_job_def Let_def arm_timer)

lemma throttled_throttle: "throttled_ok q \<Longrightarrow> throttled_ok (throttle_job now w r q)"
  by (auto simp: throttled_ok_def throttle_job_def Let_def emit_def armSchedule_def set_job_def)

lemma book_tick_step:
  assumes "timer_ok q \<and> throttled_ok q" "tick_step cfg now q = Some q'"
  shows "timer_ok q' \<and> throttled_ok q'"
  using assms(2)
proof (cases rule: tick_step_cases)
  case launch
  then show ?thesis using assms(1) by (simp add: timer_ok_def throttled_ok_def)
next
  case throttle
  then show ?thesis using assms(1) throttled_throttle by (simp add: throttle_timer throttled_ok_def)
qed

lemma tick_timer_throttled:
  "timer_ok q \<Longrightarrow> throttled_ok q \<Longrightarrow> timer_ok (tick cfg now q) \<and> throttled_ok (tick cfg now q)"
  by (rule tick_keeps[where P = "\<lambda>q. timer_ok q \<and> throttled_ok q"], erule (1) book_tick_step, simp)

lemma book_tick: "book cfg q \<Longrightarrow> book cfg (tick cfg now q)"
  by (simp add: book_def core_tick run_ok_tick tick_timer_throttled)

lemma book_cong:
  "core cfg {} {} q' \<Longrightarrow> q_running q' = q_running q \<Longrightarrow> q_ids q' = q_ids q \<Longrightarrow> q_closed q' = q_closed q \<Longrightarrow>
   q_paused q' = q_paused q \<Longrightarrow> timer_ok q' \<Longrightarrow> throttled_ok q' \<Longrightarrow> book cfg q \<Longrightarrow> book cfg q'"
  using run_ok_cong[of q' q cfg] by (auto simp: book_def)

lemma placed_frame [simp]:
  "q_running (placed r q) = q_running q" "q_closed (placed r q) = q_closed q" "q_paused (placed r q) = q_paused q"
  "q_timer (placed r q) = q_timer q" "q_scheduled (placed r q) = q_scheduled q" "q_throttled (placed r q) = q_throttled q"
  "q_finishing (placed r q) = q_finishing q" "q_sending (placed r q) = q_sending q" "q_ctrls (placed r q) = q_ctrls q"
  "q_succeeded (placed r q) = q_succeeded q" "q_cancelled (placed r q) = q_cancelled q" "q_sendFn (placed r q) = q_sendFn q"
  "q_ids (placed r q) = q_ids q"
  using ids_set_job[of "\<lambda>j. j \<lparr> j_status := StPending, j_notBefore := None \<rparr>" r q] by (simp_all add: placed_def)

lemma book_placed:
  assumes "core cfg {} {r} q" "run_ok cfg q" "q_closed q \<longrightarrow> q_paused q" "timer_ok q" "throttled_ok q"
  shows "book cfg (placed r q)"
proof -
  have "run_ok cfg (placed r q) = run_ok cfg q" by (rule run_ok_cong) simp_all
  then show ?thesis using assms core_placed by (simp add: book_def timer_ok_def throttled_ok_def)
qed

lemma book_place:
  assumes "core cfg {} {r} q" "run_ok cfg q" "q_closed q \<longrightarrow> q_paused q" "timer_ok q" "throttled_ok q"
  shows "book cfg (place cfg now r q)"
proof (cases rule: place_cases[of q r cfg now])
  case later
  let ?qs = "q \<lparr> q_scheduled := AList.update (id_of q r) r (q_scheduled q) \<rparr>"
  have core: "core cfg {} {} (place cfg now r q)" by (rule core_place[OF assms(1)])
  have "run_ok cfg ?qs" using assms(2) by (simp add: run_ok_def)
  moreover have "throttled_ok (armSchedule now ?qs)"
    using assms(5) by (auto simp: throttled_ok_def set_keys_update)
  moreover have "run_ok cfg (emit (EvScheduled r) (armSchedule now ?qs)) = run_ok cfg ?qs"
    by (rule run_ok_cong) (simp_all add: emit_def armSchedule_def)
  ultimately show ?thesis using core assms(3) unfolding later(3)
    by (auto simp: book_def arm_timer throttled_ok_def)
qed (simp add: book_tick book_placed[OF assms])

lemma book_frames:
  assumes "book cfg q"
  shows "book cfg (emit e q)" "book cfg (checkDrained q)" "book cfg (rejectDrainWaiters err q)"
    "book cfg (trigger_ctrl rs c q)" "book cfg (q \<lparr> q_idempotent := im \<rparr>)" "book cfg (q \<lparr> q_sendFn := b \<rparr>)"
    "book cfg (q \<lparr> q_drainWaiters := ws, q_nextWaiter := n \<rparr>)"
  using assms by (auto simp: book_def core_emit core_checkDrained core_frames timer_ok_def throttled_ok_def run_ok_def)

lemma run_ok_alloc: "run_ok cfg q \<Longrightarrow> run_ok cfg (q \<lparr> q_heap := q_heap q @ [j] \<rparr>)"
  by (auto simp: run_ok_def nth_append)

text \<open>The state right after a new job got its place in the heap.\<close>

definition alloc_of :: "mail_queue \<Rightarrow> q_job \<Rightarrow> mail_queue \<Rightarrow> bool" where
  "alloc_of q j q1 \<longleftrightarrow> q_heap q1 = q_heap q @ [j] \<and> q_pending q1 = q_pending q \<and> q_scheduled q1 = q_scheduled q \<and>
     q_sending q1 = q_sending q \<and> q_running q1 = q_running q \<and> q_closed q1 = q_closed q \<and> q_paused q1 = q_paused q \<and>
     q_timer q1 = q_timer q \<and> q_throttled q1 = q_throttled q \<and> q_finishing q1 = q_finishing q \<and> q_ctrls q1 = q_ctrls q \<and>
     q_succeeded q1 = q_succeeded q \<and> q_cancelled q1 = q_cancelled q \<and> q_sendFn q1 = q_sendFn q"

lemma alloc_core:
  assumes "core cfg {} {} q" "fresh_id (j_id j) q" "alloc_of q j q1"
  shows "core cfg {} {length (q_heap q)} q1"
proof -
  have "core cfg {} {length (q_heap q)} (q \<lparr> q_heap := q_heap q @ [j] \<rparr>)"
    using core_alloc[of cfg "{}" "{}" q j] assms(1) fresh_id_off[OF assms(2)] by simp
  then show ?thesis using assms(3) by (simp add: core_def alloc_of_def)
qed

lemma book_alloc:
  assumes "book cfg q" "fresh_id (j_id j) q" "alloc_of q j q1"
  shows "book cfg (placed (length (q_heap q)) q1)" "book cfg (place cfg now (length (q_heap q)) q1)"
proof -
  have c: "core cfg {} {length (q_heap q)} q1" using alloc_core assms by (simp add: book_def)
  have r: "run_ok cfg q1" using run_ok_alloc[of cfg q j] assms by (auto simp: book_def run_ok_def alloc_of_def)
  have o: "q_closed q1 \<longrightarrow> q_paused q1" "timer_ok q1" "throttled_ok q1"
    using assms by (auto simp: book_def timer_ok_def throttled_ok_def alloc_of_def)
  show "book cfg (placed (length (q_heap q)) q1)" by (rule book_placed[OF c r o])
  show "book cfg (place cfg now (length (q_heap q)) q1)" by (rule book_place[OF c r o])
qed

lemma enqueue_new_alloc:
  assumes "find_job (j_id job) q = None"
  obtains q1 where "alloc_of q job q1" "enqueue_new cfg now job q = (Inr (length (q_heap q)), place cfg now (length (q_heap q)) q1)"
proof -
  let ?q1 = "q \<lparr> q_heap := q_heap q @ [job] \<rparr>"
  let ?q2 = "case j_idempotencyKey job of None \<Rightarrow> ?q1
     | Some k \<Rightarrow> ?q1 \<lparr> q_idempotent := AList.update k (length (q_heap q), now + qc_idempotencyWindowMs cfg) (q_idempotent ?q1) \<rparr>"
  have "alloc_of q job (emit (EvEnqueued (length (q_heap q))) ?q2)" by (auto simp: alloc_of_def split: option.splits)
  moreover have "enqueue_new cfg now job q = (Inr (length (q_heap q)), place cfg now (length (q_heap q)) (emit (EvEnqueued (length (q_heap q))) ?q2))"
    using assms by (simp add: enqueue_new_def Let_def)
  ultimately show thesis by (rule that)
qed

text \<open>Whatever findIdempotent and the placing of a fresh job keep, enqueue and restore keep.\<close>

lemma enqueue_keeps:
  assumes "P q" "fresh_id (or_default (eo_id eo) i) q"
    and pr: "\<And>im. P (q \<lparr> q_idempotent := im \<rparr>)"
    and pl: "\<And>q' j q1. P q' \<Longrightarrow> q_heap q' = q_heap q \<Longrightarrow> fresh_id (j_id j) q' \<Longrightarrow> alloc_of q' j q1 \<Longrightarrow> j_attempts j = 0 \<Longrightarrow>
        j_errors j = [] \<Longrightarrow> j_status j \<in> {StPending, StScheduled} \<Longrightarrow> P (place cfg now (length (q_heap q')) q1)"
  shows "P (snd (enqueue cfg now i tok opts eo q))"
proof -
  let ?j = "new_job cfg now i tok opts eo"
  have j: "j_id ?j = or_default (eo_id eo) i" "j_attempts ?j = 0" "j_errors ?j = []" "j_status ?j \<in> {StPending, StScheduled}"
    by (simp_all add: new_job_def Let_def)
  have new: "P (snd (enqueue_new cfg now ?j q'))" if h: "q_heap q' = q_heap q" "P q'" for q'
  proof (cases "find_job (j_id ?j) q'")
    case None
    then obtain q1 where q1: "alloc_of q' ?j q1" "enqueue_new cfg now ?j q' = (Inr (length (q_heap q')), place cfg now (length (q_heap q')) q1)"
      by (rule enqueue_new_alloc)
    have "fresh_id (j_id ?j) q'" using assms(2) h by (simp add: fresh_id_def j)
    then show ?thesis using pl[OF h(2,1) _ q1(1)] j q1(2) by simp
  qed (use h in \<open>simp add: enqueue_new_def\<close>)
  have fi: "\<exists>im. snd (findIdempotent now k q) = q \<lparr> q_idempotent := im \<rparr>" for k
  proof (cases "length (q_idempotent q) > 1000")
    case True
    then show ?thesis by (auto simp: findIdempotent_def Let_def split: option.splits)
  next
    case False
    then have "snd (findIdempotent now k q) = q" by (simp add: findIdempotent_def Let_def split: option.splits)
    then show ?thesis by (intro exI[of _ "q_idempotent q"]) simp
  qed
  have f: "P (snd (findIdempotent now k q))" "q_heap (snd (findIdempotent now k q)) = q_heap q" for k
    using fi[of k] pr by auto
  obtain e1 q1 where e: "(case eo_idempotencyKey eo of None \<Rightarrow> (None, q) | Some k \<Rightarrow> findIdempotent now k q) = (e1, q1)"
    by fastforce
  have "q_heap q1 = q_heap q \<and> P q1"
  proof (cases "eo_idempotencyKey eo")
    case (Some k)
    then have "q1 = snd (findIdempotent now k q)" using e by simp
    then show ?thesis using f[of k] by simp
  qed (use e assms(1) in simp)
  then have "P (snd (enqueue_new cfg now ?j q1))" "P q1" using new by auto
  moreover have "enqueue cfg now i tok opts eo q = (if q_closed q then (Inl (QueueError ''Queue is shut down''), q)
      else case e1 of Some r \<Rightarrow> (Inr r, q1) | None \<Rightarrow> enqueue_new cfg now ?j q1)"
    unfolding enqueue_def e by simp
  ultimately show ?thesis using assms(1) by (auto split: option.splits)
qed

lemma restore_keeps:
  assumes "P q" "fresh_id (j_id job) q"
    and pl: "\<And>j q1. fresh_id (j_id j) q \<Longrightarrow> alloc_of q j q1 \<Longrightarrow> j = (if j_status job = StRunning then job \<lparr> j_status := StPending \<rparr> else job) \<Longrightarrow>
        P (place cfg now (length (q_heap q)) q1)"
  shows "P (restore cfg now job q)"
proof (cases "find_job (j_id job) q")
  case None
  let ?j = "if j_status job = StRunning then job \<lparr> j_status := StPending \<rparr> else job"
  have "restore cfg now job q = place cfg now (length (q_heap q)) (q \<lparr> q_heap := q_heap q @ [?j] \<rparr>)"
    using None by (simp add: restore_def Let_def)
  moreover have "fresh_id (j_id ?j) q" using assms(2) by simp
  ultimately show ?thesis using pl[of ?j "q \<lparr> q_heap := q_heap q @ [?j] \<rparr>"] by (simp add: alloc_of_def)
qed (use assms(1) in \<open>simp add: restore_def\<close>)

lemma book_enqueue:
  assumes "book cfg q" "fresh_id (or_default (eo_id eo) i) q"
  shows "book cfg (snd (enqueue cfg now i tok opts eo q))"
  using assms by (rule enqueue_keeps) (rule book_frames(5)[OF assms(1)], rule book_alloc(2))

lemma book_restore:
  assumes "book cfg q" "fresh_id (j_id job) q"
  shows "book cfg (restore cfg now job q)"
  using assms by (rule restore_keeps) (rule book_alloc(2)[OF assms(1)])

lemma throttled_promote: "throttled_ok q \<Longrightarrow> throttled_ok (promote_one i r q)"
  by (auto simp: throttled_ok_def promote_one_def Let_def emit_def set_job_def)

lemma promote_list_frame:
  assumes "throttled_ok q"
  shows "q_running (promote_list now es q) = q_running q \<and> q_closed (promote_list now es q) = q_closed q \<and>
    q_paused (promote_list now es q) = q_paused q \<and> throttled_ok (promote_list now es q)"
  using assms unfolding promote_list_def
  by (induction es arbitrary: q) (auto simp: split_def throttled_promote)

text \<open>The state in which promoteDue ticks.\<close>

definition promoted :: "int \<Rightarrow> mail_queue \<Rightarrow> mail_queue" where
  "promoted now q = armSchedule now (promote_list now (q_scheduled q) (q \<lparr> q_timer := None \<rparr>))"

lemma promoteDue_tick: "promoteDue cfg now q = tick cfg now (promoted now q)"
  by (simp add: promoteDue_def promoted_def)

lemma book_promoted:
  assumes "book cfg q"
  shows "book cfg (promoted now q)"
proof -
  let ?q0 = "q \<lparr> q_timer := None \<rparr>"
  let ?q1 = "promote_list now (q_scheduled q) ?q0"
  have t0: "throttled_ok ?q0" using assms by (simp add: book_def throttled_ok_def)
  have c: "core cfg {} {} ?q1"
    by (rule core_promote_list) (use assms in \<open>simp_all add: book_def core_def sched_ok_def\<close>)
  note f = promote_list_frame[OF t0, of now "q_scheduled q"]
  have i: "q_ids ?q1 = q_ids q" by simp
  show ?thesis unfolding promoted_def
  proof (rule book_cong[OF _ _ _ _ _ _ _ assms])
    show "core cfg {} {} (armSchedule now ?q1)" using c by (simp add: core_arm)
    show "throttled_ok (armSchedule now ?q1)" using f by (simp add: throttled_ok_def)
  qed (use f i in \<open>simp_all add: arm_timer\<close>)
qed

lemma book_promoteDue: "book cfg q \<Longrightarrow> book cfg (promoteDue cfg now q)"
  by (simp add: promoteDue_tick book_tick book_promoted)

lemma throttled_settle_body:
  "throttled_ok q \<Longrightarrow> throttled_ok (settle_body cfg now rnd r rs out q)"
proof -
  assume t: "throttled_ok q"
  have m: "throttled_ok (markCancelled now r q)"
    using t by (auto simp: throttled_ok_def markCancelled_def Let_def emit_def set_job_def)
  have f: "throttled_ok (fail_job cfg now rnd e r q)" for e
    using t by (auto simp: throttled_ok_def fail_job_def retry_job_def dlq_add_def Let_def emit_def set_job_def armSchedule_def)
  have i: "throttled_ok (interrupt_requeue r q)" "throttled_ok (succeed_job r res q)" for res
    using t by (simp_all add: throttled_ok_def)
  show ?thesis using m f i
    by (auto simp: settle_body_def Let_def split: option.splits control_reason.splits send_outcome.splits send_result.splits)
qed

lemma timer_settle_body:
  "timer_ok q \<Longrightarrow> timer_ok (settle_body cfg now rnd r rs out q)"
proof -
  assume t: "timer_ok q"
  have d: "timer_ok (dlq_add cfg now r q')" if "timer_ok q'" for q' using that by (simp add: timer_ok_def)
  have rt: "timer_ok (retry_job cfg now rnd e r q')" for e q'
    by (simp add: retry_job_def Let_def arm_timer)
  have fj: "timer_ok (fail_job cfg now rnd e r q)" for e
  proof -
    have "timer_ok (set_job r (\<lambda>j. j \<lparr> j_errors := j_errors j @ [e] \<rparr>) q)" using t by (simp add: timer_ok_def)
    from d[OF this] show ?thesis using rt by (simp add: fail_job_def Let_def)
  qed
  have "timer_ok (markCancelled now r q)" "timer_ok (interrupt_requeue r q)" "timer_ok (succeed_job r res q)" for res
    using t by (simp_all add: timer_ok_def)
  then show ?thesis using fj
    by (auto simp: settle_body_def Let_def split: option.splits control_reason.splits send_outcome.splits send_result.splits)
qed

lemma book_settle:
  assumes "book cfg q" "x \<in> set (q_sending q)"
  shows "book cfg (settle cfg now rnd x out q)"
proof -
  obtain r c where x: "x = (r, c)" by (cases x)
  let ?q1 = "q \<lparr> q_sending := remove1 (r, c) (q_sending q), q_controllers := AList.delete (id_of q r) (q_controllers q),
                 q_finishing := q_finishing q @ [r] \<rparr>"
  have s: "settle cfg now rnd x out q = settle_body cfg now rnd r (q_ctrls q ! c) out ?q1" by (simp add: settle_def x)
  have t: "timer_ok ?q1" "throttled_ok ?q1" using assms(1) by (simp_all add: book_def timer_ok_def throttled_ok_def)
  show ?thesis
  proof (rule book_cong[OF _ _ _ _ _ _ _ assms(1)])
    show "core cfg {} {} (settle cfg now rnd x out q)" using assms by (intro core_settle) (simp add: book_def)
  qed (simp_all add: s timer_settle_body[OF t(1)] throttled_settle_body[OF t(2)])
qed

lemma run_ok_delete: "run_ok cfg q \<Longrightarrow> run_ok cfg (q \<lparr> q_finishing := fs, q_running := AList.delete i (q_running q) \<rparr>)"
proof -
  assume r: "run_ok cfg q"
  have "length (AList.delete i (q_running q)) \<le> qc_concurrency cfg"
    using length_delete_le[of i "q_running q"] r by (simp add: run_ok_def)
  moreover have "set (AList.delete i (q_running q)) \<subseteq> set (q_running q)" by (auto simp: AList.delete_eq)
  ultimately show ?thesis using r by (auto simp: run_ok_def distinct_keys_delete)
qed

lemma book_finish: "book cfg q \<Longrightarrow> book cfg (finish cfg now r q)"
proof -
  assume b: "book cfg q"
  have "book cfg (q \<lparr> q_finishing := remove1 r (q_finishing q), q_running := AList.delete (id_of q r) (q_running q) \<rparr>)"
    using b run_ok_delete[of cfg q] by (simp add: book_def core_frames timer_ok_def throttled_ok_def)
  then show ?thesis by (simp add: finish_def book_frames(2) book_tick)
qed

lemma book_resume: "book cfg q \<Longrightarrow> book cfg (resume cfg now q)"
proof -
  assume b: "book cfg q"
  have "book cfg (q \<lparr> q_paused := False \<rparr>)" if "\<not> q_closed q"
    using b that by (simp add: book_def core_frames timer_ok_def throttled_ok_def run_ok_def)
  then show ?thesis using b by (auto simp: resume_def intro: book_tick)
qed

lemma book_pause: "book cfg q \<Longrightarrow> book cfg (pause q)"
  unfolding pause_def by (rule book_frames(2)) (simp add: book_def core_frames timer_ok_def throttled_ok_def run_ok_def)

lemma sched_mem:
  "core cfg {} X q \<Longrightarrow> (i, r) \<in> set (q_scheduled q) \<longleftrightarrow> r \<in> with_status (q_heap q) StScheduled \<and> r \<notin> X \<and> i = id_of q r"
  by (simp add: core_def sched_ok_def)

lemma sched_waiting: "(i, r) \<in> set (q_scheduled q) \<Longrightarrow> r \<in> set (waitingJobs q)"
  by (force simp: waitingJobs_def)

lemma takeWaiting_frame:
  assumes "core cfg {} {} q" "takeWaiting now i q = (Some r, q1)"
  shows "q_running q1 = q_running q" "q_heap q1 = q_heap q" "q_closed q1 = q_closed q" "q_paused q1 = q_paused q"
    "q_throttled q1 = q_throttled q" "timer_ok q \<Longrightarrow> timer_ok q1" "id_of q r = i"
    "fst ` set (q_scheduled q) \<subseteq> insert i (fst ` set (q_scheduled q1))" "q_finishing q1 = q_finishing q" "q_sending q1 = q_sending q"
    "q_sendFn q1 = q_sendFn q" "r \<in> set (waitingJobs q)"
proof -
  show "q_running q1 = q_running q" "q_heap q1 = q_heap q" "q_closed q1 = q_closed q" "q_paused q1 = q_paused q"
    "q_throttled q1 = q_throttled q" "timer_ok q \<Longrightarrow> timer_ok q1" "q_finishing q1 = q_finishing q" "q_sending q1 = q_sending q"
    "q_sendFn q1 = q_sendFn q"
    using assms(2) by (auto simp: takeWaiting_def arm_timer timer_ok_def[of q] timer_ok_def[of "q \<lparr> q_pending := p \<rparr>" for p]
        split: option.splits prod.splits)
  show "fst ` set (q_scheduled q) \<subseteq> insert i (fst ` set (q_scheduled q1))"
  proof (cases "map_of (q_scheduled q) i")
    case (Some s)
    then have "q_scheduled q1 = AList.delete i (q_scheduled q)" using assms(2) by (auto simp: takeWaiting_def)
    then show ?thesis unfolding keys_delete_image by (simp only: keys_delete_image) blast
  qed (use assms(2) in \<open>auto simp: takeWaiting_def split: option.splits prod.splits\<close>)
  have P: "id_of q r = i \<and> r \<in> set (waitingJobs q)"
  proof (cases "map_of (q_scheduled q) i")
    case (Some s)
    then have "(i, r) \<in> set (q_scheduled q)" using assms(2) map_of_SomeD[OF Some] by (simp add: takeWaiting_def)
    then show ?thesis using sched_mem[OF assms(1), of i r] sched_waiting[of i r q] by simp
  next
    case None
    then obtain p where "take_tiers (\<lambda>r. id_of q r = i) PRIORITY_ORDER (q_pending q) = Some (r, p)"
      using assms(2) by (auto simp: takeWaiting_def split: option.splits prod.splits)
    from take_tiers_Some[OF this] show ?thesis using PRIORITY_ORDER_all(1) by (auto simp: waitingJobs_def pending_refs_def)
  qed
  then show "id_of q r = i" "r \<in> set (waitingJobs q)" by auto
qed

lemma markCancelled_throttled: "r < length (q_heap q) \<Longrightarrow> q_throttled (markCancelled now r q) = q_throttled q - {id_of q r}"
  by (simp add: markCancelled_def Let_def)

lemma book_cancel:
  assumes "book cfg q"
  shows "book cfg (snd (cancel now i q))"
proof -
  have c: "core cfg {} {} q" using assms by (simp add: book_def)
  obtain o1 q1 where t: "takeWaiting now i q = (o1, q1)" by fastforce
  show ?thesis
  proof (cases o1)
    case None
    then show ?thesis using takeWaiting_None[of now i q q1] t assms
      by (auto simp: cancel_def book_frames split: option.splits)
  next
    case (Some r)
    with t have t': "takeWaiting now i q = (Some r, q1)" by simp
    note f = takeWaiting_frame[OF c t']
    have r: "r < length (q_heap q1)" using core_takeWaiting[OF c t'] by (simp add: core_def ids_ok_def)
    have cc: "core cfg {} {} (markCancelled now r q1)" by (rule core_markCancelled[OF core_takeWaiting[OF c t'], of r "{}"]) simp
    have "book cfg (markCancelled now r q1)"
    proof (rule book_cong[OF cc _ _ _ _ _ _ assms])
      show "timer_ok (markCancelled now r q1)" using f(6) assms by (simp add: book_def timer_ok_def)
      show "throttled_ok (markCancelled now r q1)"
      proof -
        have "q_throttled q \<subseteq> fst ` set (q_scheduled q)" using assms by (simp add: book_def throttled_ok_def)
        moreover have "id_of q1 r = i" using f(2,7) by simp
        ultimately show ?thesis using f(5,8) by (simp only: throttled_ok_def markCancelled_throttled[OF r] markCancelled_frame set_map) blast
      qed
    qed (simp_all add: f)
    then show ?thesis by (simp add: cancel_def t' book_frames(2))
  qed
qed

lemma fold_markCancelled_frame:
  "q_running (fold (markCancelled now) rs q) = q_running q \<and> q_closed (fold (markCancelled now) rs q) = q_closed q \<and>
   q_paused (fold (markCancelled now) rs q) = q_paused q \<and> q_ids (fold (markCancelled now) rs q) = q_ids q \<and>
   q_scheduled (fold (markCancelled now) rs q) = q_scheduled q \<and> q_pending (fold (markCancelled now) rs q) = q_pending q \<and>
   q_finishing (fold (markCancelled now) rs q) = q_finishing q \<and> q_sendFn (fold (markCancelled now) rs q) = q_sendFn q \<and>
   q_sending (fold (markCancelled now) rs q) = q_sending q \<and> q_timer (fold (markCancelled now) rs q) = q_timer q \<and>
   q_ctrls (fold (markCancelled now) rs q) = q_ctrls q"
  by (induction rs arbitrary: q) auto

lemma fold_markCancelled_throttled:
  "set rs \<subseteq> {..<length (q_heap q)} \<Longrightarrow>
   q_throttled (fold (markCancelled now) rs q) = q_throttled q - (\<lambda>r. q_ids q ! r) ` set rs"
proof (induction rs arbitrary: q)
  case (Cons r rs)
  have i: "q_ids (markCancelled now r q) = q_ids q" by simp
  have l: "length (q_heap (markCancelled now r q)) = length (q_heap q)" by (rule ids_length[OF i])
  have "q_throttled (fold (markCancelled now) rs (markCancelled now r q)) =
      q_throttled (markCancelled now r q) - (\<lambda>r. q_ids q ! r) ` set rs"
    using Cons.IH[of "markCancelled now r q"] Cons.prems l unfolding i by simp
  then show ?case using Cons.prems by (auto simp: markCancelled_throttled)
qed simp

lemma book_cancelAll:
  assumes "book cfg q"
  shows "book cfg (snd (cancelAll now q))"
proof -
  have c: "core cfg {} {} q" using assms by (simp add: book_def)
  let ?q1 = "armSchedule now (q \<lparr> q_pending := (\<lambda>_. []), q_scheduled := [] \<rparr>)"
  let ?q2 = "fold (markCancelled now) (waitingJobs q) ?q1"
  have less: "set (waitingJobs q) \<subseteq> {..<length (q_heap q)}" using waiting_mem[OF c] by (auto dest: with_status_less)
  have k: "q_throttled q \<subseteq> (\<lambda>r. q_ids q ! r) ` set (waitingJobs q)"
  proof
    fix i assume "i \<in> q_throttled q"
    then obtain r where "(i, r) \<in> set (q_scheduled q)" using assms by (auto simp: book_def throttled_ok_def)
    then have "r \<in> set (waitingJobs q)" "i = q_ids q ! r"
      using sched_mem[OF c, of i r] sched_waiting[of i r q] by (auto simp: with_status_def)
    then show "i \<in> (\<lambda>r. q_ids q ! r) ` set (waitingJobs q)" by (rule rev_image_eqI)
  qed
  note f = fold_markCancelled_frame[of now "waitingJobs q" ?q1]
  have th: "q_throttled ?q2 = {}" using k less by (subst fold_markCancelled_throttled) auto
  have s: "snd (cancelAll now q) = checkDrained ?q2" by (simp add: cancelAll_def Let_def)
  have cc: "core cfg {} {} ?q2" using core_cancelAll[OF c, of now] by (simp add: s core_checkDrained)
  have "book cfg ?q2"
    by (rule book_cong[OF cc _ _ _ _ _ _ assms]) (use f th in \<open>simp_all add: timer_ok_def throttled_ok_def\<close>)
  then show ?thesis by (simp add: s book_frames(2))
qed

lemma book_fold_trigger: "book cfg q \<Longrightarrow> book cfg (fold (trigger_ctrl rs) cs q)"
  by (induction cs arbitrary: q) (auto simp: book_frames)

lemma book_control: "book cfg q \<Longrightarrow> book cfg (snd (control_one rs i q))" "book cfg q \<Longrightarrow> book cfg (snd (control_all rs q))"
  by (auto simp: control_one_def control_all_def book_frames book_fold_trigger split: option.splits)

lemma book_drain: "book cfg q \<Longrightarrow> book cfg (snd (drain q))"
  by (simp add: drain_def book_frames)

lemma book_sd_close: "book cfg q \<Longrightarrow> book cfg (snd (sd_close now s q))"
proof -
  assume b: "book cfg q"
  have "book cfg (q \<lparr> q_paused := True, q_closed := True \<rparr>)"
    using b by (simp add: book_def core_frames timer_ok_def throttled_ok_def run_ok_def)
  then show ?thesis by (simp add: sd_close_def Let_def book_cancelAll)
qed

lemma book_sd_finish: "book cfg q \<Longrightarrow> q_closed q \<Longrightarrow> book cfg (snd (sd_finish s q))"
  unfolding sd_finish_def Let_def snd_conv
  by (rule book_frames(3)) (simp add: book_def core_frames timer_ok_def throttled_ok_def run_ok_def)

lemma book_sd_check: "book cfg q \<Longrightarrow> sd_phase s = SdDrain \<or> q_closed q \<Longrightarrow> book cfg (snd (sd_check now s q))"
  by (auto simp: sd_check_def book_sd_close book_sd_finish interruptAll_def book_control split: sd_phase.splits)

lemma book_sd_start: "book cfg q \<Longrightarrow> book cfg (snd (sd_start cfg now so q))"
  by (auto simp: sd_start_def Let_def book_resume book_sd_close)

lemma book_init: "book cfg new_queue"
  by (simp add: book_def core_init run_ok_def timer_ok_def throttled_ok_def) (simp add: new_queue_def)

lemma book_step: "book cfg q \<Longrightarrow> q_ok q op \<Longrightarrow> book cfg (q_step cfg q op)"
  by (cases op)
     (simp_all add: setSendFn_def book_tick book_frames book_enqueue book_restore book_promoteDue book_settle book_finish
        book_resume book_pause book_cancel book_cancelAll interrupt_def interruptAll_def abort_job_def
        abortAll_def book_control book_drain book_sd_start book_sd_check)

interpretation mqb: machine "q_step cfg" q_ok "book cfg" for cfg
  by unfold_locales (rule book_step)

lemma reachable_book: "q_reachable cfg q \<Longrightarrow> book cfg q"
  using mqb.inv_run book_init by (auto simp: q_reachable_def)

end
