(* ===== verification/MailQueueCalm.thy ===== *)
theory MailQueueCalm
  imports MailQueueBook
begin

text \<open>
  Executions in flight against the running map.  The map is keyed by job id and its entry is
  deleted by the finally callback of an execution; as long as no job is restarted between
  the settling of an execution and its callback, the map has exactly one entry for every
  execution that is in flight or about to call back, so the concurrency limit is a limit on
  sends in flight.  An interrupt on an open queue is what breaks this (see the last section).
\<close>

section \<open>Runs without interrupts on an open queue\<close>

text \<open>
  Timers are macrotasks: none fires between the settling of an attempt that is to be retried
  and its finally callback.  (The callback of a dead job waits for the persist callback, so a
  timer may fire before it.)
\<close>

definition calm_ok :: "mail_queue \<Rightarrow> q_op \<Rightarrow> bool" where
  "calm_ok q op \<longleftrightarrow> q_ok q op \<and>
     (case op of OpInterrupt i \<Rightarrow> q_closed q | OpInterruptAll \<Rightarrow> q_closed q
      | OpTimer now \<Rightarrow> (\<forall>r \<in> set (q_finishing q). j_status (job_of q r) \<noteq> StScheduled)
      | _ \<Rightarrow> True)"

definition tracked :: "mail_queue \<Rightarrow> bool" where
  "tracked q \<longleftrightarrow> distinct (q_finishing q) \<and>
     (\<forall>r \<in> set (q_finishing q). r < length (q_heap q) \<and> r \<notin> set (map fst (q_sending q)) \<and>
        (\<not> q_closed q \<longrightarrow> j_status (job_of q r) \<noteq> StPending)) \<and>
     set (jskeys (q_running q)) = (\<lambda>r. q_ids q ! r) ` (set (map fst (q_sending q)) \<union> set (q_finishing q))"

definition no_interrupt :: "mail_queue \<Rightarrow> bool" where
  "no_interrupt q \<longleftrightarrow> q_closed q \<or> (\<forall>(r, c) \<in> set (q_sending q). c < length (q_ctrls q) \<and> q_ctrls q ! c \<noteq> Some Interrupt)"

definition calm :: "queue_cfg \<Rightarrow> mail_queue \<Rightarrow> bool" where
  "calm cfg q \<longleftrightarrow> book cfg q \<and> tracked q \<and> no_interrupt q"

lemma no_interrupt_cong:
  "q_closed q' = q_closed q \<Longrightarrow> q_sending q' = q_sending q \<Longrightarrow> q_ctrls q' = q_ctrls q \<Longrightarrow> no_interrupt q' = no_interrupt q"
  by (simp add: no_interrupt_def)

lemma launch_frames:
  "q_sending (launch_job now r q) = q_sending q @ [(r, length (q_ctrls q))]"
  "q_running (launch_job now r q) = AList.update (id_of q r) r (q_running q)"
  "q_ctrls (launch_job now r q) = q_ctrls q @ [None]"
  by (simp_all add: launch_job_def start_job_def Let_def set_job_def emit_def)

lemma status_set_job: "r < length (q_heap q) \<Longrightarrow> j_status (job_of (set_job r f q) x) = (if x = r then j_status (f (job_of q r)) else j_status (job_of q x))"
  by (simp add: set_job_def nth_list_update)

lemma status_launch:
  "r < length (q_heap q) \<Longrightarrow> j_status (job_of (launch_job now r q) x) = (if x = r then StRunning else j_status (job_of q x))"
  by (simp add: launch_job_def start_job_def Let_def set_job_def emit_def nth_list_update)

lemma status_throttle:
  "r < length (q_heap q) \<Longrightarrow> j_status (job_of (throttle_job now w r q) x) = (if x = r then StScheduled else j_status (job_of q x))"
  by (simp add: throttle_job_def Let_def set_job_def emit_def armSchedule_def nth_list_update)

lemma pending_status:
  assumes "core cfg {} X q" "r \<in> set (pending_refs q)"
  shows "r < length (q_heap q)" "j_status (job_of q r) = StPending" "r \<notin> X"
  using assms by (auto simp: pending_refs_def core_def pend_ok_def with_status_def)

lemma length_heap_steps [simp]:
  "length (q_heap (launch_job now r q)) = length (q_heap q)"
  "length (q_heap (throttle_job now w r q)) = length (q_heap q)"
  "length (q_heap (settle_body cfg now rnd r rs out q)) = length (q_heap q)"
  "length (q_heap (markCancelled now r q)) = length (q_heap q)"
  by (rule ids_length, simp)+

lemma calm_tick_step:
  assumes "core cfg {} {} q" "tracked q" "no_interrupt q" "\<not> q_closed q" "tick_step cfg now q = Some q'"
  shows "tracked q' \<and> no_interrupt q'"
  using assms(5)
proof (cases rule: tick_step_cases)
  case (launch t r rs ls)
  let ?q = "q \<lparr> q_pending := (q_pending q)(t := rs), q_limiter := ls \<rparr>"
  note p = pending_status[OF assms(1) launch(2)]
  have q': "q_sending q' = q_sending q @ [(r, length (q_ctrls q))]" "q_ctrls q' = q_ctrls q @ [None]"
     "q_running q' = AList.update (id_of q r) r (q_running q)" "q_finishing q' = q_finishing q" "q_closed q' = q_closed q"
     "length (q_heap q') = length (q_heap q)" "q_ids q' = q_ids q"
    using launch(6) by (simp_all add: launch_frames)
  have st: "j_status (job_of q' x) = (if x = r then StRunning else j_status (job_of q x))" for x
    using p(1) launch(6) by (simp add: status_launch)
  have nf: "r \<notin> set (q_finishing q)" using assms(2,4) p(2) by (auto simp: tracked_def)
  have keys: "set (jskeys (q_running q')) = insert (q_ids q ! r) (set (jskeys (q_running q)))"
    using p(1) by (simp add: q'(3))
  have "no_interrupt q'" using assms(3,4) by (auto simp: no_interrupt_def q' nth_append)
  moreover have "set (jskeys (q_running q')) = (\<lambda>r. q_ids q' ! r) ` (set (map fst (q_sending q')) \<union> set (q_finishing q'))"
    using assms(2) unfolding keys q'(7) tracked_def by (simp add: q')
  moreover have "\<forall>x \<in> set (q_finishing q). x \<noteq> r" using nf by blast
  ultimately show ?thesis using assms(2) by (simp add: tracked_def st q')
next
  case (throttle t r rs ls w)
  note p = pending_status[OF assms(1) throttle(2)]
  have st: "j_status (job_of q' x) = (if x = r then StScheduled else j_status (job_of q x))" for x
    using p(1) throttle(7) by (simp add: status_throttle)
  have q': "q_ids q' = q_ids q" using throttle(7) by simp
  have "no_interrupt q' = no_interrupt q" by (rule no_interrupt_cong) (simp_all add: throttle(7))
  moreover have "q_sending q' = q_sending q" "q_running q' = q_running q" "q_finishing q' = q_finishing q"
     "q_closed q' = q_closed q" "length (q_heap q') = length (q_heap q)" using throttle(7) by simp_all
  ultimately show ?thesis using assms(2,3) by (simp add: tracked_def st q')
qed

lemma calm_tick:
  assumes "book cfg q" "tracked q" "no_interrupt q"
  shows "tracked (tick cfg now q)" "no_interrupt (tick cfg now q)"
proof -
  have "tracked (tick cfg now q) \<and> no_interrupt (tick cfg now q)"
  proof (cases "q_closed q")
    case True
    then have "tick cfg now q = q" using assms(1) by (intro tick_stopped) (simp add: book_def)
    then show ?thesis using assms by simp
  next
    case False
    have "core cfg {} {} (tick cfg now q) \<and> tracked (tick cfg now q) \<and> no_interrupt (tick cfg now q) \<and> \<not> q_closed (tick cfg now q)"
    proof (rule tick_keeps[where P = "\<lambda>q. core cfg {} {} q \<and> tracked q \<and> no_interrupt q \<and> \<not> q_closed q"])
      fix q q' assume a: "core cfg {} {} q \<and> tracked q \<and> no_interrupt q \<and> \<not> q_closed q" and s: "tick_step cfg now q = Some q'"
      have "q_closed q' = q_closed q" using s by (cases rule: tick_step_cases) simp_all
      then show "core cfg {} {} q' \<and> tracked q' \<and> no_interrupt q' \<and> \<not> q_closed q'"
        using a s core_tick_step[of cfg "{}" q now q'] calm_tick_step[of cfg q now q'] by blast
    qed (use assms False in \<open>simp add: book_def\<close>)
    then show ?thesis by blast
  qed
  then show "tracked (tick cfg now q)" "no_interrupt (tick cfg now q)" by auto
qed

lemma tracked_mono:
  assumes "tracked q" "core cfg {} X q" "length (q_heap q) \<le> length (q_heap q')" "\<And>r. r < length (q_heap q) \<Longrightarrow> q_ids q' ! r = q_ids q ! r"
    "q_finishing q' = q_finishing q" "q_sending q' = q_sending q" "q_running q' = q_running q" "q_closed q \<Longrightarrow> q_closed q'"
    "\<And>r. r \<in> set (q_finishing q) \<Longrightarrow> \<not> q_closed q' \<Longrightarrow> j_status (job_of q' r) = StPending \<Longrightarrow> j_status (job_of q r) = StPending"
  shows "tracked q'"
proof -
  have s: "r < length (q_heap q)" if "r \<in> set (map fst (q_sending q)) \<union> set (q_finishing q)" for r
    using that assms(1,2) by (auto simp: tracked_def core_def send_ok_def dest: with_status_less)
  have "(\<lambda>r. q_ids q' ! r) ` (set (map fst (q_sending q)) \<union> set (q_finishing q)) =
        (\<lambda>r. q_ids q ! r) ` (set (map fst (q_sending q)) \<union> set (q_finishing q))"
    using s assms(4) by (intro image_cong) auto
  then have "set (jskeys (q_running q')) = (\<lambda>r. q_ids q' ! r) ` (set (map fst (q_sending q')) \<union> set (q_finishing q'))"
    using assms(1,5-7) by (simp only: tracked_def)
  then show ?thesis using assms(1,3,5-9) by (auto simp: tracked_def intro: less_le_trans)
qed

lemma tracked_same:
  assumes "tracked q" "core cfg {} X q" "q_ids q' = q_ids q"
    "q_finishing q' = q_finishing q" "q_sending q' = q_sending q" "q_running q' = q_running q" "q_closed q \<Longrightarrow> q_closed q'"
    "\<And>r. r \<in> set (q_finishing q) \<Longrightarrow> \<not> q_closed q' \<Longrightarrow> j_status (job_of q' r) = StPending \<Longrightarrow> j_status (job_of q r) = StPending"
  shows "tracked q'"
  using assms(2) ids_length[OF assms(3)] by (intro tracked_mono[OF assms(1,2) _ _ assms(4-8)]) (simp_all only: assms(3), simp)

lemma checkDrained_heap: "job_of (checkDrained q) r = job_of q r" by simp

lemma calm_keep:
  assumes "calm cfg q" "book cfg q'" "q_ids q' = q_ids q"
    "q_finishing q' = q_finishing q" "q_sending q' = q_sending q" "q_running q' = q_running q" "q_closed q \<Longrightarrow> q_closed q'"
    "\<And>r. r \<in> set (q_finishing q) \<Longrightarrow> \<not> q_closed q' \<Longrightarrow> j_status (job_of q' r) = StPending \<Longrightarrow> j_status (job_of q r) = StPending"
    "no_interrupt q \<Longrightarrow> no_interrupt q'"
  shows "calm cfg q'"
  using assms tracked_same[of q cfg "{}" q'] by (simp add: calm_def book_def)

lemma calm_checkDrained: "calm cfg q \<Longrightarrow> calm cfg (checkDrained q)"
  by (rule calm_keep) (simp_all add: calm_def book_frames no_interrupt_def)

lemma calm_tick': "calm cfg q \<Longrightarrow> calm cfg (tick cfg now q)"
  by (simp add: calm_def calm_tick book_tick)

lemma status_markCancelled:
  "r < length (q_heap q) \<Longrightarrow> j_status (job_of (markCancelled now r q) x) = (if x = r then StCancelled else j_status (job_of q x))"
  by (simp add: markCancelled_def Let_def set_job_def emit_def nth_list_update)

lemma status_settle_body:
  assumes "r < length (q_heap q)" "j_status (job_of q r) = StRunning"
  shows "x \<noteq> r \<Longrightarrow> j_status (job_of (settle_body cfg now rnd r rs out q) x) = j_status (job_of q x)"
    and "rs \<noteq> Some Interrupt \<Longrightarrow> j_status (job_of (settle_body cfg now rnd r rs out q) r) \<noteq> StPending"
proof -
  have fl: "j_status (job_of (fail_job cfg now rnd e r q) x) = j_status (job_of q x)" if "x \<noteq> r" for e x
    using that by (auto simp: fail_job_def dlq_add_def retry_job_def Let_def set_job_def emit_def armSchedule_def nth_list_update)
  have fr: "j_status (job_of (fail_job cfg now rnd e r q) r) \<noteq> StPending" for e
    using assms by (auto simp: fail_job_def dlq_add_def retry_job_def Let_def set_job_def emit_def armSchedule_def nth_list_update)
  have o: "j_status (job_of (interrupt_requeue r q) x) = j_status (job_of q x)" "j_status (job_of (succeed_job r res q) x) = j_status (job_of q x)"
     "j_status (job_of (markCancelled now r q) x) = j_status (job_of q x)" if "x \<noteq> r" for x res
    using that by (auto simp: interrupt_requeue_def succeed_job_def markCancelled_def Let_def set_job_def emit_def nth_list_update)
  have orr: "j_status (job_of (succeed_job r res q) r) \<noteq> StPending" "j_status (job_of (markCancelled now r q) r) \<noteq> StPending" for res
    using assms by (auto simp: succeed_job_def markCancelled_def Let_def set_job_def emit_def nth_list_update)
  show "x \<noteq> r \<Longrightarrow> j_status (job_of (settle_body cfg now rnd r rs out q) x) = j_status (job_of q x)"
    using fl o by (auto simp: settle_body_def Let_def split: option.splits control_reason.splits send_outcome.splits send_result.splits)
  show "rs \<noteq> Some Interrupt \<Longrightarrow> j_status (job_of (settle_body cfg now rnd r rs out q) r) \<noteq> StPending"
    using fr orr by (auto simp: settle_body_def Let_def split: option.splits control_reason.splits send_outcome.splits send_result.splits)
qed

lemma calm_settle:
  assumes "calm cfg q" "x \<in> set (q_sending q)"
  shows "calm cfg (settle cfg now rnd x out q)"
proof -
  obtain r c where x: "x = (r, c)" by (cases x)
  have b: "book cfg q" "core cfg {} {} q" "tracked q" "no_interrupt q" using assms(1) by (auto simp: calm_def book_def)
  let ?q1 = "q \<lparr> q_sending := remove1 (r, c) (q_sending q), q_controllers := AList.delete (id_of q r) (q_controllers q),
                 q_finishing := q_finishing q @ [r] \<rparr>"
  let ?q2 = "settle_body cfg now rnd r (q_ctrls q ! c) out ?q1"
  have s: "settle cfg now rnd x out q = ?q2" by (simp add: settle_def x)
  have r: "r < length (q_heap q)" "j_status (job_of q r) = StRunning" using sending_running[OF b(2)] assms(2) x by auto
  have dk: "distinct (map fst (q_sending q))" using b(2) by (simp add: core_def send_ok_def)
  have rk: "set (map fst (remove1 (r, c) (q_sending q))) = set (map fst (q_sending q)) - {r}"
    using remove1_keys[OF dk] assms(2) x by blast
  have rin: "r \<in> set (map fst (q_sending q))" using assms(2) x by force
  have st: "y \<noteq> r \<Longrightarrow> j_status (job_of ?q2 y) = j_status (job_of q y)"
       "q_ctrls q ! c \<noteq> Some Interrupt \<Longrightarrow> j_status (job_of ?q2 r) \<noteq> StPending" for y
    using status_settle_body[of r ?q1] r by auto
  have ni: "q_closed q \<or> q_ctrls q ! c \<noteq> Some Interrupt" using b(4) assms(2) x by (auto simp: no_interrupt_def)
  have nf: "r \<notin> set (q_finishing q)" using b(3) rin by (auto simp: tracked_def)
  have fields: "q_finishing ?q2 = q_finishing q @ [r]" "q_sending ?q2 = remove1 (r, c) (q_sending q)" "q_running ?q2 = q_running q"
     "q_closed ?q2 = q_closed q" "q_ids ?q2 = q_ids q" "q_ctrls ?q2 = q_ctrls q" "length (q_heap ?q2) = length (q_heap q)" by simp_all
  have fin: "y < length (q_heap q) \<and> y \<notin> set (map fst (q_sending q)) - {r} \<and> (\<not> q_closed q \<longrightarrow> j_status (job_of ?q2 y) \<noteq> StPending)"
    if "y \<in> set (q_finishing q @ [r])" for y
  proof (cases "y = r")
    case True
    then show ?thesis using r ni st(2) by auto
  next
    case False
    then have "y \<in> set (q_finishing q)" using that by simp
    then show ?thesis using b(3) st(1)[OF False] unfolding tracked_def by auto
  qed
  have keys: "set (jskeys (q_running q)) = (\<lambda>r. q_ids q ! r) ` ((set (map fst (q_sending q)) - {r}) \<union> set (q_finishing q @ [r]))"
  proof -
    have "(set (map fst (q_sending q)) - {r}) \<union> set (q_finishing q @ [r]) = set (map fst (q_sending q)) \<union> set (q_finishing q)"
      using rin by auto
    then show ?thesis using b(3) by (simp only: tracked_def)
  qed
  have "distinct (q_finishing q @ [r])" using b(3) nf by (simp add: tracked_def)
  then have "tracked ?q2" unfolding tracked_def fields rk using fin keys by blast
  moreover have "no_interrupt ?q2" using b(4) notin_set_remove1
    by (auto simp: no_interrupt_def fields dest: notin_set_remove1[THEN contrapos_nn] set_remove1_subset[THEN subsetD])
  ultimately show ?thesis using book_settle[OF b(1) assms(2), of now rnd out] unfolding calm_def s by blast
qed

lemma calm_finish:
  assumes "calm cfg q" "r \<in> set (q_finishing q)"
  shows "calm cfg (finish cfg now r q)"
proof -
  let ?q = "q \<lparr> q_finishing := remove1 r (q_finishing q), q_running := AList.delete (id_of q r) (q_running q) \<rparr>"
  have b: "book cfg q" "core cfg {} {} q" "tracked q" "no_interrupt q" using assms(1) by (auto simp: calm_def book_def)
  have r: "r < length (q_heap q)" "r \<notin> set (map fst (q_sending q))" using b(3) assms(2) by (auto simp: tracked_def)
  have less: "y < length (q_heap q)" if "y \<in> set (map fst (q_sending q)) \<union> set (q_finishing q)" for y
    using that b(2,3) by (auto simp: tracked_def core_def send_ok_def dest: with_status_less)
  have d: "distinct (q_finishing q)" using b(3) by (simp add: tracked_def)
  let ?A = "set (map fst (q_sending q)) \<union> set (q_finishing q)"
  have "set (jskeys (q_running ?q)) = set (jskeys (q_running q)) - {q_ids q ! r}" using r(1) by simp
  also have "\<dots> = (\<lambda>r. q_ids q ! r) ` ?A - {q_ids q ! r}" using b(3) by (simp only: tracked_def)
  also have "\<dots> = (\<lambda>r. q_ids q ! r) ` (?A - {r})"
  proof -
    have "inj_on (\<lambda>r. q_ids q ! r) ?A"
      using less core_ids[OF b(2)] by (intro inj_onI) (metis id_of_ids)
    moreover have "r \<in> ?A" using assms(2) by simp
    ultimately show ?thesis by (auto simp: inj_on_def)
  qed
  also have "?A - {r} = set (map fst (q_sending q)) \<union> set (remove1 r (q_finishing q))" using r(2) d by auto
  finally have keys: "set (jskeys (q_running ?q)) = (\<lambda>r. q_ids q ! r) ` (set (map fst (q_sending q)) \<union> set (remove1 r (q_finishing q)))" .
  have f: "q_finishing ?q = remove1 r (q_finishing q)" "q_sending ?q = q_sending q" "q_heap ?q = q_heap q" "q_closed ?q = q_closed q" by simp_all
  have "tracked ?q" unfolding tracked_def keys f using b(3) d by (auto simp: tracked_def)
  moreover have "no_interrupt ?q" using b(4) by (simp add: no_interrupt_def)
  moreover have "book cfg ?q" using b(1) run_ok_delete[of cfg q] by (simp add: book_def core_frames timer_ok_def throttled_ok_def)
  ultimately have "calm cfg ?q" by (simp add: calm_def)
  then show ?thesis unfolding finish_def by (intro calm_checkDrained calm_tick')
qed

lemma calm_place:
  assumes "calm cfg q" "fresh_id (j_id j) q" "alloc_of q j q1"
  shows "calm cfg (place cfg now (length (q_heap q)) q1)"
proof -
  let ?r = "length (q_heap q)"
  have b: "book cfg q" "core cfg {} {} q" "tracked q" "no_interrupt q" using assms(1) by (auto simp: calm_def book_def)
  have less: "r \<in> set (q_finishing q) \<Longrightarrow> r < ?r" for r using b(3) by (simp add: tracked_def)
  note al = assms(3)[unfolded alloc_of_def]
  show ?thesis
  proof (cases rule: place_cases[of q1 ?r cfg now])
    case later
    have "tracked (place cfg now ?r q1)"
      by (rule tracked_mono[OF b(3,2)]) (simp_all add: later al nth_append less)
    moreover have "no_interrupt (place cfg now ?r q1)" using b(4) by (simp add: later no_interrupt_def al)
    ultimately show ?thesis using book_alloc(2)[OF b(1) assms(2,3), of now] by (simp add: calm_def)
  next
    case now
    have i: "q_ids (placed ?r q1) = q_ids q @ [j_id j]" by (simp add: al)
    then have l: "length (q_heap (placed ?r q1)) = Suc ?r" by (metis length_append_singleton length_map)
    have "tracked (placed ?r q1)"
    proof (rule tracked_mono[OF b(3,2)])
      fix r assume "r \<in> set (q_finishing q)" "j_status (job_of (placed ?r q1) r) = StPending"
      then show "j_status (job_of q r) = StPending"
        using less[of r] by (simp add: placed_def set_job_def al nth_append nth_list_update)
    qed (use i l in \<open>simp_all add: al nth_append\<close>)
    moreover have "no_interrupt (placed ?r q1)" using b(4) by (simp add: no_interrupt_def al)
    ultimately show ?thesis unfolding now using book_alloc(1)[OF b(1) assms(2,3)] by (intro calm_tick') (simp add: calm_def)
  qed
qed

lemma calm_idempotent: "calm cfg q \<Longrightarrow> calm cfg (q \<lparr> q_idempotent := im \<rparr>)"
  by (rule calm_keep[of cfg q]) (auto simp: calm_def book_frames no_interrupt_def)

lemma calm_enqueue:
  assumes "calm cfg q" "fresh_id (or_default (eo_id eo) i) q"
  shows "calm cfg (snd (enqueue cfg now i tok opts eo q))"
  using assms by (rule enqueue_keeps) (rule calm_idempotent[OF assms(1)], rule calm_place)

lemma calm_restore:
  assumes "calm cfg q" "fresh_id (j_id job) q"
  shows "calm cfg (restore cfg now job q)"
  using assms by (rule restore_keeps) (rule calm_place[OF assms(1)])

lemma promote_one_status:
  "r < length (q_heap q) \<Longrightarrow> j_status (job_of (promote_one i r q) x) = (if x = r then StPending else j_status (job_of q x))"
  by (simp add: promote_one_def Let_def set_job_def emit_def nth_list_update)

lemma promote_list_calm_frame:
  assumes "\<forall>(i, r) \<in> set es. r < length (q_heap q) \<and> r \<noteq> x"
  shows "q_finishing (promote_list now es q) = q_finishing q \<and> q_sending (promote_list now es q) = q_sending q \<and>
    q_ctrls (promote_list now es q) = q_ctrls q \<and> j_status (job_of (promote_list now es q) x) = j_status (job_of q x)"
  using assms
proof (induction es arbitrary: q)
  case (Cons e es)
  obtain i r where e: "e = (i, r)" by (cases e)
  let ?q = "if due_of (job_of q r) \<le> now then promote_one i r q else q"
  have step: "promote_list now (e # es) q = promote_list now es ?q" by (simp add: promote_list_def e)
  have l: "length (q_heap ?q) = length (q_heap q)" using ids_length[of "promote_one i r q" q] by simp
  have "\<forall>(i, r) \<in> set es. r < length (q_heap ?q) \<and> r \<noteq> x" using Cons.prems unfolding l by auto
  from Cons.IH[OF this] show ?case using Cons.prems unfolding step by (auto simp: e promote_one_status)
qed (simp add: promote_list_def)

lemma calm_promoteDue:
  assumes "calm cfg q" "\<forall>r \<in> set (q_finishing q). j_status (job_of q r) \<noteq> StScheduled"
  shows "calm cfg (promoteDue cfg now q)"
proof -
  have b: "book cfg q" "core cfg {} {} q" using assms(1) by (auto simp: calm_def book_def)
  let ?q0 = "q \<lparr> q_timer := None \<rparr>"
  let ?q1 = "promote_list now (q_scheduled q) ?q0"
  have bk: "book cfg (armSchedule now ?q1)" using book_promoted[OF b(1), of now] by (simp add: promoted_def)
  have "calm cfg (armSchedule now ?q1)"
  proof (rule calm_keep[OF assms(1) bk])
    have all: "\<forall>(i, r) \<in> set (q_scheduled q). r < length (q_heap q) \<and> r \<noteq> x" if "x \<in> set (q_finishing q) \<or> x = length (q_heap q)" for x
    proof -
      have "r < length (q_heap q) \<and> r \<noteq> x" if "(i, r) \<in> set (q_scheduled q)" for i r
        using \<open>x \<in> set (q_finishing q) \<or> x = length (q_heap q)\<close> sched_mem[OF b(2), of i r] that assms(2) by (auto simp: with_status_def)
      then show ?thesis by auto
    qed
    note f = promote_list_calm_frame[of "q_scheduled q" ?q0 _ now]
    have f0: "q_finishing ?q1 = q_finishing q \<and> q_sending ?q1 = q_sending q \<and> q_ctrls ?q1 = q_ctrls q"
      using f[of "length (q_heap q)"] all[of "length (q_heap q)"] by simp
    have th: "throttled_ok ?q0" using b(1) by (simp add: book_def throttled_ok_def)
    note g = promote_list_frame[OF th, of now "q_scheduled q"]
    show "q_ids (armSchedule now ?q1) = q_ids q" by simp
    show "q_finishing (armSchedule now ?q1) = q_finishing q" "q_sending (armSchedule now ?q1) = q_sending q" using f0 by simp_all
    show "q_running (armSchedule now ?q1) = q_running q" "q_closed q \<Longrightarrow> q_closed (armSchedule now ?q1)" using g by simp_all
    show "no_interrupt q \<Longrightarrow> no_interrupt (armSchedule now ?q1)" using f0 g by (simp add: no_interrupt_def)
    show "j_status (job_of q r) = StPending" if "r \<in> set (q_finishing q)" "j_status (job_of (armSchedule now ?q1) r) = StPending" for r
      using that f[of r] all[of r] by simp
  qed
  then show ?thesis by (simp add: promoteDue_def calm_tick')
qed

lemma calm_resume: "calm cfg q \<Longrightarrow> calm cfg (resume cfg now q)"
proof -
  assume c: "calm cfg q"
  have "calm cfg (q \<lparr> q_paused := False \<rparr>)" if "\<not> q_closed q"
    by (rule calm_keep[OF c]) (use c that in \<open>simp_all add: calm_def book_def core_frames timer_ok_def throttled_ok_def run_ok_def no_interrupt_def\<close>)
  then show ?thesis using c by (auto simp: resume_def intro: calm_tick')
qed

lemma calm_pause: "calm cfg q \<Longrightarrow> calm cfg (pause q)"
proof -
  assume c: "calm cfg q"
  have "calm cfg (q \<lparr> q_paused := True \<rparr>)"
    by (rule calm_keep[OF c]) (use c in \<open>simp_all add: calm_def book_def core_frames timer_ok_def throttled_ok_def run_ok_def no_interrupt_def\<close>)
  then show ?thesis unfolding pause_def by (rule calm_checkDrained)
qed

lemma calm_trigger:
  assumes "calm cfg q" "rs \<noteq> Interrupt \<or> q_closed q"
  shows "calm cfg (trigger_ctrl rs c q)"
proof (rule calm_keep[OF assms(1)])
  show "book cfg (trigger_ctrl rs c q)" using assms(1) by (simp add: calm_def book_frames)
  show "no_interrupt q \<Longrightarrow> no_interrupt (trigger_ctrl rs c q)"
  proof -
    assume n: "no_interrupt q"
    have "(q_ctrls q)[c := ctrl_trigger rs (q_ctrls q ! c)] ! b \<noteq> Some Interrupt"
      if "rs \<noteq> Interrupt" "q_ctrls q ! b \<noteq> Some Interrupt" for b
      using that by (cases "b = c \<and> c < length (q_ctrls q)") (auto simp: ctrl_trigger_def nth_list_update list_update_beyond not_less)
    then show "no_interrupt (trigger_ctrl rs c q)"
      using n assms(2) by (auto simp: no_interrupt_def trigger_ctrl_def)
  qed
qed simp_all

lemma calm_fold_trigger: "calm cfg q \<Longrightarrow> rs \<noteq> Interrupt \<or> q_closed q \<Longrightarrow> calm cfg (fold (trigger_ctrl rs) cs q)"
  by (induction cs arbitrary: q) (auto simp: calm_trigger)

lemma calm_control:
  assumes "calm cfg q" "rs \<noteq> Interrupt \<or> q_closed q"
  shows "calm cfg (snd (control_one rs i q))" "calm cfg (snd (control_all rs q))"
  using assms by (auto simp: control_one_def control_all_def calm_trigger calm_fold_trigger split: option.splits)

lemma calm_cancel:
  assumes "calm cfg q"
  shows "calm cfg (snd (cancel now i q))"
proof -
  have b: "book cfg q" "core cfg {} {} q" using assms by (auto simp: calm_def book_def)
  obtain o1 q1 where t: "takeWaiting now i q = (o1, q1)" by fastforce
  show ?thesis
  proof (cases o1)
    case None
    then show ?thesis using takeWaiting_None[of now i q q1] t assms
      by (auto simp: cancel_def calm_trigger split: option.splits)
  next
    case (Some r)
    with t have t': "takeWaiting now i q = (Some r, q1)" by simp
    note f = takeWaiting_frame[OF b(2) t']
    have r: "r < length (q_heap q1)" using core_takeWaiting[OF b(2) t'] by (simp add: core_def ids_ok_def)
    have "book cfg (snd (cancel now i q))" by (rule book_cancel[OF b(1)])
    then show ?thesis
    proof (rule calm_keep[OF assms])
      show "no_interrupt q \<Longrightarrow> no_interrupt (snd (cancel now i q))"
        using f by (simp add: cancel_def t' no_interrupt_def) (use takeWaiting_def t' in \<open>auto simp: takeWaiting_def split: option.splits prod.splits\<close>)
    qed (use f r in \<open>simp_all add: cancel_def t' status_markCancelled split: if_splits\<close>)
  qed
qed

lemma fold_markCancelled_status:
  "set rs \<subseteq> {..<length (q_heap q)} \<Longrightarrow>
   j_status (job_of (fold (markCancelled now) rs q) x) = (if x \<in> set rs then StCancelled else j_status (job_of q x))"
proof (induction rs arbitrary: q)
  case (Cons r rs)
  have "set rs \<subseteq> {..<length (q_heap (markCancelled now r q))}" using Cons.prems by simp
  from Cons.IH[OF this] show ?case using Cons.prems by (auto simp: status_markCancelled)
qed simp

lemma calm_cancelAll:
  assumes "calm cfg q"
  shows "calm cfg (snd (cancelAll now q))"
proof -
  have b: "book cfg q" "core cfg {} {} q" using assms by (auto simp: calm_def book_def)
  let ?q1 = "armSchedule now (q \<lparr> q_pending := (\<lambda>_. []), q_scheduled := [] \<rparr>)"
  have s: "snd (cancelAll now q) = checkDrained (fold (markCancelled now) (waitingJobs q) ?q1)" by (simp add: cancelAll_def Let_def)
  have less: "set (waitingJobs q) \<subseteq> {..<length (q_heap ?q1)}" using waiting_mem[OF b(2)] by (auto dest: with_status_less)
  note f = fold_markCancelled_frame[of now "waitingJobs q" ?q1] fold_markCancelled_status[OF less, of now]
  show ?thesis
    by (rule calm_keep[OF assms book_cancelAll[OF b(1)]]) (use f in \<open>auto simp: s no_interrupt_def split: if_splits\<close>)
qed

lemma calm_drain: "calm cfg q \<Longrightarrow> calm cfg (snd (drain q))"
  by (rule calm_keep[of cfg q]) (simp_all add: calm_def book_drain, simp_all add: drain_def no_interrupt_def split: if_splits)

lemma calm_sd_close: "calm cfg q \<Longrightarrow> calm cfg (snd (sd_close now s q))"
proof -
  assume c: "calm cfg q"
  have "calm cfg (q \<lparr> q_paused := True, q_closed := True \<rparr>)"
    by (rule calm_keep[OF c]) (use c in \<open>simp_all add: calm_def book_def core_frames timer_ok_def throttled_ok_def run_ok_def no_interrupt_def\<close>)
  then show ?thesis by (simp add: sd_close_def Let_def calm_cancelAll)
qed

lemma calm_sd_finish: "calm cfg q \<Longrightarrow> q_closed q \<Longrightarrow> calm cfg (snd (sd_finish s q))"
  by (rule calm_keep[of cfg q]) (simp_all add: calm_def book_sd_finish, simp_all add: sd_finish_def Let_def no_interrupt_def)

lemma calm_sd_check: "calm cfg q \<Longrightarrow> sd_phase s = SdDrain \<or> q_closed q \<Longrightarrow> calm cfg (snd (sd_check now s q))"
  by (auto simp: sd_check_def calm_sd_close calm_sd_finish interruptAll_def calm_control split: sd_phase.splits)

lemma calm_sendFn: "calm cfg q \<Longrightarrow> calm cfg (q \<lparr> q_sendFn := True \<rparr>)"
  by (rule calm_keep[of cfg q]) (simp_all add: calm_def book_frames no_interrupt_def)

lemma calm_sd_start: "calm cfg q \<Longrightarrow> calm cfg (snd (sd_start cfg now so q))"
  by (auto simp: sd_start_def Let_def calm_resume calm_sd_close)

lemma calm_init: "calm cfg new_queue"
  by (simp add: calm_def book_init tracked_def no_interrupt_def) (simp add: new_queue_def)

lemma calm_step: "calm cfg q \<Longrightarrow> calm_ok q op \<Longrightarrow> calm cfg (q_step cfg q op)"
  by (cases op)
     (simp_all add: calm_ok_def setSendFn_def calm_sendFn calm_tick' calm_enqueue calm_restore calm_promoteDue calm_settle
        calm_finish calm_resume calm_pause calm_cancel calm_cancelAll interrupt_def interruptAll_def abort_job_def
        abortAll_def calm_control calm_drain calm_sd_start calm_sd_check)

interpretation mqi: machine "q_step cfg" calm_ok "calm cfg" for cfg
  by unfold_locales (rule calm_step)

definition calm_reachable :: "queue_cfg \<Rightarrow> mail_queue \<Rightarrow> bool" where
  "calm_reachable cfg q \<longleftrightarrow> (\<exists>ops. legal_run (q_step cfg) calm_ok new_queue ops \<and> q = run (q_step cfg) new_queue ops)"

lemma calm_reachable_calm: "calm_reachable cfg q \<Longrightarrow> calm cfg q"
  using mqi.inv_run calm_init by (auto simp: calm_reachable_def)

text \<open>Sends in flight and callbacks to come are counted by the running map.\<close>

lemma calm_count:
  assumes "calm cfg q"
  shows "length (q_sending q) + length (q_finishing q) = length (q_running q)"
proof -
  have b: "book cfg q" "core cfg {} {} q" "tracked q" using assms by (auto simp: calm_def book_def)
  let ?S = "set (map fst (q_sending q))" and ?F = "set (q_finishing q)"
  have less: "y < length (q_heap q)" if "y \<in> ?S \<union> ?F" for y
    using that b(2,3) by (auto simp: tracked_def core_def send_ok_def dest: with_status_less)
  have inj: "inj_on (\<lambda>r. q_ids q ! r) (?S \<union> ?F)"
    using less core_ids[OF b(2)] by (intro inj_onI) (metis id_of_ids)
  have "length (q_running q) = card (set (jskeys (q_running q)))"
    using b(1) distinct_card[of "jskeys (q_running q)"] by (simp add: book_def run_ok_def)
  also have "\<dots> = card (?S \<union> ?F)" using b(3) inj by (simp only: tracked_def card_image)
  also have "\<dots> = card ?S + card ?F" using b(3) by (intro card_Un_disjoint) (auto simp: tracked_def)
  also have "card ?S = length (q_sending q)" using b(2) distinct_card[of "map fst (q_sending q)"] by (simp add: core_def send_ok_def)
  also have "card ?F = length (q_finishing q)" using b(3) by (simp add: tracked_def distinct_card)
  finally show ?thesis by simp
qed

end
