(* ===== verification/MailQueueCount.thy ===== *)
theory MailQueueCount
  imports MailQueueCalm
begin

text \<open>
  Three more invariants of the send queue: no job waits while a slot is free, the counters
  of stats() count the jobs of each final state, and the attempt bound of the retry policy.
\<close>

section \<open>No job waits while a slot is free\<close>

lemma stall_tick: "stall_free cfg (tick cfg now q)"
  using tick_done[of q cfg now] by (auto simp: stall_free_def)

lemma pending_refs_cong: "q_pending q' = q_pending q \<Longrightarrow> pending_refs q' = pending_refs q"
  by (simp add: pending_refs_def)

lemma stall_cong:
  "q_finishing q' = q_finishing q \<Longrightarrow> q_sendFn q' = q_sendFn q \<Longrightarrow> q_paused q' = q_paused q \<Longrightarrow>
   q_pending q' = q_pending q \<Longrightarrow> q_running q' = q_running q \<Longrightarrow> stall_free cfg q' = stall_free cfg q"
  using pending_refs_cong[of q' q] by (simp add: stall_free_def)

lemma stall_checkDrained: "stall_free cfg (checkDrained q) = stall_free cfg q"
  by (rule stall_cong) simp_all

lemma pending_refs_empty: "pending_refs q = [] \<longleftrightarrow> (\<forall>t. q_pending q t = [])"
  using PRIORITY_ORDER_all(1) by (auto simp: pending_refs_def)

lemma stall_cancel: "stall_free cfg q \<Longrightarrow> stall_free cfg (snd (cancel now i q))"
proof -
  assume s: "stall_free cfg q"
  have tk: "q_finishing q1 = q_finishing q \<and> q_sendFn q1 = q_sendFn q \<and> q_paused q1 = q_paused q \<and> q_running q1 = q_running q \<and>
      (pending_refs q = [] \<longrightarrow> pending_refs q1 = [])" if "takeWaiting now i q = (o1, q1)" for o1 q1
    using that by (auto simp: takeWaiting_def pending_refs_empty PRIORITY_ORDER_def split: option.splits prod.splits)
  obtain o1 q1 where t: "takeWaiting now i q = (o1, q1)" by fastforce
  have "stall_free cfg q1" using tk[OF t] s by (auto simp: stall_free_def)
  then have "stall_free cfg (markCancelled now r q1)" "stall_free cfg (trigger_ctrl rs c q1)" for r rs c
    by (auto simp: stall_free_def pending_refs_empty)
  then show ?thesis using \<open>stall_free cfg q1\<close> t by (auto simp: cancel_def stall_checkDrained split: option.splits)
qed

lemma stall_cancelAll: "stall_free cfg (snd (cancelAll now q))"
  using fold_markCancelled_frame[of now "waitingJobs q" "armSchedule now (q \<lparr> q_pending := (\<lambda>_. []), q_scheduled := [] \<rparr>)"]
  by (simp add: cancelAll_def Let_def stall_checkDrained stall_free_def pending_refs_empty)

lemma fold_trigger_frame:
  "q_finishing (fold (trigger_ctrl rs) cs q) = q_finishing q \<and> q_sendFn (fold (trigger_ctrl rs) cs q) = q_sendFn q \<and>
   q_paused (fold (trigger_ctrl rs) cs q) = q_paused q \<and> q_pending (fold (trigger_ctrl rs) cs q) = q_pending q \<and>
   q_running (fold (trigger_ctrl rs) cs q) = q_running q \<and> q_heap (fold (trigger_ctrl rs) cs q) = q_heap q \<and>
   q_succeeded (fold (trigger_ctrl rs) cs q) = q_succeeded q \<and> q_cancelled (fold (trigger_ctrl rs) cs q) = q_cancelled q \<and>
   q_scheduled (fold (trigger_ctrl rs) cs q) = q_scheduled q \<and> q_sending (fold (trigger_ctrl rs) cs q) = q_sending q \<and>
   q_closed (fold (trigger_ctrl rs) cs q) = q_closed q"
  by (induction cs arbitrary: q) auto

lemma control_frame:
  "q_finishing (snd (control_one rs i q)) = q_finishing q" "q_finishing (snd (control_all rs q)) = q_finishing q"
  "q_sendFn (snd (control_one rs i q)) = q_sendFn q" "q_sendFn (snd (control_all rs q)) = q_sendFn q"
  "q_paused (snd (control_one rs i q)) = q_paused q" "q_paused (snd (control_all rs q)) = q_paused q"
  "q_pending (snd (control_one rs i q)) = q_pending q" "q_pending (snd (control_all rs q)) = q_pending q"
  "q_running (snd (control_one rs i q)) = q_running q" "q_running (snd (control_all rs q)) = q_running q"
  "q_heap (snd (control_one rs i q)) = q_heap q" "q_heap (snd (control_all rs q)) = q_heap q"
  "q_succeeded (snd (control_one rs i q)) = q_succeeded q" "q_succeeded (snd (control_all rs q)) = q_succeeded q"
  "q_cancelled (snd (control_one rs i q)) = q_cancelled q" "q_cancelled (snd (control_all rs q)) = q_cancelled q"
  "q_sending (snd (control_one rs i q)) = q_sending q" "q_sending (snd (control_all rs q)) = q_sending q"
  "q_closed (snd (control_one rs i q)) = q_closed q" "q_closed (snd (control_all rs q)) = q_closed q"
  by (auto simp: control_one_def control_all_def fold_trigger_frame split: option.splits)

lemma stall_settle: "stall_free cfg (settle cfg now rnd x out q)"
  by (cases x) (simp add: settle_def stall_free_def)

lemma stall_place:
  assumes "stall_free cfg q" "alloc_of q j q1"
  shows "stall_free cfg (place cfg now r q1)"
proof (cases rule: place_cases[of q1 r cfg now])
  case later
  then show ?thesis using assms by (simp add: stall_free_def alloc_of_def pending_refs_empty)
next
  case now
  then show ?thesis by (simp only: stall_tick)
qed

lemma stall_sd_close: "stall_free cfg (snd (sd_close now s q))"
proof -
  have "stall_free cfg (q \<lparr> q_paused := True, q_closed := True \<rparr>)" by (simp add: stall_free_def)
  then show ?thesis by (simp add: sd_close_def Let_def stall_cancelAll)
qed

lemma stall_sd_finish: "stall_free cfg q \<Longrightarrow> stall_free cfg (snd (sd_finish s q))"
  by (simp add: sd_finish_def Let_def stall_free_def pending_refs_empty)

lemma stall_sd_check: "stall_free cfg q \<Longrightarrow> stall_free cfg (snd (sd_check now s q))"
  using stall_cong[of "snd (control_all Interrupt q)" q cfg]
  by (auto simp: sd_check_def stall_sd_close stall_sd_finish interruptAll_def control_frame split: sd_phase.splits)

lemma stall_step: "stall_free cfg q \<Longrightarrow> q_ok q op \<Longrightarrow> stall_free cfg (q_step cfg q op)"
proof (cases op)
  case (OpEnqueue now i tok opts eo)
  assume s: "stall_free cfg q" "q_ok q op"
  have "fresh_id (or_default (eo_id eo) i) q" using s OpEnqueue by simp
  with s(1) show ?thesis unfolding OpEnqueue q_step.simps
  proof (rule enqueue_keeps)
    show "stall_free cfg (q \<lparr> q_idempotent := im \<rparr>)" for im using s(1) by (simp add: stall_free_def pending_refs_empty)
  qed (rule stall_place)
next
  case (OpRestore now job)
  assume s: "stall_free cfg q" "q_ok q op"
  then have "fresh_id (j_id job) q" using OpRestore by simp
  with s(1) show ?thesis unfolding OpRestore q_step.simps by (rule restore_keeps) (rule stall_place[OF s(1)])
next
  case (OpDrain)
  assume s: "stall_free cfg q" "q_ok q op"
  then show ?thesis using OpDrain by (auto simp: drain_def stall_free_def pending_refs_empty)
next
  case (OpSdStart now so)
  assume s: "stall_free cfg q" "q_ok q op"
  then show ?thesis using OpSdStart stall_tick by (auto simp: sd_start_def Let_def stall_sd_close resume_def)
next
  case OpPause
  have "stall_free cfg (q \<lparr> q_paused := True \<rparr>)" by (simp add: stall_free_def)
  then show ?thesis using OpPause by (simp add: pause_def stall_checkDrained)
next
  case (OpResume now)
  assume s: "stall_free cfg q" "q_ok q op"
  then show ?thesis using OpResume by (simp add: resume_def stall_tick)
next
  case (OpInterrupt i)
  assume s: "stall_free cfg q" "q_ok q op"
  then show ?thesis using OpInterrupt stall_cong[of "snd (control_one Interrupt i q)" q cfg] by (simp add: interrupt_def control_frame)
next
  case OpInterruptAll
  assume s: "stall_free cfg q" "q_ok q op"
  then show ?thesis using OpInterruptAll stall_cong[of "snd (control_all Interrupt q)" q cfg] by (simp add: interruptAll_def control_frame)
next
  case (OpAbort i)
  assume s: "stall_free cfg q" "q_ok q op"
  then show ?thesis using OpAbort stall_cong[of "snd (control_one Abort i q)" q cfg] by (simp add: abort_job_def control_frame)
next
  case OpAbortAll
  assume s: "stall_free cfg q" "q_ok q op"
  then show ?thesis using OpAbortAll stall_cong[of "snd (control_all Abort q)" q cfg] by (simp add: abortAll_def control_frame)
qed (simp_all add: setSendFn_def stall_tick promoteDue_def stall_settle finish_def stall_checkDrained
   stall_cancel stall_cancelAll stall_sd_check)

interpretation mqs: machine "q_step cfg" q_ok "stall_free cfg" for cfg
  by unfold_locales (rule stall_step)

section \<open>Counters\<close>

definition jobs_in :: "job_status \<Rightarrow> mail_queue \<Rightarrow> nat" where
  "jobs_in s q = length (List.filter (\<lambda>j. j_status j = s) (q_heap q))"

definition counts :: "mail_queue \<Rightarrow> bool" where
  "counts q \<longleftrightarrow> q_succeeded q = int (jobs_in StSuccess q) \<and> q_cancelled q = int (jobs_in StCancelled q)"

lemma filter_update_count:
  "r < length h \<Longrightarrow> int (length (List.filter P (h[r := j]))) =
     int (length (List.filter P h)) - (if P (h ! r) then 1 else 0) + (if P j then 1 else 0)"
proof (induction h arbitrary: r)
  case (Cons x h)
  show ?case
  proof (cases r)
    case (Suc n)
    then show ?thesis using Cons.IH[of n] Cons.prems by (simp split: if_splits)
  qed simp
qed simp

lemma jobs_in_set_job:
  "r < length (q_heap q) \<Longrightarrow> int (jobs_in s (set_job r f q)) =
     int (jobs_in s q) - (if j_status (job_of q r) = s then 1 else 0) + (if j_status (f (job_of q r)) = s then 1 else 0)"
  by (simp add: jobs_in_def set_job_def filter_update_count)


lemma counts_cong: "q_heap q' = q_heap q \<Longrightarrow> q_succeeded q' = q_succeeded q \<Longrightarrow> q_cancelled q' = q_cancelled q \<Longrightarrow> counts q' = counts q"
  by (simp add: counts_def jobs_in_def)

definition open_status :: "job_status \<Rightarrow> bool" where
  "open_status s \<longleftrightarrow> s \<noteq> StSuccess \<and> s \<noteq> StCancelled"

text \<open>Changing the status of a job between open statuses leaves the counters right.\<close>

lemma counts_set_job:
  assumes "counts q" "r < length (q_heap q)" "open_status (j_status (job_of q r))" "open_status (j_status (f (job_of q r)))"
  shows "counts (set_job r f q)"
  using assms by (simp add: counts_def jobs_in_set_job open_status_def)

lemma counts_launch:
  assumes "counts q" "r < length (q_heap q)" "open_status (j_status (job_of q r))"
  shows "counts (launch_job now r q)"
proof -
  let ?f = "\<lambda>j. j \<lparr> j_status := StRunning, j_attempts := j_attempts j + 1, j_lastAttemptAt := Some now \<rparr>"
  have "counts (set_job r ?f q)" by (rule counts_set_job) (use assms in \<open>simp_all add: open_status_def\<close>)
  moreover have "q_heap (launch_job now r q) = q_heap (set_job r ?f q)" by (simp add: launch_job_def start_job_def Let_def set_job_def)
  ultimately show ?thesis using counts_cong[of "launch_job now r q" "set_job r ?f q"] by simp
qed

lemma counts_throttle:
  assumes "counts q" "r < length (q_heap q)" "open_status (j_status (job_of q r))"
  shows "counts (throttle_job now w r q)"
proof -
  let ?f = "\<lambda>j. j \<lparr> j_status := StScheduled, j_notBefore := Some (now + w) \<rparr>"
  have "counts (set_job r ?f q)" by (rule counts_set_job) (use assms in \<open>simp_all add: open_status_def\<close>)
  moreover have "q_heap (throttle_job now w r q) = q_heap (set_job r ?f q)" by (simp add: throttle_job_def Let_def set_job_def)
  ultimately show ?thesis using counts_cong[of "throttle_job now w r q" "set_job r ?f q"] by simp
qed

lemma counts_tick:
  assumes "core cfg {} {} q" "counts q"
  shows "counts (tick cfg now q)"
proof -
  have "core cfg {} {} (tick cfg now q) \<and> counts (tick cfg now q)"
  proof (rule tick_keeps[where P = "\<lambda>q. core cfg {} {} q \<and> counts q"])
    fix q q' assume a: "core cfg {} {} q \<and> counts q" and s: "tick_step cfg now q = Some q'"
    then have c: "core cfg {} {} q'" using core_tick_step by blast
    have p: "r < length (q_heap q) \<and> open_status (j_status (job_of q r))" if "r \<in> set (pending_refs q)" for r
      using pending_status[of cfg "{}" q r] that a by (simp add: open_status_def)
    from s have "counts q'"
    proof (cases rule: tick_step_cases)
      case (launch t r rs ls)
      have "counts (q \<lparr> q_pending := (q_pending q)(t := rs), q_limiter := ls \<rparr>)" using a by (simp add: counts_def jobs_in_def)
      then show ?thesis unfolding launch(6) using p[OF launch(2)] by (intro counts_launch) simp_all
    next
      case (throttle t r rs ls w)
      have "counts (q \<lparr> q_pending := (q_pending q)(t := rs), q_limiter := ls \<rparr>)" using a by (simp add: counts_def jobs_in_def)
      then show ?thesis unfolding throttle(7) using p[OF throttle(2)] by (intro counts_throttle) simp_all
    qed
    then show "core cfg {} {} q' \<and> counts q'" using c by blast
  qed (use assms in blast)
  then show ?thesis by blast
qed

lemma counts_promote_list:
  assumes "counts q" "\<forall>(i, r) \<in> set es. r < length (q_heap q) \<and> open_status (j_status (job_of q r))"
  shows "counts (promote_list now es q)"
  using assms
proof (induction es arbitrary: q)
  case (Cons e es)
  obtain i r where e: "e = (i, r)" by (cases e)
  let ?f = "\<lambda>j. j \<lparr> j_status := StPending, j_notBefore := None \<rparr>"
  have h: "q_heap (promote_one i r q) = q_heap (set_job r ?f q)" by (simp add: promote_one_def Let_def set_job_def)
  have "counts (set_job r ?f q)" by (rule counts_set_job) (use Cons.prems e in \<open>auto simp: open_status_def\<close>)
  then have p: "counts (promote_one i r q)" using counts_cong[OF h] by simp
  let ?q = "if due_of (job_of q r) \<le> now then promote_one i r q else q"
  have step: "promote_list now (e # es) q = promote_list now es ?q" by (simp add: promote_list_def e)
  have "\<forall>(i, x) \<in> set es. x < length (q_heap ?q) \<and> open_status (j_status (job_of ?q x))"
    using Cons.prems by (auto simp: e h set_job_def nth_list_update open_status_def)
  then show ?case using Cons.IH[of ?q] p Cons.prems(1) by (simp only: step) simp
qed (simp add: promote_list_def)

lemma counts_promoteDue:
  assumes "core cfg {} {} q" "counts q"
  shows "counts (promoteDue cfg now q)"
proof -
  let ?q1 = "promote_list now (q_scheduled q) (q \<lparr> q_timer := None \<rparr>)"
  have c: "core cfg {} {} ?q1"
    by (rule core_promote_list) (use assms in \<open>simp_all add: core_def sched_ok_def\<close>)
  have "\<forall>(i, r) \<in> set (q_scheduled q). r < length (q_heap q) \<and> open_status (j_status (job_of q r))"
    using sched_mem[OF assms(1)] by (auto simp: with_status_def open_status_def)
  then have "counts ?q1" using assms(2) counts_cong[of "q \<lparr> q_timer := None \<rparr>" q] by (intro counts_promote_list) simp_all
  then have "counts (armSchedule now ?q1)" using counts_cong[of "armSchedule now ?q1" ?q1] by simp
  then show ?thesis unfolding promoteDue_def by (intro counts_tick) (simp_all add: core_arm c)
qed

lemma counts_markCancelled:
  assumes "counts q" "r < length (q_heap q)" "open_status (j_status (job_of q r))"
  shows "counts (markCancelled now r q)"
proof -
  let ?f = "\<lambda>j. j \<lparr> j_status := StCancelled, j_cancelledAt := Some now, j_notBefore := None \<rparr>"
  have h: "q_heap (markCancelled now r q) = q_heap (set_job r ?f q)" by (simp add: markCancelled_def Let_def set_job_def)
  have "q_cancelled (markCancelled now r q) = q_cancelled q + 1" by (simp add: markCancelled_def Let_def)
  moreover have "jobs_in s (markCancelled now r q) = jobs_in s (set_job r ?f q)" for s by (simp add: jobs_in_def h)
  ultimately show ?thesis using assms by (simp add: counts_def jobs_in_set_job open_status_def)
qed

lemma counts_succeed:
  assumes "counts q" "r < length (q_heap q)" "open_status (j_status (job_of q r))"
  shows "counts (succeed_job r res q)"
proof -
  let ?f = "\<lambda>j. j \<lparr> j_status := StSuccess \<rparr>"
  have h: "q_heap (succeed_job r res q) = q_heap (set_job r ?f q)" by (simp add: succeed_job_def Let_def set_job_def)
  have "q_succeeded (succeed_job r res q) = q_succeeded q + 1" by (simp add: succeed_job_def Let_def)
  moreover have "jobs_in s (succeed_job r res q) = jobs_in s (set_job r ?f q)" for s by (simp add: jobs_in_def h)
  ultimately show ?thesis using assms by (simp add: counts_def jobs_in_set_job open_status_def)
qed

text \<open>The delay before a retry: the policy's, or the provider's Retry-After when it is longer.\<close>

definition retry_delay :: "queue_cfg \<Rightarrow> rat \<Rightarrow> mail_error \<Rightarrow> int \<Rightarrow> int" where
  "retry_delay cfg rnd err attempts = max (delayFor (qc_policy cfg) rnd (attempts - 1)) (or_default (e_retryAfterMs err) 0)"

lemma retry_heap:
  "q_heap (retry_job cfg now rnd e r q) = q_heap (set_job r (\<lambda>j. j \<lparr> j_status := StScheduled,
     j_notBefore := Some (now + retry_delay cfg rnd e (j_attempts (job_of q r))) \<rparr>) q)"
  by (simp add: retry_job_def Let_def set_job_def retry_delay_def)

lemma counts_fail:
  assumes "counts q" "r < length (q_heap q)" "open_status (j_status (job_of q r))"
  shows "counts (fail_job cfg now rnd e r q)"
proof -
  let ?g = "\<lambda>j. j \<lparr> j_errors := j_errors j @ [e] \<rparr>"
  have a: "counts (set_job r ?g q)" by (rule counts_set_job) (use assms in simp_all)
  have b: "r < length (q_heap (set_job r ?g q))" "open_status (j_status (job_of (set_job r ?g q) r))"
    using assms by (simp_all add: set_job_def)
  have c: "counts (set_job r f (set_job r ?g q))" if "open_status (j_status (f (job_of (set_job r ?g q) r)))" for f
    by (rule counts_set_job[where f = f, OF a b that])
  have d: "counts (dlq_add cfg now r (set_job r ?g q))"
  proof (cases "qc_dlEnabled cfg")
    case True
    then have "q_heap (dlq_add cfg now r (set_job r ?g q)) = q_heap (set_job r (\<lambda>j. j \<lparr> j_status := StDead \<rparr>) (set_job r ?g q))"
      by (simp add: dlq_add_def Let_def emit_def set_job_def)
    from counts_cong[OF this] show ?thesis using c[of "\<lambda>j. j \<lparr> j_status := StDead \<rparr>"] by (simp add: open_status_def)
  qed (use a in \<open>simp add: dlq_add_def\<close>)
  have "counts (retry_job cfg now rnd e r (set_job r ?g q))"
  proof -
    show ?thesis by (subst counts_cong[OF retry_heap]) (simp, simp, rule c, simp add: open_status_def)
  qed
  then show ?thesis using d by (simp add: fail_job_def Let_def)
qed

lemma counts_settle:
  assumes "core cfg {} {} q" "counts q" "x \<in> set (q_sending q)"
  shows "counts (settle cfg now rnd x out q)"
proof -
  obtain r c where x: "x = (r, c)" by (cases x)
  let ?q1 = "q \<lparr> q_sending := remove1 (r, c) (q_sending q), q_controllers := AList.delete (id_of q r) (q_controllers q),
                 q_finishing := q_finishing q @ [r] \<rparr>"
  have r: "r < length (q_heap ?q1)" "open_status (j_status (job_of ?q1 r))"
    using sending_running[OF assms(1)] assms(3) x by (auto simp: open_status_def)
  have k: "counts ?q1" using assms(2) counts_cong[of ?q1 q] by simp
  have "counts (interrupt_requeue r ?q1)"
  proof -
    let ?f = "\<lambda>j. j \<lparr> j_attempts := j_attempts j - 1, j_status := StPending \<rparr>"
    have "q_heap (interrupt_requeue r ?q1) = q_heap (set_job r ?f ?q1)"
      by (simp add: interrupt_requeue_def Let_def set_job_def)
    from counts_cong[OF this] show ?thesis using counts_set_job[OF k r, of ?f] by (simp add: open_status_def)
  qed
  then have "counts (settle_body cfg now rnd r rs out ?q1)" for rs
    using counts_fail[OF k r] counts_succeed[OF k r] counts_markCancelled[OF k r]
    by (auto simp: settle_body_def Let_def split: option.splits control_reason.splits send_outcome.splits send_result.splits)
  then show ?thesis by (simp add: settle_def x)
qed


lemma counts_alloc:
  assumes "counts q" "alloc_of q j q1" "open_status (j_status j)"
  shows "counts q1"
  using assms by (simp add: counts_def jobs_in_def alloc_of_def open_status_def)

lemma counts_place:
  assumes "core cfg {} {} q" "counts q" "fresh_id (j_id j) q" "alloc_of q j q1" "open_status (j_status j)"
  shows "counts (place cfg now (length (q_heap q)) q1)"
proof (cases rule: place_cases[of q1 "length (q_heap q)" cfg now])
  case later
  have "counts q1" by (rule counts_alloc[OF assms(2,4,5)])
  then show ?thesis by (simp add: later counts_def jobs_in_def)
next
  case now
  let ?r = "length (q_heap q)" and ?f = "\<lambda>j. j \<lparr> j_status := StPending, j_notBefore := None \<rparr>"
  have c: "counts q1" by (rule counts_alloc[OF assms(2,4,5)])
  have "counts (set_job ?r ?f q1)"
    by (rule counts_set_job[OF c]) (use assms(4,5) in \<open>simp_all add: alloc_of_def open_status_def\<close>)
  moreover have "q_heap (placed ?r q1) = q_heap (set_job ?r ?f q1)" by (simp add: placed_def)
  ultimately have p: "counts (placed ?r q1)" by (simp add: counts_def jobs_in_def)
  have "core cfg {} {} (placed ?r q1)" by (rule core_placed[OF alloc_core[OF assms(1,3,4)]])
  then show ?thesis unfolding now using p by (rule counts_tick)
qed

lemma counts_cancel:
  assumes "core cfg {} {} q" "counts q"
  shows "counts (snd (cancel now i q))"
proof -
  obtain o1 q1 where t: "takeWaiting now i q = (o1, q1)" by fastforce
  have f: "q_heap q1 = q_heap q \<and> q_succeeded q1 = q_succeeded q \<and> q_cancelled q1 = q_cancelled q"
    using t by (auto simp: takeWaiting_def split: option.splits prod.splits)
  then have c: "counts q1" using assms(2) by (simp add: counts_def jobs_in_def)
  show ?thesis
  proof (cases o1)
    case None
    then show ?thesis using t c by (auto simp: cancel_def counts_def jobs_in_def split: option.splits)
  next
    case (Some r)
    with t have t': "takeWaiting now i q = (Some r, q1)" by simp
    have "r \<in> set (waitingJobs q)" by (rule takeWaiting_frame(12)[OF assms(1) t'])
    then have "r < length (q_heap q1)" "open_status (j_status (job_of q1 r))"
      using waiting_mem[OF assms(1), of r] f by (auto simp: with_status_def open_status_def)
    then have "counts (markCancelled now r q1)" by (rule counts_markCancelled[OF c])
    then show ?thesis by (simp add: cancel_def t' counts_def jobs_in_def)
  qed
qed

lemma counts_fold_markCancelled:
  "counts q \<Longrightarrow> distinct rs \<Longrightarrow> \<forall>r \<in> set rs. r < length (q_heap q) \<and> open_status (j_status (job_of q r)) \<Longrightarrow>
   counts (fold (markCancelled now) rs q)"
proof (induction rs arbitrary: q)
  case (Cons r rs)
  have c: "counts (markCancelled now r q)" using Cons.prems by (intro counts_markCancelled) auto
  have "\<forall>x \<in> set rs. x < length (q_heap (markCancelled now r q)) \<and> open_status (j_status (job_of (markCancelled now r q) x))"
    using Cons.prems by (auto simp: status_markCancelled)
  then show ?case using Cons.IH[OF c] Cons.prems(2) by simp
qed simp

lemma counts_cancelAll:
  assumes "core cfg {} {} q" "counts q"
  shows "counts (snd (cancelAll now q))"
proof -
  let ?q1 = "armSchedule now (q \<lparr> q_pending := (\<lambda>_. []), q_scheduled := [] \<rparr>)"
  have c1: "counts ?q1" using assms(2) by (simp add: counts_def jobs_in_def)
  have "\<forall>r \<in> set (waitingJobs q). r < length (q_heap ?q1) \<and> open_status (j_status (job_of ?q1 r))"
  proof
    fix r assume "r \<in> set (waitingJobs q)"
    then have "r \<in> with_status (q_heap q) StPending \<or> r \<in> with_status (q_heap q) StScheduled" using waiting_mem[OF assms(1)] by blast
    then show "r < length (q_heap ?q1) \<and> open_status (j_status (job_of ?q1 r))" by (auto simp: with_status_def open_status_def)
  qed
  then have "counts (fold (markCancelled now) (waitingJobs q) ?q1)"
    by (rule counts_fold_markCancelled[OF c1 distinct_waiting[OF assms(1)]])
  then show ?thesis by (simp add: cancelAll_def Let_def counts_def jobs_in_def)
qed

lemma counts_sd_close: "core cfg {} {} q \<Longrightarrow> counts q \<Longrightarrow> counts (snd (sd_close now s q))"
  using counts_cancelAll[of cfg "q \<lparr> q_paused := True, q_closed := True \<rparr>" now]
  by (simp add: sd_close_def Let_def core_frames) (simp add: counts_def jobs_in_def)

lemma counts_sd_check: "core cfg {} {} q \<Longrightarrow> counts q \<Longrightarrow> counts (snd (sd_check now s q))"
  using counts_sd_close[of cfg q now s]
  by (auto simp: sd_check_def sd_finish_def Let_def interruptAll_def control_frame counts_def jobs_in_def split: sd_phase.splits)

lemma counts_resume: "core cfg {} {} q \<Longrightarrow> counts q \<Longrightarrow> counts (resume cfg now q)"
  using counts_tick[of cfg "q \<lparr> q_paused := False \<rparr>" now]
  by (simp add: resume_def core_frames) (simp add: counts_def jobs_in_def)

definition counted :: "queue_cfg \<Rightarrow> mail_queue \<Rightarrow> bool" where
  "counted cfg q \<longleftrightarrow> core cfg {} {} q \<and> counts q"

lemma counts_step:
  assumes "counted cfg q" "q_ok q op"
  shows "counts (q_step cfg q op)"
proof -
  have c: "core cfg {} {} q" "counts q" using assms(1) by (auto simp: counted_def)
  have cc: "core cfg {} {} (q_step cfg q op)" by (rule core_step[OF c(1) assms(2)])
  show ?thesis
  proof (cases op)
    case (OpSetSendFn now)
    then show ?thesis using counts_tick[of cfg "q \<lparr> q_sendFn := True \<rparr>" now] c
      by (simp add: setSendFn_def core_frames) (simp add: counts_def jobs_in_def)
  next
    case (OpEnqueue now i tok opts eo)
    have "fresh_id (or_default (eo_id eo) i) q" using assms(2) OpEnqueue by simp
    with assms(1) have "counted cfg (q_step cfg q op)" unfolding OpEnqueue q_step.simps
    proof (rule enqueue_keeps)
      show "counted cfg (q \<lparr> q_idempotent := im \<rparr>)" for im
        using assms(1) by (simp add: counted_def core_frames) (simp add: counts_def jobs_in_def)
    next
      fix q' j q1
      assume a: "counted cfg q'" "fresh_id (j_id j) q'" "alloc_of q' j q1" "j_status j \<in> {StPending, StScheduled}"
      then have "counts (place cfg now (length (q_heap q')) q1)"
        by (intro counts_place[of cfg q' j q1 now]) (auto simp: counted_def open_status_def)
      moreover have "core cfg {} {} (place cfg now (length (q_heap q')) q1)"
        using a by (intro core_place alloc_core) (simp_all add: counted_def)
      ultimately show "counted cfg (place cfg now (length (q_heap q')) q1)" by (simp add: counted_def)
    qed
    then show ?thesis by (simp add: counted_def)
  next
    case (OpRestore now job)
    have "fresh_id (j_id job) q" "open_status (j_status job)" using assms(2) OpRestore by (auto simp: open_status_def)
    from c(2) this(1) show ?thesis unfolding OpRestore q_step.simps
    proof (rule restore_keeps)
      fix j q1
      assume a: "fresh_id (j_id j) q" "alloc_of q j q1" "j = (if j_status job = StRunning then job \<lparr> j_status := StPending \<rparr> else job)"
      have "open_status (j_status j)" using a(3) \<open>open_status (j_status job)\<close> by (simp add: open_status_def split: if_splits)
      with c a(1,2) show "counts (place cfg now (length (q_heap q)) q1)" by (rule counts_place)
    qed
  next
    case (OpFinish now r)
    have "core cfg {} {} (q \<lparr> q_finishing := remove1 r (q_finishing q), q_running := AList.delete (id_of q r) (q_running q) \<rparr>)"
      using c by (simp add: core_frames)
    moreover have "counts (q \<lparr> q_finishing := remove1 r (q_finishing q), q_running := AList.delete (id_of q r) (q_running q) \<rparr>)"
      using c(2) by (simp add: counts_def jobs_in_def)
    ultimately have "counts (tick cfg now (q \<lparr> q_finishing := remove1 r (q_finishing q), q_running := AList.delete (id_of q r) (q_running q) \<rparr>))"
      by (rule counts_tick)
    then show ?thesis using OpFinish by (simp add: finish_def counts_def jobs_in_def)
  next
    case (OpSettle now rnd x out)
    then show ?thesis using counts_settle[OF c] assms(2) by simp
  next
    case (OpSdStart now so)
    then show ?thesis using counts_resume[OF c] counts_sd_close[OF c] by (auto simp: sd_start_def Let_def)
  next
    case OpDrain
    then show ?thesis using c(2) by (auto simp: drain_def counts_def jobs_in_def)
  qed (use c in \<open>simp_all add: counts_promoteDue counts_resume counts_cancel counts_cancelAll counts_sd_check\<close>,
      simp_all add: pause_def interrupt_def interruptAll_def abort_job_def abortAll_def control_frame counts_def jobs_in_def)
qed

lemma counted_step: "counted cfg q \<Longrightarrow> q_ok q op \<Longrightarrow> counted cfg (q_step cfg q op)"
  using counts_step core_step by (simp add: counted_def)

interpretation mqn: machine "q_step cfg" q_ok "counted cfg" for cfg
  by unfold_locales (rule counted_step)

lemma counted_init: "counted cfg new_queue"
  by (simp add: counted_def core_init) (simp add: counts_def jobs_in_def new_queue_def)

lemma reachable_counts: "q_reachable cfg q \<Longrightarrow> counts q"
  using mqn.inv_run counted_init by (auto simp: q_reachable_def counted_def)

lemma reachable_stall_free: "q_reachable cfg q \<Longrightarrow> stall_free cfg q"
  using mqs.inv_run[of cfg new_queue] by (auto simp: q_reachable_def stall_free_def new_queue_def)

end
