(* ===== verification/MailQueueJobs.thy ===== *)
theory MailQueueJobs
  imports MailQueueCount
begin

text \<open>
  Invariants of single jobs.  The queue changes a job in nine ways only (job_inv lists them);
  a property of jobs (which may depend on their index) that these keep holds of every job of
  every reachable queue.  It is interpreted on the attempt bound of the retry policy and on
  the jobs that have ended, which no operation changes again.
\<close>

definition all_jobs :: "(nat \<Rightarrow> q_job \<Rightarrow> bool) \<Rightarrow> mail_queue \<Rightarrow> bool" where
  "all_jobs J q \<longleftrightarrow> (\<forall>r < length (q_heap q). J r (job_of q r))"

lemma all_jobs_heap: "q_heap q' = q_heap q \<Longrightarrow> all_jobs J q' = all_jobs J q"
  by (simp add: all_jobs_def)

lemma update_all: "\<forall>i < length h. J i (h ! i) \<Longrightarrow> J r x \<Longrightarrow> i < length h \<Longrightarrow> J i (h[r := x] ! i)"
  by (cases "i = r") auto

lemma all_jobs_set: "all_jobs J q \<Longrightarrow> J r (f (job_of q r)) \<Longrightarrow> all_jobs J (set_job r f q)"
  unfolding all_jobs_def set_job_def by (auto intro: update_all)

definition restored :: "q_job \<Rightarrow> q_job" where
  "restored job = (if j_status job = StRunning then job \<lparr> j_status := StPending \<rparr> else job)"

definition unstarted :: "q_job \<Rightarrow> bool" where
  "unstarted j \<longleftrightarrow> j_status j = StPending \<or> j_status j = StScheduled"

locale job_inv =
  fixes cfg :: queue_cfg
    and J :: "nat \<Rightarrow> q_job \<Rightarrow> bool"
    and first :: nat
  assumes J_new: "first \<le> r \<Longrightarrow> j_attempts j = 0 \<Longrightarrow> j_errors j = [] \<Longrightarrow> unstarted j \<Longrightarrow> J r j"
    and J_start: "J r j \<Longrightarrow> j_status j = StPending \<Longrightarrow>
      J r (j \<lparr> j_status := StRunning, j_attempts := j_attempts j + 1, j_lastAttemptAt := Some now \<rparr>)"
    and J_wait: "J r j \<Longrightarrow> j_status j = StPending \<Longrightarrow> J r (j \<lparr> j_status := StScheduled, j_notBefore := Some t \<rparr>)"
    and J_ready: "J r j \<Longrightarrow> unstarted j \<Longrightarrow> J r (j \<lparr> j_status := StPending, j_notBefore := None \<rparr>)"
    and J_cancel: "J r j \<Longrightarrow> unstarted j \<or> j_status j = StRunning \<Longrightarrow>
      J r (j \<lparr> j_status := StCancelled, j_cancelledAt := Some now, j_notBefore := None \<rparr>)"
    and J_interrupt: "J r j \<Longrightarrow> j_status j = StRunning \<Longrightarrow> J r (j \<lparr> j_attempts := j_attempts j - 1, j_status := StPending \<rparr>)"
    and J_success: "J r j \<Longrightarrow> j_status j = StRunning \<Longrightarrow> J r (j \<lparr> j_status := StSuccess \<rparr>)"
    and J_retry: "J r j \<Longrightarrow> j_status j = StRunning \<Longrightarrow> shouldRetry (qc_policy cfg) (j_attempts j) e \<Longrightarrow>
      J r (j \<lparr> j_errors := j_errors j @ [e], j_status := StScheduled, j_notBefore := Some t \<rparr>)"
    and J_dead: "J r j \<Longrightarrow> j_status j = StRunning \<Longrightarrow> qc_dlEnabled cfg \<Longrightarrow> \<not> shouldRetry (qc_policy cfg) (j_attempts j) e \<Longrightarrow>
      J r (j \<lparr> j_errors := j_errors j @ [e], j_status := StDead \<rparr>)"
    and J_dropped: "J r j \<Longrightarrow> j_status j = StRunning \<Longrightarrow> \<not> qc_dlEnabled cfg \<Longrightarrow> \<not> shouldRetry (qc_policy cfg) (j_attempts j) e \<Longrightarrow>
      J r (j \<lparr> j_errors := j_errors j @ [e] \<rparr>)"
begin

definition good :: "mail_queue \<Rightarrow> bool" where
  "good q \<longleftrightarrow> core cfg {} {} q \<and> all_jobs J q"

definition ok :: "mail_queue \<Rightarrow> q_op \<Rightarrow> bool" where
  "ok q op \<longleftrightarrow> q_ok q op \<and> (case op of OpRestore now job \<Rightarrow> J (length (q_heap q)) (restored job)
     | OpEnqueue now i tok opts eo \<Rightarrow> first \<le> length (q_heap q) | _ \<Rightarrow> True)"

lemma good_heap: "good q \<Longrightarrow> q_heap q' = q_heap q \<Longrightarrow> core cfg {} {} q' \<Longrightarrow> good q'"
  by (simp add: good_def all_jobs_def)

lemma jobs_tick:
  assumes "good q"
  shows "good (tick cfg now q)"
proof (rule tick_keeps[where P = good])
  fix q q' assume a: "good q" and s: "tick_step cfg now q = Some q'"
  have c: "core cfg {} {} q'" using a s core_tick_step by (auto simp: good_def)
  have p: "r < length (q_heap q)" "j_status (job_of q r) = StPending" "J r (job_of q r)" if "r \<in> set (pending_refs q)" for r
    using pending_status[of cfg "{}" q r] that a by (auto simp: good_def all_jobs_def)
  from s have "all_jobs J q'"
  proof (cases rule: tick_step_cases)
    case (launch t r rs ls)
    let ?f = "\<lambda>j. j \<lparr> j_status := StRunning, j_attempts := j_attempts j + 1, j_lastAttemptAt := Some now \<rparr>"
    have "q_heap q' = q_heap (set_job r ?f q)" by (simp add: launch(6) launch_job_def start_job_def Let_def set_job_def)
    then show ?thesis using a all_jobs_set[of J q r ?f] J_start[OF p(3,2)[OF launch(2)]] all_jobs_heap
      by (simp add: good_def all_jobs_def)
  next
    case (throttle t r rs ls w)
    let ?f = "\<lambda>j. j \<lparr> j_status := StScheduled, j_notBefore := Some (now + w) \<rparr>"
    have "q_heap q' = q_heap (set_job r ?f q)" by (simp add: throttle(7) throttle_job_def Let_def set_job_def)
    then show ?thesis using a all_jobs_set[of J q r ?f] J_wait[OF p(3,2)[OF throttle(2)]] all_jobs_heap
      by (simp add: good_def all_jobs_def)
  qed
  then show "good q'" using c by (simp add: good_def)
qed (rule assms)

lemma jobs_place:
  assumes "good q" "fresh_id (j_id j) q" "alloc_of q j q1" "J (length (q_heap q)) j" "unstarted j"
  shows "good (place cfg now (length (q_heap q)) q1)"
proof -
  have c1: "core cfg {} {length (q_heap q)} q1" using assms(1) by (intro alloc_core[OF _ assms(2,3)]) (simp add: good_def)
  have core: "core cfg {} {} (place cfg now (length (q_heap q)) q1)" by (rule core_place[OF c1])
  have a1: "all_jobs J q1" using assms by (auto simp: all_jobs_def good_def alloc_of_def nth_append less_Suc_eq)
  show ?thesis
  proof (cases rule: place_cases[of q1 "length (q_heap q)" cfg now])
    case later
    then show ?thesis using core a1 by (simp add: good_def all_jobs_def)
  next
    case now
    let ?f = "\<lambda>j. j \<lparr> j_status := StPending, j_notBefore := None \<rparr>"
    have "J (length (q_heap q)) (?f (job_of q1 (length (q_heap q))))" using J_ready[OF assms(4,5)] assms(3) by (simp add: alloc_of_def)
    then have "all_jobs J (set_job (length (q_heap q)) ?f q1)" by (rule all_jobs_set[OF a1])
    moreover have "q_heap (placed (length (q_heap q)) q1) = q_heap (set_job (length (q_heap q)) ?f q1)" by (simp add: placed_def)
    ultimately have "good (placed (length (q_heap q)) q1)" using core_placed[OF c1] by (simp add: good_def all_jobs_def)
    then show ?thesis unfolding now by (rule jobs_tick)
  qed
qed

lemma jobs_promote_list:
  assumes "all_jobs J q" "distinct (map snd es)" "\<forall>(i, r) \<in> set es. r < length (q_heap q) \<and> unstarted (job_of q r)"
  shows "all_jobs J (promote_list now es q)"
  using assms
proof (induction es arbitrary: q)
  case (Cons e es)
  obtain i r where e: "e = (i, r)" by (cases e)
  let ?f = "\<lambda>j. j \<lparr> j_status := StPending, j_notBefore := None \<rparr>"
  have h: "q_heap (promote_one i r q) = q_heap (set_job r ?f q)" by (simp add: promote_one_def Let_def set_job_def)
  have "J r (?f (job_of q r))" using Cons.prems e by (intro J_ready) (auto simp: all_jobs_def)
  then have p: "all_jobs J (promote_one i r q)" using all_jobs_set[OF Cons.prems(1)] all_jobs_heap[OF h] by simp
  let ?q = "if due_of (job_of q r) \<le> now then promote_one i r q else q"
  have step: "promote_list now (e # es) q = promote_list now es ?q" by (simp add: promote_list_def e)
  have same: "job_of ?q x = job_of q x" if "x \<noteq> r" for x using that by (simp add: h set_job_def)
  have "\<forall>(k, x) \<in> set es. x < length (q_heap ?q) \<and> unstarted (job_of ?q x)"
  proof clarify
    fix k x assume m: "(k, x) \<in> set es"
    then have "x \<noteq> r" using Cons.prems(2) e by force
    then show "x < length (q_heap ?q) \<and> unstarted (job_of ?q x)"
      using same[of x] m Cons.prems(3) by (auto simp: h set_job_def)
  qed
  then show ?case using Cons.IH[of ?q] p Cons.prems(1,2) by (simp only: step) simp
qed (simp add: promote_list_def)

lemma jobs_promoteDue:
  assumes "good q"
  shows "good (promoteDue cfg now q)"
proof -
  let ?q0 = "q \<lparr> q_timer := None \<rparr>"
  have c: "core cfg {} {} q" using assms by (simp add: good_def)
  have "core cfg {} {} (promote_list now (q_scheduled q) ?q0)"
    by (rule core_promote_list) (use c in \<open>simp_all add: core_def sched_ok_def\<close>)
  moreover have "\<forall>(i, r) \<in> set (q_scheduled q). r < length (q_heap ?q0) \<and> unstarted (job_of ?q0 r)"
  proof clarify
    fix i r assume "(i, r) \<in> set (q_scheduled q)"
    then show "r < length (q_heap ?q0) \<and> unstarted (job_of ?q0 r)"
      using sched_mem[OF c, of i r] by (auto simp: with_status_def unstarted_def)
  qed
  then have "all_jobs J (promote_list now (q_scheduled q) ?q0)"
    using assms distinct_sched_vals[OF c] by (intro jobs_promote_list) (simp_all add: good_def all_jobs_def)
  ultimately have "good (armSchedule now (promote_list now (q_scheduled q) ?q0))"
    by (simp add: good_def core_arm all_jobs_def)
  then show ?thesis unfolding promoteDue_def by (rule jobs_tick)
qed

lemma jobs_markCancelled:
  assumes "all_jobs J q" "J r (job_of q r)" "unstarted (job_of q r) \<or> j_status (job_of q r) = StRunning"
  shows "all_jobs J (markCancelled now r q)"
proof -
  let ?f = "\<lambda>j. j \<lparr> j_status := StCancelled, j_cancelledAt := Some now, j_notBefore := None \<rparr>"
  have h: "q_heap (markCancelled now r q) = q_heap (set_job r ?f q)" by (simp add: markCancelled_def Let_def set_job_def)
  show ?thesis using all_jobs_set[OF assms(1), of r ?f] J_cancel[OF assms(2,3)] all_jobs_heap[OF h] by simp
qed

lemma jobs_fail:
  assumes "all_jobs J q" "J r (job_of q r)" "j_status (job_of q r) = StRunning" "r < length (q_heap q)"
  shows "all_jobs J (fail_job cfg now rnd e r q)"
proof -
  let ?g = "\<lambda>j. j \<lparr> j_errors := j_errors j @ [e] \<rparr>"
  let ?q1 = "set_job r ?g q"
  have at: "job_of ?q1 r = ?g (job_of q r)" "j_attempts (job_of ?q1 r) = j_attempts (job_of q r)"
    using assms(4) by (simp_all add: set_job_def)
  have two: "all_jobs J q'" if "q_heap q' = (q_heap q)[r := j']" "J r j'" for q' j'
    using that assms(1) unfolding all_jobs_def by (auto intro: update_all)
  consider "shouldRetry (qc_policy cfg) (j_attempts (job_of q r)) e"
    | "\<not> shouldRetry (qc_policy cfg) (j_attempts (job_of q r)) e" "qc_dlEnabled cfg"
    | "\<not> shouldRetry (qc_policy cfg) (j_attempts (job_of q r)) e" "\<not> qc_dlEnabled cfg" by blast
  then show ?thesis
  proof cases
    case 1
    let ?t = "now + retry_delay cfg rnd e (j_attempts (job_of q r))"
    have "fail_job cfg now rnd e r q = retry_job cfg now rnd e r ?q1" using 1 at by (simp add: fail_job_def Let_def)
    then have "q_heap (fail_job cfg now rnd e r q) =
        (q_heap q)[r := (job_of q r) \<lparr> j_errors := j_errors (job_of q r) @ [e], j_status := StScheduled, j_notBefore := Some ?t \<rparr>]"
      using assms(4) at by (simp add: retry_heap set_job_def)
    then show ?thesis by (rule two) (rule J_retry[OF assms(2,3) 1])
  next
    case 2
    then have "q_heap (fail_job cfg now rnd e r q) =
        (q_heap q)[r := (job_of q r) \<lparr> j_errors := j_errors (job_of q r) @ [e], j_status := StDead \<rparr>]"
      using assms(4) by (simp add: fail_job_def dlq_add_def Let_def set_job_def emit_def)
    then show ?thesis by (rule two) (rule J_dead[OF assms(2,3) 2(2,1)])
  next
    case 3
    then have "q_heap (fail_job cfg now rnd e r q) = (q_heap q)[r := (job_of q r) \<lparr> j_errors := j_errors (job_of q r) @ [e] \<rparr>]"
      using assms(4) by (simp add: fail_job_def dlq_add_def Let_def set_job_def)
    then show ?thesis by (rule two) (rule J_dropped[OF assms(2,3) 3(2,1)])
  qed
qed

lemma jobs_settle:
  assumes "good q" "x \<in> set (q_sending q)"
  shows "good (settle cfg now rnd x out q)"
proof -
  obtain r c where x: "x = (r, c)" by (cases x)
  let ?q1 = "q \<lparr> q_sending := remove1 (r, c) (q_sending q), q_controllers := AList.delete (id_of q r) (q_controllers q),
                 q_finishing := q_finishing q @ [r] \<rparr>"
  have co: "core cfg {} {} q" using assms(1) by (simp add: good_def)
  have r: "r < length (q_heap ?q1)" "j_status (job_of ?q1 r) = StRunning" using sending_running[OF co] assms(2) x by auto
  have a: "all_jobs J ?q1" "J r (job_of ?q1 r)" using assms(1) r(1) by (auto simp: good_def all_jobs_def)
  have "all_jobs J (interrupt_requeue r ?q1)"
  proof -
    let ?f = "\<lambda>j. j \<lparr> j_attempts := j_attempts j - 1, j_status := StPending \<rparr>"
    have h: "q_heap (interrupt_requeue r ?q1) = q_heap (set_job r ?f ?q1)" by (simp add: interrupt_requeue_def Let_def set_job_def)
    show ?thesis using all_jobs_set[OF a(1), of r ?f] J_interrupt[OF a(2) r(2)] all_jobs_heap[OF h] by simp
  qed
  moreover have "all_jobs J (succeed_job r res ?q1)" for res
  proof -
    let ?f = "\<lambda>j. j \<lparr> j_status := StSuccess \<rparr>"
    have h: "q_heap (succeed_job r res ?q1) = q_heap (set_job r ?f ?q1)" by (simp add: succeed_job_def Let_def set_job_def)
    show ?thesis using all_jobs_set[OF a(1), of r ?f] J_success[OF a(2) r(2)] all_jobs_heap[OF h] by simp
  qed
  ultimately have "all_jobs J (settle_body cfg now rnd r rs out ?q1)" for rs
    using jobs_fail[OF a r(2,1)] jobs_markCancelled[OF a] r(2)
    by (auto simp: settle_body_def Let_def split: option.splits control_reason.splits send_outcome.splits send_result.splits)
  then show ?thesis using core_settle[OF co assms(2)] by (simp add: good_def settle_def x)
qed

lemma jobs_cancel:
  assumes "good q"
  shows "good (snd (cancel now i q))"
proof -
  have co: "core cfg {} {} q" using assms by (simp add: good_def)
  obtain o1 q1 where t: "takeWaiting now i q = (o1, q1)" by fastforce
  have f: "q_heap q1 = q_heap q" using t by (auto simp: takeWaiting_def split: option.splits prod.splits)
  then have a: "all_jobs J q1" using assms by (simp add: good_def all_jobs_def)
  have "all_jobs J (snd (cancel now i q))"
  proof (cases o1)
    case None
    then show ?thesis using t a by (auto simp: cancel_def all_jobs_def split: option.splits)
  next
    case (Some r)
    with t have t': "takeWaiting now i q = (Some r, q1)" by simp
    have "r \<in> set (waitingJobs q)" by (rule takeWaiting_frame(12)[OF co t'])
    then have u: "r < length (q_heap q1)" "unstarted (job_of q1 r)"
      using waiting_mem[OF co, of r] f by (auto simp: with_status_def unstarted_def)
    then have "all_jobs J (markCancelled now r q1)" using a by (intro jobs_markCancelled) (auto simp: all_jobs_def)
    then show ?thesis by (simp add: cancel_def t' all_jobs_def)
  qed
  then show ?thesis using core_cancel[OF co] by (simp add: good_def)
qed

lemma jobs_fold_markCancelled:
  "all_jobs J q \<Longrightarrow> distinct rs \<Longrightarrow> \<forall>r \<in> set rs. r < length (q_heap q) \<and> unstarted (job_of q r) \<Longrightarrow>
   all_jobs J (fold (markCancelled now) rs q)"
proof (induction rs arbitrary: q)
  case (Cons r rs)
  have c: "all_jobs J (markCancelled now r q)" using Cons.prems by (intro jobs_markCancelled) (auto simp: all_jobs_def)
  have "job_of (markCancelled now r q) x = job_of q x" if "x \<noteq> r" for x
    using that by (simp add: markCancelled_def Let_def set_job_def)
  then have "\<forall>x \<in> set rs. x < length (q_heap (markCancelled now r q)) \<and> unstarted (job_of (markCancelled now r q) x)"
    using Cons.prems by (metis distinct.simps(2) length_heap_steps(4) list.set_intros(2))
  then show ?case using Cons.IH[OF c] Cons.prems(2) by simp
qed simp

lemma jobs_cancelAll:
  assumes "good q"
  shows "good (snd (cancelAll now q))"
proof -
  have co: "core cfg {} {} q" using assms by (simp add: good_def)
  let ?q1 = "armSchedule now (q \<lparr> q_pending := (\<lambda>_. []), q_scheduled := [] \<rparr>)"
  have c1: "all_jobs J ?q1" using assms by (simp add: good_def all_jobs_def)
  have "\<forall>r \<in> set (waitingJobs q). r < length (q_heap ?q1) \<and> unstarted (job_of ?q1 r)"
  proof
    fix r assume "r \<in> set (waitingJobs q)"
    then have "r \<in> with_status (q_heap q) StPending \<or> r \<in> with_status (q_heap q) StScheduled" using waiting_mem[OF co] by blast
    then show "r < length (q_heap ?q1) \<and> unstarted (job_of ?q1 r)" by (auto simp: with_status_def unstarted_def)
  qed
  then have "all_jobs J (fold (markCancelled now) (waitingJobs q) ?q1)"
    by (rule jobs_fold_markCancelled[OF c1 distinct_waiting[OF co]])
  then show ?thesis using core_cancelAll[OF co, of now] by (simp add: good_def cancelAll_def Let_def all_jobs_def)
qed

lemma jobs_sd_close: "good q \<Longrightarrow> good (snd (sd_close now s q))"
proof -
  assume g: "good q"
  have "good (q \<lparr> q_paused := True, q_closed := True \<rparr>)" using g by (simp add: good_def core_frames all_jobs_def)
  then show ?thesis by (simp add: sd_close_def Let_def jobs_cancelAll)
qed

lemma jobs_resume: "good q \<Longrightarrow> good (resume cfg now q)"
proof -
  assume g: "good q"
  have "good (q \<lparr> q_paused := False \<rparr>)" using g by (simp add: good_def core_frames all_jobs_def)
  then show ?thesis using g by (simp add: resume_def jobs_tick)
qed

lemma jobs_step:
  assumes "good q" "ok q op"
  shows "good (q_step cfg q op)"
proof -
  have o1: "q_ok q op" using assms(2) by (simp add: ok_def)
  have cc: "core cfg {} {} (q_step cfg q op)" using assms(1) o1 core_step by (simp add: good_def)
  show ?thesis
  proof (cases op)
    case (OpSetSendFn now)
    have "good (q \<lparr> q_sendFn := True \<rparr>)" using assms(1) by (simp add: good_def core_frames all_jobs_def)
    then show ?thesis using OpSetSendFn by (simp add: setSendFn_def jobs_tick)
  next
    case (OpEnqueue now i tok opts eo)
    have "fresh_id (or_default (eo_id eo) i) q" using o1 OpEnqueue by simp
    with assms(1) show ?thesis unfolding OpEnqueue q_step.simps
    proof (rule enqueue_keeps)
      show "good (q \<lparr> q_idempotent := im \<rparr>)" for im using assms(1) by (simp add: good_def core_frames all_jobs_def)
    next
      fix q' j q1
      assume a: "good q'" "q_heap q' = q_heap q" "fresh_id (j_id j) q'" "alloc_of q' j q1" "j_attempts j = 0" "j_errors j = []"
        "j_status j \<in> {StPending, StScheduled}"
      then have "unstarted j" by (auto simp: unstarted_def)
      have "first \<le> length (q_heap q')" using assms(2) OpEnqueue a(2) by (simp add: ok_def)
      then show "good (place cfg now (length (q_heap q')) q1)" using a J_new \<open>unstarted j\<close> by (intro jobs_place) auto
    qed
  next
    case (OpRestore now job)
    have f: "fresh_id (j_id job) q" "j_status job \<in> {StPending, StScheduled, StRunning}" "J (length (q_heap q)) (restored job)"
      using assms(2) OpRestore by (auto simp: ok_def)
    from assms(1) f(1) show ?thesis unfolding OpRestore q_step.simps
    proof (rule restore_keeps)
      fix j q1 assume a: "fresh_id (j_id j) q" "alloc_of q j q1"
      assume j: "j = (if j_status job = StRunning then job \<lparr> j_status := StPending \<rparr> else job)"
      have "J (length (q_heap q)) j" "unstarted j" using f(2,3) by (auto simp: j restored_def unstarted_def)
      then show "good (place cfg now (length (q_heap q)) q1)" by (rule jobs_place[OF assms(1) a])
    qed
  next
    case (OpFinish now r)
    have "good (q \<lparr> q_finishing := remove1 r (q_finishing q), q_running := AList.delete (id_of q r) (q_running q) \<rparr>)"
      using assms(1) by (simp add: good_def core_frames all_jobs_def)
    then have "good (tick cfg now (q \<lparr> q_finishing := remove1 r (q_finishing q), q_running := AList.delete (id_of q r) (q_running q) \<rparr>))"
      by (rule jobs_tick)
    then show ?thesis using OpFinish cc by (simp add: finish_def good_def all_jobs_def)
  next
    case (OpSettle now rnd x out)
    then show ?thesis using jobs_settle[OF assms(1)] o1 by simp
  next
    case (OpSdStart now so)
    then show ?thesis using jobs_resume[OF assms(1)] jobs_sd_close[OF assms(1)] by (auto simp: sd_start_def Let_def)
  next
    case (OpSdCheck now s)
    have "q_heap (snd (sd_finish s q)) = q_heap q" by (simp add: sd_finish_def Let_def)
    then show ?thesis using OpSdCheck cc jobs_sd_close[OF assms(1), of now s] assms(1)
      by (auto simp: sd_check_def interruptAll_def control_frame good_def all_jobs_def split: sd_phase.splits)
  next
    case OpDrain
    then show ?thesis using assms(1) cc by (auto simp: drain_def good_def all_jobs_def split: if_splits)
  qed (use assms(1) cc in \<open>simp_all add: jobs_promoteDue jobs_resume jobs_cancel jobs_cancelAll\<close>,
      simp_all add: pause_def interrupt_def interruptAll_def abort_job_def abortAll_def control_frame good_def all_jobs_def)
qed

lemma jobs_run: "legal_run (q_step cfg) ok new_queue ops \<Longrightarrow> all_jobs J (run (q_step cfg) new_queue ops)"
proof -
  have "good q \<Longrightarrow> legal_run (q_step cfg) ok q ops \<Longrightarrow> good (run (q_step cfg) q ops)" for q
    by (induction ops arbitrary: q) (auto intro: jobs_step)
  moreover have "good new_queue" by (simp add: good_def core_init) (simp add: all_jobs_def new_queue_def)
  ultimately show "legal_run (q_step cfg) ok new_queue ops \<Longrightarrow> all_jobs J (run (q_step cfg) new_queue ops)"
    by (simp add: good_def)
qed

end

section \<open>Attempts and errors\<close>

text \<open>
  With a dead-letter queue and a retry limit n, a job waits with at most n attempts behind
  it, is sent with at most n + 1, and carries at most one error per attempt; a dead job
  carries at least one.
\<close>

definition attempts_ok :: "queue_cfg \<Rightarrow> q_job \<Rightarrow> bool" where
  "attempts_ok cfg j \<longleftrightarrow> (qc_dlEnabled cfg \<and> 0 \<le> rp_maxRetries (qc_policy cfg) \<longrightarrow>
     (case j_status j of
        StPending \<Rightarrow> 0 \<le> j_attempts j \<and> j_attempts j \<le> rp_maxRetries (qc_policy cfg) \<and> int (length (j_errors j)) \<le> j_attempts j
      | StScheduled \<Rightarrow> 0 \<le> j_attempts j \<and> j_attempts j \<le> rp_maxRetries (qc_policy cfg) \<and> int (length (j_errors j)) \<le> j_attempts j
      | StRunning \<Rightarrow> 1 \<le> j_attempts j \<and> j_attempts j \<le> rp_maxRetries (qc_policy cfg) + 1 \<and> int (length (j_errors j)) < j_attempts j
      | StSuccess \<Rightarrow> 1 \<le> j_attempts j \<and> j_attempts j \<le> rp_maxRetries (qc_policy cfg) + 1 \<and> int (length (j_errors j)) < j_attempts j
      | StDead \<Rightarrow> 1 \<le> j_attempts j \<and> j_attempts j \<le> rp_maxRetries (qc_policy cfg) + 1 \<and> j_errors j \<noteq> [] \<and> int (length (j_errors j)) \<le> j_attempts j
      | StCancelled \<Rightarrow> 0 \<le> j_attempts j \<and> j_attempts j \<le> rp_maxRetries (qc_policy cfg) + 1))"

interpretation att: job_inv cfg "\<lambda>r. attempts_ok cfg" 0 for cfg
  by unfold_locales
     (auto simp: attempts_ok_def unstarted_def dest: shouldRetry_within)

text \<open>Runs whose restored jobs, if any, respect the bound.\<close>

definition bounded_ok :: "queue_cfg \<Rightarrow> mail_queue \<Rightarrow> q_op \<Rightarrow> bool" where
  "bounded_ok cfg q op \<longleftrightarrow> q_ok q op \<and> (case op of OpRestore now job \<Rightarrow> attempts_ok cfg (restored job) | _ \<Rightarrow> True)"

lemma bounded_run:
  assumes "legal_run (q_step cfg) (bounded_ok cfg) new_queue ops"
  shows "all_jobs (\<lambda>r. attempts_ok cfg) (run (q_step cfg) new_queue ops)"
proof -
  have "att.ok cfg q op = bounded_ok cfg q op" for q op
    by (cases op) (simp_all add: att.ok_def bounded_ok_def)
  then have "att.ok cfg = bounded_ok cfg" by blast
  then show ?thesis using att.jobs_run[of cfg ops] assms by simp
qed

section \<open>Jobs that have ended\<close>

text \<open>Sent, cancelled and dead jobs are never changed again.\<close>

definition ended :: "q_job \<Rightarrow> bool" where
  "ended j \<longleftrightarrow> j_status j = StSuccess \<or> j_status j = StCancelled \<or> j_status j = StDead"

definition kept_from :: "q_job list \<Rightarrow> nat \<Rightarrow> q_job \<Rightarrow> bool" where
  "kept_from h r j \<longleftrightarrow> (r < length h \<and> ended (h ! r) \<longrightarrow> j = h ! r)"

interpretation fin: job_inv cfg "kept_from h" "length h" for cfg h
  by unfold_locales (auto simp: kept_from_def ended_def unstarted_def)

lemma ended_step:
  assumes "core cfg {} {} q" "q_ok q op" "r < length (q_heap q)" "ended (job_of q r)"
    "r < length (q_heap (q_step cfg q op))"
  shows "job_of (q_step cfg q op) r = job_of q r"
proof -
  have "fin.good cfg (q_heap q) q" using assms(1) by (simp add: fin.good_def all_jobs_def kept_from_def)
  moreover have "fin.ok (q_heap q) q op" using assms(2) by (cases op) (simp_all add: fin.ok_def kept_from_def)
  ultimately have "fin.good cfg (q_heap q) (q_step cfg q op)" by (rule fin.jobs_step)
  then show ?thesis using assms(3-5) by (auto simp: fin.good_def all_jobs_def kept_from_def)
qed

end
