(* ===== verification/MailQueueStats.thy ===== *)
theory MailQueueStats
  imports MailQueueJobs
begin

text \<open>
  The dead-letter queue against the jobs: its entries are dead jobs under their own ids, each
  once.  A dead job leaves it only when a later add collects those older than the maximal age.
  With the counters of MailQueueCount this says what stats() reports.
\<close>

section \<open>Ids and the dead-letter queue of a step\<close>

lemma ids_place [simp]: "q_ids (place cfg now r q) = q_ids q"
  by (cases rule: place_cases[of q r cfg now]) (simp_all add: placed_def ids_set_job)

lemma dlq_place [simp]: "q_dlq (place cfg now r q) = q_dlq q"
  by (cases rule: place_cases[of q r cfg now]) (simp_all add: placed_def)

lemma ids_enqueue_new: "\<exists>xs. q_ids (snd (enqueue_new cfg now job q)) = q_ids q @ xs"
  and dlq_enqueue_new: "q_dlq (snd (enqueue_new cfg now job q)) = q_dlq q"
  by (auto simp: enqueue_new_def Let_def split: option.splits)

lemma findIdempotent_frame: "q_dlq (snd (findIdempotent now k q)) = q_dlq q"
  by (auto simp: findIdempotent_def Let_def split: option.splits)

lemma ids_enqueue: "\<exists>xs. q_ids (snd (enqueue cfg now i tok opts eo q)) = q_ids q @ xs"
  and dlq_enqueue: "q_dlq (snd (enqueue cfg now i tok opts eo q)) = q_dlq q"
proof -
  obtain e q1 where e: "(case eo_idempotencyKey eo of None \<Rightarrow> (None, q) | Some k \<Rightarrow> findIdempotent now k q) = (e, q1)" by fastforce
  then have f: "q_heap q1 = q_heap q" "q_dlq q1 = q_dlq q"
    using findIdempotent_heap[of now _ q] findIdempotent_frame[of now _ q] by (auto split: option.splits simp: prod_eq_iff)
  show "\<exists>xs. q_ids (snd (enqueue cfg now i tok opts eo q)) = q_ids q @ xs"
    using e f(1) ids_enqueue_new[of cfg now _ q1] by (auto simp: enqueue_def split: option.splits)
  show "q_dlq (snd (enqueue cfg now i tok opts eo q)) = q_dlq q"
    using e f(2) by (auto simp: enqueue_def dlq_enqueue_new split: option.splits)
qed

lemma promote_list_dlq: "q_dlq (promote_list now es q) = q_dlq q"
  unfolding promote_list_def by (induction es arbitrary: q) (auto simp: split_def)

lemma fold_mark_frame: "q_ids (fold (markCancelled now) rs q) = q_ids q" "q_dlq (fold (markCancelled now) rs q) = q_dlq q"
  by (induction rs arbitrary: q) auto

lemma cancelAll_ids: "q_ids (snd (cancelAll now q)) = q_ids q" "q_dlq (snd (cancelAll now q)) = q_dlq q"
  by (simp_all add: cancelAll_def Let_def fold_mark_frame)

lemma cancel_ids: "q_ids (snd (cancel now i q)) = q_ids q" "q_dlq (snd (cancel now i q)) = q_dlq q"
  by (auto simp: cancel_def takeWaiting_def split: option.splits prod.splits)

lemma trigger_ids: "q_heap (fold (trigger_ctrl rs) cs q) = q_heap q" "q_dlq (fold (trigger_ctrl rs) cs q) = q_dlq q"
  by (induction cs arbitrary: q) auto

lemma control_ids: "q_heap (snd (control_one rs i q)) = q_heap q" "q_heap (snd (control_all rs q)) = q_heap q"
  "q_dlq (snd (control_one rs i q)) = q_dlq q" "q_dlq (snd (control_all rs q)) = q_dlq q"
  by (auto simp: control_one_def control_all_def trigger_ids split: option.splits)

lemma sd_ids: "q_ids (snd (sd_close now s q)) = q_ids q" "q_dlq (snd (sd_close now s q)) = q_dlq q"
  "q_ids (snd (sd_finish s q)) = q_ids q" "q_dlq (snd (sd_finish s q)) = q_dlq q"
  by (simp_all add: sd_close_def sd_finish_def Let_def cancelAll_ids)

text \<open>Jobs keep their ids, new ones are added behind; only the end of an attempt adds to the
  dead-letter queue.\<close>

lemma step_ids: "\<exists>xs. q_ids (q_step cfg q op) = q_ids q @ xs"
proof (cases op)
  case (OpEnqueue now i tok opts eo)
  then show ?thesis using ids_enqueue by simp
next
  case (OpSettle now rnd x out)
  then show ?thesis by (cases x) (simp add: settle_def)
next
  case (OpRestore now job)
  then show ?thesis by (auto simp: restore_def Let_def)
next
  case (OpSdCheck now s)
  then show ?thesis by (auto simp: sd_check_def sd_ids interruptAll_def control_ids split: sd_phase.splits)
next
  case (OpSdStart now so)
  then show ?thesis by (auto simp: sd_start_def Let_def sd_ids resume_def)
qed (simp_all add: setSendFn_def promoteDue_def finish_def resume_def pause_def drain_def cancel_ids cancelAll_ids
    interrupt_def interruptAll_def abort_job_def abortAll_def control_ids)

lemma step_dlq:
  assumes "\<And>now rnd x out. op \<noteq> OpSettle now rnd x out"
  shows "q_dlq (q_step cfg q op) = q_dlq q"
proof (cases op)
  case (OpRestore now job)
  then show ?thesis by (auto simp: restore_def Let_def)
next
  case (OpSdCheck now s)
  then show ?thesis by (auto simp: sd_check_def sd_ids interruptAll_def control_ids split: sd_phase.splits)
next
  case (OpSdStart now so)
  then show ?thesis by (auto simp: sd_start_def Let_def sd_ids resume_def)
qed (use assms in \<open>simp_all add: setSendFn_def promoteDue_def promote_list_dlq finish_def resume_def pause_def drain_def dlq_enqueue
    cancel_ids cancelAll_ids interrupt_def interruptAll_def abort_job_def abortAll_def control_ids\<close>)

lemma dlq_settle:
  assumes "r < length (q_heap q)"
  shows "q_dlq (settle cfg now rnd (r, c) out q) = q_dlq q \<or>
    (j_status (job_of (settle cfg now rnd (r, c) out q) r) = StDead \<and>
     (\<exists>h. q_dlq (settle cfg now rnd (r, c) out q) = dlq_gc (qc_dlMaxAge cfg) now h (AList.update (id_of q r) r (q_dlq q))))"
proof -
  let ?q1 = "q \<lparr> q_sending := remove1 (r, c) (q_sending q), q_controllers := AList.delete (id_of q r) (q_controllers q),
                 q_finishing := q_finishing q @ [r] \<rparr>"
  have a: "q_dlq (dlq_add cfg now r q') = q_dlq q' \<or> (j_status (job_of (dlq_add cfg now r q') r) = StDead \<and>
      (\<exists>h. q_dlq (dlq_add cfg now r q') = dlq_gc (qc_dlMaxAge cfg) now h (AList.update (id_of q' r) r (q_dlq q'))))"
    if "r < length (q_heap q')" for q'
    using that by (auto simp: dlq_add_def Let_def set_job_def)
  have f: "q_dlq (fail_job cfg now rnd e r ?q1) = q_dlq q \<or> (j_status (job_of (fail_job cfg now rnd e r ?q1) r) = StDead \<and>
      (\<exists>h. q_dlq (fail_job cfg now rnd e r ?q1) = dlq_gc (qc_dlMaxAge cfg) now h (AList.update (id_of q r) r (q_dlq q))))" for e
    using a[of "set_job r (\<lambda>j. j \<lparr> j_errors := j_errors j @ [e] \<rparr>) ?q1"] assms
    by (simp add: fail_job_def Let_def) (simp add: retry_job_def Let_def set_job_def)
  have "q_dlq (settle_body cfg now rnd r rs out ?q1) = q_dlq q \<or> (j_status (job_of (settle_body cfg now rnd r rs out ?q1) r) = StDead \<and>
      (\<exists>h. q_dlq (settle_body cfg now rnd r rs out ?q1) = dlq_gc (qc_dlMaxAge cfg) now h (AList.update (id_of q r) r (q_dlq q))))" for rs
    using f by (auto simp: settle_body_def Let_def split: option.splits control_reason.splits send_outcome.splits send_result.splits)
  then show ?thesis by (simp add: settle_def)
qed

section \<open>Its entries\<close>

definition dlq_ok :: "mail_queue \<Rightarrow> bool" where
  "dlq_ok q \<longleftrightarrow> distinct (jskeys (q_dlq q)) \<and>
     (\<forall>(i, r) \<in> set (q_dlq q). r < length (q_heap q) \<and> j_status (job_of q r) = StDead \<and> id_of q r = i)"

definition letters_ok :: "queue_cfg \<Rightarrow> mail_queue \<Rightarrow> bool" where
  "letters_ok cfg q \<longleftrightarrow> core cfg {} {} q \<and> dlq_ok q"

lemma entry_step:
  assumes "core cfg {} {} q" "q_ok q op" "r < length (q_heap q)" "j_status (job_of q r) = StDead" "id_of q r = i"
  shows "r < length (q_heap (q_step cfg q op)) \<and> j_status (job_of (q_step cfg q op) r) = StDead \<and> id_of (q_step cfg q op) r = i"
proof -
  obtain xs where "q_ids (q_step cfg q op) = q_ids q @ xs" using step_ids by blast
  then have "length (q_heap q) \<le> length (q_heap (q_step cfg q op))" by (metis length_append length_map le_add1)
  then show ?thesis using ended_step[OF assms(1-3)] assms(3-5) by (simp add: ended_def)
qed

lemma dlq_ok_step:
  assumes "core cfg {} {} q" "dlq_ok q" "q_ok q op"
  shows "dlq_ok (q_step cfg q op)"
proof (cases "\<exists>now rnd x out. op = OpSettle now rnd x out")
  case False
  then have "q_dlq (q_step cfg q op) = q_dlq q" by (intro step_dlq) blast
  then show ?thesis using assms(2) entry_step[OF assms(1,3)] by (auto simp: dlq_ok_def split: prod.splits)
next
  case True
  then obtain now rnd r c out where op: "op = OpSettle now rnd (r, c) out" by auto
  have r: "r < length (q_heap q)" using sending_running[OF assms(1)] assms(3) op by simp
  let ?q = "settle cfg now rnd (r, c) out q"
  have old: "x < length (q_heap ?q) \<and> j_status (job_of ?q x) = StDead \<and> id_of ?q x = i" if "(i, x) \<in> set (q_dlq q)" for i x
    using entry_step[OF assms(1,3), of x i] that assms(2) op unfolding dlq_ok_def by auto
  from dlq_settle[OF r, of cfg now rnd c out] have "dlq_ok ?q"
  proof (elim disjE conjE exE)
    assume "q_dlq ?q = q_dlq q"
    then show ?thesis using old assms(2) by (auto simp: dlq_ok_def)
  next
    fix h assume d: "j_status (job_of ?q r) = StDead" "q_dlq ?q = dlq_gc (qc_dlMaxAge cfg) now h (AList.update (id_of q r) r (q_dlq q))"
    have ids: "q_ids ?q = q_ids q" by (simp add: settle_def)
    then have l: "length (q_heap ?q) = length (q_heap q)" by (rule ids_length)
    then have me: "id_of ?q r = id_of q r" using ids r by (metis id_of_ids)
    have mem: "(i, x) = (k, v) \<or> (i, x) \<in> set m" if "(i, x) \<in> set (AList.update k v m)" for i x k v and m :: "(string, nat) jsmap"
      using that by (induction m) (auto split: if_splits)
    have "distinct (jskeys (q_dlq ?q))" using assms(2) unfolding d(2) dlq_gc_def
      by (intro distinct_map_filter) (simp add: dlq_ok_def distinct_keys_update)
    moreover have "\<forall>(i, x) \<in> set (q_dlq ?q). x < length (q_heap ?q) \<and> j_status (job_of ?q x) = StDead \<and> id_of ?q x = i"
      using old d(1) r l me unfolding d(2) dlq_gc_def by (auto dest!: mem)
    ultimately show ?thesis by (simp add: dlq_ok_def)
  qed
  then show ?thesis by (simp add: op)
qed

interpretation mql: machine "q_step cfg" q_ok "letters_ok cfg" for cfg
  by unfold_locales (simp add: letters_ok_def core_step dlq_ok_step)

lemma reachable_dlq_ok: "q_reachable cfg q \<Longrightarrow> dlq_ok q"
proof -
  have "letters_ok cfg new_queue" by (simp add: letters_ok_def core_init dlq_ok_def) (simp add: new_queue_def)
  then show "q_reachable cfg q \<Longrightarrow> dlq_ok q" using mql.inv_run by (auto simp: q_reachable_def letters_ok_def)
qed

text \<open>The dead jobs the dead-letter queue still holds.\<close>

definition held_dead :: "mail_queue \<Rightarrow> nat set" where
  "held_dead q = {r. r < length (q_heap q) \<and> j_status (job_of q r) = StDead \<and> map_of (q_dlq q) (id_of q r) = Some r}"

lemma dlq_size: "dlq_ok q \<Longrightarrow> length (q_dlq q) = card (held_dead q)"
proof -
  assume d: "dlq_ok q"
  then have "set (jsvals (q_dlq q)) = held_dead q"
    by (force simp: dlq_ok_def held_dead_def map_of_eq_Some_iff)
  moreover have "inj_on snd (set (q_dlq q))"
  proof (rule inj_onI)
    fix x y assume "x \<in> set (q_dlq q)" "y \<in> set (q_dlq q)" "snd x = snd y"
    moreover have "\<forall>p \<in> set (q_dlq q). fst p = id_of q (snd p)" using d by (auto simp: dlq_ok_def)
    ultimately show "x = y" by (simp add: prod_eq_iff)
  qed
  then have "distinct (jsvals (q_dlq q))" using d by (simp add: dlq_ok_def distinct_map)
  ultimately show ?thesis using distinct_card[of "jsvals (q_dlq q)"] by simp
qed

section \<open>Pending, scheduled and running jobs\<close>

text \<open>Without interrupts the running map has the jobs in flight and those about to call back.\<close>

lemma running_tracked:
  assumes "calm cfg q" "r < length (q_heap q)"
  shows "map_of (q_running q) (id_of q r) = Some r \<longleftrightarrow> r \<in> set (map fst (q_sending q)) \<union> set (q_finishing q)"
proof -
  let ?F = "set (map fst (q_sending q)) \<union> set (q_finishing q)"
  have b: "core cfg {} {} q" "run_ok cfg q" "tracked q" using assms(1) by (auto simp: calm_def book_def)
  have l: "y < length (q_heap q)" if "y \<in> ?F" for y
    using that b by (auto simp: tracked_def core_def send_ok_def dest: with_status_less)
  have k: "set (jskeys (q_running q)) = (\<lambda>r. q_ids q ! r) ` ?F" using b(3) by (simp add: tracked_def)
  have e: "x = r" if m: "(id_of q r, x) \<in> set (q_running q)" for x
  proof -
    have "x < length (q_heap q)" "q_ids q ! x = id_of q r" using m b(2) by (auto simp: run_ok_def)
    then show ?thesis using core_ids[OF b(1), of x r] assms(2) by simp
  qed
  show ?thesis
  proof
    assume "map_of (q_running q) (id_of q r) = Some r"
    then have "id_of q r \<in> set (jskeys (q_running q))" by (force dest: map_of_SomeD)
    then obtain y where "y \<in> ?F" "id_of q r = q_ids q ! y" using k by auto
    then show "r \<in> ?F" using core_ids[OF b(1), of r y] l assms(2) by auto
  next
    assume "r \<in> ?F"
    then have "id_of q r \<in> set (jskeys (q_running q))" unfolding k using assms(2) by (auto intro!: image_eqI[of _ _ r])
    then obtain x where x: "(id_of q r, x) \<in> set (q_running q)" by auto
    then show "map_of (q_running q) (id_of q r) = Some r" using e[OF x] b(2) by (simp add: run_ok_def)
  qed
qed

lemma jobs_in_card: "jobs_in s q = card (with_status (q_heap q) s)"
  by (simp add: jobs_in_def length_filter_conv_card with_status_def)

lemma waiting_counts:
  assumes "core cfg {} {} q"
  shows "pendingCount q = jobs_in StPending q" "length (q_scheduled q) = jobs_in StScheduled q"
    "length (q_sending q) \<le> jobs_in StRunning q" "qc_dlEnabled cfg \<Longrightarrow> length (q_sending q) = jobs_in StRunning q"
proof -
  show "pendingCount q = jobs_in StPending q"
    using distinct_card[OF distinct_pending_refs[OF assms]] pending_set[OF assms] by (simp add: pendingCount_refs jobs_in_card)
  show "length (q_scheduled q) = jobs_in StScheduled q"
    using distinct_card[OF distinct_sched_vals[OF assms]] scheduled_set[OF assms] by (simp add: jobs_in_card)
  have d: "length (q_sending q) = card (set (map fst (q_sending q)))"
    using distinct_card[of "map fst (q_sending q)"] assms by (simp add: core_def send_ok_def)
  have s: "set (map fst (q_sending q)) \<subseteq> with_status (q_heap q) StRunning" using assms by (auto simp: core_def send_ok_def)
  moreover have "finite (with_status (q_heap q) StRunning)" by (simp add: with_status_def)
  ultimately show "length (q_sending q) \<le> jobs_in StRunning q" unfolding d jobs_in_card by (intro card_mono)
  assume "qc_dlEnabled cfg"
  then have "set (map fst (q_sending q)) = with_status (q_heap q) StRunning" using s assms by (auto simp: core_def send_ok_def)
  then show "length (q_sending q) = jobs_in StRunning q" unfolding d jobs_in_card by simp
qed

lemma jobs_split:
  "length (q_heap q) = jobs_in StPending q + jobs_in StScheduled q + jobs_in StRunning q + jobs_in StSuccess q +
     jobs_in StCancelled q + jobs_in StDead q"
proof -
  have split6: "length h = length (List.filter (\<lambda>j. j_status j = StPending) h) + length (List.filter (\<lambda>j. j_status j = StScheduled) h) +
      length (List.filter (\<lambda>j. j_status j = StRunning) h) + length (List.filter (\<lambda>j. j_status j = StSuccess) h) +
      length (List.filter (\<lambda>j. j_status j = StCancelled) h) + length (List.filter (\<lambda>j. j_status j = StDead) h)" for h :: "q_job list"
  proof (induction h)
    case (Cons j h)
    then show ?case by (cases "j_status j") simp_all
  qed simp
  show ?thesis using split6[of "q_heap q"] by (simp add: jobs_in_def)
qed

end
