(* ===== verification/MailQueueProps.thy ===== *)
theory MailQueueProps
  imports MailQueueStats
begin

text \<open>
  The properties of the send queue, each with a concrete run that shows its hypotheses can
  hold.  The proofs apply the invariants of the component theories.
\<close>

section \<open>Concrete runs\<close>

definition demo_queue_options :: queue_options where
  "demo_queue_options = \<lparr> qo_concurrency = Some 2, qo_maxRetries = Some 1, qo_retryDelay = None, qo_maxRetryDelay = None,
     qo_retryBackoff = None, qo_jitter = None, qo_jobTimeout = None, qo_dlEnabled = None, qo_dlMaxAge = None,
     qo_defaultPriority = None, qo_idempotencyWindowMs = None, qo_rateLimit = None \<rparr>"

definition demo_cfg :: queue_cfg where
  "demo_cfg = new_queue_cfg demo_queue_options False"

definition demo_mail :: email_options where
  "demo_mail = \<lparr> o_from = OneAddr (AddrStr ''a@x.org''), o_to = OneAddr (AddrStr ''b@y.org''), o_cc = NoAddr, o_bcc = NoAddr,
     o_subject = None, o_text = None, o_html = None, o_messageId = Some ''<1@x.org>'' \<rparr>"

definition demo_enq :: "int \<Rightarrow> string \<Rightarrow> q_op" where
  "demo_enq now i = OpEnqueue now i ''t'' demo_mail \<lparr> eo_priority = None, eo_sendAt = None, eo_id = None, eo_idempotencyKey = None \<rparr>"

text \<open>Three jobs on two slots; the first attempt fails and is to be retried.\<close>

definition demo_ops :: "q_op list" where
  "demo_ops = [OpSetSendFn 0, demo_enq 0 ''a'', demo_enq 0 ''b'', demo_enq 0 ''c'',
     OpSettle 5 (1/2) (0, 0) (Rejected (ThrownOther ''net'')), OpFinish 5 0]"

definition demo_state :: mail_queue where
  "demo_state = run (q_step demo_cfg) new_queue demo_ops"

lemma demo_calm: "legal_run (q_step demo_cfg) calm_ok new_queue demo_ops"
  by code_simp

lemma demo_legal: "legal_run (q_step demo_cfg) q_ok new_queue demo_ops"
  by code_simp

lemma reachable_run: "legal_run (q_step cfg) q_ok new_queue ops \<Longrightarrow> q_reachable cfg (run (q_step cfg) new_queue ops)"
  by (auto simp: q_reachable_def)

lemma calm_reachable_run: "legal_run (q_step cfg) calm_ok new_queue ops \<Longrightarrow> calm_reachable cfg (run (q_step cfg) new_queue ops)"
  by (auto simp: calm_reachable_def)

lemma demo_reachable: "q_reachable demo_cfg demo_state"
  unfolding demo_state_def by (rule reachable_run[OF demo_legal])

lemma demo_calm_reachable: "calm_reachable demo_cfg demo_state"
  unfolding demo_state_def by (rule calm_reachable_run[OF demo_calm])

lemma demo_dl: "qc_dlEnabled demo_cfg" by code_simp

section \<open>No job is lost\<close>

text \<open>C1: In every reachable queue a job is in the tier of its priority exactly when it is pending
  and in the scheduled map exactly when it is scheduled; a job whose send attempt is in flight
  (between the start of execute and the settling of the send) is running, and with the
  dead-letter queue enabled every running job is in flight; no job is waiting or in flight twice.
  While nobody interrupts a job of an open queue, the running map holds exactly the jobs in
  flight and those whose attempt has settled but whose finally callback is still to come.\<close>

theorem every_job_in_its_place:
  assumes "q_reachable cfg q" "r < length (q_heap q)"
  shows "(r \<in> set (q_pending q p) \<longleftrightarrow> j_status (job_of q r) = StPending \<and> j_priority (job_of q r) = p) \<and>
    (map_of (q_scheduled q) (id_of q r) = Some r \<longleftrightarrow> j_status (job_of q r) = StScheduled) \<and>
    (r \<in> set (map fst (q_sending q)) \<longrightarrow> j_status (job_of q r) = StRunning) \<and>
    (qc_dlEnabled cfg \<and> j_status (job_of q r) = StRunning \<longrightarrow> r \<in> set (map fst (q_sending q))) \<and>
    distinct (waitingJobs q @ map fst (q_sending q)) \<and>
    (calm_reachable cfg q \<longrightarrow> (map_of (q_running q) (id_of q r) = Some r \<longleftrightarrow> r \<in> set (map fst (q_sending q)) \<union> set (q_finishing q)))"
proof -
  have c: "core cfg {} {} q" by (rule reachable_core[OF assms(1)])
  have p: "r \<in> set (q_pending q p) \<longleftrightarrow> j_status (job_of q r) = StPending \<and> j_priority (job_of q r) = p"
    using c assms(2) by (simp add: core_def pend_ok_def with_status_def)
  have s: "map_of (q_scheduled q) (id_of q r) = Some r \<longleftrightarrow> j_status (job_of q r) = StScheduled"
    using sched_map_of[of "{}" "q_heap q" "q_scheduled q" "id_of q r" r] c assms(2) by (simp add: core_def with_status_def)
  have a: "y \<in> with_status (q_heap q) StRunning" if "y \<in> set (map fst (q_sending q))" for y
    using c that by (auto simp: core_def send_ok_def)
  have b: "r \<in> set (map fst (q_sending q))" if "qc_dlEnabled cfg" "j_status (job_of q r) = StRunning"
    using c that assms(2) by (auto simp: core_def send_ok_def with_status_def)
  have "set (waitingJobs q) \<inter> set (map fst (q_sending q)) = {}"
    using waiting_mem[OF c] a by (fastforce simp: with_status_def)
  then have d: "distinct (waitingJobs q @ map fst (q_sending q))"
    using distinct_waiting[OF c] c by (simp add: core_def send_ok_def)
  have "map_of (q_running q) (id_of q r) = Some r \<longleftrightarrow> r \<in> set (map fst (q_sending q)) \<union> set (q_finishing q)" if "calm_reachable cfg q"
    by (rule running_tracked[OF calm_reachable_calm[OF that] assms(2)])
  then show ?thesis using p s a[of r] b d by (auto simp: with_status_def)
qed

lemma every_job_in_its_place_witness:
  "j_status (job_of demo_state 0) = StScheduled \<and> 1 \<in> set (map fst (q_sending demo_state)) \<and>
   map_of (q_running demo_state) (id_of demo_state 1) = Some 1"
proof -
  have "0 < length (q_heap demo_state)" "1 < length (q_heap demo_state)" by code_simp+
  note p = every_job_in_its_place[OF demo_reachable this(1), of Normal] every_job_in_its_place[OF demo_reachable this(2), of Normal]
  have "j_status (job_of demo_state 0) = StScheduled" "j_status (job_of demo_state 1) = StRunning" by code_simp+
  then show ?thesis using p demo_dl demo_calm_reachable by simp
qed

text \<open>C2: stats() reports what there is, in every reachable queue: pending, scheduled, succeeded and
  cancelled are the numbers of jobs with that status, dead is the number of dead jobs the
  dead-letter queue still holds, and, while nobody interrupts a job of an open queue, running is
  the number of attempts in flight plus those whose finally callback is still to come.  With the
  dead-letter queue enabled the jobs ever accepted are the pending, scheduled, in flight,
  succeeded, cancelled and dead ones.\<close>

theorem stats_account_for_every_job:
  assumes "q_reachable cfg q"
  shows "st_pending (stats q) = jobs_in StPending q \<and> st_scheduled (stats q) = jobs_in StScheduled q \<and>
    st_succeeded (stats q) = jobs_in StSuccess q \<and> st_cancelled (stats q) = jobs_in StCancelled q \<and>
    st_dead (stats q) = card (held_dead q) \<and>
    (calm_reachable cfg q \<longrightarrow> st_running (stats q) = length (q_sending q) + length (q_finishing q)) \<and>
    (qc_dlEnabled cfg \<longrightarrow> length (q_heap q) = st_pending (stats q) + st_scheduled (stats q) + length (q_sending q) +
       st_succeeded (stats q) + st_cancelled (stats q) + jobs_in StDead q)"
proof -
  have c: "core cfg {} {} q" by (rule reachable_core[OF assms])
  have "counts q" by (rule reachable_counts[OF assms])
  then have n: "nat (q_succeeded q) = jobs_in StSuccess q" "nat (q_cancelled q) = jobs_in StCancelled q" by (simp_all add: counts_def)
  have "length (q_dlq q) = card (held_dead q)" by (rule dlq_size[OF reachable_dlq_ok[OF assms]])
  moreover have "length (q_running q) = length (q_sending q) + length (q_finishing q)" if "calm_reachable cfg q"
    using calm_count[OF calm_reachable_calm[OF that]] by simp
  ultimately show ?thesis using n waiting_counts[OF c] jobs_split[of q] by (auto simp: stats_def)
qed

lemma stats_account_for_every_job_witness:
  "st_scheduled (stats demo_state) = jobs_in StScheduled demo_state \<and>
   st_running (stats demo_state) = length (q_sending demo_state) + length (q_finishing demo_state) \<and>
   (3::nat) = st_pending (stats demo_state) + st_scheduled (stats demo_state) + length (q_sending demo_state) +
     st_succeeded (stats demo_state) + st_cancelled (stats demo_state) + jobs_in StDead demo_state"
proof -
  have "length (q_heap demo_state) = 3" by code_simp
  then show ?thesis using stats_account_for_every_job[OF demo_reachable] demo_calm_reachable demo_dl by simp
qed

section \<open>Concurrency\<close>

text \<open>C3: In every run in which nobody calls interrupt(id) or interruptAll() on an open queue (and no
  timer fires between a retry decision and the finally callback of its attempt, which the
  event loop excludes), never more than concurrency sends are in flight, and an idle count of
  zero, on which drain() resolves, means that no send is in flight and no job waits.\<close>

theorem in_flight_within_concurrency:
  assumes "calm_reachable cfg q"
  shows "length (q_sending q) \<le> qc_concurrency cfg \<and> (idleCount q = 0 \<longrightarrow> q_sending q = [] \<and> q_finishing q = [] \<and> waitingJobs q = [])"
proof -
  have c: "calm cfg q" by (rule calm_reachable_calm[OF assms])
  then have "length (q_running q) \<le> qc_concurrency cfg" by (simp add: calm_def book_def run_ok_def)
  then show ?thesis using calm_count[OF c] by (auto simp: idleCount_def waitingJobs_def pendingCount_refs)
qed

lemma in_flight_within_concurrency_witness: "length (q_sending demo_state) = 2 \<and> length (q_sending demo_state) \<le> qc_concurrency demo_cfg"
proof -
  have "length (q_sending demo_state) = 2" by code_simp
  then show ?thesis using in_flight_within_concurrency[OF demo_calm_reachable] by simp
qed

text \<open>Interrupting both running jobs of a queue with two slots and one waiting job.\<close>

definition overrun_ops :: "q_op list" where
  "overrun_ops = [OpSetSendFn 0, demo_enq 0 ''a'', demo_enq 0 ''b'', demo_enq 0 ''c'', OpInterruptAll,
     OpSettle 5 0 (0, 0) stopped_outcome, OpSettle 5 0 (1, 1) stopped_outcome, OpFinish 5 0, OpFinish 5 1]"

text \<open>interruptAll on an open queue overruns the limit: the callback of the first
  execution restarts both jobs, the callback of the second deletes the entry of the job
  just restarted, and a third send starts although two are in flight.\<close>

lemma interrupt_all_overruns_concurrency:
  "legal_run (q_step demo_cfg) q_ok new_queue overrun_ops \<and>
   (let q = run (q_step demo_cfg) new_queue overrun_ops in
     length (q_sending q) = 3 \<and> length (q_running q) = 2 \<and> qc_concurrency demo_cfg = 2)"
  by code_simp

section \<open>Progress\<close>

text \<open>C4: No job waits while a slot is free: whenever the finally callbacks of all settled attempts
  have run, a queue that has a send function and is not paused has nothing pending or all its
  slots taken; and while jobs are scheduled its timer is armed.\<close>

theorem no_job_waits_for_nothing:
  assumes "q_reachable cfg q" "q_sendFn q" "\<not> q_paused q"
  shows "(q_finishing q = [] \<longrightarrow> waitingJobs q = jsvals (q_scheduled q) \<or> length (q_running q) = qc_concurrency cfg) \<and>
    (q_scheduled q \<noteq> [] \<longrightarrow> q_timer q \<noteq> None)"
proof -
  have b: "book cfg q" by (rule reachable_book[OF assms(1)])
  then have o: "\<not> q_closed q" using assms(3) by (auto simp: book_def)
  have "stall_free cfg q" by (rule reachable_stall_free[OF assms(1)])
  then show ?thesis using b o assms(2,3) by (auto simp: stall_free_def book_def run_ok_def timer_ok_def waitingJobs_def)
qed

lemma no_job_waits_for_nothing_witness: "q_timer demo_state \<noteq> None"
proof -
  have "q_sendFn demo_state" "\<not> q_paused demo_state" "q_scheduled demo_state \<noteq> []" by code_simp+
  then show ?thesis using no_job_waits_for_nothing[OF demo_reachable] by simp
qed



section \<open>Order\<close>

text \<open>One pass of the loop takes the head of the most urgent tier that has a job.\<close>

lemma pending_refs_shift:
  assumes "q_pending q t = r # rs" "\<forall>t'\<in>set (takeWhile (\<lambda>u. u \<noteq> t) PRIORITY_ORDER). q_pending q t' = []"
    "q_pending q' = (q_pending q)(t := rs)"
  shows "pending_refs q = r # pending_refs q'"
  using assms by (cases t) (simp_all add: pending_refs_def PRIORITY_ORDER_def)

definition free_slots :: "queue_cfg \<Rightarrow> mail_queue \<Rightarrow> nat" where
  "free_slots cfg q = qc_concurrency cfg - length (q_running q)"

lemma tick_loop_order:
  assumes "core cfg {} {} q" "qc_limiter cfg = None" "\<not> q_paused q" "id_of q ` set (pending_refs q) \<inter> set (jskeys (q_running q)) = {}"
  shows "map fst (q_sending (tick_loop cfg now q)) = map fst (q_sending q) @ take (free_slots cfg q) (pending_refs q) \<and>
     pending_refs (tick_loop cfg now q) = drop (free_slots cfg q) (pending_refs q)"
  using assms
proof (induction cfg now q rule: tick_loop.induct)
  case (1 cfg now q)
  show ?case
  proof (cases "tick_step cfg now q")
    case None
    then have "free_slots cfg q = 0 \<or> pending_refs q = []"
      using "1.prems"(2,3) nextPending_None[of q]
      by (auto simp: tick_step_def free_slots_def split: if_splits option.splits)
    then show ?thesis using None by (auto simp: tick_loop.simps[of cfg now q])
  next
    case (Some q')
    have loop: "tick_loop cfg now q = tick_loop cfg now q'" using Some by (simp add: tick_loop.simps[of cfg now q])
    from Some show ?thesis
    proof (cases rule: tick_step_cases)
      case (throttle t r rs ls w)
      then have same: "q_sending q' = q_sending q" by simp
      obtain r0 q1 where n: "nextPending q = Some (r0, q1)" "q' = launch_job now r0 q1"
        using Some "1.prems"(2) by (auto simp: tick_step_def split: if_splits option.splits)
      have "q_sending q1 = q_sending q" using n(1) by (auto elim: nextPending_Some)
      then have "length (q_sending q') = Suc (length (q_sending q))" by (simp add: n(2) launch_frames)
      then show ?thesis using same by simp
    next
      case (launch t r rs ls)
      have c': "core cfg {} {} q'" by (rule core_tick_step[OF "1.prems"(1) Some])
      have p: "pending_refs q = r # pending_refs q'"
        using pending_refs_shift[OF launch(1,5), of q'] by (simp add: launch(6))
      have less: "x < length (q_heap q)" if "x \<in> set (pending_refs q)" for x using pending_status[OF "1.prems"(1) that] by simp
      have ids: "q_ids q' = q_ids q" by (simp add: launch(6))
      have idq: "id_of q' x = id_of q x" if "x < length (q_heap q)" for x
        using that ids ids_length[OF ids] by (metis id_of_ids)
      have d: "r \<notin> set (pending_refs q')" using distinct_pending_refs[OF "1.prems"(1)] p by simp
      have fresh: "id_of q r \<notin> set (jskeys (q_running q))" using "1.prems"(4) p by auto
      have run: "q_running q' = q_running q @ [(id_of q r, r)]"
        using fresh by (simp add: launch(6) launch_frames update_fresh)
      have free: "free_slots cfg q = Suc (free_slots cfg q')" using launch(4) by (simp add: free_slots_def run)
      have disj: "id_of q' ` set (pending_refs q') \<inter> set (jskeys (q_running q')) = {}"
      proof -
        have "id_of q' x \<notin> set (jskeys (q_running q'))" if x: "x \<in> set (pending_refs q')" for x
        proof -
          have xl: "x < length (q_heap q)" "r < length (q_heap q)" using less p x by auto
          have "x \<noteq> r" using d x by blast
          then have "id_of q x \<noteq> id_of q r" using core_ids[OF "1.prems"(1) xl] by blast
          moreover have "id_of q x \<notin> set (jskeys (q_running q))" using "1.prems"(4) x p by auto
          ultimately show ?thesis by (simp add: run idq[OF xl(1)])
        qed
        then show ?thesis by blast
      qed
      have "\<not> q_paused q'" using launch(3) by (simp add: launch(6))
      note ih = "1.IH"[OF Some c' "1.prems"(2) this disj]
      have "map fst (q_sending q') = map fst (q_sending q) @ [r]" by (simp add: launch(6) launch_frames)
      then show ?thesis using ih by (simp add: loop free p)
    qed
  qed
qed

text \<open>Without a rate limit, resume() starts the waiting jobs in the order critical, high,
  normal, low and first in first out within a tier, exactly as many as there are free
  slots, and the others keep their order.\<close>

lemma resume_starts_in_priority_order:
  assumes "calm_reachable cfg q" "qc_limiter cfg = None" "q_sendFn q" "\<not> q_closed q"
  shows "map fst (q_sending (resume cfg now q)) = map fst (q_sending q) @
      take (free_slots cfg q) (q_pending q Critical @ q_pending q High @ q_pending q Normal @ q_pending q Low) \<and>
    pending_refs (resume cfg now q) = drop (free_slots cfg q) (pending_refs q)"
proof -
  let ?q = "q \<lparr> q_paused := False \<rparr>"
  have c: "calm cfg q" by (rule calm_reachable_calm[OF assms(1)])
  then have b: "core cfg {} {} q" "tracked q" "\<not> q_closed q" using assms(4) by (auto simp: calm_def book_def)
  have "id_of q x \<notin> set (jskeys (q_running q))" if x: "x \<in> set (pending_refs q)" for x
  proof
    note px = pending_status[OF b(1) x]
    assume "id_of q x \<in> set (jskeys (q_running q))"
    then obtain y where y: "y \<in> set (map fst (q_sending q)) \<union> set (q_finishing q)" "id_of q x = q_ids q ! y"
      using b(2) unfolding tracked_def by auto
    have yl: "y < length (q_heap q)" using y(1) b(1,2) by (auto simp: tracked_def core_def send_ok_def dest: with_status_less)
    then have "x = y" using core_ids[OF b(1) px(1) yl] y(2) by simp
    then show False using y(1) px(2) b by (auto simp: tracked_def core_def send_ok_def with_status_def)
  qed
  moreover have p: "pending_refs ?q = pending_refs q" by (simp add: pending_refs_def)
  ultimately have d: "id_of ?q ` set (pending_refs ?q) \<inter> set (jskeys (q_running ?q)) = {}" by auto
  have "core cfg {} {} ?q" "\<not> q_paused ?q" using b(1) by (simp_all add: core_frames)
  from tick_loop_order[OF this(1) assms(2) this(2) d, of now] show ?thesis
    using assms(3,4) by (simp add: resume_def tick_def p free_slots_def) (simp add: pending_refs_def PRIORITY_ORDER_def)
qed

text \<open>A paused queue with jobs of three tiers.\<close>

definition paused_ops :: "q_op list" where
  "paused_ops = [OpSetSendFn 0, OpPause, demo_enq 0 ''a'',
     OpEnqueue 0 ''b'' ''t'' demo_mail \<lparr> eo_priority = Some Low, eo_sendAt = None, eo_id = None, eo_idempotencyKey = None \<rparr>,
     OpEnqueue 0 ''c'' ''t'' demo_mail \<lparr> eo_priority = Some Critical, eo_sendAt = None, eo_id = None, eo_idempotencyKey = None \<rparr>]"

lemma resume_starts_in_priority_order_witness:
  "map fst (q_sending (resume demo_cfg 1 (run (q_step demo_cfg) new_queue paused_ops))) = [2, 0]"
proof -
  let ?q = "run (q_step demo_cfg) new_queue paused_ops"
  have r: "calm_reachable demo_cfg ?q" by (rule calm_reachable_run) code_simp
  have "qc_limiter demo_cfg = None" "q_sendFn ?q" "\<not> q_closed ?q" by code_simp+
  note t = resume_starts_in_priority_order[OF r this, of 1]
  have "map fst (q_sending ?q) = []" "free_slots demo_cfg ?q = 2"
    "q_pending ?q Critical = [2]" "q_pending ?q High = []" "q_pending ?q Normal = [0]" "q_pending ?q Low = [1]" by code_simp+
  then show ?thesis using t by simp
qed

section \<open>A closed queue\<close>

text \<open>C6: Once shutdown has closed the queue it stays closed and paused, enqueue throws and
  changes nothing, and no legal operation starts a send: what is in flight can only end.\<close>

theorem closed_queue_starts_nothing:
  assumes "q_reachable cfg q" "q_closed q" "q_ok q op"
  shows "q_closed (q_step cfg q op) \<and> q_paused (q_step cfg q op) \<and> set (q_sending (q_step cfg q op)) \<subseteq> set (q_sending q) \<and>
    enqueue cfg now i tok opts eo q = (Inl (QueueError ''Queue is shut down''), q)"
proof -
  have p: "q_paused q" using reachable_book[OF assms(1)] assms(2) by (simp add: book_def)
  have t: "tick cfg now' q' = q'" if "q_paused q'" for q' now' using that by (intro tick_stopped) simp
  have pl: "set (q_sending (place cfg now' r q')) \<subseteq> set (q_sending q') \<and> q_closed (place cfg now' r q') = q_closed q' \<and>
      q_paused (place cfg now' r q') = q_paused q'" if "q_paused q'" for now' r q'
    using that by (cases rule: place_cases[of q' r cfg now']) (simp_all add: t)
  have pd: "promoteDue cfg now' q = promoted now' q" for now'
    using promote_list_frame[of "q \<lparr> q_timer := None \<rparr>" now' "q_scheduled q"] reachable_book[OF assms(1)] p
    by (simp add: promoteDue_tick) (rule t, simp add: promoted_def book_def throttled_ok_def)
  have pds: "q_sending (promoted now' q) = q_sending q \<and> q_closed (promoted now' q) \<and> q_paused (promoted now' q)" for now'
  proof -
    have "q_sending (promote_list now' es q') = q_sending q' \<and> q_closed (promote_list now' es q') = q_closed q' \<and>
        q_paused (promote_list now' es q') = q_paused q'" for es q'
      unfolding promote_list_def by (induction es arbitrary: q') (auto simp: split_def)
    then show ?thesis using assms(2) p by (simp add: promoted_def)
  qed
  have ca: "q_sending (snd (cancelAll now' q')) = q_sending q' \<and> q_closed (snd (cancelAll now' q')) = q_closed q' \<and>
      q_paused (snd (cancelAll now' q')) = q_paused q'" for now' q'
    using fold_markCancelled_frame[of now' "waitingJobs q'" "armSchedule now' (q' \<lparr> q_pending := (\<lambda>_. []), q_scheduled := [] \<rparr>)"]
    by (simp add: cancelAll_def Let_def)
  have cn: "q_sending (snd (cancel now' i q)) = q_sending q \<and> q_closed (snd (cancel now' i q)) \<and> q_paused (snd (cancel now' i q))" for now' i
  proof -
    obtain o1 q1 where tk: "takeWaiting now' i q = (o1, q1)" by fastforce
    then have "q_sending q1 = q_sending q \<and> q_closed q1 = q_closed q \<and> q_paused q1 = q_paused q"
      by (auto simp: takeWaiting_def split: option.splits prod.splits)
    then show ?thesis using tk assms(2) p by (auto simp: cancel_def split: option.splits)
  qed
  have e: "enqueue cfg now' i' tok' opts' eo' q = (Inl (QueueError ''Queue is shut down''), q)" for now' i' tok' opts' eo'
    using assms(2) by (simp add: enqueue_def)
  have "q_closed (q_step cfg q op) \<and> q_paused (q_step cfg q op) \<and> set (q_sending (q_step cfg q op)) \<subseteq> set (q_sending q)"
  proof (cases op)
    case (OpRestore n job)
    have "set (q_sending (place cfg n r (q \<lparr> q_heap := H \<rparr>))) \<subseteq> set (q_sending q) \<and> q_closed (place cfg n r (q \<lparr> q_heap := H \<rparr>)) \<and>
        q_paused (place cfg n r (q \<lparr> q_heap := H \<rparr>))" for H r
      using pl[of "q \<lparr> q_heap := H \<rparr>" n r] assms(2) p by simp
    then show ?thesis using OpRestore assms(2) p by (simp add: restore_def Let_def)
  next
    case (OpSettle n rnd x out)
    then show ?thesis using assms(2) p set_remove1_subset by (cases x) (fastforce simp: settle_def)
  next
    case (OpSdCheck n s)
    then show ?thesis using assms(2) p ca
      by (auto simp: sd_check_def sd_close_def sd_finish_def Let_def interruptAll_def control_frame split: sd_phase.splits)
  next
    case (OpSdStart n so)
    then show ?thesis using assms(2) p ca by (auto simp: sd_start_def sd_close_def Let_def resume_def)
  next
    case (OpDrain)
    then show ?thesis using assms(2) p by (auto simp: drain_def)
  qed (use assms(2) p pd pds ca cn e in \<open>simp_all add: setSendFn_def t finish_def resume_def pause_def interrupt_def interruptAll_def
      abort_job_def abortAll_def control_frame\<close>)
  then show ?thesis using e by blast
qed

definition closed_ops :: "q_op list" where
  "closed_ops = demo_ops @ [OpSdStart 6 \<lparr> so_timeoutMs = Some 100, so_pending = Some SpKeep \<rparr>]"

lemma closed_queue_starts_nothing_witness:
  "let q = run (q_step demo_cfg) new_queue closed_ops in
     set (q_sending (q_step demo_cfg q (OpTimer 5000))) \<subseteq> {(1, 1), (2, 2)}"
proof -
  let ?q = "run (q_step demo_cfg) new_queue closed_ops"
  have r: "q_reachable demo_cfg ?q" by (rule reachable_run) code_simp
  have "q_closed ?q" "q_ok ?q (OpTimer 5000)" by code_simp+
  note c = closed_queue_starts_nothing[OF r this]
  have "q_sending ?q = [(1, 1), (2, 2)]" by code_simp
  then show ?thesis using c by (simp add: Let_def)
qed

end
