(* ===== verification/MailQueueProps2.thy ===== *)
theory MailQueueProps2
  imports MailQueueProps
begin

text \<open>
  Functional properties of the send queue: the outcome table of an attempt, retry delays,
  the rate limit, idempotency keys, shutdown, and the places where the code does not do
  what its comments say.
\<close>

section \<open>The outcome of an attempt\<close>

text \<open>
  How an attempt ends, from the reason its controller was stopped with and the outcome of the
  send (specification): the caller's wish comes first, and an abort counts as a failure.
\<close>

datatype attempt_result = AttemptCancelled | AttemptInterrupted | AttemptSent send_result | AttemptFailed mail_error

fun attempt_end :: "control_reason option \<Rightarrow> send_outcome \<Rightarrow> attempt_result" where
  "attempt_end (Some Cancel) out = AttemptCancelled"
| "attempt_end (Some Interrupt) out = AttemptInterrupted"
| "attempt_end (Some Abort) out = AttemptFailed (MailTsError ''Job aborted by caller'' EQUEUE True)"
| "attempt_end None (Resolved (SendOk m a b)) = AttemptSent (SendOk m a b)"
| "attempt_end None (Resolved (SendErr e n)) = AttemptFailed e"
| "attempt_end None (Rejected (ThrownMailTs e)) = AttemptFailed e"
| "attempt_end None (Rejected (ThrownOther m)) = AttemptFailed (MailTsError m EQUEUE True)"

lemma settle_body_end:
  "settle_body cfg now rnd r reason out q = (case attempt_end reason out of
     AttemptCancelled \<Rightarrow> markCancelled now r q
   | AttemptInterrupted \<Rightarrow> interrupt_requeue r q
   | AttemptSent res \<Rightarrow> succeed_job r res q
   | AttemptFailed e \<Rightarrow> fail_job cfg now rnd e r q)"
  by (cases "(reason, out)" rule: attempt_end.cases) (simp_all add: settle_body_def outcome_error_def)

text \<open>The state in which the branches of execute after the await begin.\<close>

definition settled :: "nat \<times> nat \<Rightarrow> mail_queue \<Rightarrow> mail_queue" where
  "settled x q = q \<lparr> q_sending := remove1 x (q_sending q), q_controllers := AList.delete (id_of q (fst x)) (q_controllers q),
     q_finishing := q_finishing q @ [fst x] \<rparr>"

lemma settle_end:
  "settle cfg now rnd (r, c) out q = (case attempt_end (q_ctrls q ! c) out of
     AttemptCancelled \<Rightarrow> markCancelled now r (settled (r, c) q)
   | AttemptInterrupted \<Rightarrow> interrupt_requeue r (settled (r, c) q)
   | AttemptSent res \<Rightarrow> succeed_job r res (settled (r, c) q)
   | AttemptFailed e \<Rightarrow> fail_job cfg now rnd e r (settled (r, c) q))"
  by (cases "attempt_end (q_ctrls q ! c) out") (simp_all add: settle_def settle_body_end settled_def)

text \<open>Nothing but the job, the waiting containers, the counters, the dead-letter queue and the trace
  depends on how the attempt ended.\<close>

definition same_waiting :: "mail_queue \<Rightarrow> mail_queue \<Rightarrow> bool" where
  "same_waiting q q' \<longleftrightarrow> q_pending q' = q_pending q \<and> q_scheduled q' = q_scheduled q"

definition same_counts :: "mail_queue \<Rightarrow> mail_queue \<Rightarrow> bool" where
  "same_counts q q' \<longleftrightarrow> q_succeeded q' = q_succeeded q \<and> q_cancelled q' = q_cancelled q"

definition job_changed :: "nat \<Rightarrow> q_job \<Rightarrow> mail_queue \<Rightarrow> mail_queue \<Rightarrow> bool" where
  "job_changed r j q q' \<longleftrightarrow> q_heap q' = (q_heap q)[r := j]"

lemma settled_frame:
  "q_heap (settled x q) = q_heap q" "q_pending (settled x q) = q_pending q" "q_scheduled (settled x q) = q_scheduled q"
  "q_succeeded (settled x q) = q_succeeded q" "q_cancelled (settled x q) = q_cancelled q" "q_dlq (settled x q) = q_dlq q"
  "q_trace (settled x q) = q_trace q" "q_running (settled x q) = q_running q"
  by (simp_all add: settled_def)

lemma running_not_scheduled:
  assumes "core cfg {} {} q" "r < length (q_heap q)" "j_status (job_of q r) = StRunning"
  shows "id_of q r \<notin> set (jskeys (q_scheduled q))"
proof
  assume "id_of q r \<in> set (jskeys (q_scheduled q))"
  then obtain x where "(id_of q r, x) \<in> set (q_scheduled q)" by auto
  then have "x < length (q_heap q)" "j_status (job_of q x) = StScheduled" "id_of q x = id_of q r"
    using sched_mem[OF assms(1), of "id_of q r" x] by (auto simp: with_status_def)
  then show False using core_ids[OF assms(1), of x r] assms(2,3) by auto
qed

lemma dlq_gc_lookup:
  assumes "distinct (jskeys d)"
  shows "map_of (dlq_gc maxAge now h d) i = (case map_of d i of None \<Rightarrow> None | Some s \<Rightarrow> if j_createdAt (h ! s) < now - maxAge then None else Some s)"
  using assms unfolding dlq_gc_def
  by (induction d) (auto split: option.splits simp: map_of_eq_None_iff image_iff dest: map_of_SomeD)

lemma fail_job_retry:
  assumes "shouldRetry (qc_policy cfg) (j_attempts (job_of q r)) e" "r < length (q_heap q)"
    "id_of q r \<notin> set (jskeys (q_scheduled q))" "q' = fail_job cfg now rnd e r q"
    "wait = max (delayFor (qc_policy cfg) rnd (j_attempts (job_of q r) - 1)) (or_default (e_retryAfterMs e) 0)"
  shows "job_changed r ((job_of q r) \<lparr> j_errors := j_errors (job_of q r) @ [e], j_status := StScheduled, j_notBefore := Some (now + wait) \<rparr>) q q' \<and>
    q_pending q' = q_pending q \<and> q_scheduled q' = q_scheduled q @ [(id_of q r, r)] \<and> q_timer q' \<noteq> None \<and>
    same_counts q q' \<and> q_dlq q' = q_dlq q \<and> q_trace q' = q_trace q @ [EvRetry r (j_attempts (job_of q r)) wait]"
proof -
  let ?q1 = "set_job r (\<lambda>j. j \<lparr> j_errors := j_errors j @ [e] \<rparr>) q"
  have at: "job_of ?q1 r = (job_of q r) \<lparr> j_errors := j_errors (job_of q r) @ [e] \<rparr>" using assms(2) by (simp add: set_job_def)
  have q': "q' = retry_job cfg now rnd e r ?q1" using assms(1,4) at by (simp add: fail_job_def Let_def)
  have h: "q_heap q' = (q_heap q)[r := (job_of q r) \<lparr> j_errors := j_errors (job_of q r) @ [e], j_status := StScheduled,
      j_notBefore := Some (now + wait) \<rparr>]"
    using assms(2) at by (simp add: q' retry_heap set_job_def retry_delay_def assms(5))
  show ?thesis using h assms(2,3) at
    by (simp add: job_changed_def same_counts_def q' retry_job_def Let_def armSchedule_def next_due_def emit_def set_job_def
        update_fresh assms(5) split: list.split)
qed

lemma fail_job_final:
  assumes "\<not> shouldRetry (qc_policy cfg) (j_attempts (job_of q r)) e" "r < length (q_heap q)" "q' = fail_job cfg now rnd e r q"
  shows "q_pending q' = q_pending q" "q_scheduled q' = q_scheduled q" "same_counts q q'"
    "qc_dlEnabled cfg \<Longrightarrow> distinct (jskeys (q_dlq q)) \<Longrightarrow>
      job_changed r ((job_of q r) \<lparr> j_errors := j_errors (job_of q r) @ [e], j_status := StDead \<rparr>) q q' \<and>
      q_trace q' = q_trace q @ [EvDead r (j_errors (job_of q r) @ [e])] \<and>
      map_of (q_dlq q') = (\<lambda>i. case ((map_of (q_dlq q))(id_of q r \<mapsto> r)) i of None \<Rightarrow> None
        | Some s \<Rightarrow> if j_createdAt (job_of q s) < now - qc_dlMaxAge cfg then None else Some s)"
    "\<not> qc_dlEnabled cfg \<Longrightarrow> job_changed r ((job_of q r) \<lparr> j_errors := j_errors (job_of q r) @ [e] \<rparr>) q q' \<and>
      q_trace q' = q_trace q \<and> q_dlq q' = q_dlq q"
proof -
  let ?q1 = "set_job r (\<lambda>j. j \<lparr> j_errors := j_errors j @ [e] \<rparr>) q"
  have q': "q' = dlq_add cfg now r ?q1" using assms by (simp add: fail_job_def Let_def set_job_def)
  show "q_pending q' = q_pending q" "q_scheduled q' = q_scheduled q" "same_counts q q'" by (simp_all add: q' same_counts_def)
  show "\<not> qc_dlEnabled cfg \<Longrightarrow> job_changed r ((job_of q r) \<lparr> j_errors := j_errors (job_of q r) @ [e] \<rparr>) q q' \<and>
      q_trace q' = q_trace q \<and> q_dlq q' = q_dlq q"
    by (simp add: q' dlq_add_def job_changed_def) (simp add: set_job_def)
  assume d: "qc_dlEnabled cfg" "distinct (jskeys (q_dlq q))"
  let ?h = "(q_heap q)[r := (job_of q r) \<lparr> j_errors := j_errors (job_of q r) @ [e], j_status := StDead \<rparr>]"
  have q2: "q_heap q' = ?h" "q_trace q' = q_trace q @ [EvDead r (j_errors (job_of q r) @ [e])]"
    "q_dlq q' = dlq_gc (qc_dlMaxAge cfg) now ?h (AList.update (id_of q r) r (q_dlq q))"
    using d(1) assms(2) by (simp_all add: q' dlq_add_def Let_def set_job_def emit_def)
  have cr: "j_createdAt (?h ! s) = j_createdAt (job_of q s)" for s using assms(2) by (cases "s = r") simp_all
  have m: "map_of (q_dlq q') i = (case ((map_of (q_dlq q))(id_of q r \<mapsto> r)) i of None \<Rightarrow> None
        | Some s \<Rightarrow> if j_createdAt (job_of q s) < now - qc_dlMaxAge cfg then None else Some s)" for i
    unfolding q2(3) by (subst dlq_gc_lookup) (simp_all only: d(2) distinct_keys_update update_conv' cr)
  then show "job_changed r ((job_of q r) \<lparr> j_errors := j_errors (job_of q r) @ [e], j_status := StDead \<rparr>) q q' \<and>
      q_trace q' = q_trace q @ [EvDead r (j_errors (job_of q r) @ [e])] \<and>
      map_of (q_dlq q') = (\<lambda>i. case ((map_of (q_dlq q))(id_of q r \<mapsto> r)) i of None \<Rightarrow> None
        | Some s \<Rightarrow> if j_createdAt (job_of q s) < now - qc_dlMaxAge cfg then None else Some s)"
    unfolding job_changed_def by (intro conjI q2(1,2) ext m)
qed

text \<open>C7: What the end of a send attempt does, on every branch.  Cancelled: the job is marked, counted
  and announced, and waits nowhere.  Interrupted: it is at the head of its tier with the attempt
  taken back.  Sent: it is counted as succeeded and announced.  Failed and to be retried: the
  error is recorded, the job is in the scheduled map under its id, due after the policy's delay
  or the longer Retry-After hint, and the timer is armed.  Failed for good: the error is
  recorded and the job is dead, announced and in the dead-letter queue, from which jobs past
  the maximal age are dropped; with the dead-letter queue disabled only the error is recorded.
  In every case no other job changes, the attempt is no longer in flight, its finally callback
  is still to come and the running map still has the entry.\<close>

theorem settle_outcome:
  assumes "q_reachable cfg q" "(r, c) \<in> set (q_sending q)" "j = job_of q r" "q' = settle cfg now rnd (r, c) out q"
    "wait = (\<lambda>e. max (delayFor (qc_policy cfg) rnd (j_attempts j - 1)) (or_default (e_retryAfterMs e) 0))"
  shows "q_sending q' = remove1 (r, c) (q_sending q) \<and> q_finishing q' = q_finishing q @ [r] \<and> q_running q' = q_running q \<and>
    (case attempt_end (q_ctrls q ! c) out of
       AttemptCancelled \<Rightarrow>
         job_changed r (j \<lparr> j_status := StCancelled, j_cancelledAt := Some now, j_notBefore := None \<rparr>) q q' \<and>
         same_waiting q q' \<and> q_cancelled q' = q_cancelled q + 1 \<and> q_succeeded q' = q_succeeded q \<and> q_dlq q' = q_dlq q \<and>
         q_trace q' = q_trace q @ [EvCancelled r]
     | AttemptInterrupted \<Rightarrow>
         job_changed r (j \<lparr> j_attempts := j_attempts j - 1, j_status := StPending \<rparr>) q q' \<and>
         q_pending q' = (q_pending q)(j_priority j := r # q_pending q (j_priority j)) \<and> q_scheduled q' = q_scheduled q \<and>
         same_counts q q' \<and> q_dlq q' = q_dlq q \<and> q_trace q' = q_trace q @ [EvInterrupted r]
     | AttemptSent res \<Rightarrow>
         job_changed r (j \<lparr> j_status := StSuccess \<rparr>) q q' \<and> same_waiting q q' \<and>
         q_succeeded q' = q_succeeded q + 1 \<and> q_cancelled q' = q_cancelled q \<and> q_dlq q' = q_dlq q \<and>
         q_trace q' = q_trace q @ [EvSuccess r res]
     | AttemptFailed e \<Rightarrow>
         same_counts q q' \<and> q_pending q' = q_pending q \<and>
         (if shouldRetry (qc_policy cfg) (j_attempts j) e
          then job_changed r (j \<lparr> j_errors := j_errors j @ [e], j_status := StScheduled, j_notBefore := Some (now + wait e) \<rparr>) q q' \<and>
            q_scheduled q' = q_scheduled q @ [(j_id j, r)] \<and> q_timer q' \<noteq> None \<and> q_dlq q' = q_dlq q \<and>
            q_trace q' = q_trace q @ [EvRetry r (j_attempts j) (wait e)]
          else q_scheduled q' = q_scheduled q \<and>
            (if qc_dlEnabled cfg
             then job_changed r (j \<lparr> j_errors := j_errors j @ [e], j_status := StDead \<rparr>) q q' \<and>
               q_trace q' = q_trace q @ [EvDead r (j_errors j @ [e])] \<and>
               map_of (q_dlq q') = (\<lambda>i. case ((map_of (q_dlq q))(j_id j \<mapsto> r)) i of None \<Rightarrow> None
                 | Some s \<Rightarrow> if j_createdAt (job_of q s) < now - qc_dlMaxAge cfg then None else Some s)
             else job_changed r (j \<lparr> j_errors := j_errors j @ [e] \<rparr>) q q' \<and> q_trace q' = q_trace q \<and> q_dlq q' = q_dlq q)))"
proof -
  let ?q = "settled (r, c) q"
  have co: "core cfg {} {} q" by (rule reachable_core[OF assms(1)])
  then have r: "r < length (q_heap q)" "j_status (job_of q r) = StRunning" using sending_running[OF co assms(2)] by simp_all
  have fresh: "id_of ?q r \<notin> set (jskeys (q_scheduled ?q))" using running_not_scheduled[OF co r] by (simp add: settled_frame)
  have d: "distinct (jskeys (q_dlq ?q))" using reachable_dlq_ok[OF assms(1)] by (simp add: dlq_ok_def settled_frame)
  have common: "q_sending q' = remove1 (r, c) (q_sending q) \<and> q_finishing q' = q_finishing q @ [r] \<and> q_running q' = q_running q"
    by (simp add: assms(4) settle_def)
  have e: "q' = (case attempt_end (q_ctrls q ! c) out of AttemptCancelled \<Rightarrow> markCancelled now r ?q
     | AttemptInterrupted \<Rightarrow> interrupt_requeue r ?q | AttemptSent res \<Rightarrow> succeed_job r res ?q
     | AttemptFailed e \<Rightarrow> fail_job cfg now rnd e r ?q)" by (simp add: assms(4) settle_end)
  show ?thesis
  proof (cases "attempt_end (q_ctrls q ! c) out")
    case (AttemptFailed err)
    then have q': "q' = fail_job cfg now rnd err r ?q" using e by simp
    have r': "r < length (q_heap ?q)" using r by (simp add: settled_frame)
    show ?thesis
    proof (cases "shouldRetry (qc_policy cfg) (j_attempts (job_of ?q r)) err")
      case True
      from fail_job_retry[OF True r' fresh q' refl] show ?thesis using True common AttemptFailed
        by (simp add: settled_frame assms(3,5) job_changed_def same_counts_def)
    next
      case False
      note f = fail_job_final[OF False r' q']
      show ?thesis using False common AttemptFailed f(1-3) f(4)[OF _ d, unfolded settled_frame] f(5)
        by (simp add: settled_frame assms(3) job_changed_def same_counts_def)
    qed
  qed (use e common in \<open>simp_all add: job_changed_def same_counts_def same_waiting_def settled_frame assms(3) markCancelled_def
      interrupt_requeue_def succeed_job_def Let_def set_job_def emit_def r\<close>)
qed

lemma settle_outcome_witness:
  "let q' = settle demo_cfg 9 0 (1, 1) (Rejected (ThrownOther ''net'')) demo_state in
     q_scheduled q' = q_scheduled demo_state @ [(''b'', 1)] \<and> j_errors (job_of q' 1) = [MailTsError ''net'' EQUEUE True] \<and>
     q_trace q' = q_trace demo_state @ [EvRetry 1 1 700]"
proof -
  let ?q' = "settle demo_cfg 9 0 (1, 1) (Rejected (ThrownOther ''net'')) demo_state"
  have s: "(1, 1) \<in> set (q_sending demo_state)" by code_simp
  have c: "q_ctrls demo_state ! 1 = None" "shouldRetry (qc_policy demo_cfg) (j_attempts (job_of demo_state 1)) (MailTsError ''net'' EQUEUE True)"
    "j_id (job_of demo_state 1) = ''b''" "j_attempts (job_of demo_state 1) = 1" "j_errors (job_of demo_state 1) = []"
    "max (delayFor (qc_policy demo_cfg) 0 0) (or_default (e_retryAfterMs (MailTsError ''net'' EQUEUE True)) 0) = 700"
    "1 < length (q_heap demo_state)"
    by code_simp+
  show ?thesis using settle_outcome[OF demo_reachable s refl refl refl, of 9 0 "Rejected (ThrownOther ''net'')"] c
    by (simp add: job_changed_def Let_def)
qed

definition drop_cfg :: queue_cfg where
  "drop_cfg = new_queue_cfg (demo_queue_options \<lparr> qo_dlEnabled := Some False, qo_maxRetries := Some 0 \<rparr>) False"

text \<open>With the dead-letter queue disabled a job out of retries vanishes: after the attempt
  and its callback it keeps the status running, is in no container and not in the
  dead-letter queue, and no event reports its end.\<close>

lemma disabled_dlq_drops_silently:
  "let q = run (q_step drop_cfg) new_queue [OpSetSendFn 0, demo_enq 0 ''a'', OpSettle 5 0 (0, 0) (Rejected (ThrownOther ''net'')), OpFinish 5 0]
   in j_status (job_of q 0) = StRunning \<and> idleCount q = 0 \<and> q_sending q = [] \<and> q_dlq q = [] \<and>
      q_trace q = [EvEnqueued 0, EvStarted 0, EvSettled, EvDrained]"
  unfolding Let_def by (intro conjI; code_simp)

section \<open>Retry delays\<close>

text \<open>A retry delay is within 30 percent of the base delay of its attempt (and not below
  a Retry-After hint), and base delays never shrink from one attempt to the next.\<close>

lemma retry_delay_bounds:
  assumes "valid_policy (qc_policy cfg)" "attempts \<ge> 1" "0 \<le> rnd" "rnd < 1"
  shows "\<lfloor>of_int (base_delay (qc_policy cfg) (attempts - 1)) * (7 / 10 :: rat)\<rfloor> \<le> retry_delay cfg rnd err attempts \<and>
    retry_delay cfg rnd err attempts \<le> max \<lfloor>of_int (base_delay (qc_policy cfg) (attempts - 1)) * (13 / 10 :: rat)\<rfloor> (or_default (e_retryAfterMs err) 0) \<and>
    or_default (e_retryAfterMs err) 0 \<le> retry_delay cfg rnd err attempts \<and>
    base_delay (qc_policy cfg) (attempts - 1) \<le> base_delay (qc_policy cfg) attempts"
  using delayFor_bounds[OF assms(1), of "attempts - 1" rnd] base_delay_mono[OF assms(1), of "attempts - 1" attempts] assms
  by (auto simp: retry_delay_def)

lemma retry_delay_bounds_witness:
  "1400 \<le> retry_delay demo_cfg (1/2) (SmtpTimeoutError ''x'') 2 \<and> retry_delay demo_cfg (1/2) (SmtpTimeoutError ''x'') 2 \<le> 2600"
proof -
  have v: "valid_policy (qc_policy demo_cfg)" "(2::int) \<ge> 1" "0 \<le> (1/2::rat)" "(1/2::rat) < 1" by (code_simp, simp_all)
  have "base_delay (qc_policy demo_cfg) (2 - 1) = 2000" "or_default (e_retryAfterMs (SmtpTimeoutError ''x'')) 0 = 0" by code_simp+
  then show ?thesis using retry_delay_bounds[OF v, of "SmtpTimeoutError ''x''"] by (simp add: floor_eq_iff)
qed

text \<open>The documented upper bound for a single delay is not one: jitter is added after the
  cap, and the fixed backoff is not capped at all.\<close>

lemma retry_delay_exceeds_maximum:
  "(let p = new_policy \<lparr> ro_maxRetries = None, ro_initialDelay = None, ro_maxDelay = None, ro_backoff = None, ro_jitter = None \<rparr>
    in rp_maxDelay p = 60000 \<and> delayFor p (9 / 10) 10 = 74400) \<and>
   (let p = new_policy \<lparr> ro_maxRetries = None, ro_initialDelay = Some 90000, ro_maxDelay = None, ro_backoff = Some Fixed, ro_jitter = Some False \<rparr>
    in rp_maxDelay p = 60000 \<and> delayFor p 0 0 = 90000)"
  by code_simp

section \<open>Rate limit\<close>

text \<open>C8: In no window of the configured lengths, wherever it ends, do the sends the limiter
  admits for a bucket cost more than the limit of that window, not counting the jobs that
  alone cost more than it (those are let through at once), when requests come in time order.\<close>

theorem rate_limit_holds_in_every_window:
  assumes "requests_ok opts t0 rs" "(ms, limit) \<in> set (rl_windows opts)"
  shows "rl_in_window t ms (rl_bound limit (snd (run (rl_step opts) ([], \<lambda>_. []) rs) k)) \<le> limit"
  using assms by (rule rl_run_bound)

definition demo_limit :: rate_limit_options where
  "demo_limit = \<lparr> rl_perSecond = Some 1, rl_perMinute = None, rl_perHour = None, rl_perDay = None, rl_by = ByQueue, rl_countRecipients = False \<rparr>"

definition demo_job :: q_job where
  "demo_job = new_job demo_cfg 0 ''a'' ''t'' demo_mail \<lparr> eo_priority = None, eo_sendAt = None, eo_id = None, eo_idempotencyKey = None \<rparr>"

lemma rate_limit_holds_in_every_window_witness:
  "rl_in_window 700 1000 (rl_bound 1 (snd (run (rl_step demo_limit) ([], \<lambda>_. []) [(demo_job, 0), (demo_job, 500), (demo_job, 1200)]) ''*'')) \<le> 1"
proof -
  have "requests_ok demo_limit 0 [(demo_job, 0), (demo_job, 500), (demo_job, 1200)]" "(1000, 1) \<in> set (rl_windows demo_limit)" by code_simp+
  then show ?thesis by (rule rate_limit_holds_in_every_window)
qed

text \<open>C9: waitFor is exact: after the wait it returns the job fits in every window (if nothing
  else was sent), and at no earlier moment does it.\<close>

theorem rate_limit_wait_is_exact:
  assumes "uses_ok (rl_stored st (rl_key opts job))" "w = fst (rl_waitFor opts job now st)"
  shows "rl_fits opts (rl_stored st (rl_key opts job)) (now + w) (rl_cost opts job) \<and>
    (\<forall>t. now \<le> t \<and> t < now + w \<longrightarrow> \<not> rl_fits opts (rl_stored st (rl_key opts job)) t (rl_cost opts job))"
  using rl_waitFor_exact[OF assms(1)] assms(2) by blast

lemma rate_limit_wait_is_exact_witness:
  "rl_fits demo_limit (rl_stored [(''*'', [\<lparr> u_t = 400, u_cost = 1 \<rparr>])] (rl_key demo_limit demo_job)) 1400 (rl_cost demo_limit demo_job)"
proof -
  have u: "uses_ok (rl_stored [(''*'', [\<lparr> u_t = 400, u_cost = 1 \<rparr>])] (rl_key demo_limit demo_job))" by code_simp
  have "(500::int) = fst (rl_waitFor demo_limit demo_job 900 [(''*'', [\<lparr> u_t = 400, u_cost = 1 \<rparr>])])" by code_simp
  from rate_limit_wait_is_exact[OF u this] show ?thesis by simp
qed

text \<open>Four jobs under a limit of one per second.\<close>

definition limit_cfg :: queue_cfg where
  "limit_cfg = new_queue_cfg (demo_queue_options \<lparr> qo_concurrency := Some 4, qo_rateLimit := Some demo_limit \<rparr>) False"

definition started_jobs :: "mail_queue \<Rightarrow> nat list" where
  "started_jobs q = List.map_filter (\<lambda>e. case e of EvStarted r \<Rightarrow> Some r | _ \<Rightarrow> None) (q_trace q)"

text \<open>Throttled jobs do not keep their place: those promoted together are put at the front
  of their tier one by one, which reverses them, and the fourth job overtakes two others.\<close>

lemma throttled_jobs_lose_their_place:
  "started_jobs (run (q_step limit_cfg) new_queue
     [OpSetSendFn 0, demo_enq 0 ''a'', demo_enq 0 ''b'', demo_enq 0 ''c'', demo_enq 0 ''d'',
      OpTimer 1000, OpTimer 2000, OpTimer 3000]) = [0, 3, 1, 2]"
  by code_simp

section \<open>Idempotency keys\<close>

lemma idem_tick: "q_idempotent (tick cfg now q) = q_idempotent q" by simp

lemma idem_place: "q_idempotent (place cfg now r q) = q_idempotent q"
  by (cases rule: place_cases[of q r cfg now]) (simp_all add: placed_def)

lemma idem_promoteDue: "q_idempotent (promoteDue cfg now q) = q_idempotent q"
proof -
  have "q_idempotent (promote_list now es q') = q_idempotent q'" for es q'
    unfolding promote_list_def by (induction es arbitrary: q') (auto simp: split_def)
  then show ?thesis by (simp add: promoteDue_def)
qed

lemma idem_fold_mark: "q_idempotent (fold (markCancelled now) rs q) = q_idempotent q"
  by (induction rs arbitrary: q) auto

lemma idem_cancelAll: "q_idempotent (snd (cancelAll now q)) = q_idempotent q"
  by (simp add: cancelAll_def Let_def idem_fold_mark)

lemma idem_cancel: "q_idempotent (snd (cancel now i q)) = q_idempotent q"
  by (auto simp: cancel_def takeWaiting_def split: option.splits prod.splits)

lemma idem_fold_trigger: "q_idempotent (fold (trigger_ctrl rs) cs q) = q_idempotent q"
  by (induction cs arbitrary: q) auto

lemma idem_control: "q_idempotent (snd (control_one rs i q)) = q_idempotent q" "q_idempotent (snd (control_all rs q)) = q_idempotent q"
  by (auto simp: control_one_def control_all_def idem_fold_trigger split: option.splits)

lemma idem_sd_close: "q_idempotent (snd (sd_close now s q)) = q_idempotent q"
  by (simp add: sd_close_def Let_def idem_cancelAll)

lemma idem_step:
  assumes "\<And>now i tok opts eo. op \<noteq> OpEnqueue now i tok opts eo"
  shows "q_idempotent (q_step cfg q op) = q_idempotent q"
proof (cases op)
  case (OpSettle now rnd x out)
  then show ?thesis by (cases x) (simp add: settle_def)
next
  case (OpSdCheck now s)
  then show ?thesis by (auto simp: sd_check_def sd_finish_def Let_def idem_sd_close interruptAll_def idem_control split: sd_phase.splits)
next
  case (OpSdStart now so)
  then show ?thesis by (auto simp: sd_start_def Let_def idem_sd_close resume_def)
next
  case (OpRestore now job)
  then show ?thesis by (simp add: restore_def Let_def idem_place)
next
  case OpDrain
  then show ?thesis by (simp add: drain_def)
qed (use assms in \<open>simp_all add: setSendFn_def idem_promoteDue finish_def resume_def pause_def idem_cancel idem_cancelAll
    interrupt_def interruptAll_def abort_job_def abortAll_def idem_control\<close>)

text \<open>An entry survives every lookup made before it expires.\<close>

lemma findIdempotent_entry:
  assumes "map_of (q_idempotent q) k = Some (r, e)" "now < e" "distinct (jskeys (q_idempotent q))"
  shows "map_of (q_idempotent (snd (findIdempotent now k' q))) k = Some (r, e)"
    and "fst (findIdempotent now k q) = Some r"
    and "distinct (jskeys (q_idempotent (snd (findIdempotent now k' q))))"
proof -
  let ?f = "List.filter (\<lambda>(k, r, e). \<not> e \<le> now) (q_idempotent q)"
  have m: "map_of ?f k = Some (r, e)"
    using assms by (auto simp: map_of_eq_Some_iff distinct_map_filter)
  have d: "distinct (jskeys ?f)" using assms(3) by (rule distinct_map_filter)
  show "map_of (q_idempotent (snd (findIdempotent now k' q))) k = Some (r, e)"
    using m assms(1) by (auto simp: findIdempotent_def Let_def split: option.splits)
  show "fst (findIdempotent now k q) = Some r"
    using m assms(1,2) by (auto simp: findIdempotent_def Let_def split: option.splits)
  show "distinct (jskeys (q_idempotent (snd (findIdempotent now k' q))))"
    using d assms(3) by (auto simp: findIdempotent_def Let_def split: option.splits)
qed

definition holds_key :: "string \<Rightarrow> nat \<Rightarrow> int \<Rightarrow> mail_queue \<Rightarrow> bool" where
  "holds_key k r e q \<longleftrightarrow> map_of (q_idempotent q) k = Some (r, e) \<and> distinct (jskeys (q_idempotent q))"

lemma holds_key_enqueue_new:
  assumes "holds_key k r e q" "j_idempotencyKey job \<noteq> Some k"
  shows "holds_key k r e (snd (enqueue_new cfg now job q))"
proof (cases "find_job (j_id job) q")
  case None
  then have i: "q_idempotent (snd (enqueue_new cfg now job q)) = (case j_idempotencyKey job of None \<Rightarrow> q_idempotent q
      | Some k' \<Rightarrow> AList.update k' (length (q_heap q), now + qc_idempotencyWindowMs cfg) (q_idempotent q))"
    by (simp add: enqueue_new_def Let_def idem_place split: option.splits)
  show ?thesis
  proof (cases "j_idempotencyKey job")
    case (Some k')
    then have "k \<noteq> k'" using assms(2) by simp
    then have "map_of (q_idempotent (snd (enqueue_new cfg now job q))) k = map_of (q_idempotent q) k"
      by (simp only: i Some option.case map_of_update if_False)
    then show ?thesis using assms(1) by (simp only: holds_key_def i Some option.case distinct_keys_update simp_thms)
  qed (use assms i in \<open>simp add: holds_key_def\<close>)
qed (use assms in \<open>simp add: enqueue_new_def\<close>)

lemma holds_key_enqueue:
  assumes "holds_key k r e q" "now < e"
  shows "holds_key k r e (snd (enqueue cfg now i tok opts eo q))"
proof (cases "q_closed q \<or> eo_idempotencyKey eo = None")
  case True
  then show ?thesis using assms holds_key_enqueue_new[OF assms(1), of "new_job cfg now i tok opts eo"]
    by (auto simp: enqueue_def new_job_def Let_def)
next
  case False
  then obtain k' where k': "eo_idempotencyKey eo = Some k'" "\<not> q_closed q" by auto
  obtain x q1 where x: "findIdempotent now k' q = (x, q1)" by fastforce
  note fe = findIdempotent_entry[of q k r e now]
  have q1: "holds_key k r e q1" using fe(1,3)[of k'] assms unfolding holds_key_def x snd_conv by blast
  show ?thesis
  proof (cases x)
    case (Some y)
    then show ?thesis using q1 k' x by (simp add: enqueue_def)
  next
    case None
    then have "k' \<noteq> k" using fe(2) assms x by (auto simp: holds_key_def)
    then have "j_idempotencyKey (new_job cfg now i tok opts eo) \<noteq> Some k" using k' by (simp add: new_job_def Let_def)
    then show ?thesis using holds_key_enqueue_new[OF q1] k' x None by (simp add: enqueue_def)
  qed
qed

text \<open>Every enqueue of the run happens before time e.\<close>

fun enqueues_before :: "int \<Rightarrow> q_op list \<Rightarrow> bool" where
  "enqueues_before e [] = True"
| "enqueues_before e (OpEnqueue now i tok opts eo # ops) = (now < e \<and> enqueues_before e ops)"
| "enqueues_before e (op # ops) = enqueues_before e ops"

lemma holds_key_run:
  "holds_key k r e q \<Longrightarrow> enqueues_before e ops \<Longrightarrow> holds_key k r e (run (q_step cfg) q ops)"
proof (induction ops arbitrary: q)
  case (Cons op ops)
  have "holds_key k r e (q_step cfg q op) \<and> enqueues_before e ops"
  proof (cases "\<exists>now i tok opts eo. op = OpEnqueue now i tok opts eo")
    case True
    then show ?thesis using Cons.prems holds_key_enqueue by auto
  next
    case False
    then have "q_idempotent (q_step cfg q op) = q_idempotent q" by (intro idem_step) blast
    moreover have "enqueues_before e ops" using Cons.prems(2) False by (cases op) auto
    ultimately show ?thesis using Cons.prems(1) by (simp add: holds_key_def)
  qed
  then show ?case using Cons.IH by simp
qed simp


definition keyed :: enqueue_options where
  "keyed = \<lparr> eo_priority = None, eo_sendAt = None, eo_id = None, eo_idempotencyKey = Some ''k'' \<rparr>"


section \<open>Shutdown\<close>

text \<open>C11: shutdown never hangs: with a timeout, the check that follows the deadline, the next
  one and one five seconds later end it, whatever the queue does in between; and when it
  ends the timer is off, no drain() call is left waiting, and the result counts the jobs
  that remain.\<close>

theorem shutdown_terminates:
  assumes "so_timeoutMs so = Some t" "sd_start cfg now so q0 = (s0, q0')"
    "now + t \<le> n1" "sd_check n1 s0 q1 = (s1, q1')" "n1 \<le> n2" "sd_check n2 s1 q2 = (s2, q2')" "n2 + 5000 \<le> n3"
    "sd_check n3 s2 q3 = (s3, q3')"
  shows "(\<exists>res. sd_phase s3 = SdDone res) \<and>
    (\<forall>n s q s' q' res. sd_check n s q = (s', q') \<and> (\<forall>r. sd_phase s \<noteq> SdDone r) \<and> sd_phase s' = SdDone res \<longrightarrow>
       q_timer q' = None \<and> q_drainWaiters q' = [] \<and> sr_remaining res = length (waitingJobs q') \<and>
       sr_cancelled res = q_cancelled q' - sd_before s)"
proof
  have s0: "sd_deadline s0 = Some (now + t)" "sd_phase s0 = SdDrain \<or> sd_phase s0 = SdWait"
    using assms(1,2) by (auto simp: sd_start_def sd_close_def Let_def split: if_splits)
  have s1: "sd_deadline s1 = Some (now + t) \<and> (sd_phase s1 = SdWait \<or> (sd_phase s1 = SdInterrupted \<and> sd_until s1 = n1 + 5000) \<or> (\<exists>r. sd_phase s1 = SdDone r))"
    using assms(3,4) s0 by (auto simp: sd_check_def sd_close_def sd_finish_def deadline_passed_def Let_def split: if_splits)
  have s2: "(sd_phase s2 = SdInterrupted \<and> sd_until s2 \<le> n2 + 5000) \<or> (\<exists>r. sd_phase s2 = SdDone r)"
    using assms(3,5,6) s1 by (auto simp: sd_check_def sd_finish_def deadline_passed_def Let_def split: if_splits)
  show "\<exists>res. sd_phase s3 = SdDone res"
    using assms(7,8) s2 by (auto simp: sd_check_def sd_finish_def Let_def split: if_splits)
  show "\<forall>n s q s' q' res. sd_check n s q = (s', q') \<and> (\<forall>r. sd_phase s \<noteq> SdDone r) \<and> sd_phase s' = SdDone res \<longrightarrow>
       q_timer q' = None \<and> q_drainWaiters q' = [] \<and> sr_remaining res = length (waitingJobs q') \<and>
       sr_cancelled res = q_cancelled q' - sd_before s"
    by (auto simp: sd_check_def sd_finish_def sd_close_def rejectDrainWaiters_def fold_emit Let_def split: sd_phase.splits if_splits)
qed

lemma shutdown_terminates_witness:
  "\<exists>res. sd_phase (fst (sd_check 5300 (fst (sd_check 300 (fst (sd_check 200
     (fst (sd_start demo_cfg 100 \<lparr> so_timeoutMs = Some 100, so_pending = None \<rparr> demo_state)) demo_state)) demo_state)) demo_state)) = SdDone res"
proof -
  let ?a = "sd_start demo_cfg 100 \<lparr> so_timeoutMs = Some 100, so_pending = None \<rparr> demo_state"
  let ?b = "sd_check 200 (fst ?a) demo_state" and ?c = "sd_check 300 (fst (sd_check 200 (fst ?a) demo_state)) demo_state"
  show ?thesis
    using shutdown_terminates[of "\<lparr> so_timeoutMs = Some 100, so_pending = None \<rparr>" 100 demo_cfg 100 demo_state "fst ?a" "snd ?a"
        200 demo_state "fst ?b" "snd ?b" 300 demo_state "fst ?c" "snd ?c" 5300 demo_state "fst (sd_check 5300 (fst ?c) demo_state)" "snd (sd_check 5300 (fst ?c) demo_state)"]
    by simp
qed

end
