(* ===== verification/MailWorker.thy ===== *)
theory MailWorker
  imports MailQueueProps
begin

text \<open>
  The bridge between an external queue backend and the mail queue: src/src/queue/MailWorker.ts and the
  driver interface of src/src/queue/QueueDriver.ts.  The driver is the environment: what dequeue()
  returns arrives with the steps, the other calls to it are recorded.  The worker's handlers of the queue's
  events touch only the worker, so they run after the queue operation, in the order of its events.
\<close>

section \<open>State\<close>

record driver_message =
  dm_id :: string
  dm_data :: email_options
  dm_priority :: "job_priority option"
  dm_idempotencyKey :: "string option"

datatype driver_call = DAck string | DNack string "mail_error option" | DCancel string | DRelease string

primrec call_id :: "driver_call \<Rightarrow> string" where
  "call_id (DAck i) = i" | "call_id (DNack i e) = i" | "call_id (DCancel i) = i" | "call_id (DRelease i) = i"

text \<open>Where the consume loop is: not running, at one of its awaits, or about to go on after one.\<close>

datatype loop_at = LoopIdle | LoopWaitSlot | LoopDequeue | LoopReleasing | LoopSleep | LoopWoken

datatype worker_stop = WsRunning | WsLoop | WsQueue shutdown_state | WsStopped

record worker_cfg =
  wc_queue :: queue_cfg
  wc_maxHeld :: nat
  wc_hasRelease :: bool
  wc_hasCancel :: bool

record mail_worker =
  w_queue :: mail_queue
  w_consuming :: bool
  w_loop :: loop_at
  w_chained :: nat
  w_idMap :: "(string, string) jsmap"
  w_slotWaiter :: bool
  w_stop :: worker_stop
  w_seen :: nat
  w_calls :: "driver_call list"
  w_taken :: "string list"
  w_lost :: "string list"

definition new_worker_cfg :: "queue_options \<Rightarrow> nat option \<Rightarrow> bool \<Rightarrow> bool \<Rightarrow> worker_cfg" where
  "new_worker_cfg qo prefetch hasRelease hasCancel =
     \<lparr> wc_queue = new_queue_cfg qo False,
       wc_maxHeld = or_default (qo_concurrency qo) 3 + (case prefetch of Some n \<Rightarrow> n | None \<Rightarrow> or_default (qo_concurrency qo) 3),
       wc_hasRelease = hasRelease, wc_hasCancel = hasCancel \<rparr>"

definition new_worker :: "worker_cfg \<Rightarrow> int \<Rightarrow> mail_worker" where
  "new_worker cfg now = \<lparr> w_queue = setSendFn (wc_queue cfg) now new_queue, w_consuming = False, w_loop = LoopIdle, w_chained = 0,
     w_idMap = [], w_slotWaiter = False, w_stop = WsRunning, w_seen = 0, w_calls = [], w_taken = [], w_lost = [] \<rparr>"

section \<open>Settling messages\<close>

text \<open>The callback in slotWaiter resolves the await of the loop.\<close>

definition wakeSlot :: "mail_worker \<Rightarrow> mail_worker" where
  "wakeSlot w = (if w_slotWaiter w then w \<lparr> w_slotWaiter := False, w_loop := LoopWoken \<rparr> else w)"

definition settle_message :: "string \<Rightarrow> (string \<Rightarrow> driver_call) \<Rightarrow> mail_worker \<Rightarrow> mail_worker" where
  "settle_message jobId action w = (case map_of (w_idMap w) jobId of
     None \<Rightarrow> w
   | Some d \<Rightarrow> (let w1 = wakeSlot (w \<lparr> w_idMap := AList.delete jobId (w_idMap w) \<rparr>)
               in w1 \<lparr> w_calls := w_calls w1 @ [action d] \<rparr>))"

definition on_queue_event :: "worker_cfg \<Rightarrow> mail_worker \<Rightarrow> q_event \<Rightarrow> mail_worker" where
  "on_queue_event cfg w ev = (case ev of
     EvSuccess r res \<Rightarrow> settle_message (id_of (w_queue w) r) DAck w
   | EvDead r errs \<Rightarrow> settle_message (id_of (w_queue w) r)
       (\<lambda>d. DNack d (if j_errors (job_of (w_queue w) r) = [] then None else Some (last (j_errors (job_of (w_queue w) r))))) w
   | EvCancelled r \<Rightarrow> settle_message (id_of (w_queue w) r) (if wc_hasCancel cfg then DCancel else DAck) w
   | _ \<Rightarrow> w)"

text \<open>A new state of the queue: its handlers see the events emitted since the last one.\<close>

definition after_queue :: "worker_cfg \<Rightarrow> mail_queue \<Rightarrow> mail_worker \<Rightarrow> mail_worker" where
  "after_queue cfg q w = foldl (on_queue_event cfg) (w \<lparr> w_queue := q, w_seen := length (q_trace q) \<rparr>) (drop (w_seen w) (q_trace q))"

section \<open>The consume loop\<close>

text \<open>The head of the loop; a loop that ends lets the next one start, which may have been chained to it.\<close>

fun loop_head_from :: "worker_cfg \<Rightarrow> nat \<Rightarrow> mail_worker \<Rightarrow> mail_worker" where
  "loop_head_from cfg chained w =
     (if w_consuming w
      then (if length (w_idMap w) \<ge> wc_maxHeld cfg then w \<lparr> w_loop := LoopWaitSlot, w_slotWaiter := True, w_chained := chained \<rparr>
            else w \<lparr> w_loop := LoopDequeue, w_chained := chained \<rparr>)
      else (case chained of 0 \<Rightarrow> w \<lparr> w_loop := LoopIdle, w_chained := 0 \<rparr> | Suc n \<Rightarrow> loop_head_from cfg n w))"

declare loop_head_from.simps [simp del]

definition loop_head :: "worker_cfg \<Rightarrow> mail_worker \<Rightarrow> mail_worker" where
  "loop_head cfg w = loop_head_from cfg (w_chained w) w"

definition loop_break :: "worker_cfg \<Rightarrow> mail_worker \<Rightarrow> mail_worker" where
  "loop_break cfg w = (case w_chained w of 0 \<Rightarrow> w \<lparr> w_loop := LoopIdle \<rparr> | Suc n \<Rightarrow> loop_head_from cfg n w)"

definition loop_sleep :: "mail_worker \<Rightarrow> mail_worker" where
  "loop_sleep w = w \<lparr> w_loop := LoopSleep, w_slotWaiter := True \<rparr>"

definition startLoop :: "worker_cfg \<Rightarrow> mail_worker \<Rightarrow> mail_worker" where
  "startLoop cfg w =
     (if w_consuming w then w
      else let w1 = w \<lparr> w_consuming := True \<rparr> in
        if w_loop w1 = LoopIdle then loop_head cfg w1 else w1 \<lparr> w_chained := Suc (w_chained w1) \<rparr>)"

definition worker_resume :: "worker_cfg \<Rightarrow> int \<Rightarrow> mail_worker \<Rightarrow> mail_worker" where
  "worker_resume cfg now w = startLoop cfg (after_queue cfg (resume (wc_queue cfg) now (w_queue w)) w)"

definition worker_pause :: "worker_cfg \<Rightarrow> mail_worker \<Rightarrow> mail_worker" where
  "worker_pause cfg w = wakeSlot (after_queue cfg (pause (w_queue w)) (w \<lparr> w_consuming := False \<rparr>))"

text \<open>dequeue() has returned a message or null, or the await of it has thrown.\<close>

definition job_finished :: "q_job \<Rightarrow> bool" where
  "job_finished j \<longleftrightarrow> j_status j = StSuccess \<or> j_status j = StDead \<or> j_status j = StCancelled"

definition accept_message :: "worker_cfg \<Rightarrow> int \<Rightarrow> string \<Rightarrow> string \<Rightarrow> driver_message \<Rightarrow> mail_worker \<Rightarrow> mail_worker" where
  "accept_message cfg now newId token m w =
     (let eo = \<lparr> eo_priority = dm_priority m, eo_sendAt = None, eo_id = None, eo_idempotencyKey = dm_idempotencyKey m \<rparr>;
          (res, q) = enqueue (wc_queue cfg) now newId token (dm_data m) eo (w_queue w);
          w1 = after_queue cfg q w
      in case res of
           Inl e \<Rightarrow> loop_sleep (w1 \<lparr> w_lost := dm_id m # w_lost w1 \<rparr>)
         | Inr r \<Rightarrow>
             (if map_of (w_idMap w1) (id_of q r) \<noteq> None \<or> job_finished (job_of q r)
              then loop_head cfg (w1 \<lparr> w_calls := w_calls w1 @ [DAck (dm_id m)] \<rparr>)
              else loop_head cfg (w1 \<lparr> w_idMap := AList.update (id_of q r) (dm_id m) (w_idMap w1) \<rparr>)))"

definition dequeued :: "worker_cfg \<Rightarrow> int \<Rightarrow> string \<Rightarrow> string \<Rightarrow> driver_message option \<Rightarrow> mail_worker \<Rightarrow> mail_worker" where
  "dequeued cfg now newId token msg w =
     (let w1 = (case msg of None \<Rightarrow> w | Some m \<Rightarrow> w \<lparr> w_taken := dm_id m # w_taken w \<rparr>) in
      if \<not> w_consuming w1 then
        (case msg of None \<Rightarrow> loop_break cfg w1
         | Some m \<Rightarrow> if wc_hasRelease cfg then w1 \<lparr> w_calls := w_calls w1 @ [DRelease (dm_id m)], w_loop := LoopReleasing \<rparr>
                     else loop_break cfg (w1 \<lparr> w_lost := dm_id m # w_lost w1 \<rparr>))
      else (case msg of None \<Rightarrow> loop_sleep w1 | Some m \<Rightarrow> accept_message cfg now newId token m w1))"

section \<open>Shutdown\<close>

definition worker_shutdown :: "mail_worker \<Rightarrow> mail_worker" where
  "worker_shutdown w = wakeSlot (w \<lparr> w_consuming := False, w_stop := WsLoop \<rparr>)"

definition release_held :: "worker_cfg \<Rightarrow> mail_worker \<Rightarrow> mail_worker" where
  "release_held cfg w =
     (let held = jsvals (w_idMap w); w1 = w \<lparr> w_idMap := [] \<rparr> in
      if wc_hasRelease cfg then w1 \<lparr> w_calls := w_calls w1 @ map DRelease held \<rparr> else w1 \<lparr> w_lost := held @ w_lost w1 \<rparr>)"

definition shutdown_progress :: "worker_cfg \<Rightarrow> shutdown_state \<Rightarrow> mail_worker \<Rightarrow> mail_worker" where
  "shutdown_progress cfg s w = (case sd_phase s of
     SdDone r \<Rightarrow> (release_held cfg w) \<lparr> w_stop := WsStopped \<rparr>
   | _ \<Rightarrow> w \<lparr> w_stop := WsQueue s \<rparr>)"

definition shutdown_queue :: "worker_cfg \<Rightarrow> int \<Rightarrow> int option \<Rightarrow> mail_worker \<Rightarrow> mail_worker" where
  "shutdown_queue cfg now timeoutMs w =
     (let (s, q) = sd_start (wc_queue cfg) now \<lparr> so_timeoutMs = timeoutMs, so_pending = Some SpKeep \<rparr> (w_queue w)
      in shutdown_progress cfg s (after_queue cfg q w))"

definition shutdown_check :: "worker_cfg \<Rightarrow> int \<Rightarrow> mail_worker \<Rightarrow> mail_worker" where
  "shutdown_check cfg now w = (case w_stop w of
     WsQueue s \<Rightarrow> (let (s1, q) = sd_check now s (w_queue w) in shutdown_progress cfg s1 (after_queue cfg q w))
   | _ \<Rightarrow> w)"

section \<open>Runs\<close>

datatype worker_op = WResume int | WPause | WContinue | WDequeued int string string "driver_message option" | WDequeueFailed
  | WReleased | WSleepDone | WQueue q_op | WShutdown | WShutdownQueue int "int option" | WShutdownCheck int

primrec worker_step :: "worker_cfg \<Rightarrow> mail_worker \<Rightarrow> worker_op \<Rightarrow> mail_worker" where
  "worker_step cfg w (WResume now) = worker_resume cfg now w"
| "worker_step cfg w WPause = worker_pause cfg w"
| "worker_step cfg w WContinue = loop_head cfg w"
| "worker_step cfg w (WDequeued now i t m) = dequeued cfg now i t m w"
| "worker_step cfg w WDequeueFailed = loop_sleep w"
| "worker_step cfg w WReleased = loop_break cfg w"
| "worker_step cfg w WSleepDone = wakeSlot w"
| "worker_step cfg w (WQueue x) = after_queue cfg (q_step (wc_queue cfg) (w_queue w) x) w"
| "worker_step cfg w WShutdown = worker_shutdown w"
| "worker_step cfg w (WShutdownQueue now t) = shutdown_queue cfg now t w"
| "worker_step cfg w (WShutdownCheck now) = shutdown_check cfg now w"

primrec worker_ok :: "mail_worker \<Rightarrow> worker_op \<Rightarrow> bool" where
  "worker_ok w (WResume now) = (w_stop w = WsRunning)"
| "worker_ok w WPause = True"
| "worker_ok w WContinue = (w_loop w = LoopWoken)"
| "worker_ok w (WDequeued now i t m) = (w_loop w = LoopDequeue)"
| "worker_ok w WDequeueFailed = (w_loop w = LoopDequeue)"
| "worker_ok w WReleased = (w_loop w = LoopReleasing)"
| "worker_ok w WSleepDone = (w_loop w = LoopSleep)"
| "worker_ok w (WQueue x) = q_ok (w_queue w) x"
| "worker_ok w WShutdown = (w_stop w = WsRunning)"
| "worker_ok w (WShutdownQueue now t) = (w_stop w = WsLoop \<and> w_loop w = LoopIdle)"
| "worker_ok w (WShutdownCheck now) = True"

section \<open>The invariant\<close>

text \<open>A loop that waits for a slot has no slot, and its callback is in place; the callback belongs to a
  waiting or sleeping loop; nothing is held beyond the limit.\<close>

definition loop_ok :: "worker_cfg \<Rightarrow> mail_worker \<Rightarrow> bool" where
  "loop_ok cfg w \<longleftrightarrow> length (w_idMap w) \<le> wc_maxHeld cfg \<and>
     (w_slotWaiter w \<longleftrightarrow> w_loop w = LoopWaitSlot \<or> w_loop w = LoopSleep) \<and>
     (w_loop w = LoopWaitSlot \<longrightarrow> length (w_idMap w) = wc_maxHeld cfg) \<and>
     (w_loop w = LoopDequeue \<longrightarrow> length (w_idMap w) < wc_maxHeld cfg)"

text \<open>Every message taken from the driver is settled, held or lost, each exactly once.\<close>

definition accounted :: "mail_worker \<Rightarrow> bool" where
  "accounted w \<longleftrightarrow> distinct (jskeys (w_idMap w)) \<and>
     mset (w_taken w) = mset (map call_id (w_calls w)) + mset (jsvals (w_idMap w)) + mset (w_lost w)"

definition worker_inv :: "worker_cfg \<Rightarrow> mail_worker \<Rightarrow> bool" where
  "worker_inv cfg w \<longleftrightarrow> loop_ok cfg w \<and> accounted w"

lemma wake_fields [simp]: "w_idMap (wakeSlot w) = w_idMap w" "w_calls (wakeSlot w) = w_calls w" "w_taken (wakeSlot w) = w_taken w"
  "w_lost (wakeSlot w) = w_lost w" "w_consuming (wakeSlot w) = w_consuming w" "w_queue (wakeSlot w) = w_queue w"
  by (simp_all add: wakeSlot_def)

lemma wake_inv: "worker_inv cfg w \<Longrightarrow> worker_inv cfg (wakeSlot w)"
  by (auto simp: worker_inv_def loop_ok_def accounted_def wakeSlot_def)

lemma settle_inv:
  assumes "worker_inv cfg w" "\<And>d. call_id (action d) = d"
  shows "worker_inv cfg (settle_message i action w)"
proof (cases "map_of (w_idMap w) i")
  case None
  then show ?thesis using assms(1) by (simp add: settle_message_def)
next
  case (Some d)
  have dist: "distinct (jskeys (w_idMap w))" using assms(1) by (simp add: worker_inv_def accounted_def)
  have m: "mset (jsvals (w_idMap w)) = add_mset d (mset (jsvals (AList.delete i (w_idMap w))))"
    using mset_delete[OF dist Some] by simp
  have "i \<in> set (jskeys (w_idMap w))" using Some by (metis map_of_eq_None_iff option.distinct(1) set_map)
  then have len: "length (AList.delete i (w_idMap w)) < length (w_idMap w)" by (rule length_delete_in)
  show ?thesis using assms m len dist Some
    by (auto simp: settle_message_def worker_inv_def loop_ok_def accounted_def wakeSlot_def Let_def distinct_keys_delete)
qed

lemma event_inv: "worker_inv cfg w \<Longrightarrow> worker_inv cfg (on_queue_event cfg w ev)"
  by (auto simp: on_queue_event_def intro!: settle_inv split: q_event.splits)

lemma inv_queue_frame [simp]: "worker_inv cfg (w\<lparr>w_queue := q\<rparr>) = worker_inv cfg w" "worker_inv cfg (w\<lparr>w_seen := n\<rparr>) = worker_inv cfg w"
  "worker_inv cfg (w\<lparr>w_consuming := b\<rparr>) = worker_inv cfg w" "worker_inv cfg (w\<lparr>w_stop := s\<rparr>) = worker_inv cfg w"
  "worker_inv cfg (w\<lparr>w_chained := k\<rparr>) = worker_inv cfg w"
  by (simp_all add: worker_inv_def loop_ok_def accounted_def)

lemma fold_event_inv: "worker_inv cfg w \<Longrightarrow> worker_inv cfg (foldl (on_queue_event cfg) w es)"
  by (induction es arbitrary: w) (simp_all add: event_inv)

lemma after_queue_inv: "worker_inv cfg w \<Longrightarrow> worker_inv cfg (after_queue cfg q w)"
  by (simp add: after_queue_def fold_event_inv)

text \<open>While no callback is set the handlers leave the loop where it is.\<close>

lemma settle_loop: "\<not> w_slotWaiter w \<Longrightarrow> w_loop (settle_message i a w) = w_loop w \<and> \<not> w_slotWaiter (settle_message i a w)"
  by (auto simp: settle_message_def wakeSlot_def Let_def split: option.splits)

lemma event_loop: "\<not> w_slotWaiter w \<Longrightarrow> w_loop (on_queue_event cfg w ev) = w_loop w \<and> \<not> w_slotWaiter (on_queue_event cfg w ev)"
  using settle_loop by (auto simp: on_queue_event_def split: q_event.splits)

lemma after_queue_loop:
  assumes "\<not> w_slotWaiter w"
  shows "w_loop (after_queue cfg q w) = w_loop w \<and> \<not> w_slotWaiter (after_queue cfg q w)"
proof -
  have "w_loop (foldl (on_queue_event cfg) v es) = w_loop v \<and> \<not> w_slotWaiter (foldl (on_queue_event cfg) v es)"
    if "\<not> w_slotWaiter v" for v es
    using that by (induction es arbitrary: v) (use event_loop in simp_all)
  from this[of "w\<lparr>w_queue := q, w_seen := length (q_trace q)\<rparr>" "drop (w_seen w) (q_trace q)"] assms
  show ?thesis by (simp add: after_queue_def)
qed

lemma settle_consuming: "w_consuming (settle_message i a w) = w_consuming w"
  by (auto simp: settle_message_def Let_def split: option.splits)

lemma loop_head_from_inv:
  "worker_inv cfg w \<Longrightarrow> \<not> w_slotWaiter w \<Longrightarrow> worker_inv cfg (loop_head_from cfg n w)"
proof (induction n)
  case 0
  then show ?case by (subst loop_head_from.simps) (auto simp: worker_inv_def loop_ok_def accounted_def)
next
  case (Suc n)
  then show ?case by (subst loop_head_from.simps) (auto simp: worker_inv_def loop_ok_def accounted_def)
qed

lemma loop_head_inv: "worker_inv cfg w \<Longrightarrow> \<not> w_slotWaiter w \<Longrightarrow> worker_inv cfg (loop_head cfg w)"
  by (simp add: loop_head_def loop_head_from_inv)

lemma loop_break_inv: "worker_inv cfg w \<Longrightarrow> \<not> w_slotWaiter w \<Longrightarrow> worker_inv cfg (loop_break cfg w)"
  by (cases "w_chained w") (simp_all add: loop_break_def loop_head_from_inv, simp add: worker_inv_def loop_ok_def accounted_def)

lemma loop_sleep_inv: "worker_inv cfg w \<Longrightarrow> worker_inv cfg (loop_sleep w)"
  by (simp add: loop_sleep_def worker_inv_def loop_ok_def accounted_def)

lemma startLoop_inv: "worker_inv cfg w \<Longrightarrow> worker_inv cfg (startLoop cfg w)"
  by (auto simp: startLoop_def Let_def intro!: loop_head_inv) (simp add: worker_inv_def loop_ok_def)

definition taken_one :: "string \<Rightarrow> mail_worker \<Rightarrow> bool" where
  "taken_one i w \<longleftrightarrow> distinct (jskeys (w_idMap w)) \<and>
     mset (w_taken w) = add_mset i (mset (map call_id (w_calls w)) + mset (jsvals (w_idMap w)) + mset (w_lost w))"

lemma taken_inv: "worker_inv cfg w \<Longrightarrow> taken_one i (w\<lparr>w_taken := i # w_taken w\<rparr>)"
  by (simp add: taken_one_def worker_inv_def accounted_def)

text \<open>The handlers keep the account with one message in hand.\<close>

lemma settle_taken: "taken_one i w \<Longrightarrow> (\<And>d. call_id (action d) = d) \<Longrightarrow> taken_one i (settle_message j action w)"
proof (cases "map_of (w_idMap w) j")
  case (Some d)
  assume a: "taken_one i w" "\<And>d. call_id (action d) = d"
  have dist: "distinct (jskeys (w_idMap w))" using a by (simp add: taken_one_def)
  have m: "mset (jsvals (w_idMap w)) = add_mset d (mset (jsvals (AList.delete j (w_idMap w))))"
    using mset_delete[OF dist Some] by simp
  show ?thesis using a m dist Some by (auto simp: settle_message_def taken_one_def wakeSlot_def Let_def distinct_keys_delete)
qed (simp add: settle_message_def)

lemma after_queue_taken: "taken_one i w \<Longrightarrow> taken_one i (after_queue cfg q w)"
proof -
  have "taken_one i v \<Longrightarrow> taken_one i (on_queue_event cfg v ev)" for v ev
    by (auto simp: on_queue_event_def intro!: settle_taken split: q_event.splits)
  then have "taken_one i v \<Longrightarrow> taken_one i (foldl (on_queue_event cfg) v es)" for v es
    by (induction es arbitrary: v) auto
  moreover assume "taken_one i w"
  ultimately show ?thesis by (simp add: after_queue_def taken_one_def)
qed

lemma settle_length: "length (w_idMap (settle_message i a w)) \<le> length (w_idMap w)"
  by (auto simp: settle_message_def Let_def length_delete_le split: option.splits)

lemma after_queue_length: "length (w_idMap (after_queue cfg q w)) \<le> length (w_idMap w)"
proof -
  have "length (w_idMap (on_queue_event cfg v ev)) \<le> length (w_idMap v)" for v ev
    using settle_length by (auto simp: on_queue_event_def split: q_event.splits)
  then have "length (w_idMap (foldl (on_queue_event cfg) v es)) \<le> length (w_idMap v)" for v es
    by (induction es arbitrary: v) (auto intro: order_trans)
  from this[of "w\<lparr>w_queue := q, w_seen := length (q_trace q)\<rparr>" "drop (w_seen w) (q_trace q)"]
  show ?thesis by (simp add: after_queue_def)
qed

lemma accept_inv:
  assumes t: "taken_one (dm_id m) w" and l: "loop_ok cfg w" "w_loop w = LoopDequeue"
  shows "worker_inv cfg (accept_message cfg now i tok m w)"
proof -
  obtain res q where e: "enqueue (wc_queue cfg) now i tok (dm_data m)
      \<lparr> eo_priority = dm_priority m, eo_sendAt = None, eo_id = None, eo_idempotencyKey = dm_idempotencyKey m \<rparr> (w_queue w) = (res, q)"
    by fastforce
  let ?w1 = "after_queue cfg q w"
  have t1: "taken_one (dm_id m) ?w1" by (rule after_queue_taken[OF t])
  have sw: "\<not> w_slotWaiter w" using l by (simp add: loop_ok_def)
  note al = after_queue_loop[OF sw, of cfg q]
  have len: "length (w_idMap ?w1) < wc_maxHeld cfg"
    using l after_queue_length[of cfg q w] by (simp add: loop_ok_def)
  have ok1: "loop_ok cfg ?w1" using al l len by (simp add: loop_ok_def)
  have lost: "worker_inv cfg (?w1\<lparr>w_lost := dm_id m # w_lost ?w1\<rparr>)"
    using ok1 t1 by (simp add: worker_inv_def loop_ok_def accounted_def taken_one_def)
  have ack: "worker_inv cfg (?w1\<lparr>w_calls := w_calls ?w1 @ [DAck (dm_id m)]\<rparr>)"
    using ok1 t1 by (simp add: worker_inv_def loop_ok_def accounted_def taken_one_def)
  have held: "worker_inv cfg (loop_head cfg (?w1\<lparr>w_idMap := AList.update j (dm_id m) (w_idMap ?w1)\<rparr>))"
    if "map_of (w_idMap ?w1) j = None" for j
  proof -
    have fresh: "j \<notin> set (jskeys (w_idMap ?w1))" using that by (metis map_of_eq_None_iff set_map)
    let ?w2 = "?w1\<lparr>w_idMap := AList.update j (dm_id m) (w_idMap ?w1)\<rparr>"
    have acc: "accounted ?w2" using t1 fresh
      by (simp add: accounted_def taken_one_def update_fresh)
    have sw2: "\<not> w_slotWaiter ?w2" using al by simp
    have "worker_inv cfg (loop_head_from cfg n ?w2)" for n
    proof (induction n)
      case 0
      then show ?case using acc sw2 len update_fresh[OF fresh]
        by (subst loop_head_from.simps) (auto simp: worker_inv_def loop_ok_def accounted_def)
    next
      case (Suc n)
      then show ?case using acc sw2 len update_fresh[OF fresh]
        by (subst loop_head_from.simps) (auto simp: worker_inv_def loop_ok_def accounted_def)
    qed
    then show ?thesis by (simp add: loop_head_def)
  qed
  show ?thesis
    using lost ack held e al
    by (auto simp: accept_message_def Let_def intro!: loop_sleep_inv loop_head_inv split: sum.splits)
qed

lemma dequeued_inv:
  assumes i: "worker_inv cfg w" and l: "w_loop w = LoopDequeue"
  shows "worker_inv cfg (dequeued cfg now j tok msg w)"
proof -
  have lk: "loop_ok cfg w" using i by (simp add: worker_inv_def)
  then have sw: "\<not> w_slotWaiter w" using l by (simp add: loop_ok_def)
  show ?thesis
  proof (cases msg)
    case None
    then show ?thesis using i sw by (simp add: dequeued_def loop_break_inv loop_sleep_inv)
  next
    case (Some m)
    let ?w1 = "w\<lparr>w_taken := dm_id m # w_taken w\<rparr>"
    have t: "taken_one (dm_id m) ?w1" by (rule taken_inv[OF i])
    have "loop_ok cfg ?w1" using lk by (simp add: loop_ok_def)
    then have acc: "worker_inv cfg (accept_message cfg now j tok m ?w1)" using t l by (intro accept_inv) simp_all
    have rel: "worker_inv cfg (?w1\<lparr>w_calls := w_calls w @ [DRelease (dm_id m)], w_loop := LoopReleasing\<rparr>)"
      using t lk sw by (simp add: worker_inv_def accounted_def taken_one_def loop_ok_def)
    have lost: "worker_inv cfg (?w1\<lparr>w_lost := dm_id m # w_lost w\<rparr>)"
      using t lk by (simp add: worker_inv_def accounted_def taken_one_def loop_ok_def)
    show ?thesis using Some acc rel loop_break_inv[OF lost] sw by (simp add: dequeued_def Let_def)
  qed
qed

lemma call_id_release: "image_mset call_id (image_mset (DRelease \<circ> snd) M) = image_mset snd M"
  by (simp add: image_mset.compositionality comp_def)

lemma release_inv: "worker_inv cfg w \<Longrightarrow> w_loop w \<noteq> LoopWaitSlot \<Longrightarrow> worker_inv cfg (release_held cfg w)"
  by (auto simp: release_held_def worker_inv_def loop_ok_def accounted_def Let_def call_id_release ac_simps)

lemma worker_inv_init: "worker_inv cfg (new_worker cfg now)"
  by (simp add: worker_inv_def loop_ok_def accounted_def new_worker_def)

text \<open>After shutdown() has been called nothing consumes, and once the loop has ended it stays so.\<close>

definition stop_ok :: "mail_worker \<Rightarrow> bool" where
  "stop_ok w \<longleftrightarrow> (w_stop w \<noteq> WsRunning \<longrightarrow> \<not> w_consuming w) \<and>
     ((\<exists>s. w_stop w = WsQueue s) \<or> w_stop w = WsStopped \<longrightarrow> w_loop w = LoopIdle)"

lemma event_stop: "w_stop (on_queue_event cfg w ev) = w_stop w \<and> w_consuming (on_queue_event cfg w ev) = w_consuming w"
  by (auto simp: on_queue_event_def settle_message_def wakeSlot_def Let_def split: q_event.splits option.splits)

lemma after_queue_stop: "w_stop (after_queue cfg q w) = w_stop w \<and> w_consuming (after_queue cfg q w) = w_consuming w"
proof -
  have "w_stop (foldl (on_queue_event cfg) v es) = w_stop v \<and> w_consuming (foldl (on_queue_event cfg) v es) = w_consuming v" for v es
    by (induction es arbitrary: v) (use event_stop in simp_all)
  then show ?thesis by (simp add: after_queue_def)
qed

lemma loop_head_from_stop: "w_stop (loop_head_from cfg n w) = w_stop w \<and> w_consuming (loop_head_from cfg n w) = w_consuming w \<and>
   (\<not> w_consuming w \<longrightarrow> w_loop (loop_head_from cfg n w) = LoopIdle)"
proof (induction n)
  case 0
  then show ?case by (subst (1 2 3) loop_head_from.simps) simp
next
  case (Suc n)
  then show ?case by (subst (1 2 3) loop_head_from.simps) simp
qed

lemma loop_head_stop: "stop_ok w \<Longrightarrow> stop_ok (loop_head cfg w)"
  using loop_head_from_stop[of cfg "w_chained w" w] by (auto simp: stop_ok_def loop_head_def)

lemma loop_break_stop: "stop_ok w \<Longrightarrow> stop_ok (loop_break cfg w)"
  using loop_head_from_stop by (auto simp: stop_ok_def loop_break_def split: nat.splits)

lemma wake_stop: "stop_ok w \<Longrightarrow> loop_ok cfg w \<Longrightarrow> stop_ok (wakeSlot w)"
  by (auto simp: stop_ok_def loop_ok_def wakeSlot_def)

lemma after_queue_stop_ok:
  assumes "stop_ok w" "loop_ok cfg w"
  shows "stop_ok (after_queue cfg q w)"
proof (cases "w_slotWaiter w")
  case True
  then have "w_loop w \<noteq> LoopIdle" using assms(2) by (auto simp: loop_ok_def)
  then show ?thesis using assms(1) after_queue_stop[of cfg q w] by (auto simp: stop_ok_def)
next
  case False
  then show ?thesis using assms(1) after_queue_stop[of cfg q w] after_queue_loop[of w cfg q] by (simp add: stop_ok_def)
qed

definition worker_invariant :: "worker_cfg \<Rightarrow> mail_worker \<Rightarrow> bool" where
  "worker_invariant cfg w \<longleftrightarrow> worker_inv cfg w \<and> stop_ok w"

lemma loop_ok_inv: "worker_inv cfg w \<Longrightarrow> loop_ok cfg w" by (simp add: worker_inv_def)

lemma dequeued_stop:
  assumes "stop_ok w" "w_loop w = LoopDequeue"
  shows "stop_ok (dequeued cfg now j tok msg w)"
proof -
  have r: "\<not> (\<exists>s. w_stop w = WsQueue s)" "w_stop w \<noteq> WsStopped" using assms by (auto simp: stop_ok_def)
  have sleep: "stop_ok (loop_sleep v)" if "w_stop v = w_stop w" "w_consuming v = w_consuming w" for v
    using that r assms(1) by (auto simp: stop_ok_def loop_sleep_def)
  have head: "stop_ok (loop_head cfg v)" if "w_stop v = w_stop w" "w_consuming v = w_consuming w" for v
    using that r assms(1) by (intro loop_head_stop) (auto simp: stop_ok_def)
  have brk: "stop_ok (loop_break cfg v)" if "w_stop v = w_stop w" "w_consuming v = w_consuming w" for v
    using that r assms(1) by (intro loop_break_stop) (auto simp: stop_ok_def)
  have acc: "stop_ok (accept_message cfg now j tok m v)" if "w_stop v = w_stop w" "w_consuming v = w_consuming w" for m v
    using that sleep head after_queue_stop by (auto simp: accept_message_def Let_def split: prod.splits sum.splits)
  have rel: "stop_ok (v\<lparr>w_calls := c, w_loop := LoopReleasing\<rparr>)" if "w_stop v = w_stop w" "w_consuming v = w_consuming w" for v c
    using that r assms(1) by (auto simp: stop_ok_def)
  show ?thesis using sleep acc brk rel by (auto simp: dequeued_def Let_def split: option.splits)
qed

lemma shutdown_progress_inv:
  assumes "worker_inv cfg w" "\<not> w_consuming w" "w_loop w = LoopIdle"
  shows "worker_invariant cfg (shutdown_progress cfg s w)"
proof -
  have r: "worker_inv cfg (release_held cfg w)" using assms by (intro release_inv) simp_all
  have "w_consuming (release_held cfg w) = w_consuming w" "w_loop (release_held cfg w) = w_loop w"
    by (simp_all add: release_held_def Let_def)
  then show ?thesis using assms r
    by (auto simp: shutdown_progress_def worker_invariant_def stop_ok_def split: sd_phase.splits)
qed

lemma worker_step_inv:
  assumes "worker_invariant cfg w" "worker_ok w x"
  shows "worker_invariant cfg (worker_step cfg w x)"
proof -
  have i: "worker_inv cfg w" and s: "stop_ok w" using assms(1) by (simp_all add: worker_invariant_def)
  note l = loop_ok_inv[OF i]
  have aq: "worker_inv cfg (after_queue cfg q w)" "stop_ok (after_queue cfg q w)" for q
    using i s l by (simp_all add: after_queue_inv after_queue_stop_ok)
  have no: "\<not> w_slotWaiter w" if "w_loop w = LoopWoken \<or> w_loop w = LoopDequeue \<or> w_loop w = LoopReleasing \<or> w_loop w = LoopIdle"
    using that l by (auto simp: loop_ok_def)
  show ?thesis
  proof (cases x)
    case (WResume now)
    let ?v = "after_queue cfg (resume (wc_queue cfg) now (w_queue w)) w"
    have "w_stop ?v = WsRunning" using assms(2) WResume after_queue_stop by simp
    then have "stop_ok (startLoop cfg ?v)"
      using loop_head_from_stop by (auto simp: stop_ok_def startLoop_def loop_head_def Let_def)
    then show ?thesis using WResume aq startLoop_inv by (simp add: worker_invariant_def worker_resume_def)
  next
    case WPause
    let ?v = "w\<lparr>w_consuming := False\<rparr>"
    have v: "worker_inv cfg ?v" "stop_ok ?v" using i s by (auto simp: stop_ok_def)
    then have a: "worker_inv cfg (after_queue cfg q ?v)" "stop_ok (after_queue cfg q ?v)" for q
      by (simp_all add: after_queue_inv after_queue_stop_ok loop_ok_inv)
    show ?thesis using WPause wake_inv[OF a(1)] wake_stop[OF a(2) loop_ok_inv[OF a(1)]]
      by (simp add: worker_invariant_def worker_pause_def)
  next
    case WContinue
    then show ?thesis using assms(2) i s no by (simp add: worker_invariant_def loop_head_inv loop_head_stop)
  next
    case (WDequeued now j t m)
    then show ?thesis using assms(2) i s by (simp add: worker_invariant_def dequeued_inv dequeued_stop)
  next
    case WDequeueFailed
    then have "stop_ok (loop_sleep w)" using assms(2) s by (auto simp: stop_ok_def loop_sleep_def)
    then show ?thesis using WDequeueFailed i by (simp add: worker_invariant_def loop_sleep_inv)
  next
    case WReleased
    then show ?thesis using assms(2) i s no by (simp add: worker_invariant_def loop_break_inv loop_break_stop)
  next
    case WSleepDone
    then show ?thesis using i s l by (simp add: worker_invariant_def wake_inv wake_stop)
  next
    case (WQueue y)
    then show ?thesis using aq by (simp add: worker_invariant_def)
  next
    case WShutdown
    let ?v = "w\<lparr>w_consuming := False, w_stop := WsLoop\<rparr>"
    have a: "worker_inv cfg ?v" using i by (simp add: worker_inv_def loop_ok_def accounted_def)
    have b: "stop_ok ?v" by (simp add: stop_ok_def)
    show ?thesis using WShutdown wake_inv[OF a] wake_stop[OF b loop_ok_inv[OF a]]
      by (simp add: worker_invariant_def worker_shutdown_def)
  next
    case (WShutdownQueue now t)
    have c: "\<not> w_consuming w" "w_loop w = LoopIdle" using assms(2) WShutdownQueue s by (auto simp: stop_ok_def)
    then have "worker_invariant cfg (shutdown_progress cfg sd (after_queue cfg q w))" for sd q
      using aq no after_queue_stop after_queue_loop by (intro shutdown_progress_inv) simp_all
    then show ?thesis using WShutdownQueue by (simp add: shutdown_queue_def split: prod.splits)
  next
    case (WShutdownCheck now)
    show ?thesis
    proof (cases "\<exists>sd. w_stop w = WsQueue sd")
      case True
      then have c: "\<not> w_consuming w" "w_loop w = LoopIdle" using s by (auto simp: stop_ok_def)
      then have "worker_invariant cfg (shutdown_progress cfg sd (after_queue cfg q w))" for sd q
        using aq no after_queue_stop after_queue_loop by (intro shutdown_progress_inv) simp_all
      then show ?thesis using WShutdownCheck True by (auto simp: shutdown_check_def split: prod.splits)
    next
      case False
      then show ?thesis using WShutdownCheck assms(1) by (cases "w_stop w") (auto simp: shutdown_check_def)
    qed
  qed
qed

lemma worker_invariant_init: "worker_invariant cfg (new_worker cfg now)"
  using worker_inv_init by (simp add: worker_invariant_def stop_ok_def new_worker_def)

interpretation worker: machine "worker_step cfg" worker_ok "worker_invariant cfg" for cfg
  by unfold_locales (rule worker_step_inv)

text \<open>C21: In every run of a worker, every message taken from the driver is accounted for exactly once: it
  has been acknowledged, rejected, cancelled or released, or is held, or was dropped (a worker without
  driver.release that stops, or a queue that refused it); never more than concurrency + prefetch messages
  are held; and the consume loop never sleeps on a free slot: while it waits for one, all are taken and the
  callback that will wake it is in place.\<close>

theorem worker_settles_each_message_once:
  assumes "legal_run (worker_step cfg) worker_ok (new_worker cfg now) ops"
  shows "let w = run (worker_step cfg) (new_worker cfg now) ops in
    mset (w_taken w) = mset (map call_id (w_calls w)) + mset (jsvals (w_idMap w)) + mset (w_lost w) \<and>
    length (w_idMap w) \<le> wc_maxHeld cfg \<and>
    (w_loop w = LoopWaitSlot \<longrightarrow> w_slotWaiter w \<and> length (w_idMap w) = wc_maxHeld cfg)"
  using worker.inv_run[OF worker_invariant_init assms]
  by (auto simp: worker_invariant_def worker_inv_def loop_ok_def accounted_def Let_def)

definition worker_demo_queue :: queue_options where
  "worker_demo_queue = demo_queue_options\<lparr> qo_concurrency := Some 1, qo_maxRetries := Some 0 \<rparr>"

definition demo_message :: "string \<Rightarrow> driver_message" where
  "demo_message i = \<lparr> dm_id = i, dm_data = demo_mail, dm_priority = None, dm_idempotencyKey = None \<rparr>"

definition worker_demo_ops :: "worker_op list" where
  "worker_demo_ops = [WResume 0, WDequeued 0 ''j1'' ''t'' (Some (demo_message ''m1'')),
     WQueue (OpSettle 5 (1/2) (0, 0) (Rejected (ThrownOther ''net''))), WQueue (OpFinish 5 0)]"

lemma worker_settles_each_message_once_witness:
  "let w = run (worker_step (new_worker_cfg worker_demo_queue (Some 0) True True)) (new_worker (new_worker_cfg worker_demo_queue (Some 0) True True) 0) worker_demo_ops in
     map call_id (w_calls w) = [''m1''] \<and> mset [''m1''] = mset [''m1''] + mset (jsvals (w_idMap w)) + mset (w_lost w)"
proof -
  let ?cfg = "new_worker_cfg worker_demo_queue (Some 0) True True"
  let ?w = "run (worker_step ?cfg) (new_worker ?cfg 0) worker_demo_ops"
  have l: "legal_run (worker_step ?cfg) worker_ok (new_worker ?cfg 0) worker_demo_ops"
    and c: "map call_id (w_calls ?w) = [''m1'']" and t: "w_taken ?w = [''m1'']" by code_simp+
  show ?thesis using worker_settles_each_message_once[OF l] unfolding Let_def c t by simp
qed

text \<open>With the dead-letter queue disabled, a message whose job fails for good is never settled: no
  event reaches the worker, the message keeps its place in idMap, and with the slots used up the loop
  waits for ever: the queue has nothing running, waiting or scheduled and no timer.\<close>

lemma worker_stalls_without_dead_letters:
  "let cfg = new_worker_cfg (worker_demo_queue\<lparr> qo_dlEnabled := Some False \<rparr>) (Some 0) True True;
       w = run (worker_step cfg) (new_worker cfg 0) worker_demo_ops
   in legal_run (worker_step cfg) worker_ok (new_worker cfg 0) worker_demo_ops \<and>
      w_consuming w \<and> w_loop w = LoopWaitSlot \<and> jsvals (w_idMap w) = [''m1''] \<and> w_calls w = [] \<and>
      idleCount (w_queue w) = 0 \<and> q_timer (w_queue w) = None \<and> q_sending (w_queue w) = [] \<and> q_finishing (w_queue w) = []"
  by code_simp

end
