(* ===== verification/SmtpProtocol.thy ===== *)
theory SmtpProtocol
  imports Errors
begin

text \<open>
  The SMTP protocol layer on bytes: replies (src/src/smtp/SmtpReply.ts), command lines, EHLO
  capabilities and dot-stuffing (SmtpCommand.ts), and the reply stream (SmtpStream.ts).
\<close>

section \<open>Replies\<close>

record smtp_reply =
  r_code :: int
  r_lines :: "string list"

definition reply_text :: "smtp_reply \<Rightarrow> string" where
  "reply_text r = js_join [lf] (map (\<lambda>l. js_trim (drop 4 l)) (r_lines r))"

definition reply_firstLine :: "smtp_reply \<Rightarrow> string" where
  "reply_firstLine r = (case r_lines r of [] \<Rightarrow> [] | l # _ \<Rightarrow> l)"

definition isPositive :: "smtp_reply \<Rightarrow> bool" where "isPositive r \<longleftrightarrow> r_code r \<ge> 200 \<and> r_code r < 400"
definition isTransient :: "smtp_reply \<Rightarrow> bool" where "isTransient r \<longleftrightarrow> r_code r \<ge> 400 \<and> r_code r < 500"
definition isPermanent :: "smtp_reply \<Rightarrow> bool" where "isPermanent r \<longleftrightarrow> r_code r \<ge> 500"

section \<open>Capabilities\<close>

record smtp_caps =
  cap_starttls :: bool
  cap_pipelining :: bool
  cap_size :: "int option"
  cap_auth :: "string list"
  cap_eightBitMime :: bool
  cap_smtpUtf8 :: bool
  cap_chunking :: bool

definition no_caps :: smtp_caps where
  "no_caps = \<lparr> cap_starttls = False, cap_pipelining = False, cap_size = None, cap_auth = [],
     cap_eightBitMime = False, cap_smtpUtf8 = False, cap_chunking = False \<rparr>"

text \<open>split on runs of white space, empty pieces dropped\<close>

fun js_words_acc :: "string \<Rightarrow> string \<Rightarrow> string list" where
  "js_words_acc w [] = (if w = [] then [] else [rev w])"
| "js_words_acc w (c # s) = (if js_ws c then (if w = [] then js_words_acc [] s else rev w # js_words_acc [] s) else js_words_acc (c # w) s)"

definition js_words :: "string \<Rightarrow> string list" where "js_words s = js_words_acc [] s"

definition starts_with :: "string \<Rightarrow> string \<Rightarrow> bool" where "starts_with p s \<longleftrightarrow> take (length p) s = p"

definition add_capability :: "smtp_caps \<Rightarrow> string \<Rightarrow> smtp_caps" where
  "add_capability caps line =
     (let keyword = ascii_upper (drop 4 line) in
      if keyword = ''STARTTLS'' then caps \<lparr> cap_starttls := True \<rparr>
      else if keyword = ''PIPELINING'' then caps \<lparr> cap_pipelining := True \<rparr>
      else if keyword = ''8BITMIME'' then caps \<lparr> cap_eightBitMime := True \<rparr>
      else if keyword = ''SMTPUTF8'' then caps \<lparr> cap_smtpUtf8 := True \<rparr>
      else if keyword = ''CHUNKING'' then caps \<lparr> cap_chunking := True \<rparr>
      else if starts_with ''SIZE'' keyword then
        caps \<lparr> cap_size := Some (case js_parseInt (js_trim (drop 5 keyword)) of None \<Rightarrow> 0 | Some n \<Rightarrow> n) \<rparr>
      else if starts_with ''AUTH'' keyword then caps \<lparr> cap_auth := js_words (drop 5 keyword) \<rparr>
      else caps)"

definition parseCapabilities :: "string list \<Rightarrow> smtp_caps" where
  "parseCapabilities lines = foldl add_capability no_caps (drop 1 lines)"

section \<open>Commands\<close>

text \<open>JSON.stringify of a string\<close>

definition hex_digit :: "nat \<Rightarrow> char" where "hex_digit d = (if d < 10 then digit_char d else char_of (87 + d))"

definition json_char :: "char \<Rightarrow> string" where
  "json_char c = (let n = (of_char c :: nat) in
     if c = dquote \<or> c = backslash then [backslash, c]
     else if n = 8 then [backslash, CHR ''b''] else if n = 9 then [backslash, CHR ''t'']
     else if n = 10 then [backslash, CHR ''n''] else if n = 12 then [backslash, CHR ''f'']
     else if n = 13 then [backslash, CHR ''r'']
     else if n < 32 then backslash # ''u00'' @ [hex_digit (n div 16), hex_digit (n mod 16)]
     else [c])"

definition json_quote :: "string \<Rightarrow> string" where "json_quote s = dquote # concat (map json_char s) @ [dquote]"

definition envelopeAddr :: "string \<Rightarrow> mail_error + string" where
  "envelopeAddr email = (if list_ex (\<lambda>c. c = cr \<or> c = lf \<or> c = CHR ''<'' \<or> c = CHR ''>'' \<or> js_ws c) email
     then Inl (MimeError (''Invalid envelope address: '' @ json_quote email)) else Inr email)"

definition cmd_ehlo :: "string \<Rightarrow> string" where "cmd_ehlo n = ''EHLO '' @ n"
definition cmd_helo :: "string \<Rightarrow> string" where "cmd_helo n = ''HELO '' @ n"
definition cmd_authPlain :: "string \<Rightarrow> string" where "cmd_authPlain p = ''AUTH PLAIN '' @ p"
definition cmd_authXOAuth2 :: "string \<Rightarrow> string" where "cmd_authXOAuth2 p = ''AUTH XOAUTH2 '' @ p"

definition cmd_mailFrom :: "string \<Rightarrow> string list \<Rightarrow> mail_error + string" where
  "cmd_mailFrom email params = (case envelopeAddr email of Inl e \<Rightarrow> Inl e
     | Inr a \<Rightarrow> Inr (''MAIL FROM:<'' @ a @ ''>'' @ (if params = [] then [] else '' '' @ js_join '' '' params)))"

definition cmd_rcptTo :: "string \<Rightarrow> mail_error + string" where
  "cmd_rcptTo email = (case envelopeAddr email of Inl e \<Rightarrow> Inl e | Inr a \<Rightarrow> Inr (''RCPT TO:<'' @ a @ ''>''))"

lemma crlf_ws: "js_ws cr" "js_ws lf"
  by (simp_all add: js_ws_def cr_def lf_def)

lemma envelopeAddr_clean: "envelopeAddr a = Inr b \<Longrightarrow> b = a \<and> (\<forall>c\<in>set b. c \<noteq> cr \<and> c \<noteq> lf \<and> c \<noteq> CHR ''<'' \<and> c \<noteq> CHR ''>'' \<and> \<not> js_ws c)"
  by (auto simp: envelopeAddr_def list_ex_iff split: if_splits)

section \<open>Dot-stuffing\<close>

definition dot :: char where "dot = CHR ''.''"

lemma dot_neq: "dot \<noteq> lf" "lf \<noteq> dot" "dot \<noteq> cr" "cr \<noteq> dot" "cr \<noteq> lf" "lf \<noteq> cr"
  by (simp_all add: dot_def lf_def cr_def)

text \<open>replace of every line feed followed by a dot\<close>

fun stuff :: "string \<Rightarrow> string" where
  "stuff [] = []"
| "stuff (c # s) = (if c = lf \<and> s \<noteq> [] \<and> hd s = dot then c # dot # stuff s else c # stuff s)"

definition ends_with :: "string \<Rightarrow> string \<Rightarrow> bool" where
  "ends_with p s \<longleftrightarrow> starts_with (rev p) (rev s)"

lemma ends_crlf_snoc: "ends_with crlf (u @ [c]) \<longleftrightarrow> c = lf \<and> u \<noteq> [] \<and> last u = cr"
  by (cases u rule: rev_cases) (auto simp: ends_with_def starts_with_def crlf_def)

lemma ends_crlf_nil: "\<not> ends_with crlf []"
  by (simp add: ends_with_def starts_with_def crlf_def)

lemma ends_crlf_iff: "ends_with crlf s \<longleftrightarrow> (\<exists>t. s = t @ crlf)"
proof (cases s rule: rev_cases)
  case (snoc u c)
  then show ?thesis by (cases u rule: rev_cases) (auto simp: ends_with_def starts_with_def crlf_def)
qed (simp add: ends_with_def starts_with_def crlf_def)

definition dotStuff :: "string \<Rightarrow> string" where
  "dotStuff raw =
     (let s1 = (if starts_with [dot] raw then dot # raw else raw);
          s2 = stuff s1;
          tail = (if ends_with crlf s2 then [dot] @ crlf else crlf @ [dot] @ crlf)
      in s2 @ tail)"

text \<open>What a receiver does with the lines before the terminator: one leading dot is dropped.\<close>

fun unstuff :: "bool \<Rightarrow> string \<Rightarrow> string" where
  "unstuff bol [] = []"
| "unstuff bol (c # s) = (if bol \<and> c = dot then unstuff False s else c # unstuff (c = lf) s)"

lemma unstuff_stuff: "\<not> bol \<or> s = [] \<or> hd s \<noteq> dot \<Longrightarrow> unstuff bol (stuff s) = s"
proof (induction s arbitrary: bol)
  case (Cons c s)
  show ?case
  proof (cases "c = lf \<and> s \<noteq> [] \<and> hd s = dot")
    case True
    then obtain s' where s': "s = dot # s'" by (cases s) auto
    have "unstuff False (stuff s) = s" using Cons.IH[of False] by simp
    then show ?thesis using True dot_neq by simp
  next
    case False
    then have "unstuff (c = lf) (stuff s) = s" using Cons.IH[of "c = lf"] by auto
    then show ?thesis using False Cons.prems by auto
  qed
qed simp

lemma hd_stuff: "s \<noteq> [] \<Longrightarrow> hd (stuff s) = hd s \<and> stuff s \<noteq> []"
  by (cases s) auto

text \<open>After a line feed a stuffed text never has a dot that is not doubled.\<close>

lemma stuff_pairs: "stuff s = p @ lf # dot # q \<Longrightarrow> \<exists>q'. q = dot # q'"
proof (induction s arbitrary: p)
  case (Cons c s)
  show ?case
  proof (cases "c = lf \<and> s \<noteq> [] \<and> hd s = dot")
    case True
    then obtain s' where s': "s = dot # s'" by (cases s) auto
    have st: "stuff (c # s) = lf # dot # stuff s" using True by simp
    show ?thesis
    proof (cases p)
      case Nil
      then have "q = stuff s" using Cons.prems st by simp
      then show ?thesis using s' dot_neq by auto
    next
      case (Cons a p')
      then have e: "dot # stuff s = p' @ lf # dot # q" using Cons.prems st by simp
      then obtain p'' where "p' = dot # p''" using dot_neq by (cases p') auto
      then show ?thesis using e Cons.IH by auto
    qed
  next
    case False
    then have st: "stuff (c # s) = c # stuff s" by auto
    show ?thesis
    proof (cases p)
      case Nil
      then have "c = lf" "stuff s = dot # q" using Cons.prems st by auto
      then show ?thesis using False hd_stuff[of s] by (cases s) auto
    next
      case (Cons a p')
      then have "stuff s = p' @ lf # dot # q" using Cons.prems unfolding st by simp
      then show ?thesis by (rule Cons.IH)
    qed
  qed
qed simp


lemma unstuff_append: "unstuff b (x @ y) = unstuff b x @ unstuff (if x = [] then b else last x = lf) y"
  by (induction x arbitrary: b) (auto simp: dot_neq)

lemma last_stuff: "s \<noteq> [] \<Longrightarrow> stuff s \<noteq> [] \<and> last (stuff s) = last s"
proof (induction s)
  case (Cons c s)
  then show ?case by (cases "s = []") auto
qed simp

lemma stuff_snoc: "stuff (s @ [c]) = stuff s @ (if s \<noteq> [] \<and> last s = lf \<and> c = dot then [dot, dot] else [c])"
proof (induction s)
  case (Cons a s)
  then show ?case by (cases s) (auto simp: dot_neq)
qed auto

lemma ends_crlf_stuff: "ends_with crlf (stuff s) \<longleftrightarrow> ends_with crlf s"
proof (cases s rule: rev_cases)
  case (snoc t c)
  show ?thesis
  proof (cases "c = lf")
    case True
    then have "stuff s = stuff t @ [lf]" using snoc dot_neq by (simp add: stuff_snoc)
    then show ?thesis using snoc True last_stuff[of t] by (cases "t = []") (auto simp: ends_crlf_snoc)
  next
    case False
    have "\<not> ends_with crlf u" if "u \<noteq> []" "last u \<noteq> lf" for u
      using that by (cases u rule: rev_cases) (auto simp: ends_crlf_snoc)
    then show ?thesis using last_stuff[of s] snoc False by auto
  qed
qed (simp add: ends_crlf_nil)

lemma ends_crlf_dot: "ends_with crlf (dot # s) \<longleftrightarrow> ends_with crlf s"
proof (cases s rule: rev_cases)
  case Nil
  then show ?thesis using ends_crlf_snoc[of "[]" dot] by (simp add: ends_crlf_nil)
next
  case (snoc u c)
  then show ?thesis using ends_crlf_snoc[of "dot # u" c] ends_crlf_snoc[of u c] dot_neq by auto
qed

definition stuffed_text :: "string \<Rightarrow> string" where
  "stuffed_text raw = stuff (if starts_with [dot] raw then dot # raw else raw)"

lemma starts_dot: "starts_with [dot] raw \<longleftrightarrow> raw \<noteq> [] \<and> hd raw = dot"
  by (cases raw) (auto simp: starts_with_def)

lemma dotStuff_shape: "dotStuff raw = stuffed_text raw @ (if ends_with crlf raw then [dot] @ crlf else crlf @ [dot] @ crlf)"
  by (simp add: dotStuff_def stuffed_text_def Let_def ends_crlf_stuff ends_crlf_dot)

lemma dotStuff_single_dot:
  assumes "dotStuff raw = p @ lf # dot # q"
  shows "q = crlf \<or> (\<exists>q'. q = dot # q')"
proof -
  let ?s = "stuffed_text raw"
  obtain t where t: "?s @ t = p @ lf # dot # q" "t = [dot] @ crlf \<or> t = crlf @ [dot] @ crlf"
    using assms dotStuff_shape[of raw] by metis
  have pairs: "?s = p @ lf # dot # u \<Longrightarrow> \<exists>q'. u = dot # q'" for u
    unfolding stuffed_text_def by (rule stuff_pairs)
  from t(1) obtain us where "(?s = p @ us \<and> us @ t = lf # dot # q) \<or> (?s @ us = p \<and> t = us @ lf # dot # q)"
    by (auto simp: append_eq_append_conv2)
  then show ?thesis
  proof
    assume u: "?s = p @ us \<and> us @ t = lf # dot # q"
    show ?thesis
    proof (cases us)
      case Nil
      then show ?thesis using u t(2) dot_neq by (auto simp: crlf_def)
    next
      case (Cons a us')
      then show ?thesis using u t(2) pairs dot_neq by (cases us') (auto simp: crlf_def)
    qed
  next
    assume u: "?s @ us = p \<and> t = us @ lf # dot # q"
    show ?thesis
    proof (cases us)
      case Nil
      then show ?thesis using u t(2) dot_neq by (auto simp: crlf_def)
    next
      case (Cons a us')
      have len: "length us + length q + 2 = length t" using u by simp
      show ?thesis
      proof (cases us')
        case Nil
        then show ?thesis using u t(2) dot_neq Cons by (auto simp: crlf_def)
      next
        case (Cons b us'')
        then show ?thesis using u t(2) dot_neq len \<open>us = a # us'\<close> by (cases us'') (auto simp: crlf_def Cons_eq_append_conv)
      qed
    qed
  qed
qed

lemma unstuff_dotStuff:
  "unstuff True (stuffed_text raw) = raw"
proof (cases "starts_with [dot] raw")
  case True
  then show ?thesis using unstuff_stuff[of False raw] dot_neq by (simp add: stuffed_text_def)
next
  case False
  then show ?thesis using unstuff_stuff[of True raw] by (auto simp: stuffed_text_def starts_dot)
qed

lemma dotStuff_first_dot: "dotStuff raw = dot # q \<Longrightarrow> q = crlf \<or> (\<exists>q'. q = dot # q')"
proof (cases "starts_with [dot] raw")
  case True
  assume a: "dotStuff raw = dot # q"
  obtain r where r: "raw = dot # r" using True by (cases raw) (auto simp: starts_dot)
  have "stuffed_text raw = dot # stuff (dot # r)" using True r dot_neq by (simp add: stuffed_text_def)
  then have "stuffed_text raw = dot # dot # stuff r" using dot_neq by simp
  then show ?thesis using a by (auto simp: dotStuff_shape)
next
  case False
  assume a: "dotStuff raw = dot # q"
  show ?thesis
  proof (cases raw)
    case Nil
    then show ?thesis using a dot_neq ends_crlf_nil by (auto simp: dotStuff_shape stuffed_text_def starts_dot crlf_def)
  next
    case (Cons c r)
    then have "hd (stuffed_text raw) = c" "stuffed_text raw \<noteq> []" using hd_stuff[of raw] False by (simp_all add: stuffed_text_def)
    then have "c = dot" using a by (cases "stuffed_text raw") (auto simp: dotStuff_shape)
    then show ?thesis using False Cons by (simp add: starts_dot)
  qed
qed

lemma dotStuff_receiver:
  "\<exists>body. dotStuff raw = body @ [dot] @ crlf \<and> ends_with crlf (crlf @ body) \<and>
     unstuff True body = (if ends_with crlf raw then raw else raw @ crlf)"
proof (cases "ends_with crlf raw")
  case True
  have "ends_with crlf (stuffed_text raw)"
    using True by (simp add: stuffed_text_def ends_crlf_stuff ends_crlf_dot)
  then have "ends_with crlf (crlf @ stuffed_text raw)" by (metis append.assoc ends_crlf_iff)
  then show ?thesis using True unstuff_dotStuff[of raw] by (intro exI[of _ "stuffed_text raw"]) (simp add: dotStuff_shape)
next
  case False
  have "ends_with crlf (crlf @ stuffed_text raw @ crlf)" by (metis append.assoc ends_crlf_iff)
  moreover have "unstuff True (stuffed_text raw @ crlf) = raw @ crlf"
    using unstuff_dotStuff[of raw] dot_neq by (simp add: unstuff_append crlf_def)
  ultimately show ?thesis using False by (intro exI[of _ "stuffed_text raw @ crlf"]) (simp add: dotStuff_shape)
qed

section \<open>The reply stream\<close>

record smtp_stream =
  ss_buf :: string
  ss_lines :: "string list"
  ss_error :: "string option"

definition MAX_LINE :: nat where "MAX_LINE = 8192"
definition MAX_LINES :: nat where "MAX_LINES = 1000"
definition MAX_BUFFER :: nat where "MAX_BUFFER = 65536"

definition new_stream :: smtp_stream where
  "new_stream = \<lparr> ss_buf = [], ss_lines = [], ss_error = None \<rparr>"

text \<open>indexOf of CRLF: the line before it and what follows\<close>

fun cut_crlf :: "string \<Rightarrow> (string \<times> string) option" where
  "cut_crlf [] = None"
| "cut_crlf (c # s) = (if c = cr \<and> s \<noteq> [] \<and> hd s = lf then Some ([], tl s)
     else case cut_crlf s of None \<Rightarrow> None | Some (l, rest) \<Rightarrow> Some (c # l, rest))"

lemma cut_crlf_length: "cut_crlf s = Some (l, rest) \<Longrightarrow> length rest < length s"
  by (induction s arbitrary: l) (auto split: if_splits option.splits)

definition processLine :: "string \<Rightarrow> smtp_stream \<Rightarrow> smtp_stream \<times> smtp_reply list" where
  "processLine line st = (case js_parseInt (take 3 line) of
     None \<Rightarrow> (st, [\<lparr> r_code = 0, r_lines = [line] \<rparr>])
   | Some code \<Rightarrow>
       (if length (ss_lines st) \<ge> MAX_LINES
        then (st \<lparr> ss_error := Some (''SMTP reply exceeds '' @ show_nat MAX_LINES @ '' lines'') \<rparr>, [])
        else let lines = ss_lines st @ [line] in
          (if length line > 3 \<and> line ! 3 = CHR ''-'' then (st \<lparr> ss_lines := lines \<rparr>, [])
           else (st \<lparr> ss_lines := [] \<rparr>, [\<lparr> r_code = code, r_lines = lines \<rparr>]))))"

text \<open>The while loop of _transform over the buffer; a destroyed stream takes no more input.\<close>

function stream_lines :: "string \<Rightarrow> smtp_stream \<Rightarrow> smtp_stream \<times> smtp_reply list" where
  "stream_lines buf st = (if ss_error st \<noteq> None then (st, [])
     else case cut_crlf buf of
       None \<Rightarrow> (st \<lparr> ss_buf := buf \<rparr>, [])
     | Some (line, rest) \<Rightarrow>
         (if length line > MAX_LINE
          then (st \<lparr> ss_buf := rest, ss_error := Some (''SMTP line exceeds maximum length ('' @ show_nat MAX_LINE @ '')'') \<rparr>, [])
          else let (st1, out1) = processLine line (st \<lparr> ss_buf := rest \<rparr>); (st2, out2) = stream_lines rest st1 in (st2, out1 @ out2)))"
  by pat_completeness auto
termination
  by (relation "measure (\<lambda>(buf, st). length buf)") (auto dest: cut_crlf_length)

declare stream_lines.simps [simp del]

definition transform :: "smtp_stream \<Rightarrow> string \<Rightarrow> smtp_stream \<times> smtp_reply list" where
  "transform st chunk =
     (if ss_error st \<noteq> None then (st, [])
      else let buf = ss_buf st @ chunk in
        if length buf > MAX_BUFFER \<and> cut_crlf buf = None
        then (st \<lparr> ss_buf := buf, ss_error := Some (''SMTP reply exceeds '' @ show_nat MAX_BUFFER @ '' bytes without CRLF'') \<rparr>, [])
        else stream_lines buf st)"

definition flush :: "smtp_stream \<Rightarrow> smtp_stream \<times> smtp_reply list" where
  "flush st = (if ss_error st = None \<and> ss_buf st \<noteq> []
     then let (st1, out1) = processLine (ss_buf st) st in (st1 \<lparr> ss_buf := [] \<rparr>, out1) else (st, []))"

text \<open>The buffer of the state is overwritten before anything reads it.\<close>

lemma stream_lines_buf: "ss_error st = None \<Longrightarrow> stream_lines x (st \<lparr> ss_buf := b \<rparr>) = stream_lines x st"
  by (subst (1 2) stream_lines.simps) (simp split: option.splits)

lemma cut_crlf_append: "cut_crlf b = Some (l, rest) \<Longrightarrow> cut_crlf (b @ d) = Some (l, rest @ d)"
proof (induction b arbitrary: l)
  case (Cons c b)
  show ?case
  proof (cases "c = cr \<and> b \<noteq> [] \<and> hd b = lf")
    case True
    then show ?thesis using Cons.prems by auto
  next
    case False
    then obtain l' where l': "cut_crlf b = Some (l', rest)" "l = c # l'" using Cons.prems by (auto split: option.splits if_splits)
    have "b \<noteq> []" using l'(1) by auto
    then show ?thesis using False Cons.IH[OF l'(1)] l'(2) by auto
  qed
qed simp

text \<open>A part without CRLF reaches at most one character into the line break.\<close>

lemma cut_crlf_partial: "cut_crlf b = None \<Longrightarrow> cut_crlf (b @ d) = Some (l, rest) \<Longrightarrow> length b \<le> Suc (length l)"
proof (induction b arbitrary: l)
  case (Cons c b)
  show ?case
  proof (cases "c = cr \<and> b @ d \<noteq> [] \<and> hd (b @ d) = lf")
    case True
    then have "b = []" using Cons.prems(1) by (cases b) (auto split: option.splits if_splits)
    then show ?thesis by simp
  next
    case False
    then obtain l' where l': "cut_crlf (b @ d) = Some (l', rest)" "l = c # l'"
      using Cons.prems(2) by (auto split: option.splits if_splits)
    have "cut_crlf b = None" using Cons.prems(1) by (auto split: option.splits if_splits)
    then show ?thesis using Cons.IH[OF _ l'(1)] l'(2) by simp
  qed
qed simp

lemma processLine_buf: "processLine l st = (st1, o1) \<Longrightarrow> ss_buf st1 = ss_buf st"
  by (auto simp: processLine_def Let_def split: option.splits if_splits)

lemma stream_lines_error: "ss_error st \<noteq> None \<Longrightarrow> stream_lines b st = (st, [])"
  by (simp add: stream_lines.simps)

lemma stream_lines_append:
  "ss_error st = None \<Longrightarrow> ss_error (fst (stream_lines b st)) = None \<Longrightarrow>
   stream_lines (b @ d) st =
     (fst (stream_lines (ss_buf (fst (stream_lines b st)) @ d) (fst (stream_lines b st))),
      snd (stream_lines b st) @ snd (stream_lines (ss_buf (fst (stream_lines b st)) @ d) (fst (stream_lines b st)))) \<and>
   cut_crlf (ss_buf (fst (stream_lines b st))) = None"
proof (induction b st rule: stream_lines.induct)
  case (1 b st)
  show ?case
  proof (cases "cut_crlf b")
    case None
    then have "stream_lines b st = (st \<lparr> ss_buf := b \<rparr>, [])" using 1(2) by (simp add: stream_lines.simps)
    then show ?thesis using None 1(2) by (simp add: stream_lines_buf)
  next
    case (Some p)
    obtain l rest where p: "p = (l, rest)" by (cases p)
    have short: "\<not> length l > MAX_LINE"
      using 1(2,3) Some p by (auto simp: stream_lines.simps[of b st])
    obtain st1 o1 where pl: "processLine l (st \<lparr> ss_buf := rest \<rparr>) = (st1, o1)" by fastforce
    have e: "stream_lines b st = (fst (stream_lines rest st1), o1 @ snd (stream_lines rest st1))"
      using Some p short pl 1(2) by (simp add: stream_lines.simps[of b st] case_prod_beta Let_def)
    have st1: "ss_error st1 = None" using 1(3) e stream_lines_error[of st1 rest] by (cases "ss_error st1") auto
    obtain pl2: "processLine l (st \<lparr> ss_buf := rest @ d \<rparr>) = (st1 \<lparr> ss_buf := rest @ d \<rparr>, o1)"
      using pl st1 1(2) by (auto simp: processLine_def Let_def split: option.splits if_splits)
    have e2: "stream_lines (b @ d) st = (fst (stream_lines (rest @ d) st1), o1 @ snd (stream_lines (rest @ d) st1))"
      using cut_crlf_append[OF Some[unfolded p]] short pl2 1(2) st1
      by (simp add: stream_lines.simps[of "b @ d" st] case_prod_beta Let_def stream_lines_buf)
    have "ss_error (fst (stream_lines rest st1)) = None" using 1(3) e by simp
    then have ih: "stream_lines (rest @ d) st1 =
        (fst (stream_lines (ss_buf (fst (stream_lines rest st1)) @ d) (fst (stream_lines rest st1))),
         snd (stream_lines rest st1) @ snd (stream_lines (ss_buf (fst (stream_lines rest st1)) @ d) (fst (stream_lines rest st1))))
      \<and> cut_crlf (ss_buf (fst (stream_lines rest st1))) = None"
      using "1.IH"[OF _ Some p[symmetric] short refl pl[symmetric] st1] 1(2) by simp
    show ?thesis unfolding e e2 fst_conv snd_conv using ih by simp
  qed
qed

lemma stream_lines_error_append:
  "ss_error (fst (stream_lines b st)) \<noteq> None \<Longrightarrow> ss_error (fst (stream_lines (b @ d) st)) \<noteq> None"
proof (induction b st rule: stream_lines.induct)
  case (1 b st)
  show ?case
  proof (cases "ss_error st")
    case (Some m)
    then show ?thesis by (simp add: stream_lines_error)
  next
    case None
    obtain l rest where p: "cut_crlf b = Some (l, rest)"
      using 1(2) None by (cases "cut_crlf b") (auto simp: stream_lines.simps[of b st])
    note p' = cut_crlf_append[OF p, of d]
    show ?thesis
    proof (cases "length l > MAX_LINE")
      case True
      then show ?thesis using p' None by (simp add: stream_lines.simps[of "b @ d" st])
    next
      case False
      obtain st1 o1 where pl: "processLine l (st \<lparr> ss_buf := rest \<rparr>) = (st1, o1)" by fastforce
      have pl2: "processLine l (st \<lparr> ss_buf := rest @ d \<rparr>) = (st1 \<lparr> ss_buf := rest @ d \<rparr>, o1)"
        using pl by (auto simp: processLine_def Let_def split: option.splits if_splits)
      show ?thesis
      proof (cases "ss_error st1")
        case (Some m)
        then show ?thesis using p' None False pl2
          by (simp add: stream_lines.simps[of "b @ d" st] case_prod_beta Let_def stream_lines_error)
      next
        case None1: None
        have "ss_error (fst (stream_lines rest st1)) \<noteq> None"
          using 1(2) None p False pl by (simp add: stream_lines.simps[of b st] case_prod_beta Let_def)
        then have "ss_error (fst (stream_lines (rest @ d) st1)) \<noteq> None"
          using "1.IH"[OF _ p refl False refl pl[symmetric]] None by simp
        then show ?thesis using p' None False pl2 None1
          by (simp add: stream_lines.simps[of "b @ d" st] case_prod_beta Let_def stream_lines_buf)
      qed
    qed
  qed
qed

text \<open>What the stream accepts: input that does not exceed one of the three limits.\<close>

definition stream_fits :: "smtp_stream \<Rightarrow> string \<Rightarrow> bool" where
  "stream_fits st x \<longleftrightarrow> ss_error st = None \<and> cut_crlf (ss_buf st) = None \<and>
     ss_error (fst (stream_lines (ss_buf st @ x) st)) = None \<and>
     length (ss_buf (fst (stream_lines (ss_buf st @ x) st))) \<le> MAX_BUFFER"

lemma transform_fits: "stream_fits st x \<Longrightarrow> transform st x = stream_lines (ss_buf st @ x) st"
  by (auto simp: stream_fits_def transform_def Let_def stream_lines.simps[of "ss_buf st @ x" st])

lemma stream_fits_first:
  assumes f: "stream_fits st (c @ d)"
  shows "stream_fits st c"
proof -
  let ?b = "ss_buf st @ c"
  have n: "ss_error st = None" "ss_error (fst (stream_lines (?b @ d) st)) = None" using f by (simp_all add: stream_fits_def)
  have e: "ss_error (fst (stream_lines ?b st)) = None" using n(2) stream_lines_error_append by blast
  let ?s1 = "fst (stream_lines ?b st)"
  have a: "fst (stream_lines (?b @ d) st) = fst (stream_lines (ss_buf ?s1 @ d) ?s1)" "cut_crlf (ss_buf ?s1) = None"
    using stream_lines_append[OF n(1) e, of d] by simp_all
  have "length (ss_buf ?s1) \<le> MAX_BUFFER"
  proof (cases "cut_crlf (ss_buf ?s1 @ d)")
    case None
    then have "ss_buf (fst (stream_lines (?b @ d) st)) = ss_buf ?s1 @ d"
      using e unfolding a(1) by (simp add: stream_lines.simps[of "ss_buf ?s1 @ d" ?s1])
    then show ?thesis using f by (simp add: stream_fits_def)
  next
    case (Some p)
    obtain l r where p: "p = (l, r)" by (cases p)
    have "\<not> length l > MAX_LINE"
      using n(2) e Some p unfolding a(1) by (auto simp: stream_lines.simps[of "ss_buf ?s1 @ d" ?s1])
    then show ?thesis using cut_crlf_partial[OF a(2) Some[unfolded p]] by (simp add: MAX_LINE_def MAX_BUFFER_def)
  qed
  then show ?thesis using f e by (simp add: stream_fits_def)
qed

interpretation replies: stream_decoder transform stream_fits
proof (unfold_locales, goal_cases)
  case (1 s)
  then show ?case by (simp add: transform_fits[OF 1] stream_fits_def stream_lines.simps[of "ss_buf s" s])
next
  case (2 s c d)
  then show ?case by (rule stream_fits_first)
next
  case (3 s c d)
  have c: "stream_fits s c" by (rule stream_fits_first[OF 3])
  have n: "ss_error s = None" "ss_error (fst (stream_lines (ss_buf s @ c) s)) = None" using c by (simp_all add: stream_fits_def)
  show ?case using stream_lines_append[OF n, of d] 3 n
    unfolding transform_fits[OF c] by (simp add: stream_fits_def)
next
  case (4 s c d)
  have c: "stream_fits s c" by (rule stream_fits_first[OF 4])
  have n: "ss_error s = None" "ss_error (fst (stream_lines (ss_buf s @ c) s)) = None" using c by (simp_all add: stream_fits_def)
  have d: "stream_fits (fst (stream_lines (ss_buf s @ c) s)) d"
    using stream_lines_append[OF n, of d] 4 n by (simp add: stream_fits_def)
  show ?case using stream_lines_append[OF n, of d]
    unfolding transform_fits[OF c] transform_fits[OF d] transform_fits[OF 4] by simp
qed

section \<open>Replies on the wire\<close>

text \<open>How a server writes a reply: every line but the last has a hyphen after the code.\<close>

fun wire_reply_lines :: "nat \<Rightarrow> string list \<Rightarrow> string list" where
  "wire_reply_lines n [] = []"
| "wire_reply_lines n [t] = [show_nat n @ '' '' @ t]"
| "wire_reply_lines n (t # u # ts) = (show_nat n @ ''-'' @ t) # wire_reply_lines n (u # ts)"

definition wire_reply :: "nat \<times> string list \<Rightarrow> string" where
  "wire_reply r = concat (map (\<lambda>l. l @ crlf) (wire_reply_lines (fst r) (snd r)))"

definition wire_ok :: "nat \<times> string list \<Rightarrow> bool" where
  "wire_ok r \<longleftrightarrow> 100 \<le> fst r \<and> fst r < 1000 \<and> snd r \<noteq> [] \<and> length (snd r) \<le> MAX_LINES \<and>
     list_all (\<lambda>t. cr \<notin> set t \<and> length t + 4 \<le> MAX_LINE) (snd r)"

definition wire_value :: "nat \<times> string list \<Rightarrow> smtp_reply" where
  "wire_value r = \<lparr> r_code = int (fst r), r_lines = wire_reply_lines (fst r) (snd r) \<rparr>"

lemma show_nat_3: assumes "100 \<le> n" "n < 1000" shows "length (show_nat n) = 3"
proof -
  have "\<not> n < 10" "\<not> n div 10 < 10" "n div 10 div 10 < 10" using assms by auto
  then show ?thesis by (simp add: show_nat.simps[of n] show_nat.simps[of "n div 10"] show_nat.simps[of "n div 10 div 10"])
qed

lemma parseInt_show_nat: "js_parseInt (show_nat n) = Some (int n)"
proof -
  obtain c s where s: "show_nat n = c # s" using show_nat_nonempty[of n] by (cases "show_nat n") auto
  have all: "list_all is_digit (c # s)" using show_nat_digits[of n] s by simp
  then have c: "is_digit c" "takeWhile is_digit (c # s) = c # s" by (auto simp: list_all_iff takeWhile_eq_all_conv)
  have w: "\<not> js_ws c" "c \<noteq> CHR ''-''" "c \<noteq> CHR ''+''" using c(1) by (auto simp: is_digit_def js_ws_def Let_def)
  have "read_digits (c # s) = n" using read_show_nat[of n] s by simp
  have "js_ltrim (show_nat n) = c # s" using w s by (simp add: js_ltrim_def)
  then show ?thesis using \<open>read_digits (c # s) = n\<close> c(2) w by (simp only: js_parseInt_def Let_def) simp
qed

lemma show_nat_no_cr: "cr \<notin> set (show_nat n)"
  using show_nat_digits[of n] by (auto simp: list_all_iff is_digit_def cr_def)

lemma cut_crlf_line: "cr \<notin> set l \<Longrightarrow> cut_crlf (l @ crlf @ rest) = Some (l, rest)"
proof (induction l)
  case Nil
  then show ?case by (simp add: crlf_def)
next
  case (Cons c l)
  then show ?case by auto
qed

lemma stream_upd_comm: "st \<lparr> ss_buf := b, ss_lines := l \<rparr> = st \<lparr> ss_lines := l, ss_buf := b \<rparr>"
  by simp

lemma stream_line_last:
  assumes "ss_error st = None" "100 \<le> n" "n < 1000" "cr \<notin> set t" "length t + 4 \<le> MAX_LINE" "length (ss_lines st) < MAX_LINES"
  shows "stream_lines ((show_nat n @ '' '' @ t) @ crlf @ rest) st =
    (let (s2, o2) = stream_lines rest (st \<lparr> ss_lines := [] \<rparr>) in (s2, \<lparr> r_code = int n, r_lines = ss_lines st @ [show_nat n @ '' '' @ t] \<rparr> # o2))"
proof -
  let ?l = "show_nat n @ '' '' @ t"
  note l3 = show_nat_3[OF assms(2,3)]
  have c: "cut_crlf (?l @ crlf @ rest) = Some (?l, rest)"
    using assms(4) show_nat_no_cr by (intro cut_crlf_line) (auto simp: cr_def)
  have p: "processLine ?l (st \<lparr> ss_buf := rest \<rparr>) = (st \<lparr> ss_buf := rest, ss_lines := [] \<rparr>, [\<lparr> r_code = int n, r_lines = ss_lines st @ [?l] \<rparr>])"
    using assms(6) l3 by (simp add: processLine_def parseInt_show_nat nth_append)
  have b: "stream_lines rest (st \<lparr> ss_buf := rest, ss_lines := [] \<rparr>) = stream_lines rest (st \<lparr> ss_lines := [] \<rparr>)"
    using stream_lines_buf[of "st \<lparr> ss_lines := [] \<rparr>" rest rest] assms(1)
    unfolding stream_upd_comm by simp
  have len: "\<not> MAX_LINE < length ?l" using assms(5) l3 by simp
  show ?thesis using c p b len assms(1) by (simp add: stream_lines.simps[of "?l @ crlf @ rest" st] Let_def case_prod_beta del: append_assoc append.simps)
qed

lemma stream_line_more:
  assumes "ss_error st = None" "100 \<le> n" "n < 1000" "cr \<notin> set t" "length t + 4 \<le> MAX_LINE" "length (ss_lines st) < MAX_LINES"
  shows "stream_lines ((show_nat n @ ''-'' @ t) @ crlf @ rest) st =
    stream_lines rest (st \<lparr> ss_lines := ss_lines st @ [show_nat n @ ''-'' @ t] \<rparr>)"
proof -
  let ?l = "show_nat n @ ''-'' @ t"
  note l3 = show_nat_3[OF assms(2,3)]
  have c: "cut_crlf (?l @ crlf @ rest) = Some (?l, rest)"
    using assms(4) show_nat_no_cr by (intro cut_crlf_line) (auto simp: cr_def)
  have p: "processLine ?l (st \<lparr> ss_buf := rest \<rparr>) = (st \<lparr> ss_buf := rest, ss_lines := ss_lines st @ [?l] \<rparr>, [])"
    using assms(6) l3 by (simp add: processLine_def parseInt_show_nat nth_append)
  have b: "stream_lines rest (st \<lparr> ss_buf := rest, ss_lines := ss_lines st @ [?l] \<rparr>) = stream_lines rest (st \<lparr> ss_lines := ss_lines st @ [?l] \<rparr>)"
    using stream_lines_buf[of "st \<lparr> ss_lines := ss_lines st @ [?l] \<rparr>" rest rest] assms(1)
    unfolding stream_upd_comm by simp
  have len: "\<not> MAX_LINE < length ?l" using assms(5) l3 by simp
  show ?thesis using c p b len assms(1) by (simp add: stream_lines.simps[of "?l @ crlf @ rest" st] Let_def case_prod_beta del: append_assoc append.simps(2))
qed

lemma stream_reply:
  assumes "ss_error st = None" "100 \<le> n" "n < 1000" "ts \<noteq> []"
    "list_all (\<lambda>t. cr \<notin> set t \<and> length t + 4 \<le> MAX_LINE) ts" "length (ss_lines st) + length ts \<le> MAX_LINES"
  shows "stream_lines (wire_reply (n, ts) @ rest) st =
    (let (s2, o2) = stream_lines rest (st \<lparr> ss_lines := [] \<rparr>) in (s2, \<lparr> r_code = int n, r_lines = ss_lines st @ wire_reply_lines n ts \<rparr> # o2))"
  using assms
proof (induction n ts arbitrary: st rule: wire_reply_lines.induct)
  case (2 n t)
  then show ?case using stream_line_last[of st n t rest] by (simp add: wire_reply_def)
next
  case (3 n t u ts)
  have w: "wire_reply (n, t # u # ts) @ rest = (show_nat n @ ''-'' @ t) @ crlf @ (wire_reply (n, u # ts) @ rest)"
    by (simp add: wire_reply_def)
  have "stream_lines (wire_reply (n, t # u # ts) @ rest) st =
      stream_lines (wire_reply (n, u # ts) @ rest) (st \<lparr> ss_lines := ss_lines st @ [show_nat n @ ''-'' @ t] \<rparr>)"
    unfolding w using 3 by (intro stream_line_more) auto
  then show ?case using 3 by (simp add: "3.IH")
qed simp

lemma stream_replies:
  "list_all wire_ok rs \<Longrightarrow> stream_lines (concat (map wire_reply rs)) new_stream = (new_stream, map wire_value rs)"
proof (induction rs)
  case Nil
  then show ?case by (simp add: stream_lines.simps new_stream_def)
next
  case (Cons r rs)
  have r: "wire_ok r" using Cons.prems by simp
  have "stream_lines (wire_reply (fst r, snd r) @ concat (map wire_reply rs)) new_stream =
     (let (s2, o2) = stream_lines (concat (map wire_reply rs)) (new_stream \<lparr> ss_lines := [] \<rparr>)
      in (s2, \<lparr> r_code = int (fst r), r_lines = ss_lines new_stream @ wire_reply_lines (fst r) (snd r) \<rparr> # o2))"
    using r by (intro stream_reply) (auto simp: wire_ok_def new_stream_def)
  then show ?case using Cons by (simp add: wire_value_def new_stream_def)
qed

lemma replies_fit: "list_all wire_ok rs \<Longrightarrow> stream_fits new_stream (concat (map wire_reply rs))"
  using stream_replies[of rs] by (simp add: stream_fits_def new_stream_def MAX_BUFFER_def)

text \<open>C13: The commands that carry an address are one line whatever the address is: a line that
  MAIL FROM or RCPT TO builds has no CR and no LF and the address stands in it between angle brackets,
  which it cannot close; any address with a CR, LF, white space or angle bracket is refused with a MimeError.\<close>

theorem envelope_commands_are_one_line:
  assumes "list_all (\<lambda>p. cr \<notin> set p \<and> lf \<notin> set p) params"
  shows "cmd_mailFrom a params = Inl (MimeError (''Invalid envelope address: '' @ json_quote a)) \<and>
           cmd_rcptTo a = Inl (MimeError (''Invalid envelope address: '' @ json_quote a)) \<and>
           (\<exists>c\<in>set a. js_ws c \<or> c = CHR ''<'' \<or> c = CHR ''>'')
       \<or> (\<exists>l r tail. cmd_mailFrom a params = Inr l \<and> cmd_rcptTo a = Inr r \<and>
           set l \<inter> {cr, lf} = {} \<and> set r \<inter> {cr, lf} = {} \<and>
           l = ''MAIL FROM:<'' @ a @ ''>'' @ tail \<and> r = ''RCPT TO:<'' @ a @ ''>'' \<and> CHR ''>'' \<notin> set a)"
proof (cases "envelopeAddr a")
  case (Inl e)
  then show ?thesis using crlf_ws
    by (auto simp: cmd_mailFrom_def cmd_rcptTo_def envelopeAddr_def list_ex_iff split: if_splits)
next
  case (Inr b)
  note clean = envelopeAddr_clean[OF Inr]
  have join: "set (js_join '' '' params) \<inter> {cr, lf} = {}"
    using assms by (induction params rule: induct_list012) (auto simp: cr_def lf_def)
  show ?thesis using Inr clean join
    by (intro disjI2) (auto simp: cmd_mailFrom_def cmd_rcptTo_def cr_def lf_def)
qed

lemma envelope_commands_are_one_line_witness:
  "\<exists>l r tail. cmd_mailFrom ''a@b'' [''SIZE=12'', ''SMTPUTF8''] = Inr l \<and> cmd_rcptTo ''a@b'' = Inr r \<and>
           set l \<inter> {cr, lf} = {} \<and> set r \<inter> {cr, lf} = {} \<and>
           l = ''MAIL FROM:<'' @ ''a@b'' @ ''>'' @ tail \<and> r = ''RCPT TO:<'' @ ''a@b'' @ ''>'' \<and> CHR ''>'' \<notin> set ''a@b''"
proof -
  have "list_all (\<lambda>p. cr \<notin> set p \<and> lf \<notin> set p) [''SIZE=12'', ''SMTPUTF8'']" by (simp add: cr_def lf_def)
  from envelope_commands_are_one_line[OF this, of "''a@b''"] show ?thesis
    by (simp add: js_ws_def)
qed

text \<open>C14: The DATA payload round-trips through dot-stuffing and ends where it should: the receiver
  that stops at the first line holding a single dot and drops one leading dot from every other line gets
  the message (with a final line break), and after any line feed of the payload, the one of the DATA
  command included, a dot is doubled unless it is the terminator at the very end.\<close>

theorem dot_stuffing_ends_once:
  "(\<exists>body. dotStuff raw = body @ [dot] @ crlf \<and> ends_with crlf (crlf @ body) \<and>
      unstuff True body = (if ends_with crlf raw then raw else raw @ crlf)) \<and>
   (\<forall>p q. lf # dotStuff raw = p @ lf # dot # q \<longrightarrow> q = crlf \<or> (\<exists>q'. q = dot # q'))"
proof (intro conjI allI impI)
  fix p q assume a: "lf # dotStuff raw = p @ lf # dot # q"
  show "q = crlf \<or> (\<exists>q'. q = dot # q')"
  proof (cases p)
    case Nil
    then show ?thesis using a dotStuff_first_dot[of raw q] by simp
  next
    case (Cons b p')
    then show ?thesis using a dotStuff_single_dot[of raw p' q] by simp
  qed
qed (rule dotStuff_receiver)

lemma dot_stuffing_ends_once_witness:
  "\<exists>q'. dot # ''a'' @ crlf @ dot # dot # ''b'' @ crlf @ dot # crlf = dot # q'"
proof -
  have "lf # dotStuff (dot # ''a'' @ crlf @ dot # ''b'') = [] @ lf # dot # dot # ''a'' @ crlf @ dot # dot # ''b'' @ crlf @ dot # crlf"
    by code_simp
  with dot_stuffing_ends_once[of "dot # ''a'' @ crlf @ dot # ''b''"]
  have "dot # ''a'' @ crlf @ dot # dot # ''b'' @ crlf @ dot # crlf = crlf \<or>
      (\<exists>q'. dot # ''a'' @ crlf @ dot # dot # ''b'' @ crlf @ dot # crlf = dot # q')" by blast
  then show ?thesis using dot_neq by (auto simp: crlf_def)
qed

text \<open>C12: A server that writes a sequence of well-formed replies (code of three digits, at most
  MAX_LINES lines of at most MAX_LINE characters) is read back exactly, however the network divides the
  bytes into chunks: one SmtpReply per reply, in order, with the code and the raw lines, no error and
  nothing left in the buffer.\<close>

theorem reply_stream_exact:
  "list_all wire_ok rs \<Longrightarrow> concat cs = concat (map wire_reply rs) \<Longrightarrow>
   feed_all transform new_stream cs = (new_stream, map wire_value rs)"
  using replies.feed_chunks[of new_stream cs] replies_fit[of rs] stream_replies[of rs] transform_fits[OF replies_fit[of rs]]
  by (simp add: new_stream_def)

definition demo_replies :: "(nat \<times> string list) list" where
  "demo_replies = [(220, [''hi'']), (250, [''a'', ''SIZE 9'', ''b''])]"

definition demo_chunks :: "string list" where
  "demo_chunks = [''220 '', ''hi'' @ [cr], [lf] @ ''250-a'' @ crlf @ ''250-SI'', ''ZE 9'' @ crlf @ ''250'', '' b'' @ crlf]"

lemma reply_stream_exact_witness:
  "feed_all transform new_stream demo_chunks = (new_stream, map wire_value demo_replies)"
  by (rule reply_stream_exact) code_simp+

end
