(* ===== verification/SmtpPool.thy ===== *)
theory SmtpPool
  imports Errors
begin

text \<open>
  The connection pool src/src/smtp/SmtpPool.ts.  Clients and acquire calls are numbered in the
  order they are made.  The pool's promises are explicit: a caller of acquire is waiting, has its
  connect() under way, holds a client, or has been rejected.  What a client tells the pool (isReady,
  messageCount, its close and error events, the outcome of connect()) arrives with the events.
\<close>

section \<open>State\<close>

record pool_entry =
  pe_client :: nat
  pe_inUse :: bool

text \<open>A waiting slot: the acquire call it serves and whether the abort listener of that call
  refers to this very slot (a slot that dispatchWaiting queued again is another one).\<close>

record wait_slot =
  ws_owner :: nat
  ws_own :: bool

datatype pool_effect = FxQuit nat | FxDestroy nat | FxReject nat mail_error | FxDrained

datatype drain_phase = NotDraining | DrainQuitting | DrainPolling | DrainLastQuits | DrainedPool

record smtp_pool =
  sp_entries :: "pool_entry list"
  sp_waiting :: "wait_slot list"
  sp_idleTimers :: "nat list"
  sp_closing :: bool
  sp_nextClient :: nat
  sp_nextCaller :: nat
  sp_connecting :: "(nat \<times> nat) list"
  sp_listening :: "nat list"
  sp_settled :: "nat list"
  sp_leases :: "(nat \<times> nat) list"
  sp_drain :: drain_phase
  sp_effects :: "pool_effect list"

record pool_cfg =
  pc_maxConnections :: nat
  pc_maxMessages :: int
  pc_idleTimeout :: int

definition new_pool_cfg :: "nat option \<Rightarrow> int option \<Rightarrow> int option \<Rightarrow> pool_cfg" where
  "new_pool_cfg maxConnections maxMessages idleTimeout =
     \<lparr> pc_maxConnections = (case maxConnections of Some n \<Rightarrow> n | None \<Rightarrow> 5),
       pc_maxMessages = (case maxMessages of Some n \<Rightarrow> n | None \<Rightarrow> 100),
       pc_idleTimeout = (case idleTimeout of Some n \<Rightarrow> n | None \<Rightarrow> 60000) \<rparr>"

definition new_pool :: smtp_pool where
  "new_pool = \<lparr> sp_entries = [], sp_waiting = [], sp_idleTimers = [], sp_closing = False, sp_nextClient = 0,
     sp_nextCaller = 0, sp_connecting = [], sp_listening = [], sp_settled = [], sp_leases = [], sp_drain = NotDraining,
     sp_effects = [] \<rparr>"

section \<open>Operations\<close>

definition pool_fx :: "pool_effect \<Rightarrow> smtp_pool \<Rightarrow> smtp_pool" where
  "pool_fx x p = p \<lparr> sp_effects := sp_effects p @ [x] \<rparr>"

text \<open>resolve and reject of the promise of an acquire call: the first settlement counts, and the
  abort listener goes.  A client given to a settled promise is nobody's.\<close>

definition slot_resolve :: "nat \<Rightarrow> nat \<Rightarrow> smtp_pool \<Rightarrow> smtp_pool" where
  "slot_resolve w c p =
     (let p1 = p \<lparr> sp_listening := removeAll w (sp_listening p) \<rparr> in
      if w \<in> set (sp_settled p) then p1
      else p1 \<lparr> sp_settled := w # sp_settled p, sp_leases := (c, w) # sp_leases p \<rparr>)"

definition slot_reject :: "nat \<Rightarrow> mail_error \<Rightarrow> smtp_pool \<Rightarrow> smtp_pool" where
  "slot_reject w e p =
     (let p1 = p \<lparr> sp_listening := removeAll w (sp_listening p) \<rparr> in
      if w \<in> set (sp_settled p) then p1
      else pool_fx (FxReject w e) (p1 \<lparr> sp_settled := w # sp_settled p \<rparr>))"

definition clearIdleTimer :: "nat \<Rightarrow> smtp_pool \<Rightarrow> smtp_pool" where
  "clearIdleTimer c p = p \<lparr> sp_idleTimers := removeAll c (sp_idleTimers p) \<rparr>"

fun drop_entry :: "nat \<Rightarrow> pool_entry list \<Rightarrow> pool_entry list" where
  "drop_entry c [] = []"
| "drop_entry c (e # es) = (if pe_client e = c then es else e # drop_entry c es)"

definition removeClient :: "nat \<Rightarrow> smtp_pool \<Rightarrow> smtp_pool" where
  "removeClient c p = (let p1 = clearIdleTimer c p in p1 \<lparr> sp_entries := drop_entry c (sp_entries p1) \<rparr>)"

fun set_inUse :: "nat \<Rightarrow> bool \<Rightarrow> pool_entry list \<Rightarrow> pool_entry list" where
  "set_inUse c b [] = []"
| "set_inUse c b (e # es) = (if pe_client e = c then e \<lparr> pe_inUse := b \<rparr> # es else e # set_inUse c b es)"

definition pool_find :: "nat \<Rightarrow> smtp_pool \<Rightarrow> pool_entry option" where
  "pool_find c p = find (\<lambda>e. pe_client e = c) (sp_entries p)"

text \<open>acquire after its two checks, for the acquire call w; own tells whether a slot it queues is the
  one the abort listener of w knows.\<close>

definition acquire_for :: "pool_cfg \<Rightarrow> (nat \<Rightarrow> bool) \<Rightarrow> nat \<Rightarrow> bool \<Rightarrow> smtp_pool \<Rightarrow> smtp_pool" where
  "acquire_for cfg ready w own p =
     (case find (\<lambda>e. \<not> pe_inUse e \<and> ready (pe_client e)) (sp_entries p) of
        Some e \<Rightarrow> slot_resolve w (pe_client e)
          (clearIdleTimer (pe_client e) (p \<lparr> sp_entries := set_inUse (pe_client e) True (sp_entries p) \<rparr>))
      | None \<Rightarrow>
          if length (sp_entries p) < pc_maxConnections cfg
          then p \<lparr> sp_entries := sp_entries p @ [\<lparr> pe_client = sp_nextClient p, pe_inUse = True \<rparr>],
                   sp_connecting := (sp_nextClient p, w) # sp_connecting p,
                   sp_nextClient := Suc (sp_nextClient p) \<rparr>
          else p \<lparr> sp_waiting := sp_waiting p @ [\<lparr> ws_owner = w, ws_own = own \<rparr>] \<rparr>)"

definition acquire :: "pool_cfg \<Rightarrow> (nat \<Rightarrow> bool) \<Rightarrow> bool \<Rightarrow> bool \<Rightarrow> smtp_pool \<Rightarrow> smtp_pool" where
  "acquire cfg ready hasSignal aborted p =
     (let w = sp_nextCaller p; p1 = p \<lparr> sp_nextCaller := Suc w \<rparr> in
      if hasSignal \<and> aborted then slot_reject w (SmtpConnError ''Pool acquire aborted'' 0 []) p1
      else if sp_closing p1 then slot_reject w (SmtpConnError ''Pool is closing'' 0 []) p1
      else let p2 = acquire_for cfg ready w True p1 in
        if hasSignal \<and> length (sp_waiting p2) > length (sp_waiting p1)
        then p2 \<lparr> sp_listening := w # sp_listening p2 \<rparr> else p2)"

definition dispatchWaiting :: "pool_cfg \<Rightarrow> (nat \<Rightarrow> bool) \<Rightarrow> smtp_pool \<Rightarrow> smtp_pool" where
  "dispatchWaiting cfg ready p =
     (if sp_waiting p = [] \<or> sp_closing p then p
      else acquire_for cfg ready (ws_owner (hd (sp_waiting p))) False (p \<lparr> sp_waiting := tl (sp_waiting p) \<rparr>))"

text \<open>connect() of a new client returns or fails; the call it was made for gets the client or the error.\<close>

definition connect_done :: "nat \<Rightarrow> smtp_pool \<Rightarrow> smtp_pool" where
  "connect_done c p = (case map_of (sp_connecting p) c of None \<Rightarrow> p
     | Some w \<Rightarrow> slot_resolve w c (p \<lparr> sp_connecting := filter (\<lambda>x. fst x \<noteq> c) (sp_connecting p) \<rparr>))"

definition connect_failed :: "nat \<Rightarrow> mail_error \<Rightarrow> smtp_pool \<Rightarrow> smtp_pool" where
  "connect_failed c e p = (case map_of (sp_connecting p) c of None \<Rightarrow> p
     | Some w \<Rightarrow> slot_reject w e (removeClient c (p \<lparr> sp_connecting := filter (\<lambda>x. fst x \<noteq> c) (sp_connecting p) \<rparr>)))"

definition release :: "pool_cfg \<Rightarrow> (nat \<Rightarrow> bool) \<Rightarrow> nat \<Rightarrow> int \<Rightarrow> smtp_pool \<Rightarrow> smtp_pool" where
  "release cfg ready c messageCount p0 =
     (let p = p0 \<lparr> sp_leases := filter (\<lambda>x. fst x \<noteq> c) (sp_leases p0) \<rparr> in
      case pool_find c p of
        None \<Rightarrow> dispatchWaiting cfg ready p
      | Some e \<Rightarrow>
          if \<not> ready c then dispatchWaiting cfg ready (pool_fx (FxDestroy c) (removeClient c p))
          else if messageCount \<ge> pc_maxMessages cfg then dispatchWaiting cfg ready (pool_fx (FxQuit c) (removeClient c p))
          else (case sp_waiting p of
              slot # rest \<Rightarrow> slot_resolve (ws_owner slot) c
                (p \<lparr> sp_waiting := rest, sp_entries := set_inUse c True (set_inUse c False (sp_entries p)) \<rparr>)
            | [] \<Rightarrow> p \<lparr> sp_entries := set_inUse c False (sp_entries p), sp_idleTimers := sp_idleTimers p @ [c] \<rparr>))"

definition idle_timeout :: "nat \<Rightarrow> smtp_pool \<Rightarrow> smtp_pool" where
  "idle_timeout c p = pool_fx (FxQuit c) (removeClient c p)"

definition onClientClose :: "pool_cfg \<Rightarrow> (nat \<Rightarrow> bool) \<Rightarrow> nat \<Rightarrow> smtp_pool \<Rightarrow> smtp_pool" where
  "onClientClose cfg ready c p = (case pool_find c p of None \<Rightarrow> p
     | Some e \<Rightarrow> dispatchWaiting cfg ready (removeClient c p))"

text \<open>The abort listener of an acquire call that was queued.\<close>

definition on_abort :: "nat \<Rightarrow> smtp_pool \<Rightarrow> smtp_pool" where
  "on_abort w p = (if w \<in> set (sp_listening p)
     then slot_reject w (SmtpConnError ''Pool acquire aborted'' 0 [])
       (p \<lparr> sp_waiting := filter (\<lambda>s. \<not> (ws_owner s = w \<and> ws_own s)) (sp_waiting p) \<rparr>)
     else p)"

text \<open>drain up to each of its awaits.\<close>

definition quit_clients :: "nat list \<Rightarrow> smtp_pool \<Rightarrow> smtp_pool" where
  "quit_clients cs p = p \<lparr> sp_effects := sp_effects p @ map FxQuit cs \<rparr>"

definition drain_start :: "smtp_pool \<Rightarrow> smtp_pool" where
  "drain_start p =
     (let p1 = p \<lparr> sp_closing := True, sp_waiting := [] \<rparr>;
          p2 = fold (\<lambda>s. slot_reject (ws_owner s) (SmtpConnError ''Pool is draining'' 0 [])) (sp_waiting p) p1
      in (quit_clients (map pe_client (filter (\<lambda>e. \<not> pe_inUse e) (sp_entries p2))) p2) \<lparr> sp_drain := DrainQuitting \<rparr>)"

definition drain_check :: "smtp_pool \<Rightarrow> smtp_pool" where
  "drain_check p = (if list_all (\<lambda>e. \<not> pe_inUse e) (sp_entries p)
     then (quit_clients (map pe_client (sp_entries p)) p) \<lparr> sp_drain := DrainLastQuits \<rparr>
     else p \<lparr> sp_drain := DrainPolling \<rparr>)"

definition drain_finish :: "smtp_pool \<Rightarrow> smtp_pool" where
  "drain_finish p = pool_fx FxDrained (p \<lparr> sp_idleTimers := [], sp_entries := [], sp_drain := DrainedPool \<rparr>)"

definition pool_size :: "smtp_pool \<Rightarrow> nat" where "pool_size p = length (sp_entries p)"

definition pool_available :: "(nat \<Rightarrow> bool) \<Rightarrow> smtp_pool \<Rightarrow> nat" where
  "pool_available ready p = length (filter (\<lambda>e. \<not> pe_inUse e \<and> ready (pe_client e)) (sp_entries p))"

section \<open>Runs of the pool\<close>

datatype pool_op = SpAcquire "nat \<Rightarrow> bool" bool bool | SpConnected nat | SpConnectFailed nat mail_error
  | SpRelease "nat \<Rightarrow> bool" nat int | SpClose "nat \<Rightarrow> bool" nat | SpError nat | SpIdleTimer nat | SpAbort nat
  | SpDrain | SpDrainCheck | SpDrainFinish

fun pool_step :: "pool_cfg \<Rightarrow> smtp_pool \<Rightarrow> pool_op \<Rightarrow> smtp_pool" where
  "pool_step cfg p (SpAcquire ready sig ab) = acquire cfg ready sig ab p"
| "pool_step cfg p (SpConnected c) = connect_done c p"
| "pool_step cfg p (SpConnectFailed c e) = connect_failed c e p"
| "pool_step cfg p (SpRelease ready c n) = release cfg ready c n p"
| "pool_step cfg p (SpClose ready c) = onClientClose cfg ready c p"
| "pool_step cfg p (SpError c) = removeClient c p"
| "pool_step cfg p (SpIdleTimer c) = idle_timeout c p"
| "pool_step cfg p (SpAbort w) = on_abort w p"
| "pool_step cfg p SpDrain = drain_start p"
| "pool_step cfg p SpDrainCheck = drain_check p"
| "pool_step cfg p SpDrainFinish = drain_finish p"

text \<open>A client is released by the caller that holds it; timers, connects and the phases of drain
  happen when they are under way.\<close>

fun pool_ok :: "smtp_pool \<Rightarrow> pool_op \<Rightarrow> bool" where
  "pool_ok p (SpConnected c) = (c \<in> fst ` set (sp_connecting p))"
| "pool_ok p (SpConnectFailed c e) = (c \<in> fst ` set (sp_connecting p))"
| "pool_ok p (SpRelease ready c n) = (c \<in> fst ` set (sp_leases p))"
| "pool_ok p (SpIdleTimer c) = (c \<in> set (sp_idleTimers p))"
| "pool_ok p SpDrain = (sp_drain p = NotDraining)"
| "pool_ok p SpDrainCheck = (sp_drain p = DrainQuitting \<or> sp_drain p = DrainPolling)"
| "pool_ok p SpDrainFinish = (sp_drain p = DrainLastQuits)"
| "pool_ok p _ = True"

section \<open>The invariant\<close>

definition busy :: "smtp_pool \<Rightarrow> nat list" where
  "busy p = map fst (sp_leases p) @ map fst (sp_connecting p)"

definition idle_of :: "pool_entry list \<Rightarrow> nat set" where
  "idle_of es = pe_client ` {e \<in> set es. \<not> pe_inUse e}"

definition pool_inv :: "pool_cfg \<Rightarrow> smtp_pool \<Rightarrow> bool" where
  "pool_inv cfg p \<longleftrightarrow>
     distinct (map pe_client (sp_entries p)) \<and> length (sp_entries p) \<le> pc_maxConnections cfg \<and>
     distinct (busy p) \<and>
     (\<forall>c\<in>set (busy p) \<union> pe_client ` set (sp_entries p). c < sp_nextClient p) \<and>
     idle_of (sp_entries p) \<inter> set (busy p) = {} \<and>
     set (sp_idleTimers p) \<subseteq> idle_of (sp_entries p)"

lemma drop_entry_filter: "distinct (map pe_client es) \<Longrightarrow> drop_entry c es = filter (\<lambda>e. pe_client e \<noteq> c) es"
proof (induction es)
  case (Cons e es)
  have ne: "pe_client x \<noteq> pe_client e" if "x \<in> set es" for x
  proof
    assume "pe_client x = pe_client e"
    then have "pe_client e \<in> pe_client ` set es" using that by (metis imageI)
    then show False using Cons.prems by simp
  qed
  have "filter (\<lambda>x. pe_client x \<noteq> pe_client e) es = es" by (rule filter_True) (use ne in blast)
  then show ?case using Cons by (cases "pe_client e = c") simp_all
qed simp

lemma clients_set_inUse [simp]: "map pe_client (set_inUse c b es) = map pe_client es"
  by (induction es) auto

lemma length_set_inUse [simp]: "length (set_inUse c b es) = length es"
  by (induction es) auto

lemma image_set_inUse [simp]: "pe_client ` set (set_inUse c b es) = pe_client ` set es"
  using arg_cong[OF clients_set_inUse[of c b es], of set] by (simp only: set_map)

lemma idle_of_simps [simp]: "idle_of [] = {}"
  "idle_of (e # es) = (if pe_inUse e then idle_of es else insert (pe_client e) (idle_of es))"
  "idle_of (es @ fs) = idle_of es \<union> idle_of fs"
  by (auto simp: idle_of_def)

lemma idle_of_sub: "idle_of es \<subseteq> pe_client ` set es"
  by (auto simp: idle_of_def)

lemma idle_set_True: "distinct (map pe_client es) \<Longrightarrow> idle_of (set_inUse c True es) = idle_of es - {c}"
proof (induction es)
  case (Cons e es)
  then show ?case using idle_of_sub[of es] by auto
qed simp

lemma idle_set_False: "distinct (map pe_client es) \<Longrightarrow> c \<in> pe_client ` set es \<Longrightarrow> idle_of (set_inUse c False es) = insert c (idle_of es)"
  by (induction es) auto

lemma idle_drop: "distinct (map pe_client es) \<Longrightarrow> idle_of (drop_entry c es) = idle_of es - {c}"
  unfolding drop_entry_filter idle_of_def by auto

lemma drop_entry_facts:
  assumes "distinct (map pe_client es)"
  shows "distinct (map pe_client (drop_entry c es))" "length (drop_entry c es) \<le> length es"
    "pe_client ` set (drop_entry c es) = pe_client ` set es - {c}"
    "c \<in> pe_client ` set es \<Longrightarrow> length (drop_entry c es) < length es"
  unfolding drop_entry_filter[OF assms]
  subgoal using assms by (simp add: distinct_map_filter)
  subgoal by simp
  subgoal by (auto simp: image_def)
  subgoal by (auto intro!: length_filter_less)
  done

lemma busy_simps [simp]:
  "busy (p\<lparr>sp_entries := a\<rparr>) = busy p" "busy (p\<lparr>sp_waiting := b\<rparr>) = busy p" "busy (p\<lparr>sp_idleTimers := d\<rparr>) = busy p"
  "busy (p\<lparr>sp_listening := f\<rparr>) = busy p" "busy (p\<lparr>sp_nextCaller := g\<rparr>) = busy p" "busy (p\<lparr>sp_effects := h\<rparr>) = busy p"
  "busy (p\<lparr>sp_drain := i\<rparr>) = busy p" "busy (p\<lparr>sp_closing := j\<rparr>) = busy p" "busy (p\<lparr>sp_settled := k\<rparr>) = busy p"
  "busy (p\<lparr>sp_nextClient := l\<rparr>) = busy p"
  by (simp_all add: busy_def)

text \<open>The fields the invariant does not read.\<close>

lemma pool_inv_frame [simp]:
  "pool_inv cfg (p\<lparr>sp_waiting := b\<rparr>) = pool_inv cfg p"
  "pool_inv cfg (p\<lparr>sp_listening := f\<rparr>) = pool_inv cfg p" "pool_inv cfg (p\<lparr>sp_nextCaller := g\<rparr>) = pool_inv cfg p"
  "pool_inv cfg (p\<lparr>sp_effects := h\<rparr>) = pool_inv cfg p" "pool_inv cfg (p\<lparr>sp_drain := i\<rparr>) = pool_inv cfg p"
  "pool_inv cfg (p\<lparr>sp_closing := j\<rparr>) = pool_inv cfg p" "pool_inv cfg (p\<lparr>sp_settled := k\<rparr>) = pool_inv cfg p"
  by (simp_all add: pool_inv_def)

lemma inv_reject: "pool_inv cfg p \<Longrightarrow> pool_inv cfg (slot_reject w e p)"
  by (simp add: slot_reject_def pool_fx_def Let_def)

text \<open>A client nobody has goes to a caller: it is in use or out of the pool.\<close>

lemma inv_resolve:
  assumes "pool_inv cfg p" "c \<notin> set (busy p)" "c \<notin> idle_of (sp_entries p)" "c < sp_nextClient p"
  shows "pool_inv cfg (slot_resolve w c p)"
proof -
  have b: "busy (p\<lparr>sp_leases := (c, w) # sp_leases p\<rparr>) = c # busy p" by (simp add: busy_def)
  have "pool_inv cfg (p\<lparr>sp_leases := (c, w) # sp_leases p\<rparr>)"
    using assms by (auto simp: pool_inv_def b)
  then have "pool_inv cfg (p\<lparr>sp_listening := x, sp_settled := y, sp_leases := (c, w) # sp_leases p\<rparr>)" for x y
    by (simp add: pool_inv_def busy_def)
  then show ?thesis using assms(1) by (simp add: slot_resolve_def Let_def)
qed

lemma inv_remove: "pool_inv cfg p \<Longrightarrow> pool_inv cfg (removeClient c p)"
  unfolding pool_inv_def removeClient_def clearIdleTimer_def Let_def
  by (auto simp: drop_entry_facts idle_drop intro: order_trans[OF drop_entry_facts(2)])

lemma remove_busy [simp]: "busy (removeClient c p) = busy p" "sp_nextClient (removeClient c p) = sp_nextClient p"
  by (simp_all add: removeClient_def clearIdleTimer_def Let_def)

lemma inv_take:
  assumes "pool_inv cfg p"
  shows "pool_inv cfg (clearIdleTimer c (p\<lparr>sp_entries := set_inUse c True (sp_entries p)\<rparr>))"
  using assms by (auto simp: pool_inv_def clearIdleTimer_def idle_set_True)

lemma inv_acquire_for:
  assumes i: "pool_inv cfg p"
  shows "pool_inv cfg (acquire_for cfg ready w own p)"
proof (cases "find (\<lambda>e. \<not> pe_inUse e \<and> ready (pe_client e)) (sp_entries p)")
  case None
  have "busy (p\<lparr>sp_connecting := (sp_nextClient p, w) # sp_connecting p\<rparr>) = map fst (sp_leases p) @ sp_nextClient p # map fst (sp_connecting p)"
    by (simp add: busy_def)
  moreover have "sp_nextClient p \<notin> idle_of (sp_entries p)"
    using i idle_of_sub[of "sp_entries p"] by (auto simp: pool_inv_def)
  ultimately show ?thesis using i None unfolding acquire_for_def
    by (auto simp: pool_inv_def busy_def less_Suc_eq)
next
  case (Some e)
  then have e: "e \<in> set (sp_entries p)" "\<not> pe_inUse e" by (auto simp: find_Some_iff)
  let ?q = "clearIdleTimer (pe_client e) (p\<lparr>sp_entries := set_inUse (pe_client e) True (sp_entries p)\<rparr>)"
  have "pe_client e \<in> idle_of (sp_entries p)" using e by (auto simp: idle_of_def)
  then have "pe_client e \<notin> set (busy p)" using i by (auto simp: pool_inv_def)
  moreover have "pe_client e < sp_nextClient p" using i e by (auto simp: pool_inv_def)
  moreover have "pe_client e \<notin> idle_of (sp_entries ?q)" using i by (simp add: clearIdleTimer_def idle_set_True pool_inv_def)
  ultimately have "pool_inv cfg (slot_resolve w (pe_client e) ?q)"
    by (intro inv_resolve inv_take i) (simp_all add: clearIdleTimer_def)
  then show ?thesis using Some by (simp add: acquire_for_def)
qed

lemma inv_dispatch: "pool_inv cfg p \<Longrightarrow> pool_inv cfg (dispatchWaiting cfg ready p)"
  by (simp add: dispatchWaiting_def inv_acquire_for)

lemma inv_acquire: "pool_inv cfg p \<Longrightarrow> pool_inv cfg (acquire cfg ready sig ab p)"
  using inv_acquire_for[of cfg "p\<lparr>sp_nextCaller := Suc (sp_nextCaller p)\<rparr>" ready "sp_nextCaller p" True]
  by (simp add: acquire_def Let_def inv_reject)

lemma busy_drop_connect:
  assumes "distinct (busy p)" "map_of (sp_connecting p) c = Some w"
  shows "set (busy (p\<lparr>sp_connecting := filter (\<lambda>x. fst x \<noteq> c) (sp_connecting p)\<rparr>)) = set (busy p) - {c}"
    "distinct (busy (p\<lparr>sp_connecting := filter (\<lambda>x. fst x \<noteq> c) (sp_connecting p)\<rparr>))" "c \<in> set (busy p)"
proof -
  have c: "c \<in> fst ` set (sp_connecting p)" using assms(2) by (metis map_of_eq_None_iff option.distinct(1))
  then have "c \<notin> fst ` set (sp_leases p)" using assms(1) by (auto simp: busy_def)
  then show "set (busy (p\<lparr>sp_connecting := filter (\<lambda>x. fst x \<noteq> c) (sp_connecting p)\<rparr>)) = set (busy p) - {c}"
    by (auto simp: busy_def)
  show "distinct (busy (p\<lparr>sp_connecting := filter (\<lambda>x. fst x \<noteq> c) (sp_connecting p)\<rparr>))"
    using assms(1) by (auto simp: busy_def distinct_map_filter)
  show "c \<in> set (busy p)" using c by (auto simp: busy_def)
qed

lemma inv_drop_connect:
  assumes "pool_inv cfg p" "map_of (sp_connecting p) c = Some w"
  shows "pool_inv cfg (p\<lparr>sp_connecting := filter (\<lambda>x. fst x \<noteq> c) (sp_connecting p)\<rparr>)"
  using assms(1) busy_drop_connect[OF _ assms(2)] by (auto simp: pool_inv_def)

lemma inv_connect_done:
  assumes "pool_inv cfg p"
  shows "pool_inv cfg (connect_done c p)"
proof (cases "map_of (sp_connecting p) c")
  case (Some w)
  have d: "distinct (busy p)" using assms by (simp add: pool_inv_def)
  note b = busy_drop_connect[OF d Some]
  have "c \<notin> idle_of (sp_entries p)" "c < sp_nextClient p" using assms b(3) by (auto simp: pool_inv_def)
  then have "pool_inv cfg (slot_resolve w c (p\<lparr>sp_connecting := filter (\<lambda>x. fst x \<noteq> c) (sp_connecting p)\<rparr>))"
    using b(1) by (intro inv_resolve inv_drop_connect[OF assms Some]) auto
  then show ?thesis using Some by (simp add: connect_done_def)
qed (simp add: connect_done_def assms)

lemma inv_connect_failed: "pool_inv cfg p \<Longrightarrow> pool_inv cfg (connect_failed c e p)"
  by (auto simp: connect_failed_def intro!: inv_reject inv_remove inv_drop_connect split: option.splits)

lemma pool_find_in: "pool_find c p = Some e \<Longrightarrow> c \<in> pe_client ` set (sp_entries p)"
  by (auto simp: pool_find_def find_Some_iff)

lemma inv_release:
  assumes i: "pool_inv cfg p0" and l: "c \<in> fst ` set (sp_leases p0)"
  shows "pool_inv cfg (release cfg ready c n p0)"
proof -
  let ?p = "p0\<lparr>sp_leases := filter (\<lambda>x. fst x \<noteq> c) (sp_leases p0)\<rparr>"
  have d: "distinct (busy p0)" using i by (simp add: pool_inv_def)
  have c: "c \<in> set (busy p0)" using l by (auto simp: busy_def)
  have b: "set (busy ?p) = set (busy p0) - {c}" "distinct (busy ?p)"
    using d l by (auto simp: busy_def distinct_map_filter)
  have p: "pool_inv cfg ?p" using i b by (auto simp: pool_inv_def)
  have ci: "c \<notin> idle_of (sp_entries p0)" "c < sp_nextClient p0" using i c by (auto simp: pool_inv_def)
  have free: "c \<notin> set (busy ?p)" using b(1) by simp
  have dist: "distinct (map pe_client (sp_entries p0))" using i by (simp add: pool_inv_def)
  show ?thesis
  proof (cases "pool_find c ?p")
    case None
    then show ?thesis using p by (simp add: release_def inv_dispatch)
  next
    case (Some e)
    have ce: "c \<in> pe_client ` set (sp_entries p0)" using pool_find_in[OF Some] by simp
    have out: "pool_inv cfg (dispatchWaiting cfg ready (pool_fx x (removeClient c ?p)))" for x
      using inv_remove[OF p, of c] by (simp add: inv_dispatch pool_fx_def)
    have idle: "pool_inv cfg (?p\<lparr>sp_entries := set_inUse c False (sp_entries p0), sp_idleTimers := sp_idleTimers p0 @ [c]\<rparr>)"
      using p free ce by (auto simp: pool_inv_def idle_set_False)
    have waiter: "pool_inv cfg (slot_resolve w c (?p\<lparr>sp_waiting := rest, sp_entries := set_inUse c True (set_inUse c False (sp_entries p0))\<rparr>))" for w rest
    proof (rule inv_resolve)
      show "pool_inv cfg (?p\<lparr>sp_waiting := rest, sp_entries := set_inUse c True (set_inUse c False (sp_entries p0))\<rparr>)"
        using p ce ci(1) free by (auto simp: pool_inv_def idle_set_True idle_set_False)
    qed (use free ci dist in \<open>auto simp: idle_set_True\<close>)
    show ?thesis using Some out idle waiter
      by (auto simp: release_def Let_def split: list.splits)
  qed
qed

lemma inv_fold_reject: "pool_inv cfg p \<Longrightarrow> pool_inv cfg (fold (\<lambda>s. slot_reject (f s) e) ss p)"
  by (induction ss arbitrary: p) (auto intro: inv_reject)

lemma inv_drain_finish: "pool_inv cfg p \<Longrightarrow> pool_inv cfg (drain_finish p)"
  by (auto simp: drain_finish_def pool_fx_def pool_inv_def)

lemma pool_inv_step: "pool_inv cfg p \<Longrightarrow> pool_ok p x \<Longrightarrow> pool_inv cfg (pool_step cfg p x)"
  by (cases x) (auto simp: inv_acquire inv_connect_done inv_connect_failed inv_release inv_remove onClientClose_def
    idle_timeout_def pool_fx_def on_abort_def drain_start_def drain_check_def quit_clients_def inv_fold_reject inv_drain_finish
    Let_def intro: inv_dispatch inv_reject split: option.splits)

interpretation pool: machine "pool_step cfg" pool_ok "pool_inv cfg" for cfg
  by unfold_locales (rule pool_inv_step)

lemma new_pool_inv: "pool_inv cfg new_pool"
  by (simp add: pool_inv_def new_pool_def busy_def)

text \<open>C15: In every reachable state of the pool there are at most maxConnections connections, no
  connection is with two callers (or with a caller while its connect() is still under way), a connection
  that is free for the next acquire is with nobody, and an idle timer runs only for such a connection, so
  a timeout never closes a connection somebody uses.\<close>

theorem pool_leases_are_exclusive:
  assumes "legal_run (pool_step cfg) pool_ok new_pool ops"
  shows "let p = run (pool_step cfg) new_pool ops in
    pool_size p \<le> pc_maxConnections cfg \<and> distinct (map fst (sp_leases p) @ map fst (sp_connecting p)) \<and>
    (\<forall>e\<in>set (sp_entries p). \<not> pe_inUse e \<longrightarrow> pe_client e \<notin> fst ` set (sp_leases p) \<and> pe_client e \<notin> fst ` set (sp_connecting p)) \<and>
    (\<forall>c\<in>set (sp_idleTimers p). \<exists>e\<in>set (sp_entries p). pe_client e = c \<and> \<not> pe_inUse e)"
proof -
  let ?p = "run (pool_step cfg) new_pool ops"
  have i: "pool_inv cfg ?p" by (rule pool.inv_run[OF new_pool_inv assms])
  have "idle_of (sp_entries ?p) \<inter> set (busy ?p) = {}" "set (sp_idleTimers ?p) \<subseteq> idle_of (sp_entries ?p)"
    using i by (simp_all add: pool_inv_def)
  then show ?thesis using i by (auto simp: Let_def pool_inv_def pool_size_def busy_def idle_of_def)
qed

definition pool_demo_cfg :: pool_cfg where "pool_demo_cfg = new_pool_cfg (Some 1) None None"

definition pool_demo_ops :: "pool_op list" where
  "pool_demo_ops = [SpAcquire (\<lambda>c. True) False False, SpAcquire (\<lambda>c. True) True False, SpConnected 0,
     SpRelease (\<lambda>c. True) 0 1, SpRelease (\<lambda>c. True) 0 2]"

lemma pool_leases_are_exclusive_witness:
  "pool_size (run (pool_step pool_demo_cfg) new_pool pool_demo_ops) \<le> 1 \<and>
   sp_idleTimers (run (pool_step pool_demo_cfg) new_pool pool_demo_ops) = [0]"
proof -
  have l: "legal_run (pool_step pool_demo_cfg) pool_ok new_pool pool_demo_ops"
    and t: "sp_idleTimers (run (pool_step pool_demo_cfg) new_pool pool_demo_ops) = [0]"
    and m: "pc_maxConnections pool_demo_cfg = 1" by code_simp+
  show ?thesis using pool_leases_are_exclusive[OF l] t m by (simp add: Let_def)
qed

definition stranded_ops :: "pool_op list" where
  "stranded_ops = [SpAcquire (\<lambda>c. True) False False, SpAcquire (\<lambda>c. True) False False, SpConnectFailed 0 (SmtpConnError [] 0 [])]"

definition leaked_ops :: "pool_op list" where
  "leaked_ops = [SpAcquire (\<lambda>c. True) False False, SpAcquire (\<lambda>c. True) True False, SpConnected 0,
     SpClose (\<lambda>c. False) 0, SpRelease (\<lambda>c. False) 0 1, SpAbort 1, SpConnected 1, SpDrain]"

text \<open>Two ways to lose a connection or a caller.  When connect() fails, the callers already waiting
  are not served although the pool has room again: here the only caller left waits in a pool without any
  connection.  And when a caller aborts while dispatchWaiting connects for it, the new connection stays in
  use with no holder, so drain never gets past its check.\<close>

lemma pool_strands_waiters_and_leaks:
  "(let p = run (pool_step pool_demo_cfg) new_pool stranded_ops in
      legal_run (pool_step pool_demo_cfg) pool_ok new_pool stranded_ops \<and>
      sp_entries p = [] \<and> map ws_owner (sp_waiting p) = [1] \<and> sp_leases p = [] \<and> sp_connecting p = []) \<and>
   (let p = run (pool_step pool_demo_cfg) new_pool leaked_ops in
      legal_run (pool_step pool_demo_cfg) pool_ok new_pool leaked_ops \<and>
      map (\<lambda>e. (pe_client e, pe_inUse e)) (sp_entries p) = [(1, True)] \<and> sp_leases p = [] \<and> sp_connecting p = [] \<and>
      sp_drain (drain_check p) = DrainPolling \<and> map pe_inUse (sp_entries (drain_check p)) = [True])"
  by (intro conjI; code_simp)

end
