(* ===== verification/Base64.thy ===== *)
theory Base64
  imports Prelude
begin

text \<open>
  What the program uses of the Buffer class of Node: base64 and UTF-8.  Bytes are naturals below
  256; the text of a string that may hold any character is the list of its UTF-16 code units.
\<close>

type_synonym bytes = "nat list"
type_synonym units = "nat list"

definition bytes_ok :: "bytes \<Rightarrow> bool" where "bytes_ok bs \<longleftrightarrow> list_all (\<lambda>b. b < 256) bs"

section \<open>Base64\<close>

fun b64_groups :: "bytes \<Rightarrow> nat list" where
  "b64_groups [] = []"
| "b64_groups [a] = [a div 4, (a mod 4) * 16]"
| "b64_groups [a, b] = [a div 4, (a mod 4) * 16 + b div 16, (b mod 16) * 4]"
| "b64_groups (a # b # c # r) =
     a div 4 # ((a mod 4) * 16 + b div 16) # ((b mod 16) * 4 + c div 64) # (c mod 64) # b64_groups r"

fun b64_bytes :: "nat list \<Rightarrow> bytes" where
  "b64_bytes (w # x # y # z # r) =
     (w * 4 + x div 16) # ((x mod 16) * 16 + y div 4) # ((y mod 4) * 64 + z) # b64_bytes r"
| "b64_bytes [w, x, y] = [w * 4 + x div 16, (x mod 16) * 16 + y div 4]"
| "b64_bytes [w, x] = [w * 4 + x div 16]"
| "b64_bytes _ = []"

definition b64_char :: "nat \<Rightarrow> char" where
  "b64_char n = char_of (if n < 26 then n + 65 else if n < 52 then n + 71 else if n < 62 then n - 4
     else if n = 62 then 43 else (47 :: nat))"

text \<open>The decoder of Buffer.from takes the URL-safe alphabet too.\<close>

definition b64_val :: "char \<Rightarrow> nat option" where
  "b64_val c = (let n = (of_char c :: nat) in
     if 65 \<le> n \<and> n \<le> 90 then Some (n - 65) else if 97 \<le> n \<and> n \<le> 122 then Some (n - 71)
     else if 48 \<le> n \<and> n \<le> 57 then Some (n + 4) else if n = 43 \<or> n = 45 then Some 62
     else if n = 47 \<or> n = 95 then Some 63 else None)"

definition b64_pad :: "nat \<Rightarrow> string" where
  "b64_pad n = (if n mod 3 = 1 then ''=='' else if n mod 3 = 2 then ''='' else [])"

definition b64_encode :: "bytes \<Rightarrow> string" where
  "b64_encode bs = map b64_char (b64_groups bs) @ b64_pad (length bs)"

definition b64_decode :: "string \<Rightarrow> bytes" where
  "b64_decode s = b64_bytes (List.map_filter b64_val (takeWhile (\<lambda>c. c \<noteq> CHR ''='') s))"

lemma b64_groups_small: "bytes_ok bs \<Longrightarrow> g \<in> set (b64_groups bs) \<Longrightarrow> g < 64"
  by (induction bs rule: b64_groups.induct) (auto simp: bytes_ok_def)

lemma sextet_join:
  fixes a b c :: nat
  assumes "b < 256" "c < 256"
  shows "(a div 4) * 4 + ((a mod 4) * 16 + b div 16) div 16 = a"
    "(((a mod 4) * 16 + b div 16) mod 16) * 16 + ((b mod 16) * 4 + c div 64) div 4 = b"
    "(((b mod 16) * 4 + c div 64) mod 4) * 64 + c mod 64 = c"
    "(((a mod 4) * 16 + b div 16) mod 16) * 16 + ((b mod 16) * 4) div 4 = b"
proof -
  have s: "b div 16 < 16" "c div 64 < 4" using assms by (simp_all add: less_mult_imp_div_less)
  have d: "((a mod 4) * 16 + b div 16) div 16 = a mod 4" "((a mod 4) * 16 + b div 16) mod 16 = b div 16"
    "((b mod 16) * 4 + c div 64) div 4 = b mod 16" "((b mod 16) * 4 + c div 64) mod 4 = c div 64"
    using s by simp_all
  show "(a div 4) * 4 + ((a mod 4) * 16 + b div 16) div 16 = a" unfolding d by simp
  show "(((a mod 4) * 16 + b div 16) mod 16) * 16 + ((b mod 16) * 4 + c div 64) div 4 = b" unfolding d by simp
  show "(((b mod 16) * 4 + c div 64) mod 4) * 64 + c mod 64 = c" unfolding d by simp
  show "(((a mod 4) * 16 + b div 16) mod 16) * 16 + ((b mod 16) * 4) div 4 = b" unfolding d by simp
qed

lemma b64_bytes_groups: "bytes_ok bs \<Longrightarrow> b64_bytes (b64_groups bs) = bs"
proof (induction bs rule: b64_groups.induct)
  case (4 a b c r)
  then have "b < 256" "c < 256" "bytes_ok r" by (simp_all add: bytes_ok_def)
  then show ?case using 4 sextet_join(1,2)[of b c a] sextet_join(3)[of b c] by simp
next
  case (3 a b)
  then have "b < 256" by (simp add: bytes_ok_def)
  then show ?case using sextet_join(1,4)[of b 0 a] by simp
qed (simp_all add: bytes_ok_def)

lemma b64_val_char: "n < 64 \<Longrightarrow> b64_val (b64_char n) = Some n"
  by (auto simp: b64_val_def b64_char_def Let_def)

lemma b64_char_not_pad: "n < 64 \<Longrightarrow> b64_char n \<noteq> CHR ''=''"
  using b64_val_char[of n] by (auto simp: b64_val_def)

lemma takeWhile_pad: "list_all (\<lambda>c. c \<noteq> CHR ''='') s \<Longrightarrow> takeWhile (\<lambda>c. c \<noteq> CHR ''='') (s @ b64_pad n) = s"
  by (simp add: list_all_iff takeWhile_append b64_pad_def)

lemma map_filter_val: "list_all (\<lambda>n. n < 64) gs \<Longrightarrow> List.map_filter b64_val (map b64_char gs) = gs"
  by (induction gs) (simp_all add: map_filter_simps b64_val_char)

lemma b64_decode_groups: "bytes_ok bs \<Longrightarrow> b64_decode (map b64_char (b64_groups bs) @ b64_pad n) = bs"
  using takeWhile_pad[of "map b64_char (b64_groups bs)" n] b64_groups_small[of bs]
    map_filter_val[of "b64_groups bs"] b64_bytes_groups[of bs] b64_char_not_pad
  by (simp add: b64_decode_def list_all_iff)

interpretation base64: codec b64_encode "\<lambda>s. Some (b64_decode s)" bytes_ok
  by unfold_locales (simp add: b64_encode_def b64_decode_groups)

section \<open>UTF-8\<close>

definition utf8_point :: "nat \<Rightarrow> bytes" where
  "utf8_point c = (if c < 128 then [c] else if c < 2048 then [192 + c div 64, 128 + c mod 64]
     else if c < 65536 then [224 + c div 4096, 128 + c div 64 mod 64, 128 + c mod 64]
     else [240 + c div 262144, 128 + c div 4096 mod 64, 128 + c div 64 mod 64, 128 + c mod 64])"

definition high_surrogate :: "nat \<Rightarrow> bool" where "high_surrogate u \<longleftrightarrow> 55296 \<le> u \<and> u < 56320"
definition low_surrogate :: "nat \<Rightarrow> bool" where "low_surrogate u \<longleftrightarrow> 56320 \<le> u \<and> u < 57344"

text \<open>A lone surrogate is written as the replacement character.\<close>

fun utf8_encode :: "units \<Rightarrow> bytes" where
  "utf8_encode [] = []"
| "utf8_encode (u # r) =
     (if high_surrogate u \<and> r \<noteq> [] \<and> low_surrogate (hd r)
      then utf8_point (65536 + (u - 55296) * 1024 + (hd r - 56320)) @ utf8_encode (tl r)
      else utf8_point (if high_surrogate u \<or> low_surrogate u then 65533 else u) @ utf8_encode r)"

definition units_of :: "string \<Rightarrow> units" where "units_of s = map of_char s"
definition latin1 :: "bytes \<Rightarrow> string" where "latin1 bs = map char_of bs"

lemma latin1_units: "latin1 (units_of s) = s"
  by (simp add: latin1_def units_of_def comp_def)

lemma units_latin1: "bytes_ok bs \<Longrightarrow> units_of (latin1 bs) = bs"
  by (induction bs) (simp_all add: latin1_def units_of_def bytes_ok_def)

lemma utf8_ascii: "list_all (\<lambda>u. u < 128) us \<Longrightarrow> utf8_encode us = us"
  by (induction us) (auto simp: utf8_point_def high_surrogate_def low_surrogate_def)

end
