(* ===== verification/ImapTokenizer.thy ===== *)
theory ImapTokenizer
  imports Base64 Errors
begin

text \<open>
  src/src/imap/ImapTokenizer.ts: the tokenizer of IMAP responses with its accessors, the
  encoding of command arguments, modified UTF-7 mailbox names and UID sets.  Response text is
  a byte string; mailbox names and argument values are lists of UTF-16 code units.  The scanner's
  index is the rest of the input.
\<close>

section \<open>Tokens\<close>

datatype imap_token = TAtom string | TString string bool | TNil | TList "imap_token list"

definition is_space :: "char \<Rightarrow> bool" where "is_space c \<longleftrightarrow> c = sp \<or> c = cr \<or> c = lf"

definition skip_space :: "string \<Rightarrow> string" where "skip_space s = dropWhile is_space s"

definition atom_end :: "char \<Rightarrow> bool" where
  "atom_end c \<longleftrightarrow> c = sp \<or> c = CHR ''('' \<or> c = CHR '')'' \<or> c = cr \<or> c = lf"

fun tok_quoted :: "string \<Rightarrow> string \<times> string" where
  "tok_quoted [] = ([], [])"
| "tok_quoted (c # r) =
     (if c = backslash \<and> r \<noteq> [] then (case r of [] \<Rightarrow> ([], []) | d # r' \<Rightarrow> (let (out, rest) = tok_quoted r' in (d # out, rest)))
      else if c = dquote then ([], r)
      else (let (out, rest) = tok_quoted r in (c # out, rest)))"

text \<open>The prefix of a literal in the next 32 characters: its length and how many characters it takes.\<close>

definition brace_prefix :: "string \<Rightarrow> (nat \<times> nat) option" where
  "brace_prefix w = (case w of [] \<Rightarrow> None | c # u \<Rightarrow>
     (if c \<noteq> CHR ''{'' then None
      else let ds = takeWhile is_digit u; v = drop (length ds) u in
        if ds = [] then None
        else if take 3 v = [CHR ''}'', cr, lf] then Some (read_digits ds, length ds + 4)
        else if take 4 v = [CHR ''+'', CHR ''}'', cr, lf] then Some (read_digits ds, length ds + 5)
        else None))"

definition literal_prefix :: "string \<Rightarrow> (nat \<times> nat) option" where
  "literal_prefix s = (let w = take 32 s in
     if w \<noteq> [] \<and> hd w = CHR ''~'' then map_option (\<lambda>(n, b). (n, Suc b)) (brace_prefix (tl w)) else brace_prefix w)"

definition tok_literal :: "string \<Rightarrow> (imap_token \<times> string) option" where
  "tok_literal s = (case literal_prefix s of None \<Rightarrow> None
     | Some (len, begin) \<Rightarrow> Some (TString (take len (drop begin s)) True, drop (begin + len) s))"

fun atom_scan :: "nat \<Rightarrow> string \<Rightarrow> string \<times> string" where
  "atom_scan d [] = ([], [])"
| "atom_scan d (c # r) =
     (if c = CHR ''['' then (let (v, rest) = atom_scan (Suc d) r in (c # v, rest))
      else if c = CHR '']'' then (let (v, rest) = atom_scan (d - 1) r in (c # v, rest))
      else if d = 0 \<and> atom_end c then ([], c # r)
      else (let (v, rest) = atom_scan d r in (c # v, rest)))"

definition atom_token :: "string \<Rightarrow> imap_token" where
  "atom_token v = (if ascii_upper v = ''NIL'' then TNil else TAtom v)"

definition tok_atom :: "string \<Rightarrow> imap_token \<times> string" where
  "tok_atom s = (let (v, rest) = atom_scan 0 s in (atom_token v, rest))"

lemma skip_space_length: "skip_space s = c # r \<Longrightarrow> length r < length s"
  by (metis Suc_le_lessD length_Cons length_dropWhile_le skip_space_def)

text \<open>next and list.  The comparison of lengths only serves the termination proof: it always
  holds (tok_next_progress).\<close>

function tok_next :: "string \<Rightarrow> imap_token option \<times> string" and tok_items :: "string \<Rightarrow> imap_token list \<times> string" where
  "tok_next s = (case skip_space s of [] \<Rightarrow> (None, [])
     | c # r \<Rightarrow>
       (if c = CHR ''('' then (let (items, rest) = tok_items r in (Some (TList items), rest))
        else if c = CHR '')'' then (None, r)
        else if c = dquote then (let (v, rest) = tok_quoted r in (Some (TString v False), rest))
        else (let plain = (let (t, rest) = tok_atom (c # r) in (Some t, rest)) in
          if c = CHR ''{'' \<or> (c = CHR ''~'' \<and> r \<noteq> [] \<and> hd r = CHR ''{'')
          then (case tok_literal (c # r) of Some (t, rest) \<Rightarrow> (Some t, rest) | None \<Rightarrow> plain)
          else plain)))"
| "tok_items s = (case skip_space s of [] \<Rightarrow> ([], [])
     | c # r \<Rightarrow>
       (if c = CHR '')'' then ([], r)
        else (let (t, rest) = tok_next (c # r) in
          if length rest \<le> length r
          then (let (ts, rest2) = tok_items rest in (case t of Some x \<Rightarrow> x # ts | None \<Rightarrow> ts, rest2))
          else ([], rest))))"
  by pat_completeness auto

termination
  by (relation "measure (\<lambda>x. case x of Inl s \<Rightarrow> 2 * length s | Inr s \<Rightarrow> 2 * length s + 1)")
    (simp_all, (drule skip_space_length, simp)+)

declare tok_next.simps [simp del] tok_items.simps [simp del]

function tokenize :: "string \<Rightarrow> imap_token list" where
  "tokenize s = (case skip_space s of [] \<Rightarrow> []
     | c # r \<Rightarrow> (let (t, rest) = tok_next (c # r) in
        if length rest \<le> length r then (case t of Some x \<Rightarrow> x # tokenize rest | None \<Rightarrow> tokenize rest) else []))"
  by pat_completeness auto
termination
  by (relation "measure length") (simp_all, (drule skip_space_length, simp)+)

declare tokenize.simps [simp del]

definition tokenize_from :: "string \<Rightarrow> nat \<Rightarrow> imap_token list" where "tokenize_from s start = tokenize (drop start s)"

text \<open>Every call of next consumes input.\<close>

lemma tok_quoted_length: "length (snd (tok_quoted s)) \<le> length s"
proof (induction s rule: length_induct)
  case (1 s)
  show ?case
  proof (cases s)
    case (Cons c r)
    have a: "length (snd (tok_quoted r)) \<le> length r" using 1 Cons by simp
    show ?thesis
    proof (cases r)
      case (Cons d r')
      have "length (snd (tok_quoted r')) \<le> length r'" using 1 Cons \<open>s = c # r\<close> by simp
      then show ?thesis using a Cons \<open>s = c # r\<close> by (simp add: case_prod_beta Let_def del: tok_quoted.simps add: tok_quoted.simps(2)[of c "d # r'"])
    qed (use Cons in \<open>simp add: case_prod_beta\<close>)
  qed simp
qed

lemma atom_scan_append: "atom_scan d s = (v, rest) \<Longrightarrow> s = v @ rest"
  by (induction d s arbitrary: v rule: atom_scan.induct) (auto simp: Let_def case_prod_beta split: if_splits)

lemma brace_prefix_begin: "brace_prefix w = Some (len, b) \<Longrightarrow> 0 < b"
  by (auto simp: brace_prefix_def Let_def split: list.splits if_splits)

lemma literal_prefix_begin: "literal_prefix s = Some (len, b) \<Longrightarrow> 0 < b"
  by (auto simp: literal_prefix_def Let_def dest: brace_prefix_begin split: if_splits)

lemma tok_items_le: "length (snd (tok_next s)) \<le> length s \<and> (skip_space s \<noteq> [] \<longrightarrow> length (snd (tok_next s)) < length s)"
  "length (snd (tok_items s)) \<le> length s"
proof (induction s and s rule: tok_next_tok_items.induct)
  case (1 s)
  show ?case
  proof (cases "skip_space s")
    case Nil
    then show ?thesis by (simp add: tok_next.simps[of s])
  next
    case (Cons c r)
    have r: "length r < length s" by (rule skip_space_length[OF Cons])
    have q: "length (snd (tok_quoted r)) \<le> length r" by (rule tok_quoted_length)
    have i: "length (snd (tok_items r)) \<le> length r" if "c = CHR ''(''" using 1[OF Cons that] .
    have a: "length (snd (tok_atom (c # r))) \<le> length r" if "c \<noteq> CHR ''(''" "c \<noteq> CHR '')''"
    proof -
      obtain v rest where vr: "atom_scan 0 (c # r) = (v, rest)" by fastforce
      have e: "c # r = v @ rest" by (rule atom_scan_append[OF vr])
      have "\<not> is_space c" using Cons by (metis hd_dropWhile list.sel(1) list.distinct(1) skip_space_def)
      then have "v \<noteq> []" using vr that by (auto simp: is_space_def atom_end_def Let_def case_prod_beta split: if_splits)
      then show ?thesis using vr e by (cases v) (auto simp: tok_atom_def)
    qed
    have l: "length rest \<le> length r" if "tok_literal (c # r) = Some (t, rest)" for t rest
      using that literal_prefix_begin[of "c # r"] by (cases "literal_prefix (c # r)") (auto simp: tok_literal_def)
    have "length (snd (tok_next s)) \<le> length r"
    proof (cases "c = CHR ''(''")
      case True
      then show ?thesis using i by (simp add: tok_next.simps[of s] Cons case_prod_beta Let_def)
    next
      case nop: False
      show ?thesis
      proof (cases "c = CHR '')''")
        case True
        then show ?thesis by (simp add: tok_next.simps[of s] Cons)
      next
        case ncl: False
        show ?thesis
        proof (cases "c = dquote")
          case True
          then show ?thesis using nop ncl q by (simp add: tok_next.simps[of s] Cons case_prod_beta Let_def)
        next
          case False
          then show ?thesis using nop ncl a l
            by (cases "tok_literal (c # r)") (auto simp: tok_next.simps[of s] Cons case_prod_beta Let_def)
        qed
      qed
    qed
    then show ?thesis using r by simp
  qed
next
  case (2 s)
  show ?case
  proof (cases "skip_space s")
    case Nil
    then show ?thesis by (simp add: tok_items.simps[of s])
  next
    case (Cons c r)
    have r: "length r < length s" by (rule skip_space_length[OF Cons])
    show ?thesis
    proof (cases "c = CHR '')''")
      case True
      then show ?thesis using Cons r by (simp add: tok_items.simps[of s])
    next
      case False
      obtain t rest where t: "tok_next (c # r) = (t, rest)" by fastforce
      have n: "length rest \<le> length (c # r)" using 2(1)[OF Cons False] t by simp
      have m: "length (snd (tok_items rest)) \<le> length rest" if "length rest \<le> length r"
        using 2(2)[OF Cons False t[symmetric] refl that] .
      show ?thesis using Cons False t n m r by (cases "length rest \<le> length r") (simp_all add: tok_items.simps[of s] case_prod_beta Let_def)
    qed
  qed
qed

text \<open>Token accessors: the argument is absent when an index is out of range.\<close>

definition tokStr :: "imap_token option \<Rightarrow> string option" where
  "tokStr t = (case t of Some (TAtom v) \<Rightarrow> Some v | Some (TString v _) \<Rightarrow> Some v | _ \<Rightarrow> None)"

definition tokNum :: "imap_token option \<Rightarrow> nat option" where
  "tokNum t = (case tokStr t of None \<Rightarrow> None
     | Some s \<Rightarrow> if s \<noteq> [] \<and> list_all is_digit s then Some (read_digits s) else None)"

definition tokList :: "imap_token option \<Rightarrow> imap_token list option" where
  "tokList t = (case t of Some (TList ts) \<Rightarrow> Some ts | _ \<Rightarrow> None)"

definition isNil :: "imap_token option \<Rightarrow> bool" where
  "isNil t \<longleftrightarrow> t = None \<or> t = Some TNil"

definition nth_opt :: "'a list \<Rightarrow> nat \<Rightarrow> 'a option" where
  "nth_opt xs i = (if i < length xs then Some (xs ! i) else None)"

section \<open>Reading back what a server writes\<close>

definition escape_quoted :: "string \<Rightarrow> string" where
  "escape_quoted s = concat (map (\<lambda>c. if c = backslash \<or> c = dquote then [backslash, c] else [c]) s)"

fun show_token :: "imap_token \<Rightarrow> string" where
  "show_token (TAtom a) = a"
| "show_token TNil = ''NIL''"
| "show_token (TString v False) = dquote # escape_quoted v @ [dquote]"
| "show_token (TString v True) = ''{'' @ show_nat (length v) @ ''}'' @ crlf @ v"
| "show_token (TList ts) = ''('' @ js_join '' '' (map show_token ts) @ '')''"

text \<open>Atoms the grammar allows: no white space or parenthesis outside brackets, brackets closed.\<close>

fun atom_closed :: "nat \<Rightarrow> string \<Rightarrow> bool" where
  "atom_closed d [] = (d = 0)"
| "atom_closed d (c # r) =
     (if c = CHR ''['' then atom_closed (Suc d) r
      else if c = CHR '']'' then atom_closed (d - 1) r
      else \<not> (d = 0 \<and> atom_end c) \<and> atom_closed d r)"

definition atom_ok :: "string \<Rightarrow> bool" where
  "atom_ok a \<longleftrightarrow> a \<noteq> [] \<and> atom_closed 0 a \<and> ascii_upper a \<noteq> ''NIL'' \<and>
     hd a \<noteq> dquote \<and> hd a \<noteq> CHR ''{'' \<and> hd a \<noteq> CHR ''~''"

fun token_ok :: "imap_token \<Rightarrow> bool" where
  "token_ok (TAtom a) = atom_ok a"
| "token_ok TNil = True"
| "token_ok (TString v lit) = (lit \<longrightarrow> length (show_nat (length v)) \<le> 28)"
| "token_ok (TList ts) = list_all token_ok ts"

text \<open>What may follow a token.\<close>

definition delim :: "string \<Rightarrow> bool" where "delim s \<longleftrightarrow> s = [] \<or> atom_end (hd s)"

lemma tok_quoted_escape: "tok_quoted (escape_quoted v @ dquote # rest) = (v, rest)"
proof (induction v)
  case Nil
  then show ?case by (simp add: escape_quoted_def dquote_def backslash_def)
next
  case (Cons c v)
  have e: "escape_quoted (c # v) = (if c = backslash \<or> c = dquote then [backslash, c] else [c]) @ escape_quoted v"
    by (simp add: escape_quoted_def)
  show ?case
  proof (cases "c = backslash \<or> c = dquote")
    case True
    then show ?thesis unfolding e using Cons by simp
  next
    case False
    then show ?thesis unfolding e using Cons by simp
  qed
qed

lemma atom_scan_closed: "atom_closed d a \<Longrightarrow> delim rest \<Longrightarrow> atom_scan d (a @ rest) = (a, rest)"
proof (induction d a rule: atom_closed.induct)
  case (1 d)
  have "c \<noteq> CHR ''['' \<and> c \<noteq> CHR '']''" if "atom_end c" for c using that by (auto simp: atom_end_def sp_def cr_def lf_def)
  then show ?case using 1 by (cases rest) (auto simp: delim_def)
next
  case (2 d c r)
  then show ?case by (auto split: if_splits)
qed

lemma brace_prefix_show:
  "brace_prefix (''{'' @ show_nat n @ ''}'' @ crlf @ v) = Some (n, length (show_nat n) + 4)"
proof -
  have t: "takeWhile is_digit (show_nat n @ CHR ''}'' # w) = show_nat n" for w
    using show_nat_digits[of n] by (simp add: list_all_iff takeWhile_append is_digit_def)
  show ?thesis by (simp add: brace_prefix_def t show_nat_nonempty read_show_nat crlf_def)
qed

lemma brace_prefix_take: "brace_prefix (''{'' @ show_nat n @ ''}'' @ crlf @ v) = brace_prefix (take m (''{'' @ show_nat n @ ''}'' @ crlf @ v))"
  if "length (show_nat n) + 4 \<le> m"
proof -
  have "take m (''{'' @ show_nat n @ ''}'' @ crlf @ v) = ''{'' @ show_nat n @ ''}'' @ crlf @ take (m - (length (show_nat n) + 4)) v"
    using that by (auto simp: crlf_def take_Cons' numeral_eq_Suc)
  then show ?thesis using brace_prefix_show by simp
qed

lemma tok_literal_show:
  assumes "length (show_nat (length v)) \<le> 28"
  shows "tok_literal (''{'' @ show_nat (length v) @ ''}'' @ crlf @ v @ rest) = Some (TString v True, rest)"
proof -
  let ?s = "''{'' @ show_nat (length v) @ ''}'' @ crlf @ v @ rest"
  have "literal_prefix ?s = brace_prefix (take 32 ?s)" by (simp add: literal_prefix_def Let_def)
  then have "literal_prefix ?s = Some (length v, length (show_nat (length v)) + 4)"
    using brace_prefix_take[of "length v" 32 "v @ rest"] brace_prefix_show[of "length v" "v @ rest"] assms by simp
  moreover have "drop (length (show_nat (length v)) + 4) ?s = v @ rest"
    by (simp add: crlf_def numeral_eq_Suc)
  ultimately show ?thesis
    using drop_drop[of "length v" "length (show_nat (length v)) + 4" ?s] by (simp add: tok_literal_def add.commute)
qed

lemma show_token_head:
  "token_ok t \<Longrightarrow> \<exists>c u. show_token t = c # u \<and> \<not> is_space c \<and> c \<noteq> CHR '')''"
proof (induction t rule: show_token.induct)
  case (1 a)
  then show ?case
    by (cases a) (auto simp: atom_ok_def is_space_def atom_end_def sp_def cr_def lf_def split: if_splits)
qed (auto simp: is_space_def dquote_def sp_def cr_def lf_def)

lemma skip_space_token: "token_ok t \<Longrightarrow> skip_space (show_token t @ w) = show_token t @ w"
  using show_token_head[of t] by (auto simp: skip_space_def)

lemma tok_next_progress: "\<not> is_space c \<Longrightarrow> tok_next (c # r) = (t, rest) \<Longrightarrow> length rest \<le> length r"
  using tok_items_le(1)[of "c # r"] by (simp add: skip_space_def)

text \<open>One round of the loop of list.\<close>

lemma tok_items_step:
  assumes "token_ok t" "tok_next (show_token t @ w) = (Some t, w)"
  shows "tok_items (show_token t @ w) = (let (ts, rest) = tok_items w in (t # ts, rest))"
proof -
  obtain c u where c: "show_token t = c # u" "\<not> is_space c" "c \<noteq> CHR '')''" using show_token_head[OF assms(1)] by blast
  have "length w \<le> length (u @ w)" by simp
  then show ?thesis using skip_space_token[OF assms(1), of w] assms(2) c
    by (simp add: tok_items.simps[of "c # u @ w"] Let_def)
qed

lemma tok_items_space: "tok_items (sp # w) = tok_items w"
  by (simp add: tok_items.simps[of "sp # w"] tok_items.simps[of w] skip_space_def is_space_def)

lemma delim_simps [simp]: "delim []" "delim (CHR '' '' # w)" "delim (CHR '')'' # w)"
  by (simp_all add: delim_def atom_end_def sp_def)

lemma tok_items_show:
  assumes "\<And>t w. t \<in> set ts \<Longrightarrow> delim w \<Longrightarrow> tok_next (show_token t @ w) = (Some t, w)" "list_all token_ok ts"
  shows "tok_items (js_join '' '' (map show_token ts) @ '')'' @ rest) = (ts, rest)"
  using assms
proof (induction ts rule: induct_list012)
  case 1
  then show ?case by (simp add: tok_items.simps[of "CHR '')'' # rest"] skip_space_def is_space_def sp_def cr_def lf_def)
next
  case (2 t)
  have e: "tok_items (CHR '')'' # rest) = ([], rest)"
    by (simp add: tok_items.simps[of "CHR '')'' # rest"] skip_space_def is_space_def sp_def cr_def lf_def)
  show ?case using tok_items_step[of t "CHR '')'' # rest"] 2 e by simp
next
  case (3 t u ts)
  let ?w = "js_join '' '' (map show_token (u # ts)) @ '')'' @ rest"
  have "tok_next (show_token t @ CHR '' '' # ?w) = (Some t, CHR '' '' # ?w)" using 3(3) by simp
  moreover have "tok_items (CHR '' '' # ?w) = (u # ts, rest)"
    using "3.IH"(2) 3(3,4) tok_items_space[of ?w] by (simp add: sp_def)
  ultimately show ?case using tok_items_step[of t "CHR '' '' # ?w"] 3(4) by simp
qed

lemma tok_next_show: "token_ok t \<Longrightarrow> delim w \<Longrightarrow> tok_next (show_token t @ w) = (Some t, w)"
proof (induction t arbitrary: w)
  case (TAtom a)
  obtain c u where c: "a = c # u" "\<not> is_space c" "c \<noteq> CHR '')''" using show_token_head[OF TAtom(1)] by auto
  have h: "c \<noteq> dquote" "c \<noteq> CHR ''{''" "c \<noteq> CHR ''~''" "ascii_upper a \<noteq> ''NIL''" "atom_closed 0 a"
    using TAtom(1) c by (auto simp: atom_ok_def)
  have "c \<noteq> CHR ''(''" using h(5) c(1) by (auto simp: atom_end_def split: if_splits)
  moreover have "tok_atom (a @ w) = (TAtom a, w)"
    using atom_scan_closed[OF h(5) TAtom(2)] h(4) by (simp add: tok_atom_def atom_token_def)
  ultimately show ?case using c h skip_space_token[OF TAtom(1), of w]
    by (simp add: tok_next.simps[of "c # u @ w"] Let_def)
next
  case (TString v lit)
  show ?case
  proof (cases lit)
    case True
    then have "tok_literal (show_token (TString v lit) @ w) = Some (TString v lit, w)"
      using tok_literal_show[of v w] TString(1) by simp
    then show ?thesis using True skip_space_token[OF TString(1), of w]
      by (simp add: tok_next.simps[of "CHR ''{'' # _"] Let_def dquote_def)
  next
    case False
    then show ?thesis using skip_space_token[OF TString(1), of w] tok_quoted_escape[of v w]
      by (simp add: tok_next.simps[of "dquote # _"] Let_def) (simp add: dquote_def)
  qed
next
  case TNil
  have "atom_closed 0 ''NIL''" by (simp add: atom_end_def sp_def cr_def lf_def)
  from atom_scan_closed[OF this TNil(2)] have "tok_atom (''NIL'' @ w) = (TNil, w)"
    by (simp add: tok_atom_def atom_token_def ascii_upper_def char_upper_def)
  then show ?case using skip_space_token[of TNil w]
    by (simp add: tok_next.simps[of "CHR ''N'' # _"] Let_def dquote_def)
next
  case (TList ts)
  have "tok_items (js_join '' '' (map show_token ts) @ '')'' @ w) = (ts, w)"
    using TList by (intro tok_items_show) (auto simp: list_all_iff)
  then show ?case using skip_space_token[OF TList(2), of w]
    by (simp add: tok_next.simps[of "CHR ''('' # _"] Let_def)
qed

lemma tokenize_step:
  assumes "token_ok t" "delim w"
  shows "tokenize (show_token t @ w) = t # tokenize w"
proof -
  obtain c u where c: "show_token t = c # u" "\<not> is_space c" "c \<noteq> CHR '')''" using show_token_head[OF assms(1)] by blast
  have "length w \<le> length (u @ w)" by simp
  then show ?thesis using skip_space_token[OF assms(1), of w] tok_next_show[OF assms] c
    by (simp add: tokenize.simps[of "c # u @ w"] Let_def)
qed

lemma tokenize_space: "tokenize (sp # w) = tokenize w"
  by (simp add: tokenize.simps[of "sp # w"] tokenize.simps[of w] skip_space_def is_space_def)

lemma tokenize_show: "list_all token_ok ts \<Longrightarrow> tokenize (js_join '' '' (map show_token ts)) = ts"
proof (induction ts rule: induct_list012)
  case 1
  then show ?case by (simp add: tokenize.simps[of "[]"] skip_space_def)
next
  case (2 t)
  then show ?case using tokenize_step[of t "[]"] by (simp add: tokenize.simps[of "[]"] skip_space_def)
next
  case (3 t u ts)
  let ?w = "js_join '' '' (map show_token (u # ts))"
  have "tokenize (CHR '' '' # ?w) = u # ts" using "3.IH"(2) 3(3) tokenize_space[of ?w] by (simp add: sp_def)
  then show ?case using tokenize_step[of t "CHR '' '' # ?w"] 3(3) by simp
qed

text \<open>C16: The tokenizer reads back every response a server may write: any sequence of atoms (with
  bracketed sections), NIL, quoted strings, literals of any content and lists nested to any depth,
  written with one space between the items, is tokenized to exactly that sequence.\<close>

theorem tokenize_reads_back: "list_all token_ok ts \<Longrightarrow> tokenize (js_join '' '' (map show_token ts)) = ts"
  by (rule tokenize_show)

definition demo_tokens :: "imap_token list" where
  "demo_tokens = [TAtom ''BODY[HEADER.FIELDS (A B)]'', TString (''a) {3}'' @ crlf) True,
     TList [TNil, TList [], TString [dquote, backslash] False]]"

lemma tokenize_reads_back_witness: "tokenize (js_join '' '' (map show_token demo_tokens)) = demo_tokens"
  by (rule tokenize_reads_back) code_simp

end
