(* ===== verification/ImapArgs.thy ===== *)
theory ImapArgs
  imports ImapTokenizer
begin

text \<open>
  The command side of src/src/imap/ImapTokenizer.ts: string arguments, modified UTF-7 mailbox
  names (RFC 3501 section 5.1.3) and compressed UID sets.
\<close>

section \<open>String arguments\<close>

datatype command_part = PText string | PLiteral bytes

definition astring :: "units \<Rightarrow> command_part" where
  "astring v = (if list_ex (\<lambda>u. u < 1 \<or> u > 127 \<or> u = 13 \<or> u = 10) v then PLiteral (utf8_encode v)
     else PText (dquote # escape_quoted (latin1 v) @ [dquote]))"

section \<open>Mailbox names\<close>

definition utf16be :: "units \<Rightarrow> bytes" where
  "utf16be us = concat (map (\<lambda>u. [u div 256, u mod 256]) us)"

definition mb_comma :: "char \<Rightarrow> nat" where "mb_comma c = (if c = CHR ''/'' then 44 else of_char c)"

definition mb_flush :: "units \<Rightarrow> units" where
  "mb_flush pending = (if pending = [] then []
     else 38 # map mb_comma (map b64_char (b64_groups (utf16be pending))) @ [45])"

fun mb_encode :: "units \<Rightarrow> units \<Rightarrow> units" where
  "mb_encode pending [] = mb_flush pending"
| "mb_encode pending (u # r) =
     (if 32 \<le> u \<and> u \<le> 126 then mb_flush pending @ (if u = 38 then [38, 45] else [u]) @ mb_encode [] r
      else mb_encode (pending @ [u]) r)"

definition encodeMailboxName :: "units \<Rightarrow> units" where "encodeMailboxName name = mb_encode [] name"

definition mailboxArg :: "units \<Rightarrow> command_part" where "mailboxArg name = astring (encodeMailboxName name)"

definition mb_b64 :: "nat \<Rightarrow> bool" where
  "mb_b64 u \<longleftrightarrow> (65 \<le> u \<and> u \<le> 90) \<or> (97 \<le> u \<and> u \<le> 122) \<or> (48 \<le> u \<and> u \<le> 57) \<or> u = 43 \<or> u = 44"

fun read_utf16be :: "bytes \<Rightarrow> units" where
  "read_utf16be (a # b # r) = (a * 256 + b) # read_utf16be r"
| "read_utf16be _ = []"

definition mb_slash :: "nat \<Rightarrow> char" where "mb_slash u = (if u = 44 then CHR ''/'' else char_of u)"

definition mb_replacement :: "units \<Rightarrow> units" where
  "mb_replacement b = (if b = [] then [38]
     else let buf = b64_decode (map mb_slash b)
       in if length buf mod 2 \<noteq> 0 then 38 # b @ [45] else read_utf16be buf)"

function decodeMailboxName :: "units \<Rightarrow> units" where
  "decodeMailboxName [] = []"
| "decodeMailboxName (u # r) =
     (let b = takeWhile mb_b64 r; after = drop (length b) r in
      if u = 38 \<and> after \<noteq> [] \<and> hd after = 45 then mb_replacement b @ decodeMailboxName (tl after)
      else u # decodeMailboxName r)"
  by pat_completeness auto
termination by (relation "measure length") auto

definition name_ok :: "units \<Rightarrow> bool" where "name_ok us \<longleftrightarrow> list_all (\<lambda>u. u < 65536) us"

lemma utf16be_ok: "name_ok us \<Longrightarrow> bytes_ok (utf16be us)"
  by (induction us) (auto simp: name_ok_def bytes_ok_def utf16be_def)

lemma read_utf16be_utf16be: "read_utf16be (utf16be us) = us"
  by (induction us) (simp_all add: utf16be_def)

lemma utf16be_even: "length (utf16be us) = 2 * length us"
  by (induction us) (simp_all add: utf16be_def)

lemma groups_nil: "b64_groups bs = [] \<longleftrightarrow> bs = []"
  by (cases bs rule: b64_groups.cases) auto

text \<open>The sextets on the wire: the alphabet with a comma for the slash.\<close>

lemma b64_char_code: "n < 64 \<Longrightarrow> (of_char (b64_char n) :: nat) =
   (if n < 26 then n + 65 else if n < 52 then n + 71 else if n < 62 then n - 4 else if n = 62 then 43 else 47)"
  by (auto simp: b64_char_def)

lemma mb_wire_char:
  assumes "n < 64"
  shows "mb_b64 (mb_comma (b64_char n))" "mb_slash (mb_comma (b64_char n)) = b64_char n"
proof -
  have sl: "b64_char n = CHR ''/'' \<longleftrightarrow> n = 63"
  proof
    assume "b64_char n = CHR ''/''"
    then have "(of_char (b64_char n) :: nat) = 47" by simp
    then show "n = 63" using b64_char_code[OF assms] assms by (auto split: if_splits)
  next
    assume "n = 63"
    moreover have "b64_char 63 = CHR ''/''" by code_simp
    ultimately show "b64_char n = CHR ''/''" by simp
  qed
  show "mb_b64 (mb_comma (b64_char n))"
    using assms b64_char_code[OF assms] sl by (auto simp: mb_b64_def mb_comma_def split: if_splits)
  have "(of_char (b64_char n) :: nat) \<noteq> 44" using b64_char_code[OF assms] assms by (auto split: if_splits)
  then show "mb_slash (mb_comma (b64_char n)) = b64_char n" by (simp add: mb_slash_def mb_comma_def)
qed

definition mb_wire :: "units \<Rightarrow> units" where
  "mb_wire p = map mb_comma (map b64_char (b64_groups (utf16be p)))"

lemma mb_wire_facts:
  assumes "name_ok p" "p \<noteq> []"
  shows "list_all mb_b64 (mb_wire p)" "mb_wire p \<noteq> []" "mb_replacement (mb_wire p) = p"
proof -
  let ?g = "b64_groups (utf16be p)"
  have small: "\<forall>n\<in>set ?g. n < 64" using b64_groups_small[OF utf16be_ok[OF assms(1)]] by blast
  show "list_all mb_b64 (mb_wire p)" using small mb_wire_char(1) by (auto simp: mb_wire_def list_all_iff)
  have "utf16be p \<noteq> []" using utf16be_even[of p] assms(2) by auto
  then show ne: "mb_wire p \<noteq> []" by (simp add: mb_wire_def groups_nil)
  have "map mb_slash (mb_wire p) = map b64_char ?g"
    using small mb_wire_char(2) by (simp add: mb_wire_def)
  then have "b64_decode (map mb_slash (mb_wire p)) = utf16be p"
    using b64_decode_groups[OF utf16be_ok[OF assms(1)], of 0] by (simp add: b64_pad_def)
  then show "mb_replacement (mb_wire p) = p"
    using ne utf16be_even[of p] by (simp add: mb_replacement_def read_utf16be_utf16be)
qed

lemma decode_escape: "list_all mb_b64 b \<Longrightarrow> decodeMailboxName (38 # b @ 45 # rest) = mb_replacement b @ decodeMailboxName rest"
proof -
  assume "list_all mb_b64 b"
  then have "takeWhile mb_b64 (b @ 45 # rest) = b" by (simp add: list_all_iff takeWhile_append mb_b64_def)
  then show ?thesis by (simp add: Let_def)
qed

lemma decode_flush: "name_ok p \<Longrightarrow> decodeMailboxName (mb_flush p @ rest) = p @ decodeMailboxName rest"
  using mb_wire_facts[of p] decode_escape[of "mb_wire p" rest]
  by (cases "p = []") (simp_all add: mb_flush_def mb_wire_def[symmetric] del: decodeMailboxName.simps map_map)

lemma decode_encode: "name_ok p \<Longrightarrow> name_ok n \<Longrightarrow> decodeMailboxName (mb_encode p n) = p @ n"
proof (induction p n rule: mb_encode.induct)
  case (1 p)
  then show ?case using decode_flush[of p "[]"] by simp
next
  case (2 p u r)
  show ?case
  proof (cases "32 \<le> u \<and> u \<le> 126")
    case True
    have r: "decodeMailboxName (mb_encode [] r) = r" using "2.IH"(1)[OF True] 2(4) by (simp add: name_ok_def)
    have "decodeMailboxName ((if u = 38 then [38, 45] else [u]) @ mb_encode [] r) = u # r"
      using r decode_escape[of "[]" "mb_encode [] r"] by (simp add: mb_replacement_def Let_def)
    then show ?thesis using True decode_flush[OF 2(3)] by simp
  next
    case False
    then show ?thesis using 2 by (auto simp: name_ok_def)
  qed
qed

interpretation mailbox: codec encodeMailboxName "\<lambda>w. Some (decodeMailboxName w)" name_ok
  by unfold_locales (simp add: encodeMailboxName_def decode_encode name_ok_def)

lemma mb_flush_ascii: "name_ok p \<Longrightarrow> list_all (\<lambda>u. 32 \<le> u \<and> u \<le> 126) (mb_flush p)"
proof (cases "p = []")
  case False
  assume "name_ok p"
  then have "list_all mb_b64 (mb_wire p)" using mb_wire_facts(1)[of p] False by simp
  then show ?thesis using False by (auto simp: mb_flush_def mb_wire_def[symmetric] list_all_iff mb_b64_def simp del: map_map)
qed (simp add: mb_flush_def)

lemma mb_encode_ascii: "name_ok p \<Longrightarrow> name_ok n \<Longrightarrow> list_all (\<lambda>u. 32 \<le> u \<and> u \<le> 126) (mb_encode p n)"
  by (induction p n rule: mb_encode.induct) (auto simp: mb_flush_ascii name_ok_def)

text \<open>C17: Modified UTF-7 loses nothing: decoding the encoded name of a mailbox gives the name back for
  every string of UTF-16 code units, surrogates included; two different mailboxes never share a wire name;
  and the wire name is printable ASCII, so a mailbox argument is always sent as a quoted string.\<close>

theorem mailbox_name_roundtrip:
  assumes "name_ok n"
  shows "decodeMailboxName (encodeMailboxName n) = n \<and>
    (\<forall>m. name_ok m \<and> encodeMailboxName m = encodeMailboxName n \<longrightarrow> m = n) \<and>
    list_all (\<lambda>u. 32 \<le> u \<and> u \<le> 126) (encodeMailboxName n) \<and>
    mailboxArg n = PText (dquote # escape_quoted (latin1 (encodeMailboxName n)) @ [dquote])"
proof -
  have ascii: "list_all (\<lambda>u. 32 \<le> u \<and> u \<le> 126) (encodeMailboxName n)"
    using assms mb_encode_ascii[of "[]" n] by (simp add: encodeMailboxName_def name_ok_def)
  then have "\<not> list_ex (\<lambda>u. u < 1 \<or> u > 127 \<or> u = 13 \<or> u = 10) (encodeMailboxName n)"
    by (auto simp: list_all_iff list_ex_iff)
  moreover have "decodeMailboxName (encodeMailboxName n) = n" using mailbox.dec_enc[OF assms] by simp
  ultimately show ?thesis using ascii mailbox.enc_inj[OF _ assms] by (auto simp: mailboxArg_def astring_def)
qed

lemma mailbox_name_roundtrip_witness:
  "decodeMailboxName (encodeMailboxName [65, 38, 8364, 55357, 56832]) = [65, 38, 8364, 55357, 56832]"
proof -
  have "name_ok [65, 38, 8364, 55357, 56832]" by (simp add: name_ok_def)
  from mailbox_name_roundtrip[OF this] show ?thesis by blast
qed

section \<open>UID sets\<close>

fun run_end :: "int \<Rightarrow> int list \<Rightarrow> int \<times> int list" where
  "run_end x [] = (x, [])"
| "run_end x (y # ys) = (if y = x + 1 then run_end y ys else (x, y # ys))"

lemma run_end_length: "length (snd (run_end x ys)) \<le> length ys"
  by (induction ys arbitrary: x) (auto simp: le_SucI)

function uid_ranges :: "int list \<Rightarrow> (int \<times> int) list" where
  "uid_ranges [] = []"
| "uid_ranges (x # xs) = (let (e, rest) = run_end x xs in (x, e) # uid_ranges rest)"
  by pat_completeness auto
termination
  by (relation "measure length") (auto, metis le_imp_less_Suc run_end_length snd_conv)

definition range_text :: "int \<times> int \<Rightarrow> string" where
  "range_text r = (if fst r = snd r then show_int (fst r) else show_int (fst r) @ '':'' @ show_int (snd r))"

fun pack_ranges :: "nat \<Rightarrow> string \<Rightarrow> string list \<Rightarrow> string list" where
  "pack_ranges maxLen cur [] = (if cur = [] then [] else [cur])"
| "pack_ranges maxLen cur (r # rs) =
     (if cur \<noteq> [] \<and> length cur + 1 + length r > maxLen then cur # pack_ranges maxLen r rs
      else pack_ranges maxLen (if cur = [] then r else cur @ '','' @ r) rs)"

definition sorted_uids :: "int list \<Rightarrow> int list" where
  "sorted_uids uids = sort (filter (\<lambda>n. n > 0) (remdups uids))"

definition uidSets :: "int list \<Rightarrow> nat \<Rightarrow> string list" where
  "uidSets uids maxLen = pack_ranges maxLen [] (map range_text (uid_ranges (sorted_uids uids)))"

lemma run_end_range:
  assumes "run_end x ys = (e, rest)" "sorted_wrt (<) (x # ys)"
  shows "x \<le> e" "set (x # ys) = {x..e} \<union> set rest" "sorted_wrt (<) rest" "\<forall>z\<in>set rest. e + 1 < z"
  using assms
proof (induction ys arbitrary: x)
  case (Cons y ys)
  { case 1 then show ?case using Cons.IH(1)[of y] by (auto split: if_splits) }
  { case 2
    show ?case
    proof (cases "y = x + 1")
      case True
      then have r: "run_end y ys = (e, rest)" "sorted_wrt (<) (y # ys)" using 2 by simp_all
      have "{x..e} = insert x {y..e}" using True Cons.IH(1)[OF r] by auto
      then show ?thesis using Cons.IH(2)[OF r] by simp
    next
      case False
      then show ?thesis using 2 by simp
    qed }
  { case 3 then show ?case using Cons.IH(3)[of y] by (auto split: if_splits) }
  { case 4 then show ?case using Cons.IH(4)[of y] by (force split: if_splits) }
qed simp_all

lemma uid_ranges_cover:
  "sorted_wrt (<) xs \<Longrightarrow> (\<Union>(a, b)\<in>set (uid_ranges xs). {a..b}) = set xs \<and>
     sorted_wrt (\<lambda>r s. snd r + 1 < fst s) (uid_ranges xs) \<and> (\<forall>r\<in>set (uid_ranges xs). fst r \<le> snd r \<and> fst r \<in> set xs)"
proof (induction xs rule: uid_ranges.induct)
  case (2 x xs)
  obtain e rest where r: "run_end x xs = (e, rest)" by fastforce
  note f = run_end_range[OF r 2(2)]
  note ih = 2(1)[OF r[symmetric] refl f(3)]
  have "\<forall>s\<in>set (uid_ranges rest). e + 1 < fst s" using ih f(4) by blast
  moreover have "set rest \<subseteq> set (x # xs)" using f(2) by blast
  ultimately show ?case using ih f r by auto
qed simp

lemma sorted_uids_strict: "sorted_wrt (<) (sorted_uids uids)" "set (sorted_uids uids) = {u \<in> set uids. 0 < u}"
  by (auto simp: sorted_uids_def strict_sorted_iff)

lemma show_int_no_comma: "CHR '','' \<notin> set (show_int i)" "show_int i \<noteq> []"
proof -
  have "CHR '','' \<notin> set (show_nat n)" for n using show_nat_digits[of n] by (auto simp: list_all_iff is_digit_def)
  then show "CHR '','' \<notin> set (show_int i)" by (simp add: show_int_def)
  show "show_int i \<noteq> []" by (simp add: show_int_def show_nat_nonempty)
qed

lemma range_text_facts: "CHR '','' \<notin> set (range_text r)" "range_text r \<noteq> []"
  using show_int_no_comma by (auto simp: range_text_def)

lemma split_no_sep: "d \<notin> set s \<Longrightarrow> js_split d s = [s]"
  by (induction s) auto

lemma split_append: "d \<notin> set r \<Longrightarrow> js_split d (s @ d # r) = js_split d s @ [r]"
proof (induction s)
  case (Cons c s)
  obtain q qs where "js_split d s = q # qs" using js_split_nonempty[of d s] by (cases "js_split d s") auto
  then show ?case using Cons by auto
qed (simp add: split_no_sep)

lemma pack_ranges_split:
  "\<forall>r\<in>set rs. CHR '','' \<notin> set r \<and> r \<noteq> [] \<Longrightarrow>
   concat (map (js_split (CHR '','')) (pack_ranges m cur rs)) = (if cur = [] then [] else js_split (CHR '','') cur) @ rs"
proof (induction m cur rs rule: pack_ranges.induct)
  case (2 m cur r rs)
  then show ?case using split_append[of "CHR '',''" r cur] by (auto simp: split_no_sep)
qed simp

lemma pack_ranges_length:
  "\<forall>r\<in>set rs. length r \<le> m \<Longrightarrow> length cur \<le> m \<Longrightarrow> c \<in> set (pack_ranges m cur rs) \<Longrightarrow> length c \<le> m"
  by (induction m cur rs rule: pack_ranges.induct) (auto split: if_splits)

text \<open>C18: A UID set names exactly the positive UIDs asked for: its chunks, cut at the commas, are the
  texts of the ranges of the set; the ranges cover the UIDs and nothing else, in increasing order and
  with a gap between any two of them, so no shorter list of ranges exists; and no chunk is longer than
  maxLen unless a single range is.\<close>

theorem uid_sets_exact:
  "concat (map (js_split (CHR '','')) (uidSets uids m)) = map range_text (uid_ranges (sorted_uids uids)) \<and>
   (\<Union>(a, b)\<in>set (uid_ranges (sorted_uids uids)). {a..b}) = {u \<in> set uids. 0 < u} \<and>
   sorted_wrt (\<lambda>r s. snd r + 1 < fst s) (uid_ranges (sorted_uids uids)) \<and>
   ((\<forall>r\<in>set (uid_ranges (sorted_uids uids)). length (range_text r) \<le> m) \<longrightarrow> (\<forall>c\<in>set (uidSets uids m). length c \<le> m))"
proof (intro conjI impI ballI)
  show "concat (map (js_split (CHR '','')) (uidSets uids m)) = map range_text (uid_ranges (sorted_uids uids))"
    using pack_ranges_split[of "map range_text (uid_ranges (sorted_uids uids))" m "[]"] range_text_facts by (simp add: uidSets_def)
  show "(\<Union>(a, b)\<in>set (uid_ranges (sorted_uids uids)). {a..b}) = {u \<in> set uids. 0 < u}"
    "sorted_wrt (\<lambda>r s. snd r + 1 < fst s) (uid_ranges (sorted_uids uids))"
    using uid_ranges_cover[OF sorted_uids_strict(1), of uids] sorted_uids_strict(2)[of uids] by simp_all
next
  fix c assume "\<forall>r\<in>set (uid_ranges (sorted_uids uids)). length (range_text r) \<le> m" "c \<in> set (uidSets uids m)"
  then show "length c \<le> m" using pack_ranges_length[of "map range_text (uid_ranges (sorted_uids uids))" m "[]" c]
    by (simp add: uidSets_def)
qed

lemma uid_sets_exact_witness:
  "uidSets [9, 3, 1, 2, 3, -4, 7] 5 = [''1:3,7'', ''9''] \<and> list_all (\<lambda>c. length c \<le> 5) (uidSets [9, 3, 1, 2, 3, -4, 7] 5)"
proof -
  have v: "uidSets [9, 3, 1, 2, 3, -4, 7] 5 = [''1:3,7'', ''9'']"
    and r: "\<forall>r\<in>set (uid_ranges (sorted_uids [9, 3, 1, 2, 3, -4, 7])). length (range_text r) \<le> 5" by code_simp+
  show ?thesis using uid_sets_exact[of "[9, 3, 1, 2, 3, -4, 7]" 5] r v unfolding list_all_iff by blast
qed

end
