(* ===== verification/ImapCommands.thy ===== *)
theory ImapCommands
  imports ImapArgs SmtpProtocol Complex_Main
begin

text \<open>
  src/src/imap/ImapCommands.ts: SEARCH criteria, the validation of flags, sequence sets, atoms and
  sections, and the builders of IMAP commands as lists of text parts and literals.  A Date is given by
  the fields its getters return; search strings are UTF-16 code units, flags and sets byte strings.
\<close>

definition and_then :: "'e + 'a \<Rightarrow> ('a \<Rightarrow> 'e + 'b) \<Rightarrow> 'e + 'b" where
  "and_then x f = (case x of Inl e \<Rightarrow> Inl e | Inr a \<Rightarrow> f a)"

lemma and_then_Inr: "and_then x f = Inr b \<longleftrightarrow> (\<exists>a. x = Inr a \<and> f a = Inr b)"
  by (cases x) (auto simp: and_then_def)

section \<open>Dates\<close>

record date_fields =
  df_date :: nat
  df_month :: nat
  df_year :: int
  df_hours :: nat
  df_minutes :: nat
  df_seconds :: nat

definition month_name :: "nat \<Rightarrow> string" where
  "month_name m = (if m < 12 then [''Jan'', ''Feb'', ''Mar'', ''Apr'', ''May'', ''Jun'', ''Jul'', ''Aug'', ''Sep'', ''Oct'', ''Nov'', ''Dec''] ! m
     else ''undefined'')"

definition formatDate :: "date_fields \<Rightarrow> string" where
  "formatDate d = show_nat (df_date d) @ ''-'' @ month_name (df_month d) @ ''-'' @ show_int (df_year d)"

definition pad2 :: "nat \<Rightarrow> string" where
  "pad2 n = (let s = show_nat n in replicate (2 - length s) (CHR ''0'') @ s)"

definition formatDateTime :: "date_fields \<Rightarrow> string" where
  "formatDateTime d = [dquote] @ pad2 (df_date d) @ ''-'' @ month_name (df_month d) @ ''-'' @ show_int (df_year d) @ '' '' @
     pad2 (df_hours d) @ '':'' @ pad2 (df_minutes d) @ '':'' @ pad2 (df_seconds d) @ '' +0000'' @ [dquote]"

section \<open>Validation\<close>

definition control_char :: "char \<Rightarrow> bool" where
  "control_char c = (let n = of_char c :: nat in n < 32 \<or> n = 127)"

definition flag_char :: "char \<Rightarrow> bool" where
  "flag_char c \<longleftrightarrow> \<not> (js_ws c \<or> control_char c \<or> c = CHR ''('' \<or> c = CHR '')'' \<or> c = CHR ''{'' \<or> c = CHR ''%'' \<or>
     c = CHR ''*'' \<or> c = dquote \<or> c = backslash \<or> c = CHR '']'')"

definition flag_ok :: "string \<Rightarrow> bool" where
  "flag_ok f = (let g = (case f of c # r \<Rightarrow> if c = backslash then r else f | [] \<Rightarrow> []) in g \<noteq> [] \<and> list_all flag_char g)"

fun checkFlags_list :: "string list \<Rightarrow> mail_error + unit" where
  "checkFlags_list [] = Inr ()"
| "checkFlags_list (f # fs) =
     (if \<not> flag_ok f then Inl (ImapError (''Invalid IMAP flag: '' @ json_quote f) False EIMAP None) else checkFlags_list fs)"

definition checkFlags :: "string list \<Rightarrow> mail_error + string" where
  "checkFlags fs = and_then (checkFlags_list fs) (\<lambda>_. Inr (js_join '' '' fs))"

definition seq_num_ok :: "string \<Rightarrow> bool" where
  "seq_num_ok s \<longleftrightarrow> s = ''*'' \<or> (s \<noteq> [] \<and> list_all is_digit s)"

definition seq_range_ok :: "string \<Rightarrow> bool" where
  "seq_range_ok s = (case js_split (CHR '':'') s of [a] \<Rightarrow> seq_num_ok a | [a, b] \<Rightarrow> seq_num_ok a \<and> seq_num_ok b | _ \<Rightarrow> False)"

definition seq_set_ok :: "string \<Rightarrow> bool" where
  "seq_set_ok s = list_all seq_range_ok (js_split (CHR '','') s)"

definition checkSeqSet :: "string \<Rightarrow> mail_error + string" where
  "checkSeqSet s = (if seq_set_ok s then Inr s
     else Inl (ImapError (''Invalid IMAP sequence set: '' @ json_quote s) False EIMAP None))"

definition alnum :: "char \<Rightarrow> bool" where
  "alnum c = (let n = of_char c :: nat in (65 \<le> n \<and> n \<le> 90) \<or> (97 \<le> n \<and> n \<le> 122) \<or> (48 \<le> n \<and> n \<le> 57))"

definition checkAtom :: "string \<Rightarrow> string \<Rightarrow> mail_error + string" where
  "checkAtom v what =
     (if v \<noteq> [] \<and> list_all (\<lambda>c. alnum c \<or> c = CHR ''.'' \<or> c = CHR ''-'' \<or> c = CHR ''_'') v then Inr v
      else Inl (ImapError (''Invalid IMAP '' @ what @ '': '' @ json_quote v) False EIMAP None))"

fun checkAtoms :: "string list \<Rightarrow> string \<Rightarrow> mail_error + string list" where
  "checkAtoms [] what = Inr []"
| "checkAtoms (v # vs) what = and_then (checkAtom v what) (\<lambda>a. and_then (checkAtoms vs what) (\<lambda>r. Inr (a # r)))"

text \<open>A section: letters, digits and dots, then possibly a parenthesised field list that ends it.\<close>

definition section_ok :: "string \<Rightarrow> bool" where
  "section_ok s = (let r = dropWhile (\<lambda>c. alnum c \<or> c = CHR ''.'') s;
       r1 = (case r of c # t \<Rightarrow> if c = sp then t else r | [] \<Rightarrow> [])
     in r = [] \<or> (r1 \<noteq> [] \<and> hd r1 = CHR ''('' \<and> tl r1 \<noteq> [] \<and> last r1 = CHR '')'' \<and>
          list_all (\<lambda>c. alnum c \<or> c = CHR ''-'' \<or> c = CHR ''_'' \<or> c = sp) (butlast (tl r1))))"

definition checkSection :: "string \<Rightarrow> mail_error + string" where
  "checkSection s = (if section_ok s then Inr s else Inl (ImapError (''Invalid IMAP section: '' @ json_quote s) False EIMAP None))"

section \<open>SEARCH criteria\<close>

record query_fields =
  qf_seen :: "bool option"
  qf_unseen :: "bool option"
  qf_flagged :: "bool option"
  qf_unflagged :: "bool option"
  qf_answered :: "bool option"
  qf_deleted :: "bool option"
  qf_draft :: "bool option"
  qf_from :: "units option"
  qf_to :: "units option"
  qf_cc :: "units option"
  qf_bcc :: "units option"
  qf_subject :: "units option"
  qf_body :: "units option"
  qf_text :: "units option"
  qf_since :: "date_fields option"
  qf_before :: "date_fields option"
  qf_on :: "date_fields option"
  qf_sentSince :: "date_fields option"
  qf_sentBefore :: "date_fields option"
  qf_larger :: "rat option"
  qf_smaller :: "rat option"
  qf_uid :: "string option"
  qf_header :: "(units \<times> units) option"
  qf_keyword :: "string option"
  qf_unkeyword :: "string option"

datatype imap_query = Query query_fields "imap_query option" "(imap_query \<times> imap_query) option"

definition js_trunc :: "rat \<Rightarrow> int" where "js_trunc x = (if 0 \<le> x then \<lfloor>x\<rfloor> else \<lceil>x\<rceil>)"

definition kw_if :: "bool \<Rightarrow> string \<Rightarrow> command_part list" where "kw_if b k = (if b then [PText k] else [])"

definition str_part :: "string \<Rightarrow> units option \<Rightarrow> command_part list" where
  "str_part k v = (case v of None \<Rightarrow> [] | Some u \<Rightarrow> if u = [] then [] else [PText k, astring u])"

definition date_part :: "string \<Rightarrow> date_fields option \<Rightarrow> command_part list" where
  "date_part k d = (case d of None \<Rightarrow> [] | Some x \<Rightarrow> [PText (k @ '' '' @ formatDate x)])"

definition num_part :: "string \<Rightarrow> rat option \<Rightarrow> command_part list" where
  "num_part k n = (case n of None \<Rightarrow> [] | Some x \<Rightarrow> [PText (k @ '' '' @ show_int (js_trunc x))])"

text \<open>A criterion with a checked argument; an absent or empty one adds nothing.\<close>

definition checked_part :: "string \<Rightarrow> (string \<Rightarrow> mail_error + string) \<Rightarrow> string option \<Rightarrow> mail_error + command_part list" where
  "checked_part k check v = (case v of None \<Rightarrow> Inr []
     | Some s \<Rightarrow> if s = [] then Inr [] else and_then (check s) (\<lambda>t. Inr [PText (k @ '' '' @ t)]))"

definition plain_criteria :: "query_fields \<Rightarrow> command_part list" where
  "plain_criteria q =
     kw_if (qf_seen q = Some True) ''SEEN'' @ kw_if (qf_seen q = Some False \<or> qf_unseen q = Some True) ''UNSEEN'' @
     kw_if (qf_flagged q = Some True) ''FLAGGED'' @
     kw_if (qf_flagged q = Some False \<or> qf_unflagged q = Some True) ''UNFLAGGED'' @
     kw_if (qf_answered q = Some True) ''ANSWERED'' @ kw_if (qf_answered q = Some False) ''UNANSWERED'' @
     kw_if (qf_deleted q = Some True) ''DELETED'' @ kw_if (qf_deleted q = Some False) ''UNDELETED'' @
     kw_if (qf_draft q = Some True) ''DRAFT'' @ kw_if (qf_draft q = Some False) ''UNDRAFT'' @
     str_part ''FROM'' (qf_from q) @ str_part ''TO'' (qf_to q) @ str_part ''CC'' (qf_cc q) @
     str_part ''BCC'' (qf_bcc q) @ str_part ''SUBJECT'' (qf_subject q) @ str_part ''BODY'' (qf_body q) @
     str_part ''TEXT'' (qf_text q) @ date_part ''SINCE'' (qf_since q) @ date_part ''BEFORE'' (qf_before q) @
     date_part ''ON'' (qf_on q) @ date_part ''SENTSINCE'' (qf_sentSince q) @
     date_part ''SENTBEFORE'' (qf_sentBefore q) @ num_part ''LARGER'' (qf_larger q) @
     num_part ''SMALLER'' (qf_smaller q)"

definition field_criteria :: "query_fields \<Rightarrow> mail_error + command_part list" where
  "field_criteria q =
     and_then (checked_part ''UID'' checkSeqSet (qf_uid q)) (\<lambda>uid.
     and_then (checked_part ''KEYWORD'' (\<lambda>k. checkFlags [k]) (qf_keyword q)) (\<lambda>kw.
     and_then (checked_part ''UNKEYWORD'' (\<lambda>k. checkFlags [k]) (qf_unkeyword q)) (\<lambda>ukw.
       Inr (plain_criteria q @ uid @
         (case qf_header q of None \<Rightarrow> [] | Some (n, v) \<Rightarrow> [PText ''HEADER'', astring n, astring v]) @ kw @ ukw))))"

definition or_all :: "command_part list \<Rightarrow> command_part list" where
  "or_all parts = (if parts = [] then [PText ''ALL''] else parts)"

fun buildSearchParts :: "imap_query \<Rightarrow> mail_error + command_part list" where
  "buildSearchParts (Query q neg alt) =
     and_then (field_criteria q) (\<lambda>base.
     and_then (case neg of None \<Rightarrow> Inr [] | Some n \<Rightarrow>
       and_then (buildSearchParts n) (\<lambda>p. Inr ([PText ''NOT (''] @ p @ [PText '')'']))) (\<lambda>ns.
     and_then (case alt of None \<Rightarrow> Inr [] | Some ab \<Rightarrow> (case ab of (a, b) \<Rightarrow>
       and_then (buildSearchParts a) (\<lambda>p. and_then (buildSearchParts b) (\<lambda>r.
         Inr ([PText ''OR (''] @ p @ [PText '') (''] @ r @ [PText '')'']))))) (\<lambda>os.
       Inr (or_all (base @ ns @ os)))))"

definition is_literal :: "command_part \<Rightarrow> bool" where
  "is_literal p = (case p of PLiteral _ \<Rightarrow> True | PText _ \<Rightarrow> False)"

definition needsCharset :: "command_part list \<Rightarrow> bool" where "needsCharset parts = list_ex is_literal parts"

section \<open>Joining the parts\<close>

definition glue_left :: "command_part \<Rightarrow> bool" where
  "glue_left p = (case p of PText t \<Rightarrow> t \<noteq> [] \<and> hd t = CHR '')'' | PLiteral _ \<Rightarrow> False)"

definition opens :: "command_part \<Rightarrow> bool" where
  "opens p = (case p of PText t \<Rightarrow> t \<noteq> [] \<and> last t = CHR ''('' | PLiteral _ \<Rightarrow> False)"

fun join_parts_from :: "bool \<Rightarrow> bool \<Rightarrow> command_part list \<Rightarrow> command_part list" where
  "join_parts_from started prevOpen [] = []"
| "join_parts_from started prevOpen (p # ps) =
     (if started \<and> \<not> prevOpen \<and> \<not> glue_left p then [PText '' ''] else []) @ p # join_parts_from True (opens p) ps"

definition joinParts :: "command_part list \<Rightarrow> command_part list" where "joinParts parts = join_parts_from False True parts"

section \<open>The command builders\<close>

datatype imap_command =
    CLogin units units | CSelect units bool | CExamine units | CCreate units | CDelete units
  | CRename units units | CList units units bool | CLsub units units | CSubscribe units | CUnsubscribe units
  | CStatus units "string list" | CUidSearch imap_query | CUidFetch string string
  | CUidFetchChangedSince string string rat | CUidStore string "string list" bool bool
  | CUidCopy string units | CUidMove string units | CUidExpunge string
  | CAppend units "string list" bytes "date_fields option"

fun ImapParts :: "imap_command \<Rightarrow> mail_error + command_part list" where
  "ImapParts (CLogin u p) = Inr [PText ''LOGIN'', astring u, astring p]"
| "ImapParts (CSelect m cs) = Inr ([PText ''SELECT'', mailboxArg m] @ (if cs then [PText ''(CONDSTORE)''] else []))"
| "ImapParts (CExamine m) = Inr [PText ''EXAMINE'', mailboxArg m]"
| "ImapParts (CCreate m) = Inr [PText ''CREATE'', mailboxArg m]"
| "ImapParts (CDelete m) = Inr [PText ''DELETE'', mailboxArg m]"
| "ImapParts (CRename a b) = Inr [PText ''RENAME'', mailboxArg a, mailboxArg b]"
| "ImapParts (CList r p ext) =
     Inr ([PText ''LIST'', mailboxArg r, mailboxArg p] @ (if ext then [PText ''RETURN (SPECIAL-USE)''] else []))"
| "ImapParts (CLsub r p) = Inr [PText ''LSUB'', mailboxArg r, mailboxArg p]"
| "ImapParts (CSubscribe m) = Inr [PText ''SUBSCRIBE'', mailboxArg m]"
| "ImapParts (CUnsubscribe m) = Inr [PText ''UNSUBSCRIBE'', mailboxArg m]"
| "ImapParts (CStatus m items) = and_then (checkAtoms items ''status item'') (\<lambda>is.
     Inr [PText ''STATUS'', mailboxArg m, PText (''('' @ js_join '' '' is @ '')'')])"
| "ImapParts (CUidSearch q) = and_then (buildSearchParts q) (\<lambda>p.
     Inr ([PText ''UID SEARCH''] @ (if needsCharset p then [PText ''CHARSET UTF-8''] else []) @ p))"
| "ImapParts (CUidFetch uids items) = and_then (checkSeqSet uids) (\<lambda>s.
     Inr [PText (''UID FETCH '' @ s @ '' ('' @ items @ '')'')])"
| "ImapParts (CUidFetchChangedSince uids items modseq) = and_then (checkSeqSet uids) (\<lambda>s.
     Inr [PText (''UID FETCH '' @ s @ '' ('' @ items @ '') (CHANGEDSINCE '' @ show_int (js_trunc modseq) @ '')'')])"
| "ImapParts (CUidStore uids flags add silent) = and_then (checkSeqSet uids) (\<lambda>s. and_then (checkFlags flags) (\<lambda>f.
     Inr [PText (''UID STORE '' @ s @ '' '' @ (if add then ''+'' else ''-'') @ ''FLAGS'' @
       (if silent then ''.SILENT'' else []) @ '' ('' @ f @ '')'')]))"
| "ImapParts (CUidCopy uids m) = and_then (checkSeqSet uids) (\<lambda>s. Inr [PText (''UID COPY '' @ s), mailboxArg m])"
| "ImapParts (CUidMove uids m) = and_then (checkSeqSet uids) (\<lambda>s. Inr [PText (''UID MOVE '' @ s), mailboxArg m])"
| "ImapParts (CUidExpunge uids) = and_then (checkSeqSet uids) (\<lambda>s. Inr [PText (''UID EXPUNGE '' @ s)])"
| "ImapParts (CAppend m flags raw d) = and_then (if flags = [] then Inr [] else and_then (checkFlags flags) (\<lambda>f. Inr [PText (''('' @ f @ '')'')])) (\<lambda>fp.
     Inr ([PText ''APPEND'', mailboxArg m] @ fp @ (case d of None \<Rightarrow> [] | Some x \<Rightarrow> [PText (formatDateTime x)]) @ [PLiteral raw]))"

section \<open>No command injection\<close>

definition one_line :: "string \<Rightarrow> bool" where "one_line s \<longleftrightarrow> cr \<notin> set s \<and> lf \<notin> set s"

definition part_safe :: "command_part \<Rightarrow> bool" where
  "part_safe p = (case p of PText t \<Rightarrow> one_line t | PLiteral b \<Rightarrow> True)"

lemma one_line_append [simp]: "one_line (a @ b) = (one_line a \<and> one_line b)" "one_line []"
  "one_line (c # a) = (c \<noteq> cr \<and> c \<noteq> lf \<and> one_line a)"
  by (auto simp: one_line_def)

lemma part_safe_simps [simp]: "part_safe (PText t) = one_line t" "part_safe (PLiteral b)"
  by (simp_all add: part_safe_def)

lemma not_crlf_char: "c \<noteq> cr \<and> c \<noteq> lf \<longleftrightarrow> (of_char c :: nat) \<noteq> 13 \<and> (of_char c :: nat) \<noteq> 10"
proof -
  have "(of_char cr :: nat) = 13" "(of_char lf :: nat) = 10" by (simp_all add: cr_def lf_def)
  then show ?thesis by (metis of_char_eq_iff)
qed

lemma one_line_all: "(\<And>c. c \<in> set s \<Longrightarrow> c \<noteq> cr \<and> c \<noteq> lf) \<Longrightarrow> one_line s"
  by (auto simp: one_line_def)

lemma digit_not_crlf: "is_digit c \<Longrightarrow> c \<noteq> cr \<and> c \<noteq> lf"
  unfolding not_crlf_char by (auto simp: is_digit_def Let_def)

lemma one_line_digits: "list_all is_digit s \<Longrightarrow> one_line s"
  by (rule one_line_all) (auto simp: list_all_iff dest: digit_not_crlf)

lemma one_line_show [simp]: "one_line (show_nat n)" "one_line (show_int i)" "one_line (pad2 n)" "one_line (month_name m)"
proof -
  show n: "one_line (show_nat n)" for n by (rule one_line_digits[OF show_nat_digits])
  show "one_line (show_int i)" using n by (simp add: show_int_def cr_def lf_def)
  show "one_line (pad2 n)" using n by (auto simp: pad2_def Let_def one_line_def cr_def lf_def)
  have "list_all one_line [''Jan'', ''Feb'', ''Mar'', ''Apr'', ''May'', ''Jun'', ''Jul'', ''Aug'', ''Sep'', ''Oct'', ''Nov'', ''Dec'']"
    by (simp add: cr_def lf_def)
  then show "one_line (month_name m)" unfolding month_name_def
    using nth_mem[of m "[''Jan'', ''Feb'', ''Mar'', ''Apr'', ''May'', ''Jun'', ''Jul'', ''Aug'', ''Sep'', ''Oct'', ''Nov'', ''Dec'']"]
    by (auto simp: list_all_iff cr_def lf_def)
qed

lemma one_line_join: "list_all one_line xs \<Longrightarrow> one_line d \<Longrightarrow> one_line (js_join d xs)"
  by (induction xs rule: induct_list012) auto

lemma one_line_split: "list_all one_line (js_split d s) \<Longrightarrow> d \<noteq> cr \<Longrightarrow> d \<noteq> lf \<Longrightarrow> one_line s"
  using one_line_join[of "js_split d s" "[d]"] by (simp add: js_join_split)

lemma one_line_astring [simp]: "part_safe (astring v)"
proof -
  have "cr \<notin> set (latin1 v)" "lf \<notin> set (latin1 v)" if "\<forall>u\<in>set v. \<not> (u < 1 \<or> u > 127 \<or> u = 13 \<or> u = 10)"
  proof -
    have "c \<noteq> cr \<and> c \<noteq> lf" if c: "c \<in> set (latin1 v)" for c
    proof -
      obtain u where u: "u \<in> set v" "c = char_of u" using c by (auto simp: latin1_def)
      then have "(of_char c :: nat) = u" using \<open>\<forall>u\<in>set v. _\<close> by auto
      then show ?thesis unfolding not_crlf_char using u \<open>\<forall>u\<in>set v. _\<close> by auto
    qed
    then show "cr \<notin> set (latin1 v)" "lf \<notin> set (latin1 v)" by blast+
  qed
  then show ?thesis
    by (auto simp: astring_def list_ex_iff one_line_def escape_quoted_def dquote_def backslash_def cr_def lf_def split: if_splits)
qed

lemma one_line_mailbox [simp]: "part_safe (mailboxArg n)"
  by (simp add: mailboxArg_def)

lemma checkFlags_safe: "checkFlags fs = Inr t \<Longrightarrow> one_line t"
proof -
  assume a: "checkFlags fs = Inr t"
  have fc: "one_line g" if "list_all flag_char g" for g
    using that crlf_ws by (intro one_line_all) (auto simp: list_all_iff flag_char_def)
  have "one_line f" if "flag_ok f" for f
  proof (cases f)
    case (Cons c r)
    have bs: "backslash \<noteq> cr" "backslash \<noteq> lf" by (simp_all add: backslash_def cr_def lf_def)
    show ?thesis
    proof (cases "c = backslash")
      case True
      then show ?thesis using that fc[of r] Cons bs by (simp add: flag_ok_def)
    next
      case False
      then show ?thesis using that fc[of f] Cons by (simp add: flag_ok_def)
    qed
  qed simp
  moreover have "list_all flag_ok fs \<or> (\<exists>e. checkFlags_list fs = Inl e)"
    by (induction fs) auto
  ultimately have "list_all one_line fs" using a by (auto simp: checkFlags_def and_then_def list_all_iff)
  then show ?thesis using a one_line_join[of fs "'' ''"]
    by (auto simp: checkFlags_def and_then_Inr cr_def lf_def)
qed

lemma checkSeqSet_safe: "checkSeqSet s = Inr t \<Longrightarrow> one_line t"
proof -
  assume a: "checkSeqSet s = Inr t"
  have n: "one_line x" if "seq_num_ok x" for x
    using that one_line_digits by (auto simp: seq_num_ok_def cr_def lf_def)
  have r: "one_line x" if "seq_range_ok x" for x
  proof -
    have "list_all one_line (js_split (CHR '':'') x)" using that n by (auto simp: seq_range_ok_def split: list.splits)
    then show ?thesis by (rule one_line_split) (simp_all add: cr_def lf_def)
  qed
  have "list_all one_line (js_split (CHR '','') s)" using a r by (auto simp: checkSeqSet_def seq_set_ok_def list_all_iff split: if_splits)
  then have "one_line s" by (rule one_line_split) (simp_all add: cr_def lf_def)
  then show ?thesis using a by (simp add: checkSeqSet_def split: if_splits)
qed

lemma checkAtoms_safe: "checkAtoms vs w = Inr rs \<Longrightarrow> list_all one_line rs"
proof (induction vs arbitrary: rs)
  case (Cons v vs)
  have "one_line a" if "checkAtom v w = Inr a" for a
    using that by (intro one_line_all) (auto simp: checkAtom_def list_all_iff alnum_def Let_def cr_def lf_def split: if_splits)
  then show ?case using Cons by (auto simp: and_then_Inr)
qed simp

lemma formatDate_safe [simp]: "one_line (formatDate d)" "one_line (formatDateTime d)"
  by (simp_all add: formatDate_def formatDateTime_def dquote_def cr_def lf_def)

lemma kw_str_safe:
  "one_line k \<Longrightarrow> list_all part_safe (kw_if b k)" "one_line k \<Longrightarrow> list_all part_safe (str_part k v)"
  "one_line k \<Longrightarrow> list_all part_safe (date_part k d)" "one_line k \<Longrightarrow> list_all part_safe (num_part k n)"
  by (auto simp: kw_if_def str_part_def date_part_def num_part_def cr_def lf_def split: option.splits)

lemma checked_part_safe:
  "checked_part k check v = Inr ps \<Longrightarrow> one_line k \<Longrightarrow> (\<And>s t. check s = Inr t \<Longrightarrow> one_line t) \<Longrightarrow> list_all part_safe ps"
  by (auto simp: checked_part_def and_then_Inr cr_def lf_def split: option.splits if_splits)

lemma plain_criteria_safe: "list_all part_safe (plain_criteria q)"
  unfolding plain_criteria_def list_all_append by (intro conjI kw_str_safe) (simp_all add: cr_def lf_def)

lemma field_criteria_safe: "field_criteria q = Inr ps \<Longrightarrow> list_all part_safe ps"
proof -
  assume "field_criteria q = Inr ps"
  then obtain u k w where
    c: "checked_part ''UID'' checkSeqSet (qf_uid q) = Inr u" "checked_part ''KEYWORD'' (\<lambda>k. checkFlags [k]) (qf_keyword q) = Inr k"
      "checked_part ''UNKEYWORD'' (\<lambda>k. checkFlags [k]) (qf_unkeyword q) = Inr w"
    and ps: "ps = plain_criteria q @ u @ (case qf_header q of None \<Rightarrow> [] | Some (n, v) \<Rightarrow> [PText ''HEADER'', astring n, astring v]) @ k @ w"
    by (auto simp: field_criteria_def and_then_Inr)
  have "list_all part_safe u" by (rule checked_part_safe[OF c(1)]) (simp_all add: cr_def lf_def checkSeqSet_safe)
  moreover have "list_all part_safe k" by (rule checked_part_safe[OF c(2)]) (simp_all add: cr_def lf_def checkFlags_safe)
  moreover have "list_all part_safe w" by (rule checked_part_safe[OF c(3)]) (simp_all add: cr_def lf_def checkFlags_safe)
  ultimately show ?thesis using plain_criteria_safe by (auto simp: ps cr_def lf_def split: option.splits)
qed

lemma search_safe: "buildSearchParts q = Inr ps \<Longrightarrow> list_all part_safe ps"
proof (induction q arbitrary: ps rule: buildSearchParts.induct)
  case (1 q neg alt)
  obtain base ns os where
    b: "field_criteria q = Inr base"
    and n: "(case neg of None \<Rightarrow> Inr [] | Some n \<Rightarrow> and_then (buildSearchParts n) (\<lambda>p. Inr ([PText ''NOT (''] @ p @ [PText '')'']))) = Inr ns"
    and o: "(case alt of None \<Rightarrow> Inr [] | Some ab \<Rightarrow> (case ab of (a, b) \<Rightarrow>
       and_then (buildSearchParts a) (\<lambda>p. and_then (buildSearchParts b) (\<lambda>r.
         Inr ([PText ''OR (''] @ p @ [PText '') (''] @ r @ [PText '')'']))))) = Inr os"
    and ps: "ps = or_all (base @ ns @ os)"
    using 1(4) by (auto simp: and_then_Inr)
  have paren: "list_all part_safe [PText ''NOT ('', PText ''OR ('', PText '') ('', PText '')'']"
    by (simp add: cr_def lf_def)
  have "list_all part_safe ns"
  proof (cases neg)
    case (Some m)
    then obtain p where "buildSearchParts m = Inr p" "ns = [PText ''NOT (''] @ p @ [PText '')'']"
      using n by (auto simp: and_then_Inr)
    then show ?thesis using 1(1)[OF Some] paren by simp
  qed (use n in simp)
  moreover have "list_all part_safe os"
  proof (cases alt)
    case (Some ab)
    obtain a b where ab: "ab = (a, b)" by (cases ab)
    then obtain p r where "buildSearchParts a = Inr p" "buildSearchParts b = Inr r"
      "os = [PText ''OR (''] @ p @ [PText '') (''] @ r @ [PText '')'']"
      using o Some by (auto simp: and_then_Inr)
    then show ?thesis using 1(2)[OF Some ab[symmetric]] 1(3)[OF Some ab[symmetric]] paren by simp
  qed (use o in simp)
  ultimately show ?case using field_criteria_safe[OF b] ps by (auto simp: or_all_def cr_def lf_def)
qed

lemma imap_parts_safe:
  assumes "ImapParts c = Inr ps" "\<And>u i m. c = CUidFetch u i \<or> c = CUidFetchChangedSince u i m \<Longrightarrow> one_line i"
  shows "list_all part_safe ps"
proof -
  note kw = cr_def lf_def and_then_Inr
  show ?thesis
  proof (cases c)
    case (CStatus m items)
    then show ?thesis using assms(1) one_line_join[of _ "'' ''"] by (auto simp: kw dest!: checkAtoms_safe)
  next
    case (CUidSearch q)
    then show ?thesis using assms(1) by (auto simp: kw dest!: search_safe)
  next
    case (CUidFetch u i)
    then show ?thesis using assms by (auto simp: kw dest!: checkSeqSet_safe)
  next
    case (CUidFetchChangedSince u i m)
    then show ?thesis using assms by (auto simp: kw dest!: checkSeqSet_safe)
  next
    case (CUidStore u f a s)
    then show ?thesis using assms(1) by (auto simp: kw dest!: checkSeqSet_safe checkFlags_safe)
  next
    case (CAppend m f r d)
    then show ?thesis using assms(1) by (auto simp: kw dest!: checkFlags_safe split: if_splits option.splits)
  qed (use assms(1) in \<open>auto simp: kw dest!: checkSeqSet_safe\<close>)
qed

lemma and_then_Inl: "and_then x f = Inl e \<longleftrightarrow> x = Inl e \<or> (\<exists>a. x = Inr a \<and> f a = Inl e)"
  by (cases x) (auto simp: and_then_def)

lemma ImapError_name [simp]: "e_name (ImapError m r c rc) = NImapError"
  by (simp add: ImapError_def)

lemma check_errors:
  "checkSeqSet s = Inl e \<Longrightarrow> e_name e = NImapError" "checkAtom v w = Inl e \<Longrightarrow> e_name e = NImapError"
  "checkFlags fs = Inl e \<Longrightarrow> e_name e = NImapError" "checkAtoms vs w = Inl e \<Longrightarrow> e_name e = NImapError"
proof -
  show a: "checkAtom v w = Inl e \<Longrightarrow> e_name e = NImapError" for v by (auto simp: checkAtom_def split: if_splits)
  show "checkSeqSet s = Inl e \<Longrightarrow> e_name e = NImapError" by (auto simp: checkSeqSet_def split: if_splits)
  have "checkFlags_list fs = Inl e \<Longrightarrow> e_name e = NImapError" by (induction fs) (auto split: if_splits)
  then show "checkFlags fs = Inl e \<Longrightarrow> e_name e = NImapError" by (auto simp: checkFlags_def and_then_Inl)
  show "checkAtoms vs w = Inl e \<Longrightarrow> e_name e = NImapError" using a by (induction vs) (auto simp: and_then_Inl)
qed

lemma checked_part_error:
  "checked_part k check v = Inl e \<Longrightarrow> (\<And>s. check s = Inl e \<Longrightarrow> e_name e = NImapError) \<Longrightarrow> e_name e = NImapError"
  by (auto simp: checked_part_def and_then_Inl split: option.splits if_splits)

lemma field_criteria_error: "field_criteria q = Inl e \<Longrightarrow> e_name e = NImapError"
  unfolding field_criteria_def and_then_Inl by (auto intro: checked_part_error check_errors)

lemma search_error: "buildSearchParts q = Inl e \<Longrightarrow> e_name e = NImapError"
proof (induction q rule: buildSearchParts.induct)
  case (1 q neg alt)
  consider "field_criteria q = Inl e" | n where "neg = Some n" "buildSearchParts n = Inl e"
    | a b where "alt = Some (a, b)" "buildSearchParts a = Inl e \<or> buildSearchParts b = Inl e"
    using 1(4) by (cases neg; cases alt) (auto simp: and_then_Inl)
  then show ?case
  proof cases
    case 1
    then show ?thesis by (rule field_criteria_error)
  next
    case (2 n)
    then show ?thesis by (rule "1.IH"(1))
  next
    case (3 a b)
    then show ?thesis using "1.IH"(2)[OF 3(1) refl] "1.IH"(3)[OF 3(1) refl] by blast
  qed
qed

lemma imap_parts_error: "ImapParts c = Inl e \<Longrightarrow> e_name e = NImapError"
  by (cases c) (auto simp: and_then_Inl dest: check_errors search_error split: if_splits)

text \<open>The fetch items of a command: the one argument the builders take as it is.\<close>

definition items_text :: "imap_command \<Rightarrow> string" where
  "items_text c = (case c of CUidFetch u i \<Rightarrow> i | CUidFetchChangedSince u i m \<Rightarrow> i | _ \<Rightarrow> [])"

lemma imap_parts_items: "ImapParts c = Inr ps \<Longrightarrow> list_all part_safe ps \<Longrightarrow> one_line (items_text c)"
  by (cases c) (auto simp: items_text_def and_then_Inr)

text \<open>C19: Whatever user names, passwords, mailbox names, search criteria, flags, UID sets or dates a
  command builder is given, it fails with an ImapError or returns parts none of whose text contains a
  CR or LF; an argument that does travels in a literal, with its length announced.  The one exception
  is the items argument of UID FETCH, which is not checked: the text of such a command is one line
  exactly when the items are.\<close>

theorem imap_commands_are_one_line:
  "case ImapParts c of Inl e \<Rightarrow> e_name e = NImapError | Inr ps \<Rightarrow> list_all part_safe ps \<longleftrightarrow> one_line (items_text c)"
proof (cases "ImapParts c")
  case (Inl e)
  then show ?thesis by (auto dest!: imap_parts_error)
next
  case (Inr ps)
  have "list_all part_safe ps" if "one_line (items_text c)"
    by (rule imap_parts_safe[OF Inr]) (use that in \<open>auto simp: items_text_def\<close>)
  then show ?thesis using imap_parts_items[OF Inr] Inr by auto
qed

lemma imap_commands_are_one_line_witness:
  "list_all part_safe [PText ''APPEND'', PText (dquote # ''Sent'' @ [dquote]), PText (''('' @ backslash # ''Seen)''), PLiteral [13, 10]]"
proof -
  let ?c = "CAppend [83, 101, 110, 116] [backslash # ''Seen''] [13, 10] None"
  have v: "ImapParts ?c = Inr [PText ''APPEND'', PText (dquote # ''Sent'' @ [dquote]), PText (''('' @ backslash # ''Seen)''), PLiteral [13, 10]]"
    by code_simp
  show ?thesis using imap_commands_are_one_line[of ?c] unfolding v by (simp add: items_text_def)
qed

text \<open>An items argument with a line break writes a second command.\<close>

lemma items_text_can_inject:
  "ImapParts (CUidFetch ''1'' (''UID)'' @ crlf @ ''X LOGOUT (''))
     = Inr [PText (''UID FETCH 1 (UID)'' @ crlf @ ''X LOGOUT ()'')]"
  by code_simp

end
