(* ===== verification/ImapFraming.thy ===== *)
theory ImapFraming
  imports ImapArgs SmtpProtocol
begin

text \<open>
  src/src/imap/ImapParser.ts up to the parsing of one response: framing of the server's byte stream into
  responses that may carry literals, with the three limits.  The pending buffers are one byte string; a
  thrown LimitError is kept in the state (the connection is closed then).
\<close>

section \<open>Responses\<close>

record imap_limits =
  il_maxLiteralBytes :: nat
  il_maxResponseBytes :: nat
  il_maxLineBytes :: nat

definition DEFAULT_IMAP_LIMITS :: imap_limits where
  "DEFAULT_IMAP_LIMITS = \<lparr> il_maxLiteralBytes = 64 * 1024 * 1024, il_maxResponseBytes = 128 * 1024 * 1024,
     il_maxLineBytes = 1024 * 1024 \<rparr>"

datatype response_type = RTagged | RUntagged | RContinuation

record imap_response =
  ir_type :: response_type
  ir_tag :: "string option"
  ir_status :: "string option"
  ir_data :: string
  ir_raw :: string

definition word_char :: "char \<Rightarrow> bool" where
  "word_char c = (let n = of_char c :: nat in (65 \<le> n \<and> n \<le> 90) \<or> (97 \<le> n \<and> n \<le> 122) \<or> (48 \<le> n \<and> n \<le> 57) \<or> n = 95)"

text \<open>A status word at the start of a string, in any case, that ends at a word boundary.\<close>

definition status_at :: "string list \<Rightarrow> string \<Rightarrow> string option" where
  "status_at ws s = find (\<lambda>w. ascii_upper (take (length w) s) = w \<and>
     (drop (length w) s = [] \<or> \<not> word_char (hd (drop (length w) s)))) ws"

definition match_tagged :: "string \<Rightarrow> (string \<times> string \<times> string) option" where
  "match_tagged line =
     (let tag = takeWhile (\<lambda>c. \<not> js_ws c) line; r = drop (length tag) line; t = js_ltrim r in
      if tag = [] \<or> r = [] then None
      else (case status_at [''OK'', ''NO'', ''BAD''] t of None \<Rightarrow> None
        | Some w \<Rightarrow> (let d = drop (length w) t in
            Some (tag, w, if d \<noteq> [] \<and> js_ws (hd d) then tl d else d))))"

definition parseLine :: "string \<Rightarrow> imap_response option" where
  "parseLine line =
     (if js_trim line = [] then None
      else if starts_with ''+'' line then
        Some \<lparr> ir_type = RContinuation, ir_tag = None, ir_status = None, ir_data = js_trim (tl line), ir_raw = line \<rparr>
      else if starts_with ''*'' line then
        (let rest = js_ltrim (tl line) in
         Some \<lparr> ir_type = RUntagged, ir_tag = None, ir_status = status_at [''OK'', ''NO'', ''BAD'', ''PREAUTH'', ''BYE''] rest,
           ir_data = rest, ir_raw = line \<rparr>)
      else (case match_tagged line of
          Some (tag, w, d) \<Rightarrow> Some \<lparr> ir_type = RTagged, ir_tag = Some tag, ir_status = Some w, ir_data = d, ir_raw = line \<rparr>
        | None \<Rightarrow> Some \<lparr> ir_type = RUntagged, ir_tag = None, ir_status = None, ir_data = line, ir_raw = line \<rparr>))"

section \<open>Framing\<close>

record imap_parser =
  ip_pending :: string
  ip_parts :: string
  ip_responseBytes :: nat
  ip_literalRemaining :: nat
  ip_error :: "mail_error option"

definition new_parser :: imap_parser where
  "new_parser = \<lparr> ip_pending = [], ip_parts = [], ip_responseBytes = 0, ip_literalRemaining = 0, ip_error = None \<rparr>"

text \<open>The size announced at the end of a line.\<close>

definition literal_at_end :: "string \<Rightarrow> nat option" where
  "literal_at_end line = (case rev line of
     b # r \<Rightarrow> (if b \<noteq> CHR ''}'' then None
       else let r1 = (case r of p # q \<Rightarrow> if p = CHR ''+'' then q else r | [] \<Rightarrow> []);
                ds = takeWhile is_digit r1; r2 = drop (length ds) r1
            in if ds \<noteq> [] \<and> r2 \<noteq> [] \<and> hd r2 = CHR ''{'' then Some (read_digits (rev ds)) else None)
   | [] \<Rightarrow> None)"

definition limit_error :: "string \<Rightarrow> imap_parser \<Rightarrow> imap_parser \<times> imap_response list" where
  "limit_error m st = (st \<lparr> ip_error := Some (LimitError m) \<rparr>, [])"

text \<open>The body of the loop of feed for one complete line.\<close>

definition frame_line :: "imap_limits \<Rightarrow> string \<Rightarrow> imap_parser \<Rightarrow> imap_parser \<times> imap_response list" where
  "frame_line lim line st =
     (if length line > il_maxLineBytes lim then
        limit_error (''IMAP line of '' @ show_nat (length line) @ '' bytes exceeds '' @ show_nat (il_maxLineBytes lim)) st
      else let bytes = ip_responseBytes st + (length line + 2) in
        case literal_at_end line of
          Some n \<Rightarrow>
            (if n > il_maxLiteralBytes lim then
               limit_error (''IMAP literal of '' @ show_nat n @ '' bytes exceeds maxLiteralBytes ('' @
                 show_nat (il_maxLiteralBytes lim) @ '')'') st
             else if bytes + n > il_maxResponseBytes lim then
               limit_error (''IMAP response exceeds maxResponseBytes ('' @ show_nat (il_maxResponseBytes lim) @ '')'') st
             else (st \<lparr> ip_responseBytes := bytes + n, ip_parts := ip_parts st @ line @ crlf,
                     ip_literalRemaining := n \<rparr>, []))
        | None \<Rightarrow> (st \<lparr> ip_parts := [], ip_responseBytes := 0 \<rparr>,
            (case parseLine (ip_parts st @ line) of None \<Rightarrow> [] | Some r \<Rightarrow> [r])))"

function frame :: "imap_limits \<Rightarrow> imap_parser \<Rightarrow> imap_parser \<times> imap_response list" where
  "frame lim st =
     (if ip_error st \<noteq> None then (st, [])
      else if ip_literalRemaining st > 0 then
        (if length (ip_pending st) < ip_literalRemaining st then (st, [])
         else frame lim (st \<lparr> ip_parts := ip_parts st @ take (ip_literalRemaining st) (ip_pending st),
                 ip_pending := drop (ip_literalRemaining st) (ip_pending st), ip_literalRemaining := 0 \<rparr>))
      else case cut_crlf (ip_pending st) of
        None \<Rightarrow> (if length (ip_pending st) > il_maxLineBytes lim then
            limit_error (''IMAP line exceeds '' @ show_nat (il_maxLineBytes lim) @ '' bytes without CRLF'') st
          else (st, []))
      | Some (line, rest) \<Rightarrow>
          (let (st1, o1) = frame_line lim line st; (st2, o2) = frame lim (st1 \<lparr> ip_pending := rest \<rparr>) in (st2, o1 @ o2)))"
  by pat_completeness auto

termination
  by (relation "measure (\<lambda>(lim, st). length (ip_pending st))") (auto dest: cut_crlf_length)

declare frame.simps [simp del]

text \<open>A throw loses the responses the call had completed.\<close>

definition imap_feed :: "imap_limits \<Rightarrow> imap_parser \<Rightarrow> string \<Rightarrow> imap_parser \<times> imap_response list" where
  "imap_feed lim st chunk = (let (st1, out) = frame lim (st \<lparr> ip_pending := ip_pending st @ chunk \<rparr>) in
     if ip_error st1 \<noteq> None then (st1, []) else (st1, out))"

section \<open>Chunks do not matter\<close>

definition add_pending :: "string \<Rightarrow> imap_parser \<Rightarrow> imap_parser" where
  "add_pending d st = st \<lparr> ip_pending := ip_pending st @ d \<rparr>"

lemma add_pending_simps [simp]:
  "ip_pending (add_pending d st) = ip_pending st @ d" "ip_parts (add_pending d st) = ip_parts st"
  "ip_responseBytes (add_pending d st) = ip_responseBytes st" "ip_literalRemaining (add_pending d st) = ip_literalRemaining st"
  "ip_error (add_pending d st) = ip_error st" "add_pending [] st = st" "add_pending d (add_pending c st) = add_pending (c @ d) st"
  by (simp_all add: add_pending_def)

lemma frame_line_pending:
  "frame_line lim l st = (st1, o1) \<Longrightarrow> frame_line lim l (st\<lparr>ip_pending := x\<rparr>) = (st1\<lparr>ip_pending := x\<rparr>, o1)"
  by (auto simp: frame_line_def limit_error_def Let_def split: if_splits option.splits)

lemma frame_done: "ip_error st \<noteq> None \<Longrightarrow> frame lim st = (st, [])"
  by (simp add: frame.simps)

lemma frame_append:
  "ip_error (fst (frame lim st)) = None \<Longrightarrow>
   frame lim (add_pending d st) =
     (fst (frame lim (add_pending d (fst (frame lim st)))),
      snd (frame lim st) @ snd (frame lim (add_pending d (fst (frame lim st)))))"
proof (induction lim st rule: frame.induct)
  case (1 lim st)
  show ?case
  proof (cases "ip_error st")
    case (Some e)
    then show ?thesis using 1(3) by (simp add: frame_done)
  next
    case ok: None
    show ?thesis
    proof (cases "ip_literalRemaining st > 0")
      case lit: True
      show ?thesis
      proof (cases "length (ip_pending st) < ip_literalRemaining st")
        case True
        then have "frame lim st = (st, [])" using ok lit by (simp add: frame.simps[of lim st])
        then show ?thesis by simp
      next
        case False
        let ?st = "st\<lparr>ip_parts := ip_parts st @ take (ip_literalRemaining st) (ip_pending st),
          ip_pending := drop (ip_literalRemaining st) (ip_pending st), ip_literalRemaining := 0\<rparr>"
        have e: "frame lim st = frame lim ?st" using ok lit False by (simp add: frame.simps[of lim st])
        have q: "add_pending d ?st = st\<lparr>ip_parts := ip_parts st @ take (ip_literalRemaining st) (ip_pending st),
          ip_pending := drop (ip_literalRemaining st) (ip_pending st) @ d, ip_literalRemaining := 0\<rparr>"
          by (cases st) (simp add: add_pending_def)
        have "frame lim (add_pending d st) = frame lim (add_pending d ?st)"
          using ok lit False unfolding q by (subst frame.simps) (simp add: add_pending_def)
        then show ?thesis using "1.IH"(1) ok lit False 1(3) unfolding e by simp
      qed
    next
      case nolit: False
      show ?thesis
      proof (cases "cut_crlf (ip_pending st)")
        case None
        then have "frame lim st = (st, [])" using ok nolit 1(3)
          by (auto simp: frame.simps[of lim st] limit_error_def split: if_splits)
        then show ?thesis by simp
      next
        case (Some p)
        obtain l rest where p: "p = (l, rest)" by (cases p)
        obtain st1 o1 where fl: "frame_line lim l st = (st1, o1)" by fastforce
        have e: "frame lim st = (fst (frame lim (st1\<lparr>ip_pending := rest\<rparr>)), o1 @ snd (frame lim (st1\<lparr>ip_pending := rest\<rparr>)))"
          using ok nolit Some p fl by (simp add: frame.simps[of lim st] case_prod_beta Let_def)
        have fl2: "frame_line lim l (add_pending d st) = (st1\<lparr>ip_pending := ip_pending st @ d\<rparr>, o1)"
          unfolding add_pending_def by (rule frame_line_pending[OF fl])
        have e2: "frame lim (add_pending d st) = (fst (frame lim (add_pending d (st1\<lparr>ip_pending := rest\<rparr>))),
            o1 @ snd (frame lim (add_pending d (st1\<lparr>ip_pending := rest\<rparr>))))"
          using ok nolit cut_crlf_append[OF Some[unfolded p], of d] fl2
          by (simp add: frame.simps[of lim "add_pending d st"] case_prod_beta Let_def) (simp add: add_pending_def)
        have "ip_error (fst (frame lim (st1\<lparr>ip_pending := rest\<rparr>))) = None" using 1(3) e by simp
        from "1.IH"(2)[OF _ nolit Some p[symmetric] fl[symmetric] refl this] ok
        show ?thesis unfolding e e2 by simp
      qed
    qed
  qed
qed

definition imap_fits :: "imap_limits \<Rightarrow> imap_parser \<Rightarrow> string \<Rightarrow> bool" where
  "imap_fits lim st x \<longleftrightarrow> frame lim st = (st, []) \<and> (\<forall>n. ip_error (fst (frame lim (add_pending (take n x) st))) = None)"

lemma imap_fits_whole: "imap_fits lim st x \<Longrightarrow> ip_error (fst (frame lim (add_pending x st))) = None"
  by (metis imap_fits_def order_refl take_all)

lemma feed_fits: "imap_fits lim st x \<Longrightarrow> imap_feed lim st x = frame lim (add_pending x st)"
  using imap_fits_whole[of lim st x] by (simp add: imap_feed_def add_pending_def case_prod_beta)

lemma imap_fits_split:
  assumes f: "imap_fits lim st (c @ d)"
  shows "imap_fits lim st c" "imap_fits lim (fst (frame lim (add_pending c st))) d"
proof -
  have ok: "ip_error (fst (frame lim (add_pending (c @ take n d) st))) = None" for n
  proof -
    have "ip_error (fst (frame lim (add_pending (take (length c + n) (c @ d)) st))) = None" using f unfolding imap_fits_def by blast
    then show ?thesis by simp
  qed
  have ok2: "ip_error (fst (frame lim (add_pending (take n c) st))) = None" for n
  proof -
    have "ip_error (fst (frame lim (add_pending (take (min n (length c)) (c @ d)) st))) = None" using f unfolding imap_fits_def by blast
    then show ?thesis by (simp add: min_def split: if_splits)
  qed
  show "imap_fits lim st c" using f ok2 by (simp add: imap_fits_def)
  have okc: "ip_error (fst (frame lim (add_pending c st))) = None" using ok[of 0] by simp
  let ?s = "fst (frame lim (add_pending c st))"
  have "frame lim ?s = (?s, [])" using frame_append[OF okc, of "[]"]
    by (simp add: prod_eq_iff)
  moreover have "ip_error (fst (frame lim (add_pending (take n d) ?s))) = None" for n
    using frame_append[OF okc, of "take n d"] ok[of n] by simp
  ultimately show "imap_fits lim ?s d" by (simp add: imap_fits_def)
qed

interpretation framing: stream_decoder "imap_feed lim" "imap_fits lim" for lim
proof (unfold_locales, goal_cases)
  case (1 s)
  then show ?case using feed_fits[OF 1] by (simp add: imap_fits_def)
next
  case (2 s c d)
  then show ?case by (rule imap_fits_split(1))
next
  case (3 s c d)
  then show ?case using imap_fits_split[OF 3] feed_fits by simp
next
  case (4 s c d)
  note f = imap_fits_split[OF 4]
  show ?case using frame_append[OF imap_fits_whole[OF f(1)], of d] feed_fits[OF 4] feed_fits[OF f(1)] feed_fits[OF f(2)]
    by simp
qed

text \<open>
  The only way chunks can matter: a line of exactly the maximal length whose CR and LF arrive apart is
  rejected.  With the line limit one lower, a rejected part means a rejected whole.
\<close>

lemma frame_line_strict:
  assumes "frame_line lim l st = (st1, o1)" "Suc m = il_maxLineBytes lim" "ip_error st = None"
  shows "ip_error st1 \<noteq> None \<Longrightarrow> ip_error (fst (frame_line (lim\<lparr>il_maxLineBytes := m\<rparr>) l st)) \<noteq> None"
    "ip_error st1 = None \<Longrightarrow> ip_error (fst (frame_line (lim\<lparr>il_maxLineBytes := m\<rparr>) l st)) \<noteq> None \<or>
       frame_line (lim\<lparr>il_maxLineBytes := m\<rparr>) l st = (st1, o1)"
  using assms by (auto simp: frame_line_def limit_error_def Let_def split: if_splits option.splits)

lemma frame_strict:
  assumes "Suc m = il_maxLineBytes lim"
  shows "ip_error (fst (frame lim st)) \<noteq> None \<Longrightarrow> ip_error (fst (frame (lim\<lparr>il_maxLineBytes := m\<rparr>) (add_pending d st))) \<noteq> None"
  using assms
proof (induction lim st rule: frame.induct)
  case (1 lim st)
  let ?lim = "lim\<lparr>il_maxLineBytes := m\<rparr>"
  show ?case
  proof (cases "ip_error st")
    case (Some e)
    then show ?thesis by (simp add: frame_done)
  next
    case ok: None
    show ?thesis
    proof (cases "ip_literalRemaining st > 0")
      case lit: True
      show ?thesis
      proof (cases "length (ip_pending st) < ip_literalRemaining st")
        case True
        then show ?thesis using ok lit 1(3) by (simp add: frame.simps[of lim st])
      next
        case False
        let ?st = "st\<lparr>ip_parts := ip_parts st @ take (ip_literalRemaining st) (ip_pending st),
          ip_pending := drop (ip_literalRemaining st) (ip_pending st), ip_literalRemaining := 0\<rparr>"
        have e: "frame lim st = frame lim ?st" using ok lit False by (simp add: frame.simps[of lim st])
        have q: "add_pending d ?st = st\<lparr>ip_parts := ip_parts st @ take (ip_literalRemaining st) (ip_pending st),
          ip_pending := drop (ip_literalRemaining st) (ip_pending st) @ d, ip_literalRemaining := 0\<rparr>"
          by (cases st) (simp add: add_pending_def)
        have "frame ?lim (add_pending d st) = frame ?lim (add_pending d ?st)"
          using ok lit False unfolding q by (subst frame.simps) (simp add: add_pending_def)
        then show ?thesis using "1.IH"(1) ok lit False 1(3,4) unfolding e by simp
      qed
    next
      case nolit: False
      have step: "ip_error (fst (frame ?lim (add_pending d st))) \<noteq> None"
        if "cut_crlf (ip_pending st @ d) = Some (l, r)" "ip_error (fst (frame_line ?lim l (add_pending d st))) \<noteq> None" for l r
        using that ok nolit frame_done
        by (subst frame.simps) (simp add: case_prod_beta Let_def)
      show ?thesis
      proof (cases "cut_crlf (ip_pending st)")
        case None
        then have long: "length (ip_pending st) > il_maxLineBytes lim"
          using ok nolit 1(3) by (auto simp: frame.simps[of lim st] split: if_splits)
        show ?thesis
        proof (cases "cut_crlf (ip_pending st @ d)")
          case n: None
          then show ?thesis using long ok nolit 1(4) by (subst frame.simps) (simp add: limit_error_def)
        next
          case (Some p)
          obtain l r where p: "p = (l, r)" by (cases p)
          have "m < length l" using cut_crlf_partial[OF None Some[unfolded p]] long 1(4) by simp
          then have "ip_error (fst (frame_line ?lim l (add_pending d st))) \<noteq> None" by (simp add: frame_line_def limit_error_def)
          then show ?thesis using step[OF Some[unfolded p]] by simp
        qed
      next
        case (Some p)
        obtain l rest where p: "p = (l, rest)" by (cases p)
        obtain st1 o1 where fl: "frame_line lim l st = (st1, o1)" by fastforce
        have cut: "cut_crlf (ip_pending st @ d) = Some (l, rest @ d)" by (rule cut_crlf_append[OF Some[unfolded p]])
        obtain st2 o2 where fl2: "frame_line ?lim l st = (st2, o2)" by fastforce
        have fl3: "frame_line ?lim l (add_pending d st) = (st2\<lparr>ip_pending := ip_pending st @ d\<rparr>, o2)"
          unfolding add_pending_def by (rule frame_line_pending[OF fl2])
        note strict = frame_line_strict[OF fl 1(4) ok, unfolded fl2 fst_conv]
        show ?thesis
        proof (cases "ip_error st2")
          case (Some e)
          then show ?thesis using step[OF cut] fl3 by simp
        next
          case None
          then have same: "ip_error st1 = None" "st2 = st1" using strict by auto
          have "ip_error (fst (frame lim (st1\<lparr>ip_pending := rest\<rparr>))) \<noteq> None"
            using 1(3) ok nolit Some p fl by (simp add: frame.simps[of lim st] case_prod_beta Let_def)
          from "1.IH"(2)[OF _ nolit Some p[symmetric] fl[symmetric] refl this 1(4)] ok
          have "ip_error (fst (frame ?lim (add_pending d (st1\<lparr>ip_pending := rest\<rparr>)))) \<noteq> None" by simp
          moreover have "fst (frame ?lim (add_pending d st)) = fst (frame ?lim (add_pending d (st1\<lparr>ip_pending := rest\<rparr>)))"
            using ok nolit cut fl3 same by (subst frame.simps) (simp add: case_prod_beta Let_def, simp add: add_pending_def)
          ultimately show ?thesis by simp
        qed
      qed
    qed
  qed
qed

section \<open>Responses on the wire\<close>

text \<open>A response: lines that end in a literal with the bytes of it, and the last line.\<close>

definition wire_segment :: "string \<times> string \<Rightarrow> string" where
  "wire_segment s = fst s @ ''{'' @ show_nat (length (snd s)) @ ''}'' @ crlf @ snd s"

definition response_text :: "(string \<times> string) list \<times> string \<Rightarrow> string" where
  "response_text r = concat (map wire_segment (fst r)) @ snd r"

definition segment_ok :: "imap_limits \<Rightarrow> string \<times> string \<Rightarrow> bool" where
  "segment_ok lim s \<longleftrightarrow> cr \<notin> set (fst s) \<and> length (snd s) \<le> il_maxLiteralBytes lim \<and>
     length (fst s) + length (show_nat (length (snd s))) + 2 \<le> il_maxLineBytes lim"

definition response_ok :: "imap_limits \<Rightarrow> (string \<times> string) list \<times> string \<Rightarrow> bool" where
  "response_ok lim r \<longleftrightarrow> list_all (segment_ok lim) (fst r) \<and> cr \<notin> set (snd r) \<and> literal_at_end (snd r) = None \<and>
     length (snd r) \<le> il_maxLineBytes lim \<and> length (response_text r) \<le> il_maxResponseBytes lim"

lemma literal_at_end_show: "literal_at_end (t @ ''{'' @ show_nat n @ ''}'') = Some n"
proof -
  obtain c r where c: "rev (show_nat n) = c # r" using show_nat_nonempty[of n] by (cases "rev (show_nat n)") auto
  have d: "list_all is_digit (c # r)" using show_nat_digits[of n] c by (metis list_all_rev)
  then have f: "c \<noteq> CHR ''+''" "is_digit c" by (auto simp: is_digit_def)
  have tw: "takeWhile is_digit (r @ CHR ''{'' # rev t) = r"
    using d by (simp add: list_all_iff takeWhile_append is_digit_def)
  have e: "rev (t @ ''{'' @ show_nat n @ ''}'') = CHR ''}'' # c # r @ CHR ''{'' # rev t" using c by simp
  have "rev r @ [c] = show_nat n" using c by (metis rev.simps(2) rev_rev_ident)
  then show ?thesis using read_show_nat[of n] unfolding literal_at_end_def e by (simp add: f tw Let_def)
qed

lemma frame_segment:
  assumes "segment_ok lim s" "ip_error st = None" "ip_literalRemaining st = 0"
    "ip_responseBytes st + length (wire_segment s) \<le> il_maxResponseBytes lim"
  shows "frame lim (st\<lparr>ip_pending := wire_segment s @ rest\<rparr>) =
    frame lim (st\<lparr>ip_parts := ip_parts st @ wire_segment s,
      ip_responseBytes := ip_responseBytes st + length (wire_segment s), ip_pending := rest\<rparr>)"
proof -
  obtain t v where s: "s = (t, v)" by (cases s)
  define L where "L = t @ ''{'' @ show_nat (length v) @ ''}''"
  have ok: "cr \<notin> set L" "length v \<le> il_maxLiteralBytes lim" "length L \<le> il_maxLineBytes lim"
    "literal_at_end L = Some (length v)"
    using assms(1) s show_nat_no_cr[of "length v"] literal_at_end_show[of t "length v"]
    by (auto simp: segment_ok_def L_def cr_def)
  have w: "wire_segment s = L @ crlf @ v" by (simp add: wire_segment_def s L_def)
  have cut: "cut_crlf (wire_segment s @ rest) = Some (L, v @ rest)"
    unfolding w using cut_crlf_line[OF ok(1), of "v @ rest"] by simp
  have bytes: "ip_responseBytes st + (length L + 2) + length v = ip_responseBytes st + length (wire_segment s)"
    by (simp add: w crlf_def)
  let ?st1 = "st\<lparr>ip_responseBytes := ip_responseBytes st + length (wire_segment s), ip_parts := ip_parts st @ L @ crlf,
     ip_literalRemaining := length v\<rparr>"
  have "frame_line lim L st = (?st1, [])"
    unfolding frame_line_def Let_def ok(4) using ok(2,3) assms(4) bytes by simp
  from frame_line_pending[OF this, of "wire_segment s @ rest"]
  have fl: "frame_line lim L (st\<lparr>ip_pending := wire_segment s @ rest\<rparr>) = (?st1\<lparr>ip_pending := wire_segment s @ rest\<rparr>, [])" .
  have one: "frame lim (st\<lparr>ip_pending := wire_segment s @ rest\<rparr>) = frame lim (?st1\<lparr>ip_pending := v @ rest\<rparr>)"
    by (subst frame.simps) (simp add: assms(2,3) cut fl case_prod_beta Let_def)
  let ?fin = "st\<lparr>ip_parts := ip_parts st @ wire_segment s,
      ip_responseBytes := ip_responseBytes st + length (wire_segment s), ip_pending := rest\<rparr>"
  have "frame lim (?st1\<lparr>ip_pending := v @ rest\<rparr>) = frame lim ?fin"
  proof (cases "v = []")
    case True
    then have "?st1\<lparr>ip_pending := v @ rest\<rparr> = ?fin" using assms(3) by (cases st) (simp add: w)
    then show ?thesis by simp
  next
    case False
    have "frame lim (?st1\<lparr>ip_pending := v @ rest\<rparr>) = frame lim (?st1\<lparr>ip_pending := rest, ip_parts := ip_parts st @ (L @ crlf) @ v,
       ip_literalRemaining := 0\<rparr>)"
      using False assms(2) by (subst frame.simps) (cases st, simp)
    moreover have "?st1\<lparr>ip_pending := rest, ip_parts := ip_parts st @ (L @ crlf) @ v, ip_literalRemaining := 0\<rparr> = ?fin"
      using assms(3) by (cases st) (simp add: w)
    ultimately show ?thesis by simp
  qed
  then show ?thesis using one by simp
qed

lemma frame_segments:
  "list_all (segment_ok lim) ss \<Longrightarrow> ip_error st = None \<Longrightarrow> ip_literalRemaining st = 0 \<Longrightarrow>
   ip_responseBytes st + length (concat (map wire_segment ss)) \<le> il_maxResponseBytes lim \<Longrightarrow>
   frame lim (st\<lparr>ip_pending := concat (map wire_segment ss) @ rest\<rparr>) =
   frame lim (st\<lparr>ip_parts := ip_parts st @ concat (map wire_segment ss),
     ip_responseBytes := ip_responseBytes st + length (concat (map wire_segment ss)), ip_pending := rest\<rparr>)"
proof (induction ss arbitrary: st)
  case Nil
  then show ?case by (cases st) simp
next
  case (Cons s ss)
  let ?st = "st\<lparr>ip_parts := ip_parts st @ wire_segment s, ip_responseBytes := ip_responseBytes st + length (wire_segment s)\<rparr>"
  have "frame lim (st\<lparr>ip_pending := wire_segment s @ concat (map wire_segment ss) @ rest\<rparr>) =
      frame lim (?st\<lparr>ip_pending := concat (map wire_segment ss) @ rest\<rparr>)"
    using frame_segment[of lim s st "concat (map wire_segment ss) @ rest"] Cons.prems by simp
  also have "\<dots> = frame lim (?st\<lparr>ip_parts := ip_parts ?st @ concat (map wire_segment ss),
     ip_responseBytes := ip_responseBytes ?st + length (concat (map wire_segment ss)), ip_pending := rest\<rparr>)"
    by (rule Cons.IH) (use Cons.prems in simp_all)
  finally show ?case by (cases st) (simp add: add.assoc)
qed

definition fresh_parser :: "string \<Rightarrow> imap_parser" where "fresh_parser x = new_parser\<lparr>ip_pending := x\<rparr>"

lemma frame_response:
  assumes "response_ok lim r"
  shows "frame lim (fresh_parser (response_text r @ crlf @ rest)) =
    (let (s2, o2) = frame lim (fresh_parser rest) in (s2, (case parseLine (response_text r) of None \<Rightarrow> [] | Some x \<Rightarrow> [x]) @ o2))"
proof -
  obtain ss l where r: "r = (ss, l)" by (cases r)
  let ?w = "concat (map wire_segment ss)"
  have ok: "list_all (segment_ok lim) ss" "cr \<notin> set l" "literal_at_end l = None" "length l \<le> il_maxLineBytes lim"
    "length ?w \<le> il_maxResponseBytes lim"
    using assms r by (auto simp: response_ok_def response_text_def)
  let ?st = "new_parser\<lparr>ip_parts := ?w, ip_responseBytes := length ?w\<rparr>"
  have one: "frame lim (fresh_parser (response_text r @ crlf @ rest)) = frame lim (?st\<lparr>ip_pending := l @ crlf @ rest\<rparr>)"
    using frame_segments[of lim ss new_parser "l @ crlf @ rest"] ok(1,5)
    by (simp add: fresh_parser_def response_text_def r new_parser_def)
  have fl: "frame_line lim l (?st\<lparr>ip_pending := l @ crlf @ rest\<rparr>) =
      (fresh_parser (l @ crlf @ rest), case parseLine (?w @ l) of None \<Rightarrow> [] | Some x \<Rightarrow> [x])"
    using ok by (simp add: frame_line_def Let_def fresh_parser_def new_parser_def)
  have "frame lim (?st\<lparr>ip_pending := l @ crlf @ rest\<rparr>) =
    (let (s2, o2) = frame lim (fresh_parser rest) in (s2, (case parseLine (?w @ l) of None \<Rightarrow> [] | Some x \<Rightarrow> [x]) @ o2))"
    using fl cut_crlf_line[OF ok(2), of rest]
    by (subst frame.simps) (simp add: case_prod_beta Let_def fresh_parser_def new_parser_def)
  then show ?thesis unfolding one by (simp add: response_text_def r)
qed

lemma frame_responses:
  "list_all (response_ok lim) rs \<Longrightarrow>
   frame lim (fresh_parser (concat (map (\<lambda>r. response_text r @ crlf) rs))) =
   (new_parser, List.map_filter parseLine (map response_text rs))"
proof (induction rs)
  case Nil
  then show ?case by (simp add: fresh_parser_def new_parser_def frame.simps map_filter_simps)
next
  case (Cons r rs)
  then show ?case using frame_response[of lim r "concat (map (\<lambda>r. response_text r @ crlf) rs)"]
    by (simp add: map_filter_simps split: option.splits)
qed

lemma responses_fit:
  assumes "list_all (response_ok (lim\<lparr>il_maxLineBytes := m\<rparr>)) rs" "Suc m = il_maxLineBytes lim"
  shows "imap_fits lim new_parser (concat (map (\<lambda>r. response_text r @ crlf) rs))"
proof -
  let ?x = "concat (map (\<lambda>r. response_text r @ crlf) rs)"
  have whole: "ip_error (fst (frame (lim\<lparr>il_maxLineBytes := m\<rparr>) (fresh_parser ?x))) = None"
    using frame_responses[OF assms(1)] by (simp add: new_parser_def)
  have "ip_error (fst (frame lim (add_pending (take n ?x) new_parser))) = None" for n
  proof (rule ccontr)
    assume "ip_error (fst (frame lim (add_pending (take n ?x) new_parser))) \<noteq> None"
    from frame_strict[OF assms(2) this, of "drop n ?x"] whole show False
      by (simp add: fresh_parser_def add_pending_def new_parser_def)
  qed
  then show ?thesis by (simp add: imap_fits_def new_parser_def frame.simps)
qed

lemma response_ok_mono: "response_ok (lim\<lparr>il_maxLineBytes := m\<rparr>) r \<Longrightarrow> m \<le> il_maxLineBytes lim \<Longrightarrow> response_ok lim r"
proof -
  assume a: "response_ok (lim\<lparr>il_maxLineBytes := m\<rparr>) r" "m \<le> il_maxLineBytes lim"
  have "segment_ok (lim\<lparr>il_maxLineBytes := m\<rparr>) s \<Longrightarrow> segment_ok lim s" for s using a(2) by (simp add: segment_ok_def)
  then show ?thesis using a by (auto simp: response_ok_def list_all_iff)
qed

lemma frame_any_chunks:
  assumes "list_all (response_ok (lim\<lparr>il_maxLineBytes := m\<rparr>)) rs" "Suc m = il_maxLineBytes lim"
    "concat cs = concat (map (\<lambda>r. response_text r @ crlf) rs)"
  shows "feed_all (imap_feed lim) new_parser cs = (new_parser, List.map_filter parseLine (map response_text rs))"
proof -
  have f: "imap_fits lim new_parser (concat cs)" using responses_fit[OF assms(1,2)] assms(3) by simp
  have "list_all (response_ok lim) rs"
    using assms(1,2) response_ok_mono[where lim = lim and m = m] by (auto simp: list_all_iff)
  then have "frame lim (add_pending (concat cs) new_parser) = (new_parser, List.map_filter parseLine (map response_text rs))"
    using frame_responses[of lim rs] assms(3) by (simp add: fresh_parser_def add_pending_def new_parser_def)
  then show ?thesis using framing.feed_chunks[OF f] feed_fits[OF f] by simp
qed

text \<open>C20: A stream of well-formed responses is framed exactly, however it is cut into chunks: each
  response with its literals, whatever bytes they hold (line breaks, parentheses, text that looks like
  another literal), is parsed as one unit, in order, and nothing is left over; blank lines are dropped.
  The lines have to be shorter than the limit by one byte: a line of maximal length whose CR and LF
  arrive in different chunks is refused.\<close>

theorem framing_exact:
  assumes "list_all (response_ok (lim\<lparr>il_maxLineBytes := m\<rparr>)) rs" "Suc m = il_maxLineBytes lim"
    "concat cs = concat (map (\<lambda>r. response_text r @ crlf) rs)"
  shows "feed_all (imap_feed lim) new_parser cs = (new_parser, List.map_filter parseLine (map response_text rs))"
  by (rule frame_any_chunks[OF assms])

definition demo_limits :: imap_limits where
  "demo_limits = \<lparr> il_maxLiteralBytes = 50, il_maxResponseBytes = 100, il_maxLineBytes = 40 \<rparr>"

definition demo_responses :: "((string \<times> string) list \<times> string) list" where
  "demo_responses = [([(''* 1 FETCH (BODY[] '', ''a'' @ crlf @ ''b OK {3}'' @ crlf)], '')''), ([], ''A1 OK done'')]"

lemma framing_exact_witness:
  "feed_all (imap_feed demo_limits) new_parser
     [''* 1 FETCH (BODY[] {13'', ''}'' @ [cr], [lf] @ ''a'' @ crlf @ ''b'', '' OK {3}'' @ crlf @ '')'' @ crlf @ ''A1 OK'', '' done'' @ crlf] =
   (new_parser, List.map_filter parseLine (map response_text demo_responses))"
  by (rule framing_exact[where m = 39]) code_simp+

end
