(* ===== verification/JsText.thy ===== *)
theory JsText
  imports Base64
begin

text \<open>
  JavaScript strings with any character, as lists of UTF-16 code units, and what the mail code uses of
  the platform on them: trim, toLowerCase (on the Latin-1 part, which is all a byte string has), split
  and join, the iteration by code points, and the UTF-8 decoder of TextDecoder, with its replacement
  characters, its fatal mode and its byte order mark.  A Latin-1 byte string is a list of units below 256.
\<close>

section \<open>String methods\<close>

definition units_ws :: "nat \<Rightarrow> bool" where
  "units_ws u \<longleftrightarrow> (9 \<le> u \<and> u \<le> 13) \<or> u = 32 \<or> u = 160 \<or> u = 5760 \<or> (8192 \<le> u \<and> u \<le> 8202) \<or> u = 8232 \<or> u = 8233
     \<or> u = 8239 \<or> u = 8287 \<or> u = 12288 \<or> u = 65279"

definition units_ltrim :: "units \<Rightarrow> units" where "units_ltrim us = dropWhile units_ws us"
definition units_rtrim :: "units \<Rightarrow> units" where "units_rtrim us = rev (dropWhile units_ws (rev us))"
definition units_trim :: "units \<Rightarrow> units" where "units_trim us = units_rtrim (units_ltrim us)"

definition unit_lower :: "nat \<Rightarrow> nat" where
  "unit_lower u = (if (65 \<le> u \<and> u \<le> 90) \<or> (192 \<le> u \<and> u \<le> 222 \<and> u \<noteq> 215) then u + 32 else u)"

definition units_lower :: "units \<Rightarrow> units" where "units_lower us = map unit_lower us"

definition has_prefix :: "units \<Rightarrow> units \<Rightarrow> bool" where "has_prefix p us \<longleftrightarrow> take (length p) us = p"

fun units_join :: "units \<Rightarrow> units list \<Rightarrow> units" where
  "units_join sep [] = []"
| "units_join sep [x] = x"
| "units_join sep (x # y # r) = x @ sep @ units_join sep (y # r)"

definition ucrlf :: units where "ucrlf = [13, 10]"
definition is_hex :: "nat \<Rightarrow> bool" where
  "is_hex u \<longleftrightarrow> (48 \<le> u \<and> u \<le> 57) \<or> (65 \<le> u \<and> u \<le> 70) \<or> (97 \<le> u \<and> u \<le> 102)"
definition hex_val :: "nat \<Rightarrow> nat" where
  "hex_val u = (if u \<le> 57 then u - 48 else if u \<le> 70 then u - 55 else u - 87)"
definition hex_digit :: "nat \<Rightarrow> nat" where "hex_digit n = (if n < 10 then n + 48 else n + 55)"

text \<open>b.toString(16).toUpperCase().padStart(2, '0'), for a byte.\<close>

definition hex_byte :: "nat \<Rightarrow> units" where "hex_byte b = [hex_digit (b div 16), hex_digit (b mod 16)]"

text \<open>replace(/\\(.)/g, '$1'): the dot is any character but a line terminator.\<close>

fun unescape_units :: "units \<Rightarrow> units" where
  "unescape_units [] = []"
| "unescape_units [u] = [u]"
| "unescape_units (u # v # r) =
     (if u = 92 \<and> v \<notin> {10, 13, 8232, 8233} then v # unescape_units r else u # unescape_units (v # r))"

lemma hex_byte_back:
  assumes "b < 256"
  shows "is_hex (hex_digit (b div 16))" "is_hex (hex_digit (b mod 16))"
    "hex_val (hex_digit (b div 16)) * 16 + hex_val (hex_digit (b mod 16)) = b"
proof -
  have a: "b div 16 < 16" "b mod 16 < 16" using assms by (simp_all add: less_mult_imp_div_less)
  have h: "is_hex (hex_digit n) \<and> hex_val (hex_digit n) = n" if "n < 16" for n
    using that by (auto simp: is_hex_def hex_digit_def hex_val_def)
  show "is_hex (hex_digit (b div 16))" "is_hex (hex_digit (b mod 16))" using h a by simp_all
  show "hex_val (hex_digit (b div 16)) * 16 + hex_val (hex_digit (b mod 16)) = b" using h a by simp
qed

lemma set_units_trim: "set (units_trim us) \<subseteq> set us"
  unfolding units_trim_def units_rtrim_def units_ltrim_def by (metis set_dropWhileD set_rev subsetI)

lemma dropWhile_id: "us = [] \<or> \<not> p (hd us) \<Longrightarrow> dropWhile p us = us"
  by (cases us) auto

lemma units_trim_id:
  assumes "us = [] \<or> (\<not> units_ws (hd us) \<and> \<not> units_ws (last us))"
  shows "units_trim us = us"
proof (cases us)
  case (Cons u r)
  then have "rev us = [] \<or> \<not> units_ws (hd (rev us))" using assms by (simp add: hd_rev del: rev.simps)
  then have "dropWhile units_ws (rev us) = rev us" by (rule dropWhile_id)
  then show ?thesis using assms Cons by (simp add: units_trim_def units_rtrim_def units_ltrim_def)
qed (simp add: units_trim_def units_rtrim_def units_ltrim_def)

lemma units_trim_ends:
  shows "units_trim us = [] \<or> \<not> units_ws (hd (units_trim us)) \<and> \<not> units_ws (last (units_trim us))"
proof (cases "units_trim us = []")
  case False
  let ?l = "units_ltrim us" and ?d = "dropWhile units_ws (rev (units_ltrim us))"
  have d: "?d \<noteq> []" and t: "units_trim us = rev ?d" using False by (simp_all add: units_trim_def units_rtrim_def)
  have last: "\<not> units_ws (last (units_trim us))" using hd_dropWhile[OF d[unfolded dropWhile_eq_Nil_conv[symmetric]]] d t
    by (metis hd_dropWhile last_rev)
  have l: "?l \<noteq> []" using d by auto
  obtain x where x: "rev ?l = x @ ?d" using takeWhile_dropWhile_id[of units_ws "rev ?l"] by metis
  then have "?l = rev ?d @ rev x" by (metis rev_append rev_rev_ident)
  then have "hd (units_trim us) = hd ?l" using d t by (metis hd_append2 rev_is_Nil_conv)
  moreover have "\<not> units_ws (hd ?l)" using l unfolding units_ltrim_def by (rule hd_dropWhile)
  ultimately show ?thesis using last by simp
qed simp

lemma units_trim_idem: "units_trim (units_trim us) = units_trim us"
  by (rule units_trim_id[OF units_trim_ends])

lemma units_of_append: "units_of (s @ t) = units_of s @ units_of t" by (simp add: units_of_def)

section \<open>Code points\<close>

text \<open>The characters a for-of loop over a string sees: a surrogate pair is one.\<close>

fun code_points :: "units \<Rightarrow> units list" where
  "code_points [] = []"
| "code_points (u # r) =
     (if high_surrogate u \<and> r \<noteq> [] \<and> low_surrogate (hd r) then [u, hd r] # code_points (tl r) else [u] # code_points r)"

lemma concat_code_points: "concat (code_points us) = us"
  by (induction us rule: code_points.induct) (auto simp: neq_Nil_conv)

text \<open>A string that is a sequence of characters: no half of a surrogate pair on its own.\<close>

fun well_formed :: "units \<Rightarrow> bool" where
  "well_formed [] = True"
| "well_formed (u # r) =
     (if high_surrogate u then r \<noteq> [] \<and> low_surrogate (hd r) \<and> well_formed (tl r)
      else \<not> low_surrogate u \<and> u < 65536 \<and> well_formed r)"

definition one_char :: "units \<Rightarrow> bool" where
  "one_char c \<longleftrightarrow> (\<exists>u. c = [u] \<and> \<not> high_surrogate u \<and> \<not> low_surrogate u \<and> u < 65536) \<or>
     (\<exists>h l. c = [h, l] \<and> high_surrogate h \<and> low_surrogate l)"

lemma well_formed_chars: "well_formed us \<Longrightarrow> list_all one_char (code_points us)"
proof (induction us rule: code_points.induct)
  case (2 u r)
  then show ?case by (cases "high_surrogate u") (auto simp: one_char_def)
qed simp

lemma utf8_chars: "utf8_encode us = concat (map utf8_encode (code_points us))"
  by (induction us rule: code_points.induct) (auto simp: neq_Nil_conv high_surrogate_def low_surrogate_def)

section \<open>The UTF-8 decoder\<close>

text \<open>The decoder of the Encoding Standard: bytes still needed, the bounds of the next one and the code
  point so far; None is a decoding error, and a byte that cannot continue a sequence starts a new one.\<close>

function u8 :: "nat \<Rightarrow> nat \<Rightarrow> nat \<Rightarrow> nat \<Rightarrow> bytes \<Rightarrow> nat option list" where
  "u8 0 lo up cp [] = []"
| "u8 (Suc n) lo up cp [] = [None]"
| "u8 0 lo up cp (b # r) =
     (if b < 128 then Some b # u8 0 128 191 0 r
      else if 194 \<le> b \<and> b \<le> 223 then u8 1 128 191 (b - 192) r
      else if 224 \<le> b \<and> b \<le> 239 then u8 2 (if b = 224 then 160 else 128) (if b = 237 then 159 else 191) (b - 224) r
      else if 240 \<le> b \<and> b \<le> 244 then u8 3 (if b = 240 then 144 else 128) (if b = 244 then 143 else 191) (b - 240) r
      else None # u8 0 128 191 0 r)"
| "u8 (Suc n) lo up cp (b # r) =
     (if b < lo \<or> up < b then None # u8 0 128 191 0 (b # r)
      else if n = 0 then Some (cp * 64 + (b - 128)) # u8 0 128 191 0 r
      else u8 n 128 191 (cp * 64 + (b - 128)) r)"
  by pat_completeness auto
termination by (relation "measures [\<lambda>(n, lo, up, cp, bs). length bs, \<lambda>(n, lo, up, cp, bs). n]") auto

definition point_units :: "nat \<Rightarrow> units" where
  "point_units c = (if c < 65536 then [c] else [55296 + (c - 65536) div 1024, 56320 + (c - 65536) mod 1024])"

definition strip_bom :: "bytes \<Rightarrow> bytes" where
  "strip_bom bs = (if take 3 bs = [239, 187, 191] then drop 3 bs else bs)"

definition utf8_decode :: "bytes \<Rightarrow> units" where
  "utf8_decode bs = concat (map (\<lambda>x. case x of None \<Rightarrow> [65533] | Some c \<Rightarrow> point_units c) (u8 0 128 191 0 (strip_bom bs)))"

text \<open>The decoder with fatal: true throws on an error.\<close>

definition utf8_fatal :: "bytes \<Rightarrow> units option" where
  "utf8_fatal bs = (let xs = u8 0 128 191 0 (strip_bom bs) in
     if None \<in> set xs then None else Some (concat (map (\<lambda>x. point_units (the x)) xs)))"

text \<open>What one character of a well-formed string is decoded to.\<close>

definition char_point :: "units \<Rightarrow> nat" where
  "char_point c = (if length c = 1 then hd c else 65536 + (hd c - 55296) * 1024 + (last c - 56320))"

lemma surrogate_bounds:
  assumes "high_surrogate h" "low_surrogate l"
  shows "65536 \<le> char_point [h, l]" "char_point [h, l] < 1114112"
  using assms by (auto simp: char_point_def high_surrogate_def low_surrogate_def)

lemma char_point_units: "one_char c \<Longrightarrow> point_units (char_point c) = c"
  by (auto simp: one_char_def char_point_def point_units_def high_surrogate_def low_surrogate_def)

lemma utf8_one_char:
  assumes "one_char c"
  shows "utf8_encode c = utf8_point (char_point c)" "char_point c < 1114112"
    "char_point c < 55296 \<or> 57344 \<le> char_point c"
  using assms surrogate_bounds by (auto simp: one_char_def char_point_def high_surrogate_def low_surrogate_def)

lemma u8_point:
  assumes "p < 1114112" "p < 55296 \<or> 57344 \<le> p"
  shows "u8 0 lo up cp (utf8_point p @ r) = Some p # u8 0 128 191 0 r"
proof -
  consider "p < 128" | "128 \<le> p" "p < 2048" | "2048 \<le> p" "p < 65536" | "65536 \<le> p" by linarith
  then show ?thesis
  proof cases
    case 2
    define a b where "a = p div 64" and "b = p mod 64"
    have "p = a * 64 + b" "b < 64" "2 \<le> a" "a < 32" using 2 by (auto simp: a_def b_def)
    then show ?thesis using 2 by (simp add: utf8_point_def flip: a_def b_def)
  next
    case 3
    define a b c where "a = p div 4096" and "b = p div 64 mod 64" and "c = p mod 64"
    have "p div 64 div 64 = a" by (simp add: a_def div_mult2_eq[symmetric])
    then have p: "p = (a * 64 + b) * 64 + c" by (metis b_def c_def div_mult_mod_eq)
    have n: "b < 64" "c < 64" "a < 16" using 3 by (auto simp: a_def b_def c_def)
    have l: "a = 0 \<Longrightarrow> 32 \<le> b" "a = 13 \<Longrightarrow> b < 32" using p n 3 assms(2) by auto
    have "utf8_point p = [224 + a, 128 + b, 128 + c]" using 3 by (simp add: utf8_point_def a_def b_def c_def)
    moreover have "u8 0 lo up cp ([224 + a, 128 + b, 128 + c] @ r) = Some p # u8 0 128 191 0 r"
      using n l unfolding p by (auto simp: numeral_2_eq_2)
    ultimately show ?thesis by simp
  next
    case 4
    define a b c d where "a = p div 262144" and "b = p div 4096 mod 64" and "c = p div 64 mod 64" and "d = p mod 64"
    have "p div 64 div 64 div 64 = a" "p div 64 div 64 = p div 4096" by (simp_all add: a_def div_mult2_eq[symmetric])
    then have p: "p = ((a * 64 + b) * 64 + c) * 64 + d" by (metis b_def c_def d_def div_mult_mod_eq)
    have n: "b < 64" "c < 64" "d < 64" "a < 5" using assms(1) by (auto simp: a_def b_def c_def d_def)
    have l: "a = 0 \<Longrightarrow> 16 \<le> b" "a = 4 \<Longrightarrow> b < 16" using p n 4 assms(1) by auto
    have "utf8_point p = [240 + a, 128 + b, 128 + c, 128 + d]" using 4 by (simp add: utf8_point_def a_def b_def c_def d_def)
    moreover have "u8 0 lo up cp ([240 + a, 128 + b, 128 + c, 128 + d] @ r) = Some p # u8 0 128 191 0 r"
      using n l unfolding p by (auto simp: numeral_2_eq_2 numeral_3_eq_3)
    ultimately show ?thesis by simp
  qed (simp add: utf8_point_def)
qed

lemma u8_bom: "u8 0 lo up cp ([239, 187, 191] @ r) = Some 65279 # u8 0 128 191 0 r"
  by (simp add: numeral_2_eq_2)

lemma u8_chars:
  "list_all one_char cs \<Longrightarrow> u8 0 lo up cp (concat (map utf8_encode cs)) = map (\<lambda>c. Some (char_point c)) cs"
proof (induction cs arbitrary: lo up cp)
  case (Cons c cs)
  then show ?case using u8_point utf8_one_char[of c] by simp
qed simp

text \<open>A text that does not start with U+FEFF, which the decoder takes for a byte order mark.\<close>

lemma no_bom:
  assumes "list_all one_char cs" "cs = [] \<or> hd cs \<noteq> [65279]"
  shows "strip_bom (concat (map utf8_encode cs)) = concat (map utf8_encode cs)"
proof (cases cs)
  case (Cons c ds)
  have False if t: "take 3 (concat (map utf8_encode cs)) = [239, 187, 191]"
  proof -
    let ?b = "concat (map utf8_encode cs)"
    have "?b = [239, 187, 191] @ drop 3 ?b" using t by (metis append_take_drop_id)
    then have e: "u8 0 0 0 0 ?b = Some 65279 # u8 0 128 191 0 (drop 3 ?b)" by (metis u8_bom)
    have "u8 0 0 0 0 ?b = map (\<lambda>c. Some (char_point c)) cs" by (rule u8_chars[OF assms(1)])
    then have "char_point c = 65279" using Cons e by simp
    then have "c = [65279]" using char_point_units[of c] assms(1) Cons by (simp add: point_units_def)
    then show False using assms(2) Cons by simp
  qed
  then show ?thesis by (auto simp: strip_bom_def)
qed (simp add: strip_bom_def)

lemma utf8_back:
  assumes "list_all one_char cs" "cs = [] \<or> hd cs \<noteq> [65279]"
  shows "utf8_decode (concat (map utf8_encode cs)) = concat cs"
    "utf8_fatal (concat (map utf8_encode cs)) = Some (concat cs)"
proof -
  have p: "map (\<lambda>c. point_units (char_point c)) cs = cs" using assms(1) char_point_units by (induction cs) auto
  show "utf8_decode (concat (map utf8_encode cs)) = concat cs"
    using p by (simp add: utf8_decode_def no_bom[OF assms] u8_chars[OF assms(1)] comp_def)
  show "utf8_fatal (concat (map utf8_encode cs)) = Some (concat cs)"
    using p by (auto simp: utf8_fatal_def no_bom[OF assms] u8_chars[OF assms(1)] comp_def Let_def)
qed

end
