(* ===== verification/Rfc2047.thy ===== *)
theory Rfc2047
  imports JsText
begin

text \<open>
  The decoders of src/src/imap/ImapParser.ts for header text: encoded words (decodeRfc2047), raw UTF-8 in
  byte strings (decodeLatin1Utf8) and charsets (decodeBytes).  A TextDecoder for another charset than
  UTF-8 is a parameter: td gives the decoder of a label, None where the constructor throws.
\<close>

type_synonym text_decoders = "units \<Rightarrow> (bytes \<Rightarrow> units) option"

text \<open>The label the encoder writes is known and means UTF-8.\<close>

definition knows_utf8 :: "text_decoders \<Rightarrow> bool" where
  "knows_utf8 td \<longleftrightarrow> td (units_of ''UTF-8'') = Some utf8_decode"

definition decodeBytes :: "text_decoders \<Rightarrow> bytes \<Rightarrow> units \<Rightarrow> units" where
  "decodeBytes td bs charset = (case td charset of Some d \<Rightarrow> d bs | None \<Rightarrow> utf8_decode bs)"

definition decodeLatin1Utf8 :: "units \<Rightarrow> units" where
  "decodeLatin1Utf8 s =
     (if \<not> list_ex (\<lambda>u. 128 \<le> u \<and> u \<le> 255) s \<or> list_ex (\<lambda>u. 255 < u) s then s
      else case utf8_fatal s of Some t \<Rightarrow> t | None \<Rightarrow> s)"

text \<open>The loops over escapes: two hexadecimal digits after the mark are a byte, every other unit its low byte.\<close>

fun hex_decode :: "nat \<Rightarrow> units \<Rightarrow> bytes" where
  "hex_decode mark (c # a # b # r) =
     (if c = mark \<and> is_hex a \<and> is_hex b then (hex_val a * 16 + hex_val b) # hex_decode mark r
      else c mod 256 # hex_decode mark (a # b # r))"
| "hex_decode mark (c # r) = c mod 256 # hex_decode mark r"
| "hex_decode mark [] = []"

text \<open>The pieces of input.split(/(=\?[^?]+\?[BbQq]\?[^?]*\?=)/g): text and encoded words in turn.\<close>

datatype rfc_part = RfcText units | RfcWord units nat units

definition word_at :: "units \<Rightarrow> (units \<times> nat \<times> units \<times> units) option" where
  "word_at s = (case s of
     a # b # r \<Rightarrow> (let cs = takeWhile (\<lambda>u. u \<noteq> 63) r in
       if a \<noteq> 61 \<or> b \<noteq> 63 \<or> cs = [] then None
       else (case dropWhile (\<lambda>u. u \<noteq> 63) r of
         _ # e # q # r2 \<Rightarrow>
           (if (e = 66 \<or> e = 98 \<or> e = 81 \<or> e = 113) \<and> q = 63
            then (case dropWhile (\<lambda>u. u \<noteq> 63) r2 of
              _ # g # r3 \<Rightarrow> if g = 61 then Some (cs, e, takeWhile (\<lambda>u. u \<noteq> 63) r2, r3) else None
            | _ \<Rightarrow> None)
            else None)
       | _ \<Rightarrow> None))
   | _ \<Rightarrow> None)"

lemma dropWhile_shorter: "dropWhile p xs = y # ys \<Longrightarrow> length ys < length xs"
  by (metis length_Cons length_dropWhile_le not_less_eq_eq not_le_imp_less)

lemma word_at_shorter:
  assumes "word_at s = Some (cs, e, t, r)"
  shows "length r < length s"
proof -
  obtain a b s1 where s: "s = a # b # s1" using assms by (auto simp: word_at_def split: list.splits)
  obtain x y z s2 where 1: "dropWhile (\<lambda>u. u \<noteq> 63) s1 = x # y # z # s2"
    using assms unfolding s by (auto simp: word_at_def Let_def split: list.splits if_splits)
  obtain v w s3 where 2: "dropWhile (\<lambda>u. u \<noteq> 63) s2 = v # w # s3" and r: "r = s3"
    using assms unfolding s by (auto simp: word_at_def Let_def 1 split: list.splits if_splits)
  show ?thesis using dropWhile_shorter[OF 1] dropWhile_shorter[OF 2] by (simp add: s r)
qed

function rfc2047_scan :: "units \<Rightarrow> units \<Rightarrow> rfc_part list" where
  "rfc2047_scan acc s = (case word_at s of
     Some (cs, e, t, r) \<Rightarrow> RfcText acc # RfcWord cs e t # rfc2047_scan [] r
   | None \<Rightarrow> (case s of [] \<Rightarrow> [RfcText acc] | c # r \<Rightarrow> rfc2047_scan (acc @ [c]) r))"
  by pat_completeness auto
termination by (relation "measure (\<lambda>(acc, s). length s)") (auto dest: word_at_shorter)

declare rfc2047_scan.simps [simp del]

definition decode_word :: "text_decoders \<Rightarrow> units \<Rightarrow> nat \<Rightarrow> units \<Rightarrow> units" where
  "decode_word td rawCharset enc t =
     (let charset = takeWhile (\<lambda>u. u \<noteq> 42) rawCharset in
      if enc = 66 \<or> enc = 98 then decodeBytes td (b64_decode (latin1 (map (\<lambda>u. if u < 256 then u else 0) t))) charset
      else decodeBytes td (hex_decode 61 (map (\<lambda>u. if u = 95 then 32 else u) t)) charset)"

fun decode_parts :: "text_decoders \<Rightarrow> bool \<Rightarrow> rfc_part list \<Rightarrow> units" where
  "decode_parts td first [] = []"
| "decode_parts td first (RfcWord cs e t # ps) = decode_word td cs e t @ decode_parts td False ps"
| "decode_parts td first (RfcText s # ps) =
     (if \<not> first \<and> ps \<noteq> [] \<and> s \<noteq> [] \<and> list_all units_ws s then [] else decodeLatin1Utf8 s) @ decode_parts td False ps"

definition decodeRfc2047 :: "text_decoders \<Rightarrow> units \<Rightarrow> units" where
  "decodeRfc2047 td input = decode_parts td True (rfc2047_scan [] input)"

section \<open>Reading words back\<close>

lemma decodeLatin1Utf8_ascii: "list_all (\<lambda>u. u < 128) s \<Longrightarrow> decodeLatin1Utf8 s = s"
  by (auto simp: decodeLatin1Utf8_def list_all_iff list_ex_iff)

text \<open>Text without the mark =? holds no encoded word.\<close>

fun has_mark :: "units \<Rightarrow> bool" where
  "has_mark (a # b # r) = ((a = 61 \<and> b = 63) \<or> has_mark (b # r))"
| "has_mark _ = False"

lemma scan_no_mark: "\<not> has_mark s \<Longrightarrow> rfc2047_scan acc s = [RfcText (acc @ s)]"
proof (induction s arbitrary: acc rule: has_mark.induct)
  case (1 a b r)
  then have "word_at (a # b # r) = None" by (auto simp: word_at_def Let_def)
  then show ?case using 1 by (subst rfc2047_scan.simps) simp
qed (simp_all add: rfc2047_scan.simps word_at_def)

lemma decode_plain: "\<not> has_mark s \<Longrightarrow> list_all (\<lambda>u. u < 128) s \<Longrightarrow> decodeRfc2047 td s = s"
  by (simp add: decodeRfc2047_def scan_no_mark decodeLatin1Utf8_ascii)

text \<open>The words the encoder writes.\<close>

definition encoded_word :: "bytes \<Rightarrow> units" where
  "encoded_word bs = units_of ''=?UTF-8?B?'' @ units_of (b64_encode bs) @ units_of ''?=''"

lemma b64_chars: "c \<in> set (b64_encode bs) \<Longrightarrow> bytes_ok bs \<Longrightarrow> 43 \<le> (of_char c :: nat) \<and> of_char c < (123 :: nat) \<and> of_char c \<noteq> (63 :: nat)"
  using b64_groups_small[of bs] by (auto simp: b64_encode_def b64_char_def b64_pad_def split: if_splits)

lemma b64_units:
  assumes "bytes_ok bs"
  shows "list_all (\<lambda>u. 43 \<le> u \<and> u < 123 \<and> u \<noteq> 63) (units_of (b64_encode bs))"
  using b64_chars[OF _ assms] by (auto simp: units_of_def list_all_iff)

lemma word_at_encoded:
  assumes "bytes_ok bs"
  shows "word_at (encoded_word bs @ r) = Some (units_of ''UTF-8'', 66, units_of (b64_encode bs), r)"
proof -
  let ?t = "units_of (b64_encode bs)"
  have u: "encoded_word bs @ r = 61 # 63 # [85, 84, 70, 45, 56] @ 63 # 66 # 63 # ?t @ 63 # 61 # r"
    by (simp add: encoded_word_def units_of_def)
  have t: "\<forall>x\<in>set ?t. x \<noteq> 63" using b64_units[OF assms] by (auto simp: list_all_iff)
  have "takeWhile (\<lambda>u. u \<noteq> 63) (?t @ 63 # 61 # r) = ?t" "dropWhile (\<lambda>u. u \<noteq> 63) (?t @ 63 # 61 # r) = 63 # 61 # r"
    using t by (simp_all add: takeWhile_append dropWhile_append)
  then show ?thesis unfolding u word_at_def by (simp add: Let_def units_of_def)
qed

lemma word_at_space: "word_at (32 # r) = None"
  by (auto simp: word_at_def Let_def split: list.splits)

lemma ws_space: "units_ws 32" by (simp add: units_ws_def)

lemma scan_words:
  assumes "list_all bytes_ok bss"
  shows "decode_parts td False (rfc2047_scan acc (concat (map (\<lambda>bs. 32 # encoded_word bs) bss))) =
    (if bss \<noteq> [] \<and> list_all units_ws acc then [] else decodeLatin1Utf8 (acc @ (if bss = [] then [] else [32]))) @
    concat (map (\<lambda>bs. decode_word td (units_of ''UTF-8'') 66 (units_of (b64_encode bs))) bss)"
  using assms
proof (induction bss arbitrary: acc)
  case (Cons bs bss)
  let ?r = "concat (map (\<lambda>bs. 32 # encoded_word bs) bss)"
  have a: "rfc2047_scan acc (32 # encoded_word bs @ ?r) = rfc2047_scan (acc @ [32]) (encoded_word bs @ ?r)"
    by (subst rfc2047_scan.simps) (simp add: word_at_space)
  also have "\<dots> = RfcText (acc @ [32]) # RfcWord (units_of ''UTF-8'') 66 (units_of (b64_encode bs)) # rfc2047_scan [] ?r"
    using Cons.prems by (subst rfc2047_scan.simps) (simp add: word_at_encoded)
  finally show ?case using Cons by (simp add: ws_space decodeLatin1Utf8_def)
qed (simp add: rfc2047_scan.simps word_at_def)

lemma decode_words:
  assumes "list_all bytes_ok bss" "knows_utf8 td"
  shows "decodeRfc2047 td (units_join [32] (map encoded_word bss)) = concat (map utf8_decode bss)"
proof (cases bss)
  case Nil
  then show ?thesis by (simp add: decodeRfc2047_def rfc2047_scan.simps word_at_def decodeLatin1Utf8_def)
next
  case (Cons bs r)
  have j: "units_join [32] (map encoded_word (b # bs)) = encoded_word b @ concat (map (\<lambda>bs. 32 # encoded_word bs) bs)" for b bs
    by (induction bs arbitrary: b) simp_all
  have w: "decode_word td (units_of ''UTF-8'') 66 (units_of (b64_encode b)) = utf8_decode b" if "bytes_ok b" for b
  proof -
    have "map (\<lambda>u. if u < 256 then u else 0) (units_of (b64_encode b)) = units_of (b64_encode b)"
      using b64_units[OF that] by (intro map_idI) (auto simp: list_all_iff)
    then have "decode_word td (units_of ''UTF-8'') 66 (units_of (b64_encode b)) = decodeBytes td (b64_decode (b64_encode b)) (takeWhile (\<lambda>u. u \<noteq> 42) (units_of ''UTF-8''))"
      by (simp add: decode_word_def latin1_units del: map_map)
    moreover have "takeWhile (\<lambda>u. u \<noteq> 42) (units_of ''UTF-8'') = units_of ''UTF-8''" by (simp add: units_of_def)
    ultimately show ?thesis using assms(2) base64.dec_enc[OF that] by (simp only: decodeBytes_def knows_utf8_def option.case option.inject)
  qed
  have "rfc2047_scan [] (units_join [32] (map encoded_word bss)) =
      RfcText [] # RfcWord (units_of ''UTF-8'') 66 (units_of (b64_encode bs)) # rfc2047_scan [] (concat (map (\<lambda>bs. 32 # encoded_word bs) r))"
    using assms(1) Cons unfolding Cons j by (subst rfc2047_scan.simps) (simp add: word_at_encoded)
  moreover have "concat (map (\<lambda>b. decode_word td (units_of ''UTF-8'') 66 (units_of (b64_encode b))) r) = concat (map utf8_decode r)"
    using assms(1) Cons w by (auto simp: list_all_iff intro!: arg_cong[where f = concat] map_cong)
  ultimately show ?thesis using assms(1) Cons w scan_words[of r td "[]"]
    by (auto simp: decodeRfc2047_def decodeLatin1Utf8_def)
qed

end
