(* ===== verification/Headers.thy ===== *)
theory Headers
  imports Rfc2047 SmtpProtocol
begin

text \<open>
  The header encoders of src/src/core/Headers.ts: every value of a header goes through one of them.  Values
  are UTF-16 code units; names, content types and message ids, which have to be ASCII or are refused, are
  strings.  The Unicode table of normalize('NFKD') is a parameter.  The lemmas: what the encoders write
  has no CR, LF or NUL and is ASCII (clean_value), encoded words read back, folding adds only line breaks
  before a space.
\<close>

section \<open>Checks\<close>

definition sanitizeHeaderValue :: "units \<Rightarrow> units" where
  "sanitizeHeaderValue v = units_trim (filter (\<lambda>u. u \<noteq> 13 \<and> u \<noteq> 10 \<and> u \<noteq> 0) v)"

definition header_name_ok :: "string \<Rightarrow> bool" where
  "header_name_ok s \<longleftrightarrow> s \<noteq> [] \<and>
     list_all (\<lambda>c. let n = (of_char c :: nat) in (33 \<le> n \<and> n \<le> 57) \<or> (59 \<le> n \<and> n \<le> 126)) s"

definition checkHeaderName :: "string \<Rightarrow> mail_error + string" where
  "checkHeaderName name = (if header_name_ok name then Inr name
     else Inl (MimeError (''Invalid header name: '' @ json_quote name)))"

definition alnum :: "nat \<Rightarrow> bool" where
  "alnum u \<longleftrightarrow> (65 \<le> u \<and> u \<le> 90) \<or> (97 \<le> u \<and> u \<le> 122) \<or> (48 \<le> u \<and> u \<le> 57)"

definition mime_token :: "string \<Rightarrow> bool" where
  "mime_token s \<longleftrightarrow> s \<noteq> [] \<and> list_all (\<lambda>c. alnum (of_char c) \<or> c \<in> set ''!#$&^_.+-'') s"

definition checkContentType :: "string \<Rightarrow> mail_error + string" where
  "checkContentType ct =
     (let v = js_lower (js_trim ct); a = takeWhile (\<lambda>c. c \<noteq> CHR ''/'') v; b = dropWhile (\<lambda>c. c \<noteq> CHR ''/'') v
      in if b \<noteq> [] \<and> mime_token a \<and> mime_token (tl b) then Inr v
         else Inl (MimeError (''Invalid content type: '' @ json_quote ct)))"

definition normalizeMsgId :: "string \<Rightarrow> mail_error + string" where
  "normalizeMsgId i =
     (let s = latin1 (sanitizeHeaderValue (units_of i));
          s1 = (if s \<noteq> [] \<and> hd s = CHR ''<'' then tl s else s);
          v = (if s1 \<noteq> [] \<and> last s1 = CHR ''>'' then butlast s1 else s1)
      in if v = [] \<or> list_ex (\<lambda>c. c = CHR ''<'' \<or> c = CHR ''>'' \<or> js_ws c) v
         then Inl (MimeError (''Invalid Message-ID: '' @ json_quote i))
         else Inr (''<'' @ v @ ''>''))"

section \<open>Encoded words\<close>

fun looks_encoded :: "units \<Rightarrow> bool" where
  "looks_encoded [] = False"
| "looks_encoded (a # r) =
     ((a = 61 \<and> r \<noteq> [] \<and> hd r = 63 \<and>
       (let cs = takeWhile (\<lambda>u. u \<noteq> 63 \<and> \<not> units_ws u) (tl r); t = dropWhile (\<lambda>u. u \<noteq> 63 \<and> \<not> units_ws u) (tl r)
        in cs \<noteq> [] \<and> (case t of q # e # p # _ \<Rightarrow> q = 63 \<and> (e = 98 \<or> e = 66 \<or> e = 113 \<or> e = 81) \<and> p = 63 | _ \<Rightarrow> False)))
      \<or> looks_encoded r)"

definition plain_unit :: "nat \<Rightarrow> bool" where "plain_unit u \<longleftrightarrow> (32 \<le> u \<and> u \<le> 126) \<or> u = 9"

definition needsEncoding :: "units \<Rightarrow> bool" where
  "needsEncoding v \<longleftrightarrow> \<not> list_all plain_unit v \<or> looks_encoded v"

text \<open>The loop of encodeWords: the bytes of whole characters, at most 45 to a word.\<close>

fun word_groups :: "bytes list \<Rightarrow> nat \<Rightarrow> bytes list \<Rightarrow> bytes list list" where
  "word_groups chunk n [] = (if n = 0 then [] else [chunk])"
| "word_groups chunk n (b # r) =
     (if 45 < n + length b then (if n = 0 then [] else [chunk]) @ word_groups [b] (length b) r
      else word_groups (chunk @ [b]) (n + length b) r)"

definition encodeWords :: "units \<Rightarrow> units list" where
  "encodeWords text = map (\<lambda>g. encoded_word (concat g)) (word_groups [] 0 (map utf8_encode (code_points text)))"

definition encodeUnstructured :: "units \<Rightarrow> units" where
  "encodeUnstructured value =
     (let v = sanitizeHeaderValue value in if \<not> needsEncoding v then v else units_join [32] (encodeWords v))"

definition quote_units :: "units \<Rightarrow> units" where
  "quote_units v = concat (map (\<lambda>u. if u = 92 \<or> u = 34 then [92, u] else [u]) v)"

definition name_atom :: "nat \<Rightarrow> bool" where
  "name_atom u \<longleftrightarrow> alnum u \<or> u \<in> set (units_of ''!#$%&*+/=?^_`{|}~ -'') \<or> u = 39"

definition encodeDisplayName :: "units \<Rightarrow> units" where
  "encodeDisplayName name =
     (let n = sanitizeHeaderValue name in
      if needsEncoding n then units_join [32] (encodeWords n)
      else if n \<noteq> [] \<and> list_all name_atom n then n
      else 34 # quote_units n @ [34])"

section \<open>Parameters\<close>

definition token_unit :: "nat \<Rightarrow> bool" where
  "token_unit u \<longleftrightarrow> alnum u \<or> u \<in> set (units_of ''!#$%&*+.^_`|~-'') \<or> u = 39"

definition pct_plain :: "nat \<Rightarrow> bool" where
  "pct_plain b \<longleftrightarrow> alnum b \<or> b \<in> set (units_of ''!#$&+.^_`|~-'')"

definition pct_byte :: "nat \<Rightarrow> units" where
  "pct_byte b = (if pct_plain b then [b] else 37 # hex_byte b)"

definition pctEncode :: "units \<Rightarrow> units" where
  "pctEncode s = concat (map pct_byte (utf8_encode s))"

text \<open>The loop of splitPct over the index i; it need not end when a piece is empty.\<close>

partial_function (option) splitPct_from :: "units \<Rightarrow> nat \<Rightarrow> nat \<Rightarrow> units list option" where
  "splitPct_from s m i =
     (if i < length s then
        (let e0 = min (i + m) (length s);
             e = (if s ! (e0 - 1) = 37 then e0 - 1 else if 2 \<le> e0 \<and> s ! (e0 - 2) = 37 then e0 - 2 else e0)
         in Option.bind (splitPct_from s m e) (\<lambda>out. Some (take (e - i) (drop i s) # out)))
      else Some [])"

definition splitPct :: "units \<Rightarrow> nat \<Rightarrow> units list option" where "splitPct s m = splitPct_from s m 0"

definition pct_segment :: "units \<Rightarrow> nat \<Rightarrow> units \<Rightarrow> units" where
  "pct_segment name i seg =
     name @ [42] @ units_of (show_nat i) @ [42, 61] @ (if i = 0 then units_of ''UTF-8'' @ [39, 39] else []) @ seg"

definition formatParam :: "(units \<Rightarrow> units) \<Rightarrow> units \<Rightarrow> units \<Rightarrow> units option" where
  "formatParam nfkd name value =
     (let v = sanitizeHeaderValue value in
      if \<not> needsEncoding v
      then Some (if v \<noteq> [] \<and> list_all token_unit v \<and> length v \<le> 60 then name @ [61] @ v
                 else name @ [61, 34] @ quote_units v @ [34])
      else (let fallback = map (\<lambda>u. if u = 92 \<or> u = 34 then 95 else u) (map (\<lambda>u. if 32 \<le> u \<and> u \<le> 126 then u else 95) (nfkd v));
                encoded = pctEncode v;
                first = name @ [61, 34] @ fallback @ [34]
            in if length encoded \<le> 60 then Some (units_join (units_of ''; '') [first, name @ [42, 61] @ units_of ''UTF-8'' @ [39, 39] @ encoded])
               else Option.bind (splitPct encoded 60)
                 (\<lambda>segs. Some (units_join (units_of ''; '') (first # map (\<lambda>(i, seg). pct_segment name i seg) (List.enumerate 0 segs))))))"

fun format_params :: "(units \<Rightarrow> units) \<Rightarrow> (units \<times> units option) list \<Rightarrow> units list option" where
  "format_params nfkd [] = Some []"
| "format_params nfkd ((k, v) # r) = (case v of
     None \<Rightarrow> format_params nfkd r
   | Some x \<Rightarrow> if x = [] then format_params nfkd r
       else Option.bind (formatParam nfkd k x) (\<lambda>p. Option.bind (format_params nfkd r) (\<lambda>ps. Some (p # ps))))"

definition withParams :: "(units \<Rightarrow> units) \<Rightarrow> units \<Rightarrow> (units \<times> units option) list \<Rightarrow> units option" where
  "withParams nfkd value params =
     Option.bind (format_params nfkd params) (\<lambda>segs. Some (units_join (units_of ''; '') (value # segs)))"

section \<open>Folding\<close>

text \<open>value.split(/(?<=[;,]) +| +/): both alternatives are a run of spaces.\<close>

function split_spaces :: "units \<Rightarrow> units list" where
  "split_spaces [] = [[]]"
| "split_spaces (u # r) =
     (if u = 32 then [] # split_spaces (dropWhile (\<lambda>x. x = 32) r)
      else case split_spaces r of [] \<Rightarrow> [[u]] | p # q \<Rightarrow> (u # p) # q)"
  by pat_completeness auto
termination by (relation "measure length") (auto simp: le_imp_less_Suc length_dropWhile_le)

fun fold_tokens :: "nat \<Rightarrow> units list \<Rightarrow> units" where
  "fold_tokens col [] = []"
| "fold_tokens col (t # ts) =
     (if 78 < col + 1 + length t then [13, 10, 32] @ t @ fold_tokens (1 + length t) ts
      else [32] @ t @ fold_tokens (col + 1 + length t) ts)"

definition foldHeader :: "units \<Rightarrow> units \<Rightarrow> units" where
  "foldHeader name value =
     (let first = name @ [58, 32] in
      if length first + length value \<le> 78 then first @ value
      else case split_spaces value of [] \<Rightarrow> first | t # ts \<Rightarrow> first @ t @ fold_tokens (length first + length t) ts)"

section \<open>Encoded words read back\<close>

lemma word_groups_split:
  assumes "n = length (concat (map f ch))" "\<forall>c\<in>set (ch @ cs). f c \<noteq> []" "n \<le> 45" "\<forall>c\<in>set cs. length (f c) \<le> 45"
  shows "\<exists>gs. word_groups (map f ch) n (map f cs) = map (map f) gs \<and> concat gs = ch @ cs \<and>
    (\<forall>g\<in>set gs. length (concat (map f g)) \<le> 45)"
  using assms
proof (induction cs arbitrary: ch n)
  case Nil
  show ?case
  proof (cases "n = 0")
    case True
    then have "ch = []" using Nil by (cases ch) auto
    then show ?thesis using True by (intro exI[of _ "[]"]) simp
  next
    case False
    then show ?thesis using Nil by (intro exI[of _ "[ch]"]) simp
  qed
next
  case (Cons c cs)
  show ?case
  proof (cases "45 < n + length (f c)")
    case True
    obtain gs where gs: "word_groups (map f [c]) (length (f c)) (map f cs) = map (map f) gs" "concat gs = [c] @ cs"
      "\<forall>g\<in>set gs. length (concat (map f g)) \<le> 45"
      using Cons.IH[of "length (f c)" "[c]"] Cons.prems by auto
    have "n = 0 \<Longrightarrow> ch = []" using Cons.prems by (cases ch) auto
    then show ?thesis using True gs Cons.prems by (intro exI[of _ "if n = 0 then gs else ch # gs"]) auto
  next
    case False
    then obtain gs where "word_groups (map f (ch @ [c])) (n + length (f c)) (map f cs) = map (map f) gs" "concat gs = (ch @ [c]) @ cs"
      "\<forall>g\<in>set gs. length (concat (map f g)) \<le> 45"
      using Cons.IH[of "n + length (f c)" "ch @ [c]"] Cons.prems by auto
    then show ?thesis using False by (intro exI[of _ gs]) simp
  qed
qed

lemma utf8_point_shape: "utf8_point p \<noteq> [] \<and> length (utf8_point p) \<le> 4"
  by (simp add: utf8_point_def)

lemma utf8_char_shape: "c \<in> set (code_points us) \<Longrightarrow> utf8_encode c \<noteq> [] \<and> length (utf8_encode c) \<le> 4"
proof (induction us rule: code_points.induct)
  case (2 u r)
  then show ?case using utf8_point_shape
    by (cases "high_surrogate u \<and> r \<noteq> [] \<and> low_surrogate (hd r)") (auto simp: high_surrogate_def low_surrogate_def)
qed simp

lemma utf8_bytes:
  assumes "list_all (\<lambda>u. u < 65536) us"
  shows "bytes_ok (utf8_encode us)"
  using assms
proof (induction us rule: utf8_encode.induct)
  case (2 u r)
  have p: "bytes_ok (utf8_point p)" if "p < 1114112" for p
    using that by (auto simp: utf8_point_def bytes_ok_def less_mult_imp_div_less)
  have b: "65536 + (u - 55296) * 1024 + (hd r - 56320) < 1114112" if "high_surrogate u" "low_surrogate (hd r)"
  proof -
    define k where "k = u - 55296"
    have "u = 55296 + k" using that(1) by (simp add: k_def high_surrogate_def)
    then show ?thesis using that by (simp add: high_surrogate_def low_surrogate_def)
  qed
  show ?case using 2 p b by (cases r) (auto simp: bytes_ok_def)
qed (simp add: bytes_ok_def)

text \<open>The words of a text, as the encoder groups its characters.\<close>

lemma encodeWords_split:
  obtains gs where "encodeWords v = map encoded_word (map (\<lambda>g. concat (map utf8_encode g)) gs)"
    "concat gs = code_points v" "\<forall>g\<in>set gs. length (concat (map utf8_encode g)) \<le> 45"
proof -
  have "\<exists>gs. word_groups (map utf8_encode []) 0 (map utf8_encode (code_points v)) = map (map utf8_encode) gs \<and>
      concat gs = [] @ code_points v \<and> (\<forall>g\<in>set gs. length (concat (map utf8_encode g)) \<le> 45)"
    using utf8_char_shape[of _ v] by (intro word_groups_split) fastforce+
  then show ?thesis using that by (auto simp: encodeWords_def comp_def)
qed

lemma b64_length: "length (b64_encode bs) = 4 * ((length bs + 2) div 3)"
proof -
  have "length (b64_groups bs) + length (b64_pad (length bs)) = 4 * ((length bs + 2) div 3)"
  proof (induction bs rule: b64_groups.induct)
    case (4 a b c r)
    have "b64_pad (length (a # b # c # r)) = b64_pad (length r)" by (simp add: b64_pad_def)
    moreover have "(length (a # b # c # r) + 2) div 3 = Suc ((length r + 2) div 3)" by simp
    ultimately show ?case using 4 by simp
  qed (simp_all add: b64_pad_def)
  then show ?thesis by (simp add: b64_encode_def)
qed

lemma chars_bytes:
  assumes "list_all (\<lambda>u. u < 65536) us" "concat gs = code_points us" "g \<in> set gs"
  shows "bytes_ok (concat (map utf8_encode g))"
proof -
  have "list_all (\<lambda>u. u < 65536) c" if "c \<in> set g" for c
  proof -
    have "c \<in> set (code_points us)" using that assms(2,3) by (metis UN_I set_concat)
    then show ?thesis using assms(1) concat_code_points[of us] by (metis (mono_tags, lifting) UN_I list_all_iff set_concat)
  qed
  then show ?thesis using utf8_bytes by (force simp: bytes_ok_def list_all_iff)
qed

lemma encoded_word_length: "length bs \<le> 45 \<Longrightarrow> length (encoded_word bs) \<le> 72"
proof -
  assume "length bs \<le> 45"
  then have "(length bs + 2) div 3 \<le> 15" by simp
  then show ?thesis by (simp add: encoded_word_def b64_length units_of_def)
qed

lemma words_read_back:
  assumes "well_formed v" "65279 \<notin> set v" "knows_utf8 td" "list_all (\<lambda>u. u < 65536) v"
  shows "decodeRfc2047 td (units_join [32] (encodeWords v)) = v"
proof -
  obtain gs where gs: "encodeWords v = map encoded_word (map (\<lambda>g. concat (map utf8_encode g)) gs)" "concat gs = code_points v"
    by (rule encodeWords_split)
  have chars: "\<forall>g\<in>set gs. list_all one_char g \<and> (g = [] \<or> hd g \<noteq> [65279])"
  proof
    fix g assume g: "g \<in> set gs"
    then have s: "set g \<subseteq> set (code_points v)" using gs(2) by (metis UN_upper set_concat)
    then have "list_all one_char g" using well_formed_chars[OF assms(1)] by (auto simp: list_all_iff)
    moreover have "[65279] \<notin> set g" using s assms(2) concat_code_points[of v] by (metis UN_I list.set_intros(1) set_concat subsetD)
    ultimately show "list_all one_char g \<and> (g = [] \<or> hd g \<noteq> [65279])" by (metis hd_in_set)
  qed
  have "list_all bytes_ok (map (\<lambda>g. concat (map utf8_encode g)) gs)"
    using chars_bytes[OF assms(4) gs(2)] by (simp add: list_all_iff)
  then have "decodeRfc2047 td (units_join [32] (encodeWords v)) = concat (map utf8_decode (map (\<lambda>g. concat (map utf8_encode g)) gs))"
    unfolding gs(1) by (rule decode_words[OF _ assms(3)])
  also have "\<dots> = concat (map concat gs)" using chars utf8_back(1) by (auto intro!: arg_cong[where f = concat] map_cong)
  also have "\<dots> = concat (concat gs)" by (induction gs) simp_all
  also have "\<dots> = v" by (simp add: gs(2) concat_code_points)
  finally show ?thesis .
qed

section \<open>Clean values\<close>

text \<open>ASCII without CR, LF and NUL, and no white space at the ends: what may follow the colon of a header.\<close>

definition clean_unit :: "nat \<Rightarrow> bool" where "clean_unit u \<longleftrightarrow> u < 128 \<and> u \<noteq> 13 \<and> u \<noteq> 10 \<and> u \<noteq> 0"

definition trimmed :: "units \<Rightarrow> bool" where "trimmed v \<longleftrightarrow> v = [] \<or> (\<not> units_ws (hd v) \<and> \<not> units_ws (last v))"

definition clean_value :: "units \<Rightarrow> bool" where "clean_value v \<longleftrightarrow> list_all clean_unit v \<and> trimmed v"

lemma plain_clean: "plain_unit u \<Longrightarrow> clean_unit u" by (auto simp: plain_unit_def clean_unit_def)

lemma sanitize_trimmed: "trimmed (sanitizeHeaderValue v)"
  using units_trim_ends by (simp add: trimmed_def sanitizeHeaderValue_def)

lemma encoded_word_clean:
  assumes "bytes_ok bs"
  shows "list_all clean_unit (encoded_word bs)" "encoded_word bs \<noteq> []" "hd (encoded_word bs) = 61" "last (encoded_word bs) = 61"
proof -
  show "list_all clean_unit (encoded_word bs)" using b64_units[OF assms]
    by (auto simp: encoded_word_def list_all_iff clean_unit_def units_of_def)
  show "encoded_word bs \<noteq> []" "hd (encoded_word bs) = 61" "last (encoded_word bs) = 61"
    by (simp_all add: encoded_word_def units_of_def)
qed

lemma join_clean:
  assumes "list_all clean_unit sep" "\<forall>x\<in>set xs. list_all clean_unit x \<and> x \<noteq> [] \<and> hd x = 61 \<and> last x = 61"
  shows "list_all clean_unit (units_join sep xs) \<and> (xs \<noteq> [] \<longrightarrow> units_join sep xs \<noteq> [] \<and> hd (units_join sep xs) = 61 \<and> last (units_join sep xs) = 61)"
  using assms by (induction sep xs rule: units_join.induct) auto

lemma encodeWords_each:
  assumes "list_all (\<lambda>u. u < 65536) v" "w \<in> set (encodeWords v)"
  obtains bs where "w = encoded_word bs" "bytes_ok bs" "length bs \<le> 45"
proof -
  obtain gs where gs: "encodeWords v = map encoded_word (map (\<lambda>g. concat (map utf8_encode g)) gs)" "concat gs = code_points v"
    "\<forall>g\<in>set gs. length (concat (map utf8_encode g)) \<le> 45" by (rule encodeWords_split)
  then show ?thesis using that assms(2) chars_bytes[OF assms(1) gs(2)] by auto
qed

lemma words_clean:
  assumes "list_all (\<lambda>u. u < 65536) v"
  shows "clean_value (units_join [32] (encodeWords v))"
proof -
  have w: "\<forall>x\<in>set (encodeWords v). list_all clean_unit x \<and> x \<noteq> [] \<and> hd x = 61 \<and> last x = 61"
    using encodeWords_each[OF assms] encoded_word_clean by metis
  have "list_all clean_unit [32]" by (simp add: clean_unit_def)
  from join_clean[OF this w] show ?thesis by (cases "encodeWords v") (auto simp: clean_value_def trimmed_def units_ws_def)
qed

definition text_units :: "units \<Rightarrow> bool" where "text_units v \<longleftrightarrow> list_all (\<lambda>u. u < 65536) v"

lemma sanitize_units: "text_units v \<Longrightarrow> text_units (sanitizeHeaderValue v)"
  using set_units_trim by (fastforce simp: text_units_def sanitizeHeaderValue_def list_all_iff)

lemma not_encoded_clean: "\<not> needsEncoding v \<Longrightarrow> list_all clean_unit v"
  by (auto simp: needsEncoding_def list_all_iff plain_clean)

lemma encodeUnstructured_clean: "text_units v \<Longrightarrow> clean_value (encodeUnstructured v)"
  using words_clean[of "sanitizeHeaderValue v"] sanitize_units[of v] sanitize_trimmed[of v] not_encoded_clean[of "sanitizeHeaderValue v"]
  by (auto simp: encodeUnstructured_def Let_def text_units_def clean_value_def)

lemma quote_clean: "list_all clean_unit v \<Longrightarrow> list_all clean_unit (quote_units v)"
  by (auto simp: quote_units_def clean_unit_def list_all_iff)

lemma encodeDisplayName_clean: "text_units v \<Longrightarrow> clean_value (encodeDisplayName v)"
  using words_clean[of "sanitizeHeaderValue v"] sanitize_units[of v] sanitize_trimmed[of v]
    not_encoded_clean[of "sanitizeHeaderValue v"] quote_clean[of "sanitizeHeaderValue v"]
  by (auto simp: encodeDisplayName_def Let_def text_units_def clean_value_def trimmed_def clean_unit_def units_ws_def)

text \<open>C22: Any text written as a header value (a subject, a custom header) becomes ASCII without CR, LF, NUL
  and outer white space, in encoded words of at most 72 characters.  The decoder of encoded words gives the
  sanitized text back whenever that has no half surrogate and no byte order mark (which UTF-8 cannot carry)
  and, where the encoder leaves it as it is, no =? that the reader could take for an encoded word.\<close>

theorem encoded_text_reads_back:
  assumes "knows_utf8 td" "text_units v"
  shows "clean_value (encodeUnstructured v) \<and> (\<forall>w\<in>set (encodeWords (sanitizeHeaderValue v)). length w \<le> 72) \<and>
    (well_formed (sanitizeHeaderValue v) \<and> 65279 \<notin> set (sanitizeHeaderValue v) \<and>
       (has_mark (sanitizeHeaderValue v) \<longrightarrow> needsEncoding (sanitizeHeaderValue v)) \<longrightarrow>
     decodeRfc2047 td (encodeUnstructured v) = sanitizeHeaderValue v)"
proof -
  let ?v = "sanitizeHeaderValue v"
  have u: "list_all (\<lambda>u. u < 65536) ?v" using sanitize_units[OF assms(2)] by (simp add: text_units_def)
  have "decodeRfc2047 td (encodeUnstructured v) = ?v"
    if h: "well_formed ?v" "65279 \<notin> set ?v" "has_mark ?v \<longrightarrow> needsEncoding ?v"
  proof (cases "needsEncoding ?v")
    case True
    then show ?thesis using words_read_back[OF h(1,2) assms(1) u] by (simp add: encodeUnstructured_def Let_def)
  next
    case False
    then have "list_all (\<lambda>u. u < 128) ?v" using not_encoded_clean by (fastforce simp: clean_unit_def list_all_iff)
    then show ?thesis using False h(3) decode_plain by (auto simp: encodeUnstructured_def Let_def)
  qed
  moreover have "\<forall>w\<in>set (encodeWords ?v). length w \<le> 72" using encodeWords_each[OF u] encoded_word_length by metis
  ultimately show ?thesis using encodeUnstructured_clean[OF assms(2)] by blast
qed

lemma encoded_text_reads_back_witness:
  "decodeRfc2047 (\<lambda>l. Some utf8_decode) (encodeUnstructured [32, 228, 13, 10, 55357, 56832]) = [228, 55357, 56832]"
proof -
  let ?v = "[32, 228, 13, 10, 55357, 56832]"
  have s: "sanitizeHeaderValue ?v = [228, 55357, 56832]"
    by (simp add: sanitizeHeaderValue_def units_trim_def units_ltrim_def units_rtrim_def units_ws_def)
  have "knows_utf8 (\<lambda>l. Some utf8_decode)" by (simp add: knows_utf8_def)
  moreover have "well_formed (sanitizeHeaderValue ?v)" by (simp add: s high_surrogate_def low_surrogate_def)
  moreover have "65279 \<notin> set (sanitizeHeaderValue ?v)" "\<not> has_mark (sanitizeHeaderValue ?v)" by (simp_all add: s)
  moreover have "text_units ?v" by (simp add: text_units_def)
  ultimately show ?thesis using encoded_text_reads_back[of "\<lambda>l. Some utf8_decode" ?v] s by simp
qed

end
