(* ===== verification/MimeParser.thy ===== *)
theory MimeParser
  imports Rfc2047
begin

text \<open>
  The parser of messages, src/src/core/MimeParser.ts: header blocks, structured header values with the
  RFC 2231 parameters, address lists, the tree of parts, transfer encodings, and the view of a message as
  text, html and attachments.  Its input is a byte string (units below 256).  Decoders for charsets other
  than UTF-8 and windows-1252 are a parameter.  An object used as a map is an association list; the order
  JavaScript gives to integer keys is not modelled.
\<close>

section \<open>Header blocks\<close>

definition hws :: "nat \<Rightarrow> bool" where "hws u \<longleftrightarrow> u = 32 \<or> u = 9"

definition starts_hws :: "units \<Rightarrow> bool" where "starts_hws s \<longleftrightarrow> s \<noteq> [] \<and> hws (hd s)"

fun unfold_block :: "units \<Rightarrow> units" where
  "unfold_block [] = []"
| "unfold_block (c # r) =
     (if c = 10 \<and> starts_hws r then unfold_block r
      else if c = 13 \<and> r \<noteq> [] \<and> hd r = 10 \<and> starts_hws (tl r) then unfold_block (tl r)
      else c # unfold_block r)"

fun split_lines :: "units \<Rightarrow> units list" where
  "split_lines [] = [[]]"
| "split_lines (c # r) =
     (if c = 10 then [] # split_lines r
      else if c = 13 \<and> r \<noteq> [] \<and> hd r = 10 then [] # split_lines (tl r)
      else case split_lines r of [] \<Rightarrow> [[c]] | l # ls \<Rightarrow> (c # l) # ls)"

definition header_line :: "units \<Rightarrow> (units \<times> units) option" where
  "header_line line = (let name = takeWhile (\<lambda>u. u \<noteq> 58) line; r = dropWhile (\<lambda>u. u \<noteq> 58) line in
     if r = [] \<or> name = [] then None else Some (units_trim name, units_trim (tl r)))"

record mime_headers =
  mh_map :: "(units, units list) jsmap"
  mh_lines :: "(units \<times> units) list"

definition add_header :: "mime_headers \<Rightarrow> units \<times> units \<Rightarrow> mime_headers" where
  "add_header h nv = (let key = units_lower (fst nv) in
     h \<lparr> mh_map := (case map_of (mh_map h) key of Some arr \<Rightarrow> AList.update key (arr @ [snd nv]) (mh_map h)
                    | None \<Rightarrow> AList.update key [snd nv] (mh_map h)),
         mh_lines := mh_lines h @ [nv] \<rparr>)"

definition MimeHeaders :: "units \<Rightarrow> mime_headers" where
  "MimeHeaders block = foldl add_header \<lparr> mh_map = [], mh_lines = [] \<rparr> (List.map_filter header_line (split_lines (unfold_block block)))"

definition header_raw :: "mime_headers \<Rightarrow> string \<Rightarrow> units option" where
  "header_raw h name = (case map_of (mh_map h) (units_lower (units_of name)) of Some (v # _) \<Rightarrow> Some v | _ \<Rightarrow> None)"

definition header_get :: "text_decoders \<Rightarrow> mime_headers \<Rightarrow> string \<Rightarrow> units option" where
  "header_get td h name = map_option (decodeRfc2047 td) (header_raw h name)"

definition header_getAll :: "text_decoders \<Rightarrow> mime_headers \<Rightarrow> string \<Rightarrow> units list" where
  "header_getAll td h name = map (decodeRfc2047 td) (case map_of (mh_map h) (units_lower (units_of name)) of Some vs \<Rightarrow> vs | None \<Rightarrow> [])"

definition header_has :: "mime_headers \<Rightarrow> string \<Rightarrow> bool" where
  "header_has h name \<longleftrightarrow> map_of (mh_map h) (units_lower (units_of name)) \<noteq> None"

section \<open>Text\<close>

definition win1252_high :: "nat list" where
  "win1252_high = [8364, 129, 8218, 402, 8222, 8230, 8224, 8225, 710, 8240, 352, 8249, 338, 141, 381, 143,
     144, 8216, 8217, 8220, 8221, 8226, 8211, 8212, 732, 8482, 353, 8250, 339, 157, 382, 376]"

definition windows1252 :: "bytes \<Rightarrow> units" where
  "windows1252 bs = map (\<lambda>b. if 128 \<le> b \<and> b < 160 then win1252_high ! (b - 128) else b) bs"

definition decodeText :: "text_decoders \<Rightarrow> bytes \<Rightarrow> units option \<Rightarrow> units" where
  "decodeText td bs charset =
     (let cs = units_lower (units_trim (case charset of Some c \<Rightarrow> c | None \<Rightarrow> [])) in
      if cs \<in> {[], units_of ''us-ascii'', units_of ''ascii'', units_of ''utf8'', units_of ''utf-8''}
      then (case utf8_fatal bs of Some t \<Rightarrow> t
            | None \<Rightarrow> if cs = units_of ''utf-8'' \<or> cs = units_of ''utf8'' then utf8_decode bs else windows1252 bs)
      else decodeBytes td bs cs)"

section \<open>Structured values\<close>

fun split_quoted :: "nat \<Rightarrow> bool \<Rightarrow> units \<Rightarrow> units \<Rightarrow> units list" where
  "split_quoted sep quoted cur [] = [cur]"
| "split_quoted sep quoted cur (c # r) =
     (if c = 92 \<and> quoted then split_quoted sep quoted (cur @ c # take 1 r) (drop 1 r)
      else let q = (if c = 34 then \<not> quoted else quoted) in
        if c = sep \<and> \<not> q then cur # split_quoted sep q [] r else split_quoted sep q (cur @ [c]) r)"

definition splitOutsideQuotes :: "units \<Rightarrow> nat \<Rightarrow> units list" where
  "splitOutsideQuotes s sep = split_quoted sep False [] s"

definition percentDecode :: "units \<Rightarrow> bytes" where "percentDecode s = hex_decode 37 s"

definition unquote_value :: "units \<Rightarrow> units" where
  "unquote_value v = (if 2 \<le> length v \<and> hd v = 34 \<and> last v = 34 then unescape_units (butlast (tl v)) else v)"

record param_piece =
  pp_index :: nat
  pp_value :: units
  pp_encoded :: bool

definition unit_digit :: "nat \<Rightarrow> bool" where "unit_digit u \<longleftrightarrow> 48 \<le> u \<and> u \<le> 57"

text \<open>The match of /^([^*]+)\*(?:(\d+)\*?|)$/ on a key: the base name and the index.\<close>

definition star_key :: "units \<Rightarrow> (units \<times> nat option) option" where
  "star_key key =
     (let base = takeWhile (\<lambda>u. u \<noteq> 42) key; r = dropWhile (\<lambda>u. u \<noteq> 42) key in
      if base = [] \<or> r = [] then None
      else (let ds = takeWhile unit_digit (tl r); e = dropWhile unit_digit (tl r) in
        if tl r = [] then Some (base, None)
        else if ds \<noteq> [] \<and> (e = [] \<or> e = [42]) then Some (base, Some (read_digits (latin1 ds)))
        else None))"

text \<open>Assigning a string to the key __proto__ of an object does nothing.\<close>

definition js_assign :: "units \<Rightarrow> 'v \<Rightarrow> (units, 'v) jsmap \<Rightarrow> (units, 'v) jsmap" where
  "js_assign k v m = (if k = units_of ''__proto__'' then m else AList.update k v m)"

fun read_segments :: "units list \<Rightarrow> (units, units) jsmap \<times> (units, param_piece list) jsmap \<Rightarrow>
    (units, units) jsmap \<times> (units, param_piece list) jsmap" where
  "read_segments [] st = st"
| "read_segments (seg # segs) (simple, extended) =
     (let k = takeWhile (\<lambda>u. u \<noteq> 61) seg; r = dropWhile (\<lambda>u. u \<noteq> 61) seg in
      if r = [] then read_segments segs (simple, extended)
      else (let key = units_lower (units_trim k); val = unquote_value (units_trim (tl r));
                star = (key \<noteq> [] \<and> last key = 42)
            in case star_key key of
                 Some (base, idx) \<Rightarrow>
                   (let arr = (case map_of extended base of Some a \<Rightarrow> a | None \<Rightarrow> []);
                        p = \<lparr> pp_index = (case idx of Some i \<Rightarrow> i | None \<Rightarrow> 0), pp_value = val, pp_encoded = star \<rparr>
                    in read_segments segs (simple, AList.update base (arr @ [p]) extended))
               | None \<Rightarrow> read_segments segs (js_assign key val simple, extended)))"

text \<open>The match of /^([^']*)'[^']*'(.*)$/ on the first piece.\<close>

definition charset_prefix :: "units \<Rightarrow> (units \<times> units) option" where
  "charset_prefix v =
     (let c = takeWhile (\<lambda>u. u \<noteq> 39) v; r = dropWhile (\<lambda>u. u \<noteq> 39) v; r2 = dropWhile (\<lambda>u. u \<noteq> 39) (tl r) in
      if r = [] \<or> r2 = [] \<or> list_ex (\<lambda>u. u \<in> {10, 13, 8232, 8233}) (tl r2) then None else Some (c, tl r2))"

definition low_bytes :: "units \<Rightarrow> bytes" where "low_bytes v = map (\<lambda>u. u mod 256) v"

fun join_pieces :: "bool \<Rightarrow> units \<Rightarrow> param_piece list \<Rightarrow> bytes \<times> units" where
  "join_pieces first charset [] = ([], charset)"
| "join_pieces first charset (p # ps) =
     (let (v, cs) = (if pp_encoded p \<and> first
                     then (case charset_prefix (pp_value p) of
                             Some (c, v) \<Rightarrow> (v, if c = [] then charset else c)
                           | None \<Rightarrow> (pp_value p, charset))
                     else (pp_value p, charset));
          b = (if pp_encoded p then percentDecode v else low_bytes v);
          (bs, cs') = join_pieces False cs ps
      in (b @ bs, cs'))"

definition join_extended :: "text_decoders \<Rightarrow> param_piece list \<Rightarrow> units" where
  "join_extended td pieces =
     (let (bs, charset) = join_pieces True (units_of ''utf-8'') (sort_key pp_index pieces) in decodeText td bs (Some charset))"

record header_value =
  hv_value :: units
  hv_params :: "(units, units) jsmap"

definition parseHeaderValue :: "text_decoders \<Rightarrow> units option \<Rightarrow> header_value" where
  "parseHeaderValue td raw = (case raw of
     None \<Rightarrow> \<lparr> hv_value = [], hv_params = [] \<rparr>
   | Some s \<Rightarrow>
      (if s = [] then \<lparr> hv_value = [], hv_params = [] \<rparr>
       else (let segs = splitOutsideQuotes s 59;
                 (simple, extended) = read_segments (tl segs) ([], []);
                 params = foldl (\<lambda>m (k, v). js_assign k (decodeRfc2047 td v) m) [] simple
             in \<lparr> hv_value = units_lower (units_trim (hd segs)),
                  hv_params = foldl (\<lambda>m (base, ps). js_assign base (join_extended td ps) m) params extended \<rparr>)))"

section \<open>Address lists\<close>

record mail_address =
  ma_email :: units
  ma_name :: "units option"

text \<open>The rest of a comment after its parenthesis, as (?:[^()\\]|\\.)*\) matches it: its text and what follows.\<close>

fun comment_end :: "units \<Rightarrow> (units \<times> units) option" where
  "comment_end [] = None"
| "comment_end (c # r) =
     (if c = 41 then Some ([], r)
      else if c = 40 then None
      else if c = 92 then
        (case r of [] \<Rightarrow> None
         | d # r2 \<Rightarrow> if d \<in> {10, 13, 8232, 8233} then None else map_option (\<lambda>(t, q). (c # d # t, q)) (comment_end r2))
      else map_option (\<lambda>(t, q). (c # t, q)) (comment_end r))"

lemma comment_end_shorter: "comment_end s = Some (t, q) \<Longrightarrow> length q < length s"
  by (induction s arbitrary: t q rule: comment_end.induct) (fastforce split: if_splits list.splits)+

function strip_comments :: "units \<Rightarrow> units" where
  "strip_comments [] = []"
| "strip_comments (c # r) =
     (if c = 40 then (case comment_end r of Some (t, q) \<Rightarrow> strip_comments q | None \<Rightarrow> c # strip_comments r)
      else c # strip_comments r)"
  by pat_completeness auto
termination by (relation "measure length") (auto dest: comment_end_shorter)

fun first_comment :: "units \<Rightarrow> units option" where
  "first_comment [] = None"
| "first_comment (c # r) =
     (if c = 40 then (case comment_end r of Some (t, q) \<Rightarrow> Some t | None \<Rightarrow> first_comment r) else first_comment r)"

definition last_index :: "nat \<Rightarrow> units \<Rightarrow> nat option" where
  "last_index c s = (let r = takeWhile (\<lambda>u. u \<noteq> c) (rev s) in if length r = length s then None else Some (length s - 1 - length r))"

definition some_name :: "units \<Rightarrow> units option" where "some_name n = (if n = [] then None else Some n)"

text \<open>An address without angle brackets; a comment after it is the name.\<close>

definition parse_bare :: "text_decoders \<Rightarrow> units \<Rightarrow> mail_address option" where
  "parse_bare td t =
     (let email = decodeLatin1Utf8 (units_trim (strip_comments t)) in
      if email = [] then None
      else Some \<lparr> ma_email = email, ma_name = some_name (case first_comment t of Some c \<Rightarrow> decodeRfc2047 td (units_trim c) | None \<Rightarrow> []) \<rparr>)"

definition parseMailbox :: "text_decoders \<Rightarrow> units \<Rightarrow> mail_address option" where
  "parseMailbox td s =
     (let t = units_trim s in
      if t = [] then None
      else (case (last_index 60 t, last_index 62 t) of
        (Some lt, Some gt) \<Rightarrow>
          (if lt < gt then
             (let email = decodeLatin1Utf8 (units_trim (take (gt - lt - 1) (drop (lt + 1) t)));
                  n1 = unquote_value (units_trim (strip_comments (units_trim (take lt t))));
                  n = units_trim (decodeRfc2047 td n1)
              in if email = [] then None else Some \<lparr> ma_email = email, ma_name = some_name n \<rparr>)
           else parse_bare td t)
      | _ \<Rightarrow> parse_bare td t))"

text \<open>The loop of parseAddressHeader: the mailbox being collected, whether in a quoted string, and the depths
  of angle brackets and comments.\<close>

fun addr_loop :: "text_decoders \<Rightarrow> units \<Rightarrow> bool \<Rightarrow> nat \<Rightarrow> nat \<Rightarrow> units \<Rightarrow> mail_address option list" where
  "addr_loop td buf quoted angle comment [] = [parseMailbox td buf]"
| "addr_loop td buf quoted angle comment (c # r) =
     (if quoted then
        (if c = 92 then addr_loop td (buf @ c # take 1 r) quoted angle comment (drop 1 r)
         else addr_loop td (buf @ [c]) (c \<noteq> 34) angle comment r)
      else if 0 < comment then
        addr_loop td (buf @ [c]) quoted angle (if c = 40 then comment + 1 else if c = 41 then comment - 1 else comment) r
      else if c = 34 then addr_loop td (buf @ [c]) True angle comment r
      else if c = 40 then addr_loop td (buf @ [c]) quoted angle 1 r
      else let a = (if c = 60 then angle + 1 else if c = 62 then angle - 1 else angle) in
        if a = 0 \<and> c = 58 then addr_loop td [] quoted a comment r
        else if a = 0 \<and> (c = 44 \<or> c = 59) then parseMailbox td buf # addr_loop td [] quoted a comment r
        else addr_loop td (buf @ [c]) quoted a comment r)"

definition parseAddressHeader :: "text_decoders \<Rightarrow> units option \<Rightarrow> mail_address list" where
  "parseAddressHeader td raw = (case raw of
     None \<Rightarrow> [] | Some s \<Rightarrow> if s = [] then [] else List.map_filter id (addr_loop td [] False 0 0 s))"

text \<open>raw.match(/<[^<>\s]+>/g).\<close>

fun msg_ids :: "units option \<Rightarrow> units \<Rightarrow> units list" where
  "msg_ids cur [] = []"
| "msg_ids cur (c # r) =
     (if c = 60 then msg_ids (Some []) r
      else case cur of
        None \<Rightarrow> msg_ids None r
      | Some t \<Rightarrow> if c = 62 then (if t = [] then msg_ids None r else (60 # t @ [62]) # msg_ids None r)
                  else if units_ws c then msg_ids None r else msg_ids (Some (t @ [c])) r)"

definition parseMessageIds :: "units option \<Rightarrow> units list" where
  "parseMessageIds raw = (case raw of None \<Rightarrow> [] | Some s \<Rightarrow> msg_ids None s)"

section \<open>Transfer encodings\<close>

definition eol_at :: "units \<Rightarrow> bool" where
  "eol_at s \<longleftrightarrow> (s \<noteq> [] \<and> hd s = 10) \<or> take 2 s = [13, 10]"

function qp_trim :: "units \<Rightarrow> units" where
  "qp_trim [] = []"
| "qp_trim (c # r) =
     (if hws c \<and> eol_at (dropWhile hws r) then qp_trim (dropWhile hws r) else c # qp_trim r)"
  by pat_completeness auto
termination by (relation "measure length") (auto simp: le_imp_less_Suc length_dropWhile_le)

fun qp_join :: "units \<Rightarrow> units" where
  "qp_join [] = []"
| "qp_join (c # r) =
     (if c = 61 \<and> r \<noteq> [] \<and> hd r = 10 then qp_join (tl r)
      else if c = 61 \<and> take 2 r = [13, 10] then qp_join (drop 2 r)
      else c # qp_join r)"

definition decodeQuotedPrintable :: "units \<Rightarrow> bytes" where
  "decodeQuotedPrintable raw = hex_decode 61 (qp_join (qp_trim raw))"

definition b64_unit :: "nat \<Rightarrow> bool" where
  "b64_unit u \<longleftrightarrow> (65 \<le> u \<and> u \<le> 90) \<or> (97 \<le> u \<and> u \<le> 122) \<or> unit_digit u \<or> u = 43 \<or> u = 47 \<or> u = 61"

definition decodeTransfer :: "units \<Rightarrow> units \<Rightarrow> bytes" where
  "decodeTransfer raw encoding =
     (if encoding = units_of ''base64'' then b64_decode (latin1 (filter b64_unit raw))
      else if encoding = units_of ''quoted-printable'' then decodeQuotedPrintable raw
      else low_bytes raw)"

end
