(* ===== verification/Attachment.thy ===== *)
theory Attachment
  imports Headers MimeParser QueueTypes
begin

text \<open>
  Attachments, src/src/core/Attachment.ts: the streaming base64 encoder and its line wrapper, the guess of a
  content type, the path policy and the resolution of an attachment.  The file system and the path functions
  of Node are a parameter (path_env).  The lemmas show the streams exact for any chunks, and the line wrapping
  of Message.ts invisible to the decoder.
\<close>

section \<open>Streams\<close>

text \<open>A transform: the new remainder and what it pushes.\<close>

definition base64_transform :: "bytes \<Rightarrow> bytes \<Rightarrow> bytes \<times> string" where
  "base64_transform remainder chunk =
     (let d = remainder @ chunk; n = length d div 3 * 3 in (drop n d, if 0 < n then b64_encode (take n d) else []))"

definition base64_flush :: "bytes \<Rightarrow> string" where
  "base64_flush remainder = (if remainder \<noteq> [] then b64_encode remainder else [])"

text \<open>The loop of the line wrapper; col stays 0, so a line takes 76 characters.\<close>

function take_full_lines :: "string \<Rightarrow> string list \<times> string" where
  "take_full_lines buf = (if 76 \<le> length buf then (let (ls, r) = take_full_lines (drop 76 buf) in (take 76 buf # ls, r)) else ([], buf))"
  by pat_completeness auto
termination by (relation "measure length") auto

declare take_full_lines.simps [simp del]

definition wrapper_transform :: "string \<Rightarrow> string \<Rightarrow> string \<times> string" where
  "wrapper_transform buf chunk = (let (ls, r) = take_full_lines (buf @ chunk) in (r, if ls \<noteq> [] then js_join crlf ls @ crlf else []))"

definition wrapper_flush :: "string \<Rightarrow> string" where
  "wrapper_flush buf = (if buf \<noteq> [] then buf @ crlf else [])"

text \<open>One stream piped into the other: what comes out for a list of chunks.\<close>

fun encode_stream :: "bytes \<Rightarrow> string \<Rightarrow> bytes list \<Rightarrow> string" where
  "encode_stream rem buf [] =
     (let s = base64_flush rem; (buf1, o1) = (if s = [] then (buf, []) else wrapper_transform buf s) in o1 @ wrapper_flush buf1)"
| "encode_stream rem buf (c # cs) =
     (let (rem1, s) = base64_transform rem c; (buf1, o1) = (if s = [] then (buf, []) else wrapper_transform buf s)
      in o1 @ encode_stream rem1 buf1 cs)"

section \<open>Content types and paths\<close>

definition mime_map :: "(string, string) jsmap" where
  "mime_map = [(''pdf'', ''application/pdf''), (''png'', ''image/png''), (''jpg'', ''image/jpeg''), (''jpeg'', ''image/jpeg''),
     (''gif'', ''image/gif''), (''svg'', ''image/svg+xml''), (''txt'', ''text/plain''), (''html'', ''text/html''), (''htm'', ''text/html''),
     (''csv'', ''text/csv''), (''json'', ''application/json''), (''xml'', ''application/xml''), (''zip'', ''application/zip''),
     (''doc'', ''application/msword''),
     (''docx'', ''application/vnd.openxmlformats-officedocument.wordprocessingml.document''),
     (''xls'', ''application/vnd.ms-excel''),
     (''xlsx'', ''application/vnd.openxmlformats-officedocument.spreadsheetml.sheet'')]"

text \<open>The value may be no string: an extension that names a lower-case property every object inherits.\<close>

datatype content_type = CtString string | CtInherited

definition guessMime :: "string \<Rightarrow> content_type" where
  "guessMime filename =
     (let ext = js_lower (last (js_split (CHR ''.'') filename)) in
      case map_of mime_map ext of Some t \<Rightarrow> CtString t
      | None \<Rightarrow> if ext = ''constructor'' \<or> ext = ''__proto__'' then CtInherited else CtString ''application/octet-stream'')"

datatype path_policy = PolicyAllow | PolicyDeny | PolicyRoot string

record path_env =
  pe_resolve :: "string \<Rightarrow> string"
  pe_resolveIn :: "string \<Rightarrow> string \<Rightarrow> string"
  pe_cwd :: string
  pe_basename :: "string \<Rightarrow> string"
  pe_realpath :: "string \<Rightarrow> string option"
  pe_read :: "string \<Rightarrow> bytes option"

definition isWithin :: "string \<Rightarrow> string \<Rightarrow> bool" where
  "isWithin path root \<longleftrightarrow> path = root \<or> starts_with (if root \<noteq> [] \<and> last root = CHR ''/'' then root else root @ ''/'') path"

definition checkPath :: "path_env \<Rightarrow> string \<Rightarrow> path_policy option \<Rightarrow> mail_error + string" where
  "checkPath env path policy = (case policy of
     None \<Rightarrow> Inl (MimeError (''Attachment `path` is disabled by default - pass `content`, or set attachmentPolicy '' @
       ''('' @ [CHR 0x27] @ ''allow'' @ [CHR 0x27] @ '' for trusted callers, or { root }) to read files''))
   | Some PolicyDeny \<Rightarrow> Inl (MimeError ''Attachment paths are disabled by attachmentPolicy'')
   | Some PolicyAllow \<Rightarrow> Inr (pe_resolveIn env (pe_cwd env) path)
   | Some (PolicyRoot r) \<Rightarrow>
      (let given = pe_resolve env r in
       case pe_realpath env given of
         None \<Rightarrow> Inl (MimeError (''attachmentPolicy root does not exist: '' @ r))
       | Some root \<Rightarrow>
          (let escapes = MimeError (''Attachment path escapes the allowed root: '' @ pe_basename env path);
               lexical = pe_resolveIn env root path
           in case pe_realpath env lexical of
                None \<Rightarrow> Inl (if isWithin lexical root \<or> isWithin lexical given
                             then MimeError (''Attachment not found: '' @ pe_basename env path) else escapes)
              | Some real \<Rightarrow> if \<not> isWithin real root then Inl escapes else Inr real)))"

datatype attachment_content = ContentText units | ContentBytes bytes
datatype attachment_encoding = EncBase64 | EncQuotedPrintable | Enc7bit | Enc8bit

record attachment =
  at_filename :: string
  at_content :: "attachment_content option"
  at_path :: "string option"
  at_contentType :: "string option"
  at_encoding :: "attachment_encoding option"
  at_cid :: "string option"
  at_inline :: "bool option"
  at_rfc822 :: "attachment_content option"

record resolved_attachment =
  ra_filename :: string
  ra_contentType :: content_type
  ra_inline :: bool
  ra_encoding :: attachment_encoding
  ra_cid :: "string option"
  ra_content :: bytes

definition content_bytes :: "attachment_content \<Rightarrow> bytes" where
  "content_bytes c = (case c of ContentText t \<Rightarrow> utf8_encode t | ContentBytes b \<Rightarrow> b)"

text \<open>The dash in the message of checkPath is a long one in the code.  resolveAttachment and getContent in one; reading a file that fails throws the error of the file system.\<close>

definition resolveAttachment :: "path_env \<Rightarrow> attachment \<Rightarrow> path_policy option \<Rightarrow> thrown + resolved_attachment" where
  "resolveAttachment env att policy =
     (let filename = (if at_filename att \<noteq> [] then at_filename att
                      else case at_path att of Some p \<Rightarrow> if p = [] then ''file'' else pe_basename env p | None \<Rightarrow> ''file'');
          r = \<lparr> ra_filename = filename,
                ra_contentType = (case at_contentType att of Some t \<Rightarrow> CtString t | None \<Rightarrow> guessMime filename),
                ra_inline = (case at_inline att of Some b \<Rightarrow> b | None \<Rightarrow> (case at_cid att of None \<Rightarrow> False | Some c \<Rightarrow> c \<noteq> [])),
                ra_encoding = (case at_encoding att of Some e \<Rightarrow> e | None \<Rightarrow> EncBase64), ra_cid = at_cid att, ra_content = [] \<rparr>
      in case at_path att of
           Some p \<Rightarrow> (case checkPath env p policy of
               Inl e \<Rightarrow> Inl (ThrownMailTs e)
             | Inr safe \<Rightarrow> (case pe_read env safe of
                   None \<Rightarrow> Inl (ThrownOther ''read'')
                 | Some bs \<Rightarrow> Inr (r \<lparr> ra_content := bs \<rparr>)))
         | None \<Rightarrow> (case at_content att of
               Some c \<Rightarrow> Inr (r \<lparr> ra_content := content_bytes c \<rparr>)
             | None \<Rightarrow> Inl (ThrownMailTs (MimeError (''Attachment '' @ [dquote] @ filename @ [dquote] @ '' has no content or path'')))))"

section \<open>The streams are exact\<close>

lemma b64_groups_append: "length a mod 3 = 0 \<Longrightarrow> b64_groups (a @ b) = b64_groups a @ b64_groups b"
proof (induction a rule: b64_groups.induct)
  case (4 x y z r)
  have "(length r + 3) mod 3 = length r mod 3" by simp
  then have "length r mod 3 = 0" using 4(2) by (simp only: list.size Suc_eq_plus1 add.assoc) simp
  then show ?case using 4(1) by simp
qed simp_all

lemma b64_encode_append:
  assumes "length a mod 3 = 0"
  shows "b64_encode (a @ b) = b64_encode a @ b64_encode b"
proof -
  have "(length a + length b) mod 3 = length b mod 3" using assms by (metis add.left_neutral mod_add_left_eq)
  then show ?thesis using assms by (simp add: b64_encode_def b64_groups_append b64_pad_def)
qed

definition wrapped :: "string \<Rightarrow> string" where
  "wrapped s = (let (ls, r) = take_full_lines s in concat (map (\<lambda>l. l @ crlf) ls) @ wrapper_flush r)"

lemma take_full_lines_append:
  assumes "take_full_lines s = (ls, r)"
  shows "take_full_lines (s @ t) = (let (ls', r') = take_full_lines (r @ t) in (ls @ ls', r'))"
  using assms
proof (induction s arbitrary: ls r rule: take_full_lines.induct)
  case (1 s)
  show ?case
  proof (cases "76 \<le> length s")
    case True
    obtain ls1 r1 where 2: "take_full_lines (drop 76 s) = (ls1, r1)" by fastforce
    then have "ls = take 76 s # ls1" "r = r1" using 1(2) True take_full_lines.simps[of s] by auto
    then show ?thesis using 1(1)[OF True 2] True take_full_lines.simps[of "s @ t"] by (simp split: prod.splits)
  next
    case False
    then show ?thesis using 1(2) take_full_lines.simps[of s] by (simp split: prod.splits)
  qed
qed

lemma join_lines: "ls \<noteq> [] \<Longrightarrow> js_join crlf ls @ crlf = concat (map (\<lambda>l. l @ crlf) ls)"
  by (induction crlf ls rule: js_join.induct) auto

lemma wrapper_out:
  assumes "wrapper_transform buf s = (buf1, out)"
  shows "out @ wrapped (buf1 @ t) = wrapped (buf @ s @ t)"
proof -
  obtain ls r where 1: "take_full_lines (buf @ s) = (ls, r)" by fastforce
  then have "buf1 = r" "out = concat (map (\<lambda>l. l @ crlf) ls)" using assms join_lines[of ls] by (auto simp: wrapper_transform_def)
  then show ?thesis using take_full_lines_append[OF 1, of t] by (simp add: wrapped_def split: prod.splits)
qed

lemma wrapper_end:
  assumes "wrapper_transform buf s = (buf1, out)"
  shows "out @ wrapper_flush buf1 = wrapped (buf @ s)"
proof -
  obtain ls r where 1: "take_full_lines (buf @ s) = (ls, r)" by fastforce
  then show ?thesis using assms join_lines[of ls] by (auto simp: wrapper_transform_def wrapped_def)
qed

definition no_full_line :: "string \<Rightarrow> bool" where "no_full_line buf \<longleftrightarrow> length buf < 76"

lemma take_full_lines_rest: "take_full_lines s = (ls, r) \<Longrightarrow> length r < 76 \<and> list_all (\<lambda>l. length l = 76) ls \<and> concat ls @ r = s"
proof (induction s arbitrary: ls r rule: take_full_lines.induct)
  case (1 s)
  show ?case
  proof (cases "76 \<le> length s")
    case True
    obtain ls1 r1 where 2: "take_full_lines (drop 76 s) = (ls1, r1)" by fastforce
    then have "ls = take 76 s # ls1" "r = r1" using 1(2) True take_full_lines.simps[of s] by auto
    then show ?thesis using 1(1)[OF True 2] True by simp
  next
    case False
    then show ?thesis using 1(2) take_full_lines.simps[of s] by simp
  qed
qed

lemma wrapped_short: "no_full_line buf \<Longrightarrow> wrapped buf = wrapper_flush buf"
  using take_full_lines.simps[of buf] by (simp add: wrapped_def no_full_line_def)

lemma wrapper_keeps_short: "wrapper_transform buf s = (buf1, out) \<Longrightarrow> no_full_line buf1"
  using take_full_lines_rest[of "buf @ s"] by (auto simp: wrapper_transform_def no_full_line_def split: prod.splits)

lemma encode_stream_wrapped: "no_full_line buf \<Longrightarrow> encode_stream rem buf cs = wrapped (buf @ b64_encode (rem @ concat cs))"
proof (induction cs arbitrary: rem buf)
  case Nil
  have e: "b64_encode [] = []" by (simp add: b64_encode_def b64_pad_def)
  show ?case
  proof (cases "base64_flush rem = []")
    case True
    then have "b64_encode rem = []" using e by (auto simp: base64_flush_def split: if_splits)
    then show ?thesis using True Nil by (simp add: wrapped_short)
  next
    case False
    then have f: "base64_flush rem = b64_encode rem" by (auto simp: base64_flush_def split: if_splits)
    obtain buf1 out where w: "wrapper_transform buf (b64_encode rem) = (buf1, out)" by fastforce
    then show ?thesis using False f wrapper_end[OF w] by (simp add: Let_def)
  qed
next
  case (Cons c cs)
  obtain rem1 s where t: "base64_transform rem c = (rem1, s)" by fastforce
  let ?d = "rem @ c" and ?n = "length (rem @ c) div 3 * 3"
  have "length (take ?n ?d) = ?n" by (simp add: div_times_less_eq_dividend min_absorb2)
  then have n: "length (take ?n ?d) mod 3 = 0" by (simp only: mod_mult_self2_is_0)
  have e: "b64_encode [] = []" by (simp add: b64_encode_def b64_pad_def)
  have "b64_encode (?d @ concat cs) = b64_encode (take ?n ?d) @ b64_encode (drop ?n ?d @ concat cs)"
    using b64_encode_append[OF n, of "drop ?n ?d @ concat cs"] by (metis append.assoc append_take_drop_id)
  moreover have "rem1 = drop ?n ?d" "s = b64_encode (take ?n ?d)"
    using t e by (auto simp: base64_transform_def Let_def split: if_splits)
  ultimately have b: "b64_encode (rem @ concat (c # cs)) = s @ b64_encode (rem1 @ concat cs)" by simp
  show ?case
  proof (cases "s = []")
    case True
    then show ?thesis using Cons.IH[OF Cons.prems, of rem1] b t by simp
  next
    case False
    obtain buf1 out where w: "wrapper_transform buf s = (buf1, out)" by fastforce
    then show ?thesis using Cons.IH[OF wrapper_keeps_short[OF w], of rem1] wrapper_out[OF w, of "b64_encode (rem1 @ concat cs)"] b t False
      by simp
  qed
qed

section \<open>Wrapping is invisible to the decoder\<close>

text \<open>b64.replace(/.{76}/g, '$&\r\n').replace(/\r\n$/, '') of Message.ts.\<close>

definition wrapBase64 :: "string \<Rightarrow> string" where
  "wrapBase64 b64 =
     (let (ls, r) = take_full_lines b64; s = concat (map (\<lambda>l. l @ crlf) ls) @ r; n = length s - 2
      in if 2 \<le> length s \<and> drop n s = crlf then take n s else s)"

lemma b64_char_in_alphabet: "n < 64 \<Longrightarrow> b64_unit (of_char (b64_char n))"
proof -
  assume "n < 64"
  then consider "n < 26" | "26 \<le> n" "n < 52" | "52 \<le> n" "n < 62" | "n = 62" | "n = 63" by linarith
  then show ?thesis by cases (auto simp: b64_char_def b64_unit_def unit_digit_def)
qed

lemma b64_char_unit:
  assumes "c \<in> set (b64_encode bs)" "bytes_ok bs"
  shows "b64_unit (of_char c)"
proof (cases "c \<in> set (b64_pad (length bs))")
  case True
  then have "c = CHR ''=''" by (simp add: b64_pad_def split: if_splits)
  then show ?thesis by (simp add: b64_unit_def)
next
  case False
  then obtain n where "n \<in> set (b64_groups bs)" "c = b64_char n" using assms(1) by (auto simp: b64_encode_def)
  then show ?thesis using b64_char_in_alphabet b64_groups_small[OF assms(2)] by simp
qed

lemma filter_lines:
  assumes "list_all (\<lambda>l. filter P l = l) ls" "filter P t = []"
  shows "filter P (concat (map (\<lambda>l. l @ t) ls)) = concat ls"
  using assms by (induction ls) auto

definition b64_code :: "char \<Rightarrow> bool" where "b64_code c \<longleftrightarrow> b64_unit (of_char c)"

lemma filter_code: "latin1 (filter b64_unit (units_of s)) = filter b64_code s"
  by (induction s) (simp_all add: units_of_def latin1_def b64_code_def)

lemma crlf_no_code: "filter b64_code crlf = []"
  by (simp add: b64_code_def crlf_def cr_def lf_def b64_unit_def unit_digit_def)

lemma code_lines:
  assumes "bytes_ok bs" "take_full_lines (b64_encode bs) = (ls, r)"
  shows "list_all (\<lambda>l. filter b64_code l = l) ls" "filter b64_code r = r" "concat ls @ r = b64_encode bs"
proof -
  have c: "concat ls @ r = b64_encode bs" using take_full_lines_rest[OF assms(2)] by simp
  have "\<forall>x\<in>set (concat ls @ r). b64_code x" unfolding c using b64_char_unit assms(1) by (auto simp: b64_code_def)
  then show "list_all (\<lambda>l. filter b64_code l = l) ls" "filter b64_code r = r" by (auto simp: list_all_iff filter_id_conv)
  show "concat ls @ r = b64_encode bs" by (rule c)
qed

lemma wrapped_code:
  assumes "bytes_ok bs"
  shows "filter b64_code (wrapped (b64_encode bs)) = b64_encode bs" "filter b64_code (wrapBase64 (b64_encode bs)) = b64_encode bs"
proof -
  obtain ls r where l: "take_full_lines (b64_encode bs) = (ls, r)" by fastforce
  note c = code_lines[OF assms l]
  let ?s = "concat (map (\<lambda>l. l @ crlf) ls) @ r"
  have f: "filter b64_code ?s = b64_encode bs" using c filter_lines[OF c(1) crlf_no_code] by simp
  show "filter b64_code (wrapped (b64_encode bs)) = b64_encode bs"
    using c filter_lines[OF c(1) crlf_no_code] crlf_no_code by (auto simp: wrapped_def l wrapper_flush_def)
  show "filter b64_code (wrapBase64 (b64_encode bs)) = b64_encode bs"
  proof (cases "2 \<le> length ?s \<and> drop (length ?s - 2) ?s = crlf")
    case True
    have "?s = take (length ?s - 2) ?s @ crlf" using True by (metis append_take_drop_id)
    then have "filter b64_code ?s = filter b64_code (take (length ?s - 2) ?s)" using crlf_no_code by (metis append_Nil2 filter_append)
    then show ?thesis using True f by (simp add: wrapBase64_def l Let_def)
  next
    case False
    then show ?thesis using f unfolding wrapBase64_def l Let_def by auto
  qed
qed

lemma decode_base64: "decodeTransfer (units_of s) (units_of ''base64'') = b64_decode (filter b64_code s)"
  by (simp add: decodeTransfer_def filter_code)

text \<open>C25: Base64 content survives its transport whatever the chunks of a stream are: the streaming encoder piped
  into the line wrapper writes the same for any division of the bytes, and the decoder of the MIME parser reads
  the bytes back from it and from the wrapped text of the message builder.\<close>

theorem base64_content_reads_back:
  assumes "bytes_ok (concat chunks)"
  shows "encode_stream [] [] chunks = encode_stream [] [] [concat chunks] \<and>
    decodeTransfer (units_of (encode_stream [] [] chunks)) (units_of ''base64'') = concat chunks \<and>
    decodeTransfer (units_of (wrapBase64 (b64_encode (concat chunks)))) (units_of ''base64'') = concat chunks"
proof -
  have "no_full_line []" by (simp add: no_full_line_def)
  then show ?thesis using encode_stream_wrapped[of "[]" "[]"] wrapped_code[OF assms] base64.dec_enc[OF assms]
    by (simp add: decode_base64 del: encode_stream.simps)
qed

lemma base64_content_reads_back_witness:
  "decodeTransfer (units_of (encode_stream [] [] [[1, 2], [], [3, 200]])) (units_of ''base64'') = [1, 2, 3, 200]"
proof -
  have "bytes_ok (concat [[1, 2], [], [3, 200]])" by (simp add: bytes_ok_def)
  from base64_content_reads_back[OF this]
  have "decodeTransfer (units_of (encode_stream [] [] [[1, 2], [], [3, 200]])) (units_of ''base64'') = concat [[1, 2], [], [3, 200]]"
    by blast
  then show ?thesis by (simp del: encode_stream.simps)
qed

end
