(* ===== verification/QuotedPrintable.thy ===== *)
theory QuotedPrintable
  imports MimeParser
begin

text \<open>
  The quoted-printable encoder of src/src/core/Message.ts against the decoder of the MIME parser.  The
  encoder is a loop over bytes with the current line; qp_out is the same loop without it (only its length
  matters), which the decoder's two replacements and its escapes undo one after the other.
\<close>

section \<open>The encoder\<close>

definition at_eol :: "bytes \<Rightarrow> bool" where "at_eol r \<longleftrightarrow> r = [] \<or> eol_at r"

definition qp_token :: "nat \<Rightarrow> bytes \<Rightarrow> units" where
  "qp_token b r = (if (33 \<le> b \<and> b \<le> 126 \<and> b \<noteq> 61) \<or> (hws b \<and> \<not> at_eol r) then [b] else 61 # hex_byte b)"

fun qp_encode :: "units \<Rightarrow> bytes \<Rightarrow> units" where
  "qp_encode line [] = line"
| "qp_encode line (b # r) =
     (if b = 13 \<and> r \<noteq> [] \<and> hd r = 10 then qp_encode line r
      else if b = 10 then line @ ucrlf @ qp_encode [] r
      else (let tok = qp_token b r in
        if 75 < length line + length tok then line @ [61] @ ucrlf @ qp_encode tok r
        else qp_encode (line @ tok) r))"

definition encodeQPBytes :: "bytes \<Rightarrow> units" where "encodeQPBytes bs = qp_encode [] bs"

text \<open>text.replace(/\r?\n/g, nl).\<close>

fun replace_eol :: "units \<Rightarrow> units \<Rightarrow> units" where
  "replace_eol nl [] = []"
| "replace_eol nl (c # r) =
     (if c = 10 then nl @ replace_eol nl r
      else if c = 13 \<and> r \<noteq> [] \<and> hd r = 10 then replace_eol nl r
      else c # replace_eol nl r)"

definition encodeQP :: "units \<Rightarrow> units" where "encodeQP t = encodeQPBytes (utf8_encode (replace_eol [10] t))"

definition normalizeCrlf :: "bytes \<Rightarrow> bytes" where "normalizeCrlf bs = replace_eol ucrlf bs"

section \<open>Decoding what was encoded\<close>

fun qp_out :: "nat \<Rightarrow> bytes \<Rightarrow> units" where
  "qp_out n [] = []"
| "qp_out n (b # r) =
     (if b = 13 \<and> r \<noteq> [] \<and> hd r = 10 then qp_out n r
      else if b = 10 then ucrlf @ qp_out 0 r
      else (let tok = qp_token b r in
        if 75 < n + length tok then [61] @ ucrlf @ tok @ qp_out (length tok) r
        else tok @ qp_out (n + length tok) r))"

lemma qp_encode_out: "qp_encode line r = line @ qp_out (length line) r"
  by (induction line r rule: qp_encode.induct) (auto simp: Let_def)

lemma hex_digit_range: "n < 16 \<Longrightarrow> 48 \<le> hex_digit n \<and> hex_digit n \<le> 70"
  by (simp add: hex_digit_def)

lemma hex_byte_shape:
  assumes "b < 256"
  shows "hex_byte b = [hex_digit (b div 16), hex_digit (b mod 16)]" "48 \<le> hex_digit (b div 16)" "48 \<le> hex_digit (b mod 16)"
    "hex_digit (b div 16) \<le> 70" "hex_digit (b mod 16) \<le> 70"
  using hex_digit_range[of "b div 16"] hex_digit_range[of "b mod 16"] assms
  by (simp_all add: hex_byte_def less_mult_imp_div_less)

lemma qp_token_cases:
  assumes "b < 256"
  obtains "qp_token b r = [b]" "33 \<le> b" "b \<le> 126" "b \<noteq> 61"
  | "qp_token b r = [b]" "hws b" "\<not> at_eol r"
  | x y where "qp_token b r = [61, x, y]" "48 \<le> x" "48 \<le> y" "x \<le> 70" "y \<le> 70" "is_hex x" "is_hex y" "hex_val x * 16 + hex_val y = b"
proof -
  consider "33 \<le> b \<and> b \<le> 126 \<and> b \<noteq> 61" | "hws b \<and> \<not> at_eol r"
    | "\<not> ((33 \<le> b \<and> b \<le> 126 \<and> b \<noteq> 61) \<or> (hws b \<and> \<not> at_eol r))" by blast
  then show ?thesis
  proof cases
    case 3
    then have "qp_token b r = [61, hex_digit (b div 16), hex_digit (b mod 16)]" by (auto simp: qp_token_def hex_byte_def)
    then show ?thesis using that(3) hex_byte_shape(2-5)[OF assms] hex_byte_back[OF assms] by blast
  qed (use that in \<open>auto simp: qp_token_def\<close>)
qed

lemma not_eol_after:
  assumes "bytes_ok r" "\<not> at_eol r"
  shows "\<not> eol_at (dropWhile hws (qp_out n r))"
  using assms
proof (induction n r rule: qp_out.induct)
  case (2 n b r)
  then have b: "b < 256" "bytes_ok r" "b \<noteq> 10" "\<not> (b = 13 \<and> r \<noteq> [] \<and> hd r = 10)"
    by (auto simp: bytes_ok_def at_eol_def eol_at_def neq_Nil_conv)
  have soft: "\<not> eol_at (dropWhile hws (61 # s))" "\<not> eol_at (61 # s)" for s by (simp_all add: eol_at_def hws_def)
  show ?case using b(1)
  proof (cases rule: qp_token_cases[of b r])
    case 1
    then show ?thesis using b soft by (auto simp: Let_def hws_def eol_at_def)
  next
    case 2
    then show ?thesis using "2.IH" b soft by (auto simp: Let_def)
  next
    case (3 x y)
    then show ?thesis using b soft by (auto simp: Let_def)
  qed
qed (simp add: at_eol_def)

lemma qp_trim_Cons: "\<not> hws c \<Longrightarrow> qp_trim (c # r) = c # qp_trim r" by simp

lemma qp_trim_token:
  assumes "b < 256" "bytes_ok r"
  shows "qp_trim (qp_token b r @ qp_out n r) = qp_token b r @ qp_trim (qp_out n r)"
  using assms(1)
proof (cases rule: qp_token_cases[of b r])
  case 1
  then show ?thesis by (simp add: hws_def)
next
  case 2
  then show ?thesis using not_eol_after[OF assms(2)] by simp
next
  case (3 x y)
  then show ?thesis by (simp add: hws_def)
qed

lemma qp_trim_out: "bytes_ok r \<Longrightarrow> qp_trim (qp_out n r) = qp_out n r"
proof (induction n r rule: qp_out.induct)
  case (2 n b r)
  then have "b < 256" "bytes_ok r" by (simp_all add: bytes_ok_def)
  then show ?case using 2 qp_trim_token[of b r] by (auto simp: Let_def ucrlf_def hws_def)
qed simp

text \<open>The output without its soft line breaks.\<close>

fun qp_plain :: "bytes \<Rightarrow> units" where
  "qp_plain [] = []"
| "qp_plain (b # r) =
     (if b = 13 \<and> r \<noteq> [] \<and> hd r = 10 then qp_plain r
      else if b = 10 then ucrlf @ qp_plain r
      else qp_token b r @ qp_plain r)"

lemma qp_join_token:
  assumes "b < 256" "b \<noteq> 10"
  shows "qp_join (qp_token b r @ s) = qp_token b r @ qp_join s"
  using assms(1)
proof (cases rule: qp_token_cases[of b r])
  case 2
  then have "b \<noteq> 61" by (auto simp: hws_def)
  then show ?thesis using 2 by simp
next
  case (3 x y)
  then have "x \<noteq> 10 \<and> y \<noteq> 10 \<and> x \<noteq> 13 \<and> y \<noteq> 61 \<or> y = 61" by auto
  moreover have "x \<noteq> 61" "y \<noteq> 61" using 3 by (auto simp: is_hex_def)
  ultimately show ?thesis using 3 by simp
qed simp

lemma qp_join_out: "bytes_ok r \<Longrightarrow> qp_join (qp_out n r) = qp_plain r"
proof (induction n r rule: qp_out.induct)
  case (2 n b r)
  then have "b < 256" "bytes_ok r" by (simp_all add: bytes_ok_def)
  then show ?case using 2 qp_join_token[of b r] by (auto simp: Let_def ucrlf_def)
qed simp

lemma hex_decode_other: "c \<noteq> mark \<Longrightarrow> hex_decode mark (c # r) = c mod 256 # hex_decode mark r"
  by (cases "(mark, c # r)" rule: hex_decode.cases) auto

lemma hex_decode_token:
  assumes "b < 256"
  shows "hex_decode 61 (qp_token b r @ s) = b # hex_decode 61 s"
  using assms
proof (cases rule: qp_token_cases[of b r])
  case 2
  then show ?thesis using assms by (auto simp: hex_decode_other hws_def)
qed (use assms in \<open>auto simp: hex_decode_other\<close>)

lemma hex_decode_plain: "bytes_ok r \<Longrightarrow> hex_decode 61 (qp_plain r) = normalizeCrlf r"
proof (induction r rule: qp_plain.induct)
  case (2 b r)
  then have "b < 256" "bytes_ok r" by (simp_all add: bytes_ok_def)
  then show ?case using 2 hex_decode_token[of b r] by (auto simp: normalizeCrlf_def ucrlf_def hex_decode_other)
qed (simp add: normalizeCrlf_def)

lemma decode_encodeQP: "bytes_ok bs \<Longrightarrow> decodeQuotedPrintable (encodeQPBytes bs) = normalizeCrlf bs"
  by (simp add: decodeQuotedPrintable_def encodeQPBytes_def qp_encode_out qp_trim_out qp_join_out hex_decode_plain)

section \<open>Line lengths\<close>

lemma split_lines_nonempty: "split_lines s \<noteq> []"
  by (cases s) (auto split: list.splits)

lemma split_lines_append:
  assumes "10 \<notin> set t" "13 \<notin> set t"
  shows "split_lines (t @ s) = (case split_lines s of [] \<Rightarrow> [t] | l # ls \<Rightarrow> (t @ l) # ls)"
  using assms split_lines_nonempty[of s] by (induction t) (auto split: list.splits)

definition lines_fit :: "nat \<Rightarrow> units \<Rightarrow> bool" where
  "lines_fit n s \<longleftrightarrow> n + length (hd (split_lines s)) \<le> 76 \<and> (\<forall>l\<in>set (tl (split_lines s)). length l \<le> 76)"

lemma lines_fit_crlf: "n \<le> 76 \<Longrightarrow> lines_fit n (ucrlf @ s) = lines_fit 0 s"
  using split_lines_nonempty[of s] by (cases "split_lines s") (auto simp: lines_fit_def ucrlf_def)

lemma lines_fit_append: "10 \<notin> set t \<Longrightarrow> 13 \<notin> set t \<Longrightarrow> lines_fit n (t @ s) = lines_fit (n + length t) s"
  using split_lines_nonempty[of s] by (cases "split_lines s") (auto simp: lines_fit_def split_lines_append)

lemma qp_token_length: "b < 256 \<Longrightarrow> length (qp_token b r) \<le> 3"
  by (cases rule: qp_token_cases[of b r]) auto

lemma qp_token_chars:
  assumes "b < 256" shows "\<forall>x\<in>set (qp_token b r). (32 \<le> x \<and> x \<le> 126) \<or> x = 9"
  using assms by (cases rule: qp_token_cases[of b r]) (auto simp: hws_def)

lemma qp_lines: "bytes_ok r \<Longrightarrow> n \<le> 75 \<Longrightarrow> lines_fit n (qp_out n r)"
proof (induction n r rule: qp_out.induct)
  case (1 n)
  then show ?case by (simp add: lines_fit_def)
next
  case (2 n b r)
  then have b: "b < 256" "bytes_ok r" by (simp_all add: bytes_ok_def)
  have t: "10 \<notin> set (qp_token b r)" "13 \<notin> set (qp_token b r)" using qp_token_chars[OF b(1)] by fastforce+
  have a: "lines_fit n (61 # s) = lines_fit (n + 1) s" for s using lines_fit_append[of "[61]" n s] by simp
  show ?case using 2 b qp_token_length[OF b(1), of r] by (auto simp: Let_def a lines_fit_crlf lines_fit_append[OF t])
qed

lemma qp_out_chars: "bytes_ok r \<Longrightarrow> x \<in> set (qp_out n r) \<Longrightarrow> (32 \<le> x \<and> x \<le> 126) \<or> x = 9 \<or> x = 13 \<or> x = 10"
proof (induction n r rule: qp_out.induct)
  case (2 n b r)
  then have b: "b < 256" "bytes_ok r" by (simp_all add: bytes_ok_def)
  show ?case using 2 b qp_token_chars[OF b(1), of r] by (auto simp: Let_def ucrlf_def split: if_splits)
qed simp

text \<open>C24: Quoted-printable loses nothing but the kind of line break: what the encoder writes for any bytes, the
  decoder reads back with every LF turned into CRLF; no encoded line is longer than 76 characters; and the
  encoding is printable ASCII.\<close>

theorem quoted_printable_reads_back:
  assumes "bytes_ok bs"
  shows "decodeQuotedPrintable (encodeQPBytes bs) = normalizeCrlf bs \<and>
    (\<forall>l\<in>set (split_lines (encodeQPBytes bs)). length l \<le> 76) \<and>
    list_all (\<lambda>x. (32 \<le> x \<and> x \<le> 126) \<or> x = 9 \<or> x = 13 \<or> x = 10) (encodeQPBytes bs)"
proof -
  have e: "encodeQPBytes bs = qp_out 0 bs" by (simp add: encodeQPBytes_def qp_encode_out)
  have "lines_fit 0 (qp_out 0 bs)" using assms by (rule qp_lines) simp
  then have "\<forall>l\<in>set (split_lines (qp_out 0 bs)). length l \<le> 76"
    using split_lines_nonempty[of "qp_out 0 bs"] by (cases "split_lines (qp_out 0 bs)") (auto simp: lines_fit_def)
  then show ?thesis using decode_encodeQP[OF assms] qp_out_chars[OF assms, of _ 0] by (auto simp: e list_all_iff)
qed

lemma quoted_printable_reads_back_witness:
  "decodeQuotedPrintable (encodeQPBytes [65, 32, 10, 61, 200, 13]) = [65, 32, 13, 10, 61, 200, 13]"
  using quoted_printable_reads_back[of "[65, 32, 10, 61, 200, 13]"]
  by (simp add: bytes_ok_def normalizeCrlf_def ucrlf_def)

end
