(* ===== verification/ICal.thy ===== *)
theory ICal
  imports JsText
begin

text \<open>
  The calendar invites of src/src/core/ICal.ts.  Dates come formatted (the two forms formatDate writes), the
  random UID and the time of the stamp are parameters.  The folding of long lines works on UTF-8 bytes; the
  lemmas show that it loses nothing, keeps every line within 75 bytes and never cuts a character.
\<close>

datatype ical_method = MRequest | MCancel | MReply | MPublish
datatype ical_status = IConfirmed | ITentative | ICancelled
datatype attendee_role = RReq | ROpt | RNon | RChair

primrec method_text :: "ical_method \<Rightarrow> string" where
  "method_text MRequest = ''REQUEST''" | "method_text MCancel = ''CANCEL''"
| "method_text MReply = ''REPLY''" | "method_text MPublish = ''PUBLISH''"

primrec status_text :: "ical_status \<Rightarrow> string" where
  "status_text IConfirmed = ''CONFIRMED''" | "status_text ITentative = ''TENTATIVE''" | "status_text ICancelled = ''CANCELLED''"

primrec role_text :: "attendee_role \<Rightarrow> string" where
  "role_text RReq = ''REQ-PARTICIPANT''" | "role_text ROpt = ''OPT-PARTICIPANT''"
| "role_text RNon = ''NON-PARTICIPANT''" | "role_text RChair = ''CHAIR''"

record ical_attendee =
  ic_email :: units
  ic_name :: "units option"
  ic_rsvp :: "bool option"
  ic_role :: "attendee_role option"

record ical_event =
  ev_method :: "ical_method option"
  ev_summary :: units
  ev_description :: "units option"
  ev_location :: "units option"
  ev_start :: units
  ev_end :: units
  ev_organizerName :: "units option"
  ev_organizer :: units
  ev_attendees :: "ical_attendee list"
  ev_uid :: "units option"
  ev_sequence :: nat
  ev_status :: "ical_status option"
  ev_timezone :: "units option"

text \<open>The five replacements of escapeIcal, one after the other.\<close>

fun escape_breaks :: "units \<Rightarrow> units" where
  "escape_breaks [] = []"
| "escape_breaks (c # r) =
     (if c = 10 then [92, 110] @ escape_breaks r
      else if c = 13 \<and> r \<noteq> [] \<and> hd r = 10 then escape_breaks r
      else c # escape_breaks r)"

definition replace_unit :: "nat \<Rightarrow> units \<Rightarrow> units \<Rightarrow> units" where
  "replace_unit c t s = concat (map (\<lambda>u. if u = c then t else [u]) s)"

definition escapeIcal :: "units \<Rightarrow> units" where
  "escapeIcal s = filter (\<lambda>u. u \<noteq> 13) (escape_breaks (replace_unit 44 [92, 44] (replace_unit 59 [92, 59] (replace_unit 92 [92, 92] s))))"

definition mailto :: "units \<Rightarrow> units" where
  "mailto email = filter (\<lambda>u. \<not> (u = 13 \<or> u = 10 \<or> units_ws u \<or> u = 58 \<or> u = 59 \<or> u = 44 \<or> u = 34 \<or> u = 60 \<or> u = 62)) email"

section \<open>Folding\<close>

definition continuation :: "nat \<Rightarrow> bool" where "continuation b \<longleftrightarrow> 128 \<le> b \<and> b < 192"

text \<open>The end of the piece that starts at offset: back to the start of a character.\<close>

fun back_up :: "bytes \<Rightarrow> nat \<Rightarrow> nat \<Rightarrow> nat" where
  "back_up bs offset 0 = 0"
| "back_up bs offset (Suc e) = (if offset < Suc e \<and> continuation (bs ! Suc e) then back_up bs offset e else Suc e)"

definition piece_end :: "bytes \<Rightarrow> nat \<Rightarrow> nat \<Rightarrow> nat" where
  "piece_end bs offset limit = (if length bs \<le> offset + limit then length bs else back_up bs offset (offset + limit))"

text \<open>The loop; it does not end when a piece is empty (None), which valid UTF-8 never makes it.\<close>

partial_function (option) fold_pieces :: "bytes \<Rightarrow> nat \<Rightarrow> bool \<Rightarrow> bytes list option" where
  "fold_pieces bs offset first =
     (if offset < length bs then
        (let e = piece_end bs offset (if first then 75 else 74)
         in Option.bind (fold_pieces bs e False) (\<lambda>ps. Some (take (e - offset) (drop offset bs) # ps)))
      else Some [])"

text \<open>Buffer.toString('utf8') keeps a byte order mark.\<close>

definition utf8_text :: "bytes \<Rightarrow> units" where
  "utf8_text bs = concat (map (\<lambda>x. case x of None \<Rightarrow> [65533] | Some c \<Rightarrow> point_units c) (u8 0 128 191 0 bs))"

fun fold_texts :: "bool \<Rightarrow> bytes list \<Rightarrow> units list" where
  "fold_texts first [] = []"
| "fold_texts first (p # ps) = ((if first then [] else [32]) @ utf8_text p) # fold_texts False ps"

definition foldIcalLine :: "units \<Rightarrow> units option" where
  "foldIcalLine line =
     (let bs = utf8_encode line in
      if length bs \<le> 75 then Some line
      else map_option (\<lambda>ps. units_join ucrlf (fold_texts True ps)) (fold_pieces bs 0 True))"

section \<open>The invite\<close>

definition cn_param :: "units option \<Rightarrow> units" where
  "cn_param name = (case name of None \<Rightarrow> [] | Some n \<Rightarrow> if n = [] then [] else units_of '';CN='' @ escapeIcal n)"

definition attendee_line :: "ical_attendee \<Rightarrow> units" where
  "attendee_line a =
     units_of ''ATTENDEE;ROLE='' @ units_of (role_text (case ic_role a of Some r \<Rightarrow> r | None \<Rightarrow> RReq)) @
     units_of '';RSVP='' @ units_of (if ic_rsvp a = Some False then ''FALSE'' else ''TRUE'') @ cn_param (ic_name a) @
     units_of '':mailto:'' @ mailto (ic_email a)"

definition optional_line :: "string \<Rightarrow> units option \<Rightarrow> units list" where
  "optional_line key v = (case v of None \<Rightarrow> [] | Some t \<Rightarrow> if t = [] then [] else [units_of key @ escapeIcal t])"

definition ical_lines :: "units \<Rightarrow> units \<Rightarrow> ical_event \<Rightarrow> units list" where
  "ical_lines randomUid stamp ev =
     (let tz = (case ev_timezone ev of Some t \<Rightarrow> t | None \<Rightarrow> units_of ''UTC'');
          tzid = (if tz \<noteq> units_of ''UTC'' then units_of '';TZID='' @ tz else [])
      in [units_of ''BEGIN:VCALENDAR'', units_of ''VERSION:2.0'', units_of ''PRODID:-//mailts//mailts//EN'',
          units_of ''METHOD:'' @ units_of (method_text (case ev_method ev of Some m \<Rightarrow> m | None \<Rightarrow> MRequest)),
          units_of ''BEGIN:VEVENT'',
          units_of ''UID:'' @ (case ev_uid ev of Some u \<Rightarrow> u | None \<Rightarrow> randomUid @ units_of ''@mailts''),
          units_of ''DTSTART'' @ tzid @ [58] @ ev_start ev, units_of ''DTEND'' @ tzid @ [58] @ ev_end ev,
          units_of ''DTSTAMP:'' @ stamp, units_of ''SUMMARY:'' @ escapeIcal (ev_summary ev),
          units_of ''SEQUENCE:'' @ units_of (show_nat (ev_sequence ev)),
          units_of ''STATUS:'' @ units_of (status_text (case ev_status ev of Some s \<Rightarrow> s | None \<Rightarrow> IConfirmed)),
          units_of ''ORGANIZER'' @ cn_param (ev_organizerName ev) @ units_of '':mailto:'' @ mailto (ev_organizer ev)] @
         optional_line ''DESCRIPTION:'' (ev_description ev) @ optional_line ''LOCATION:'' (ev_location ev) @
         map attendee_line (ev_attendees ev) @ [units_of ''END:VEVENT'', units_of ''END:VCALENDAR''])"

fun fold_lines :: "units list \<Rightarrow> units list option" where
  "fold_lines [] = Some []"
| "fold_lines (l # ls) = Option.bind (foldIcalLine l) (\<lambda>x. Option.bind (fold_lines ls) (\<lambda>xs. Some (x # xs)))"

definition buildICalString :: "units \<Rightarrow> units \<Rightarrow> ical_event \<Rightarrow> units option" where
  "buildICalString randomUid stamp ev =
     Option.bind (fold_lines (ical_lines randomUid stamp ev)) (\<lambda>ls. Some (units_join ucrlf ls @ ucrlf))"

section \<open>Folding is exact\<close>

abbreviation enc_all :: "units list \<Rightarrow> bytes" where "enc_all cs \<equiv> concat (map utf8_encode cs)"

lemma utf8_lead:
  assumes "one_char c"
  obtains x ys where "utf8_encode c = x # ys" "\<not> continuation x" "\<forall>y\<in>set ys. continuation y" "length ys \<le> 3"
proof -
  have "\<exists>x ys. utf8_point p = x # ys \<and> \<not> continuation x \<and> (\<forall>y\<in>set ys. continuation y) \<and> length ys \<le> 3" for p
    by (auto simp: utf8_point_def continuation_def)
  then show ?thesis using that utf8_one_char(1)[OF assms] by metis
qed

lemma char_boundary:
  assumes "list_all one_char cs" "e < length (enc_all cs)" "\<not> continuation (enc_all cs ! e)"
  shows "\<exists>as bs. cs = as @ bs \<and> e = length (enc_all as)"
  using assms
proof (induction cs arbitrary: e)
  case (Cons c cs)
  then obtain x ys where u: "utf8_encode c = x # ys" "\<forall>y\<in>set ys. continuation y" by (auto elim: utf8_lead)
  show ?case
  proof (cases "e < length (utf8_encode c)")
    case True
    have "e = 0"
    proof (cases e)
      case (Suc i)
      then have "enc_all (c # cs) ! e \<in> set ys" using True u(1) by (simp add: nth_append)
      then show ?thesis using Cons.prems(3) u(2) by blast
    qed simp
    then have "c # cs = [] @ (c # cs) \<and> e = length (enc_all [])" by simp
    then show ?thesis by blast
  next
    case False
    then have "e - length (utf8_encode c) < length (enc_all cs)" "\<not> continuation (enc_all cs ! (e - length (utf8_encode c)))"
      using Cons.prems by (auto simp: nth_append)
    moreover have "list_all one_char cs" using Cons.prems by simp
    ultimately obtain as bs where "cs = as @ bs" "e - length (utf8_encode c) = length (enc_all as)" using Cons.IH by blast
    then have "c # cs = (c # as) @ bs \<and> e = length (enc_all (c # as))" using False by simp
    then show ?thesis by blast
  qed
qed simp

lemma back_up_bounds:
  assumes "offset \<le> n"
  shows "offset \<le> back_up bs offset n" "back_up bs offset n \<le> n"
    "back_up bs offset n \<noteq> offset \<Longrightarrow> \<not> continuation (bs ! back_up bs offset n)"
    "back_up bs offset n < j \<Longrightarrow> j \<le> n \<Longrightarrow> continuation (bs ! j)"
  using assms by (induction bs offset n rule: back_up.induct) (auto split: if_splits simp: le_Suc_eq)

lemma piece_nonempty:
  assumes "list_all one_char cs" "cs \<noteq> []" "4 < limit" "limit < length (enc_all cs)"
  shows "\<exists>as bs. cs = as @ bs \<and> as \<noteq> [] \<and> back_up (pre @ enc_all cs) (length pre) (length pre + limit) = length pre + length (enc_all as) \<and>
    length (enc_all as) \<le> limit"
proof -
  let ?bs = "pre @ enc_all cs" and ?o = "length pre"
  define e where "e = back_up ?bs ?o (?o + limit)"
  have le: "?o \<le> ?o + limit" by simp
  note b = back_up_bounds[OF le, of ?bs, folded e_def]
  obtain c ds where cs: "cs = c # ds" using assms(2) by (cases cs) auto
  obtain x ys where u: "utf8_encode c = x # ys" "length ys \<le> 3" using assms(1) cs by (auto elim: utf8_lead)
  have ds: "ds \<noteq> []" using assms(3,4) u cs by auto
  then obtain d es where d: "ds = d # es" by (cases ds) auto
  obtain z zs where z: "utf8_encode d = z # zs" "\<not> continuation z" using assms(1) cs d by (auto elim: utf8_lead)
  have "\<not> continuation (?bs ! (?o + length (utf8_encode c)))" using z cs d by (simp add: nth_append)
  then have ne: "e \<noteq> ?o" using b(4)[of "?o + length (utf8_encode c)"] u assms(3) by auto
  define k where "k = e - ?o"
  have k: "e = ?o + k" "0 < k" using b(1) ne by (simp_all add: k_def)
  have "k \<le> limit" using b(2) k by simp
  moreover have "\<not> continuation (enc_all cs ! k)" using b(3)[OF ne] k by (simp add: nth_append)
  ultimately obtain as bs where "cs = as @ bs" "k = length (enc_all as)" using char_boundary[OF assms(1), of k] assms(4) by auto
  then show ?thesis using k \<open>k \<le> limit\<close> by (intro exI[of _ as] exI[of _ bs]) (auto simp: e_def)
qed

lemma fold_pieces_chars:
  assumes "list_all one_char cs"
  shows "\<exists>gs. fold_pieces (pre @ enc_all cs) (length pre) first = Some (map enc_all gs) \<and> concat gs = cs \<and>
    (gs \<noteq> [] \<longrightarrow> length (enc_all (hd gs)) \<le> (if first then 75 else 74) \<and> (\<forall>g\<in>set (tl gs). length (enc_all g) \<le> 74))"
  using assms
proof (induction "length cs" arbitrary: cs pre first rule: less_induct)
  case less
  let ?bs = "pre @ enc_all cs" and ?l = "if first then 75 else (74 :: nat)"
  show ?case
  proof (cases "cs = []")
    case True
    then show ?thesis by (intro exI[of _ "[]"]) (simp add: fold_pieces.simps)
  next
    case False
    then obtain c ds where cs: "cs = c # ds" by (cases cs) auto
    obtain x ys where "utf8_encode c = x # ys" using less.prems cs by (auto elim: utf8_lead)
    then have pos: "0 < length (enc_all cs)" using cs by simp
    obtain as bs where split: "cs = as @ bs" "as \<noteq> []" "piece_end ?bs (length pre) ?l = length (pre @ enc_all as)" "length (enc_all as) \<le> ?l"
    proof (cases "length (enc_all cs) \<le> ?l")
      case True
      then show ?thesis using that[of cs "[]"] False by (simp add: piece_end_def)
    next
      case F: False
      have l4: "4 < ?l" by simp
      have lF: "?l < length (enc_all cs)" using F by simp
      obtain as bs where "cs = as @ bs" "as \<noteq> []"
        "back_up ?bs (length pre) (length pre + ?l) = length pre + length (enc_all as)" "length (enc_all as) \<le> ?l"
        using piece_nonempty[OF less.prems False l4 lF, of pre] by blast
      moreover have "piece_end ?bs (length pre) ?l = back_up ?bs (length pre) (length pre + ?l)"
        using F unfolding piece_end_def by simp
      ultimately show ?thesis using that by simp
    qed
    have "length bs < length cs" "list_all one_char bs" using split less.prems by auto
    from less.hyps[OF this, of "pre @ enc_all as" False]
    obtain gs where gs: "fold_pieces ?bs (length (pre @ enc_all as)) False = Some (map enc_all gs)" "concat gs = bs"
      "gs \<noteq> [] \<longrightarrow> length (enc_all (hd gs)) \<le> 74 \<and> (\<forall>g\<in>set (tl gs). length (enc_all g) \<le> 74)" using split(1) by auto
    have "fold_pieces ?bs (length pre) first = Some (map enc_all (as # gs))"
      using gs(1) pos split by (subst fold_pieces.simps) (simp add: Let_def)
    moreover have "\<forall>g\<in>set gs. length (enc_all g) \<le> 74" using gs(3) by (cases gs) auto
    ultimately show ?thesis using gs(2) split by (intro exI[of _ "as # gs"]) simp
  qed
qed

text \<open>Unfolding (RFC 5545, section 3.1): a line break with the space after it is removed.\<close>

fun ical_unfold :: "units \<Rightarrow> units" where
  "ical_unfold [] = []"
| "ical_unfold (c # r) = (if c = 13 \<and> take 2 r = [10, 32] then ical_unfold (drop 2 r) else c # ical_unfold r)"

lemma ical_unfold_plain: "13 \<notin> set t \<Longrightarrow> ical_unfold (t @ s) = t @ ical_unfold s"
  by (induction t) auto

lemma utf8_text_chars: "list_all one_char g \<Longrightarrow> utf8_text (enc_all g) = concat g"
proof -
  assume g: "list_all one_char g"
  then have "map (\<lambda>c. point_units (char_point c)) g = g" using char_point_units by (induction g) auto
  then show ?thesis using u8_chars[OF g] by (simp add: utf8_text_def comp_def)
qed

lemma utf8_concat: "list_all one_char g \<Longrightarrow> utf8_encode (concat g) = enc_all g"
proof (induction g)
  case (Cons c g)
  have "utf8_encode (c @ t) = utf8_encode c @ utf8_encode t" for t
    using Cons.prems by (auto simp: one_char_def high_surrogate_def low_surrogate_def)
  then show ?case using Cons by simp
qed simp

lemma join_fold_texts:
  assumes "\<forall>g\<in>set (g # gs). list_all one_char g"
  shows "units_join ucrlf (fold_texts first (map enc_all (g # gs))) =
    (if first then [] else [32]) @ concat g @ concat (map (\<lambda>g. ucrlf @ [32] @ concat g) gs)"
  using assms
proof (induction gs arbitrary: g first)
  case (Cons h gs)
  from Cons.IH[of h False] Cons.prems show ?case by (simp add: utf8_text_chars)
qed (simp add: utf8_text_chars)

lemma unfold_pieces: "\<forall>g\<in>set gs. 13 \<notin> set (concat g) \<Longrightarrow> ical_unfold (concat (map (\<lambda>g. ucrlf @ [32] @ concat g) gs)) = concat (map concat gs)"
  by (induction gs) (simp_all add: ucrlf_def ical_unfold_plain)

lemma fold_texts_fit:
  assumes "\<forall>g\<in>set gs. list_all one_char g" "gs \<noteq> [] \<longrightarrow> length (enc_all (hd gs)) \<le> (if first then 75 else 74) \<and> (\<forall>g\<in>set (tl gs). length (enc_all g) \<le> 74)"
  shows "\<forall>l\<in>set (fold_texts first (map enc_all gs)). length (utf8_encode l) \<le> 75"
  using assms
proof (induction gs arbitrary: first)
  case (Cons g gs)
  have u: "utf8_encode (32 # t) = 32 # utf8_encode t" for t by (simp add: utf8_point_def high_surrogate_def low_surrogate_def)
  have "gs \<noteq> [] \<longrightarrow> length (enc_all (hd gs)) \<le> 74 \<and> (\<forall>g\<in>set (tl gs). length (enc_all g) \<le> 74)" using Cons.prems by (cases gs) auto
  then have "\<forall>l\<in>set (fold_texts False (map enc_all gs)). length (utf8_encode l) \<le> 75" using Cons.IH[of False] Cons.prems by simp
  then show ?case using Cons.prems by (auto simp: utf8_text_chars utf8_concat u simp del: utf8_encode.simps split: if_splits)
qed simp

text \<open>C26: Folding the line of an invite always returns, and loses nothing: the result unfolds to the line, and
  every line of it has at most 75 bytes, without cutting a character in two.\<close>

theorem ical_folding_exact:
  assumes "well_formed line" "13 \<notin> set line"
  shows "\<exists>ls. foldIcalLine line = Some (units_join ucrlf ls) \<and> ical_unfold (units_join ucrlf ls) = line \<and>
    (\<forall>l\<in>set ls. length (utf8_encode l) \<le> 75)"
proof -
  let ?cs = "code_points line"
  have ch: "list_all one_char ?cs" by (rule well_formed_chars[OF assms(1)])
  have e: "utf8_encode line = enc_all ?cs" by (rule utf8_chars)
  show ?thesis
  proof (cases "length (utf8_encode line) \<le> 75")
    case True
    then show ?thesis using ical_unfold_plain[OF assms(2), of "[]"] by (intro exI[of _ "[line]"]) (simp add: foldIcalLine_def Let_def)
  next
    case False
    obtain gs where gs: "fold_pieces (enc_all ?cs) 0 True = Some (map enc_all gs)" "concat gs = ?cs"
      "gs \<noteq> [] \<longrightarrow> length (enc_all (hd gs)) \<le> 75 \<and> (\<forall>g\<in>set (tl gs). length (enc_all g) \<le> 74)"
      using fold_pieces_chars[OF ch, of "[]" True] by auto
    have each: "\<forall>g\<in>set gs. list_all one_char g" using ch gs(2) by (metis UN_I list_all_iff set_concat)
    have all: "concat (map concat gs) = line"
    proof -
      have "concat (map concat gs) = concat (concat gs)" by (induction gs) simp_all
      then show ?thesis by (simp add: gs(2) concat_code_points)
    qed
    have no: "\<forall>g\<in>set gs. 13 \<notin> set (concat g)" using assms(2) all[symmetric] by auto
    obtain g hs where g: "gs = g # hs" using False gs(2) e by (cases gs) auto
    let ?ls = "fold_texts True (map enc_all gs)"
    have "foldIcalLine line = Some (units_join ucrlf ?ls)" using False gs(1) e by (simp add: foldIcalLine_def Let_def)
    moreover have "ical_unfold (units_join ucrlf ?ls) = line"
      using join_fold_texts[of g hs True] each no all unfold_pieces[of hs] unfolding g by (simp add: ical_unfold_plain)
    moreover have "\<forall>l\<in>set ?ls. length (utf8_encode l) \<le> 75" using fold_texts_fit[of gs True] each gs(3) by simp
    ultimately show ?thesis by blast
  qed
qed

lemma ical_folding_exact_witness:
  "\<exists>ls. foldIcalLine (replicate 80 228) = Some (units_join ucrlf ls) \<and> ical_unfold (units_join ucrlf ls) = replicate 80 228 \<and>
    (\<forall>l\<in>set ls. length (utf8_encode l) \<le> 75)"
proof -
  have "well_formed (replicate n 228)" for n by (induction n) (simp_all add: high_surrogate_def low_surrogate_def)
  then show ?thesis using ical_folding_exact[of "replicate 80 228"] by simp
qed

end
