(* ===== verification/Message.thy ===== *)
theory Message
  imports Attachment QuotedPrintable ICal Address
begin

text \<open>
  The message builder: src/src/core/Message.ts, the formatting half of src/src/core/Address.ts and the headers of
  src/src/core/Unsubscribe.ts.  A built message is a tree of entities written out as bytes.  What the builder
  calls outside the modelled files is a parameter: the random tokens, the html-to-text converter, the rich
  content, the file system, the clock, NFKD, and the URL parser.  Address fields, names of headers and message
  ids are Latin-1 strings, all other text is UTF-16 units.
\<close>

section \<open>Addresses\<close>

definition formatAddress :: "email_address \<Rightarrow> units" where
  "formatAddress addr =
     (let p = parseAddress addr in
      case pa_name p of
        None \<Rightarrow> units_of (pa_email p)
      | Some n \<Rightarrow> if n = [] then units_of (pa_email p)
                  else encodeDisplayName (units_of n) @ [32, 60] @ units_of (pa_email p) @ [62])"

definition formatAddressList :: "parsed_address list \<Rightarrow> units" where
  "formatAddressList addrs = units_join [44, 32]
     (map (\<lambda>a. formatAddress (case pa_name a of None \<Rightarrow> AddrStr (pa_email a)
            | Some n \<Rightarrow> if n = [] then AddrStr (pa_email a) else AddrObj (pa_email a) (Some n))) addrs)"

definition addr_char :: "char \<Rightarrow> bool" where
  "addr_char c \<longleftrightarrow> \<not> js_ws c \<and> c \<notin> set ''<>()[],;:@'' \<and> c \<noteq> dquote \<and> c \<noteq> backslash"

definition checkAddress :: "string \<Rightarrow> mail_error + unit" where
  "checkAddress email =
     (let a = takeWhile (\<lambda>c. c \<noteq> CHR ''@'') email; b = dropWhile (\<lambda>c. c \<noteq> CHR ''@'') email
      in if a \<noteq> [] \<and> list_all addr_char a \<and> 2 \<le> length b \<and> list_all addr_char (tl b) then Inr ()
         else Inl (MimeError (''Invalid email address: '' @ json_quote email)))"

fun check_all :: "string list \<Rightarrow> mail_error + unit" where
  "check_all [] = Inr ()"
| "check_all (e # es) = (case checkAddress e of Inl x \<Rightarrow> Inl x | Inr _ \<Rightarrow> check_all es)"

fun dedupe_from :: "string list \<Rightarrow> string list \<Rightarrow> string list" where
  "dedupe_from seen [] = []"
| "dedupe_from seen (a # as) =
     (if js_lower a \<in> set seen then dedupe_from seen as else a # dedupe_from (js_lower a # seen) as)"

definition dedupe :: "string list \<Rightarrow> string list" where "dedupe as = dedupe_from [] as"

section \<open>Unsubscribe headers\<close>

record unsubscribe_options =
  un_url :: "string option"
  un_mailto :: "string option"
  un_oneClick :: "bool option"

type_synonym headers = "(units \<times> units) list"

definition unsafe_char :: "char \<Rightarrow> bool" where
  "unsafe_char c \<longleftrightarrow> js_ws c \<or> c \<in> set ''<>,'' \<or> c = dquote \<or> (of_char c :: nat) < 32 \<or> (of_char c :: nat) = 127"

definition mailto_uri :: "string \<Rightarrow> bool" where
  "mailto_uri m =
     (let r = drop 7 m; a = takeWhile (\<lambda>c. c \<noteq> CHR ''@'' \<and> c \<noteq> CHR ''?'') r; b = drop (length a) r
      in starts_with ''mailto:'' m \<and> a \<noteq> [] \<and> 2 \<le> length b \<and> hd b = CHR ''@'' \<and> hd (tl b) \<noteq> CHR ''?'')"

text \<open>The protocol new URL(url) finds, None where it throws, is a parameter.\<close>

definition unsub_url :: "(string \<Rightarrow> string option) \<Rightarrow> string option \<Rightarrow> mail_error + string list" where
  "unsub_url protocol url = (case url of
     None \<Rightarrow> Inr []
   | Some u \<Rightarrow> (case protocol u of
        None \<Rightarrow> Inl (MimeError (''Invalid unsubscribe url: '' @ json_quote u))
      | Some p \<Rightarrow> if p \<noteq> ''https:'' then Inl (MimeError ''unsubscribe.url must use https (RFC 8058)'')
          else if list_ex unsafe_char u then Inl (MimeError (''unsubscribe.url contains characters not allowed in a header: '' @ json_quote u))
          else Inr [''<'' @ u @ ''>'']))"

definition unsub_mailto :: "string option \<Rightarrow> mail_error + string list" where
  "unsub_mailto m = (case m of
     None \<Rightarrow> Inr []
   | Some s \<Rightarrow> (let t = (if starts_with ''mailto:'' s then s else ''mailto:'' @ s) in
        if list_ex unsafe_char t \<or> \<not> mailto_uri t then Inl (MimeError (''Invalid unsubscribe mailto: '' @ json_quote s))
        else Inr [''<'' @ t @ ''>'']))"

definition unsubscribeHeaders :: "(string \<Rightarrow> string option) \<Rightarrow> unsubscribe_options \<Rightarrow> mail_error + headers" where
  "unsubscribeHeaders protocol o1 = (case unsub_url protocol (un_url o1) of
     Inl e \<Rightarrow> Inl e
   | Inr us \<Rightarrow> (case unsub_mailto (un_mailto o1) of
        Inl e \<Rightarrow> Inl e
      | Inr ms \<Rightarrow>
         (if us @ ms = [] then Inl (MimeError ''unsubscribe needs a url or a mailto'')
          else Inr ((units_of ''List-Unsubscribe'', units_of (js_join '', '' (us @ ms))) #
            (if un_url o1 \<noteq> None \<and> un_oneClick o1 \<noteq> Some False
             then [(units_of ''List-Unsubscribe-Post'', units_of ''List-Unsubscribe=One-Click'')] else [])))))"

section \<open>Entities\<close>

text \<open>A leaf has a body, an inner entity children; the boundary field of the code is never set.\<close>

datatype entity = Leaf headers bytes | Multi headers "entity list"

definition serializeHeaders :: "headers \<Rightarrow> bytes" where
  "serializeHeaders hs = utf8_encode (units_join ucrlf (map (\<lambda>(k, v). foldHeader k v) hs) @ ucrlf)"

definition boundary :: "units \<Rightarrow> units" where "boundary token = units_of ''----=_Part_'' @ token"

definition multi_headers :: "units \<Rightarrow> headers \<Rightarrow> headers" where
  "multi_headers b hs = (case hs of [] \<Rightarrow> []
     | (n, v) # r \<Rightarrow> (n, v @ units_of ''; boundary='' @ [34] @ b @ [34]) # r)"

text \<open>The tokens of the random boundaries are drawn in order: the second component counts them.\<close>

fun serializeEntity :: "(nat \<Rightarrow> units) \<Rightarrow> nat \<Rightarrow> entity \<Rightarrow> bytes \<times> nat"
  and serializeChildren :: "(nat \<Rightarrow> units) \<Rightarrow> units \<Rightarrow> nat \<Rightarrow> entity list \<Rightarrow> bytes \<times> nat" where
  "serializeEntity rand n (Leaf hs body) = (serializeHeaders hs @ ucrlf @ body, n)"
| "serializeEntity rand n (Multi hs cs) =
     (let b = boundary (rand n); (chunks, n1) = serializeChildren rand b (Suc n) cs
      in (serializeHeaders (multi_headers b hs) @ ucrlf @ chunks @ utf8_encode ([45, 45] @ b @ [45, 45] @ ucrlf), n1))"
| "serializeChildren rand b n [] = ([], n)"
| "serializeChildren rand b n (c # cs) =
     (let (x, n1) = serializeEntity rand n c; (xs, n2) = serializeChildren rand b n1 cs
      in (utf8_encode ([45, 45] @ b @ ucrlf) @ x @ ucrlf @ xs, n2))"

definition hdr :: "string \<Rightarrow> string \<Rightarrow> units \<times> units" where "hdr n v = (units_of n, units_of v)"

definition textEntity :: "string \<Rightarrow> units \<Rightarrow> entity" where
  "textEntity type body = Leaf [hdr ''Content-Type'' (type @ ''; charset=UTF-8''), hdr ''Content-Transfer-Encoding'' ''quoted-printable''] (encodeQP body)"

text \<open>A step of the builder: it may not return (None), throw (Inl) or return a value.\<close>

type_synonym 'a build = "(thrown + 'a) option"

definition bind :: "'a build \<Rightarrow> ('a \<Rightarrow> 'b build) \<Rightarrow> 'b build" where
  "bind x f = (case x of None \<Rightarrow> None | Some (Inl e) \<Rightarrow> Some (Inl e) | Some (Inr v) \<Rightarrow> f v)"

definition return :: "'a \<Rightarrow> 'a build" where "return v = Some (Inr v)"
definition throw :: "mail_error \<Rightarrow> 'a build" where "throw e = Some (Inl (ThrownMailTs e))"
definition lift_loop :: "'a option \<Rightarrow> 'a build" where "lift_loop x = map_option Inr x"
definition lift_mail :: "mail_error + 'a \<Rightarrow> 'a build" where
  "lift_mail r = (case r of Inl e \<Rightarrow> throw e | Inr v \<Rightarrow> return v)"

fun bind_all :: "('a \<Rightarrow> 'b build) \<Rightarrow> 'a list \<Rightarrow> 'b list build" where
  "bind_all f [] = return []"
| "bind_all f (x # xs) = bind (f x) (\<lambda>y. bind (bind_all f xs) (\<lambda>ys. return (y # ys)))"

definition calendarEntity :: "(units \<Rightarrow> units) \<Rightarrow> units \<Rightarrow> units \<Rightarrow> ical_event \<Rightarrow> (entity \<times> entity) option" where
  "calendarEntity nfkd uid stamp ev =
     Option.bind (buildICalString uid stamp ev) (\<lambda>ics.
     (let m = map (\<lambda>u. if 97 \<le> u \<and> u \<le> 122 then u - 32 else u) (sanitizeHeaderValue (units_of (method_text (case ev_method ev of Some m \<Rightarrow> m | None \<Rightarrow> MRequest))));
          body = encodeQP ics
      in Option.bind (withParams nfkd (units_of ''text/calendar'') [(units_of ''charset'', Some (units_of ''UTF-8'')), (units_of ''method'', Some m)]) (\<lambda>type.
         Option.bind (withParams nfkd (units_of ''attachment'') [(units_of ''filename'', Some (units_of ''invite.ics''))]) (\<lambda>disp.
         Some (Leaf [(units_of ''Content-Type'', type), hdr ''Content-Transfer-Encoding'' ''quoted-printable''] body,
               Leaf [(units_of ''Content-Type'', type), (units_of ''Content-Disposition'', disp),
                     hdr ''Content-Transfer-Encoding'' ''quoted-printable''] body)))))"

definition long_line :: "bytes \<Rightarrow> bool" where "long_line bs \<longleftrightarrow> list_ex (\<lambda>l. 998 < length l) (split_lines bs)"

definition encoding_name :: "attachment_encoding \<Rightarrow> string" where
  "encoding_name e = (case e of EncBase64 \<Rightarrow> ''base64'' | EncQuotedPrintable \<Rightarrow> ''quoted-printable'' | Enc7bit \<Rightarrow> ''7bit'' | Enc8bit \<Rightarrow> ''8bit'')"

definition attachment_body :: "attachment_encoding \<Rightarrow> string \<Rightarrow> bytes \<Rightarrow> mail_error + bytes" where
  "attachment_body enc name content = (case enc of
     EncBase64 \<Rightarrow> Inr (units_of (wrapBase64 (b64_encode content)))
   | EncQuotedPrintable \<Rightarrow> Inr (encodeQPBytes content)
   | _ \<Rightarrow> (let bad = (if enc = Enc7bit then list_ex (\<lambda>b. 127 < b \<or> b = 0) content else 0 \<in> set content) in
       if bad \<or> long_line content
       then Inl (MimeError (''Attachment '' @ [dquote] @ name @ [dquote] @ '' cannot be sent as '' @ encoding_name enc @ ''; use base64 or quoted-printable''))
       else Inr (normalizeCrlf content)))"

definition cid_value :: "string \<Rightarrow> units" where
  "cid_value c = (let v = sanitizeHeaderValue (units_of c); v1 = (if v \<noteq> [] \<and> hd v = 60 then tl v else v)
     in if v1 \<noteq> [] \<and> last v1 = 62 then butlast v1 else v1)"

definition rfc822_entity :: "(units \<Rightarrow> units) \<Rightarrow> attachment \<Rightarrow> attachment_content \<Rightarrow> entity build" where
  "rfc822_entity nfkd att raw =
     (let filename = sanitizeHeaderValue (units_of (if at_filename att = [] then ''attachment'' else at_filename att))
      in bind (lift_loop (withParams nfkd (units_of ''attachment'') [(units_of ''filename'', Some filename)])) (\<lambda>disp.
           return (Leaf [hdr ''Content-Type'' ''message/rfc822'', (units_of ''Content-Disposition'', disp)] (normalizeCrlf (content_bytes raw)))))"

definition attachmentEntity :: "path_env \<Rightarrow> (units \<Rightarrow> units) \<Rightarrow> path_policy option \<Rightarrow> attachment \<Rightarrow> entity build" where
  "attachmentEntity env nfkd policy att = (case at_rfc822 att of
     Some raw \<Rightarrow> rfc822_entity nfkd att raw
   | None \<Rightarrow>
      (case resolveAttachment env att policy of
         Inl e \<Rightarrow> Some (Inl e)
       | Inr r \<Rightarrow>
          (case ra_contentType r of
             CtInherited \<Rightarrow> Some (Inl (ThrownOther ''TypeError''))
           | CtString t \<Rightarrow>
              bind (lift_mail (checkContentType t)) (\<lambda>ct.
              (let name = sanitizeHeaderValue (units_of (ra_filename r));
                   enc = (case at_encoding att of Some e \<Rightarrow> e | None \<Rightarrow> EncBase64)
               in bind (lift_loop (withParams nfkd (units_of ct) [(units_of ''name'', Some name)])) (\<lambda>ctv.
                  bind (lift_loop (withParams nfkd (units_of (if ra_inline r then ''inline'' else ''attachment'')) [(units_of ''filename'', Some name)])) (\<lambda>cdv.
                  bind (lift_mail (attachment_body enc (latin1 name) (ra_content r))) (\<lambda>body.
                  return (Leaf ([(units_of ''Content-Type'', ctv), (units_of ''Content-Disposition'', cdv)] @
                    (case ra_cid r of Some c \<Rightarrow> if c = [] then [] else [(units_of ''Content-ID'', 60 # cid_value c @ [62])] | None \<Rightarrow> []) @
                    [hdr ''Content-Transfer-Encoding'' (encoding_name enc)]) body)))))))))"

section \<open>Building\<close>

datatype mail_priority = PrioHigh | PrioNormal | PrioLow
datatype references_field = RefText string | RefList "string list"

record message_options =
  mo_from :: addr_field
  mo_fromName :: "string option"
  mo_to :: addr_field
  mo_toName :: "string option"
  mo_cc :: addr_field
  mo_ccName :: "string option"
  mo_bcc :: addr_field
  mo_replyTo :: addr_field
  mo_subject :: "units option"
  mo_text :: "units option"
  mo_html :: "units option"
  mo_attachments :: "attachment list"
  mo_headers :: "(string \<times> units) list"
  mo_priority :: mail_priority
  mo_messageId :: "string option"
  mo_inReplyTo :: "string option"
  mo_references :: "references_field option"
  mo_unsubscribe :: "unsubscribe_options option"
  mo_date :: units
  mo_ical :: "ical_event option"
  mo_amp :: "units option"

text \<open>What the builder takes from outside; mo_date is the formatted date (of the options or of now).\<close>

record build_env =
  be_nfkd :: "units \<Rightarrow> units"
  be_htmlToText :: "units \<Rightarrow> units"
  be_rich :: "message_options \<Rightarrow> mail_error + message_options"
  be_protocol :: "string \<Rightarrow> string option"
  be_paths :: path_env
  be_policy :: "path_policy option"
  be_idToken :: string
  be_boundaryToken :: "nat \<Rightarrow> units"
  be_icalUid :: units
  be_icalStamp :: units

record built_message =
  bm_raw :: bytes
  bm_from :: string
  bm_to :: "string list"
  bm_messageId :: string
  bm_requiresSmtpUtf8 :: bool
  bm_requires8BitMime :: bool

definition truthy :: "'a list option \<Rightarrow> 'a list option" where "truthy x = (if x = Some [] then None else x)"

fun split_ws :: "string \<Rightarrow> string \<Rightarrow> string list" where
  "split_ws cur [] = [cur]"
| "split_ws cur (c # r) =
     (if js_ws c then (if r \<noteq> [] \<and> js_ws (hd r) then split_ws cur r else cur # split_ws [] r) else split_ws (cur @ [c]) r)"

definition reference_list :: "references_field option \<Rightarrow> string list" where
  "reference_list r = filter (\<lambda>s. s \<noteq> []) (case r of None \<Rightarrow> [] | Some (RefText s) \<Rightarrow> split_ws [] s | Some (RefList l) \<Rightarrow> l)"

definition field_list :: "addr_field \<Rightarrow> email_address list" where
  "field_list f = (case f of NoAddr \<Rightarrow> [] | OneAddr a \<Rightarrow> [a] | ManyAddr as \<Rightarrow> as)"

definition has_field :: "addr_field \<Rightarrow> bool" where "has_field f \<longleftrightarrow> f \<noteq> NoAddr \<and> f \<noteq> OneAddr (AddrStr [])"

definition address_headers :: "message_options \<Rightarrow> headers" where
  "address_headers o1 =
     (let fl = parseAddressList (mo_from o1) (mo_fromName o1); tl = parseAddressList (mo_to o1) (mo_toName o1);
          cl = parseAddressList (mo_cc o1) (mo_ccName o1)
      in (if fl \<noteq> [] then [(units_of ''From'', formatAddressList fl)] else []) @
         [(units_of ''To'', formatAddressList tl)] @
         (if cl \<noteq> [] then [(units_of ''Cc'', formatAddressList cl)] else []) @
         (if has_field (mo_replyTo o1) then [(units_of ''Reply-To'', units_join [44, 32] (map formatAddress (field_list (mo_replyTo o1))))] else []))"

definition id_headers :: "string \<Rightarrow> message_options \<Rightarrow> headers build" where
  "id_headers messageId o1 =
     bind (case truthy (mo_inReplyTo o1) of None \<Rightarrow> return []
           | Some i \<Rightarrow> bind (lift_mail (normalizeMsgId i)) (\<lambda>v. return [(units_of ''In-Reply-To'', units_of v)])) (\<lambda>irt.
     bind (bind_all (\<lambda>r. lift_mail (normalizeMsgId r)) (reference_list (mo_references o1))) (\<lambda>refs.
     return ([(units_of ''Subject'', encodeUnstructured (case mo_subject o1 of Some v \<Rightarrow> v | None \<Rightarrow> units_of ''(no subject)'')),
              (units_of ''Date'', mo_date o1), (units_of ''Message-ID'', units_of messageId)] @ irt @
             (if refs \<noteq> [] then [(units_of ''References'', units_of (js_join '' '' refs))] else []) @
             [hdr ''MIME-Version'' ''1.0''])))"

definition priority_headers :: "mail_priority \<Rightarrow> headers" where
  "priority_headers p = (case p of
     PrioHigh \<Rightarrow> [hdr ''X-Priority'' ''1'', hdr ''X-MSMail-Priority'' ''High'', hdr ''Importance'' ''High'']
   | PrioLow \<Rightarrow> [hdr ''X-Priority'' ''5'', hdr ''X-MSMail-Priority'' ''Low'', hdr ''Importance'' ''Low'']
   | PrioNormal \<Rightarrow> [])"

definition custom_header :: "string list \<Rightarrow> string \<times> units \<Rightarrow> (units \<times> units) build" where
  "custom_header reserved kv =
     bind (lift_mail (checkHeaderName (js_trim (fst kv)))) (\<lambda>name.
       if js_lower name \<in> set reserved
       then throw (MimeError (''Header '' @ [dquote] @ name @ [dquote] @ '' is managed by the builder''))
       else return (units_of name, encodeUnstructured (snd kv)))"

definition build_headers :: "build_env \<Rightarrow> string \<Rightarrow> message_options \<Rightarrow> headers build" where
  "build_headers env messageId o1 =
     bind (id_headers messageId o1) (\<lambda>ids.
     bind (case mo_unsubscribe o1 of None \<Rightarrow> return [] | Some u \<Rightarrow> lift_mail (unsubscribeHeaders (be_protocol env) u)) (\<lambda>uns.
     bind (bind_all (custom_header ([''content-type'', ''content-transfer-encoding'', ''mime-version''] @
        (if mo_unsubscribe o1 \<noteq> None then [''list-unsubscribe'', ''list-unsubscribe-post''] else []))) (mo_headers o1)) (\<lambda>custom.
     return (address_headers o1 @ ids @ priority_headers (mo_priority o1) @ uns @ custom))))"

definition content_entity :: "units option \<Rightarrow> units option \<Rightarrow> units option \<Rightarrow> entity option" where
  "content_entity t html amp = (case (truthy t, truthy html) of
     (Some x, Some h) \<Rightarrow> Some (Multi [hdr ''Content-Type'' ''multipart/alternative'']
        ([textEntity ''text/plain'' x] @ (case amp of Some a \<Rightarrow> [textEntity ''text/x-amp-html'' a] | None \<Rightarrow> []) @ [textEntity ''text/html'' h]))
   | (None, Some h) \<Rightarrow> Some (textEntity ''text/html'' h)
   | (Some x, None) \<Rightarrow> Some (textEntity ''text/plain'' x)
   | (None, None) \<Rightarrow> None)"

definition is_inline_att :: "attachment \<Rightarrow> bool" where
  "is_inline_att a \<longleftrightarrow> truthy (at_cid a) \<noteq> None \<and> at_rfc822 a = None"

definition is_8bit :: "entity \<Rightarrow> bool" where
  "is_8bit e = (case e of Leaf hs b \<Rightarrow> hdr ''Content-Transfer-Encoding'' ''8bit'' \<in> set hs | Multi hs cs \<Rightarrow> hdr ''Content-Transfer-Encoding'' ''8bit'' \<in> set hs)"

text \<open>The root entity and whether an attachment of it needs 8BITMIME.\<close>

definition build_root :: "build_env \<Rightarrow> message_options \<Rightarrow> (entity \<times> bool) build" where
  "build_root env o2 =
     (let t = (case mo_text o2 of Some x \<Rightarrow> Some x | None \<Rightarrow> map_option (be_htmlToText env) (truthy (mo_html o2)));
          atts = mo_attachments o2; content0 = content_entity t (mo_html o2) (mo_amp o2);
          build = attachmentEntity (be_paths env) (be_nfkd env) (be_policy env);
          regularAtts = filter (\<lambda>a. \<not> is_inline_att a) atts
      in if truthy t = None \<and> truthy (mo_html o2) = None \<and> atts = [] \<and> mo_ical o2 = None
         then throw (MimeError ''Email must have at least text, html, an attachment or a calendar invite'')
         else if filter is_inline_att atts \<noteq> [] \<and> content0 = None
         then throw (MimeError ''Inline (cid) attachments require an html body'')
         else bind (bind_all build (filter is_inline_att atts)) (\<lambda>inl.
         bind (case mo_ical o2 of None \<Rightarrow> return None
               | Some ev \<Rightarrow> bind (lift_loop (calendarEntity (be_nfkd env) (be_icalUid env) (be_icalStamp env) ev)) (\<lambda>c. return (Some c))) (\<lambda>cal.
         (let content = (case content0 of Some c \<Rightarrow> Some (if inl = [] then c else Multi [hdr ''Content-Type'' ''multipart/related''] (c # inl)) | None \<Rightarrow> None)
          in case (content, cal, regularAtts) of
               (None, Some (part, file), []) \<Rightarrow> return (part, list_ex is_8bit inl)
             | _ \<Rightarrow> bind (bind_all build regularAtts) (\<lambda>reg.
                 (let kids = (case content of Some c \<Rightarrow> [c] | None \<Rightarrow> []) @ reg @ (case cal of Some (part, file) \<Rightarrow> [file] | None \<Rightarrow> []);
                      root = (if length kids = 1 \<and> cal = None \<and> regularAtts = [] then hd kids
                              else Multi [hdr ''Content-Type'' ''multipart/mixed''] kids)
                  in return (root, list_ex is_8bit (inl @ reg))))))))"

definition needsUtf8 :: "string \<Rightarrow> bool" where "needsUtf8 addr \<longleftrightarrow> list_ex (\<lambda>c. 127 < (of_char c :: nat)) addr"

definition buildMessage :: "build_env \<Rightarrow> message_options \<Rightarrow> built_message build" where
  "buildMessage env o1 =
     (let fl = parseAddressList (mo_from o1) (mo_fromName o1); tl = parseAddressList (mo_to o1) (mo_toName o1);
          cl = parseAddressList (mo_cc o1) (mo_ccName o1)
      in if tl = [] then throw (MimeError ''At least one recipient (to) is required'')
         else bind (lift_mail (check_all (map pa_email (fl @ tl @ cl @ parseAddressList (mo_bcc o1) None)))) (\<lambda>_.
         bind (lift_mail (check_all (if has_field (mo_replyTo o1) then extractEmails (ManyAddr (field_list (mo_replyTo o1))) else []))) (\<lambda>_.
         (let envelopeFrom = (case fl of [] \<Rightarrow> [] | f # _ \<Rightarrow> pa_email f);
              envelopeTo = dedupe (extractEmails (mo_to o1) @ extractEmails (mo_cc o1) @ extractEmails (mo_bcc o1))
          in bind (case truthy (mo_messageId o1) of Some i \<Rightarrow> lift_mail (normalizeMsgId i)
                   | None \<Rightarrow> return (generateMessageId (be_idToken env) envelopeFrom)) (\<lambda>messageId.
             bind (build_headers env messageId o1) (\<lambda>headers.
             bind (lift_mail (be_rich env o1)) (\<lambda>o2.
             bind (build_root env o2) (\<lambda>(root, bit8).
             return \<lparr> bm_raw = serializeHeaders headers @ fst (serializeEntity (be_boundaryToken env) 0 root),
               bm_from = envelopeFrom, bm_to = envelopeTo, bm_messageId = messageId,
               bm_requiresSmtpUtf8 = list_ex needsUtf8 (envelopeFrom # envelopeTo @ map pa_email tl @ map pa_email cl),
               bm_requires8BitMime = bit8 \<rparr>))))))))"

end
