(* ===== verification/MimeTree.thy ===== *)
theory MimeTree
  imports MimeParser
begin

text \<open>
  The tree of parts of src/src/core/MimeParser.ts (parseMime, splitMultipart) with its limits, and the view of
  a message as bodies and attachments (parseMessage, collectBody).  The mutable parse context is passed
  along; the depth argument is the nesting still allowed, maxDepth minus the depth of the code.
\<close>

section \<open>Splitting\<close>

fun blank_line :: "units \<Rightarrow> (units \<times> units) option" where
  "blank_line [] = None"
| "blank_line (c # r) =
     (let s = c # r; e1 = (if c = 10 then Some r else if take 2 s = [13, 10] then Some (drop 2 s) else None);
          e2 = (case e1 of None \<Rightarrow> None
                | Some t \<Rightarrow> if t \<noteq> [] \<and> hd t = 10 then Some (tl t) else if take 2 t = [13, 10] then Some (drop 2 t) else None)
      in case e2 of Some t \<Rightarrow> Some ([], t) | None \<Rightarrow> map_option (\<lambda>(h, t). (c # h, t)) (blank_line r))"

definition splitHeadBody :: "units \<Rightarrow> units \<times> units" where
  "splitHeadBody s =
     (if take 2 s = [13, 10] then ([], drop 2 s)
      else if take 1 s = [10] then ([], drop 1 s)
      else case blank_line s of Some (h, b) \<Rightarrow> (h, b) | None \<Rightarrow> (s, []))"

text \<open>body.indexOf(p, pos).\<close>

function index_from :: "units \<Rightarrow> units \<Rightarrow> nat \<Rightarrow> nat option" where
  "index_from p s pos =
     (if length s < pos + length p then None
      else if take (length p) (drop pos s) = p then Some pos else index_from p s (pos + 1))"
  by pat_completeness auto
termination by (relation "measure (\<lambda>(p, s, pos). length s + 1 - (pos + length p))") auto

declare index_from.simps [simp del]

lemma index_from_some: "index_from p s pos = Some i \<Longrightarrow> pos \<le> i \<and> i + length p \<le> length s \<and> take (length p) (drop i s) = p"
  by (induction p s pos rule: index_from.induct) (subst (asm) (2) index_from.simps, force split: if_splits)

text \<open>The delimiter line at or after pos: its index and the start of its text.\<close>

definition next_delim :: "units \<Rightarrow> units \<Rightarrow> nat \<Rightarrow> nat option" where
  "next_delim body delim pos = (if pos = 0 \<and> has_prefix delim body then Some 0 else index_from (10 # delim) body pos)"

definition line_start :: "units \<Rightarrow> nat \<Rightarrow> nat" where
  "line_start body i = (if i < length body \<and> body ! i = 10 then i + 1 else i)"

definition eol_from :: "units \<Rightarrow> nat \<Rightarrow> nat" where
  "eol_from body i = i + length (takeWhile (\<lambda>u. u \<noteq> 10) (drop i body))"

definition strip_cr :: "units \<Rightarrow> units" where "strip_cr s = (if s \<noteq> [] \<and> last s = 13 then butlast s else s)"

definition part_end :: "units \<Rightarrow> nat \<Rightarrow> nat" where
  "part_end body i = (let e = (if line_start body i = 0 then 0 else i) in if 0 < e \<and> body ! (e - 1) = 13 then e - 1 else e)"

definition slice :: "units \<Rightarrow> nat \<Rightarrow> nat \<Rightarrow> units" where "slice s a b = take (b - a) (drop a s)"

lemma take_drop_Cons:
  assumes "take (Suc n) (drop i s) = c # t" "i < length s"
  shows "s ! i = c" "take n (drop (Suc i) s) = t"
  using assms Cons_nth_drop_Suc[of i s, symmetric] by simp_all

lemma next_delim_bounds:
  assumes "next_delim body (45 # d) pos = Some i"
  shows "pos \<le> i" "pos < line_start body i + length (45 # d)" "line_start body i + length (45 # d) \<le> length body"
    "take (length (45 # d)) (drop (line_start body i) body) = 45 # d"
proof -
  have "pos \<le> i \<and> line_start body i + length (45 # d) \<le> length body \<and> take (length (45 # d)) (drop (line_start body i) body) = 45 # d"
  proof (cases "pos = 0 \<and> has_prefix (45 # d) body")
    case True
    then have t: "i = 0" "take (length (45 # d)) body = 45 # d" using assms(1) by (auto simp: next_delim_def has_prefix_def)
    then have l: "length (45 # d) \<le> length body" by (metis length_take min.cobounded1)
    moreover have "body ! 0 = 45" using t(2) by (cases body) auto
    ultimately show ?thesis using True t by (simp add: line_start_def)
  next
    case False
    then have s: "index_from (10 # 45 # d) body pos = Some i" using assms(1) by (auto simp: next_delim_def split: if_splits)
    have b: "pos \<le> i" "i + Suc (Suc (length d)) \<le> length body" "take (Suc (Suc (length d))) (drop i body) = 10 # 45 # d"
      using index_from_some[OF s] by simp_all
    then have "body ! i = 10" "take (Suc (length d)) (drop (Suc i) body) = 45 # d"
      using take_drop_Cons[OF b(3)] by simp_all
    then show ?thesis using b by (simp add: line_start_def)
  qed
  then show "pos \<le> i" "pos < line_start body i + length (45 # d)" "line_start body i + length (45 # d) \<le> length body"
    "take (length (45 # d)) (drop (line_start body i) body) = 45 # d"
    by (auto simp: line_start_def)
qed

lemma eol_from_bounds: "i \<le> eol_from s i" "i \<le> length s \<Longrightarrow> eol_from s i \<le> length s"
  using length_takeWhile_le[of "\<lambda>u. u \<noteq> 10" "drop i s"] by (simp_all add: eol_from_def)

text \<open>The loop over the delimiters; partStart is None before the first one.  A delimiter starts with two dashes,
  so every turn moves pos on.\<close>

function split_from :: "units \<Rightarrow> units \<Rightarrow> nat option \<Rightarrow> nat \<Rightarrow> units list" where
  "split_from body boundary partStart pos =
     (let delim = 45 # 45 # boundary in
      case next_delim body delim pos of
        None \<Rightarrow> (case partStart of Some a \<Rightarrow> [drop a body] | None \<Rightarrow> [])
      | Some idx \<Rightarrow>
          (let after = line_start body idx + length delim;
               isClose = has_prefix [45, 45] (drop after body);
               eol = eol_from body after;
               tail = strip_cr (slice body (after + (if isClose then 2 else 0)) eol);
               found = (case partStart of Some a \<Rightarrow> [slice body a (max a (part_end body idx))] | None \<Rightarrow> [])
           in if units_trim tail \<noteq> [] then split_from body boundary partStart after
              else if isClose then found
              else found @ split_from body boundary (Some (min (eol + 1) (length body))) eol))"
  by pat_completeness auto

termination
proof (relation "measure (\<lambda>(body, b, p, pos). Suc (length body) - pos)", goal_cases)
  case (2 body b p pos d i after c e t f)
  then show ?case using next_delim_bounds[of body "45 # b" pos i] by auto
next
  case (3 body b p pos d i after c e t f)
  then have "pos < after" "after \<le> length body" using next_delim_bounds[of body "45 # b" pos i] by auto
  moreover have "after \<le> e" "e \<le> length body" using 3 eol_from_bounds[where s = body and i = after] \<open>after \<le> length body\<close> by auto
  ultimately show ?case by auto
qed simp

declare split_from.simps [simp del]

definition splitMultipart :: "units \<Rightarrow> units \<Rightarrow> units list" where
  "splitMultipart body boundary = split_from body boundary None 0"

section \<open>The tree\<close>

datatype mime_part = MimePart (mp_headers: mime_headers) (mp_contentType: units) (mp_params: "(units, units) jsmap")
  (mp_disposition: "units option") (mp_dispositionParams: "(units, units) jsmap") (mp_encoding: units) (mp_rawBody: units)
  (mp_parts: "mime_part list option") (mp_message: "mime_part option")

record mime_limits =
  ml_maxDepth :: nat
  ml_maxParts :: nat
  ml_maxHeaderBytes :: nat

definition default_mime_limits :: mime_limits where
  "default_mime_limits = \<lparr> ml_maxDepth = 32, ml_maxParts = 1000, ml_maxHeaderBytes = 256 * 1024 \<rparr>"

record parse_context =
  pc_parts :: nat
  pc_truncated :: bool

definition part_head :: "text_decoders \<Rightarrow> mime_limits \<Rightarrow> units \<Rightarrow> units \<Rightarrow> mime_part" where
  "part_head td lim s defaultType =
     (let (head, body) = splitHeadBody s;
          headers = MimeHeaders (take (ml_maxHeaderBytes lim) head);
          ct = parseHeaderValue td (header_raw headers ''content-type'');
          cd = parseHeaderValue td (header_raw headers ''content-disposition'');
          contentType = (if hv_value ct \<noteq> [] \<and> 47 \<in> set (hv_value ct) then hv_value ct else defaultType)
      in MimePart headers contentType (hv_params ct) (some_name (hv_value cd)) (hv_params cd)
           (units_lower (units_trim (case header_raw headers ''content-transfer-encoding'' of Some e \<Rightarrow> e | None \<Rightarrow> units_of ''7bit'')))
           body None None)"

definition head_context :: "mime_limits \<Rightarrow> units \<Rightarrow> parse_context \<Rightarrow> parse_context" where
  "head_context lim s c = c \<lparr> pc_parts := pc_parts c + 1,
     pc_truncated := pc_truncated c \<or> ml_maxHeaderBytes lim < length (fst (splitHeadBody s)) \<rparr>"

definition truncate :: "parse_context \<Rightarrow> parse_context" where "truncate c = c \<lparr> pc_truncated := True \<rparr>"

definition is_multipart :: "units \<Rightarrow> bool" where "is_multipart ct \<longleftrightarrow> has_prefix (units_of ''multipart/'') ct"
definition is_message :: "units \<Rightarrow> bool" where
  "is_message ct \<longleftrightarrow> ct = units_of ''message/rfc822'' \<or> ct = units_of ''message/global''"

definition boundary_of :: "mime_part \<Rightarrow> units" where
  "boundary_of p = (case map_of (mp_params p) (units_of ''boundary'') of Some b \<Rightarrow> b | None \<Rightarrow> [])"

definition inner_message :: "mime_part \<Rightarrow> units" where
  "inner_message p =
     (if mp_encoding p = units_of ''base64'' \<or> mp_encoding p = units_of ''quoted-printable''
      then decodeTransfer (mp_rawBody p) (mp_encoding p) else mp_rawBody p)"

definition child_default :: "units \<Rightarrow> units" where
  "child_default ct = (if ct = units_of ''multipart/digest'' then units_of ''message/rfc822'' else units_of ''text/plain'')"

definition with_parts :: "mime_part list option \<Rightarrow> mime_part option \<Rightarrow> mime_part \<Rightarrow> mime_part" where
  "with_parts ps m p = MimePart (mp_headers p) (mp_contentType p) (mp_params p) (mp_disposition p) (mp_dispositionParams p)
     (mp_encoding p) (mp_rawBody p) ps m"

function (sequential) parseMime :: "text_decoders \<Rightarrow> mime_limits \<Rightarrow> nat \<Rightarrow> units \<Rightarrow> units \<Rightarrow> parse_context \<Rightarrow> mime_part \<times> parse_context"
  and parseParts :: "text_decoders \<Rightarrow> mime_limits \<Rightarrow> nat \<Rightarrow> units list \<Rightarrow> units \<Rightarrow> parse_context \<Rightarrow> mime_part list \<times> parse_context" where
  "parseMime td lim depthLeft s defaultType c =
     (let part = part_head td lim s defaultType; c1 = head_context lim s c; ct = mp_contentType part in
      case depthLeft of
        0 \<Rightarrow> (part, if is_multipart ct \<or> is_message ct then truncate c1 else c1)
      | Suc d \<Rightarrow>
          (if is_multipart ct \<and> boundary_of part \<noteq> [] then
             (let (ps, c2) = parseParts td lim d (splitMultipart (mp_rawBody part) (boundary_of part)) (child_default ct) c1
              in (with_parts (Some ps) None part, c2))
           else if is_message ct then
             (if ml_maxParts lim \<le> pc_parts c1 then (part, truncate c1)
              else (let (m, c2) = parseMime td lim d (inner_message part) (units_of ''text/plain'') c1
                    in (with_parts None (Some m) part, c2)))
           else (part, c1)))"
| "parseParts td lim d [] defaultType c = ([], c)"
| "parseParts td lim d (s # ss) defaultType c =
     (if ml_maxParts lim \<le> pc_parts c then ([], truncate c)
      else (let (p, c1) = parseMime td lim d s defaultType c; (ps, c2) = parseParts td lim d ss defaultType c1 in (p # ps, c2)))"
  by pat_completeness auto
termination
  by (relation "measures [\<lambda>x. case x of Inl (td, lim, d, s, t, c) \<Rightarrow> d | Inr (td, lim, d, ss, t, c) \<Rightarrow> d,
    \<lambda>x. case x of Inl _ \<Rightarrow> 0 | Inr (td, lim, d, ss, t, c) \<Rightarrow> 1 + length ss]") auto

declare parseMime.simps [simp del]

section \<open>The message view\<close>

record imap_envelope =
  env_date :: "int option"
  env_subject :: units
  env_from :: "mail_address list"
  env_sender :: "mail_address list"
  env_replyTo :: "mail_address list"
  env_to :: "mail_address list"
  env_cc :: "mail_address list"
  env_bcc :: "mail_address list"
  env_inReplyTo :: "units option"
  env_messageId :: "units option"
  env_references :: "units list"

text \<open>new Date(text) is a parameter: the time in milliseconds, None for an invalid date.\<close>

definition trim_or_none :: "units option \<Rightarrow> units option" where
  "trim_or_none v = (case v of None \<Rightarrow> None | Some s \<Rightarrow> some_name (units_trim s))"

definition envelopeFromHeaders :: "text_decoders \<Rightarrow> (units \<Rightarrow> int option) \<Rightarrow> mime_headers \<Rightarrow> imap_envelope" where
  "envelopeFromHeaders td parseDate h =
     \<lparr> env_date = (case header_raw h ''date'' of Some d \<Rightarrow> if d = [] then None else parseDate d | None \<Rightarrow> None),
       env_subject = (case header_get td h ''subject'' of Some v \<Rightarrow> v | None \<Rightarrow> []),
       env_from = parseAddressHeader td (header_raw h ''from''),
       env_sender = parseAddressHeader td (header_raw h ''sender''),
       env_replyTo = parseAddressHeader td (header_raw h ''reply-to''),
       env_to = parseAddressHeader td (header_raw h ''to''),
       env_cc = parseAddressHeader td (header_raw h ''cc''),
       env_bcc = parseAddressHeader td (header_raw h ''bcc''),
       env_inReplyTo = trim_or_none (header_raw h ''in-reply-to''),
       env_messageId = trim_or_none (header_raw h ''message-id''),
       env_references = parseMessageIds (header_raw h ''references'') \<rparr>"

datatype imap_attachment = ImapAttachment (ia_filename: units) (ia_contentType: units) (ia_size: nat) (ia_content: bytes)
    (ia_contentId: "units option") (ia_inline: bool) (ia_nested: "(imap_envelope \<times> parsed_body) option")
  and parsed_body = ParsedBody (pb_text: "units option") (pb_html: "units option") (pb_attachments: "imap_attachment list")

definition partContent :: "mime_part \<Rightarrow> bytes" where "partContent p = decodeTransfer (mp_rawBody p) (mp_encoding p)"

definition partText :: "text_decoders \<Rightarrow> mime_part \<Rightarrow> units" where
  "partText td p = decodeText td (partContent p) (map_of (mp_params p) (units_of ''charset''))"

definition partFilename :: "mime_part \<Rightarrow> units option" where
  "partFilename p = (case map_of (mp_dispositionParams p) (units_of ''filename'') of
     Some f \<Rightarrow> Some f | None \<Rightarrow> map_of (mp_params p) (units_of ''name''))"

definition strip_angles :: "units \<Rightarrow> units" where
  "strip_angles s = (let s1 = (if s \<noteq> [] \<and> hd s = 60 then tl s else s) in if s1 \<noteq> [] \<and> last s1 = 62 then butlast s1 else s1)"

definition part_cid :: "mime_part \<Rightarrow> units option" where
  "part_cid p = (case header_raw (mp_headers p) ''content-id'' of
     Some c \<Rightarrow> if c = [] then None else Some (strip_angles (units_trim c)) | None \<Rightarrow> None)"

definition add_attachment :: "imap_attachment \<Rightarrow> parsed_body \<Rightarrow> parsed_body" where
  "add_attachment a out = ParsedBody (pb_text out) (pb_html out) (pb_attachments out @ [a])"

definition is_inline :: "mime_part \<Rightarrow> bool" where "is_inline p \<longleftrightarrow> mp_disposition p = Some (units_of ''inline'')"

text \<open>The end of walk, for a part without children: a text or html body, or an attachment.\<close>

definition walk_leaf :: "text_decoders \<Rightarrow> mime_part \<Rightarrow> bool \<Rightarrow> parsed_body \<Rightarrow> parsed_body" where
  "walk_leaf td p isRoot out =
     (let ct = mp_contentType p; filename = partFilename p; cid = part_cid p;
          isPlain = (ct = units_of ''text/plain''); isText = (isPlain \<or> ct = units_of ''text/html'');
          explicit = (mp_disposition p = Some (units_of ''attachment''));
          namedInline = (is_inline p \<and> (filename \<noteq> None \<or> cid \<noteq> None) \<and> \<not> isText);
          body = (if isPlain then pb_text out else pb_html out)
      in if isText \<and> \<not> explicit \<and> body = None then
           (let t = units_rtrim (partText td p) in
            if units_trim t \<noteq> [] \<or> isRoot
            then (if isPlain then ParsedBody (Some t) (pb_html out) (pb_attachments out)
                  else ParsedBody (pb_text out) (Some t) (pb_attachments out))
            else out)
         else if \<not> explicit \<and> \<not> namedInline \<and> is_inline p \<and> isText then out
         else add_attachment (ImapAttachment
                (case filename of Some f \<Rightarrow> f | None \<Rightarrow> if namedInline \<or> is_inline p then units_of ''inline'' else units_of ''attachment'')
                ct (length (partContent p)) (partContent p) cid (is_inline p) None) out)"

definition nested_name :: "text_decoders \<Rightarrow> mime_part \<Rightarrow> units" where
  "nested_name td p = (case partFilename p of Some f \<Rightarrow> f
     | None \<Rightarrow> (case header_get td (mp_headers p) ''content-description'' of Some d \<Rightarrow> d | None \<Rightarrow> units_of ''forwarded-message.eml''))"

definition empty_body :: parsed_body where "empty_body = ParsedBody None None []"

fun walk :: "text_decoders \<Rightarrow> (units \<Rightarrow> int option) \<Rightarrow> mime_part \<Rightarrow> bool \<Rightarrow> parsed_body \<Rightarrow> parsed_body"
  and walk_all :: "text_decoders \<Rightarrow> (units \<Rightarrow> int option) \<Rightarrow> mime_part list \<Rightarrow> parsed_body \<Rightarrow> parsed_body" where
  "walk td pd (MimePart hs ct prm disp dprm enc raw (Some ps) m) isRoot out = walk_all td pd ps out"
| "walk td pd (MimePart hs ct prm disp dprm enc raw None None) isRoot out =
     walk_leaf td (MimePart hs ct prm disp dprm enc raw None None) isRoot out"
| "walk td pd (MimePart hs ct prm disp dprm enc raw None (Some m)) isRoot out =
     (let p = MimePart hs ct prm disp dprm enc raw None (Some m) in
      if isRoot then walk_leaf td p isRoot out
      else add_attachment (ImapAttachment (nested_name td p) ct (length raw) raw (part_cid p) (is_inline p)
             (Some (envelopeFromHeaders td pd (mp_headers m), walk td pd m True empty_body))) out)"
| "walk_all td pd [] out = out"
| "walk_all td pd (p # ps) out = walk_all td pd ps (walk td pd p False out)"

definition collectBody :: "text_decoders \<Rightarrow> (units \<Rightarrow> int option) \<Rightarrow> mime_part \<Rightarrow> parsed_body" where
  "collectBody td pd root = walk td pd root True empty_body"

record parsed_message =
  pm_truncated :: bool
  pm_headers :: mime_headers
  pm_envelope :: imap_envelope
  pm_references :: "units list"
  pm_root :: mime_part
  pm_body :: parsed_body

definition parseMessage :: "text_decoders \<Rightarrow> (units \<Rightarrow> int option) \<Rightarrow> mime_limits \<Rightarrow> units \<Rightarrow> parsed_message" where
  "parseMessage td pd lim raw =
     (let (root, c) = parseMime td lim (ml_maxDepth lim) raw (units_of ''text/plain'') \<lparr> pc_parts = 0, pc_truncated = False \<rparr>
      in \<lparr> pm_truncated = pc_truncated c, pm_headers = mp_headers root,
           pm_envelope = envelopeFromHeaders td pd (mp_headers root),
           pm_references = parseMessageIds (header_raw (mp_headers root) ''references''),
           pm_root = root, pm_body = collectBody td pd root \<rparr>)"

end
