(* ===== verification/HeaderBlock.thy ===== *)
theory HeaderBlock
  imports Message MimeTree
begin

text \<open>
  The builder's header blocks against the parser's: what serializeHeaders writes, splitHeadBody and
  MimeHeaders read back header by header, so no value can add, end or hide a header.
\<close>

section \<open>Runs of spaces\<close>

text \<open>What a folded value unfolds to: every run of spaces is one space.\<close>

definition collapse :: "units \<Rightarrow> units" where "collapse v = units_join [32] (split_spaces v)"

definition shown :: "units \<Rightarrow> units \<Rightarrow> units" where
  "shown n v = (if length n + 2 + length v \<le> 78 then v else collapse v)"

fun double_space :: "units \<Rightarrow> bool" where
  "double_space (a # b # r) = ((a = 32 \<and> b = 32) \<or> double_space (b # r))"
| "double_space _ = False"

lemma split_spaces_nonempty: "split_spaces v \<noteq> []"
  by (cases v) (auto split: list.splits)

lemma join_cons: "units_join [32] (t # ts) = t @ concat (map (\<lambda>t. 32 # t) ts)"
  by (induction ts arbitrary: t) simp_all

lemma collapse_Cons:
  "collapse (u # r) = u # collapse (if u = 32 then dropWhile (\<lambda>x. x = 32) r else r)"
proof -
  obtain p q where pq: "split_spaces r = p # q" using split_spaces_nonempty[of r] by (cases "split_spaces r") auto
  obtain p2 q2 where pq2: "split_spaces (dropWhile (\<lambda>x. x = 32) r) = p2 # q2"
    using split_spaces_nonempty[of "dropWhile (\<lambda>x. x = 32) r"] by (cases "split_spaces (dropWhile (\<lambda>x. x = 32) r)") auto
  show ?thesis using pq pq2 by (simp add: collapse_def join_cons)
qed

lemma collapse_nil: "collapse [] = []" by (simp add: collapse_def)

lemma collapse_id: "\<not> double_space v \<Longrightarrow> collapse v = v"
proof (induction v)
  case (Cons u r)
  then have d: "\<not> double_space r" by (cases r) auto
  have "dropWhile (\<lambda>x. x = 32) r = r" if "u = 32" using Cons.prems that by (cases r) auto
  then show ?case using Cons.IH[OF d] by (simp add: collapse_Cons)
qed (simp add: collapse_nil)

lemma collapse_set: "set (collapse v) \<subseteq> set v"
proof (induction v rule: split_spaces.induct)
  case (2 u r)
  have "set (dropWhile (\<lambda>x. x = 32) r) \<subseteq> set r" using set_dropWhileD by fast
  then show ?case using 2 by (cases "u = 32") (auto simp: collapse_Cons)
qed (simp add: collapse_nil)

lemma last_dropWhile: "dropWhile P xs \<noteq> [] \<Longrightarrow> last (dropWhile P xs) = last xs"
  by (induction xs) (auto split: if_splits)

lemma collapse_ends: "v \<noteq> [] \<Longrightarrow> last v \<noteq> 32 \<Longrightarrow> collapse v \<noteq> [] \<and> hd (collapse v) = hd v \<and> last (collapse v) = last v"
proof (induction v rule: split_spaces.induct)
  case (2 u r)
  show ?case
  proof (cases "r = []")
    case True
    then show ?thesis by (simp add: collapse_Cons collapse_nil)
  next
    case False
    let ?w = "if u = 32 then dropWhile (\<lambda>x. x = 32) r else r"
    have "last r \<noteq> 32" using False 2 by simp
    then have ne: "dropWhile (\<lambda>x. x = 32) r \<noteq> []" using last_in_set[OF False] by (auto simp: dropWhile_eq_Nil_conv)
    have "last (dropWhile (\<lambda>x. x = 32) r) = last r" by (rule last_dropWhile[OF ne])
    note this ne
    then have "collapse ?w \<noteq> [] \<and> last (collapse ?w) = last r" using 2 False by (cases "u = 32") simp_all
    then show ?thesis using False by (simp add: collapse_Cons)
  qed
qed simp

section \<open>Unfolding\<close>

definition no_break :: "units \<Rightarrow> bool" where "no_break s \<longleftrightarrow> 10 \<notin> set s \<and> 13 \<notin> set s"

lemma unfold_plain: "no_break x \<Longrightarrow> unfold_block (x @ s) = x @ unfold_block s"
  by (induction x) (auto simp: no_break_def)

lemma unfold_crlf: "unfold_block (13 # 10 # s) = (if starts_hws s then unfold_block s else 13 # 10 # unfold_block s)"
  by (simp add: starts_hws_def hws_def)

lemma unfold_tokens:
  "\<forall>t\<in>set ts. no_break t \<Longrightarrow> unfold_block (fold_tokens col ts @ s) = concat (map (\<lambda>t. 32 # t) ts) @ unfold_block s"
proof (induction col ts rule: fold_tokens.induct)
  case (2 col t ts)
  have "unfold_block (32 # w) = 32 # unfold_block w" for w by simp
  then show ?case using 2 by (simp add: unfold_crlf unfold_plain starts_hws_def hws_def)
qed simp

lemma split_spaces_parts: "t \<in> set (split_spaces v) \<Longrightarrow> set t \<subseteq> set v"
proof (induction v arbitrary: t rule: split_spaces.induct)
  case (2 u r)
  obtain p q where pq: "split_spaces r = p # q" using split_spaces_nonempty[of r] by (cases "split_spaces r") auto
  have "set (dropWhile (\<lambda>x. x = 32) r) \<subseteq> set r" using set_dropWhileD by fast
  then show ?case using 2 pq by (cases "u = 32") (auto, blast+)
qed simp

lemma unfold_header:
  assumes "no_break n" "no_break v"
  shows "unfold_block (foldHeader n v @ s) = n @ [58, 32] @ shown n v @ unfold_block s"
proof -
  obtain t ts where ts: "split_spaces v = t # ts" using split_spaces_nonempty[of v] by (cases "split_spaces v") auto
  have p: "\<forall>t\<in>set (split_spaces v). no_break t" using split_spaces_parts assms(2) by (fastforce simp: no_break_def)
  have "no_break (n @ [58, 32])" using assms(1) by (simp add: no_break_def)
  then have h: "unfold_block ((n @ [58, 32]) @ w) = (n @ [58, 32]) @ unfold_block w" for w by (rule unfold_plain)
  show ?thesis
  proof (cases "length n + 2 + length v \<le> 78")
    case True
    then show ?thesis using h[of "v @ s"] unfold_plain[OF assms(2), of s] by (simp add: foldHeader_def shown_def Let_def)
  next
    case False
    then have "foldHeader n v @ s = (n @ [58, 32]) @ t @ fold_tokens (length n + 2 + length t) ts @ s"
      by (simp add: foldHeader_def ts Let_def)
    moreover have "unfold_block (t @ fold_tokens (length n + 2 + length t) ts @ s) = t @ concat (map (\<lambda>t. 32 # t) ts) @ unfold_block s"
      using p ts unfold_plain unfold_tokens by simp
    moreover have "shown n v = t @ concat (map (\<lambda>t. 32 # t) ts)" using False by (simp add: shown_def collapse_def ts join_cons)
    ultimately show ?thesis using h by (simp only: append.assoc) 
  qed
qed

section \<open>Blocks\<close>

text \<open>A header the builder may write: a valid name and a clean value.\<close>

definition header_ok :: "units \<times> units \<Rightarrow> bool" where
  "header_ok nv \<longleftrightarrow> fst nv \<noteq> [] \<and> list_all (\<lambda>u. 33 \<le> u \<and> u \<le> 126 \<and> u \<noteq> 58) (fst nv) \<and> clean_value (snd nv)"

definition header_text :: "headers \<Rightarrow> units" where "header_text hs = units_join ucrlf (map (\<lambda>(k, v). foldHeader k v) hs)"

definition shown_headers :: "headers \<Rightarrow> headers" where "shown_headers hs = map (\<lambda>(n, v). (n, shown n v)) hs"

lemma header_ok_parts:
  assumes "header_ok (n, v)"
  shows "no_break n" "no_break v" "n \<noteq> []" "58 \<notin> set n" "\<not> units_ws (hd n)" "\<not> units_ws (last n)" "trimmed v"
    "\<forall>u\<in>set n \<union> set v. u < 128"
proof -
  have n: "\<forall>u\<in>set n. 33 \<le> u \<and> u \<le> 126 \<and> u \<noteq> 58" "n \<noteq> []" and v: "\<forall>u\<in>set v. clean_unit u" "trimmed v"
    using assms by (auto simp: header_ok_def clean_value_def list_all_iff)
  show "no_break n" using n(1) by (fastforce simp: no_break_def)
  show "no_break v" using v(1) by (fastforce simp: no_break_def clean_unit_def)
  show "\<forall>u\<in>set n \<union> set v. u < 128" using n(1) v(1) by (fastforce simp: clean_unit_def)
  have "33 \<le> hd n \<and> hd n \<le> 126" "33 \<le> last n \<and> last n \<le> 126" using n hd_in_set last_in_set by blast+
  then show "\<not> units_ws (hd n)" "\<not> units_ws (last n)" by (auto simp: units_ws_def)
  show "58 \<notin> set n" using n(1) by auto
  show "n \<noteq> []" "trimmed v" by fact+
qed

text \<open>Text whose every line break is CR LF and followed by something else than a line break.\<close>

fun broken_ok :: "units \<Rightarrow> bool" where
  "broken_ok [] = True"
| "broken_ok (c # r) =
     (if c = 13 then (case r of d # e # q \<Rightarrow> d = 10 \<and> e \<noteq> 10 \<and> e \<noteq> 13 | _ \<Rightarrow> False) \<and> broken_ok (tl r)
      else c \<noteq> 10 \<and> broken_ok r)"

lemma blank_line_found: "broken_ok h \<Longrightarrow> blank_line (h @ [13, 10, 13, 10] @ body) = Some (h, body)"
proof (induction h rule: broken_ok.induct)
  case (2 c r)
  show ?case
  proof (cases "c = 13")
    case True
    then obtain e q where r: "r = 10 # e # q" "e \<noteq> 10" "e \<noteq> 13" using 2 by (auto split: list.splits)
    have 1: "blank_line (e # q @ [13, 10, 13, 10] @ body) = Some (e # q, body)" using 2 True r by simp
    have 3: "blank_line (10 # e # w) = map_option (\<lambda>(h, t). (10 # h, t)) (blank_line (e # w))" for w using r by (subst blank_line.simps) simp
    have 4: "blank_line (13 # 10 # e # w) = map_option (\<lambda>(h, t). (13 # h, t)) (blank_line (10 # e # w))" for w using r by (subst blank_line.simps) simp
    show ?thesis using 1 by (simp add: True r 3 4 del: blank_line.simps)
  next
    case False
    then have "c \<noteq> 10" using 2 by simp
    then have "blank_line (c # w) = map_option (\<lambda>(h, t). (c # h, t)) (blank_line w)" for w using False by (subst blank_line.simps) simp
    then show ?thesis using 2 False by (simp del: blank_line.simps)
  qed
qed (simp add: Let_def)

lemma broken_plain: "no_break x \<Longrightarrow> broken_ok (x @ s) = broken_ok s"
  by (induction x) (auto simp: no_break_def)

lemma broken_crlf: "broken_ok (13 # 10 # c # s) = (c \<noteq> 10 \<and> c \<noteq> 13 \<and> broken_ok (c # s))" 
  by simp

lemma broken_tokens: "\<forall>t\<in>set ts. no_break t \<Longrightarrow> broken_ok (fold_tokens col ts @ s) = broken_ok s"
  by (induction col ts rule: fold_tokens.induct) (simp_all add: broken_plain)

lemma broken_header:
  assumes "header_ok (n, v)"
  shows "broken_ok (foldHeader n v @ s) = broken_ok s"
proof -
  note p = header_ok_parts[OF assms]
  obtain t ts where ts: "split_spaces v = t # ts" using split_spaces_nonempty[of v] by (cases "split_spaces v") auto
  have q: "\<forall>t\<in>set (split_spaces v). no_break t" using split_spaces_parts p(2) by (fastforce simp: no_break_def)
  have "no_break (n @ [58, 32])" using p(1) by (simp add: no_break_def)
  from broken_plain[OF this] have h: "broken_ok (n @ 58 # 32 # w) = broken_ok w" for w by simp
  show ?thesis
    using q ts broken_plain[OF p(2)] by (simp add: foldHeader_def Let_def h broken_plain broken_tokens)
qed

lemma fold_starts:
  assumes "header_ok (n, v)"
  shows "\<exists>c w. foldHeader n v = c # w \<and> c \<noteq> 10 \<and> c \<noteq> 13 \<and> \<not> hws c"
proof -
  note p = header_ok_parts[OF assms]
  obtain c m where n: "n = c # m" using p(3) by (cases n) auto
  have "\<not> hws c" "c \<noteq> 10" "c \<noteq> 13" using p(1,5) n by (auto simp: no_break_def hws_def units_ws_def)
  moreover have "\<exists>w. foldHeader n v = c # w" by (simp add: foldHeader_def Let_def n split: list.splits)
  ultimately show ?thesis by blast
qed

lemma header_text_Cons: "header_text ((n, v) # hs) = foldHeader n v @ (if hs = [] then [] else 13 # 10 # header_text hs)"
  by (cases hs) (simp_all add: header_text_def ucrlf_def)

lemma header_text_starts: "list_all header_ok hs \<Longrightarrow> hs \<noteq> [] \<Longrightarrow> \<exists>c w. header_text hs = c # w \<and> c \<noteq> 10 \<and> c \<noteq> 13 \<and> \<not> hws c"
proof (cases hs)
  case (Cons h r)
  obtain n v where "h = (n, v)" by fastforce
  then show ?thesis if "list_all header_ok hs" using that Cons fold_starts[of n v] by (auto simp: header_text_Cons)
qed simp

lemma broken_text: "list_all header_ok hs \<Longrightarrow> broken_ok (header_text hs)"
proof (induction hs)
  case (Cons h hs)
  obtain n v where h: "h = (n, v)" by fastforce
  show ?case
  proof (cases "hs = []")
    case True
    then show ?thesis using Cons.prems broken_header[of n v "[]"] by (simp add: h header_text_Cons)
  next
    case False
    obtain c w where c: "header_text hs = c # w" "c \<noteq> 10" "c \<noteq> 13" using header_text_starts[of hs] Cons.prems False by auto
    have "broken_ok (13 # 10 # header_text hs)" using Cons c by (simp only: c(1) broken_crlf) simp
    then show ?thesis using Cons.prems False broken_header[of n v "13 # 10 # header_text hs"] by (simp add: h header_text_Cons)
  qed
qed (simp add: header_text_def)

lemma unfold_text:
  "list_all header_ok hs \<Longrightarrow> unfold_block (header_text hs) = units_join ucrlf (map (\<lambda>(n, v). n @ [58, 32] @ shown n v) hs)"
proof (induction hs)
  case (Cons h hs)
  obtain n v where h: "h = (n, v)" by fastforce
  have p: "no_break n" "no_break v" using header_ok_parts[of n v] Cons.prems by (simp_all add: h)
  show ?case
  proof (cases "hs = []")
    case True
    then show ?thesis using unfold_header[OF p, of "[]"] by (simp add: h header_text_Cons)
  next
    case False
    obtain c w where c: "header_text hs = c # w" "\<not> hws c" using header_text_starts[of hs] Cons.prems False by auto
    then have "unfold_block (13 # 10 # header_text hs) = 13 # 10 # unfold_block (header_text hs)"
      using unfold_crlf[of "header_text hs"] by (simp add: starts_hws_def del: unfold_block.simps)
    then show ?thesis using False Cons unfold_header[OF p, of "13 # 10 # header_text hs"]
      by (cases hs) (simp_all add: h header_text_Cons ucrlf_def del: unfold_block.simps)
  qed
qed (simp add: header_text_def)

lemma split_join: "\<forall>l\<in>set ls. no_break l \<Longrightarrow> ls \<noteq> [] \<Longrightarrow> split_lines (units_join ucrlf ls) = ls"
proof (induction ls)
  case (Cons l ls)
  then have n: "10 \<notin> set l" "13 \<notin> set l" by (simp_all add: no_break_def)
  show ?case
  proof (cases ls)
    case Nil
    then show ?thesis using split_lines_append[OF n, of "[]"] by simp
  next
    case (Cons m ms)
    then have "split_lines (13 # 10 # units_join ucrlf ls) = [] # ls" using Cons.IH Cons.prems by simp
    then show ?thesis using split_lines_append[OF n, of "13 # 10 # units_join ucrlf ls"] Cons by (simp add: ucrlf_def)
  qed
qed simp

lemma shown_no_break: "no_break v \<Longrightarrow> no_break (shown n v)"
  using collapse_set[of v] by (auto simp: shown_def no_break_def)

lemma shown_trimmed: "trimmed v \<Longrightarrow> trimmed (shown n v)"
proof (cases "v = []")
  case False
  assume "trimmed v"
  then have "\<not> units_ws (hd v)" "\<not> units_ws (last v)" using False by (simp_all add: trimmed_def)
  moreover from this have "last v \<noteq> 32" by (auto simp: units_ws_def)
  ultimately show ?thesis using collapse_ends[of v] False by (simp add: shown_def trimmed_def)
qed (simp add: shown_def collapse_nil)

lemma trim_space: "trimmed v \<Longrightarrow> units_trim (32 # v) = v"
  using units_trim_id[of v] by (simp add: trimmed_def units_trim_def units_ltrim_def ws_space units_rtrim_def)

lemma header_line_back:
  assumes "header_ok (n, v)"
  shows "header_line (n @ [58, 32] @ shown n v) = Some (n, shown n v)"
proof -
  note p = header_ok_parts[OF assms]
  have "units_trim n = n" using p by (intro units_trim_id) simp
  moreover have "units_trim (32 # shown n v) = shown n v" by (rule trim_space[OF shown_trimmed[OF p(7)]])
  moreover have "\<forall>u\<in>set n. u \<noteq> 58" using p(4) by auto
  ultimately show ?thesis using p(3) by (simp add: header_line_def Let_def takeWhile_append dropWhile_append)
qed

lemma lines_of_headers: "mh_lines (foldl add_header h nvs) = mh_lines h @ nvs"
  by (induction nvs arbitrary: h) (simp_all add: add_header_def Let_def)

lemma block_read:
  assumes "list_all header_ok hs" "hs \<noteq> []"
  shows "MimeHeaders (header_text hs) = foldl add_header \<lparr> mh_map = [], mh_lines = [] \<rparr> (shown_headers hs)"
proof -
  let ?ls = "map (\<lambda>(n, v). n @ [58, 32] @ shown n v) hs"
  have "\<forall>l\<in>set ?ls. no_break l"
    using assms(1) header_ok_parts(1,2) shown_no_break by (fastforce simp: list_all_iff no_break_def)
  then have "split_lines (unfold_block (header_text hs)) = ?ls" using assms by (simp add: unfold_text split_join)
  moreover have "List.map_filter header_line ?ls = shown_headers hs"
    using assms(1) by (induction hs) (auto simp: shown_headers_def header_line_back map_filter_simps simp del: append.simps append_Cons)
  ultimately show ?thesis by (simp add: MimeHeaders_def)
qed

lemma header_ascii:
  assumes "header_ok (n, v)"
  shows "\<forall>u\<in>set (foldHeader n v). u < 128"
proof -
  have u: "\<forall>u\<in>set n \<union> set v. u < 128" by (rule header_ok_parts(8)[OF assms])
  have t: "\<forall>u\<in>set (fold_tokens col ts). u < 128" if "\<forall>t\<in>set ts. \<forall>u\<in>set t. u < 128" for col ts
    using that by (induction col ts rule: fold_tokens.induct) auto
  have q: "\<forall>t\<in>set (split_spaces v). \<forall>u\<in>set t. u < 128" using split_spaces_parts u by blast
  show ?thesis using u q t by (auto simp: foldHeader_def Let_def split: list.splits)
qed

lemma serialize_text:
  assumes "list_all header_ok hs"
  shows "serializeHeaders hs = header_text hs @ [13, 10]"
proof -
  have "\<forall>u\<in>set (units_join sep xs). u < 128" if "\<forall>u\<in>set sep. u < 128" "\<forall>x\<in>set xs. \<forall>u\<in>set x. u < 128" for sep :: units and xs
    using that by (induction sep xs rule: units_join.induct) auto
  note j = this
  have "\<forall>x\<in>set (map (\<lambda>(k, v). foldHeader k v) hs). \<forall>u\<in>set x. u < 128"
    using assms header_ascii by (fastforce simp: list_all_iff)
  moreover have "\<forall>u\<in>set ucrlf. u < 128" by (simp add: ucrlf_def)
  ultimately have "\<forall>u\<in>set (header_text hs). u < 128" unfolding header_text_def by (intro j) 
  then have "utf8_encode (header_text hs @ [13, 10]) = header_text hs @ [13, 10]" by (intro utf8_ascii) (simp add: list_all_iff)
  then show ?thesis unfolding serializeHeaders_def header_text_def[symmetric] by (simp add: ucrlf_def)
qed

lemma head_split:
  assumes "list_all header_ok hs" "hs \<noteq> []"
  shows "splitHeadBody (serializeHeaders hs @ ucrlf @ body) = (header_text hs, body)"
proof -
  obtain c w where c: "header_text hs = c # w" "c \<noteq> 10" "c \<noteq> 13" using header_text_starts[OF assms] by auto
  have "serializeHeaders hs @ ucrlf @ body = header_text hs @ [13, 10, 13, 10] @ body"
    by (simp add: serialize_text[OF assms(1)] ucrlf_def)
  note e = this
  show ?thesis unfolding e using c blank_line_found[OF broken_text[OF assms(1)], of body]
    by (simp add: splitHeadBody_def del: blank_line.simps)
qed



end
