(* ===== verification/QueueHold.thy ===== *)
theory QueueHold
  imports MailQueueBook
begin

text \<open>
  What the send queue promises to a queue built on it (SqliteQueue): the jobs it holds, waiting or in an
  execution; that an operation comes to hold no job but one enqueued or restored; that a job which is not held
  can be forgotten, so that its id may be used again; and that the events an operation emits are about
  jobs it held before.
\<close>

section \<open>Jobs held\<close>

definition held :: "mail_queue \<Rightarrow> nat set" where
  "held q = set (waitingJobs q) \<union> fst ` set (q_sending q)"

definition active :: "job_status \<Rightarrow> bool" where
  "active s \<longleftrightarrow> s = StPending \<or> s = StScheduled \<or> s = StRunning"

lemma pending_refs_mem: "r \<in> set (pending_refs q) \<longleftrightarrow> (\<exists>t. r \<in> set (q_pending q t))"
  using PRIORITY_ORDER_all(1) by (auto simp: pending_refs_def)

lemma held_core:
  assumes "core cfg G X q" "r \<in> held q"
  shows "r < length (q_heap q)" "r \<notin> G" "r \<notin> X" "active (j_status (job_of q r))"
proof -
  consider "r \<in> set (pending_refs q)" | i where "(i, r) \<in> set (q_scheduled q)" | "r \<in> fst ` set (q_sending q)"
    using assms(2) by (auto simp: held_def waitingJobs_def)
  then have "\<exists>s. r \<in> with_status (q_heap q) s \<and> active s \<and> r \<notin> G \<and> r \<notin> X"
    using assms(1) by cases (auto simp: core_def pend_ok_def sched_ok_def send_ok_def pending_refs_mem active_def)
  then show "r < length (q_heap q)" "r \<notin> G" "r \<notin> X" "active (j_status (job_of q r))" by (auto simp: with_status_def)
qed

lemma held_ids: "core cfg G X q \<Longrightarrow> r \<in> held q \<Longrightarrow> s \<in> held q \<Longrightarrow> id_of q r = id_of q s \<Longrightarrow> r = s"
  using core_ids_off held_core by metis

lemma core_forget:
  assumes "core cfg G X q" "R \<subseteq> {..<length (q_heap q)}" "R \<inter> X = {}" "R \<inter> held q = {}"
  shows "core cfg (G \<union> R) X q"
proof -
  have p: "r \<notin> R" if "r \<in> set (q_pending q t)" for r t
  proof -
    have "r \<in> held q" using that PRIORITY_ORDER_all(1) by (auto simp: held_def waitingJobs_def pending_refs_def)
    then show ?thesis using assms(4) by blast
  qed
  have s: "r \<notin> R" if "(i, r) \<in> set (q_scheduled q)" for i r
    using that assms(4) by (force simp: held_def waitingJobs_def)
  have e: "r \<notin> R" if "r \<in> fst ` set (q_sending q)" for r using that assms(4) by (auto simp: held_def)
  have "ids_ok (G \<union> R) X (q_heap q)" using assms by (auto simp: core_def ids_ok_def inj_on_def)
  moreover have "pend_ok (X \<union> (G \<union> R)) (q_heap q) (q_pending q)" using assms(1) p by (auto simp: core_def pend_ok_def)
  moreover have "sched_ok (X \<union> (G \<union> R)) (q_heap q) (q_scheduled q)" using assms(1) s by (auto simp: core_def sched_ok_def)
  moreover have "send_ok (qc_dlEnabled cfg) (X \<union> (G \<union> R)) (q_heap q) (q_sending q)"
    using assms(1) e by (auto simp: core_def send_ok_def)
  ultimately show ?thesis by (simp add: core_def)
qed

lemma core_forget_one:
  "core cfg G X q \<Longrightarrow> x < length (q_heap q) \<Longrightarrow> x \<notin> X \<Longrightarrow> x \<notin> held q \<Longrightarrow> core cfg (insert x G) X q"
  using core_forget[of cfg G X q "{x}"] by simp

text \<open>A job object that never reaches a container.\<close>

lemma core_phantom:
  assumes "core cfg G {} q"
  shows "core cfg (insert (length (q_heap q)) G) {} (q \<lparr> q_heap := q_heap q @ [j] \<rparr>)"
proof -
  let ?n = "length (q_heap q)"
  have n: "?n \<notin> with_status (q_heap q) s" for s by (auto dest: with_status_less)
  have l: "(q_heap q @ [j]) ! x = q_heap q ! x" if "x \<in> with_status (q_heap q) s" for x s
    using that by (auto dest: with_status_less simp: nth_append)
  have P: "r \<in> set (q_pending q p) \<longleftrightarrow> r \<in> with_status (q_heap q) StPending \<and> r \<notin> G \<and> j_priority (q_heap q ! r) = p" for r p
    using assms by (simp add: core_def pend_ok_def)
  have S: "(i, r) \<in> set (q_scheduled q) \<longleftrightarrow> r \<in> with_status (q_heap q) StScheduled \<and> r \<notin> G \<and> i = j_id (q_heap q ! r)" for i r
    using assms by (simp add: core_def sched_ok_def)
  have "ids_ok (insert ?n G) {} (q_heap q @ [j])"
    using assms by (auto simp: core_def ids_ok_def inj_on_def nth_append)
  moreover have "pend_ok (insert ?n G) (q_heap q @ [j]) (q_pending q)"
    using assms by (auto simp: core_def pend_ok_def P with_status_append l n)
  moreover have "sched_ok (insert ?n G) (q_heap q @ [j]) (q_scheduled q)"
    using assms by (auto simp: core_def sched_ok_def S with_status_append l n)
  moreover have "send_ok (qc_dlEnabled cfg) (insert ?n G) (q_heap q @ [j]) (q_sending q)"
    using assms n by (auto simp: core_def send_ok_def with_status_append)
  ultimately show ?thesis by (simp add: core_def)
qed

section \<open>Operations other than enqueue and restore\<close>

primrec takes_job :: "q_op \<Rightarrow> bool" where
  "takes_job (OpSetSendFn now) = False"
| "takes_job (OpEnqueue now i tok opts eo) = True"
| "takes_job (OpRestore now job) = True"
| "takes_job (OpTimer now) = False"
| "takes_job (OpSettle now rnd x out) = False"
| "takes_job (OpFinish now r) = False"
| "takes_job (OpResume now) = False"
| "takes_job OpPause = False"
| "takes_job (OpCancel now i) = False"
| "takes_job (OpCancelAll now) = False"
| "takes_job (OpInterrupt i) = False"
| "takes_job OpInterruptAll = False"
| "takes_job (OpAbort i) = False"
| "takes_job OpAbortAll = False"
| "takes_job OpDrain = False"
| "takes_job (OpSdStart now so) = False"
| "takes_job (OpSdCheck now s) = False"

lemma ids_fold_mark: "q_ids (fold (markCancelled now) rs q) = q_ids q"
  by (induction rs arbitrary: q) simp_all

lemma heap_fold_trigger: "q_heap (fold (trigger_ctrl r) cs q) = q_heap q"
  by (induction cs arbitrary: q) (simp_all add: trigger_ctrl_def)

lemma ids_promoteDue: "q_ids (promoteDue cfg now q) = q_ids q"
  by (simp add: promoteDue_def)

lemma ids_cancel: "q_ids (snd (cancel now i q)) = q_ids q"
  by (auto simp: cancel_def takeWaiting_def trigger_ctrl_def split: prod.splits option.splits)

lemma ids_cancelAll: "q_ids (snd (cancelAll now q)) = q_ids q"
  by (simp add: cancelAll_def Let_def ids_fold_mark)

lemma heap_control: "q_heap (snd (control_one r i q)) = q_heap q" "q_heap (snd (control_all r q)) = q_heap q"
  by (auto simp: control_one_def control_all_def trigger_ctrl_def heap_fold_trigger split: option.splits)

lemma ids_sd: "q_ids (snd (sd_close now s q)) = q_ids q" "q_ids (snd (sd_finish s q)) = q_ids q"
  by (simp_all add: sd_close_def sd_finish_def Let_def ids_cancelAll)

lemma ids_sd_check: "q_ids (snd (sd_check now s q)) = q_ids q"
  by (auto simp: sd_check_def ids_sd interruptAll_def heap_control split: sd_phase.splits)

lemma ids_resume: "q_ids (resume cfg now q) = q_ids q" by (simp add: resume_def)

lemma ids_op: "\<not> takes_job op \<Longrightarrow> q_ids (q_step cfg q op) = q_ids q"
  by (cases op)
    (simp_all add: setSendFn_def ids_promoteDue settle_def finish_def ids_resume pause_def ids_cancel ids_cancelAll
      interrupt_def interruptAll_def abort_job_def abortAll_def heap_control drain_def sd_start_def Let_def ids_sd ids_sd_check
      split: prod.splits)

text \<open>Forgetting a job before a step shows that the step does not bring it back.\<close>

lemma held_op:
  assumes "core cfg G {} q" "q_ok q op" "\<not> takes_job op"
  shows "held (q_step cfg q op) \<subseteq> held q"
proof
  fix x assume x: "x \<in> held (q_step cfg q op)"
  have l: "length (q_heap (q_step cfg q op)) = length (q_heap q)" by (rule ids_length[OF ids_op[OF assms(3)]])
  have c: "core cfg G {} (q_step cfg q op)" by (rule core_step[OF assms(1,2)])
  show "x \<in> held q"
  proof (rule ccontr)
    assume "x \<notin> held q"
    then have "core cfg (insert x G) {} (q_step cfg q op)"
      using core_step[OF core_forget_one[OF assms(1), of x] assms(2)] held_core(1)[OF c x] l by simp
    then show False using held_core(2) x by blast
  qed
qed

lemma held_place:
  assumes "core cfg G {r} q"
  shows "held (place cfg now r q) \<subseteq> insert r (held q)"
proof
  fix x assume x: "x \<in> held (place cfg now r q)"
  have i: "q_ids (place cfg now r q) = q_ids q"
    by (cases rule: place_cases[of q r cfg now]) (simp_all add: placed_def ids_set_job)
  have c: "core cfg G {} (place cfg now r q)" by (rule core_place[OF assms])
  show "x \<in> insert r (held q)"
  proof (rule ccontr)
    assume n: "x \<notin> insert r (held q)"
    then have "core cfg (insert x G) {} (place cfg now r q)"
      using core_place[OF core_forget_one[OF assms, of x]] held_core(1)[OF c x] ids_length[OF i] by simp
    then show False using held_core(2) x by blast
  qed
qed

section \<open>Events\<close>

text \<open>The events on which SqliteQueue writes the job to its row.\<close>

fun update_ref :: "q_event \<Rightarrow> nat option" where
  "update_ref (EvScheduled r) = Some r"
| "update_ref (EvPromoted r) = Some r"
| "update_ref (EvStarted r) = Some r"
| "update_ref (EvSuccess r res) = Some r"
| "update_ref (EvRetry r n d) = Some r"
| "update_ref (EvDead r es) = Some r"
| "update_ref (EvCancelled r) = Some r"
| "update_ref (EvInterrupted r) = Some r"
| "update_ref e = None"

definition emits :: "nat set \<Rightarrow> mail_queue \<Rightarrow> mail_queue \<Rightarrow> bool" where
  "emits S q q' \<longleftrightarrow> (\<exists>evs. q_trace q' = q_trace q @ evs \<and> (\<forall>e\<in>set evs. \<forall>r. update_ref e = Some r \<longrightarrow> r \<in> S))"

lemma emits_same: "q_trace q' = q_trace q \<Longrightarrow> emits S q q'"
  by (simp add: emits_def)

lemma emits_one: "q_trace q' = q_trace q @ [e] \<Longrightarrow> (\<And>r. update_ref e = Some r \<Longrightarrow> r \<in> S) \<Longrightarrow> emits S q q'"
  by (auto simp: emits_def)

lemma emits_trans: "emits S q q1 \<Longrightarrow> emits S q1 q2 \<Longrightarrow> emits S q q2"
  by (fastforce simp: emits_def)

lemma emits_cong: "q_trace q1 = q_trace q \<Longrightarrow> emits S q q2 = emits S q1 q2"
  by (simp add: emits_def)

lemma trace_steps:
  "q_trace (start_job now r q) = q_trace q @ [EvStarted r]"
  "q_trace (launch_job now r q) = q_trace q @ [EvStarted r]"
  "q_trace (throttle_job now w r q) = q_trace q @ [EvScheduled r, EvThrottled r w]"
  "q_trace (promote_one i r q) = q_trace q @ [EvPromoted r]"
  "q_trace (markCancelled now r q) = q_trace q @ [EvCancelled r]"
  "q_trace (interrupt_requeue r q) = q_trace q @ [EvInterrupted r]"
  by (simp_all add: start_job_def launch_job_def throttle_job_def promote_one_def markCancelled_def interrupt_requeue_def Let_def emit_def)

lemma emits_steps:
  "r \<in> S \<Longrightarrow> emits S q (launch_job now r q)" "r \<in> S \<Longrightarrow> emits S q (throttle_job now w r q)"
  "r \<in> S \<Longrightarrow> emits S q (promote_one i r q)" "r \<in> S \<Longrightarrow> emits S q (markCancelled now r q)"
  "r \<in> S \<Longrightarrow> emits S q (interrupt_requeue r q)" "r \<in> S \<Longrightarrow> emits S q (succeed_job r res q)"
  "r \<in> S \<Longrightarrow> emits S q (retry_job cfg now rnd err r q)" "r \<in> S \<Longrightarrow> emits S q (dlq_add cfg now r q)"
  by (auto simp: emits_def trace_steps succeed_job_def retry_job_def dlq_add_def emit_def Let_def)

lemma emits_fail: "r \<in> S \<Longrightarrow> emits S q (fail_job cfg now rnd err r q)"
proof -
  let ?q = "set_job r (\<lambda>j. j \<lparr> j_errors := j_errors j @ [err] \<rparr>) q"
  assume "r \<in> S"
  then have "emits S ?q (retry_job cfg now rnd err r ?q)" "emits S ?q (dlq_add cfg now r ?q)" by (rule emits_steps)+
  then have "emits S ?q (fail_job cfg now rnd err r q)" by (simp add: fail_job_def Let_def)
  then show ?thesis by (simp add: emits_def)
qed

lemma emits_settle_body: "r \<in> S \<Longrightarrow> emits S q (settle_body cfg now rnd r reason out q)"
  by (auto simp: settle_body_def Let_def emits_steps emits_fail
    split: option.splits control_reason.splits send_outcome.splits send_result.splits)

lemma pending_refs_update: "set (pending_refs q') \<subseteq> set (pending_refs q)"
  if "q_pending q t = r # rs" "q_pending q' = (q_pending q)(t := rs)"
  using that by (auto simp: pending_refs_def split: if_splits)

lemma emits_tick:
  assumes "set (pending_refs q) \<subseteq> S"
  shows "emits S q (tick cfg now q)"
proof -
  have "emits S q (tick cfg now q) \<and> set (pending_refs (tick cfg now q)) \<subseteq> S"
  proof (rule tick_keeps[where P = "\<lambda>q'. emits S q q' \<and> set (pending_refs q') \<subseteq> S"])
    fix q1 q2 assume p: "emits S q q1 \<and> set (pending_refs q1) \<subseteq> S" and t: "tick_step cfg now q1 = Some q2"
    obtain tt r rs where q: "q_pending q1 tt = r # rs" "q_pending q2 = (q_pending q1)(tt := rs)" "emits {r} q1 q2"
    proof -
      obtain r x where n: "nextPending q1 = Some (r, x)" using t by (auto simp: tick_step_def split: if_splits option.splits)
      obtain tt rs where x: "q_pending q1 tt = r # rs" "x = q1 \<lparr> q_pending := (q_pending q1)(tt := rs) \<rparr>"
        using n by (rule nextPending_Some)
      have "emits {r} q1 q2 \<and> q_pending q2 = (q_pending q1)(tt := rs)"
        using t n by (auto simp: tick_step_def Let_def x(2) emits_def trace_steps split: if_splits option.splits prod.splits)
      then show thesis using that x(1) by blast
    qed
    have "r \<in> set (pending_refs q1)" using q(1) pending_refs_mem by (metis list.set_intros(1))
    then have "r \<in> S" using p by blast
    then have "emits S q1 q2" using q(3) by (auto simp: emits_def)
    then show "emits S q q2 \<and> set (pending_refs q2) \<subseteq> S" using p emits_trans pending_refs_update[OF q(1,2)] by blast
  qed (use assms in \<open>simp add: emits_same\<close>)
  then show ?thesis by blast
qed

lemma emits_place: "insert r (held q) \<subseteq> S \<Longrightarrow> emits S q (place cfg now r q)"
proof (cases rule: place_cases[of q r cfg now])
  case later
  then show "insert r (held q) \<subseteq> S \<Longrightarrow> ?thesis" by (auto simp: emits_def emit_def)
next
  case now
  have "set (pending_refs (placed r q)) \<subseteq> insert r (set (pending_refs q))"
    by (auto simp: pending_refs_def placed_def split: if_splits)
  moreover have "q_trace (placed r q) = q_trace q" by (simp add: placed_def)
  ultimately show "insert r (held q) \<subseteq> S \<Longrightarrow> ?thesis"
    using emits_tick[of "placed r q" S cfg now] now emits_cong[of "placed r q" q] by (auto simp: held_def waitingJobs_def)
qed

lemma emits_checkDrained: "emits S q q' \<Longrightarrow> emits S q (checkDrained q')"
proof -
  have "emits S q' (checkDrained q')"
    by (auto simp: emits_def checkDrained_def rejectDrainWaiters_def Let_def fold_emit emit_def)
  then show "emits S q q' \<Longrightarrow> emits S q (checkDrained q')" using emits_trans by blast
qed

lemma emits_promote_list:
  "snd ` set es \<subseteq> S \<Longrightarrow> set (pending_refs q) \<subseteq> S \<Longrightarrow>
     emits S q (promote_list now es q) \<and> set (pending_refs (promote_list now es q)) \<subseteq> S"
proof (induction es arbitrary: q)
  case (Cons e es)
  obtain i r where e: "e = (i, r)" by fastforce
  let ?q = "if due_of (job_of q r) \<le> now then promote_one i r q else q"
  have "set (pending_refs (promote_one i r q)) \<subseteq> insert r (set (pending_refs q))"
    by (auto simp: promote_one_def Let_def pending_refs_mem split: if_splits)
  then have q: "set (pending_refs ?q) \<subseteq> S" "emits S q ?q" using Cons.prems by (auto simp: e emits_steps emits_same)
  have p: "promote_list now (e # es) q = promote_list now es ?q" by (simp add: promote_list_def e)
  have "emits S ?q (promote_list now es ?q) \<and> set (pending_refs (promote_list now es ?q)) \<subseteq> S"
    by (rule Cons.IH) (use Cons.prems q in simp_all)
  then show ?case unfolding p using emits_trans[OF q(2)] by blast
qed (simp add: promote_list_def emits_same)

lemma emits_fold_mark: "set rs \<subseteq> S \<Longrightarrow> emits S q (fold (markCancelled now) rs q)"
proof (induction rs arbitrary: q)
  case (Cons r rs)
  then have "emits S q (markCancelled now r q)" "emits S (markCancelled now r q) (fold (markCancelled now) rs (markCancelled now r q))"
    by (simp_all add: emits_steps)
  then show ?case using emits_trans by simp
qed (simp add: emits_same)

lemma trace_fold_trigger: "q_trace (fold (trigger_ctrl r) cs q) = q_trace q"
  by (induction cs arbitrary: q) (simp_all add: trigger_ctrl_def)

lemma trace_control: "q_trace (snd (control_one r i q)) = q_trace q" "q_trace (snd (control_all r q)) = q_trace q"
  by (auto simp: control_one_def control_all_def trigger_ctrl_def trace_fold_trigger split: option.splits)

lemma pending_held: "set (pending_refs q) \<subseteq> held q"
  by (auto simp: held_def waitingJobs_def)

lemma emits_resume: "emits (held q) q (resume cfg now q)"
  using emits_tick[of "q \<lparr> q_paused := False \<rparr>" "held q" cfg now] pending_held[of q]
  by (simp add: resume_def emits_same pending_refs_def emits_def)

lemma emits_promoteDue: "emits (held q) q (promoteDue cfg now q)"
proof -
  let ?q1 = "promote_list now (q_scheduled q) (q \<lparr> q_timer := None \<rparr>)"
  have "emits (held q) (q \<lparr> q_timer := None \<rparr>) ?q1 \<and> set (pending_refs ?q1) \<subseteq> held q"
    by (rule emits_promote_list) (auto simp: held_def waitingJobs_def pending_refs_def)
  moreover have "emits (held q) (armSchedule now ?q1) (tick cfg now (armSchedule now ?q1))"
    if "set (pending_refs ?q1) \<subseteq> held q" using that by (intro emits_tick) (simp add: pending_refs_def)
  ultimately show ?thesis by (fastforce simp: promoteDue_def emits_def)
qed

lemma emits_settle:
  assumes "x \<in> set (q_sending q)"
  shows "emits (held q) q (settle cfg now rnd x out q)"
proof -
  obtain r c where x: "x = (r, c)" by fastforce
  have "r \<in> held q" using assms by (force simp: held_def x)
  then show ?thesis
    using emits_settle_body[of r "held q" "q \<lparr> q_sending := remove1 (r, c) (q_sending q),
      q_controllers := AList.delete (id_of q r) (q_controllers q), q_finishing := q_finishing q @ [r] \<rparr>"]
    by (simp add: settle_def x Let_def emits_def)
qed

lemma emits_finish: "emits (held q) q (finish cfg now r q)"
proof -
  let ?q = "q \<lparr> q_finishing := remove1 r (q_finishing q), q_running := AList.delete (id_of q r) (q_running q) \<rparr>"
  have "emits (held q) ?q (tick cfg now ?q)"
    using pending_held[of q] by (intro emits_tick) (simp add: pending_refs_def)
  then show ?thesis unfolding finish_def by (intro emits_checkDrained) (simp add: emits_def)
qed

lemma takeWaiting_held: "takeWaiting now i q = (Some r, q1) \<Longrightarrow> r \<in> held q \<and> q_trace q1 = q_trace q"
proof -
  assume t: "takeWaiting now i q = (Some r, q1)"
  have "q_trace q1 = q_trace q" using t by (auto simp: takeWaiting_def split: option.splits prod.splits)
  moreover have "r \<in> held q"
  proof (cases "map_of (q_scheduled q) i")
    case None
    then obtain p where "take_tiers (\<lambda>r. id_of q r = i) PRIORITY_ORDER (q_pending q) = Some (r, p)"
      using t by (auto simp: takeWaiting_def split: option.splits prod.splits)
    then obtain tt where "r \<in> set (q_pending q tt)" using take_tiers_Some by blast
    then show ?thesis using PRIORITY_ORDER_all(1) by (auto simp: held_def waitingJobs_def pending_refs_def)
  next
    case (Some s)
    then show ?thesis using t by (force simp: takeWaiting_def held_def waitingJobs_def dest: map_of_SomeD)
  qed
  ultimately show ?thesis by blast
qed

lemma emits_cancel: "emits (held q) q (snd (cancel now i q))"
proof -
  obtain o1 q1 where t: "takeWaiting now i q = (o1, q1)" by fastforce
  show ?thesis
  proof (cases o1)
    case None
    then have "q1 = q" using t takeWaiting_None by blast
    then show ?thesis using t None by (auto simp: cancel_def trigger_ctrl_def emits_same split: option.splits)
  next
    case (Some r)
    then have "r \<in> held q" "q_trace q1 = q_trace q" using takeWaiting_held t by blast+
    then have "emits (held q) q (markCancelled now r q1)" using emits_steps(4)[of r "held q" q1 now] by (simp add: emits_def)
    then show ?thesis using t Some by (simp add: cancel_def emits_checkDrained)
  qed
qed

lemma emits_cancelAll: "emits (held q) q (snd (cancelAll now q))"
proof -
  let ?q = "armSchedule now (q \<lparr> q_pending := (\<lambda>_. []), q_scheduled := [] \<rparr>)"
  have "emits (held q) ?q (fold (markCancelled now) (waitingJobs q) ?q)" by (rule emits_fold_mark) (simp add: held_def)
  then have "emits (held q) q (fold (markCancelled now) (waitingJobs q) ?q)" by (simp add: emits_def)
  then show ?thesis by (simp add: cancelAll_def Let_def emits_checkDrained)
qed

lemma emits_sd: "emits (held q) q (snd (sd_close now s q))" "emits (held q) q (snd (sd_finish s q))"
proof -
  let ?q = "q \<lparr> q_paused := True, q_closed := True \<rparr>"
  have "held ?q = held q" by (simp add: held_def waitingJobs_def pending_refs_def)
  then show "emits (held q) q (snd (sd_close now s q))"
    using emits_cancelAll[of ?q now] by (simp add: sd_close_def Let_def emits_def)
  show "emits (held q) q (snd (sd_finish s q))"
    by (auto simp: sd_finish_def Let_def rejectDrainWaiters_def fold_emit emits_def)
qed

lemma emits_sd_check: "emits (held q) q (snd (sd_check now s q))"
  by (auto simp: sd_check_def emits_sd interruptAll_def trace_control emits_same split: sd_phase.splits)

lemma emits_op:
  assumes "q_ok q op" "\<not> takes_job op"
  shows "emits (held q) q (q_step cfg q op)"
proof (cases op)
  case (OpSetSendFn now)
  have "emits (held q) (q \<lparr> q_sendFn := True \<rparr>) (tick cfg now (q \<lparr> q_sendFn := True \<rparr>))"
    using pending_held[of q] by (intro emits_tick) (simp add: pending_refs_def)
  then show ?thesis by (simp add: OpSetSendFn setSendFn_def emits_def)
qed (use assms in \<open>simp_all add: emits_promoteDue emits_settle emits_finish emits_resume pause_def emits_checkDrained emits_same
       emits_cancel emits_cancelAll interrupt_def interruptAll_def abort_job_def abortAll_def trace_control drain_def
       sd_start_def Let_def emits_sd emits_sd_check\<close>)

end
