(* ===== verification/JobCodec.thy ===== *)
theory JobCodec
  imports QueueTypes JsText
begin

text \<open>
  The wire format of queued jobs, src/src/queue/JobCodec.ts.  A JavaScript value is one datatype; what
  JSON.stringify followed by JSON.parse makes of a value is the function json_text (undefined is dropped from
  objects and becomes null in arrays), so a stored text is the value it parses to.  Numbers are integers;
  an object is its own enumerable properties in insertion order.  Date.toISOString and new Date(text) are
  the parameters isoText and parse.
\<close>

datatype js = Undef | Null | Bool bool | Num int | Str units | Buf bytes | U8 bytes | DateV "int option"
  | Stream | Func | Arr "js list" | Obj "(units \<times> js) list"

definition proto_key :: units where "proto_key = units_of ''__proto__''"
definition b64_key :: units where "b64_key = units_of ''$b64''"
definition date_key :: units where "date_key = units_of ''$date''"

lemma wire_keys: "b64_key \<noteq> date_key" "date_key \<noteq> b64_key" "b64_key \<noteq> proto_key" "date_key \<noteq> proto_key"
  by (simp_all add: b64_key_def date_key_def proto_key_def units_of_def)

text \<open>The text of a base64 string as the decoder of Buffer reads it: units beyond Latin-1 are skipped like any other.\<close>

definition b64_text :: "bytes \<Rightarrow> js" where "b64_text bs = Str (units_of (b64_encode bs))"
definition b64_read :: "units \<Rightarrow> bytes" where "b64_read t = b64_decode (latin1 (filter (\<lambda>u. u < 256) t))"

section \<open>Encoding\<close>

definition has_pipe :: "(units \<times> js) list \<Rightarrow> bool" where
  "has_pipe ps \<longleftrightarrow> map_of ps (units_of ''pipe'') = Some Func"

definition stream_error :: "string \<Rightarrow> thrown" where
  "stream_error path = ThrownMailTs (QueueError (''Cannot queue a stream at '' @ path @ ''; use a Buffer or a file path''))"

definition func_error :: "string \<Rightarrow> thrown" where
  "func_error path = ThrownMailTs (QueueError (''Cannot queue a function at '' @ path))"

definition range_error :: thrown where "range_error = ThrownOther ''RangeError''"

text \<open>The path only serves the messages; the fields of an object show in it by their Latin-1 text.\<close>

fun toWire :: "(int \<Rightarrow> units) \<Rightarrow> string \<Rightarrow> js \<Rightarrow> thrown + js"
  and toWireItems :: "(int \<Rightarrow> units) \<Rightarrow> string \<Rightarrow> nat \<Rightarrow> js list \<Rightarrow> thrown + js list"
  and toWireFields :: "(int \<Rightarrow> units) \<Rightarrow> string \<Rightarrow> (units \<times> js) list \<Rightarrow> thrown + (units \<times> js) list" where
  "toWire isoText path Null = Inr Null"
| "toWire isoText path Undef = Inr Undef"
| "toWire isoText path (Buf bs) = Inr (Obj [(b64_key, b64_text bs)])"
| "toWire isoText path (U8 bs) = Inr (Obj [(b64_key, b64_text bs)])"
| "toWire isoText path (DateV t) = (case t of None \<Rightarrow> Inl range_error | Some ms \<Rightarrow> Inr (Obj [(date_key, Str (isoText ms))]))"
| "toWire isoText path Stream = Inl (stream_error path)"
| "toWire isoText path Func = Inl (func_error path)"
| "toWire isoText path (Arr vs) = (case toWireItems isoText path 0 vs of Inl e \<Rightarrow> Inl e | Inr ws \<Rightarrow> Inr (Arr ws))"
| "toWire isoText path (Obj fs) =
     (if has_pipe fs then Inl (stream_error path)
      else case toWireFields isoText path fs of Inl e \<Rightarrow> Inl e | Inr ws \<Rightarrow> Inr (Obj ws))"
| "toWire isoText path (Bool b) = Inr (Bool b)"
| "toWire isoText path (Num n) = Inr (Num n)"
| "toWire isoText path (Str s) = Inr (Str s)"
| "toWireItems isoText path i [] = Inr []"
| "toWireItems isoText path i (v # vs) = (case toWire isoText (path @ ''['' @ show_nat i @ '']'') v of Inl e \<Rightarrow> Inl e
     | Inr w \<Rightarrow> (case toWireItems isoText path (Suc i) vs of Inl e \<Rightarrow> Inl e | Inr ws \<Rightarrow> Inr (w # ws)))"
| "toWireFields isoText path [] = Inr []"
| "toWireFields isoText path ((k, v) # fs) =
     (if v = Undef then toWireFields isoText path fs
      else case toWire isoText (path @ ''.'' @ latin1 k) v of Inl e \<Rightarrow> Inl e
        | Inr w \<Rightarrow> (case toWireFields isoText path fs of Inl e \<Rightarrow> Inl e
            | Inr ws \<Rightarrow> Inr (if k = proto_key then ws else (k, w) # ws)))"

text \<open>JSON.parse of JSON.stringify.\<close>

fun json_text :: "js \<Rightarrow> js" where
  "json_text (Arr vs) = Arr (map (\<lambda>v. if v = Undef then Null else json_text v) vs)"
| "json_text (Obj fs) = Obj (map (\<lambda>(k, v). (k, json_text v)) (filter (\<lambda>(k, v). v \<noteq> Undef) fs))"
| "json_text v = v"

definition v_key :: units where "v_key = units_of ''v''"
definition o_key :: units where "o_key = units_of ''o''"

definition encodeOptions :: "(int \<Rightarrow> units) \<Rightarrow> js \<Rightarrow> thrown + js" where
  "encodeOptions isoText options = (case toWire isoText ''options'' options of Inl e \<Rightarrow> Inl e
     | Inr w \<Rightarrow> Inr (json_text (Obj [(v_key, Num 1), (o_key, w)])))"

section \<open>Decoding\<close>

text \<open>Buffer.from of the array of a legacy buffer: numbers modulo 256 (texts, which no Buffer.toJSON writes, are not converted).\<close>

definition legacy_byte :: "js \<Rightarrow> nat" where "legacy_byte v = (case v of Num n \<Rightarrow> nat (n mod 256) | Bool True \<Rightarrow> 1 | _ \<Rightarrow> 0)"

definition wire_object :: "(units \<Rightarrow> int option) \<Rightarrow> (units \<times> js) list \<Rightarrow> js option" where
  "wire_object parse fs = (case fs of
     [(k, Str s)] \<Rightarrow> if k = b64_key then Some (Buf (b64_read s)) else if k = date_key then Some (DateV (parse s)) else None
   | [_, _] \<Rightarrow> (case (map_of fs (units_of ''type''), map_of fs (units_of ''data'')) of
        (Some (Str t), Some (Arr vs)) \<Rightarrow> if t = units_of ''Buffer'' then Some (Buf (map legacy_byte vs)) else None
      | _ \<Rightarrow> None)
   | _ \<Rightarrow> None)"

fun fromWire :: "(units \<Rightarrow> int option) \<Rightarrow> js \<Rightarrow> js" where
  "fromWire parse (Arr vs) = Arr (map (fromWire parse) vs)"
| "fromWire parse (Obj fs) = (case wire_object parse fs of Some v \<Rightarrow> v
     | None \<Rightarrow> Obj (map (\<lambda>(k, v). (k, fromWire parse v)) (filter (\<lambda>(k, v). k \<noteq> proto_key) fs)))"
| "fromWire parse v = v"

definition field_of :: "string \<Rightarrow> js \<Rightarrow> js option" where
  "field_of k v = (case v of Obj fs \<Rightarrow> map_of fs (units_of k) | _ \<Rightarrow> None)"

definition set_field :: "units \<Rightarrow> js \<Rightarrow> (units \<times> js) list \<Rightarrow> (units \<times> js) list" where
  "set_field k v fs = AList.update k v fs"

definition revive :: "(units \<Rightarrow> int option) \<Rightarrow> js \<Rightarrow> js" where
  "revive parse v = (case v of Str s \<Rightarrow> DateV (parse s) | _ \<Rightarrow> v)"

definition falsy :: "js \<Rightarrow> bool" where
  "falsy v \<longleftrightarrow> v = Undef \<or> v = Null \<or> v = Bool False \<or> v = Num 0 \<or> v = Str []"

text \<open>The own enumerable properties of a value, as the spread of an object literal copies them.\<close>

definition spread :: "js \<Rightarrow> (units \<times> js) list" where
  "spread v = (case v of Obj fs \<Rightarrow> fs
     | Arr vs \<Rightarrow> zip (map (\<lambda>i. units_of (show_nat i)) [0..<length vs]) vs
     | Str us \<Rightarrow> zip (map (\<lambda>i. units_of (show_nat i)) [0..<length us]) (map (\<lambda>u. Str [u]) us)
     | Buf bs \<Rightarrow> zip (map (\<lambda>i. units_of (show_nat i)) [0..<length bs]) (map (\<lambda>b. Num (int b)) bs)
     | U8 bs \<Rightarrow> zip (map (\<lambda>i. units_of (show_nat i)) [0..<length bs]) (map (\<lambda>b. Num (int b)) bs)
     | _ \<Rightarrow> [])"

definition ical_dates :: "units list" where
  "ical_dates = map units_of [''start'', ''end'', ''created'', ''lastModified'', ''stamp'']"

definition reviveLegacyDates :: "(units \<Rightarrow> int option) \<Rightarrow> js \<Rightarrow> js" where
  "reviveLegacyDates parse opts =
     (let out = spread opts;
          fs = (case map_of out (units_of ''date'') of None \<Rightarrow> out
                | Some d \<Rightarrow> if d = Undef then out else set_field (units_of ''date'') (revive parse d) out)
      in case map_of fs (units_of ''ical'') of None \<Rightarrow> Obj fs
         | Some ic \<Rightarrow> if falsy ic then Obj fs
             else Obj (set_field (units_of ''ical'')
               (Obj (map (\<lambda>(k, v). (k, if k \<in> set ical_dates then revive parse v else v)) (spread ic))) fs))"

definition decodeOptions :: "(units \<Rightarrow> int option) \<Rightarrow> js \<Rightarrow> js" where
  "decodeOptions parse parsed = (case parsed of
     Obj fs \<Rightarrow> (if map_of fs v_key \<noteq> None \<and> map_of fs o_key \<noteq> None then fromWire parse (the (map_of fs o_key))
                else reviveLegacyDates parse (fromWire parse parsed))
   | _ \<Rightarrow> reviveLegacyDates parse (fromWire parse parsed))"

section \<open>Whole jobs\<close>

text \<open>
  A job as the codec sees it: its status and priority are texts, an absent date is None and an invalid one
  Some None, and the error objects are those of the hierarchy.
\<close>

record coded_job =
  cj_id :: units
  cj_options :: js
  cj_status :: units
  cj_priority :: units
  cj_attempts :: int
  cj_createdAt :: "int option"
  cj_lastAttemptAt :: "int option option"
  cj_errors :: "mail_error list"
  cj_notBefore :: "int option option"
  cj_cancelledAt :: "int option option"
  cj_idempotencyKey :: "units option"

definition error_codes :: "(error_code \<times> units) list" where
  "error_codes = map (\<lambda>(c, t). (c, units_of t)) [(ECONFIG, ''ECONFIG''), (ECONN, ''ECONN''), (EAUTH, ''EAUTH''),
     (EREJECT, ''EREJECT''), (ETIMEOUT, ''ETIMEOUT''), (EPIPE, ''EPIPE''), (ETLS, ''ETLS''), (EMIME, ''EMIME''),
     (EQUEUE, ''EQUEUE''), (EIMAP, ''EIMAP''), (ETEMPLATE, ''ETEMPLATE''), (ELIMIT, ''ELIMIT'')]"

definition code_text :: "error_code \<Rightarrow> units" where "code_text c = the (map_of error_codes c)"
definition text_code :: "units \<Rightarrow> error_code option" where
  "text_code t = map_of (map (\<lambda>(c, u). (u, c)) error_codes) t"

definition encodeErrors :: "mail_error list \<Rightarrow> js" where
  "encodeErrors es = Arr (map (\<lambda>e. Obj [(units_of ''message'', Str (units_of (e_message e))),
     (units_of ''code'', Str (code_text (e_code e))), (units_of ''retryable'', Bool (e_retryable e))]) es)"

text \<open>None where a field has not the type the encoder writes, which the code would coerce or hand on.\<close>

definition decode_error :: "js \<Rightarrow> mail_error option" where
  "decode_error v = (case (field_of ''message'' v, field_of ''code'' v, field_of ''retryable'' v) of
     (Some (Str m), Some (Str c), Some (Bool r)) \<Rightarrow> map_option (\<lambda>code. MailTsError (latin1 m) code r) (text_code c)
   | _ \<Rightarrow> None)"

fun decode_all :: "('a \<Rightarrow> 'b option) \<Rightarrow> 'a list \<Rightarrow> 'b list option" where
  "decode_all f [] = Some []"
| "decode_all f (x # xs) = (case f x of None \<Rightarrow> None | Some y \<Rightarrow> map_option (Cons y) (decode_all f xs))"

definition decodeErrors :: "js \<Rightarrow> mail_error list option" where
  "decodeErrors v = (case v of Arr vs \<Rightarrow> decode_all decode_error vs | _ \<Rightarrow> None)"

definition iso_date :: "(int \<Rightarrow> units) \<Rightarrow> int option \<Rightarrow> thrown + js" where
  "iso_date isoText t = (case t of None \<Rightarrow> Inl range_error | Some ms \<Rightarrow> Inr (Str (isoText ms)))"

definition iso_or_null :: "(int \<Rightarrow> units) \<Rightarrow> int option option \<Rightarrow> thrown + js" where
  "iso_or_null isoText t = (case t of None \<Rightarrow> Inr Null | Some d \<Rightarrow> iso_date isoText d)"

definition encodeJob :: "(int \<Rightarrow> units) \<Rightarrow> coded_job \<Rightarrow> thrown + js" where
  "encodeJob isoText job = (case iso_date isoText (cj_createdAt job) of Inl e \<Rightarrow> Inl e | Inr created \<Rightarrow>
     (case iso_or_null isoText (cj_lastAttemptAt job) of Inl e \<Rightarrow> Inl e | Inr last_at \<Rightarrow>
     (case iso_or_null isoText (cj_notBefore job) of Inl e \<Rightarrow> Inl e | Inr nb \<Rightarrow>
     (case iso_or_null isoText (cj_cancelledAt job) of Inl e \<Rightarrow> Inl e | Inr cancelled \<Rightarrow>
     (case toWire isoText ''options'' (cj_options job) of Inl e \<Rightarrow> Inl e | Inr w \<Rightarrow>
       Inr (json_text (Obj [(units_of ''v'', Num 1), (units_of ''id'', Str (cj_id job)), (units_of ''status'', Str (cj_status job)),
         (units_of ''priority'', Str (cj_priority job)), (units_of ''attempts'', Num (cj_attempts job)),
         (units_of ''createdAt'', created), (units_of ''lastAttemptAt'', last_at), (units_of ''notBefore'', nb),
         (units_of ''cancelledAt'', cancelled), (units_of ''errors'', encodeErrors (cj_errors job)), (units_of ''o'', w)])))))))"

definition text_field :: "string \<Rightarrow> js \<Rightarrow> units option" where
  "text_field k v = (case field_of k v of Some (Str s) \<Rightarrow> Some s | _ \<Rightarrow> None)"

text \<open>j[k] ? new Date(String(j[k])) : null\<close>

definition date_field :: "(units \<Rightarrow> int option) \<Rightarrow> string \<Rightarrow> js \<Rightarrow> int option option" where
  "date_field parse k v = (case field_of k v of Some (Str s) \<Rightarrow> if s = [] then None else Some (parse s) | _ \<Rightarrow> None)"

definition decodeJob :: "(units \<Rightarrow> int option) \<Rightarrow> js \<Rightarrow> coded_job option" where
  "decodeJob parse j = (case (text_field ''id'' j, text_field ''status'' j, text_field ''createdAt'' j) of
     (Some i, Some st, Some created) \<Rightarrow>
       (case (case field_of ''attempts'' j of Some (Num n) \<Rightarrow> Some n | Some Null \<Rightarrow> Some 0 | None \<Rightarrow> Some 0 | _ \<Rightarrow> None,
              decodeErrors (case field_of ''errors'' j of Some Null \<Rightarrow> Arr [] | None \<Rightarrow> Arr [] | Some es \<Rightarrow> es)) of
          (Some n, Some es) \<Rightarrow> Some \<lparr> cj_id = i,
            cj_options = (case field_of ''o'' j of Some w \<Rightarrow> fromWire parse w | None \<Rightarrow> Undef),
            cj_status = st,
            cj_priority = (case text_field ''priority'' j of Some p \<Rightarrow> p | None \<Rightarrow> units_of ''normal''),
            cj_attempts = n, cj_createdAt = parse created, cj_lastAttemptAt = date_field parse ''lastAttemptAt'' j, cj_errors = es,
            cj_notBefore = date_field parse ''notBefore'' j, cj_cancelledAt = date_field parse ''cancelledAt'' j,
            cj_idempotencyKey = None \<rparr>
        | _ \<Rightarrow> None)
   | _ \<Rightarrow> None)"

section \<open>What survives\<close>

text \<open>A value JSON can hold, and a value toWire accepts.\<close>

fun plain_json :: "js \<Rightarrow> bool" where
  "plain_json (Arr vs) = list_all plain_json vs"
| "plain_json (Obj fs) = list_all (\<lambda>f. plain_json (snd f)) fs"
| "plain_json v = (case v of Null \<Rightarrow> True | Bool _ \<Rightarrow> True | Num _ \<Rightarrow> True | Str _ \<Rightarrow> True | _ \<Rightarrow> False)"

fun storable :: "js \<Rightarrow> bool" where
  "storable (Arr vs) = list_all storable vs"
| "storable (Obj fs) = (\<not> has_pipe fs \<and> list_all (\<lambda>f. storable (snd f)) fs)"
| "storable v = (v \<noteq> Stream \<and> v \<noteq> Func \<and> v \<noteq> DateV None)"

lemma toWire_storable:
  "(\<exists>w. toWire isoText path v = Inr w) = storable v"
  "(\<exists>ws. toWireItems isoText path i vs = Inr ws) = list_all storable vs"
  "(\<exists>ws. toWireFields isoText path fs = Inr ws) = list_all (\<lambda>f. storable (snd f)) fs"
  by (induction v and vs and fs rule: toWire_toWireItems_toWireFields.induct) (auto split: sum.splits option.splits)

lemma toWire_plain:
  "toWire isoText path v = Inr w \<Longrightarrow> w \<noteq> Undef \<Longrightarrow> plain_json (json_text w)"
  "toWireItems isoText path i vs = Inr ws \<Longrightarrow> list_all (\<lambda>w. w \<noteq> Undef \<longrightarrow> plain_json (json_text w)) ws"
  "toWireFields isoText path fs = Inr gs \<Longrightarrow> list_all (\<lambda>f. snd f \<noteq> Undef \<longrightarrow> plain_json (json_text (snd f))) gs"
proof (induction v and vs and fs arbitrary: w and ws and gs rule: toWire_toWireItems_toWireFields.induct)
  case (8 isoText path vs)
  then show ?case by (force simp: list_all_iff split: sum.splits)
next
  case (9 isoText path fs)
  then show ?case by (force simp: list_all_iff split: sum.splits if_splits)
qed (auto simp: b64_text_def split: sum.splits if_splits option.splits)

text \<open>C27: What the queue stores is plain JSON: strings, numbers, booleans, null, arrays and objects only, so
  the database never holds a value JSON cannot; and a value is refused exactly when it holds a stream, a
  function or an invalid date somewhere, never silently dropped.\<close>

theorem stored_options_are_plain_json:
  "(\<forall>t. encodeOptions isoText v = Inr t \<longrightarrow> plain_json t) \<and>
   ((\<exists>t. encodeOptions isoText v = Inr t) \<longleftrightarrow> storable v)"
  using toWire_storable(1)[of isoText "''options''" v] toWire_plain(1)[of isoText "''options''" v]
  by (auto simp: encodeOptions_def split: sum.splits)

lemma stored_options_are_plain_json_witness:
  "plain_json (Obj [(v_key, Num 1), (o_key, Obj [(units_of ''text'', Str [65]), (units_of ''a'', Obj [(b64_key, b64_text [1])])])])"
proof -
  let ?v = "Obj [(units_of ''text'', Str [65]), (units_of ''a'', Buf [1]), (units_of ''x'', Undef)]"
  have "encodeOptions (\<lambda>_. []) ?v = Inr (Obj [(v_key, Num 1), (o_key, Obj [(units_of ''text'', Str [65]), (units_of ''a'', Obj [(b64_key, b64_text [1])])])])"
    by (simp add: encodeOptions_def has_pipe_def units_of_def proto_key_def b64_text_def)
  then show ?thesis using stored_options_are_plain_json by blast
qed

section \<open>The round trip\<close>

definition live :: "(units \<times> js) list \<Rightarrow> (units \<times> js) list" where
  "live fs = filter (\<lambda>(k, v). v \<noteq> Undef \<and> k \<noteq> proto_key) fs"

text \<open>An object that reads as an encoded Buffer or Date although it is none.\<close>

definition ambiguous :: "(units \<times> js) list \<Rightarrow> bool" where
  "ambiguous fs = (case fs of
     [(k, v)] \<Rightarrow> (\<exists>s. v = Str s) \<and> (k = b64_key \<or> k = date_key)
   | [_, _] \<Rightarrow> map_of fs (units_of ''type'') = Some (Str (units_of ''Buffer'')) \<and> (\<exists>vs. map_of fs (units_of ''data'') = Some (Arr vs))
   | _ \<Rightarrow> False)"

definition date_range :: int where "date_range = 8640000000000000"

text \<open>Values the queue gives back: no ambiguous object, dates a Date can hold, bytes in buffers.\<close>

fun faithful :: "js \<Rightarrow> bool" where
  "faithful (Arr vs) = list_all faithful vs"
| "faithful (Obj fs) = (\<not> ambiguous (live fs) \<and> list_all (\<lambda>f. faithful (snd f)) fs)"
| "faithful (Buf bs) = bytes_ok bs"
| "faithful (U8 bs) = bytes_ok bs"
| "faithful (DateV t) = (case t of None \<Rightarrow> False | Some ms \<Rightarrow> \<bar>ms\<bar> \<le> date_range)"
| "faithful v = True"

fun norm :: "js \<Rightarrow> js" where
  "norm (Arr vs) = Arr (map (\<lambda>v. if v = Undef then Null else norm v) vs)"
| "norm (Obj fs) = Obj (map (\<lambda>(k, v). (k, norm v)) (filter (\<lambda>(k, v). v \<noteq> Undef \<and> k \<noteq> proto_key) fs))"
| "norm (U8 bs) = Buf bs"
| "norm v = v"

lemma b64_read_text: "bytes_ok bs \<Longrightarrow> b64_read (units_of (b64_encode bs)) = bs"
proof -
  assume b: "bytes_ok bs"
  have "filter (\<lambda>u. u < 256) (units_of s) = units_of s" for s by (induction s) (simp_all add: units_of_def)
  then show ?thesis using base64.dec_enc[OF b] by (simp add: b64_read_def latin1_units)
qed

text \<open>The shape of a value shows in what is stored of it.\<close>

lemma wire_shape:
  assumes "toWire isoText path v = Inr w"
  shows "json_text w = Str s \<longleftrightarrow> v = Str s" "(\<exists>l. json_text w = Arr l) \<longleftrightarrow> (\<exists>l. v = Arr l)" "w = Undef \<longleftrightarrow> v = Undef"
  using assms by (cases v; auto split: option.splits if_splits sum.splits)+

definition stored :: "(int \<Rightarrow> units) \<Rightarrow> units \<times> js \<Rightarrow> units \<times> js \<Rightarrow> bool" where
  "stored isoText f g \<longleftrightarrow> fst g = fst f \<and> (\<exists>p. toWire isoText p (snd f) = Inr (snd g))"

lemma fields_shape: "toWireFields isoText path fs = Inr gs \<Longrightarrow> list_all2 (stored isoText) (live fs) gs"
proof (induction fs arbitrary: gs)
  case (Cons f fs)
  obtain k v where f: "f = (k, v)" by fastforce
  show ?case
  proof (cases "v = Undef")
    case True
    then show ?thesis using Cons by (simp add: f live_def)
  next
    case False
    then obtain w ws where w: "toWire isoText (path @ ''.'' @ latin1 k) v = Inr w" "toWireFields isoText path fs = Inr ws"
      "gs = (if k = proto_key then ws else (k, w) # ws)" using Cons.prems by (auto simp: f split: sum.splits)
    then show ?thesis using Cons.IH[OF w(2)] False by (auto simp: f live_def stored_def)
  qed
qed (simp add: live_def)

definition texts :: "(units \<times> js) list \<Rightarrow> (units \<times> js) list" where "texts gs = map (\<lambda>(k, w). (k, json_text w)) gs"

lemma stored_field:
  assumes "list_all2 (stored isoText) fs gs" "map_of (texts gs) k = Some x"
  shows "\<exists>v w p. map_of fs k = Some v \<and> toWire isoText p v = Inr w \<and> x = json_text w"
  using assms(1) assms(2)
proof (induction rule: list_all2_induct)
  case (Cons f fs g gs)
  show ?case
  proof (cases "fst f = k")
    case True
    then have "x = json_text (snd g)" using Cons by (cases g) (simp add: texts_def stored_def)
    then show ?thesis using Cons(1) True by (cases f) (auto simp: stored_def)
  next
    case False
    then have "map_of (texts gs) k = Some x" using Cons by (cases g) (simp add: texts_def stored_def)
    then show ?thesis using Cons.IH False by (cases f) simp
  qed
qed (simp add: texts_def)

lemma ambiguous_stored:
  assumes st: "list_all2 (stored isoText) fs gs" and w: "wire_object parse (texts gs) = Some x"
  shows "ambiguous fs"
proof -
  consider (one) k s where "texts gs = [(k, Str s)]" "k = b64_key \<or> k = date_key"
    | (two) a b vs where "texts gs = [a, b]" "map_of (texts gs) (units_of ''type'') = Some (Str (units_of ''Buffer''))"
        "map_of (texts gs) (units_of ''data'') = Some (Arr vs)"
    using w by (auto simp: wire_object_def split: list.splits prod.splits js.splits if_splits option.splits)
  then show ?thesis
  proof cases
    case one
    then obtain w where g: "gs = [(k, w)]" "json_text w = Str s" by (auto simp: texts_def)
    then obtain v p where "fs = [(k, v)]" "toWire isoText p v = Inr w"
      using st by (auto simp: list_all2_Cons2 stored_def)
    then show ?thesis using one(2) wire_shape(1)[of isoText p v w s] g(2) by (auto simp: ambiguous_def)
  next
    case two
    have "length gs = 2" using arg_cong[OF two(1), of length] by (simp add: texts_def)
    then have "length fs = 2" using st by (simp add: list_all2_lengthD)
    then obtain c d where fs: "fs = [c, d]" by (auto simp: numeral_2_eq_2 length_Suc_conv)
    obtain v w p where "map_of fs (units_of ''type'') = Some v" "toWire isoText p v = Inr w" "Str (units_of ''Buffer'') = json_text w"
      using stored_field[OF st two(2)] by blast
    then have t: "map_of fs (units_of ''type'') = Some (Str (units_of ''Buffer''))" using wire_shape(1)[of isoText p v w] by metis
    obtain v w p where "map_of fs (units_of ''data'') = Some v" "toWire isoText p v = Inr w" "Arr vs = json_text w"
      using stored_field[OF st two(3)] by blast
    then have "\<exists>l. map_of fs (units_of ''data'') = Some (Arr l)" using wire_shape(2)[of isoText p v w] by metis
    then show ?thesis using t by (simp add: ambiguous_def fs)
  qed
qed

text \<open>Dates read back what was written, wherever a Date can be.\<close>

definition dates_read :: "(int \<Rightarrow> units) \<Rightarrow> (units \<Rightarrow> int option) \<Rightarrow> bool" where
  "dates_read isoText parse \<longleftrightarrow> (\<forall>ms. \<bar>ms\<bar> \<le> date_range \<longrightarrow> parse (isoText ms) = Some ms \<and> isoText ms \<noteq> [])"

lemma live_wire:
  assumes d: "toWireFields isoText path fs = Inr gs"
    and ih: "\<And>k w. (k, w) \<in> set gs \<Longrightarrow> w \<noteq> Undef"
  shows "filter (\<lambda>(k, v). v \<noteq> Undef) gs = gs \<and> filter (\<lambda>(k, v). k \<noteq> proto_key) (texts gs) = texts gs"
proof -
  have "fst g \<noteq> proto_key" if "g \<in> set gs" for g
    using fields_shape[OF d] that by (auto simp: list_all2_conv_all_nth in_set_conv_nth stored_def live_def)
       (metis (mono_tags, lifting) case_prodE fst_conv mem_Collect_eq nth_mem set_filter)
  then show ?thesis using ih by (force simp: filter_id_conv texts_def)
qed

lemma wire_back:
  "dates_read isoText parse \<Longrightarrow> toWire isoText path v = Inr w \<Longrightarrow> faithful v \<Longrightarrow> v \<noteq> Undef \<Longrightarrow>
     fromWire parse (json_text w) = norm v"
  "dates_read isoText parse \<Longrightarrow> toWireItems isoText path i vs = Inr ws \<Longrightarrow> list_all faithful vs \<Longrightarrow>
     fromWire parse (json_text (Arr ws)) = norm (Arr vs)"
  "dates_read isoText parse \<Longrightarrow> toWireFields isoText path fs = Inr gs \<Longrightarrow> list_all (\<lambda>f. faithful (snd f)) fs \<Longrightarrow>
     map (\<lambda>(k, x). (k, fromWire parse x)) (texts gs) = map (\<lambda>(k, x). (k, norm x)) (live fs)"
proof (induction v and vs and fs arbitrary: w and ws and gs rule: toWire_toWireItems_toWireFields.induct)
  case (9 isoText path fs)
  then obtain gs where g: "toWireFields isoText path fs = Inr gs" "w = Obj gs" "\<not> has_pipe fs"
    by (auto split: sum.splits if_splits)
  have u: "x \<noteq> Undef" if "(k, x) \<in> set gs" for k x
    using fields_shape[OF g(1)] that wire_shape(3)
    by (auto simp: list_all2_conv_all_nth in_set_conv_nth stored_def live_def)
      (metis (mono_tags, lifting) case_prodD mem_Collect_eq nth_mem prod.collapse set_filter snd_conv)
  have "wire_object parse (texts gs) = None"
    using ambiguous_stored[OF fields_shape[OF g(1)], of parse] 9(4) by (cases "wire_object parse (texts gs)") auto
  then show ?case using 9(1)[OF g(3) 9(2) g(1)] 9(4) live_wire[OF g(1) u]
    by (simp add: g(2) live_def flip: texts_def)
qed (auto simp: b64_text_def b64_read_text wire_object_def wire_keys dates_read_def live_def texts_def wire_shape split: sum.splits if_splits option.splits)

text \<open>C28: Options come back as they were queued.  Whatever the queue accepts and stores, decodeOptions gives
  back with every Buffer and Date restored, a Uint8Array as a Buffer, undefined fields left out and undefined
  list elements as null; the exceptions are written out in faithful: an object that looks like an encoded
  Buffer or Date, and a date out of range.\<close>

theorem queued_options_come_back:
  assumes "encodeOptions isoText v = Inr t" "faithful v" "v \<noteq> Undef" "dates_read isoText parse"
  shows "decodeOptions parse t = norm v"
proof -
  obtain w where w: "toWire isoText ''options'' v = Inr w" "t = json_text (Obj [(v_key, Num 1), (o_key, w)])"
    using assms(1) by (auto simp: encodeOptions_def split: sum.splits)
  have "w \<noteq> Undef" "v_key \<noteq> o_key" using wire_shape(3)[OF w(1)] assms(3) by (simp_all add: v_key_def o_key_def units_of_def)
  then show ?thesis using wire_back(1)[OF assms(4) w(1) assms(2,3)] by (simp add: w(2) decodeOptions_def)
qed

lemma queued_options_come_back_witness:
  "\<exists>t. encodeOptions (\<lambda>ms. [nat (ms + date_range)]) (Obj [(units_of ''date'', DateV (Some 7)), (units_of ''a'', Arr [U8 [1, 2, 255], Undef, Buf []]), (units_of ''b'', Undef)]) = Inr t
     \<and> decodeOptions (\<lambda>s. Some (int (hd s) - date_range)) t = Obj [(units_of ''date'', DateV (Some 7)), (units_of ''a'', Arr [Buf [1, 2, 255], Null, Buf []])]"
proof -
  let ?iso = "\<lambda>ms. [nat (ms + date_range)]" and ?parse = "\<lambda>s. Some (int (hd s) - date_range)"
  let ?v = "Obj [(units_of ''date'', DateV (Some 7)), (units_of ''a'', Arr [U8 [1, 2, 255], Undef, Buf []]), (units_of ''b'', Undef)]"
  have s: "storable ?v" by (simp add: has_pipe_def units_of_def)
  then obtain t where t: "encodeOptions ?iso ?v = Inr t" using toWire_storable(1)[of ?iso "''options''" ?v] by (auto simp: encodeOptions_def)
  have d: "dates_read ?iso ?parse" by (auto simp: dates_read_def date_range_def)
  have f: "faithful ?v" by (simp add: ambiguous_def live_def units_of_def proto_key_def date_range_def bytes_ok_def b64_key_def date_key_def)
  have "norm ?v = Obj [(units_of ''date'', DateV (Some 7)), (units_of ''a'', Arr [Buf [1, 2, 255], Null, Buf []])]"
    by (simp add: units_of_def proto_key_def)
  then show ?thesis using queued_options_come_back[OF t f _ d] t by simp
qed

section \<open>The round trip of a job\<close>

lemma text_code_text: "text_code (code_text c) = Some c"
  by (cases c) (simp_all add: text_code_def code_text_def error_codes_def units_of_def)

definition dates_ok :: "int option option \<Rightarrow> bool" where
  "dates_ok t \<longleftrightarrow> (case t of Some (Some ms) \<Rightarrow> \<bar>ms\<bar> \<le> date_range | _ \<Rightarrow> True)"

definition job_dates_ok :: "coded_job \<Rightarrow> bool" where
  "job_dates_ok job \<longleftrightarrow> dates_ok (Some (cj_createdAt job)) \<and> dates_ok (cj_lastAttemptAt job) \<and> dates_ok (cj_notBefore job)
     \<and> dates_ok (cj_cancelledAt job)"

lemma decode_errors_back:
  "decodeErrors (json_text (encodeErrors es)) = Some (map (\<lambda>e. MailTsError (e_message e) (e_code e) (e_retryable e)) es)"
proof -
  have "decode_all decode_error (map (\<lambda>v. if v = Undef then Null else json_text v)
          (map (\<lambda>e. Obj [(units_of ''message'', Str (units_of (e_message e))),
             (units_of ''code'', Str (code_text (e_code e))), (units_of ''retryable'', Bool (e_retryable e))]) es))
        = Some (map (\<lambda>e. MailTsError (e_message e) (e_code e) (e_retryable e)) es)"
    by (induction es) (auto simp: decode_error_def field_of_def text_code_text units_of_def latin1_def)
  then show ?thesis by (simp add: decodeErrors_def encodeErrors_def)
qed

lemma iso_or_null_facts:
  assumes "iso_or_null isoText t = Inr x" "dates_read isoText parse" "dates_ok t"
  shows "x \<noteq> Undef" "json_text x = x" "(case x of Str s \<Rightarrow> if s = [] then None else Some (parse s) | _ \<Rightarrow> None) = t"
  using assms by (auto simp: iso_or_null_def iso_date_def dates_read_def dates_ok_def split: option.splits)

lemma iso_date_facts:
  assumes "iso_date isoText t = Inr x" "dates_read isoText parse" "dates_ok (Some t)"
  shows "\<exists>s. x = Str s \<and> parse s = t"
  using assms by (auto simp: iso_date_def dates_read_def dates_ok_def split: option.splits)

text \<open>A job comes back whole but for the classes of its errors, which are those of the base class, and its idempotency key.\<close>

lemma encoded_job_comes_back:
  assumes e: "encodeJob isoText job = Inr t" and f: "faithful (cj_options job)" "cj_options job \<noteq> Undef"
    and d: "dates_read isoText parse" "job_dates_ok job"
  shows "decodeJob parse t = Some (job \<lparr> cj_options := norm (cj_options job),
    cj_errors := map (\<lambda>e. MailTsError (e_message e) (e_code e) (e_retryable e)) (cj_errors job), cj_idempotencyKey := None \<rparr>)"
proof -
  obtain c l n k w where p: "iso_date isoText (cj_createdAt job) = Inr c" "iso_or_null isoText (cj_lastAttemptAt job) = Inr l"
    "iso_or_null isoText (cj_notBefore job) = Inr n" "iso_or_null isoText (cj_cancelledAt job) = Inr k"
    "toWire isoText ''options'' (cj_options job) = Inr w"
    using e by (auto simp: encodeJob_def split: sum.splits)
  have w: "w \<noteq> Undef" "fromWire parse (json_text w) = norm (cj_options job)"
    using wire_shape(3)[OF p(5)] f wire_back(1)[OF d(1) p(5) f] by simp_all
  obtain s where s: "c = Str s" "parse s = cj_createdAt job" using iso_date_facts[OF p(1) d(1)] d(2) by (auto simp: job_dates_ok_def)
  note l = iso_or_null_facts[OF p(2) d(1)] and n = iso_or_null_facts[OF p(3) d(1)] and k = iso_or_null_facts[OF p(4) d(1)]
  have ok: "dates_ok (cj_lastAttemptAt job)" "dates_ok (cj_notBefore job)" "dates_ok (cj_cancelledAt job)"
    using d(2) by (simp_all add: job_dates_ok_def)
  have er: "encodeErrors (cj_errors job) \<noteq> Undef" "json_text (encodeErrors (cj_errors job)) \<noteq> Null"
    by (simp_all add: encodeErrors_def)
  have t: "t = Obj [(units_of ''v'', Num 1), (units_of ''id'', Str (cj_id job)), (units_of ''status'', Str (cj_status job)),
         (units_of ''priority'', Str (cj_priority job)), (units_of ''attempts'', Num (cj_attempts job)),
         (units_of ''createdAt'', Str s), (units_of ''lastAttemptAt'', l), (units_of ''notBefore'', n),
         (units_of ''cancelledAt'', k), (units_of ''errors'', json_text (encodeErrors (cj_errors job))), (units_of ''o'', json_text w)]"
    using e p w(1) er(1) s(1) l(1,2)[OF ok(1)] n(1,2)[OF ok(2)] k(1,2)[OF ok(3)] by (simp add: encodeJob_def)
  have es: "(case json_text (encodeErrors (cj_errors job)) of Null \<Rightarrow> Arr [] | es \<Rightarrow> es) = json_text (encodeErrors (cj_errors job))"
    using er(2) by (simp split: js.splits)
  show ?thesis using l(3)[OF ok(1)] n(3)[OF ok(2)] k(3)[OF ok(3)] s(2) w(2) es
    by (simp add: t decodeJob_def text_field_def field_of_def date_field_def units_of_def decode_errors_back)
qed

end
