(* ===== verification/SqliteQueue.thy ===== *)
theory SqliteQueue
  imports QueueHold JobCodec
begin

text \<open>
  The persistent queue, src/src/queue/SqliteQueue.ts, over a model of its two tables: rows by primary key in
  insertion order, and the SQL statements of the code as functions on them.  The base class is the model of
  MailQueue; the event handlers that write a job to its row run inside the base operation in the code and
  after it here, on the events it emitted, which leaves the same row because no operation changes a job
  after its last event for it.  The texts of the options column are values of JobCodec; reading and
  writing them (dec, enc), the clock and the test for a live process are parameters.  Timestamps are
  milliseconds, which ISO texts order in the same way.
\<close>

section \<open>The tables\<close>

record job_row =
  rw_options :: js
  rw_status :: job_status
  rw_priority :: job_priority
  rw_attempts :: int
  rw_created :: int
  rw_last :: "int option"
  rw_errors :: "mail_error list"
  rw_cancelled :: "int option"
  rw_notBefore :: "int option"
  rw_owner :: "string option"
  rw_lease :: "int option"
  rw_key :: "string option"

record database =
  db_jobs :: "(string, job_row) jsmap"
  db_control :: "(string, control_reason \<times> int) jsmap"

definition lease_ms :: int where "lease_ms = 30000"
definition poll_ms :: int where "poll_ms = 5000"

text \<open>UPDATE, and the SELECT and DELETE that go with a WHERE clause.\<close>

definition sql_update :: "(string \<Rightarrow> job_row \<Rightarrow> bool) \<Rightarrow> (job_row \<Rightarrow> job_row) \<Rightarrow> database \<Rightarrow> database" where
  "sql_update P f db = db \<lparr> db_jobs := map (\<lambda>(i, w). (i, if P i w then f w else w)) (db_jobs db) \<rparr>"

definition sql_select :: "(string \<Rightarrow> job_row \<Rightarrow> bool) \<Rightarrow> database \<Rightarrow> (string \<times> job_row) list" where
  "sql_select P db = filter (\<lambda>(i, w). P i w) (db_jobs db)"

definition by_created :: "(string \<times> job_row) list \<Rightarrow> (string \<times> job_row) list" where
  "by_created rows = sort_key (\<lambda>(i, w). rw_created w) rows"

definition sql_delete :: "(string \<Rightarrow> job_row \<Rightarrow> bool) \<Rightarrow> database \<Rightarrow> database" where
  "sql_delete P db = db \<lparr> db_jobs := filter (\<lambda>(i, w). \<not> P i w) (db_jobs db) \<rparr>"

section \<open>Rows and jobs\<close>

definition rowToJob :: "(js \<Rightarrow> thrown + email_options) \<Rightarrow> string \<Rightarrow> job_row \<Rightarrow> thrown + q_job" where
  "rowToJob dec i w = (case dec (rw_options w) of Inl e \<Rightarrow> Inl e
     | Inr opts \<Rightarrow> Inr \<lparr> j_id = i, j_options = opts, j_attempts = rw_attempts w, j_errors = rw_errors w,
         j_createdAt = rw_created w, j_lastAttemptAt = rw_last w, j_status = rw_status w, j_notBefore = rw_notBefore w,
         j_idempotencyKey = (case rw_key w of Some k \<Rightarrow> if k = [] then None else Some k | None \<Rightarrow> None),
         j_priority = rw_priority w, j_cancelledAt = rw_cancelled w \<rparr>)"

text \<open>What encodeErrors and decodeErrors leave of an error (decode_errors_back).\<close>

definition stored_error :: "mail_error \<Rightarrow> mail_error" where
  "stored_error e = MailTsError (e_message e) (e_code e) (e_retryable e)"

definition job_to_row :: "int \<Rightarrow> string \<Rightarrow> q_job \<Rightarrow> js \<Rightarrow> job_row" where
  "job_to_row now owner job opts = \<lparr> rw_options = opts, rw_status = j_status job, rw_priority = j_priority job,
     rw_attempts = j_attempts job, rw_created = j_createdAt job, rw_last = j_lastAttemptAt job,
     rw_errors = map stored_error (j_errors job), rw_cancelled = j_cancelledAt job, rw_notBefore = j_notBefore job,
     rw_owner = Some owner, rw_lease = Some (now + lease_ms), rw_key = j_idempotencyKey job \<rparr>"

fun status_text :: "job_status \<Rightarrow> string" where
  "status_text StPending = ''pending''"
| "status_text StScheduled = ''scheduled''"
| "status_text StRunning = ''running''"
| "status_text StSuccess = ''success''"
| "status_text StDead = ''dead''"
| "status_text StCancelled = ''cancelled''"

definition insertRow :: "(email_options \<Rightarrow> thrown + js) \<Rightarrow> int \<Rightarrow> string \<Rightarrow> q_job \<Rightarrow> database \<Rightarrow> thrown + database" where
  "insertRow enc now owner job db = (case enc (j_options job) of Inl e \<Rightarrow> Inl e
     | Inr opts \<Rightarrow>
         (case j_idempotencyKey job of
            Some k \<Rightarrow> if \<exists>w \<in> set (jsvals (db_jobs db)). rw_key w = Some k
              then Inl (ThrownMailTs (QueueError (''Duplicate idempotency key: '' @ k)))
              else Inr (db \<lparr> db_jobs := db_jobs db @ [(j_id job, job_to_row now owner job opts)] \<rparr>)
          | None \<Rightarrow> Inr (db \<lparr> db_jobs := db_jobs db @ [(j_id job, job_to_row now owner job opts)] \<rparr>)))"

definition insert_job :: "(email_options \<Rightarrow> thrown + js) \<Rightarrow> int \<Rightarrow> string \<Rightarrow> q_job \<Rightarrow> database \<Rightarrow> thrown + database" where
  "insert_job enc now owner job db = (case map_of (db_jobs db) (j_id job) of
     Some w \<Rightarrow> Inl (ThrownMailTs (QueueError (''Duplicate job id: '' @ j_id job @ '' (already '' @ status_text (rw_status w) @ '')'')))
   | None \<Rightarrow> insertRow enc now owner job db)"

definition updateStatus :: "int \<Rightarrow> string \<Rightarrow> q_job \<Rightarrow> database \<Rightarrow> database" where
  "updateStatus now owner job db = sql_update (\<lambda>i w. i = j_id job)
     (\<lambda>w. w \<lparr> rw_status := j_status job, rw_attempts := j_attempts job, rw_last := j_lastAttemptAt job,
        rw_errors := map stored_error (j_errors job), rw_cancelled := j_cancelledAt job, rw_notBefore := j_notBefore job,
        rw_owner := (if active (j_status job) then Some owner else None),
        rw_lease := (if active (j_status job) then Some (now + lease_ms) else None) \<rparr>) db"

text \<open>The handlers of wireEvents, for the events of a base operation that took the queue from q0 to q1.\<close>

definition write_events :: "int \<Rightarrow> string \<Rightarrow> mail_queue \<Rightarrow> q_event list \<Rightarrow> database \<Rightarrow> database" where
  "write_events now owner q evs db =
     fold (\<lambda>e db. case update_ref e of None \<Rightarrow> db | Some r \<Rightarrow> updateStatus now owner (job_of q r) db) evs db"

definition sync :: "int \<Rightarrow> string \<Rightarrow> bool \<Rightarrow> mail_queue \<Rightarrow> mail_queue \<Rightarrow> database \<Rightarrow> database" where
  "sync now owner isClosed q0 q1 db =
     (if isClosed then db else write_events now owner q1 (drop (length (q_trace q0)) (q_trace q1)) db)"

section \<open>Claims\<close>

definition claimable :: "int \<Rightarrow> string \<Rightarrow> job_row \<Rightarrow> bool" where
  "claimable now owner w \<longleftrightarrow> active (rw_status w) \<and>
     (case (rw_owner w, rw_lease w) of (Some o1, Some l) \<Rightarrow> o1 = owner \<or> l < now | _ \<Rightarrow> True)"

definition claim :: "int \<Rightarrow> string \<Rightarrow> string \<Rightarrow> database \<Rightarrow> bool \<times> database" where
  "claim now owner jobId db =
     (sql_select (\<lambda>i w. i = jobId \<and> claimable now owner w) db \<noteq> [],
      sql_update (\<lambda>i w. i = jobId \<and> claimable now owner w) (\<lambda>w. w \<lparr> rw_owner := Some owner, rw_lease := Some (now + lease_ms) \<rparr>) db)"

text \<open>
  host|pid|nonce: the process of an owner is known to be gone when it ran on this host under another
  process id that no process has (gone stands for process.kill(pid, 0) failing with ESRCH).
\<close>

definition dead_local :: "string \<Rightarrow> nat \<Rightarrow> (nat \<Rightarrow> bool) \<Rightarrow> string \<Rightarrow> bool" where
  "dead_local host pid gone owner = (case js_split (CHR ''|'') owner of
     h # p # _ \<Rightarrow> h = host \<and> p \<noteq> [] \<and> list_all is_digit p \<and> 0 < read_digits p \<and> read_digits p \<noteq> pid \<and> gone (read_digits p)
   | _ \<Rightarrow> False)"

definition releaseDeadLocalOwners :: "string \<Rightarrow> nat \<Rightarrow> (nat \<Rightarrow> bool) \<Rightarrow> string \<Rightarrow> database \<Rightarrow> database" where
  "releaseDeadLocalOwners host pid gone owner db =
     (let owners = remdups (List.map_filter (\<lambda>(i, w). rw_owner w) (sql_select (\<lambda>i w. rw_owner w \<noteq> Some owner \<and> active (rw_status w)) db))
      in fold (\<lambda>o1 db. if dead_local host pid gone o1
           then sql_update (\<lambda>i w. rw_owner w = Some o1) (\<lambda>w. w \<lparr> rw_owner := None, rw_lease := None \<rparr>) db else db) owners db)"

text \<open>One row of the loop of restoreJobs.\<close>

definition restore_row :: "queue_cfg \<Rightarrow> (js \<Rightarrow> thrown + email_options) \<Rightarrow> int \<Rightarrow> string \<Rightarrow> string \<times> job_row
    \<Rightarrow> database \<times> mail_queue \<Rightarrow> database \<times> mail_queue" where
  "restore_row cfg dec now owner row s = (case (row, s) of ((i, w), (db, q)) \<Rightarrow>
     if find_job i q \<noteq> None then (db, q)
     else (case claim now owner i db of
        (False, db1) \<Rightarrow> (db1, q)
      | (True, db1) \<Rightarrow>
         (case rowToJob dec i w of
            Inl e \<Rightarrow> (sql_update (\<lambda>k w. k = i) (\<lambda>w. w \<lparr> rw_status := StDead, rw_owner := None, rw_lease := None \<rparr>) db1, q)
          | Inr job \<Rightarrow>
              (let job1 = (if j_status job = StRunning then job \<lparr> j_status := StPending \<rparr> else job);
                   q1 = snd (dlq_remove i q);
                   q2 = restore cfg now job1 q1;
                   db2 = sync now owner False q1 q2 db1
               in (updateStatus now owner (job_of q2 (length (q_heap q1))) db2, q2)))))"

definition free_row :: "int \<Rightarrow> job_row \<Rightarrow> bool" where
  "free_row now w \<longleftrightarrow> active (rw_status w) \<and> (case (rw_owner w, rw_lease w) of (Some o1, Some l) \<Rightarrow> l < now | _ \<Rightarrow> True)"

definition restoreJobs :: "queue_cfg \<Rightarrow> (js \<Rightarrow> thrown + email_options) \<Rightarrow> string \<Rightarrow> nat \<Rightarrow> (nat \<Rightarrow> bool) \<Rightarrow> int \<Rightarrow> string
    \<Rightarrow> database \<times> mail_queue \<Rightarrow> database \<times> mail_queue" where
  "restoreJobs cfg dec host pid gone now owner s =
     (let db1 = releaseDeadLocalOwners host pid gone owner (fst s)
      in fold (restore_row cfg dec now owner) (by_created (sql_select (\<lambda>i w. free_row now w) db1)) (db1, snd s))"

definition loadDead :: "(js \<Rightarrow> thrown + email_options) \<Rightarrow> database \<Rightarrow> mail_queue \<Rightarrow> mail_queue" where
  "loadDead dec db q = fold (\<lambda>(i, w) q. case rowToJob dec i w of Inl e \<Rightarrow> q
      | Inr job \<Rightarrow> dlq_load (length (q_heap q)) (q \<lparr> q_heap := q_heap q @ [job] \<rparr>))
     (by_created (sql_select (\<lambda>i w. rw_status w = StDead) db)) q"

text \<open>The constructor.\<close>

definition open_queue :: "queue_cfg \<Rightarrow> (js \<Rightarrow> thrown + email_options) \<Rightarrow> string \<Rightarrow> nat \<Rightarrow> (nat \<Rightarrow> bool) \<Rightarrow> int \<Rightarrow> string \<Rightarrow> bool
    \<Rightarrow> database \<Rightarrow> database \<times> mail_queue" where
  "open_queue cfg dec host pid gone now owner sendFn db =
     (let (db1, q1) = restoreJobs cfg dec host pid gone now owner (db, loadDead dec db new_queue)
      in if sendFn then (let q2 = setSendFn cfg now q1 in (sync now owner False q1 q2 db1, q2)) else (db1, q1))"

section \<open>Polling and closing\<close>

definition renew :: "int \<Rightarrow> string \<Rightarrow> database \<Rightarrow> database" where
  "renew now owner db = sql_update (\<lambda>i w. rw_owner w = Some owner \<and> active (rw_status w)) (\<lambda>w. w \<lparr> rw_lease := Some (now + lease_ms) \<rparr>) db"

definition control_op :: "int \<Rightarrow> control_reason \<Rightarrow> string \<Rightarrow> q_op" where
  "control_op now action i = (case action of Cancel \<Rightarrow> OpCancel now i | Interrupt \<Rightarrow> OpInterrupt i | Abort \<Rightarrow> OpAbort i)"

definition handled :: "int \<Rightarrow> control_reason \<Rightarrow> string \<Rightarrow> mail_queue \<Rightarrow> bool" where
  "handled now action i q = (case action of Cancel \<Rightarrow> fst (cancel now i q) | Interrupt \<Rightarrow> fst (interrupt i q) | Abort \<Rightarrow> fst (abort_job i q))"

definition poll_control :: "queue_cfg \<Rightarrow> int \<Rightarrow> string \<Rightarrow> string \<times> control_reason \<times> int \<Rightarrow> database \<times> mail_queue \<Rightarrow> database \<times> mail_queue" where
  "poll_control cfg now owner c s = (case (c, s) of ((i, action, t), (db, q)) \<Rightarrow>
     (let q1 = q_step cfg q (control_op now action i); db1 = sync now owner False q q1 db
      in (if handled now action i q then db1 \<lparr> db_control := AList.delete i (db_control db1) \<rparr> else db1, q1)))"

definition poll :: "queue_cfg \<Rightarrow> (js \<Rightarrow> thrown + email_options) \<Rightarrow> string \<Rightarrow> nat \<Rightarrow> (nat \<Rightarrow> bool) \<Rightarrow> int \<Rightarrow> string \<Rightarrow> bool
    \<Rightarrow> database \<times> mail_queue \<Rightarrow> database \<times> mail_queue" where
  "poll cfg dec host pid gone now owner isClosed s =
     (if isClosed then s
      else let db1 = renew now owner (fst s);
               (db2, q2) = fold (poll_control cfg now owner) (db_control db1) (db1, snd s);
               db3 = db2 \<lparr> db_control := filter (\<lambda>(i, action, t). \<not> t < now - 60000) (db_control db2) \<rparr>
           in if q_paused q2 then (db3, q2) else restoreJobs cfg dec host pid gone now owner (db3, q2))"

definition close_rows :: "string \<Rightarrow> database \<Rightarrow> database" where
  "close_rows owner db = sql_update (\<lambda>i w. rw_owner w = Some owner)
     (\<lambda>w. w \<lparr> rw_owner := None, rw_lease := None, rw_status := (if rw_status w = StRunning then StPending else rw_status w) \<rparr>) db"

section \<open>Enqueue\<close>

datatype found_job = InMemory nat | Stored q_job

definition sq_findIdempotent :: "queue_cfg \<Rightarrow> (js \<Rightarrow> thrown + email_options) \<Rightarrow> int \<Rightarrow> bool \<Rightarrow> string
    \<Rightarrow> database \<times> mail_queue \<Rightarrow> (thrown + found_job option) \<times> database \<times> mail_queue" where
  "sq_findIdempotent cfg dec now isClosed key s = (case s of (db, q) \<Rightarrow>
     (case findIdempotent now key q of
        (Some r, q1) \<Rightarrow> (Inr (Some (InMemory r)), db, q1)
      | (None, q1) \<Rightarrow>
         if isClosed then (Inl (ThrownOther ''database is not open''), db, q1)
         else (case sql_select (\<lambda>i w. rw_key w = Some key) db of
            [] \<Rightarrow> (Inr None, db, q1)
          | (i, w) # _ \<Rightarrow>
              if rw_created w < now - qc_idempotencyWindowMs cfg
              then (Inr None, sql_update (\<lambda>k w. k = i) (\<lambda>w. w \<lparr> rw_key := None \<rparr>) db, q1)
              else (case find_job i q1 of Some r \<Rightarrow> (Inr (Some (InMemory r)), db, q1)
                | None \<Rightarrow> (case rowToJob dec i w of Inl e \<Rightarrow> (Inl e, db, q1) | Inr job \<Rightarrow> (Inr (Some (Stored job)), db, q1))))))"

text \<open>enqueue of MailQueue up to the event.\<close>

definition alloc_job :: "queue_cfg \<Rightarrow> int \<Rightarrow> q_job \<Rightarrow> mail_queue \<Rightarrow> mail_queue" where
  "alloc_job cfg now job q =
     (let q1 = q \<lparr> q_heap := q_heap q @ [job] \<rparr>
      in case j_idempotencyKey job of None \<Rightarrow> q1
         | Some k \<Rightarrow> q1 \<lparr> q_idempotent := AList.update k (length (q_heap q), now + qc_idempotencyWindowMs cfg) (q_idempotent q1) \<rparr>)"

definition sq_enqueue_new :: "queue_cfg \<Rightarrow> (email_options \<Rightarrow> thrown + js) \<Rightarrow> int \<Rightarrow> string \<Rightarrow> bool \<Rightarrow> q_job
    \<Rightarrow> database \<times> mail_queue \<Rightarrow> (thrown + found_job) \<times> database \<times> mail_queue" where
  "sq_enqueue_new cfg enc now owner isClosed job s = (case s of (db, q) \<Rightarrow>
     if find_job (j_id job) q \<noteq> None then (Inl (ThrownMailTs (QueueError (''Duplicate job id: '' @ j_id job))), db, q)
     else
       let r = length (q_heap q); q1 = emit (EvEnqueued r) (alloc_job cfg now job q) in
       if isClosed then (Inl (ThrownOther ''database is not open''), db, q1)
       else (case insert_job enc now owner job db of
          Inl e \<Rightarrow> (Inl e, db, q1)
        | Inr db1 \<Rightarrow> (let q2 = place cfg now r q1 in (Inr (InMemory r), sync now owner False q1 q2 db1, q2))))"

definition sq_enqueue :: "queue_cfg \<Rightarrow> (email_options \<Rightarrow> thrown + js) \<Rightarrow> (js \<Rightarrow> thrown + email_options) \<Rightarrow> int \<Rightarrow> string \<Rightarrow> bool
    \<Rightarrow> string \<Rightarrow> string \<Rightarrow> email_options \<Rightarrow> enqueue_options \<Rightarrow> database \<times> mail_queue \<Rightarrow> (thrown + found_job) \<times> database \<times> mail_queue" where
  "sq_enqueue cfg enc dec now owner isClosed newId token opts eo s =
     (if q_closed (snd s) then (Inl (ThrownMailTs (QueueError ''Queue is shut down'')), s)
      else let (existing, s1) = (case eo_idempotencyKey eo of None \<Rightarrow> (Inr None, s)
                                 | Some k \<Rightarrow> sq_findIdempotent cfg dec now isClosed k s)
           in (case existing of Inl e \<Rightarrow> (Inl e, s1) | Inr (Some f) \<Rightarrow> (Inr f, s1)
               | Inr None \<Rightarrow> sq_enqueue_new cfg enc now owner isClosed (new_job cfg now newId token opts eo) s1))"

text \<open>With a row that can be inserted this is the base enqueue.\<close>

lemma sq_enqueue_base:
  assumes "find_job (j_id job) q = None"
  shows "snd (enqueue_new cfg now job q) = place cfg now (length (q_heap q)) (emit (EvEnqueued (length (q_heap q))) (alloc_job cfg now job q))"
  using assms by (simp add: enqueue_new_def alloc_job_def Let_def)

section \<open>Helpers for other processes\<close>

definition readStats :: "database \<Rightarrow> queue_stats" where
  "readStats db = (let n = (\<lambda>s. length (sql_select (\<lambda>i w. rw_status w = s) db))
     in \<lparr> st_pending = n StPending, st_scheduled = n StScheduled, st_running = n StRunning, st_succeeded = n StSuccess,
          st_dead = n StDead, st_cancelled = n StCancelled \<rparr>)"

fun map_thrown :: "('a \<Rightarrow> thrown + 'b) \<Rightarrow> 'a list \<Rightarrow> thrown + 'b list" where
  "map_thrown f [] = Inr []"
| "map_thrown f (x # xs) = (case f x of Inl e \<Rightarrow> Inl e
     | Inr y \<Rightarrow> (case map_thrown f xs of Inl e \<Rightarrow> Inl e | Inr ys \<Rightarrow> Inr (y # ys)))"

definition readDlq :: "(js \<Rightarrow> thrown + email_options) \<Rightarrow> database \<Rightarrow> thrown + q_job list" where
  "readDlq dec db = map_thrown (\<lambda>(i, w). rowToJob dec i w) (by_created (sql_select (\<lambda>i w. rw_status w = StDead) db))"

definition requeueJob :: "string \<Rightarrow> database \<Rightarrow> bool \<times> database" where
  "requeueJob jobId db =
     (sql_select (\<lambda>i w. i = jobId \<and> rw_status w = StDead) db \<noteq> [],
      sql_update (\<lambda>i w. i = jobId \<and> rw_status w = StDead)
        (\<lambda>w. w \<lparr> rw_status := StPending, rw_attempts := 0, rw_errors := [], rw_owner := None, rw_lease := None, rw_notBefore := None \<rparr>) db)"

definition clearDlq :: "database \<Rightarrow> database" where "clearDlq db = sql_delete (\<lambda>i w. rw_status w = StDead) db"

definition requestControl :: "int \<Rightarrow> string \<Rightarrow> control_reason \<Rightarrow> database \<Rightarrow> database" where
  "requestControl now jobId action db = db \<lparr> db_control := AList.update jobId (action, now) (db_control db) \<rparr>"

end
