(* ===== verification/SqliteWorld.thy ===== *)
theory SqliteWorld
  imports SqliteQueue
begin

text \<open>
  Several processes on one queue database.  Each runs its own send queue; the rows say who holds a job and
  until when.  The abstract contract is a lease: a job has at most one holder, and passes from one process to
  another only through being free.  Operations of different processes interleave as wholes.
\<close>

section \<open>Who holds a row\<close>

definition view :: "database \<Rightarrow> string \<Rightarrow> (string \<times> int option) option" where
  "view db i = (case map_of (db_jobs db) i of None \<Rightarrow> None
     | Some w \<Rightarrow> if active (rw_status w) then map_option (\<lambda>p. (p, rw_lease w)) (rw_owner w) else None)"

lemma map_of_update_rows:
  "map_of (map (\<lambda>(i, w). (i, if P i w then f w else w)) rows) i = map_option (\<lambda>w. if P i w then f w else w) (map_of rows i)"
  by (induction rows) auto

lemma rows_sql_update [simp]:
  "map_of (db_jobs (sql_update P f db)) i = map_option (\<lambda>w. if P i w then f w else w) (map_of (db_jobs db) i)"
  by (simp add: sql_update_def map_of_update_rows)

lemma keys_sql_update [simp]: "jskeys (db_jobs (sql_update P f db)) = jskeys (db_jobs db)"
  by (induction "db_jobs db") (auto simp: sql_update_def split_def)

lemma view_update:
  "view (sql_update P f db) i = (case map_of (db_jobs db) i of None \<Rightarrow> None
     | Some w \<Rightarrow> let w' = (if P i w then f w else w) in if active (rw_status w') then map_option (\<lambda>p. (p, rw_lease w')) (rw_owner w') else None)"
  by (simp add: view_def Let_def split: option.splits)

lemma view_control [simp]: "view (db \<lparr> db_control := c \<rparr>) = view db"
  by (rule ext) (simp add: view_def)

text \<open>What happens to the rows of the processes in K: nothing.\<close>

definition free :: "string set \<Rightarrow> (string \<times> int option) option \<Rightarrow> bool" where
  "free K x \<longleftrightarrow> (\<forall>p l. x = Some (p, l) \<longrightarrow> p \<notin> K)"

definition row_frame :: "string set \<Rightarrow> (string \<Rightarrow> (string \<times> int option) option) \<Rightarrow> (string \<Rightarrow> (string \<times> int option) option) \<Rightarrow> bool" where
  "row_frame K v v' \<longleftrightarrow> (\<forall>i. v i \<noteq> v' i \<longrightarrow> free K (v i) \<and> free K (v' i))"

lemma frame_refl [simp]: "row_frame K v v" by (simp add: row_frame_def)

lemma frame_trans: "row_frame K v v1 \<Longrightarrow> row_frame K v1 v2 \<Longrightarrow> row_frame K v v2"
  unfolding row_frame_def by metis

lemma frame_owner: "row_frame K v v' \<Longrightarrow> p \<in> K \<Longrightarrow> v i = Some (p, l) \<longleftrightarrow> v' i = Some (p, l)"
  unfolding row_frame_def free_def by metis

lemma free_simps [simp]: "free K None" "free K (Some (p, l)) \<longleftrightarrow> p \<notin> K"
  by (simp_all add: free_def)

lemma frame_one: "free K (v i) \<Longrightarrow> free K x \<Longrightarrow> row_frame K v (v(i := x))"
  by (simp add: row_frame_def)

text \<open>The rows of the jobs a process holds are its own, and its leases last.\<close>

definition holds_rows :: "string \<Rightarrow> (string \<Rightarrow> (string \<times> int option) option) \<Rightarrow> mail_queue \<Rightarrow> bool" where
  "holds_rows p v q \<longleftrightarrow> (\<forall>r\<in>held q. \<exists>l. v (id_of q r) = Some (p, l))"

definition lease_from :: "int \<Rightarrow> string \<Rightarrow> (string \<Rightarrow> (string \<times> int option) option) \<Rightarrow> bool" where
  "lease_from b p v \<longleftrightarrow> (\<forall>i l. v i = Some (p, l) \<longrightarrow> (\<exists>t. l = Some t \<and> b \<le> t))"

definition linv :: "queue_cfg \<Rightarrow> int \<Rightarrow> string \<Rightarrow> database \<Rightarrow> mail_queue \<Rightarrow> bool" where
  "linv cfg b p db q \<longleftrightarrow> (\<exists>G. core cfg G {} q) \<and> holds_rows p (view db) q \<and> lease_from b p (view db) \<and> distinct (jskeys (db_jobs db))"

section \<open>Writing events\<close>

lemma view_updateStatus:
  "view (updateStatus now p job db) = (if map_of (db_jobs db) (j_id job) = None then view db
     else (view db)(j_id job := if active (j_status job) then Some (p, Some (now + lease_ms)) else None))"
  by (rule ext) (auto simp: updateStatus_def view_update view_def Let_def split: option.splits)

lemma keys_updateStatus [simp]: "jskeys (db_jobs (updateStatus now p job db)) = jskeys (db_jobs db)"
  by (simp add: updateStatus_def)

definition writable :: "string set \<Rightarrow> string \<Rightarrow> int \<Rightarrow> nat set \<Rightarrow> mail_queue \<Rightarrow> database \<Rightarrow> bool" where
  "writable K p b S q db \<longleftrightarrow> holds_rows p (view db) q \<and> lease_from b p (view db) \<and> (\<forall>r\<in>S. free K (view db (id_of q r)))"

lemma update_one:
  assumes "held q \<subseteq> S" "inj_on (id_of q) S" "\<forall>r\<in>held q. active (j_status (job_of q r))" "p \<notin> K" "b \<le> now + lease_ms"
    and "r \<in> S" "writable K p b S q db"
  shows "writable K p b S q (updateStatus now p (job_of q r) db)" "row_frame K (view db) (view (updateStatus now p (job_of q r) db))"
proof -
  let ?db = "updateStatus now p (job_of q r) db"
  show "row_frame K (view db) (view ?db)"
    using assms(4,6,7) by (auto simp: view_updateStatus writable_def intro!: frame_one)
  have s: "s = r" if "s \<in> S" "id_of q s = id_of q r" for s using that assms(2,6) by (auto dest: inj_onD)
  have "\<exists>l. view ?db (id_of q s) = Some (p, l)" if "s \<in> held q" for s
  proof -
    have v: "\<exists>l. view db (id_of q s) = Some (p, l)" using assms(7) that by (auto simp: writable_def holds_rows_def)
    show ?thesis
    proof (cases "id_of q s = id_of q r")
      case True
      then have "s = r" using s that assms(1) by blast
      then show ?thesis using v assms(3) that by (auto simp: view_updateStatus)
    qed (use v in \<open>simp add: view_updateStatus\<close>)
  qed
  moreover have "lease_from b p (view ?db)"
    using assms(5,7) by (auto simp: view_updateStatus writable_def lease_from_def)
  ultimately show "writable K p b S q ?db" using assms(4,7) by (auto simp: writable_def holds_rows_def view_updateStatus)
qed

lemma write_events_ok:
  assumes "held q \<subseteq> S" "inj_on (id_of q) S" "\<forall>r\<in>held q. active (j_status (job_of q r))" "p \<notin> K" "b \<le> now + lease_ms"
  shows "\<forall>e\<in>set evs. \<forall>r. update_ref e = Some r \<longrightarrow> r \<in> S \<Longrightarrow> writable K p b S q db \<Longrightarrow>
    writable K p b S q (write_events now p q evs db) \<and> row_frame K (view db) (view (write_events now p q evs db)) \<and>
    jskeys (db_jobs (write_events now p q evs db)) = jskeys (db_jobs db)"
proof (induction evs arbitrary: db)
  case (Cons e evs)
  show ?case
  proof (cases "update_ref e")
    case None
    then show ?thesis using Cons by (simp add: write_events_def)
  next
    case (Some r)
    then have "r \<in> S" using Cons.prems by simp
    note u = update_one[OF assms this Cons.prems(2)]
    show ?thesis using Cons.IH[OF _ u(1)] Cons.prems(1) Some frame_trans[OF u(2)] by (simp add: write_events_def)
  qed
qed (simp add: write_events_def)

lemma sync_ok:
  assumes "core cfg G {} q1" "held q1 \<subseteq> S" "inj_on (id_of q1) S" "p \<notin> K" "b \<le> now + lease_ms"
    and "emits S q q1" "writable K p b S q1 db" "distinct (jskeys (db_jobs db))"
  shows "linv cfg b p (sync now p False q q1 db) q1" "row_frame K (view db) (view (sync now p False q q1 db))"
    "writable K p b S q1 (sync now p False q q1 db)"
proof -
  obtain evs where e: "q_trace q1 = q_trace q @ evs" "\<forall>e\<in>set evs. \<forall>r. update_ref e = Some r \<longrightarrow> r \<in> S"
    using assms(6) by (auto simp: emits_def)
  have a: "\<forall>r\<in>held q1. active (j_status (job_of q1 r))" using held_core(4)[OF assms(1)] by blast
  have s: "sync now p False q q1 db = write_events now p q1 evs db" by (simp add: sync_def e(1))
  show "linv cfg b p (sync now p False q q1 db) q1" "row_frame K (view db) (view (sync now p False q q1 db))"
    "writable K p b S q1 (sync now p False q q1 db)"
    using write_events_ok[OF assms(2,3) a assms(4,5) e(2) assms(7)] assms(1,8) unfolding s linv_def writable_def by auto
qed

section \<open>Operations of one process\<close>

lemma op_linv:
  assumes "linv cfg b p db q" "q_ok q op" "\<not> takes_job op" "p \<notin> K" "b \<le> now + lease_ms"
  defines "q1 \<equiv> q_step cfg q op"
  shows "linv cfg b p (sync now p False q q1 db) q1" "row_frame K (view db) (view (sync now p False q q1 db))"
proof -
  obtain G where g: "core cfg G {} q" using assms(1) by (auto simp: linv_def)
  have c: "core cfg G {} q1" unfolding q1_def by (rule core_step[OF g assms(2)])
  have h: "held q1 \<subseteq> held q" unfolding q1_def by (rule held_op[OF g assms(2,3)])
  have "q_ids q1 = q_ids q" unfolding q1_def by (rule ids_op[OF assms(3)])
  then have i: "id_of q1 r = id_of q r" if "r \<in> held q" for r
    using held_core(1)[OF g that] ids_length[of q1 q] id_of_ids by metis
  have "inj_on (id_of q1) (held q)" using held_ids[OF g] i by (auto intro!: inj_onI)
  moreover have "writable K p b (held q) q1 db"
    using assms(1,4) i h by (fastforce simp: writable_def linv_def holds_rows_def)
  moreover have "emits (held q) q q1" unfolding q1_def by (rule emits_op[OF assms(2,3)])
  ultimately show "linv cfg b p (sync now p False q q1 db) q1" "row_frame K (view db) (view (sync now p False q q1 db))"
    using sync_ok[OF c h _ assms(4,5)] assms(1) by (simp_all add: linv_def)
qed

text \<open>A job in hand whose row is already the process's.\<close>

lemma place_linv:
  assumes c: "core cfg G {r} q" and "holds_rows p (view db) q" "view db (id_of q r) = Some (p, l)" "lease_from b p (view db)"
    and "distinct (jskeys (db_jobs db))" "p \<notin> K" "b \<le> now + lease_ms"
  defines "q1 \<equiv> place cfg now r q" and "S \<equiv> insert r (held q)"
  shows "linv cfg b p (sync now p False q q1 db) q1" "row_frame K (view db) (view (sync now p False q q1 db))"
    "writable K p b S q1 (sync now p False q q1 db)" "held q1 \<subseteq> S" "inj_on (id_of q1) S" "q_ids q1 = q_ids q" "core cfg G {} q1"
proof -
  show q: "core cfg G {} q1" unfolding q1_def by (rule core_place[OF c])
  show h: "held q1 \<subseteq> S" unfolding q1_def S_def by (rule held_place[OF c])
  show ids: "q_ids q1 = q_ids q" unfolding q1_def
    by (cases rule: place_cases[of q r cfg now]) (simp_all add: placed_def ids_set_job)
  have r: "r < length (q_heap q)" "r \<notin> G" using c by (auto simp: core_def ids_ok_def)
  have i: "id_of q1 s = id_of q s" if "s \<in> S" for s
    using that r held_core(1)[OF c] ids_length[OF ids] ids id_of_ids unfolding S_def by (metis insertE)
  show inj: "inj_on (id_of q1) S"
  proof (rule inj_onI)
    fix s t assume st: "s \<in> S" "t \<in> S" "id_of q1 s = id_of q1 t"
    then have "id_of q s = id_of q t" by (simp add: i)
    moreover have "s < length (q_heap q)" "s \<notin> G" "t < length (q_heap q)" "t \<notin> G"
      using st(1,2) r held_core(1,2)[OF c] unfolding S_def by blast+
    ultimately show "s = t" using core_ids_off[OF c] by blast
  qed
  have "writable K p b S q1 db" using assms(2,3,4,6) i h unfolding writable_def holds_rows_def S_def by fastforce
  moreover have "emits S q q1" unfolding q1_def S_def by (rule emits_place) simp
  ultimately show "linv cfg b p (sync now p False q q1 db) q1" "row_frame K (view db) (view (sync now p False q q1 db))"
    "writable K p b S q1 (sync now p False q q1 db)"
    using sync_ok[OF q h inj assms(6,7)] assms(5) by blast+
qed

lemma alloc_hold:
  assumes "core cfg G {} q" "\<forall>r\<in>held q. id_of q r \<noteq> j_id job"
  shows "\<exists>G'. core cfg G' {length (q_heap q)} (q \<lparr> q_heap := q_heap q @ [job] \<rparr>)"
proof -
  let ?R = "{r. r < length (q_heap q) \<and> id_of q r = j_id job}"
  have "core cfg (G \<union> ?R) {} q" by (rule core_forget[OF assms(1)]) (use assms(2) in auto)
  moreover have "fresh_off (G \<union> ?R) (j_id job) q" by (auto simp: fresh_off_def)
  ultimately show ?thesis using core_alloc by blast
qed

lemma held_cong:
  "q_pending q' = q_pending q \<Longrightarrow> q_scheduled q' = q_scheduled q \<Longrightarrow> q_sending q' = q_sending q \<Longrightarrow> held q' = held q"
  by (simp add: held_def waitingJobs_def pending_refs_def)

text \<open>The leases of the other processes have not run out.\<close>

definition others_hold :: "string set \<Rightarrow> int \<Rightarrow> (string \<Rightarrow> (string \<times> int option) option) \<Rightarrow> bool" where
  "others_hold K now v \<longleftrightarrow> (\<forall>p\<in>K. lease_from now p v)"

lemma others_frame: "others_hold K now v \<Longrightarrow> row_frame K v v' \<Longrightarrow> others_hold K now v'"
  unfolding others_hold_def lease_from_def using frame_owner by metis

lemma select_key:
  assumes "distinct (jskeys (db_jobs db))"
  shows "sql_select (\<lambda>k w. k = i \<and> P w) db \<noteq> [] \<longleftrightarrow> (\<exists>w. map_of (db_jobs db) i = Some w \<and> P w)"
proof -
  have "sql_select (\<lambda>k w. k = i \<and> P w) db \<noteq> [] \<longleftrightarrow> (\<exists>w. (i, w) \<in> set (db_jobs db) \<and> P w)"
    by (auto simp: sql_select_def filter_empty_conv)
  then show ?thesis using assms by simp
qed

lemma claim_ok:
  assumes "claim now p i db = (b, db1)" "distinct (jskeys (db_jobs db))" "others_hold K now (view db)" "p \<notin> K"
  shows "view db1 = (if b then (view db)(i := Some (p, Some (now + lease_ms))) else view db)" "b \<Longrightarrow> free K (view db i)"
    "jskeys (db_jobs db1) = jskeys (db_jobs db)" "b \<Longrightarrow> map_of (db_jobs db) i \<noteq> None"
proof -
  have b: "b \<longleftrightarrow> (\<exists>w. map_of (db_jobs db) i = Some w \<and> claimable now p w)"
    using assms(1) select_key[OF assms(2), of i "claimable now p"] by (auto simp: claim_def)
  have d: "db1 = sql_update (\<lambda>k w. k = i \<and> claimable now p w) (\<lambda>w. w \<lparr> rw_owner := Some p, rw_lease := Some (now + lease_ms) \<rparr>) db"
    using assms(1) by (auto simp: claim_def)
  show "jskeys (db_jobs db1) = jskeys (db_jobs db)" by (simp add: d)
  show "view db1 = (if b then (view db)(i := Some (p, Some (now + lease_ms))) else view db)"
    using b by (intro ext) (auto simp: d view_update view_def claimable_def Let_def split: option.splits)
  show "map_of (db_jobs db) i \<noteq> None" if b using that b by auto
  show "free K (view db i)" if bt: b
  proof -
    obtain w where w: "map_of (db_jobs db) i = Some w" "claimable now p w" using b bt by blast
    have "o1 \<notin> K" if vi: "view db i = Some (o1, l)" for o1 l
    proof
      assume k: "o1 \<in> K"
      obtain t where "l = Some t" "now \<le> t" using assms(3) vi k unfolding others_hold_def lease_from_def by blast
      then show False using vi w assms(4) k by (auto simp: view_def claimable_def split: if_splits)
    qed
    then show ?thesis by (auto simp: free_def)
  qed
qed

lemma lease_from_upd:
  "lease_from b p v \<Longrightarrow> b \<le> now + lease_ms \<Longrightarrow> lease_from b p (v(i := Some (p, Some (now + lease_ms))))"
  "lease_from b p v \<Longrightarrow> lease_from b p (v(i := None))"
  by (auto simp: lease_from_def)

lemma dlq_remove_frame [simp]:
  "q_heap (snd (dlq_remove i q)) = q_heap q" "q_pending (snd (dlq_remove i q)) = q_pending q"
  "q_scheduled (snd (dlq_remove i q)) = q_scheduled q" "q_sending (snd (dlq_remove i q)) = q_sending q"
  "q_running (snd (dlq_remove i q)) = q_running q" "q_trace (snd (dlq_remove i q)) = q_trace q"
  by (simp_all add: dlq_remove_def)

text \<open>A row read, claimed and put back to work.\<close>

lemma restore_claimed:
  assumes g: "core cfg G {} q" and h: "holds_rows p (view db) q" and l: "lease_from b p (view db)"
    and d: "distinct (jskeys (db_jobs db))" "p \<notin> K" "b \<le> now + lease_ms"
    and i: "\<forall>r\<in>held q. id_of q r \<noteq> j_id job" "view db (j_id job) = Some (p, Some t)" "find_job (j_id job) q = None"
    and s: "j_status job \<noteq> StRunning"
  defines "q2 \<equiv> restore cfg now job q"
  defines "db3 \<equiv> updateStatus now p (job_of q2 (length (q_heap q))) (sync now p False q q2 db)"
  shows "linv cfg b p db3 q2 \<and> row_frame K (view db) (view db3) \<and> id_of q2 ` held q2 \<subseteq> insert (j_id job) (id_of q ` held q)"
proof -
  let ?q = "q \<lparr> q_heap := q_heap q @ [job] \<rparr>" and ?r = "length (q_heap q)"
  obtain G' where c: "core cfg G' {?r} ?q" using alloc_hold[OF g i(1)] by blast
  have q2: "q2 = place cfg now ?r ?q" using i(3) s by (simp add: q2_def restore_def)
  have hq: "held ?q = held q" by (rule held_cong) simp_all
  have less: "r < length (q_heap q)" if "r \<in> held q" for r using held_core(1)[OF g that] .
  have v: "holds_rows p (view db) ?q" using h less by (simp add: holds_rows_def hq nth_append)
  have sy: "sync now p False q q2 db = sync now p False ?q q2 db" by (simp add: sync_def)
  let ?db2 = "sync now p False ?q (place cfg now ?r ?q) db"
  have vr: "view db (id_of ?q ?r) = Some (p, Some t)" using i(2) by simp
  note pl = place_linv[OF c v vr l d]
  have ac: "\<forall>r\<in>held q2. active (j_status (job_of q2 r))" using held_core(4)[OF pl(7)] by (simp add: q2)
  note u = update_one[OF pl(4,5) ac[unfolded q2] d(2,3) insertI1 pl(3)]
  have "linv cfg b p db3 q2" using u(1) pl(1,7) unfolding db3_def sy unfolding q2 linv_def writable_def by auto
  moreover have "row_frame K (view db) (view db3)" using frame_trans[OF pl(2) u(2)] unfolding db3_def sy unfolding q2 .
  moreover have "id_of q2 ` held q2 \<subseteq> insert (j_id job) (id_of q ` held q)"
  proof -
    have "id_of q2 x = (if x = ?r then j_id job else id_of q x)" if "x \<in> insert ?r (held q)" for x
    proof -
      have "x < length (q_heap ?q)" using that less less_SucI by fastforce
      then have "id_of q2 x = q_ids ?q ! x" using pl(6) id_of_ids[of x q2] ids_length[OF pl(6)] unfolding q2 by simp
      then show ?thesis using that less by (auto simp: nth_append)
    qed
    moreover have "held q2 \<subseteq> insert ?r (held q)" using pl(4) by (simp add: q2 hq)
    ultimately show ?thesis by (auto split: if_splits)
  qed
  ultimately show ?thesis by blast
qed

lemma restore_row_linv:
  fixes w :: job_row and dec :: "js \<Rightarrow> thrown + email_options"
  assumes a: "linv cfg b p db q" "p \<notin> K" "b \<le> now + lease_ms" "others_hold K now (view db)" "i \<notin> id_of q ` held q"
  defines "s \<equiv> restore_row cfg dec now p (i, w) (db, q)"
  shows "linv cfg b p (fst s) (snd s) \<and> row_frame K (view db) (view (fst s)) \<and> id_of (snd s) ` held (snd s) \<subseteq> insert i (id_of q ` held q)"
proof -
  obtain G where g: "core cfg G {} q" "holds_rows p (view db) q" "lease_from b p (view db)" "distinct (jskeys (db_jobs db))"
    using a(1) by (auto simp: linv_def)
  obtain ok db1 where cl: "claim now p i db = (ok, db1)" by fastforce
  note c = claim_ok[OF cl g(4) a(4,2)]
  have f: "row_frame K (view db) (view db1)" using c(1,2) a(2) by (auto intro: frame_one)
  show ?thesis
  proof (cases "find_job i q \<noteq> None \<or> \<not> ok")
    case True
    then show ?thesis using a(1) c(1,3) f cl by (auto simp: s_def restore_row_def linv_def)
  next
    case False
    then have v1: "view db1 = (view db)(i := Some (p, Some (now + lease_ms)))" "find_job i q = None" ok using c(1) by auto
    have h1: "holds_rows p (view db1) q" using g(2) by (auto simp: holds_rows_def v1(1))
    have l1: "lease_from b p (view db1)" using lease_from_upd(1)[OF g(3) a(3)] by (simp add: v1(1))
    have d1: "distinct (jskeys (db_jobs db1))" using g(4) c(3) by simp
    show ?thesis
    proof (cases "rowToJob dec i w")
      case (Inl e)
      let ?db = "sql_update (\<lambda>k w. k = i) (\<lambda>w. w \<lparr> rw_status := StDead, rw_owner := None, rw_lease := None \<rparr>) db1"
      have s: "s = (?db, q)" using v1 Inl cl by (simp add: s_def restore_row_def)
      have v: "view ?db = (view db1)(i := None)"
        by (rule ext) (auto simp: view_update view_def Let_def active_def split: option.splits)
      have "holds_rows p (view ?db) q" using h1 a(5) unfolding v by (auto simp: holds_rows_def)
      moreover have "row_frame K (view db1) (view ?db)" unfolding v using v1(1) a(2) by (intro frame_one) simp_all
      ultimately show ?thesis using g(1) lease_from_upd(2)[OF l1] d1 frame_trans[OF f] by (auto simp: s linv_def v)
    next
      case (Inr job)
      let ?job = "if j_status job = StRunning then job \<lparr> j_status := StPending \<rparr> else job"
      let ?q = "snd (dlq_remove i q)"
      have id: "j_id ?job = i" using Inr by (auto simp: rowToJob_def split: sum.splits)
      have hq: "held ?q = held q" by (rule held_cong) simp_all
      have cq: "core cfg G {} ?q" using g(1) by (simp add: core_def)
      have fj: "find_job (j_id ?job) ?q = None" using v1(2) by (simp add: find_job_def id waitingJobs_def pending_refs_def cong: option.case_cong)
      let ?q2 = "restore cfg now ?job ?q"
      let ?db3 = "updateStatus now p (job_of ?q2 (length (q_heap ?q))) (sync now p False ?q ?q2 db1)"
      have s: "s = (?db3, ?q2)" using v1 Inr cl by (simp add: s_def restore_row_def Let_def)
      have h: "holds_rows p (view db1) ?q" using h1 by (simp add: holds_rows_def hq)
      have n: "\<forall>r\<in>held ?q. id_of ?q r \<noteq> j_id ?job" using a(5) by (auto simp: id hq)
      have vi: "view db1 (j_id ?job) = Some (p, Some (now + lease_ms))" using v1(1) by (simp add: id)
      have nr: "j_status ?job \<noteq> StRunning" by simp
      have "linv cfg b p ?db3 ?q2 \<and> row_frame K (view db1) (view ?db3) \<and> id_of ?q2 ` held ?q2 \<subseteq> insert (j_id ?job) (id_of ?q ` held ?q)"
        by (rule restore_claimed[OF cq h l1 d1 a(2,3) n vi fj nr])
      then show ?thesis using frame_trans[OF f] unfolding s id hq by simp
    qed
  qed
qed

lemma restore_rows_linv:
  assumes "linv cfg b p (fst s) (snd s)" "p \<notin> K" "b \<le> now + lease_ms" "others_hold K now (view (fst s))"
    and "distinct (map fst rows)" "fst ` set rows \<inter> id_of (snd s) ` held (snd s) = {}"
  shows "linv cfg b p (fst (fold (restore_row cfg dec now p) rows s)) (snd (fold (restore_row cfg dec now p) rows s)) \<and>
    row_frame K (view (fst s)) (view (fst (fold (restore_row cfg dec now p) rows s)))"
  using assms(1,4,5,6)
proof (induction rows arbitrary: s)
  case (Cons row rows)
  obtain i w db q where e: "row = (i, w)" "s = (db, q)" by (metis prod.collapse)
  let ?s = "restore_row cfg dec now p row s"
  have "i \<notin> id_of q ` held q" using Cons.prems(4) by (auto simp: e)
  then have r: "linv cfg b p (fst ?s) (snd ?s)" "row_frame K (view db) (view (fst ?s))"
    "id_of (snd ?s) ` held (snd ?s) \<subseteq> insert i (id_of q ` held q)"
    using restore_row_linv[of cfg b p db q K now i] Cons.prems(1,2) assms(2,3) by (simp_all add: e)
  have "i \<notin> fst ` set rows" "fst ` set rows \<inter> id_of q ` held q = {}" using Cons.prems(3,4) by (auto simp: e)
  then have "fst ` set rows \<inter> id_of (snd ?s) ` held (snd ?s) = {}" using r(3) by blast
  then have "linv cfg b p (fst (fold (restore_row cfg dec now p) rows ?s)) (snd (fold (restore_row cfg dec now p) rows ?s)) \<and>
      row_frame K (view (fst ?s)) (view (fst (fold (restore_row cfg dec now p) rows ?s)))"
    using Cons.IH[OF r(1)] others_frame[OF Cons.prems(2), of "view (fst ?s)"] r(2) Cons.prems(3) by (simp add: e)
  then show ?case using frame_trans[OF r(2)] by (simp add: e)
qed simp

text \<open>Updates that only take rows away.\<close>

lemma drop_rows:
  assumes "linv cfg b p db q" "p \<notin> K"
    and v: "\<And>i. view db' i = view db i \<or> view db' i = None \<and> (\<exists>o1 l. view db i = Some (o1, l) \<and> o1 \<noteq> p \<and> o1 \<notin> K)"
    and "jskeys (db_jobs db') = jskeys (db_jobs db)"
  shows "linv cfg b p db' q \<and> row_frame K (view db) (view db')"
proof -
  have "holds_rows p (view db') q"
    unfolding holds_rows_def
  proof
    fix r assume "r \<in> held q"
    then obtain l where "view db (id_of q r) = Some (p, l)" using assms(1) by (auto simp: linv_def holds_rows_def)
    then show "\<exists>l. view db' (id_of q r) = Some (p, l)" using v[of "id_of q r"] by auto
  qed
  moreover have "lease_from b p (view db')"
    unfolding lease_from_def
  proof (intro allI impI)
    fix i l assume "view db' i = Some (p, l)"
    then have "view db i = Some (p, l)" using v[of i] by auto
    then show "\<exists>t. l = Some t \<and> b \<le> t" using assms(1) by (auto simp: linv_def lease_from_def)
  qed
  moreover have "row_frame K (view db) (view db')"
    unfolding row_frame_def free_def using v by (metis option.distinct(1) option.inject prod.inject)
  ultimately show ?thesis using assms(1,4) by (simp add: linv_def)
qed

lemma release_ok:
  assumes "linv cfg b p db q" "p \<notin> K" "\<forall>o1\<in>K. \<not> dead_local host pid gone o1"
  shows "linv cfg b p (releaseDeadLocalOwners host pid gone p db) q \<and> row_frame K (view db) (view (releaseDeadLocalOwners host pid gone p db))"
proof -
  let ?f = "\<lambda>o1 db. if dead_local host pid gone o1
           then sql_update (\<lambda>i w. rw_owner w = Some o1) (\<lambda>w. w \<lparr> rw_owner := None, rw_lease := None \<rparr>) db else db"
  have one: "linv cfg b p (?f o1 db) q \<and> row_frame K (view db) (view (?f o1 db))" if "linv cfg b p db q" "o1 \<noteq> p" for o1 db
  proof (cases "dead_local host pid gone o1")
    case True
    then have k: "o1 \<notin> K" using assms(3) by blast
    show ?thesis using True
      by (simp, intro drop_rows[OF that(1) assms(2)])
        (auto simp: view_update Let_def view_def that(2) k split: option.splits)
  qed (use that in simp)
  have "linv cfg b p (fold ?f os db) q \<and> row_frame K (view db) (view (fold ?f os db))" if "linv cfg b p db q" "p \<notin> set os" for os
    using that
  proof (induction os arbitrary: db)
    case (Cons o1 os)
    then have n: "o1 \<noteq> p" "p \<notin> set os" by auto
    note st = one[OF Cons.prems(1) n(1)]
    have "linv cfg b p (fold ?f os (?f o1 db)) q \<and> row_frame K (view (?f o1 db)) (view (fold ?f os (?f o1 db)))"
      by (rule Cons.IH[OF conjunct1[OF st] n(2)])
    then show ?case using frame_trans[OF conjunct2[OF st]] unfolding fold_simps comp_apply by blast
  qed simp
  moreover have "p \<notin> set (remdups (List.map_filter (\<lambda>(i, w). rw_owner w) (sql_select (\<lambda>i w. rw_owner w \<noteq> Some p \<and> active (rw_status w)) db)))"
    by (auto simp: sql_select_def List.map_filter_def)
  ultimately show ?thesis using assms(1) by (simp add: releaseDeadLocalOwners_def Let_def)
qed

text \<open>The rows restoreJobs reads are not those of jobs the process holds.\<close>

lemma free_rows:
  assumes "linv cfg b p db q" "now \<le> b"
  shows "distinct (map fst (by_created (sql_select (\<lambda>i w. free_row now w) db)))"
    "fst ` set (by_created (sql_select (\<lambda>i w. free_row now w) db)) \<inter> id_of q ` held q = {}"
proof -
  have k: "distinct (jskeys (db_jobs db))" using assms(1) by (simp add: linv_def)
  have "distinct (map fst (sql_select (\<lambda>i w. free_row now w) db))"
    unfolding sql_select_def by (rule distinct_map_filter[OF k])
  then show "distinct (map fst (by_created (sql_select (\<lambda>i w. free_row now w) db)))"
    unfolding by_created_def by (metis distinct_map distinct_sort set_sort)
  show "fst ` set (by_created (sql_select (\<lambda>i w. free_row now w) db)) \<inter> id_of q ` held q = {}"
  proof (rule ccontr)
    assume "\<not> ?thesis"
    then obtain r w where r: "r \<in> held q" "(id_of q r, w) \<in> set (db_jobs db)" "free_row now w"
      by (fastforce simp: by_created_def sql_select_def)
    obtain l where l: "view db (id_of q r) = Some (p, l)" using assms(1) r(1) by (auto simp: linv_def holds_rows_def)
    obtain t where "l = Some t" "b \<le> t" using assms(1) l by (auto simp: linv_def lease_from_def)
    then show False using l r(2,3) k assms(2) by (auto simp: view_def free_row_def split: if_splits)
  qed
qed

lemma restoreJobs_linv:
  fixes dec :: "js \<Rightarrow> thrown + email_options"
  assumes "linv cfg b p (fst s) (snd s)" "p \<notin> K" "now \<le> b" "b \<le> now + lease_ms" "others_hold K now (view (fst s))"
    "\<forall>o1\<in>K. \<not> dead_local host pid gone o1"
  defines "s1 \<equiv> restoreJobs cfg dec host pid gone now p s"
  shows "linv cfg b p (fst s1) (snd s1) \<and> row_frame K (view (fst s)) (view (fst s1))"
proof -
  let ?db = "releaseDeadLocalOwners host pid gone p (fst s)"
  have r: "linv cfg b p ?db (snd s)" "row_frame K (view (fst s)) (view ?db)" using release_ok[OF assms(1,2,6)] by auto
  note f = free_rows[OF r(1) assms(3)]
  have "linv cfg b p (fst s1) (snd s1) \<and> row_frame K (view ?db) (view (fst s1))"
    unfolding s1_def restoreJobs_def Let_def
    using restore_rows_linv[of cfg b p "(?db, snd s)" K now] r(1) assms(2,4) others_frame[OF assms(5) r(2)] f by simp
  then show ?thesis using frame_trans[OF r(2)] by blast
qed

lemma renew_linv:
  assumes "linv cfg b p db q" "p \<notin> K"
  shows "linv cfg (now + lease_ms) p (renew now p db) q \<and> row_frame K (view db) (view (renew now p db))"
proof -
  have v: "view (renew now p db) i = (case view db i of Some (o1, l) \<Rightarrow> if o1 = p then Some (p, Some (now + lease_ms)) else Some (o1, l) | None \<Rightarrow> None)" for i
    by (auto simp: renew_def view_update view_def Let_def split: option.splits)
  have "holds_rows p (view (renew now p db)) q" using assms(1) by (fastforce simp: linv_def holds_rows_def v)
  moreover have "lease_from (now + lease_ms) p (view (renew now p db))" by (auto simp: lease_from_def v split: option.splits if_splits)
  moreover have "row_frame K (view db) (view (renew now p db))" using assms(2) by (auto simp: row_frame_def v split: option.splits if_splits)
  ultimately show ?thesis using assms(1) by (auto simp: linv_def renew_def)
qed

lemma control_op_ok: "q_ok q (control_op now a i)" "\<not> takes_job (control_op now a i)"
  by (cases a; simp add: control_op_def)+

lemma poll_controls_linv:
  assumes "linv cfg b p (fst s) (snd s)" "p \<notin> K" "b \<le> now + lease_ms"
  shows "linv cfg b p (fst (fold (poll_control cfg now p) cs s)) (snd (fold (poll_control cfg now p) cs s)) \<and>
    row_frame K (view (fst s)) (view (fst (fold (poll_control cfg now p) cs s)))"
  using assms(1)
proof (induction cs arbitrary: s)
  case (Cons c cs)
  obtain i a t db q where e: "c = (i, a, t)" "s = (db, q)" by (metis prod.collapse)
  let ?s = "poll_control cfg now p c s"
  have "linv cfg b p db q" using Cons.prems by (simp add: e)
  note o = op_linv[OF this control_op_ok assms(2,3)]
  have "linv cfg b p (fst ?s) (snd ?s) \<and> row_frame K (view db) (view (fst ?s))"
    using o[of now a i] by (simp add: e poll_control_def Let_def linv_def)
  then show ?case using Cons.IH[of ?s] frame_trans by (simp add: e) blast
qed simp

lemma poll_linv:
  fixes dec :: "js \<Rightarrow> thrown + email_options"
  assumes "linv cfg b p (fst s) (snd s)" "p \<notin> K" "others_hold K now (view (fst s))" "\<forall>o1\<in>K. \<not> dead_local host pid gone o1"
  defines "s1 \<equiv> poll cfg dec host pid gone now p False s"
  shows "linv cfg (now + lease_ms) p (fst s1) (snd s1) \<and> row_frame K (view (fst s)) (view (fst s1))"
proof -
  let ?b = "now + lease_ms" and ?db1 = "renew now p (fst s)"
  have n: "now \<le> ?b" by (simp add: lease_ms_def)
  have r: "linv cfg ?b p ?db1 (snd s)" "row_frame K (view (fst s)) (view ?db1)" using renew_linv[OF assms(1,2)] by auto
  obtain db2 q2 where c: "fold (poll_control cfg now p) (db_control ?db1) (?db1, snd s) = (db2, q2)" by fastforce
  have l: "linv cfg ?b p db2 q2" "row_frame K (view ?db1) (view db2)"
    using poll_controls_linv[of cfg ?b p "(?db1, snd s)" K now "db_control ?db1"] r(1) assms(2) by (simp_all add: c)
  let ?db3 = "db2 \<lparr> db_control := filter (\<lambda>(i, action, t). \<not> t < now - 60000) (db_control db2) \<rparr>"
  have l3: "linv cfg ?b p ?db3 q2" using l(1) by (simp add: linv_def)
  have f: "row_frame K (view (fst s)) (view ?db3)" using frame_trans[OF r(2) l(2)] by simp
  have s1: "s1 = (if q_paused q2 then (?db3, q2) else restoreJobs cfg dec host pid gone now p (?db3, q2))"
    using c by (simp add: s1_def poll_def Let_def)
  show ?thesis
  proof (cases "q_paused q2")
    case False
    have "others_hold K now (view ?db3)" by (rule others_frame[OF assms(3) f])
    then show ?thesis
      using restoreJobs_linv[of cfg ?b p "(?db3, q2)" K now host pid gone dec] l3 assms(2,4) n frame_trans[OF f] False s1 by simp
  qed (use s1 l3 f in simp)
qed

lemma linv_cong:
  "q_heap q' = q_heap q \<Longrightarrow> q_pending q' = q_pending q \<Longrightarrow> q_scheduled q' = q_scheduled q \<Longrightarrow> q_sending q' = q_sending q \<Longrightarrow>
     linv cfg b p db q' = linv cfg b p db q"
  using core_cong[of q' q] held_cong[of q' q] by (simp add: linv_def holds_rows_def)

lemma linv_phantom:
  assumes "linv cfg b p db q" "q_heap q' = q_heap q @ [j]" "q_pending q' = q_pending q" "q_scheduled q' = q_scheduled q" "q_sending q' = q_sending q"
  shows "linv cfg b p db q'"
proof -
  obtain G where g: "core cfg G {} q" using assms(1) by (auto simp: linv_def)
  have h: "held q' = held q" by (rule held_cong) (use assms in simp_all)
  have "core cfg (insert (length (q_heap q)) G) {} q'"
    using core_phantom[OF g, of j] assms(2-) by (simp add: core_def)
  moreover have "holds_rows p (view db) q'"
    using assms(1) held_core(1)[OF g] by (auto simp: holds_rows_def h assms(2) linv_def nth_append)
  ultimately show ?thesis using assms(1) by (auto simp: linv_def)
qed

lemma loadDead_linv:
  assumes "linv cfg b p db q"
  shows "linv cfg b p db (loadDead dec db1 q)"
proof -
  let ?f = "\<lambda>(i, w) q. case rowToJob dec i w of Inl e \<Rightarrow> q
      | Inr job \<Rightarrow> dlq_load (length (q_heap q)) (q \<lparr> q_heap := q_heap q @ [job] \<rparr>)"
  have "linv cfg b p db (fold ?f rows q)" if "linv cfg b p db q" for rows q
    using that
  proof (induction rows arbitrary: q)
    case (Cons row rows)
    obtain i w where e: "row = (i, w)" by fastforce
    have "linv cfg b p db (?f row q)"
    proof (cases "rowToJob dec i w")
      case (Inr job)
      have "linv cfg b p db (dlq_load (length (q_heap q)) (q \<lparr> q_heap := q_heap q @ [job] \<rparr>))"
        by (rule linv_phantom[OF Cons.prems, of _ "job \<lparr> j_status := StDead \<rparr>"]) (simp_all add: dlq_load_def set_job_def Let_def)
      then show ?thesis by (simp add: e Inr)
    qed (use Cons.prems e in simp)
    then show ?case using Cons.IH by simp
  qed simp
  then show ?thesis using assms by (simp add: loadDead_def)
qed

lemma open_linv:
  fixes dec :: "js \<Rightarrow> thrown + email_options" and cfg :: queue_cfg and sendFn :: bool
  assumes "p \<notin> K" "distinct (jskeys (db_jobs db))" "\<And>i l. view db i \<noteq> Some (p, l)" "others_hold K now (view db)"
    "\<forall>o1\<in>K. \<not> dead_local host pid gone o1"
  defines "s1 \<equiv> open_queue cfg dec host pid gone now p sendFn db"
  shows "linv cfg (now + lease_ms) p (fst s1) (snd s1) \<and> row_frame K (view db) (view (fst s1))"
proof -
  let ?b = "now + lease_ms"
  have h: "held new_queue = {}" by (simp add: held_def waitingJobs_def pending_refs_def new_queue_def)
  have n: "now \<le> ?b" by (simp add: lease_ms_def)
  have "linv cfg ?b p db new_queue"
    using core_init[of cfg] assms(2,3) by (auto simp: linv_def holds_rows_def h lease_from_def)
  then have l: "linv cfg ?b p db (loadDead dec db new_queue)" by (rule loadDead_linv)
  obtain db1 q1 where r: "restoreJobs cfg dec host pid gone now p (db, loadDead dec db new_queue) = (db1, q1)" by fastforce
  have l1: "linv cfg ?b p db1 q1" "row_frame K (view db) (view db1)"
    using restoreJobs_linv[of cfg ?b p "(db, loadDead dec db new_queue)" K now host pid gone dec] l assms(1,4,5) n r by simp_all
  show ?thesis
  proof (cases sendFn)
    case True
    then have "s1 = (sync now p False q1 (setSendFn cfg now q1) db1, setSendFn cfg now q1)" using r by (simp add: s1_def open_queue_def Let_def)
    then show ?thesis using op_linv[OF l1(1), of "OpSetSendFn now" K now] assms(1) frame_trans[OF l1(2)] by simp
  qed (use r l1 in \<open>simp add: s1_def open_queue_def\<close>)
qed

lemma view_close: "view (close_rows p db) i = (case view db i of Some (o1, l) \<Rightarrow> if o1 = p then None else Some (o1, l) | None \<Rightarrow> None)"
  by (cases "map_of (db_jobs db) i") (auto simp: close_rows_def view_update view_def Let_def split: option.splits)

lemma close_ok:
  assumes "p \<notin> K"
  shows "row_frame K (view db) (view (close_rows p db))"
  using assms by (auto simp: row_frame_def free_def view_close split: option.splits if_splits)

lemma keys_close: "jskeys (db_jobs (close_rows p db)) = jskeys (db_jobs db)"
  by (simp add: close_rows_def)

lemma findIdempotent_upd: "\<exists>m. snd (findIdempotent now k q) = q \<lparr> q_idempotent := m \<rparr>"
proof -
  let ?q = "if length (q_idempotent q) > 1000 then q \<lparr> q_idempotent := List.filter (\<lambda>(k, r, e). \<not> e \<le> now) (q_idempotent q) \<rparr> else q"
  have "\<exists>m. ?q = q \<lparr> q_idempotent := m \<rparr>"
  proof (cases "length (q_idempotent q) > 1000")
    case True
    then show ?thesis by (intro exI[of _ "List.filter (\<lambda>(k, r, e). \<not> e \<le> now) (q_idempotent q)"]) simp
  next
    case False
    then show ?thesis by (intro exI[of _ "q_idempotent q"]) simp
  qed
  moreover have "snd (findIdempotent now k q) = ?q"
    unfolding findIdempotent_def Let_def by (simp split: option.split)
  ultimately show ?thesis by simp
qed

lemma sq_find_linv:
  fixes dec :: "js \<Rightarrow> thrown + email_options" and now :: int and isClosed :: bool and k :: string
  assumes "linv cfg b p (fst s) (snd s)"
  defines "s1 \<equiv> snd (sq_findIdempotent cfg dec now isClosed k s)"
  shows "linv cfg b p (fst s1) (snd s1) \<and> view (fst s1) = view (fst s)"
proof -
  obtain db q where s: "s = (db, q)" by fastforce
  obtain r q1 where f: "findIdempotent now k q = (r, q1)" by fastforce
  obtain m where "q1 = q \<lparr> q_idempotent := m \<rparr>" using findIdempotent_upd[of now k q] f by auto
  then have l: "linv cfg b p db q1" using assms(1) linv_cong[of q1 q] by (simp add: s)
  have v: "view (sql_update P (\<lambda>w. w \<lparr> rw_key := None \<rparr>) db) = view db" for P
    by (rule ext) (auto simp: view_update view_def Let_def split: option.splits)
  have "linv cfg b p (sql_update P (\<lambda>w. w \<lparr> rw_key := None \<rparr>) db) q1" for P using l by (simp add: linv_def v)
  then show ?thesis using l v
    by (auto simp: s1_def sq_findIdempotent_def s f split: option.splits list.splits sum.splits)
qed

lemma insert_ok:
  assumes "insert_job enc now p job db = Inr db1" "active (j_status job)"
  shows "view db1 = (view db)(j_id job := Some (p, Some (now + lease_ms)))" "map_of (db_jobs db) (j_id job) = None"
    "jskeys (db_jobs db1) = jskeys (db_jobs db) @ [j_id job]"
proof -
  show m: "map_of (db_jobs db) (j_id job) = None" using assms(1) by (auto simp: insert_job_def split: option.splits)
  obtain opts where d: "db_jobs db1 = db_jobs db @ [(j_id job, job_to_row now p job opts)]"
    using assms(1) by (auto simp: insert_job_def insertRow_def split: option.splits sum.splits if_splits)
  then show "jskeys (db_jobs db1) = jskeys (db_jobs db) @ [j_id job]" by simp
  show "view db1 = (view db)(j_id job := Some (p, Some (now + lease_ms)))"
    using m assms(2) by (intro ext) (auto simp: view_def d map_add_def job_to_row_def split: option.splits)
qed

lemma sq_enqueue_new_linv:
  fixes enc :: "email_options \<Rightarrow> thrown + js"
  assumes "linv cfg b p (fst s) (snd s)" "p \<notin> K" "b \<le> now + lease_ms" "active (j_status job)"
  defines "s1 \<equiv> snd (sq_enqueue_new cfg enc now p False job s)"
  shows "linv cfg b p (fst s1) (snd s1) \<and> row_frame K (view (fst s)) (view (fst s1))"
proof -
  obtain db q where s: "s = (db, q)" by fastforce
  let ?r = "length (q_heap q)" and ?q1 = "emit (EvEnqueued (length (q_heap q))) (alloc_job cfg now job q)"
  have al: "q_heap ?q1 = q_heap q @ [job]" "q_pending ?q1 = q_pending q" "q_scheduled ?q1 = q_scheduled q" "q_sending ?q1 = q_sending q"
    by (simp_all add: alloc_job_def Let_def split: option.splits)
  have ah: "q_heap (alloc_job cfg now job q) = q_heap q @ [job]" using al(1) by simp
  have l: "linv cfg b p db q" using assms(1) by (simp add: s)
  have ph: "linv cfg b p db ?q1" by (rule linv_phantom[OF l al])
  show ?thesis
  proof (cases "insert_job enc now p job db")
    case (Inl e)
    then show ?thesis using l ph by (simp add: s1_def sq_enqueue_new_def s Let_def)
  next
    case (Inr db1)
    show ?thesis
    proof (cases "find_job (j_id job) q = None")
      case True
      note i = insert_ok[OF Inr assms(4)]
      obtain G where g: "core cfg G {} q" using l by (auto simp: linv_def)
      have n: "\<forall>r\<in>held q. id_of q r \<noteq> j_id job" using l i(2) by (fastforce simp: linv_def holds_rows_def view_def)
      obtain G' where "core cfg G' {?r} (q \<lparr> q_heap := q_heap q @ [job] \<rparr>)" using alloc_hold[OF g n] by blast
      then have c: "core cfg G' {?r} ?q1" using al by (simp add: core_def)
      have hq: "held ?q1 = held q" by (rule held_cong) (rule al)+
      have v: "holds_rows p (view db1) ?q1"
        using l held_core(1)[OF g] by (auto simp: holds_rows_def hq ah nth_append i(1) linv_def)
      have f: "row_frame K (view db) (view db1)"
        unfolding i(1) by (rule frame_one) (use assms(2) i(2) in \<open>simp_all add: view_def\<close>)
      have vr: "view db1 (id_of ?q1 ?r) = Some (p, Some (now + lease_ms))" by (simp add: ah i(1))
      have lf: "lease_from b p (view db1)" using l lease_from_upd(1)[OF _ assms(3)] by (simp add: i(1) linv_def)
      have "j_id job \<notin> set (jskeys (db_jobs db))" using i(2) by (simp add: map_of_eq_None_iff)
      then have d: "distinct (jskeys (db_jobs db1))" using l i(3) by (simp add: linv_def)
      have "s1 = (sync now p False ?q1 (place cfg now ?r ?q1) db1, place cfg now ?r ?q1)"
        using True Inr by (simp add: s1_def sq_enqueue_new_def s Let_def)
      then show ?thesis using place_linv(1,2)[OF c v vr lf d assms(2,3)] frame_trans[OF f] by (simp add: s)
    qed (use l in \<open>simp add: s1_def sq_enqueue_new_def s\<close>)
  qed
qed

lemma sq_enqueue_linv:
  fixes enc :: "email_options \<Rightarrow> thrown + js" and dec :: "js \<Rightarrow> thrown + email_options"
    and newId token :: string and opts :: email_options and eo :: enqueue_options
  assumes "linv cfg b p (fst s) (snd s)" "p \<notin> K" "b \<le> now + lease_ms"
  defines "s1 \<equiv> snd (sq_enqueue cfg enc dec now p False newId token opts eo s)"
  shows "linv cfg b p (fst s1) (snd s1) \<and> row_frame K (view (fst s)) (view (fst s1))"
proof -
  have a: "active (j_status (new_job cfg now newId token opts eo))" by (simp add: new_job_def Let_def active_def)
  obtain ex s2 where f: "(case eo_idempotencyKey eo of None \<Rightarrow> (Inr None, s) | Some k \<Rightarrow> sq_findIdempotent cfg dec now False k s) = (ex, s2)"
    by (meson surj_pair)
  have l: "linv cfg b p (fst s2) (snd s2) \<and> view (fst s2) = view (fst s)"
  proof (cases "eo_idempotencyKey eo")
    case (Some k)
    then have "s2 = snd (sq_findIdempotent cfg dec now False k s)" using f by simp
    then show ?thesis using sq_find_linv[OF assms(1), of dec now False k] by simp
  qed (use f assms(1) in simp)
  show ?thesis
    using l sq_enqueue_new_linv[of cfg b p s2 K now "new_job cfg now newId token opts eo" enc] a assms(1-3) f
    by (auto simp: s1_def sq_enqueue_def split: sum.splits option.splits)
qed

section \<open>The world\<close>

text \<open>
  sp_polled is the time of the last poll, or of the start: a ghost field, to say that a process polls in time.
  A closed process may still run what it had in memory, without a database; a crashed one is gone.
\<close>

record sq_process =
  sp_queue :: mail_queue
  sp_closed :: bool
  sp_polled :: int

record sq_world =
  sw_db :: database
  sw_procs :: "(string, sq_process) jsmap"
  sw_now :: int

datatype sq_event =
    ProcStart string string nat "nat \<Rightarrow> bool" bool
  | ProcOp string q_op
  | ProcEnqueue string string string email_options enqueue_options
  | ProcPoll string string nat "nat \<Rightarrow> bool"
  | ProcClose string
  | ProcCrash string
  | CliRequeue string
  | CliClearDlq
  | CliRequest string control_reason

definition put_proc :: "string \<Rightarrow> sq_process \<Rightarrow> database \<Rightarrow> int \<Rightarrow> sq_world \<Rightarrow> sq_world" where
  "put_proc p Q db now w = w \<lparr> sw_db := db, sw_procs := AList.update p Q (sw_procs w), sw_now := now \<rparr>"

definition with_proc :: "string \<Rightarrow> (sq_process \<Rightarrow> sq_world) \<Rightarrow> sq_world \<Rightarrow> sq_world" where
  "with_proc p f w = (case map_of (sw_procs w) p of None \<Rightarrow> w | Some Q \<Rightarrow> f Q)"

definition sq_step :: "(string \<Rightarrow> queue_cfg) \<Rightarrow> (email_options \<Rightarrow> thrown + js) \<Rightarrow> (js \<Rightarrow> thrown + email_options)
    \<Rightarrow> sq_world \<Rightarrow> int \<times> sq_event \<Rightarrow> sq_world" where
  "sq_step cfg enc dec w ev = (let now = fst ev; db = sw_db w in
     case snd ev of
       ProcStart p host pid gone sendFn \<Rightarrow>
         (let (db1, q1) = open_queue (cfg p) dec host pid gone now p sendFn db
          in put_proc p \<lparr> sp_queue = q1, sp_closed = False, sp_polled = now \<rparr> db1 now w)
     | ProcOp p op \<Rightarrow> with_proc p (\<lambda>Q.
         (let q1 = q_step (cfg p) (sp_queue Q) op
          in put_proc p (Q \<lparr> sp_queue := q1 \<rparr>) (sync now p (sp_closed Q) (sp_queue Q) q1 db) now w)) w
     | ProcEnqueue p newId token opts eo \<Rightarrow> with_proc p (\<lambda>Q.
         (let (db1, q1) = snd (sq_enqueue (cfg p) enc dec now p (sp_closed Q) newId token opts eo (db, sp_queue Q))
          in put_proc p (Q \<lparr> sp_queue := q1 \<rparr>) db1 now w)) w
     | ProcPoll p host pid gone \<Rightarrow> with_proc p (\<lambda>Q.
         (let (db1, q1) = poll (cfg p) dec host pid gone now p (sp_closed Q) (db, sp_queue Q)
          in put_proc p (Q \<lparr> sp_queue := q1, sp_polled := now \<rparr>) db1 now w)) w
     | ProcClose p \<Rightarrow> with_proc p (\<lambda>Q. put_proc p (Q \<lparr> sp_closed := True \<rparr>) (if sp_closed Q then db else close_rows p db) now w) w
     | ProcCrash p \<Rightarrow> w \<lparr> sw_procs := AList.delete p (sw_procs w), sw_now := now \<rparr>
     | CliRequeue i \<Rightarrow> w \<lparr> sw_db := snd (requeueJob i db), sw_now := now \<rparr>
     | CliClearDlq \<Rightarrow> w \<lparr> sw_db := clearDlq db, sw_now := now \<rparr>
     | CliRequest i a \<Rightarrow> w \<lparr> sw_db := requestControl now i a db, sw_now := now \<rparr>)"

text \<open>
  What is asked of the world: time does not run backwards; owners are unique (they carry a random nonce); when
  a process claims rows, every other open process has polled within the last 30 seconds, and the test for
  dead local owners does not name an open process.
\<close>

definition polled_in_time :: "int \<Rightarrow> string \<Rightarrow> sq_world \<Rightarrow> bool" where
  "polled_in_time now p w \<longleftrightarrow> list_all (\<lambda>(o1, Q). o1 = p \<or> sp_closed Q \<or> now \<le> sp_polled Q + lease_ms) (sw_procs w)"

definition spared :: "string \<Rightarrow> nat \<Rightarrow> (nat \<Rightarrow> bool) \<Rightarrow> string \<Rightarrow> sq_world \<Rightarrow> bool" where
  "spared host pid gone p w \<longleftrightarrow> list_all (\<lambda>(o1, Q). o1 = p \<or> sp_closed Q \<or> \<not> dead_local host pid gone o1) (sw_procs w)"

definition sq_ok :: "sq_world \<Rightarrow> int \<times> sq_event \<Rightarrow> bool" where
  "sq_ok w ev \<longleftrightarrow> sw_now w \<le> fst ev \<and> (case snd ev of
       ProcStart p host pid gone sendFn \<Rightarrow> map_of (sw_procs w) p = None \<and> list_all (\<lambda>(i, r). rw_owner r \<noteq> Some p) (db_jobs (sw_db w))
         \<and> polled_in_time (fst ev) p w \<and> spared host pid gone p w
     | ProcOp p op \<Rightarrow> (case map_of (sw_procs w) p of None \<Rightarrow> False | Some Q \<Rightarrow> q_ok (sp_queue Q) op \<and> \<not> takes_job op)
     | ProcPoll p host pid gone \<Rightarrow> polled_in_time (fst ev) p w \<and> spared host pid gone p w
     | _ \<Rightarrow> True)"

definition new_world :: "database \<Rightarrow> sq_world" where "new_world db = \<lparr> sw_db = db, sw_procs = [], sw_now = 0 \<rparr>"

definition open_procs :: "sq_world \<Rightarrow> string set" where
  "open_procs w = {p. \<exists>Q. map_of (sw_procs w) p = Some Q \<and> \<not> sp_closed Q}"

definition sq_inv :: "(string \<Rightarrow> queue_cfg) \<Rightarrow> sq_world \<Rightarrow> bool" where
  "sq_inv cfg w \<longleftrightarrow> distinct (jskeys (db_jobs (sw_db w))) \<and>
     (\<forall>p Q. map_of (sw_procs w) p = Some Q \<longrightarrow> \<not> sp_closed Q \<longrightarrow>
        linv (cfg p) (sp_polled Q + lease_ms) p (sw_db w) (sp_queue Q) \<and> sp_polled Q \<le> sw_now w)"

section \<open>The contract\<close>

text \<open>
  The abstract machine: who holds which job, and what each process has in hand.  In a step one process acquires
  jobs nobody holds, releases jobs of its own, and may have in hand only jobs it then holds.
\<close>

record lease_state =
  ls_holder :: "string \<Rightarrow> string option"
  ls_work :: "string \<Rightarrow> string set"

inductive lease_step :: "lease_state \<Rightarrow> lease_state \<Rightarrow> bool" where
  lease_act: "\<lbrakk> \<And>i. ls_holder a i \<noteq> ls_holder b i \<Longrightarrow> ls_holder a i \<in> {None, Some p} \<and> ls_holder b i \<in> {None, Some p};
      \<And>i. i \<in> ls_work b p \<Longrightarrow> ls_holder b i = Some p; \<And>o1. o1 \<noteq> p \<Longrightarrow> ls_work b o1 = ls_work a o1 \<rbrakk> \<Longrightarrow> lease_step a b"

definition lease_inv :: "lease_state \<Rightarrow> bool" where
  "lease_inv a \<longleftrightarrow> (\<forall>p. ls_work a p \<subseteq> {i. ls_holder a i = Some p})"

lemma lease_inv_step: "lease_inv a \<Longrightarrow> lease_step a b \<Longrightarrow> lease_inv b"
proof (erule lease_step.cases)
  fix a' b' p assume l: "lease_inv a" and e: "a = a'" "b = b'"
    and c: "\<And>i. ls_holder a' i \<noteq> ls_holder b' i \<Longrightarrow> ls_holder a' i \<in> {None, Some p} \<and> ls_holder b' i \<in> {None, Some p}"
    and w: "\<And>i. i \<in> ls_work b' p \<Longrightarrow> ls_holder b' i = Some p" and o: "\<And>o1. o1 \<noteq> p \<Longrightarrow> ls_work b' o1 = ls_work a' o1"
  show "lease_inv b"
    unfolding lease_inv_def
  proof (intro allI subsetI CollectI)
    fix o1 i assume i: "i \<in> ls_work b o1"
    show "ls_holder b i = Some o1"
    proof (cases "o1 = p")
      case False
      then have "ls_holder a' i = Some o1" using i l o e by (auto simp: lease_inv_def)
      then show ?thesis using c[of i] False e(2) by (cases "ls_holder a' i = ls_holder b' i") auto
    qed (use i w e in simp)
  qed
qed

definition lease_of :: "sq_world \<Rightarrow> lease_state" where
  "lease_of w = \<lparr> ls_holder = (\<lambda>i. case view (sw_db w) i of Some (p, l) \<Rightarrow> if p \<in> open_procs w then Some p else None | None \<Rightarrow> None),
     ls_work = (\<lambda>p. case map_of (sw_procs w) p of Some Q \<Rightarrow> if sp_closed Q then {} else id_of (sp_queue Q) ` held (sp_queue Q) | None \<Rightarrow> {}) \<rparr>"

section \<open>The world keeps the contract\<close>

lemma linv_frame:
  assumes "linv cfg b p db q" "row_frame K (view db) (view db')" "p \<in> K" "distinct (jskeys (db_jobs db'))"
  shows "linv cfg b p db' q"
proof -
  have v: "view db' i = Some (p, l) \<longleftrightarrow> view db i = Some (p, l)" for i l using frame_owner[OF assms(2,3)] by simp
  show ?thesis using assms(1,4) by (simp add: linv_def holds_rows_def lease_from_def v)
qed

text \<open>The process p, and the others.\<close>

definition step_ok :: "(string \<Rightarrow> queue_cfg) \<Rightarrow> string \<Rightarrow> sq_world \<Rightarrow> sq_world \<Rightarrow> bool" where
  "step_ok cfg p w w' \<longleftrightarrow> sq_inv cfg w' \<and> row_frame (open_procs w - {p}) (view (sw_db w)) (view (sw_db w')) \<and>
     (\<forall>o1. o1 \<noteq> p \<longrightarrow> map_of (sw_procs w') o1 = map_of (sw_procs w) o1)"

lemma step_ok_put:
  assumes "sq_inv cfg w" "sw_now w \<le> now" "row_frame (open_procs w - {p}) (view (sw_db w)) (view db)" "distinct (jskeys (db_jobs db))"
    and "sp_closed Q \<or> linv (cfg p) (sp_polled Q + lease_ms) p db (sp_queue Q) \<and> sp_polled Q \<le> now"
  shows "step_ok cfg p w (put_proc p Q db now w)"
proof -
  have "linv (cfg o1) (sp_polled R + lease_ms) o1 db (sp_queue R) \<and> sp_polled R \<le> now"
    if r: "map_of (sw_procs w) o1 = Some R" "\<not> sp_closed R" "o1 \<noteq> p" for o1 R
  proof -
    have "o1 \<in> open_procs w - {p}" using r by (auto simp: open_procs_def)
    then show ?thesis using r(1,2) assms(1,2) linv_frame[OF _ assms(3) _ assms(4)] by (fastforce simp: sq_inv_def)
  qed
  then show ?thesis using assms(3,4,5) by (auto simp: step_ok_def sq_inv_def put_proc_def map_of_update split: if_splits)
qed

lemma step_ok_db:
  assumes "sq_inv cfg w" "sw_now w \<le> now" "view db = view (sw_db w)" "distinct (jskeys (db_jobs db))"
  shows "step_ok cfg p w (w \<lparr> sw_db := db, sw_now := now \<rparr>)"
proof -
  have "linv (cfg o1) b o1 db q" if "linv (cfg o1) b o1 (sw_db w) q" for o1 b q
    using that assms(3,4) by (simp add: linv_def)
  then show ?thesis using assms by (fastforce simp: step_ok_def sq_inv_def)
qed

lemma others_polled:
  assumes "sq_inv cfg w" "polled_in_time now p w"
  shows "others_hold (open_procs w - {p}) now (view (sw_db w))"
  unfolding others_hold_def lease_from_def
proof (intro ballI allI impI)
  fix o1 i l assume k: "o1 \<in> open_procs w - {p}" "view (sw_db w) i = Some (o1, l)"
  then obtain Q where q: "map_of (sw_procs w) o1 = Some Q" "\<not> sp_closed Q" "o1 \<noteq> p" by (auto simp: open_procs_def)
  then obtain t where "l = Some t" "sp_polled Q + lease_ms \<le> t" using assms(1) k(2) by (fastforce simp: sq_inv_def linv_def lease_from_def)
  moreover have "now \<le> sp_polled Q + lease_ms" using assms(2) q by (fastforce simp: polled_in_time_def list_all_iff dest: map_of_SomeD)
  ultimately show "\<exists>t. l = Some t \<and> now \<le> t" by auto
qed

lemma others_spared: "spared host pid gone p w \<Longrightarrow> \<forall>o1\<in>open_procs w - {p}. \<not> dead_local host pid gone o1"
  by (fastforce simp: spared_def list_all_iff open_procs_def dest: map_of_SomeD)

lemma map_of_filter_rows:
  "distinct (map fst rows) \<Longrightarrow> map_of (filter (\<lambda>(i, w). \<not> P i w) rows) i =
     (case map_of rows i of Some w \<Rightarrow> if P i w then None else Some w | None \<Rightarrow> None)"
proof (induction rows)
  case (Cons row rows)
  obtain k w where "row = (k, w)" by fastforce
  then show ?case using Cons map_of_eq_None_iff[of rows k] by (auto split: option.splits)
qed simp

lemma clear_ok:
  assumes "distinct (jskeys (db_jobs db))"
  shows "view (clearDlq db) = view db" "distinct (jskeys (db_jobs (clearDlq db)))"
  using assms
  by (auto simp: clearDlq_def sql_delete_def view_def map_of_filter_rows active_def distinct_map_filter intro!: ext split: option.splits)

lemma requeue_ok: "view (snd (requeueJob i db)) = view db" "jskeys (db_jobs (snd (requeueJob i db))) = jskeys (db_jobs db)"
  by (auto simp: requeueJob_def view_update view_def Let_def active_def intro!: ext split: option.splits)

lemma closed_enqueue: "fst (snd (sq_enqueue cfg enc dec now p True newId token opts eo s)) = fst s"
  by (auto simp: sq_enqueue_def sq_findIdempotent_def sq_enqueue_new_def Let_def split: option.splits prod.splits sum.splits)

lemma step_ok_none: "sq_inv cfg w \<Longrightarrow> step_ok cfg p w w"
  by (simp add: step_ok_def)

fun proc_of :: "sq_event \<Rightarrow> string" where
  "proc_of (ProcStart p host pid gone sendFn) = p"
| "proc_of (ProcOp p op) = p"
| "proc_of (ProcEnqueue p newId token opts eo) = p"
| "proc_of (ProcPoll p host pid gone) = p"
| "proc_of (ProcClose p) = p"
| "proc_of (ProcCrash p) = p"
| "proc_of e = []"

lemma world_step:
  assumes inv: "sq_inv cfg w" and ok: "sq_ok w (now, e)"
  shows "step_ok cfg (proc_of e) w (sq_step cfg enc dec w (now, e))"
proof -
  have t: "sw_now w \<le> now" using ok by (simp add: sq_ok_def)
  have d: "distinct (jskeys (db_jobs (sw_db w)))" using inv by (simp add: sq_inv_def)
  have l: "linv (cfg p) (sp_polled Q + lease_ms) p (sw_db w) (sp_queue Q) \<and> sp_polled Q + lease_ms \<le> now + lease_ms"
    if "map_of (sw_procs w) p = Some Q" "\<not> sp_closed Q" for p Q using inv that t by (fastforce simp: sq_inv_def)
  have p: "p \<notin> open_procs w - {p}" for p by simp
  have wp: "step_ok cfg p w (with_proc p f w)" if "\<And>Q. map_of (sw_procs w) p = Some Q \<Longrightarrow> step_ok cfg p w (f Q)" for p f
    using that step_ok_none[OF inv] by (simp add: with_proc_def split: option.splits)
  show ?thesis
  proof (cases e)
    case (ProcStart p host pid gone sendFn)
    have o: "\<And>i l. view (sw_db w) i \<noteq> Some (p, l)" "polled_in_time now p w" "spared host pid gone p w"
      using ok by (auto simp: sq_ok_def ProcStart view_def list_all_iff dest: map_of_SomeD split: option.splits)
    obtain db1 q1 where q: "open_queue (cfg p) dec host pid gone now p sendFn (sw_db w) = (db1, q1)" by fastforce
    have "linv (cfg p) (now + lease_ms) p db1 q1 \<and> row_frame (open_procs w - {p}) (view (sw_db w)) (view db1)"
      using open_linv[OF p d o(1) others_polled[OF inv o(2)] others_spared[OF o(3)], of "cfg p" dec sendFn] q by simp
    then show ?thesis using step_ok_put[OF inv t, of p db1 "\<lparr> sp_queue = q1, sp_closed = False, sp_polled = now \<rparr>"] q
      by (simp add: sq_step_def ProcStart linv_def)
  next
    case (ProcOp p op)
    show ?thesis unfolding sq_step_def ProcOp Let_def fst_conv snd_conv sq_event.case proc_of.simps
    proof (rule wp)
      fix Q assume Q: "map_of (sw_procs w) p = Some Q"
      then have o: "q_ok (sp_queue Q) op" "\<not> takes_job op" using ok by (simp_all add: sq_ok_def ProcOp)
      show "step_ok cfg p w (put_proc p (Q \<lparr> sp_queue := q_step (cfg p) (sp_queue Q) op \<rparr>)
          (sync now p (sp_closed Q) (sp_queue Q) (q_step (cfg p) (sp_queue Q) op) (sw_db w)) now w)"
      proof (cases "sp_closed Q")
        case True
        then show ?thesis using step_ok_put[OF inv t] d by (simp add: sync_def)
      next
        case False
        note x = op_linv[OF conjunct1[OF l[OF Q False]] o p conjunct2[OF l[OF Q False]]]
        show ?thesis using step_ok_put[OF inv t x(2)] x(1) l[OF Q False] False by (simp add: linv_def)
      qed
    qed
  next
    case (ProcEnqueue p newId token opts eo)
    show ?thesis unfolding sq_step_def ProcEnqueue Let_def fst_conv snd_conv sq_event.case proc_of.simps
    proof (rule wp)
      fix Q assume Q: "map_of (sw_procs w) p = Some Q"
      obtain db1 q1 where q: "snd (sq_enqueue (cfg p) enc dec now p (sp_closed Q) newId token opts eo (sw_db w, sp_queue Q)) = (db1, q1)" by fastforce
      have "step_ok cfg p w (put_proc p (Q \<lparr> sp_queue := q1 \<rparr>) db1 now w)"
      proof (cases "sp_closed Q")
        case True
        then have "db1 = sw_db w" using q closed_enqueue by (metis fst_conv)
        then show ?thesis using step_ok_put[OF inv t] d True by simp
      next
        case False
        have "linv (cfg p) (sp_polled Q + lease_ms) p db1 q1 \<and> row_frame (open_procs w - {p}) (view (sw_db w)) (view db1)"
          using sq_enqueue_linv[where cfg = "cfg p" and b = "sp_polled Q + lease_ms" and p = p and s = "(sw_db w, sp_queue Q)" and K = "open_procs w - {p}"
              and now = now and newId = newId and token = token and opts = opts and eo = eo and enc = enc and dec = dec]
            l[OF Q False] p q False by simp
        then show ?thesis using step_ok_put[OF inv t] l[OF Q False] False by (simp add: linv_def)
      qed
      then show "step_ok cfg p w (case snd (sq_enqueue (cfg p) enc dec now p (sp_closed Q) newId token opts eo (sw_db w, sp_queue Q)) of
          (db1, q1) \<Rightarrow> put_proc p (Q \<lparr> sp_queue := q1 \<rparr>) db1 now w)" using q by simp
    qed
  next
    case (ProcPoll p host pid gone)
    have o: "polled_in_time now p w" "spared host pid gone p w" using ok by (simp_all add: sq_ok_def ProcPoll)
    show ?thesis unfolding sq_step_def ProcPoll Let_def fst_conv snd_conv sq_event.case proc_of.simps
    proof (rule wp)
      fix Q assume Q: "map_of (sw_procs w) p = Some Q"
      obtain db1 q1 where q: "poll (cfg p) dec host pid gone now p (sp_closed Q) (sw_db w, sp_queue Q) = (db1, q1)" by fastforce
      have "step_ok cfg p w (put_proc p (Q \<lparr> sp_queue := q1, sp_polled := now \<rparr>) db1 now w)"
      proof (cases "sp_closed Q")
        case True
        then show ?thesis using step_ok_put[OF inv t] d q by (simp add: poll_def)
      next
        case False
        have "linv (cfg p) (now + lease_ms) p db1 q1 \<and> row_frame (open_procs w - {p}) (view (sw_db w)) (view db1)"
          using poll_linv[of "cfg p" "sp_polled Q + lease_ms" p "(sw_db w, sp_queue Q)" "open_procs w - {p}" now host pid gone dec]
            l[OF Q False] others_polled[OF inv o(1)] others_spared[OF o(2)] q False by simp
        then show ?thesis using step_ok_put[OF inv t] by (simp add: linv_def)
      qed
      then show "step_ok cfg p w (case poll (cfg p) dec host pid gone now p (sp_closed Q) (sw_db w, sp_queue Q) of
          (db1, q1) \<Rightarrow> put_proc p (Q \<lparr> sp_queue := q1, sp_polled := now \<rparr>) db1 now w)" using q by simp
    qed
  next
    case (ProcClose p)
    show ?thesis unfolding sq_step_def ProcClose Let_def fst_conv snd_conv sq_event.case proc_of.simps
      by (rule wp, rule step_ok_put[OF inv t]) (simp_all add: close_ok keys_close d)
  next
    case (ProcCrash p)
    then show ?thesis using inv t by (fastforce simp: step_ok_def sq_step_def sq_inv_def map_of_delete split: if_splits)
  next
    case (CliRequeue i)
    then show ?thesis using step_ok_db[OF inv t requeue_ok(1)] d by (simp add: sq_step_def requeue_ok(2))
  next
    case CliClearDlq
    then show ?thesis using step_ok_db[OF inv t clear_ok[OF d]] by (simp add: sq_step_def)
  next
    case (CliRequest i a)
    then show ?thesis using step_ok_db[OF inv t, of "requestControl now i a (sw_db w)"] d by (simp add: sq_step_def requestControl_def Let_def)
  qed
qed

lemma world_inv: "sq_inv cfg w \<Longrightarrow> sq_ok w ev \<Longrightarrow> sq_inv cfg (sq_step cfg enc dec w ev)"
  using world_step[of cfg w "fst ev" "snd ev"] by (simp add: step_ok_def)

lemma lease_of_step:
  assumes "sq_inv cfg w" "sq_ok w ev"
  shows "lease_step (lease_of w) (lease_of (sq_step cfg enc dec w ev))"
proof -
  let ?w = "sq_step cfg enc dec w ev" and ?p = "proc_of (snd ev)"
  have s: "step_ok cfg ?p w ?w" using world_step[of cfg w "fst ev" "snd ev"] assms by simp
  have same: "map_of (sw_procs ?w) o1 = map_of (sw_procs w) o1" if "o1 \<noteq> ?p" for o1 using s that by (simp add: step_ok_def)
  then have lv: "o1 \<in> open_procs ?w \<longleftrightarrow> o1 \<in> open_procs w" if "o1 \<noteq> ?p" for o1 using that by (simp add: open_procs_def)
  then have lv2: "o1 = ?p" if "o1 \<in> open_procs w \<longleftrightarrow> o1 \<notin> open_procs ?w" for o1 using that by blast
  show ?thesis
  proof (rule lease_act[of _ _ ?p])
    fix i assume n: "ls_holder (lease_of w) i \<noteq> ls_holder (lease_of ?w) i"
    show "ls_holder (lease_of w) i \<in> {None, Some ?p} \<and> ls_holder (lease_of ?w) i \<in> {None, Some ?p}"
    proof (cases "view (sw_db w) i = view (sw_db ?w) i")
      case True
      then show ?thesis using n lv2 by (auto simp: lease_of_def split: option.splits if_splits)
    next
      case False
      then have "free (open_procs w - {?p}) (view (sw_db w) i)" "free (open_procs w - {?p}) (view (sw_db ?w) i)"
        using s by (auto simp: step_ok_def row_frame_def)
      then show ?thesis using lv by (auto simp: lease_of_def free_def split: option.splits if_splits)
    qed
  next
    fix i assume i: "i \<in> ls_work (lease_of ?w) ?p"
    then obtain Q where Q: "map_of (sw_procs ?w) ?p = Some Q" "\<not> sp_closed Q" "i \<in> id_of (sp_queue Q) ` held (sp_queue Q)"
      by (auto simp: lease_of_def split: option.splits if_splits)
    then have "\<exists>l. view (sw_db ?w) i = Some (?p, l)" using s by (fastforce simp: step_ok_def sq_inv_def linv_def holds_rows_def)
    then show "ls_holder (lease_of ?w) i = Some ?p" using Q(1,2) by (auto simp: lease_of_def open_procs_def)
  next
    fix o1 assume "o1 \<noteq> ?p"
    then show "ls_work (lease_of ?w) o1 = ls_work (lease_of w) o1" using same by (simp add: lease_of_def)
  qed
qed

lemma new_world_inv: "distinct (jskeys (db_jobs db)) \<Longrightarrow> sq_inv cfg (new_world db)"
  by (simp add: sq_inv_def new_world_def)

lemma new_world_lease: "lease_inv (lease_of (new_world db))"
  by (simp add: lease_inv_def lease_of_def new_world_def)

interpretation lease: refinement "sq_step cfg enc dec" sq_ok "sq_inv cfg" lease_of lease_step lease_inv for cfg enc dec
  by unfold_locales (auto intro: world_inv lease_of_step lease_inv_step)

end
