(* ===== verification/SqliteProps.thy ===== *)
theory SqliteProps
  imports SqliteWorld
begin

text \<open>
  What holds of several processes on one queue database, and what does not: the contract of leases, that no job
  is in two processes, and a process that stalls past its lease.
\<close>

section \<open>Concrete runs\<close>

text \<open>Options stored as a text without content, which is all these runs read.\<close>

definition two_cfg :: "string \<Rightarrow> queue_cfg" where
  "two_cfg p = new_queue_cfg \<lparr> qo_concurrency = Some 2, qo_maxRetries = Some 1, qo_retryDelay = None, qo_maxRetryDelay = None,
     qo_retryBackoff = None, qo_jitter = None, qo_jobTimeout = None, qo_dlEnabled = None, qo_dlMaxAge = None,
     qo_defaultPriority = None, qo_idempotencyWindowMs = None, qo_rateLimit = None \<rparr> True"

definition two_mail :: email_options where
  "two_mail = \<lparr> o_from = OneAddr (AddrStr ''a@x.org''), o_to = OneAddr (AddrStr ''b@y.org''), o_cc = NoAddr, o_bcc = NoAddr,
     o_subject = None, o_text = None, o_html = None, o_messageId = Some ''<1@x.org>'' \<rparr>"

definition two_enc :: "email_options \<Rightarrow> thrown + js" where "two_enc opts = Inr Null"
definition two_dec :: "js \<Rightarrow> thrown + email_options" where "two_dec v = Inr two_mail"

definition no_rows :: database where "no_rows = \<lparr> db_jobs = [], db_control = [] \<rparr>"

definition all_alive :: "nat \<Rightarrow> bool" where "all_alive pid = False"

definition start_two :: "(int \<times> sq_event) list" where
  "start_two = [(0, ProcStart ''h|1|a'' ''h'' 1 all_alive True), (0, ProcStart ''h|2|b'' ''h'' 2 all_alive True),
     (5, ProcEnqueue ''h|1|a'' ''x'' ''t'' two_mail \<lparr> eo_priority = None, eo_sendAt = None, eo_id = None, eo_idempotencyKey = None \<rparr>)]"

text \<open>The first process sends a job and crashes; the second takes the job over when the lease has run out.\<close>

definition take_over :: "(int \<times> sq_event) list" where
  "take_over = start_two @ [(5000, ProcPoll ''h|2|b'' ''h'' 2 all_alive), (6000, ProcCrash ''h|1|a'')]"

definition takes_over :: "int \<times> sq_event" where
  "takes_over = (40000, ProcPoll ''h|2|b'' ''h'' 2 all_alive)"

lemma take_over_legal: "legal_run (sq_step two_cfg two_enc two_dec) sq_ok (new_world no_rows) (take_over @ [takes_over])"
  by code_simp

text \<open>C29: The database and the processes on it implement a lease.  In every run in which open processes poll in
  time, each step of a process is one step of the abstract machine: the process only takes jobs nobody holds
  and gives up jobs of its own, and every job it has in memory, waiting or being sent, is one it holds.\<close>

theorem processes_implement_leases:
  assumes "distinct (jskeys (db_jobs db))" "legal_run (sq_step cfg enc dec) sq_ok (new_world db) (es @ [e])"
  shows "lease_step (lease_of (run (sq_step cfg enc dec) (new_world db) es)) (lease_of (run (sq_step cfg enc dec) (new_world db) (es @ [e])))"
  using lease.sim_run[OF new_world_inv[OF assms(1)] assms(2)] .

lemma processes_implement_leases_witness:
  "lease_step (lease_of (run (sq_step two_cfg two_enc two_dec) (new_world no_rows) take_over))
     (lease_of (run (sq_step two_cfg two_enc two_dec) (new_world no_rows) (take_over @ [takes_over]))) \<and>
   view (sw_db (run (sq_step two_cfg two_enc two_dec) (new_world no_rows) take_over)) ''x'' = Some (''h|1|a'', Some 30005) \<and>
   view (sw_db (run (sq_step two_cfg two_enc two_dec) (new_world no_rows) (take_over @ [takes_over]))) ''x'' = Some (''h|2|b'', Some 70000)"
proof (intro conjI)
  show "lease_step (lease_of (run (sq_step two_cfg two_enc two_dec) (new_world no_rows) take_over))
     (lease_of (run (sq_step two_cfg two_enc two_dec) (new_world no_rows) (take_over @ [takes_over])))"
    by (rule processes_implement_leases[OF _ take_over_legal]) (simp add: no_rows_def)
qed code_simp+

text \<open>C30: Two processes never send the same job.  In every run in which open processes poll in time, no two open
  processes have a job with the same id in memory, waiting or being sent, and no process has it twice.\<close>

theorem no_job_in_two_processes:
  assumes d: "distinct (jskeys (db_jobs db))" and r: "legal_run (sq_step cfg enc dec) sq_ok (new_world db) es"
    and w: "w = run (sq_step cfg enc dec) (new_world db) es"
    and p: "map_of (sw_procs w) p = Some P" "\<not> sp_closed P" "map_of (sw_procs w) q = Some Q" "\<not> sp_closed Q"
    and h: "i \<in> held (sp_queue P)" "j \<in> held (sp_queue Q)" "id_of (sp_queue P) i = id_of (sp_queue Q) j"
  shows "p = q \<and> i = j"
proof -
  have "lease_inv (lease_of w)" unfolding w by (rule lease.ainv_run[OF new_world_inv[OF d] new_world_lease r])
  then have holds_work: "ls_holder (lease_of w) (id_of (sp_queue R) r) = Some o1"
    if "map_of (sw_procs w) o1 = Some R" "\<not> sp_closed R" "r \<in> held (sp_queue R)" for o1 R r
  proof -
    have "id_of (sp_queue R) r \<in> ls_work (lease_of w) o1" using that by (simp add: lease_of_def)
    then show ?thesis using \<open>lease_inv (lease_of w)\<close> by (auto simp: lease_inv_def)
  qed
  have "ls_holder (lease_of w) (id_of (sp_queue P) i) = Some p" "ls_holder (lease_of w) (id_of (sp_queue Q) j) = Some q"
    using holds_work p h by blast+
  then have pq: "p = q" using h(3) by simp
  have "sq_inv cfg w" unfolding w by (rule lease.inv_run[OF new_world_inv[OF d] r])
  then obtain G where "core (cfg p) G {} (sp_queue P)" using p(1,2) by (fastforce simp: sq_inv_def linv_def)
  then show ?thesis using held_ids h p(1,3) pq by auto
qed

lemma no_job_in_two_processes_witness:
  "\<exists>P. map_of (sw_procs (run (sq_step two_cfg two_enc two_dec) (new_world no_rows) start_two)) ''h|1|a'' = Some P \<and>
     0 \<in> held (sp_queue P) \<and> id_of (sp_queue P) 0 = ''x'' \<and> ''h|1|a'' = ''h|1|a'' \<and> (0 :: nat) = 0"
proof -
  let ?w = "run (sq_step two_cfg two_enc two_dec) (new_world no_rows) start_two"
  have l: "legal_run (sq_step two_cfg two_enc two_dec) sq_ok (new_world no_rows) start_two" by code_simp
  have m: "map_option (\<lambda>P. (sp_closed P, q_sending (sp_queue P), id_of (sp_queue P) 0)) (map_of (sw_procs ?w) ''h|1|a'') = Some (False, [(0, 0)], ''x'')"
    by code_simp
  then obtain P where P: "map_of (sw_procs ?w) ''h|1|a'' = Some P" "\<not> sp_closed P" "q_sending (sp_queue P) = [(0, 0)]" "id_of (sp_queue P) 0 = ''x''"
    by auto
  have h: "0 \<in> held (sp_queue P)" by (simp add: held_def P(3))
  have "''h|1|a'' = ''h|1|a'' \<and> (0 :: nat) = 0"
    by (rule no_job_in_two_processes[OF _ l refl P(1,2) P(1,2) h h refl]) (simp add: no_rows_def)
  then show ?thesis using P(1,4) h by blast
qed

section \<open>What the lease does not cover\<close>

definition sending_ids :: "sq_world \<Rightarrow> string \<Rightarrow> string list option" where
  "sending_ids w p = map_option (\<lambda>P. map (\<lambda>(r, c). id_of (sp_queue P) r) (q_sending (sp_queue P))) (map_of (sw_procs w) p)"

text \<open>A process that does not poll for 30 seconds (its event loop is blocked, the machine suspended) while it is
  sending: another claims the job and sends it too.\<close>

lemma stalled_process_sends_twice:
  "sending_ids (run (sq_step two_cfg two_enc two_dec) (new_world no_rows) (start_two @ [takes_over])) ''h|1|a'' = Some [''x'']"
  "sending_ids (run (sq_step two_cfg two_enc two_dec) (new_world no_rows) (start_two @ [takes_over])) ''h|2|b'' = Some [''x'']"
  "polled_in_time 40000 ''h|2|b'' (run (sq_step two_cfg two_enc two_dec) (new_world no_rows) start_two) = False"
  by code_simp+

text \<open>close without shutdown gives the rows back and leaves the attempts in memory running.\<close>

definition close_early :: "(int \<times> sq_event) list" where
  "close_early = start_two @ [(10, ProcClose ''h|1|a''), (5000, ProcPoll ''h|2|b'' ''h'' 2 all_alive)]"

lemma closed_process_sends_on:
  "legal_run (sq_step two_cfg two_enc two_dec) sq_ok (new_world no_rows) close_early"
  "sending_ids (run (sq_step two_cfg two_enc two_dec) (new_world no_rows) close_early) ''h|1|a'' = Some [''x'']"
  "sending_ids (run (sq_step two_cfg two_enc two_dec) (new_world no_rows) close_early) ''h|2|b'' = Some [''x'']"
  by code_simp+

text \<open>An enqueue that fails in the insert leaves its idempotency key behind: the next enqueue with the key is
  answered with a job that is in no container and no row.\<close>

definition keyed :: "string \<Rightarrow> enqueue_options" where
  "keyed i = \<lparr> eo_priority = None, eo_sendAt = None, eo_id = Some i, eo_idempotencyKey = Some ''k'' \<rparr>"

definition used_row :: database where
  "used_row = snd (requeueJob ''x'' (sw_db (run (sq_step two_cfg two_enc two_dec) (new_world no_rows) start_two)))"

lemma failed_enqueue_leaves_its_key:
  "fst (sq_enqueue (two_cfg []) two_enc two_dec 10 ''p'' False ''n'' ''t'' two_mail (keyed ''x'') (used_row, new_queue))
     = Inl (ThrownMailTs (QueueError ''Duplicate job id: x (already running)''))"
  "fst (sq_enqueue (two_cfg []) two_enc two_dec 20 ''p'' False ''n'' ''t'' two_mail (keyed ''y'')
     (snd (sq_enqueue (two_cfg []) two_enc two_dec 10 ''p'' False ''n'' ''t'' two_mail (keyed ''x'') (used_row, new_queue))))
     = Inr (InMemory 0)"
  "list_jobs (snd (snd (sq_enqueue (two_cfg []) two_enc two_dec 10 ''p'' False ''n'' ''t'' two_mail (keyed ''x'') (used_row, new_queue)))) = []"
  by code_simp+

end
