(* ===== verification/Credential.thy ===== *)
theory Credential
  imports RetryPolicy Base64
begin

text \<open>
  Credentials, src/src/core/Credential.ts, and the transport rules of src/src/core/net.ts.  User, password and
  token are lists of UTF-16 units.  The token provider is a callback of the caller, so resolveToken is in the
  clients; what it returns is checked here.
\<close>

section \<open>Transport rules\<close>

definition ascii_lower :: "string \<Rightarrow> string" where
  "ascii_lower s = map (\<lambda>c. let n = (of_char c :: nat) in if 65 \<le> n \<and> n \<le> 90 then char_of (n + 32) else c) s"

text \<open>/^127(\.\d{1,3}){3}$/\<close>

definition is_loopback_ip :: "string \<Rightarrow> bool" where
  "is_loopback_ip h = (case js_split (CHR ''.'') h of
     [a, b, c, d] \<Rightarrow> a = ''127'' \<and> list_all (\<lambda>p. 1 \<le> length p \<and> length p \<le> 3 \<and> list_all is_digit p) [b, c, d]
   | _ \<Rightarrow> False)"

definition strip_brackets :: "string \<Rightarrow> string" where
  "strip_brackets s = (let s1 = (if s \<noteq> [] \<and> hd s = CHR ''['' then tl s else s)
     in if s1 \<noteq> [] \<and> last s1 = CHR '']'' then butlast s1 else s1)"

definition isLoopbackHost :: "string \<Rightarrow> bool" where
  "isLoopbackHost host = (let h = strip_brackets (ascii_lower (js_trim host)) in
     h = ''localhost'' \<or> h = ''::1'' \<or> is_loopback_ip h \<or> take 10 (rev h) = rev ''.localhost'')"

definition resolveRequireTLS :: "bool option \<Rightarrow> string \<Rightarrow> bool" where
  "resolveRequireTLS explicit host = (case explicit of Some b \<Rightarrow> b | None \<Rightarrow> \<not> isLoopbackHost host)"

section \<open>Credentials\<close>

datatype auth_type = AuthPlain | AuthLogin | AuthXoauth2

record mail_auth =
  au_type :: auth_type
  au_user :: units
  au_pass :: "units option"
  au_token :: "units option"
  au_getToken :: bool

record credential =
  cr_type :: auth_type
  cr_user :: units
  cr_pass :: units
  cr_token :: units
  cr_canRefresh :: bool

definition credential_from :: "mail_auth \<Rightarrow> thrown + credential" where
  "credential_from auth =
     (if au_type auth = AuthXoauth2 \<and> (au_token auth = None \<or> au_token auth = Some []) \<and> \<not> au_getToken auth
      then Inl (ThrownMailTs (ConfigError ''xoauth2 auth requires `token` or `getToken`''))
      else Inr \<lparr> cr_type = au_type auth, cr_user = au_user auth, cr_pass = or_default (au_pass auth) [],
        cr_token = or_default (au_token auth) [], cr_canRefresh = au_getToken auth \<rparr>)"

definition encode_secret :: "units \<Rightarrow> string" where "encode_secret raw = b64_encode (utf8_encode raw)"

definition buildPlainPayload :: "credential \<Rightarrow> string" where
  "buildPlainPayload c = encode_secret (0 # cr_user c @ 0 # cr_pass c)"

definition buildLoginUser :: "credential \<Rightarrow> string" where "buildLoginUser c = encode_secret (cr_user c)"
definition buildLoginPass :: "credential \<Rightarrow> string" where "buildLoginPass c = encode_secret (cr_pass c)"

definition buildXOAuth2Payload :: "credential \<Rightarrow> units \<Rightarrow> string" where
  "buildXOAuth2Payload c token = encode_secret (units_of ''user='' @ cr_user c @ 1 # units_of ''auth=Bearer '' @ token @ [1, 1])"

text \<open>The check on what getToken returned.\<close>

definition checked_token :: "thrown + units \<Rightarrow> thrown + units" where
  "checked_token r = (case r of Inl e \<Rightarrow> Inl e
     | Inr t \<Rightarrow> if t = [] then Inl (ThrownMailTs (ConfigError ''getToken() returned an empty token'')) else Inr t)"

end
