(* ===== verification/SmtpClient.thy ===== *)
theory SmtpClient
  imports SmtpProtocol Credential
begin

text \<open>
  The SMTP client, src/src/smtp/SmtpClient.ts.  A method is a program that talks to a server: a tree of what
  it does next (open a connection, write a command and wait for the reply, write the message, upgrade to TLS,
  ask for a token), with a continuation for every answer, built with bind and catch over the fields of the
  client.  An answer is a reply, or what took its place (the timer of the wait, a timeout or the end of the
  socket, a reply over the limits).  A conversation is the list of what was done and answered.  Logging, the proxy and the TLS options are left out.
\<close>

section \<open>Programs and conversations\<close>

text \<open>
  Why no reply came: the timer of the wait, the timeout of the socket (with the state it was in), a reply over
  the limits of the stream, an error or the end of the socket; and the error raised in its place.
\<close>

datatype reply_loss = WaitExpired string | SocketTimedOut string | ReplyRejected string | SocketClosed string

definition loss_error :: "reply_loss \<Rightarrow> mail_error" where
  "loss_error l = (case l of
     WaitExpired phase \<Rightarrow> SmtpTimeoutError phase
   | SocketTimedOut st \<Rightarrow> SmtpTimeoutError st
   | ReplyRejected m \<Rightarrow> LimitError (''SMTP reply rejected: '' @ m)
   | SocketClosed m \<Rightarrow> SmtpConnError m 0 [])"

datatype smtp_answer = Reply smtp_reply | NoReply reply_loss

datatype 'a smtp_io =
    Done 'a
  | DoOpen bool "mail_error option \<Rightarrow> 'a smtp_io"
  | DoGreeting "smtp_answer \<Rightarrow> 'a smtp_io"
  | DoCommand string string "smtp_answer \<Rightarrow> 'a smtp_io"
  | DoRcpts "string list" "smtp_answer list \<Rightarrow> 'a smtp_io"
  | DoBody string "smtp_answer \<Rightarrow> 'a smtp_io"
  | DoUpgrade "mail_error option \<Rightarrow> 'a smtp_io"
  | DoToken bool "thrown + units \<Rightarrow> 'a smtp_io"
  | DoDestroy "'a smtp_io"

datatype smtp_event =
    EvOpen bool "mail_error option"
  | EvGreeting smtp_answer
  | EvCommand string string smtp_answer
  | EvRcpts "string list" "smtp_answer list"
  | EvBody string smtp_answer
  | EvUpgrade "mail_error option"
  | EvToken bool "thrown + units"
  | EvDestroy

primrec io_bind :: "'a smtp_io \<Rightarrow> ('a \<Rightarrow> 'b smtp_io) \<Rightarrow> 'b smtp_io" where
  "io_bind (Done x) f = f x"
| "io_bind (DoOpen s k) f = DoOpen s (\<lambda>r. io_bind (k r) f)"
| "io_bind (DoGreeting k) f = DoGreeting (\<lambda>r. io_bind (k r) f)"
| "io_bind (DoCommand l p k) f = DoCommand l p (\<lambda>r. io_bind (k r) f)"
| "io_bind (DoRcpts ls k) f = DoRcpts ls (\<lambda>r. io_bind (k r) f)"
| "io_bind (DoBody b k) f = DoBody b (\<lambda>r. io_bind (k r) f)"
| "io_bind (DoUpgrade k) f = DoUpgrade (\<lambda>r. io_bind (k r) f)"
| "io_bind (DoToken i k) f = DoToken i (\<lambda>r. io_bind (k r) f)"
| "io_bind (DoDestroy k) f = DoDestroy (io_bind k f)"

text \<open>The program after one event; None when it does something else.\<close>

definition io_step :: "'a smtp_io \<Rightarrow> smtp_event \<Rightarrow> 'a smtp_io option" where
  "io_step m e = (case m of
     Done x \<Rightarrow> None
   | DoOpen s k \<Rightarrow> (case e of EvOpen s' r \<Rightarrow> if s' = s then Some (k r) else None | _ \<Rightarrow> None)
   | DoGreeting k \<Rightarrow> (case e of EvGreeting r \<Rightarrow> Some (k r) | _ \<Rightarrow> None)
   | DoCommand l p k \<Rightarrow> (case e of EvCommand l' p' r \<Rightarrow> if l' = l \<and> p' = p then Some (k r) else None | _ \<Rightarrow> None)
   | DoRcpts ls k \<Rightarrow> (case e of EvRcpts ls' rs \<Rightarrow> if ls' = ls \<and> length rs = length ls then Some (k rs) else None | _ \<Rightarrow> None)
   | DoBody b k \<Rightarrow> (case e of EvBody b' r \<Rightarrow> if b' = b then Some (k r) else None | _ \<Rightarrow> None)
   | DoUpgrade k \<Rightarrow> (case e of EvUpgrade r \<Rightarrow> Some (k r) | _ \<Rightarrow> None)
   | DoToken i k \<Rightarrow> (case e of EvToken i' r \<Rightarrow> if i' = i then Some (k r) else None | _ \<Rightarrow> None)
   | DoDestroy k \<Rightarrow> (case e of EvDestroy \<Rightarrow> Some k | _ \<Rightarrow> None))"

text \<open>The result of a whole conversation.\<close>

fun conv :: "'a smtp_io \<Rightarrow> smtp_event list \<Rightarrow> 'a option" where
  "conv m [] = (case m of Done x \<Rightarrow> Some x | _ \<Rightarrow> None)"
| "conv m (e # es) = (case io_step m e of None \<Rightarrow> None | Some m' \<Rightarrow> conv m' es)"

section \<open>The client\<close>

datatype smtp_state = SIdle | SConnecting | SGreeting | SEhlo | SStarttls | SEhloTls | SAuth | SReady | SSending | SQuit | SClosed | SError

record smtp_client =
  cl_state :: smtp_state
  cl_caps :: "smtp_caps option"
  cl_sent :: nat
  cl_socket :: bool
  cl_destroyed :: bool

record smtp_config =
  sc_host :: string
  sc_secure :: bool
  sc_auth :: "mail_auth option"
  sc_clientName :: "string option"
  sc_requireTLS :: "bool option"

definition new_client :: smtp_client where
  "new_client = \<lparr> cl_state = SIdle, cl_caps = None, cl_sent = 0, cl_socket = False, cl_destroyed = False \<rparr>"

type_synonym 'a smtp = "smtp_client \<Rightarrow> ((thrown + 'a) \<times> smtp_client) smtp_io"

definition give :: "'a \<Rightarrow> 'a smtp" where "give x = (\<lambda>c. Done (Inr x, c))"
definition throw :: "mail_error \<Rightarrow> 'a smtp" where "throw e = (\<lambda>c. Done (Inl (ThrownMailTs e), c))"
definition rethrow :: "thrown \<Rightarrow> 'a smtp" where "rethrow e = (\<lambda>c. Done (Inl e, c))"

text \<open>await inside try: what was returned or thrown is handed on\<close>

definition attempt :: "'a smtp \<Rightarrow> (thrown + 'a \<Rightarrow> 'b smtp) \<Rightarrow> 'b smtp" where
  "attempt m f = (\<lambda>c. io_bind (m c) (\<lambda>(r, c'). f r c'))"

definition bind :: "'a smtp \<Rightarrow> ('a \<Rightarrow> 'b smtp) \<Rightarrow> 'b smtp" where
  "bind m f = attempt m (\<lambda>r. case r of Inl e \<Rightarrow> rethrow e | Inr x \<Rightarrow> f x)"

definition catch :: "'a smtp \<Rightarrow> (thrown \<Rightarrow> 'a smtp) \<Rightarrow> 'a smtp" where
  "catch m h = attempt m (\<lambda>r. case r of Inl e \<Rightarrow> h e | Inr x \<Rightarrow> give x)"

definition put :: "(smtp_client \<Rightarrow> smtp_client) \<Rightarrow> unit smtp" where "put f = (\<lambda>c. Done (Inr (), f c))"
definition set_state :: "smtp_state \<Rightarrow> unit smtp" where "set_state s = put (\<lambda>c. c \<lparr> cl_state := s \<rparr>)"
definition with_client :: "(smtp_client \<Rightarrow> 'a smtp) \<Rightarrow> 'a smtp" where "with_client f = (\<lambda>c. f c c)"

text \<open>
  The end of an await: onReply rejects from 400 on.  When the socket is lost its handlers have run: they fail
  the pending replies, set the state (the timeout handler does not) and the socket is destroyed.
\<close>

definition lose :: "reply_loss \<Rightarrow> smtp_client \<Rightarrow> smtp_client" where
  "lose l c = (case l of WaitExpired phase \<Rightarrow> c
     | SocketTimedOut st \<Rightarrow> c \<lparr> cl_destroyed := True \<rparr>
     | ReplyRejected m \<Rightarrow> c \<lparr> cl_state := SError, cl_destroyed := True \<rparr>
     | SocketClosed m \<Rightarrow> c \<lparr> cl_state := SClosed, cl_destroyed := True \<rparr>)"

definition settled_reply :: "smtp_answer \<Rightarrow> thrown + smtp_reply" where
  "settled_reply a = (case a of
     Reply r \<Rightarrow> if 400 \<le> r_code r then Inl (ThrownMailTs (smtp_error_from_reply (r_code r) (r_lines r))) else Inr r
   | NoReply l \<Rightarrow> Inl (ThrownMailTs (loss_error l)))"

definition lose_on :: "smtp_answer \<Rightarrow> smtp_client \<Rightarrow> smtp_client" where
  "lose_on a c = (case a of Reply r \<Rightarrow> c | NoReply l \<Rightarrow> lose l c)"

definition taken :: "smtp_answer \<Rightarrow> smtp_client \<Rightarrow> (thrown + smtp_reply) \<times> smtp_client" where
  "taken a c = (settled_reply a, lose_on a c)"

definition command :: "string \<Rightarrow> string \<Rightarrow> smtp_reply smtp" where
  "command line phase = (\<lambda>c. if \<not> cl_socket c then throw (SmtpConnError ''Not connected'' 0 []) c
     else DoCommand line phase (\<lambda>a. Done (taken a c)))"

definition destroy_socket :: "unit smtp" where
  "destroy_socket = (\<lambda>c. if cl_socket c then DoDestroy (Done (Inr (), c \<lparr> cl_destroyed := True \<rparr>)) else Done (Inr (), c))"

text \<open>A reply that is not the one expected.\<close>

definition refuse :: "smtp_reply \<Rightarrow> 'a smtp" where "refuse r = throw (smtp_error_from_reply (r_code r) (r_lines r))"

section \<open>Connecting\<close>

definition doEhlo :: "smtp_config \<Rightarrow> unit smtp" where
  "doEhlo cfg = bind (set_state SEhlo) (\<lambda>_.
     bind (command (cmd_ehlo (or_default (sc_clientName cfg) ''mailts.local'')) ''ehlo'') (\<lambda>r.
       put (\<lambda>c. c \<lparr> cl_caps := Some (parseCapabilities (r_lines r)) \<rparr>)))"

definition attach :: "unit smtp" where "attach = put (\<lambda>c. c \<lparr> cl_socket := True, cl_destroyed := False \<rparr>)"

definition upgrade :: "unit smtp" where
  "upgrade = (\<lambda>c. DoUpgrade (\<lambda>r. case r of Some e \<Rightarrow> Done (Inl (ThrownMailTs e), c) | None \<Rightarrow> Done (Inr (), c)))"

definition doStartTls :: "smtp_config \<Rightarrow> unit smtp" where
  "doStartTls cfg = bind (set_state SStarttls) (\<lambda>_.
     bind (command ''STARTTLS'' ''starttls'') (\<lambda>r.
       if r_code r \<noteq> 220 then throw (SmtpTlsError (''STARTTLS rejected: '' @ reply_text r))
       else bind upgrade (\<lambda>_. bind attach (\<lambda>_. bind (set_state SEhloTls) (\<lambda>_. doEhlo cfg)))))"

definition resolveToken :: "credential \<Rightarrow> bool \<Rightarrow> units smtp" where
  "resolveToken cred invalid = (if cr_canRefresh cred
     then (\<lambda>c. DoToken invalid (\<lambda>r. Done (checked_token r, c))) else give (cr_token cred))"

definition is_error :: "error_name set \<Rightarrow> thrown \<Rightarrow> bool" where
  "is_error ns e = (case e of ThrownMailTs m \<Rightarrow> e_name m \<in> ns | ThrownOther _ \<Rightarrow> False)"

definition smtp_errors :: "error_name set" where "smtp_errors = {NSmtpError, NSmtpAuthError, NSmtpConnError, NSmtpRejectError}"

text \<open>
  The status in the JSON of a challenge, for the message only, is a parameter.  The second attempt has
  invalid set, so the recursion is one deep: the retry is the function with the other flag.
\<close>

definition xoauth2_failed :: "string \<Rightarrow> mail_error \<Rightarrow> mail_error" where
  "xoauth2_failed detail e = SmtpAuthError (''SMTP XOAUTH2 authentication failed'' @ detail @ '': '' @ e_message e)
     (case e_replyCode e of None \<Rightarrow> 535 | Some n \<Rightarrow> if n = 0 then 535 else n) (e_replyLines e)"

definition status_detail :: "string option \<Rightarrow> string" where
  "status_detail st = (case st of None \<Rightarrow> [] | Some s \<Rightarrow> if s = [] then [] else '' (status '' @ s @ '')'')"

definition authXOAuth2_try :: "(string \<Rightarrow> string option) \<Rightarrow> unit smtp option \<Rightarrow> credential \<Rightarrow> bool \<Rightarrow> unit smtp" where
  "authXOAuth2_try oauthStatus again cred invalid =
     bind (resolveToken cred invalid) (\<lambda>token.
     attempt (command (cmd_authXOAuth2 (buildXOAuth2Payload cred token)) ''auth'') (\<lambda>x. case x of
         Inl e \<Rightarrow> (case again of
             Some retry \<Rightarrow> if is_error {NSmtpAuthError} e then retry else rethrow e
           | None \<Rightarrow> rethrow e)
       | Inr r \<Rightarrow>
           if r_code r = 235 then give ()
           else if r_code r = 334 then attempt (command [] ''auth'') (\<lambda>y. case y of
               Inr r2 \<Rightarrow> refuse r2
             | Inl (ThrownOther m) \<Rightarrow> rethrow (ThrownOther m)
             | Inl (ThrownMailTs e) \<Rightarrow>
                 if e_name e \<notin> smtp_errors then rethrow (ThrownMailTs e)
                 else (case again of Some retry \<Rightarrow> retry
                   | None \<Rightarrow> throw (xoauth2_failed (status_detail (oauthStatus (reply_text r))) e)))
           else refuse r))"

definition authXOAuth2 :: "(string \<Rightarrow> string option) \<Rightarrow> credential \<Rightarrow> unit smtp" where
  "authXOAuth2 oauthStatus cred = authXOAuth2_try oauthStatus
     (if cr_canRefresh cred then Some (authXOAuth2_try oauthStatus None cred True) else None) cred False"

definition auth_plain :: "credential \<Rightarrow> unit smtp" where
  "auth_plain cred = bind (command (cmd_authPlain (buildPlainPayload cred)) ''auth'') (\<lambda>r. if r_code r \<noteq> 235 then refuse r else give ())"

definition auth_login :: "credential \<Rightarrow> unit smtp" where
  "auth_login cred = bind (command ''AUTH LOGIN'' ''auth'') (\<lambda>_. bind (command (buildLoginUser cred) ''auth_user'') (\<lambda>_.
     bind (command (buildLoginPass cred) ''auth_pass'') (\<lambda>r. if r_code r \<noteq> 235 then refuse r else give ())))"

definition doAuth :: "(string \<Rightarrow> string option) \<Rightarrow> credential \<Rightarrow> unit smtp" where
  "doAuth oauthStatus cred = bind (set_state SAuth) (\<lambda>_. with_client (\<lambda>c. case cl_caps c of
     None \<Rightarrow> throw (SmtpConnError ''No capabilities - EHLO not done'' 0 [])
   | Some caps \<Rightarrow>
       (if cr_type cred = AuthXoauth2 then
          (if ''XOAUTH2'' \<notin> set (cap_auth caps) then throw (SmtpAuthError ''Server does not support XOAUTH2'' 535 [])
           else authXOAuth2 oauthStatus cred)
        else if cr_type cred = AuthPlain \<and> ''PLAIN'' \<in> set (cap_auth caps) then auth_plain cred
        else if ''LOGIN'' \<in> set (cap_auth caps) then auth_login cred
        else if ''PLAIN'' \<in> set (cap_auth caps) then auth_plain cred
        else throw (SmtpAuthError (''No supported auth method available. Server offers: '' @
          (if cap_auth caps = [] then ''none'' else js_join '', '' (cap_auth caps))) 535 []))))"

definition open_socket :: "smtp_config \<Rightarrow> unit smtp" where
  "open_socket cfg = (\<lambda>c. DoOpen (sc_secure cfg) (\<lambda>r. case r of Some e \<Rightarrow> Done (Inl (ThrownMailTs e), c) | None \<Rightarrow> Done (Inr (), c)))"

definition greeting :: "smtp_reply smtp" where "greeting = (\<lambda>c. DoGreeting (\<lambda>a. Done (taken a c)))"

definition starttls_offered :: "smtp_client \<Rightarrow> bool" where
  "starttls_offered c = (case cl_caps c of Some caps \<Rightarrow> cap_starttls caps | None \<Rightarrow> False)"

text \<open>The TLS decision of connect.\<close>

definition secure_channel :: "smtp_config \<Rightarrow> unit smtp" where
  "secure_channel cfg = with_client (\<lambda>c.
     if \<not> sc_secure cfg \<and> starttls_offered c then doStartTls cfg
     else if \<not> sc_secure cfg \<and> sc_auth cfg \<noteq> None \<and> resolveRequireTLS (sc_requireTLS cfg) (sc_host cfg) then
       bind destroy_socket (\<lambda>_. throw (SmtpTlsError (''SMTP server does not offer STARTTLS; refusing to authenticate over an unencrypted connection ''
         @ ''(set requireTLS: false to allow)'')))
     else if \<not> sc_secure cfg \<and> sc_requireTLS cfg = Some True then
       bind destroy_socket (\<lambda>_. throw (SmtpTlsError ''SMTP server does not offer STARTTLS and requireTLS is set''))
     else give ())"

definition authenticate :: "(string \<Rightarrow> string option) \<Rightarrow> smtp_config \<Rightarrow> unit smtp" where
  "authenticate oauthStatus cfg = (case sc_auth cfg of None \<Rightarrow> give ()
     | Some auth \<Rightarrow> (case credential_from auth of Inl e \<Rightarrow> rethrow e | Inr cred \<Rightarrow> doAuth oauthStatus cred))"

definition smtp_connect :: "(string \<Rightarrow> string option) \<Rightarrow> smtp_config \<Rightarrow> unit smtp" where
  "smtp_connect oauthStatus cfg = with_client (\<lambda>c.
     if cl_state c \<noteq> SIdle then throw (SmtpConnError ''Client already connected'' 0 [])
     else bind (set_state SConnecting) (\<lambda>_. bind (open_socket cfg) (\<lambda>_. bind attach (\<lambda>_. bind (set_state SGreeting) (\<lambda>_.
       bind greeting (\<lambda>r. if r_code r \<noteq> 220 then refuse r
         else bind (doEhlo cfg) (\<lambda>_. bind (secure_channel cfg) (\<lambda>_. bind (authenticate oauthStatus cfg) (\<lambda>_. set_state SReady)))))))))"

section \<open>Sending\<close>

record send_options =
  so_eightBit :: bool
  so_smtpUtf8 :: bool
  so_allRecipientsRequired :: bool

record smtp_result =
  sr_serverId :: string
  sr_accepted :: "string list"
  sr_rejected :: "string list"
  sr_rejectedErrors :: "mail_error list"

text \<open>The queue id: the first angle brackets with something inside, else the word after queued as or id=.\<close>

fun angle_id :: "string \<Rightarrow> string option" where
  "angle_id [] = None"
| "angle_id (ch # s) = (let w = takeWhile (\<lambda>x. x \<noteq> CHR ''>'') s in
     if ch = CHR ''<'' \<and> w \<noteq> [] \<and> length w < length s then Some w else angle_id s)"

definition queue_word :: "string \<Rightarrow> string option" where
  "queue_word s = (case find (\<lambda>k. ascii_upper (take (length k) s) = k) [''QUEUED AS'', ''ID=''] of None \<Rightarrow> None
     | Some k \<Rightarrow> (let w = takeWhile (\<lambda>x. \<not> js_ws x) (dropWhile js_ws (drop (length k) s)) in if w = [] then None else Some w))"

fun queued_id :: "string \<Rightarrow> string option" where
  "queued_id [] = None"
| "queued_id (ch # s) = (case queue_word (ch # s) of Some w \<Rightarrow> Some w | None \<Rightarrow> queued_id s)"

definition server_id :: "smtp_reply \<Rightarrow> string" where
  "server_id r = (case angle_id (reply_text r) of Some i \<Rightarrow> i | None \<Rightarrow> or_default (queued_id (reply_text r)) [])"

text \<open>A refusal of one recipient: any SMTP error but a lost connection; anything else ends the transaction.\<close>

definition rcpt_outcome :: "thrown + smtp_reply \<Rightarrow> thrown + (mail_error option)" where
  "rcpt_outcome x = (case x of
     Inr r \<Rightarrow> Inr None
   | Inl (ThrownMailTs e) \<Rightarrow> if e_name e \<in> smtp_errors \<and> e_name e \<noteq> NSmtpConnError then Inr (Some e) else Inl (ThrownMailTs e)
   | Inl (ThrownOther m) \<Rightarrow> Inl (ThrownOther m))"

primrec serialRcpts :: "string list \<Rightarrow> mail_error option list smtp" where
  "serialRcpts [] = give []"
| "serialRcpts (l # ls) =
     bind (attempt (command l ''rcpt_to'') (\<lambda>x. case rcpt_outcome x of Inl e \<Rightarrow> rethrow e | Inr o1 \<Rightarrow> give o1)) (\<lambda>o1.
       bind (serialRcpts ls) (\<lambda>os. give (o1 # os)))"

primrec first_throw :: "(thrown + 'a) list \<Rightarrow> thrown + 'a list" where
  "first_throw [] = Inr []"
| "first_throw (x # xs) = (case x of Inl e \<Rightarrow> Inl e | Inr y \<Rightarrow> (case first_throw xs of Inl e \<Rightarrow> Inl e | Inr ys \<Rightarrow> Inr (y # ys)))"

definition pipelineRcpts :: "string list \<Rightarrow> mail_error option list smtp" where
  "pipelineRcpts ls = (\<lambda>c. DoRcpts ls (\<lambda>as.
     Done (first_throw (map (rcpt_outcome \<circ> settled_reply) as), fold lose_on as c)))"

definition send_params :: "smtp_caps option \<Rightarrow> string \<Rightarrow> send_options \<Rightarrow> string list" where
  "send_params caps raw opts =
     (case caps of Some k \<Rightarrow> (case cap_size k of Some n \<Rightarrow> if n = 0 then [] else [''SIZE='' @ show_nat (length raw)] | None \<Rightarrow> []) | None \<Rightarrow> [])
     @ (if so_eightBit opts \<and> (case caps of Some k \<Rightarrow> cap_eightBitMime k | None \<Rightarrow> False) then [''BODY=8BITMIME''] else [])
     @ (if so_smtpUtf8 opts then [''SMTPUTF8''] else [])"

text \<open>What the server cannot take, found out before a transaction is opened.\<close>

definition send_refused :: "smtp_caps option \<Rightarrow> string \<Rightarrow> send_options \<Rightarrow> mail_error option" where
  "send_refused caps raw opts =
     (case caps of
        Some k \<Rightarrow> (case cap_size k of
            Some n \<Rightarrow> if n \<noteq> 0 \<and> int (length raw) > n
              then Some (SmtpRejectError (''Message size '' @ show_nat (length raw) @ '' exceeds server limit '' @ show_int n) 552 []) else None
          | None \<Rightarrow> None)
      | None \<Rightarrow> None)"

definition utf8_refused :: "smtp_caps option \<Rightarrow> send_options \<Rightarrow> bool" where
  "utf8_refused caps opts \<longleftrightarrow> so_smtpUtf8 opts \<and> \<not> (case caps of Some k \<Rightarrow> cap_smtpUtf8 k | None \<Rightarrow> False)"

definition pick :: "('b option \<Rightarrow> bool) \<Rightarrow> 'a list \<Rightarrow> 'b option list \<Rightarrow> 'a list" where
  "pick p xs os = map fst (filter (\<lambda>(x, o1). p o1) (zip xs os))"

definition body :: "string \<Rightarrow> smtp_reply smtp" where "body raw = (\<lambda>c. DoBody (dotStuff raw) (\<lambda>a. Done (taken a c)))"

definition send_body :: "string list \<Rightarrow> string \<Rightarrow> mail_error option list \<Rightarrow> smtp_result smtp" where
  "send_body rcpts raw os = bind (command ''DATA'' ''data'') (\<lambda>_. bind (body raw) (\<lambda>r.
     if r_code r \<noteq> 250 then refuse r
     else bind (put (\<lambda>c. c \<lparr> cl_sent := cl_sent c + 1, cl_state := SReady \<rparr>)) (\<lambda>_.
       give \<lparr> sr_serverId = server_id r, sr_accepted = pick (\<lambda>o1. o1 = None) rcpts os,
         sr_rejected = pick (\<lambda>o1. o1 \<noteq> None) rcpts os, sr_rejectedErrors = List.map_filter id os \<rparr>)))"

definition transaction :: "smtp_caps option \<Rightarrow> string \<Rightarrow> string list \<Rightarrow> string list \<Rightarrow> string \<Rightarrow> send_options \<Rightarrow> smtp_result smtp" where
  "transaction caps mail_line rcpts rcpt_lines raw opts =
     bind (command mail_line ''mail_from'') (\<lambda>_.
     bind (if (case caps of Some k \<Rightarrow> cap_pipelining k | None \<Rightarrow> False) then pipelineRcpts rcpt_lines else serialRcpts rcpt_lines) (\<lambda>os.
       if pick (\<lambda>o1. o1 = None) rcpts os = [] \<or> so_allRecipientsRequired opts \<and> pick (\<lambda>o1. o1 \<noteq> None) rcpts os \<noteq> []
       then throw (case List.map_filter id os of [] \<Rightarrow> SmtpRejectError ''All recipients rejected'' 554 [] | e # _ \<Rightarrow> e)
       else send_body rcpts raw os))"

definition recover :: "thrown \<Rightarrow> 'a smtp" where
  "recover e = bind (set_state SError) (\<lambda>_. with_client (\<lambda>c.
     if cl_socket c \<and> \<not> cl_destroyed c
     then bind (catch (bind (command ''RSET'' ''rset'') (\<lambda>_. set_state SReady)) (\<lambda>_. destroy_socket)) (\<lambda>_. rethrow e)
     else rethrow e))"

definition lift_sum :: "mail_error + 'a \<Rightarrow> 'a smtp" where
  "lift_sum x = (case x of Inl e \<Rightarrow> throw e | Inr y \<Rightarrow> give y)"

primrec all_lines :: "string list \<Rightarrow> mail_error + string list" where
  "all_lines [] = Inr []"
| "all_lines (a # as) = (case cmd_rcptTo a of Inl e \<Rightarrow> Inl e
     | Inr l \<Rightarrow> (case all_lines as of Inl e \<Rightarrow> Inl e | Inr ls \<Rightarrow> Inr (l # ls)))"

definition smtp_send :: "string \<Rightarrow> string list \<Rightarrow> string \<Rightarrow> send_options \<Rightarrow> smtp_result smtp" where
  "smtp_send sender rcpts raw opts = with_client (\<lambda>c.
     if cl_state c \<noteq> SReady then throw (SmtpConnError ''Client not in READY state'' 0 [])
     else if rcpts = [] then throw (SmtpRejectError ''No recipients'' 554 [])
     else bind (lift_sum (all_lines rcpts)) (\<lambda>rcpt_lines. bind (lift_sum (cmd_mailFrom sender [])) (\<lambda>_.
       bind (set_state SSending) (\<lambda>_. (case send_refused (cl_caps c) raw opts of
           Some e \<Rightarrow> bind (set_state SReady) (\<lambda>_. throw e)
         | None \<Rightarrow>
             if utf8_refused (cl_caps c) opts then bind (set_state SReady) (\<lambda>_.
               throw (SmtpRejectError ''Server does not support SMTPUTF8 (required for internationalised addresses)'' 553 []))
             else catch (bind (lift_sum (cmd_mailFrom sender (send_params (cl_caps c) raw opts))) (\<lambda>mail_line.
               transaction (cl_caps c) mail_line rcpts rcpt_lines raw opts)) recover)))))"

definition sendMessage :: "string \<Rightarrow> string list \<Rightarrow> string \<Rightarrow> send_options \<Rightarrow> string smtp" where
  "sendMessage sender rcpts raw opts = bind (smtp_send sender rcpts raw opts) (\<lambda>r. give (sr_serverId r))"

section \<open>Closing\<close>

definition quit :: "unit smtp" where
  "quit = with_client (\<lambda>c. if cl_state c = SClosed \<or> cl_state c = SIdle then give ()
     else bind (set_state SQuit) (\<lambda>_.
       bind (catch (bind (command ''QUIT'' ''quit'') (\<lambda>_. give ())) (\<lambda>_. give ())) (\<lambda>_.
         bind destroy_socket (\<lambda>_. set_state SClosed))))"

definition verify :: "bool smtp" where
  "verify = with_client (\<lambda>c. if cl_state c \<noteq> SReady then give False
     else catch (bind (command ''NOOP'' ''noop'') (\<lambda>r. give (r_code r = 250))) (\<lambda>_. give False))"

definition destroy :: "unit smtp" where "destroy = bind destroy_socket (\<lambda>_. set_state SClosed)"

definition isReady :: "smtp_client \<Rightarrow> bool" where "isReady c \<longleftrightarrow> cl_state c = SReady"
definition messageCount :: "smtp_client \<Rightarrow> nat" where "messageCount c = cl_sent c"

end
