(* ===== verification/SmtpRuns.thy ===== *)
theory SmtpRuns
  imports SmtpClient
begin

text \<open>
  Reasoning about conversations: the conversation of a composed program is that of its parts, one after the
  other, and what no program of the connection phase does before the channel is encrypted.
\<close>

section \<open>Conversations of composed programs\<close>

lemma io_step_bind: "\<forall>y. m \<noteq> Done y \<Longrightarrow> io_step (io_bind m f) e = map_option (\<lambda>m'. io_bind m' f) (io_step m e)"
  by (cases m; cases e; simp add: io_step_def)

lemma conv_io_bind:
  "conv (io_bind m f) es = Some q \<longleftrightarrow> (\<exists>es1 es2 y. es = es1 @ es2 \<and> conv m es1 = Some y \<and> conv (f y) es2 = Some q)"
proof (induction es arbitrary: m)
  case Nil
  show ?case by (cases m) auto
next
  case (Cons e es)
  show ?case
  proof (cases "\<exists>y. m = Done y")
    case True
    then obtain y where y: "m = Done y" ..
    have "conv m es1 = Some z \<longleftrightarrow> es1 = [] \<and> z = y" for es1 z
      by (cases es1) (auto simp: y io_step_def)
    then show ?thesis using y by auto
  next
    case False
    then have step: "io_step (io_bind m f) e = map_option (\<lambda>m'. io_bind m' f) (io_step m e)" by (intro io_step_bind) auto
    have nil: "conv m [] = None" using False by (cases m) auto
    show ?thesis
    proof (cases "io_step m e")
      case None
      then have "conv m (a # as) = Some y \<Longrightarrow> a \<noteq> e" for a as y by auto
      then show ?thesis using None step nil by (auto simp: Cons_eq_append_conv)
    next
      case (Some m')
      have "conv (io_bind m f) (e # es) = conv (io_bind m' f) es" using Some step by simp
      then show ?thesis using Cons.IH[of m'] Some nil
        by (auto simp: Cons_eq_append_conv) (metis append_Cons conv.simps(2) option.simps(5))
    qed
  qed
qed

lemma conv_Done: "conv (Done x) es = Some q \<longleftrightarrow> es = [] \<and> q = x"
  by (cases es) (auto simp: io_step_def)

lemma conv_basic:
  "conv (give (x :: 'a) c) es = Some q1 \<longleftrightarrow> es = [] \<and> q1 = (Inr x, c)"
  "conv (throw e c) es = Some q2 \<longleftrightarrow> es = [] \<and> q2 = (Inl (ThrownMailTs e), c)"
  "conv (rethrow t c) es = Some q3 \<longleftrightarrow> es = [] \<and> q3 = (Inl t, c)"
  "conv (put f c) es = Some q4 \<longleftrightarrow> es = [] \<and> q4 = (Inr (), f c)"
  "conv (set_state s c) es = Some q5 \<longleftrightarrow> es = [] \<and> q5 = (Inr (), c \<lparr> cl_state := s \<rparr>)"
  "conv (attach c) es = Some q6 \<longleftrightarrow> es = [] \<and> q6 = (Inr (), c \<lparr> cl_socket := True, cl_destroyed := False \<rparr>)"
  "conv (refuse rp c) es = Some q7 \<longleftrightarrow> es = [] \<and> q7 = (Inl (ThrownMailTs (smtp_error_from_reply (r_code rp) (r_lines rp))), c)"
  by (auto simp: give_def throw_def rethrow_def put_def set_state_def attach_def refuse_def conv_Done)

lemma conv_step1:
  "conv (DoOpen s k) es = Some q \<longleftrightarrow> (\<exists>r es'. es = EvOpen s r # es' \<and> conv (k r) es' = Some q)"
  "conv (DoGreeting g) es = Some q \<longleftrightarrow> (\<exists>r es'. es = EvGreeting r # es' \<and> conv (g r) es' = Some q)"
  "conv (DoCommand l p g) es = Some q \<longleftrightarrow> (\<exists>r es'. es = EvCommand l p r # es' \<and> conv (g r) es' = Some q)"
  "conv (DoRcpts ls h) es = Some q \<longleftrightarrow> (\<exists>rs es'. es = EvRcpts ls rs # es' \<and> length rs = length ls \<and> conv (h rs) es' = Some q)"
  "conv (DoBody b g) es = Some q \<longleftrightarrow> (\<exists>r es'. es = EvBody b r # es' \<and> conv (g r) es' = Some q)"
  "conv (DoUpgrade k) es = Some q \<longleftrightarrow> (\<exists>r es'. es = EvUpgrade r # es' \<and> conv (k r) es' = Some q)"
  "conv (DoToken i t) es = Some q \<longleftrightarrow> (\<exists>r es'. es = EvToken i r # es' \<and> conv (t r) es' = Some q)"
  "conv (DoDestroy m) es = Some q \<longleftrightarrow> (\<exists>es'. es = EvDestroy # es' \<and> conv m es' = Some q)"
  by (cases es; auto simp: io_step_def split: smtp_event.splits option.splits if_splits)+

declare conv.simps [simp del]

lemma settled_Inr: "settled_reply a = Inr r \<longleftrightarrow> a = Reply r \<and> r_code r < 400"
  by (cases a) (auto simp: settled_reply_def)

lemma lose_on_Reply [simp]: "lose_on (Reply r) c = c" by (simp add: lose_on_def)

lemma answer_cases: "(\<exists>a. P a \<and> q = (settled_reply a, lose_on a c)) \<longleftrightarrow>
    (\<exists>rp. P (Reply rp) \<and> r_code rp < 400 \<and> q = (Inr rp, c)) \<or> (\<exists>a e. P a \<and> settled_reply a = Inl e \<and> q = (Inl e, lose_on a c))"
  (is "?l = ?r")
proof
  assume ?l
  then obtain a where a: "P a" "q = (settled_reply a, lose_on a c)" by blast
  then show ?r by (cases "settled_reply a") (auto simp: settled_Inr)
next
  assume ?r
  then show ?l by (elim disjE exE conjE) (auto simp: settled_reply_def intro!: exI)
qed

lemma conv_command:
  "conv (command l p c) es = Some q \<longleftrightarrow>
     \<not> cl_socket c \<and> es = [] \<and> q = (Inl (ThrownMailTs (SmtpConnError ''Not connected'' 0 [])), c)
     \<or> cl_socket c \<and> (\<exists>rp. es = [EvCommand l p (Reply rp)] \<and> r_code rp < 400 \<and> q = (Inr rp, c))
     \<or> cl_socket c \<and> (\<exists>a e. es = [EvCommand l p a] \<and> settled_reply a = Inl e \<and> q = (Inl e, lose_on a c))"
proof (cases "cl_socket c")
  case True
  have "conv (command l p c) es = Some q \<longleftrightarrow> (\<exists>a. es = [EvCommand l p a] \<and> q = (settled_reply a, lose_on a c))"
    using True by (simp add: command_def conv_step1 conv_Done taken_def)
  also have "\<dots> \<longleftrightarrow> (\<exists>rp. es = [EvCommand l p (Reply rp)] \<and> r_code rp < 400 \<and> q = (Inr rp, c))
     \<or> (\<exists>a e. es = [EvCommand l p a] \<and> settled_reply a = Inl e \<and> q = (Inl e, lose_on a c))"
    by (rule answer_cases)
  finally show ?thesis using True by simp
next
  case False
  then show ?thesis by (simp add: command_def conv_basic)
qed

lemma conv_command_open:
  "cl_socket c \<Longrightarrow> conv (command l p c) es = Some q \<longleftrightarrow> (\<exists>a. es = [EvCommand l p a] \<and> q = (settled_reply a, lose_on a c))"
  using answer_cases[of "\<lambda>a. es = [EvCommand l p a]" q c] by (simp add: conv_command)

lemma conv_other:
  "conv (greeting c) es = Some p \<longleftrightarrow> (\<exists>a. es = [EvGreeting a] \<and> p = (settled_reply a, lose_on a c))"
  "conv (open_socket cfg c) es = Some q \<longleftrightarrow>
     (\<exists>r. es = [EvOpen (sc_secure cfg) r] \<and> q = (case r of None \<Rightarrow> Inr () | Some e \<Rightarrow> Inl (ThrownMailTs e), c))"
  "conv (upgrade c) es = Some q \<longleftrightarrow> (\<exists>r. es = [EvUpgrade r] \<and> q = (case r of None \<Rightarrow> Inr () | Some e \<Rightarrow> Inl (ThrownMailTs e), c))"
  "conv (body raw c) es = Some p \<longleftrightarrow> (\<exists>a. es = [EvBody (dotStuff raw) a] \<and> p = (settled_reply a, lose_on a c))"
  "conv (destroy_socket c) es = Some q \<longleftrightarrow> (if cl_socket c then es = [EvDestroy] \<and> q = (Inr (), c \<lparr> cl_destroyed := True \<rparr>)
     else es = [] \<and> q = (Inr (), c))"
  by (auto simp: greeting_def open_socket_def upgrade_def body_def destroy_socket_def conv_step1 conv_Done taken_def split: option.splits)

lemma conv_attempt: "conv (attempt m f c) es = Some q \<longleftrightarrow>
    (\<exists>es1 es2 r c1. es = es1 @ es2 \<and> conv (m c) es1 = Some (r, c1) \<and> conv (f r c1) es2 = Some q)"
  by (auto simp: attempt_def conv_io_bind)

lemma conv_attempt_cases: "conv (attempt m f c) es = Some q \<longleftrightarrow>
    (\<exists>es1 es2 e c1. es = es1 @ es2 \<and> conv (m c) es1 = Some (Inl e, c1) \<and> conv (f (Inl e) c1) es2 = Some q)
    \<or> (\<exists>es1 es2 x c1. es = es1 @ es2 \<and> conv (m c) es1 = Some (Inr x, c1) \<and> conv (f (Inr x) c1) es2 = Some q)"
  unfolding conv_attempt by (metis obj_sumE)

lemma split_nil: "(\<exists>es1 es2. es = es1 @ es2 \<and> (\<exists>e c1. P e c1 es1 \<and> es2 = [] \<and> R e c1)) \<longleftrightarrow> (\<exists>e c1. P e c1 es \<and> R e c1)"
  by (rule iffI) (auto, blast)

lemma conv_bind: "conv (bind m f c) es = Some q \<longleftrightarrow>
    (\<exists>e c1. conv (m c) es = Some (Inl e, c1) \<and> q = (Inl e, c1))
    \<or> (\<exists>es1 es2 x c1. es = es1 @ es2 \<and> conv (m c) es1 = Some (Inr x, c1) \<and> conv (f x c1) es2 = Some q)"
  by (simp add: bind_def conv_attempt_cases conv_basic split_nil)

lemma conv_catch: "conv (catch m h c) es = Some q \<longleftrightarrow>
    (\<exists>es1 es2 e c1. es = es1 @ es2 \<and> conv (m c) es1 = Some (Inl e, c1) \<and> conv (h e c1) es2 = Some q)
    \<or> (\<exists>x c1. conv (m c) es = Some (Inr x, c1) \<and> q = (Inr x, c1))"
  by (simp add: catch_def conv_attempt_cases conv_basic split_nil)

lemma run_bind: "conv (m c) es1 = Some (Inr x, c1) \<Longrightarrow> conv (f x c1) es2 = Some q \<Longrightarrow> conv (bind m f c) (es1 @ es2) = Some q"
  unfolding conv_bind by blast

lemmas run_bind0 = run_bind[of m c "[]" for m c, simplified]
lemmas run_bind1 = run_bind[of m c "[e]" for m c e, simplified]

lemma conv_with: "conv (with_client f c) es = conv (f c c) es" by (simp add: with_client_def)

lemmas conv_rules = conv_basic conv_command conv_other conv_with

section \<open>What a program never does, and what it keeps\<close>

definition always :: "(smtp_event \<Rightarrow> bool) \<Rightarrow> 'a smtp \<Rightarrow> bool" where
  "always P m \<longleftrightarrow> (\<forall>c es q. conv (m c) es = Some q \<longrightarrow> list_all P es)"

definition keeps :: "(smtp_client \<Rightarrow> 'b) \<Rightarrow> 'a smtp \<Rightarrow> bool" where
  "keeps g m \<longleftrightarrow> (\<forall>c es r c'. conv (m c) es = Some (r, c') \<longrightarrow> g c' = g c)"

lemma alwaysD: "always P m \<Longrightarrow> conv (m c) es = Some q \<Longrightarrow> list_all P es" by (cases q) (auto simp: always_def)
lemma keepsD: "keeps g m \<Longrightarrow> conv (m c) es = Some (r, c') \<Longrightarrow> g c' = g c" by (auto simp: keeps_def)

lemma always_attempt: "always P m \<Longrightarrow> (\<And>x. always P (f x)) \<Longrightarrow> always P (attempt m f)"
  unfolding always_def conv_attempt by (metis list_all_append)

lemma always_bind: "always P m \<Longrightarrow> (\<And>x. always P (f x)) \<Longrightarrow> always P (bind m f)"
  unfolding bind_def by (rule always_attempt) (auto split: sum.split simp: always_def conv_basic)

lemma keeps_attempt: "keeps g m \<Longrightarrow> (\<And>x. keeps g (f x)) \<Longrightarrow> keeps g (attempt m f)"
  unfolding keeps_def conv_attempt by metis

lemma keeps_bind: "keeps g m \<Longrightarrow> (\<And>x. keeps g (f x)) \<Longrightarrow> keeps g (bind m f)"
  unfolding bind_def by (rule keeps_attempt) (auto split: sum.split simp: keeps_def conv_basic)

lemma keeps_with: "(\<And>c. keeps g (f c)) \<Longrightarrow> keeps g (with_client f)"
  by (simp add: keeps_def conv_with)

lemma lose_on_fields [simp]: "cl_caps (lose_on a c) = cl_caps c" "cl_sent (lose_on a c) = cl_sent c" "cl_socket (lose_on a c) = cl_socket c"
  by (cases a; simp add: lose_on_def lose_def split: reply_loss.split)+

lemma keeps_caps:
  "keeps cl_caps (give x)" "keeps cl_caps (throw e)" "keeps cl_caps (rethrow t)" "keeps cl_caps (set_state s)"
  "keeps cl_caps (command l p)" "keeps cl_caps (refuse rp)"
  by (auto simp: keeps_def conv_rules split: if_splits)

lemma keeps_token: "keeps cl_caps (resolveToken cred i)"
  by (auto simp: keeps_def resolveToken_def conv_basic conv_step1 conv_Done)

lemma keeps_try:
  assumes "\<And>m. again = Some m \<Longrightarrow> keeps cl_caps m"
  shows "keeps cl_caps (authXOAuth2_try st again cred i)"
proof (cases again)
  case None
  then show ?thesis unfolding authXOAuth2_try_def
    by (auto intro!: keeps_bind keeps_token keeps_attempt keeps_caps split: sum.split thrown.split)
next
  case (Some m)
  then have "keeps cl_caps m" by (rule assms)
  with Some show ?thesis unfolding authXOAuth2_try_def
    by (auto intro!: keeps_bind keeps_token keeps_attempt keeps_caps split: sum.split thrown.split)
qed

lemma keeps_auth: "keeps cl_caps (authenticate st cfg)"
  unfolding authenticate_def doAuth_def auth_plain_def auth_login_def authXOAuth2_def
  by (auto split: option.split sum.split intro!: keeps_bind keeps_with keeps_caps keeps_try)

section \<open>Before the channel is encrypted\<close>

definition greets :: "smtp_config \<Rightarrow> string" where "greets cfg = cmd_ehlo (or_default (sc_clientName cfg) ''mailts.local'')"

definition plain_event :: "smtp_config \<Rightarrow> smtp_event \<Rightarrow> bool" where
  "plain_event cfg e = (case e of EvCommand l p a \<Rightarrow> l = greets cfg \<or> l = ''STARTTLS''
     | EvRcpts ls as \<Rightarrow> False | EvBody b a \<Rightarrow> False | EvToken i r \<Rightarrow> False | _ \<Rightarrow> True)"

definition before_tls :: "smtp_event list \<Rightarrow> smtp_event list" where "before_tls es = takeWhile (\<lambda>e. e \<noteq> EvUpgrade None) es"

definition needs_tls :: "smtp_config \<Rightarrow> bool" where
  "needs_tls cfg \<longleftrightarrow> \<not> sc_secure cfg \<and>
     (sc_auth cfg \<noteq> None \<and> resolveRequireTLS (sc_requireTLS cfg) (sc_host cfg) \<or> sc_requireTLS cfg = Some True)"

text \<open>The upgrade happened, and what the server said after it is what the client goes by.\<close>

definition upgraded :: "smtp_config \<Rightarrow> smtp_event list \<Rightarrow> smtp_client \<Rightarrow> bool" where
  "upgraded cfg es c \<longleftrightarrow> (\<exists>pre rp rest. es = pre @ EvUpgrade None # EvCommand (greets cfg) ''ehlo'' (Reply rp) # rest
     \<and> EvUpgrade None \<notin> set pre \<and> cl_caps c = Some (parseCapabilities (r_lines rp)))"

lemma before_tls_Cons: "before_tls (e # es) = (if e = EvUpgrade None then [] else e # before_tls es)"
  by (simp add: before_tls_def)

lemma plain_before: "list_all (plain_event cfg) es \<Longrightarrow> list_all (plain_event cfg) (before_tls es)"
  by (induction es) (auto simp: before_tls_def)

lemma upgraded_Cons: "upgraded cfg es c \<Longrightarrow> e \<noteq> EvUpgrade None \<Longrightarrow> upgraded cfg (e # es) c"
  unfolding upgraded_def by (metis append_Cons set_ConsD)

lemma doEhlo_run: "conv (doEhlo cfg c) es = Some q \<longleftrightarrow>
    \<not> cl_socket c \<and> es = [] \<and> q = (Inl (ThrownMailTs (SmtpConnError ''Not connected'' 0 [])), c \<lparr> cl_state := SEhlo \<rparr>)
    \<or> cl_socket c \<and> (\<exists>rp. es = [EvCommand (greets cfg) ''ehlo'' (Reply rp)] \<and> r_code rp < 400
         \<and> q = (Inr (), c \<lparr> cl_state := SEhlo, cl_caps := Some (parseCapabilities (r_lines rp)) \<rparr>))
    \<or> cl_socket c \<and> (\<exists>a e. es = [EvCommand (greets cfg) ''ehlo'' a] \<and> settled_reply a = Inl e
         \<and> q = (Inl e, lose_on a (c \<lparr> cl_state := SEhlo \<rparr>)))"
  by (auto simp: doEhlo_def conv_bind conv_rules greets_def)

lemma doStartTls_plain: "conv (doStartTls cfg c) es = Some (r, c') \<Longrightarrow> list_all (plain_event cfg) es"
  by (auto simp: doStartTls_def conv_bind conv_rules doEhlo_run plain_event_def split: if_splits)

lemma doStartTls_done:
  assumes "conv (doStartTls cfg c) es = Some (Inr (), c')"
  shows "\<exists>a rp. es = [EvCommand ''STARTTLS'' ''starttls'' a, EvUpgrade None, EvCommand (greets cfg) ''ehlo'' (Reply rp)]
    \<and> cl_caps c' = Some (parseCapabilities (r_lines rp))"
  using assms by (auto simp: doStartTls_def conv_bind conv_rules doEhlo_run settled_Inr split: if_splits sum.splits option.splits)

lemma secure_rest:
  assumes "needs_tls cfg" "conv (bind (secure_channel cfg) (\<lambda>_. bind (authenticate st cfg) (\<lambda>_. set_state SReady)) c) es = Some (r, c')"
  shows "list_all (plain_event cfg) (before_tls es) \<and> (r = Inr () \<longrightarrow> cl_state c' = SReady \<and> upgraded cfg es c')"
proof -
  have plain: "\<not> sc_secure cfg" using assms(1) by (simp add: needs_tls_def)
  show ?thesis
  proof (cases "starttls_offered c")
    case True
    then have sec: "conv (secure_channel cfg c) xs = conv (doStartTls cfg c) xs" for xs
      using plain by (simp add: secure_channel_def conv_with)
    show ?thesis using assms(2) unfolding conv_bind[of "secure_channel cfg"]
    proof (elim disjE exE conjE)
      fix e c1 assume "conv (secure_channel cfg c) es = Some (Inl e, c1)" "(r, c') = (Inl e, c1)"
      then show ?thesis using doStartTls_plain plain_before by (auto simp: sec)
    next
      fix es1 es2 x c1
      assume es: "es = es1 @ es2" "conv (secure_channel cfg c) es1 = Some (Inr x, c1)"
        "conv (bind (authenticate st cfg) (\<lambda>_. set_state SReady) c1) es2 = Some (r, c')"
      obtain a rp where up: "es1 = [EvCommand ''STARTTLS'' ''starttls'' a, EvUpgrade None, EvCommand (greets cfg) ''ehlo'' (Reply rp)]"
        "cl_caps c1 = Some (parseCapabilities (r_lines rp))" using doStartTls_done[of cfg c es1 c1] es(2) by (auto simp: sec)
      have "keeps cl_caps (bind (authenticate st cfg) (\<lambda>_. set_state SReady))" by (intro keeps_bind keeps_auth keeps_caps)
      then have caps: "cl_caps c' = cl_caps c1" using es(3) by (rule keepsD)
      have "r = Inr () \<Longrightarrow> cl_state c' = SReady" using es(3) by (auto simp: conv_bind conv_basic)
      moreover have "upgraded cfg es c'" unfolding upgraded_def
        using es(1) up caps by (intro exI[of _ "[hd es1]"] exI[of _ rp] exI[of _ es2]) simp
      moreover have "list_all (plain_event cfg) (before_tls es)" by (simp add: es(1) up(1) before_tls_Cons plain_event_def)
      ultimately show ?thesis by simp
    qed
  next
    case False
    then have "needs_tls cfg \<Longrightarrow> \<exists>m. secure_channel cfg c = bind destroy_socket (\<lambda>_. throw m) c"
      using plain by (auto simp: secure_channel_def with_client_def needs_tls_def resolveRequireTLS_def)
    then have "conv (secure_channel cfg c) xs = Some (x, d) \<Longrightarrow> list_all (plain_event cfg) xs \<and> (\<exists>e. x = Inl e)" for xs x d
      using assms(1) by (auto simp: conv_bind conv_rules plain_event_def split: if_splits)
    then show ?thesis using assms(2) plain_before unfolding conv_bind[of "secure_channel cfg"] by (elim disjE exE conjE) auto
  qed
qed

text \<open>C31: On a connection that is not encrypted from the start, a client that has credentials to protect (requireTLS
  is on, as it is by default except for loopback hosts) or that was told to require TLS writes nothing but EHLO
  and STARTTLS before the upgrade to TLS has succeeded: no AUTH command, no credential, no message, and the token
  provider is not even asked.  When connect returns, the upgrade has happened, EHLO was sent again over the
  encrypted channel, and the capabilities the client goes by are those announced there, not the ones an attacker
  could have announced before it.
\<close>

theorem no_secret_before_tls:
  assumes "needs_tls cfg" "conv (smtp_connect st cfg new_client) es = Some (r, c')"
  shows "list_all (plain_event cfg) (before_tls es) \<and> (r = Inr () \<longrightarrow> isReady c' \<and> upgraded cfg es c')"
proof -
  have plain: "\<not> sc_secure cfg" using assms(1) by (simp add: needs_tls_def)
  show ?thesis using assms(2) secure_rest[OF assms(1)] plain
    by (fastforce simp: smtp_connect_def new_client_def conv_bind[of "set_state s" for s] conv_bind[of "open_socket c" for c] conv_bind[of attach]
        conv_bind[of greeting] conv_bind[of "doEhlo c" for c] conv_rules doEhlo_run before_tls_Cons plain_event_def isReady_def before_tls_def
        intro: upgraded_Cons split: if_splits option.splits)
qed

definition tls_demo_cfg :: smtp_config where
  "tls_demo_cfg = \<lparr> sc_host = ''mx.example'', sc_secure = False,
     sc_auth = Some \<lparr> au_type = AuthPlain, au_user = [117], au_pass = Some [112], au_token = None, au_getToken = False \<rparr>,
     sc_clientName = Some ''me'', sc_requireTLS = None \<rparr>"

definition demo_upgrade :: "smtp_event list" where
  "demo_upgrade = [EvCommand ''STARTTLS'' ''starttls'' (Reply \<lparr> r_code = 220, r_lines = [''220 go''] \<rparr>), EvUpgrade None,
     EvCommand ''EHLO me'' ''ehlo'' (Reply \<lparr> r_code = 250, r_lines = [''250-mx'', ''250 AUTH PLAIN''] \<rparr>)]"

definition demo_auth :: "smtp_event list" where
  "demo_auth = [EvCommand (cmd_authPlain (encode_secret [0, 117, 0, 112])) ''auth'' (Reply \<lparr> r_code = 235, r_lines = [''235 ok''] \<rparr>)]"

definition tls_demo :: "smtp_event list" where
  "tls_demo = EvOpen False None # EvGreeting (Reply \<lparr> r_code = 220, r_lines = [''220 hi''] \<rparr>)
     # EvCommand ''EHLO me'' ''ehlo'' (Reply \<lparr> r_code = 250, r_lines = [''250-mx'', ''250-AUTH LOGIN'', ''250 STARTTLS''] \<rparr>)
     # demo_upgrade @ demo_auth"

definition tls_demo_end :: smtp_client where
  "tls_demo_end = new_client \<lparr> cl_state := SReady, cl_socket := True, cl_caps := Some (no_caps \<lparr> cap_auth := [''PLAIN''] \<rparr>) \<rparr>"

lemma tls_demo_tls:
  "cl_socket c \<Longrightarrow> conv (doStartTls tls_demo_cfg c) demo_upgrade =
     Some (Inr (), c \<lparr> cl_state := SEhlo, cl_destroyed := False, cl_caps := Some (no_caps \<lparr> cap_auth := [''PLAIN''] \<rparr>) \<rparr>)"
proof -
  assume s: "cl_socket c"
  have caps: "parseCapabilities [''250-mx'', ''250 AUTH PLAIN''] = no_caps \<lparr> cap_auth := [''PLAIN''] \<rparr>" by code_simp
  show ?thesis unfolding demo_upgrade_def doStartTls_def
    by (rule run_bind0, simp add: conv_basic, rule run_bind1, simp add: conv_command s, simp, rule run_bind1, simp add: conv_other,
        rule run_bind0, simp add: conv_basic, rule run_bind0, simp add: conv_basic)
      (simp add: doEhlo_run greets_def tls_demo_cfg_def cmd_ehlo_def caps s)
qed

lemma tls_demo_auth:
  "cl_socket c \<Longrightarrow> cl_caps c = Some (no_caps \<lparr> cap_auth := [''PLAIN''] \<rparr>) \<Longrightarrow>
   conv (authenticate st tls_demo_cfg c) demo_auth = Some (Inr (), c \<lparr> cl_state := SAuth \<rparr>)"
proof -
  assume s: "cl_socket c" "cl_caps c = Some (no_caps \<lparr> cap_auth := [''PLAIN''] \<rparr>)"
  show ?thesis unfolding demo_auth_def authenticate_def tls_demo_cfg_def doAuth_def
    by (simp add: credential_from_def, rule run_bind0, simp add: conv_basic)
      (simp add: conv_with s auth_plain_def, rule run_bind1, simp add: conv_command s buildPlainPayload_def, simp add: conv_basic)
qed

lemma tls_demo_run: "conv (smtp_connect st tls_demo_cfg new_client) tls_demo = Some (Inr (), tls_demo_end)"
proof -
  have caps: "parseCapabilities [''250-mx'', ''250-AUTH LOGIN'', ''250 STARTTLS''] = no_caps \<lparr> cap_starttls := True, cap_auth := [''LOGIN''] \<rparr>"
    by code_simp
  have cfg: "sc_secure tls_demo_cfg = False" "greets tls_demo_cfg = ''EHLO me''"
    by (simp_all add: tls_demo_cfg_def greets_def cmd_ehlo_def)
  show ?thesis
    unfolding tls_demo_def
    apply (simp only: smtp_connect_def conv_with new_client_def smtp_client.simps simp_thms if_False not_True_eq_False)
    apply (rule run_bind0, simp add: conv_basic)
    apply (rule run_bind1, simp add: conv_other cfg)
    apply (rule run_bind0, simp add: conv_basic)
    apply (rule run_bind0, simp add: conv_basic)
    apply (rule run_bind1, simp add: conv_other settled_reply_def)
    apply simp
    apply (rule run_bind1, simp add: doEhlo_run cfg caps)
    apply (rule run_bind, simp add: secure_channel_def conv_with cfg starttls_offered_def tls_demo_tls)
    apply (rule run_bind[of _ _ demo_auth _ _ _ "[]", simplified], simp add: tls_demo_auth)
    apply (simp add: conv_basic tls_demo_end_def new_client_def)
    done
qed

theorem no_secret_before_tls_witness:
  "isReady tls_demo_end \<and> upgraded tls_demo_cfg tls_demo tls_demo_end \<and> list_all (plain_event tls_demo_cfg) (before_tls tls_demo)"
proof -
  have "needs_tls tls_demo_cfg" by (simp add: needs_tls_def tls_demo_cfg_def) code_simp
  from no_secret_before_tls[OF this tls_demo_run[of "\<lambda>_. None"]] show ?thesis by simp
qed

end
