(* ===== verification/SmtpDelivery.thy ===== *)
theory SmtpDelivery
  imports SmtpRuns
begin

text \<open>
  What a transaction of the SMTP client leaves at the server: a server that does what its replies say, read off
  the conversation, and the delivery property of send.
\<close>

section \<open>A server that does what it says\<close>

record smtp_server =
  sv_from :: "string option"
  sv_rcpts :: "string list"
  sv_inbox :: "(string \<times> string list \<times> string) list"

definition sv_path :: "string \<Rightarrow> string" where "sv_path s = takeWhile (\<lambda>ch. ch \<noteq> CHR ''>'') s"
definition sv_clear :: "smtp_server \<Rightarrow> smtp_server" where "sv_clear s = s \<lparr> sv_from := None, sv_rcpts := [] \<rparr>"

definition sv_line :: "string \<Rightarrow> smtp_server \<Rightarrow> smtp_server" where
  "sv_line l s =
     (if starts_with ''MAIL FROM:<'' l then s \<lparr> sv_from := Some (sv_path (drop 11 l)), sv_rcpts := [] \<rparr>
      else if starts_with ''RCPT TO:<'' l then s \<lparr> sv_rcpts := sv_rcpts s @ [sv_path (drop 9 l)] \<rparr>
      else if l = ''RSET'' then sv_clear s
      else s)"

definition sv_deliver :: "string \<Rightarrow> smtp_server \<Rightarrow> smtp_server" where
  "sv_deliver b s = (case sv_from s of None \<Rightarrow> s
     | Some f \<Rightarrow> sv_clear (s \<lparr> sv_inbox := sv_inbox s @ [(f, sv_rcpts s, unstuff True (take (length b - 3) b))] \<rparr>))"

text \<open>
  The states a server may be in after what was written and answered: a command answered below 400 was done, one
  refused was not, one not answered may have been.  A message answered 250 was taken, one refused was not, with
  the transaction ended or not; another answer, or none, does not tell.
\<close>

definition after_line :: "string \<Rightarrow> smtp_answer \<Rightarrow> smtp_server \<Rightarrow> smtp_server list" where
  "after_line l a s = (case a of Reply r \<Rightarrow> [if r_code r < 400 then sv_line l s else s] | NoReply x \<Rightarrow> [s, sv_line l s])"

fun after_lines :: "(string \<times> smtp_answer) list \<Rightarrow> smtp_server \<Rightarrow> smtp_server list" where
  "after_lines [] s = [s]"
| "after_lines ((l, a) # las) s = concat (map (after_lines las) (after_line l a s))"

definition told :: "smtp_answer \<Rightarrow> bool" where
  "told a = (case a of Reply r \<Rightarrow> r_code r = 250 \<or> 400 \<le> r_code r | NoReply x \<Rightarrow> False)"

definition after_body :: "string \<Rightarrow> smtp_answer \<Rightarrow> smtp_server \<Rightarrow> smtp_server list" where
  "after_body b a s = (case a of
     Reply r \<Rightarrow> if r_code r = 250 then [sv_deliver b s] else if 400 \<le> r_code r then [s, sv_clear s] else [s, sv_clear s, sv_deliver b s]
   | NoReply x \<Rightarrow> [s, sv_clear s, sv_deliver b s])"

definition after_event :: "smtp_event \<Rightarrow> smtp_server \<Rightarrow> smtp_server list" where
  "after_event e s = (case e of
     EvCommand l p a \<Rightarrow> after_line l a s
   | EvRcpts ls as \<Rightarrow> after_lines (zip ls as) s
   | EvBody b a \<Rightarrow> after_body b a s
   | _ \<Rightarrow> [s])"

fun after_events :: "smtp_event list \<Rightarrow> smtp_server \<Rightarrow> smtp_server list" where
  "after_events [] s = [s]"
| "after_events (e # es) s = concat (map (after_events es) (after_event e s))"

definition clear_event :: "smtp_event \<Rightarrow> bool" where
  "clear_event e = (case e of EvBody b a \<Rightarrow> told a | _ \<Rightarrow> True)"

lemma after_events_append: "s'' \<in> set (after_events (es1 @ es2) s) \<longleftrightarrow> (\<exists>s'\<in>set (after_events es1 s). s'' \<in> set (after_events es2 s'))"
  by (induction es1 arbitrary: s) auto

section \<open>Recipients\<close>

definition rcpt_line :: "string \<Rightarrow> string" where "rcpt_line a = ''RCPT TO:<'' @ a @ ''>''"

lemma sv_path_clean: "CHR ''>'' \<notin> set a \<Longrightarrow> sv_path (a @ CHR ''>'' # s) = a"
  unfolding sv_path_def by (induction a) auto

lemma sv_rcpt_line: "CHR ''>'' \<notin> set a \<Longrightarrow> sv_line (rcpt_line a) s = s \<lparr> sv_rcpts := sv_rcpts s @ [a] \<rparr>"
  using sv_path_clean[of a "[]"] by (simp add: sv_line_def rcpt_line_def starts_with_def)

lemma all_lines_ok: "all_lines as = Inr ls \<Longrightarrow> ls = map rcpt_line as \<and> (\<forall>a\<in>set as. CHR ''>'' \<notin> set a)"
proof (induction as arbitrary: ls)
  case (Cons a as)
  then show ?case using envelopeAddr_clean[of a]
    by (auto simp: cmd_rcptTo_def rcpt_line_def split: sum.splits)
qed simp

lemma pick_Cons: "pick p (x # xs) (o1 # os) = (if p o1 then [x] else []) @ pick p xs os"
  by (simp add: pick_def)

lemma smtp_error_names: "e_name (smtp_error_from_reply code ls) \<in> smtp_errors" "e_name (smtp_error_from_reply code ls) \<noteq> NSmtpConnError"
  by (auto simp: smtp_error_from_reply_def Let_def smtp_errors_def error_defs)

lemma outcome_Inr: "rcpt_outcome (settled_reply a) = Inr o1 \<longleftrightarrow> (\<exists>r. a = Reply r \<and>
    o1 = (if r_code r < 400 then None else Some (smtp_error_from_reply (r_code r) (r_lines r))))"
  using smtp_error_names
  by (cases a) (auto simp: rcpt_outcome_def settled_reply_def loss_error_def error_defs smtp_errors_def split: reply_loss.split)

text \<open>What the recipients' answers make of the server, and that they leave the inbox alone.\<close>

definition got :: "mail_error option list \<Rightarrow> string list \<Rightarrow> smtp_server \<Rightarrow> smtp_server" where
  "got os as s = s \<lparr> sv_rcpts := sv_rcpts s @ pick (\<lambda>o1. o1 = None) as os \<rparr>"

lemma got_simps: "got [] [] s = s"
  "got (o1 # os) (a # as) s = got os as (if o1 = None then s \<lparr> sv_rcpts := sv_rcpts s @ [a] \<rparr> else s)"
  by (simp_all add: got_def pick_def)

lemma line_inbox: "sv_inbox (sv_line l s) = sv_inbox s"
  by (simp add: sv_line_def sv_clear_def)

lemma after_line_inbox: "s' \<in> set (after_line l a s) \<Longrightarrow> sv_inbox s' = sv_inbox s"
  by (auto simp: after_line_def line_inbox split: smtp_answer.splits if_splits)

lemma after_lines_inbox: "s' \<in> set (after_lines las s) \<Longrightarrow> sv_inbox s' = sv_inbox s"
  by (induction las s rule: after_lines.induct) (auto dest: after_line_inbox)

lemma rcpt_answered:
  assumes "CHR ''>'' \<notin> set x" "rcpt_outcome (settled_reply a) = Inr o1" "s' \<in> set (after_line (rcpt_line x) a s)"
  shows "s' = (if o1 = None then s \<lparr> sv_rcpts := sv_rcpts s @ [x] \<rparr> else s) \<and> lose_on a c = c"
  using assms by (auto simp: outcome_Inr after_line_def sv_rcpt_line)

lemma serial_run:
  assumes "conv (serialRcpts (map rcpt_line xs) c) es = Some (r, c')" "s' \<in> set (after_events es s)"
    "\<forall>x\<in>set xs. CHR ''>'' \<notin> set x"
  shows "sv_inbox s' = sv_inbox s \<and> cl_sent c' = cl_sent c \<and> (\<forall>os. r = Inr os \<longrightarrow> c' = c \<and> length os = length xs \<and> s' = got os xs s)"
  using assms
proof (induction xs arbitrary: c es r c' s)
  case Nil
  then show ?case by (auto simp: conv_basic got_simps)
next
  case (Cons x xs)
  let ?one = "attempt (command (rcpt_line x) ''rcpt_to'') (\<lambda>y. case rcpt_outcome y of Inl e \<Rightarrow> rethrow e | Inr o1 \<Rightarrow> give o1)"
  have one: "sv_inbox s1 = sv_inbox s \<and> cl_sent c1 = cl_sent c \<and>
      (\<forall>o1. y = Inr o1 \<longrightarrow> c1 = c \<and> s1 = (if o1 = None then s \<lparr> sv_rcpts := sv_rcpts s @ [x] \<rparr> else s))"
    if run: "conv (?one c) es1 = Some (y, c1)" and s1: "s1 \<in> set (after_events es1 s)" for es1 y c1 s1
  proof (cases "cl_socket c")
    case False
    then show ?thesis using run s1
      by (auto simp: conv_attempt conv_command conv_basic rcpt_outcome_def error_defs smtp_errors_def)
  next
    case True
    obtain es1a es2 y0 d where "es1 = es1a @ es2" "conv (command (rcpt_line x) ''rcpt_to'' c) es1a = Some (y0, d)"
      "conv ((case rcpt_outcome y0 of Inl e \<Rightarrow> rethrow e | Inr o1 \<Rightarrow> give o1) d) es2 = Some (y, c1)"
      using run unfolding conv_attempt by blast
    then obtain a where a: "es1 = [EvCommand (rcpt_line x) ''rcpt_to'' a]" "c1 = lose_on a c" "y = rcpt_outcome (settled_reply a)"
      using True by (auto simp: conv_command_open conv_basic split: sum.splits)
    then have s1': "s1 \<in> set (after_line (rcpt_line x) a s)" using s1 by (auto simp: after_event_def)
    show ?thesis using after_line_inbox[OF s1'] rcpt_answered[OF _ _ s1'] a Cons.prems(3) by auto
  qed
  have "conv (bind ?one (\<lambda>o1. bind (serialRcpts (map rcpt_line xs)) (\<lambda>os. give (o1 # os))) c) es = Some (r, c')"
    using Cons.prems(1) by simp
  then consider (err) e c1 where "conv (?one c) es = Some (Inl e, c1)" "(r, c') = (Inl e, c1)"
    | (ok) es1 es2 o1 c1 where "es = es1 @ es2" "conv (?one c) es1 = Some (Inr o1, c1)"
      "conv (bind (serialRcpts (map rcpt_line xs)) (\<lambda>os. give (o1 # os)) c1) es2 = Some (r, c')"
    unfolding conv_bind[of ?one] by blast
  then show ?case
  proof cases
    case err
    then show ?thesis using one[OF err(1) Cons.prems(2)] by simp
  next
    case ok
    obtain s1 where s1: "s1 \<in> set (after_events es1 s)" "s' \<in> set (after_events es2 s1)"
      using Cons.prems(2) ok(1) by (auto simp: after_events_append)
    note o1 = one[OF ok(2) s1(1)]
    have "\<exists>r2. conv (serialRcpts (map rcpt_line xs) c1) es2 = Some (r2, c') \<and>
      r = (case r2 of Inl e \<Rightarrow> Inl e | Inr os \<Rightarrow> Inr (o1 # os))"
      using ok(3) unfolding conv_bind conv_basic by (elim disjE exE conjE) (force intro: exI)+
    then obtain r2 where r2: "conv (serialRcpts (map rcpt_line xs) c1) es2 = Some (r2, c')"
      "r = (case r2 of Inl e \<Rightarrow> Inl e | Inr os \<Rightarrow> Inr (o1 # os))" by blast
    have "\<forall>x\<in>set xs. CHR ''>'' \<notin> set x" using Cons.prems(3) by simp
    from Cons.IH[OF r2(1) s1(2) this] o1 show ?thesis
      by (auto simp: r2(2) got_simps split: sum.splits)
  qed
qed

lemma pipeline_run:
  assumes "conv (pipelineRcpts (map rcpt_line xs) c) es = Some (r, c')" "s' \<in> set (after_events es s)"
    "\<forall>x\<in>set xs. CHR ''>'' \<notin> set x"
  shows "sv_inbox s' = sv_inbox s \<and> cl_sent c' = cl_sent c \<and> (\<forall>os. r = Inr os \<longrightarrow> c' = c \<and> length os = length xs \<and> s' = got os xs s)"
proof -
  obtain as where as: "es = [EvRcpts (map rcpt_line xs) as]" "length as = length xs"
    "r = first_throw (map (rcpt_outcome \<circ> settled_reply) as)" "c' = fold lose_on as c"
    using assms(1) by (auto simp: pipelineRcpts_def conv_step1 conv_Done)
  have s': "s' \<in> set (after_lines (zip (map rcpt_line xs) as) s)" using assms(2) as(1) by (simp add: after_event_def)
  have sent: "cl_sent (fold lose_on as c) = cl_sent c" for as c by (induction as arbitrary: c) simp_all
  have "first_throw (map (rcpt_outcome \<circ> settled_reply) as) = Inr os \<Longrightarrow> length as = length xs
      \<Longrightarrow> s' \<in> set (after_lines (zip (map rcpt_line xs) as) s) \<Longrightarrow> \<forall>x\<in>set xs. CHR ''>'' \<notin> set x
      \<Longrightarrow> fold lose_on as c = c \<and> length os = length xs \<and> s' = got os xs s" for os
  proof (induction xs arbitrary: as os s)
    case Nil
    then show ?case by (simp add: got_simps)
  next
    case (Cons x xs)
    then obtain a as' where a: "as = a # as'" "length as' = length xs" by (cases as) auto
    then obtain o1 os' where o1: "rcpt_outcome (settled_reply a) = Inr o1" "first_throw (map (rcpt_outcome \<circ> settled_reply) as') = Inr os'" "os = o1 # os'"
      using Cons.prems(1) by (auto simp: comp_def split: sum.splits)
    obtain s1 where s1: "s1 \<in> set (after_line (rcpt_line x) a s)" "s' \<in> set (after_lines (zip (map rcpt_line xs) as') s1)"
      using Cons.prems(3) a by auto
    have "CHR ''>'' \<notin> set x" "\<forall>x\<in>set xs. CHR ''>'' \<notin> set x" using Cons.prems(4) by auto
    note rcpt_answered[OF this(1) o1(1) s1(1), of c] Cons.IH[OF o1(2) a(2) s1(2) this(2)]
    then show ?case by (simp add: a o1(3) got_simps)
  qed
  then show ?thesis using as(2,3,4) s' assms(3) sent after_lines_inbox[OF s'] by auto
qed

section \<open>The message\<close>

definition as_received :: "string \<Rightarrow> string" where "as_received raw = (if ends_with crlf raw then raw else raw @ crlf)"

lemma delivered_text: "unstuff True (take (length (dotStuff raw) - 3) (dotStuff raw)) = as_received raw"
proof -
  obtain t where t: "dotStuff raw = t @ [dot] @ crlf" "unstuff True t = as_received raw"
    using dotStuff_receiver[of raw] by (auto simp: as_received_def)
  then have "take (length (dotStuff raw) - 3) (dotStuff raw) = t" by (simp add: crlf_def)
  then show ?thesis by (simp add: t(2))
qed

lemma body_answered:
  assumes "s' \<in> set (after_body b a s)"
  shows "(\<forall>r. a = Reply r \<and> r_code r = 250 \<longrightarrow> s' = sv_deliver b s) \<and> (told a \<and> \<not> (\<exists>r. a = Reply r \<and> r_code r = 250) \<longrightarrow> sv_inbox s' = sv_inbox s)"
  using assms by (auto simp: after_body_def told_def sv_clear_def split: smtp_answer.splits if_splits)

lemma conv_body: "conv (body raw c) es = Some q \<longleftrightarrow>
     (\<exists>rp. es = [EvBody (dotStuff raw) (Reply rp)] \<and> r_code rp < 400 \<and> q = (Inr rp, c))
     \<or> (\<exists>a e. es = [EvBody (dotStuff raw) a] \<and> settled_reply a = Inl e \<and> q = (Inl e, lose_on a c))"
  using answer_cases[of "\<lambda>a. es = [EvBody (dotStuff raw) a]" q c] by (simp add: conv_other)

lemma settled_not_250: "settled_reply a = Inl e \<Longrightarrow> a = Reply rp \<Longrightarrow> r_code rp \<noteq> 250"
  by (auto simp: settled_reply_def)

lemma data_line: "sv_line ''DATA'' s = s"
  by (simp add: sv_line_def starts_with_def)

lemma send_body_run:
  assumes "conv (send_body rcpts raw os c) es = Some (r, c')" "s' \<in> set (after_events es s)" "sv_from s = Some f"
  shows "(\<forall>e. r = Inl e \<longrightarrow> cl_sent c' = cl_sent c \<and> (list_all clear_event es \<longrightarrow> sv_inbox s' = sv_inbox s)) \<and>
    (\<forall>res. r = Inr res \<longrightarrow> s' = sv_clear (s \<lparr> sv_inbox := sv_inbox s @ [(f, sv_rcpts s, as_received raw)] \<rparr>)
       \<and> cl_state c' = SReady \<and> cl_sent c' = cl_sent c + 1 \<and> sr_accepted res = pick (\<lambda>o1. o1 = None) rcpts os
       \<and> sr_rejected res = pick (\<lambda>o1. o1 \<noteq> None) rcpts os \<and> sr_rejectedErrors res = List.map_filter id os)"
proof -
  consider (data) e c1 where "conv (command ''DATA'' ''data'' c) es = Some (Inl e, c1)" "(r, c') = (Inl e, c1)"
    | (body) es1 es2 x c1 where "es = es1 @ es2" "conv (command ''DATA'' ''data'' c) es1 = Some (Inr x, c1)"
      "conv (bind (body raw) (\<lambda>r. if r_code r \<noteq> 250 then refuse r
         else bind (put (\<lambda>c. c \<lparr> cl_sent := cl_sent c + 1, cl_state := SReady \<rparr>)) (\<lambda>_.
           give \<lparr> sr_serverId = server_id r, sr_accepted = pick (\<lambda>o1. o1 = None) rcpts os,
             sr_rejected = pick (\<lambda>o1. o1 \<noteq> None) rcpts os, sr_rejectedErrors = List.map_filter id os \<rparr>)) c1) es2 = Some (r, c')"
    using assms(1) unfolding send_body_def conv_bind[of "command l p" for l p] by blast
  then show ?thesis
  proof cases
    case data
    then show ?thesis using assms(2) by (auto simp: conv_command after_event_def dest!: after_line_inbox)
  next
    case body
    have c1: "c1 = c" "s1 \<in> set (after_events es1 s) \<Longrightarrow> s1 = s" for s1
      using body(2) by (auto simp: conv_command after_event_def after_line_def data_line)
    obtain a where a: "es2 = [EvBody (dotStuff raw) a]" using body(3) by (auto simp: conv_bind conv_rules split: if_splits)
    have s': "s' \<in> set (after_body (dotStuff raw) a s)"
      using assms(2) body(1) a c1(2) by (auto simp: after_events_append after_event_def)
    have told: "list_all clear_event es \<Longrightarrow> told a" using body(1) a by (simp add: list_all_append clear_event_def)
    have del: "sv_deliver (dotStuff raw) s = sv_clear (s \<lparr> sv_inbox := sv_inbox s @ [(f, sv_rcpts s, as_received raw)] \<rparr>)"
      by (simp add: sv_deliver_def assms(3) delivered_text)
    have "(\<exists>rp. a = Reply rp \<and> r_code rp = 250 \<and> c' = c \<lparr> cl_sent := cl_sent c + 1, cl_state := SReady \<rparr>
        \<and> r = Inr \<lparr> sr_serverId = server_id rp, sr_accepted = pick (\<lambda>o1. o1 = None) rcpts os,
             sr_rejected = pick (\<lambda>o1. o1 \<noteq> None) rcpts os, sr_rejectedErrors = List.map_filter id os \<rparr>)
      \<or> \<not> (\<exists>rp. a = Reply rp \<and> r_code rp = 250) \<and> (\<exists>e. r = Inl e) \<and> cl_sent c' = cl_sent c"
      using body(3) unfolding a conv_bind[of "body raw"] c1(1)
      by (elim disjE exE conjE) (auto simp: conv_body conv_bind conv_basic dest: settled_not_250 split: if_splits)
    then show ?thesis using body_answered[OF s'] told del by auto
  qed
qed

section \<open>The transaction\<close>

lemma pick_mset: "length os = length xs \<Longrightarrow> mset (pick (\<lambda>o1. o1 = None) xs os) + mset (pick (\<lambda>o1. o1 \<noteq> None) xs os) = mset xs"
  by (induction os xs rule: list_induct2) (auto simp: pick_def)

lemma pick_errors: "length os = length xs \<Longrightarrow> length (List.map_filter id os) = length (pick (\<lambda>o1. o1 \<noteq> None) xs os)"
  by (induction os xs rule: list_induct2) (auto simp: pick_def map_filter_simps)

text \<open>What a result must be for the server to have taken exactly one message for it.\<close>

definition sent_as :: "string \<Rightarrow> string list \<Rightarrow> string \<Rightarrow> send_options \<Rightarrow> smtp_result \<Rightarrow> smtp_server \<Rightarrow> smtp_server \<Rightarrow> bool" where
  "sent_as sender rcpts raw opts res s s' \<longleftrightarrow>
     s' = sv_clear (s \<lparr> sv_inbox := sv_inbox s @ [(sender, sr_accepted res, as_received raw)] \<rparr>)
     \<and> sr_accepted res \<noteq> [] \<and> mset (sr_accepted res) + mset (sr_rejected res) = mset rcpts
     \<and> length (sr_rejectedErrors res) = length (sr_rejected res)
     \<and> (so_allRecipientsRequired opts \<longrightarrow> sr_rejected res = [])"

lemma rcpts_run:
  assumes "conv ((if p then pipelineRcpts (map rcpt_line xs) else serialRcpts (map rcpt_line xs)) c) es = Some (r, c')"
    "s' \<in> set (after_events es s)" "\<forall>x\<in>set xs. CHR ''>'' \<notin> set x"
  shows "sv_inbox s' = sv_inbox s \<and> cl_sent c' = cl_sent c \<and> (\<forall>os. r = Inr os \<longrightarrow> c' = c \<and> length os = length xs \<and> s' = got os xs s)"
  using assms serial_run[OF _ assms(2,3)] pipeline_run[OF _ assms(2,3)] by (cases p) simp_all

lemma transaction_run:
  assumes "conv (transaction caps ml xs (map rcpt_line xs) raw opts c) es = Some (r, c')" "s' \<in> set (after_events es s)"
    "\<forall>x\<in>set xs. CHR ''>'' \<notin> set x" "\<And>s. sv_line ml s = s \<lparr> sv_from := Some sender, sv_rcpts := [] \<rparr>"
  shows "(\<forall>e. r = Inl e \<longrightarrow> cl_sent c' = cl_sent c \<and> (list_all clear_event es \<longrightarrow> sv_inbox s' = sv_inbox s)) \<and>
    (\<forall>res. r = Inr res \<longrightarrow> cl_state c' = SReady \<and> cl_sent c' = cl_sent c + 1 \<and> sent_as sender xs raw opts res s s')"
proof -
  let ?pip = "case caps of Some k \<Rightarrow> cap_pipelining k | None \<Rightarrow> False"
  let ?rc = "if ?pip then pipelineRcpts (map rcpt_line xs) else serialRcpts (map rcpt_line xs)"
  let ?no = "\<lambda>os. pick (\<lambda>o1. o1 = None) xs os = [] \<or> so_allRecipientsRequired opts \<and> pick (\<lambda>o1. o1 \<noteq> None) xs os \<noteq> []"
  let ?k = "\<lambda>os. if ?no os
       then throw (case List.map_filter id os of [] \<Rightarrow> SmtpRejectError ''All recipients rejected'' 554 [] | e # _ \<Rightarrow> e)
       else send_body xs raw os"
  consider (mail) e c1 where "conv (command ml ''mail_from'' c) es = Some (Inl e, c1)" "(r, c') = (Inl e, c1)"
    | (rest) es1 es2 x c1 where "es = es1 @ es2" "conv (command ml ''mail_from'' c) es1 = Some (Inr x, c1)"
      "conv (bind ?rc ?k c1) es2 = Some (r, c')"
    using assms(1) unfolding transaction_def conv_bind[of "command l p" for l p] by blast
  then show ?thesis
  proof cases
    case mail
    then show ?thesis using assms(2) by (auto simp: conv_command after_event_def dest!: after_line_inbox)
  next
    case rest
    have c1: "c1 = c" using rest(2) by (auto simp: conv_command)
    let ?s1 = "s \<lparr> sv_from := Some sender, sv_rcpts := [] \<rparr>"
    have s1: "s' \<in> set (after_events es2 ?s1)"
      using rest(1,2) assms(2) by (auto simp: conv_command after_events_append after_event_def after_line_def assms(4))
    consider (err) e c2 where "conv (?rc c) es2 = Some (Inl e, c2)" "(r, c') = (Inl e, c2)"
      | (ok) es3 es4 os c2 where "es2 = es3 @ es4" "conv (?rc c) es3 = Some (Inr os, c2)" "conv (?k os c2) es4 = Some (r, c')"
      using rest(3) unfolding c1 conv_bind[of ?rc] by blast
    then show ?thesis
    proof cases
      case err
      then show ?thesis using rcpts_run[OF err(1) s1 assms(3)] by simp
    next
      case ok
      obtain s2 where s2: "s2 \<in> set (after_events es3 ?s1)" "s' \<in> set (after_events es4 s2)"
        using s1 ok(1) by (auto simp: after_events_append)
      have run: "c2 = c" "length os = length xs" "s2 = got os xs ?s1"
        using rcpts_run[OF ok(2) s2(1) assms(3)] by auto
      show ?thesis
      proof (cases "?no os")
        case True
        then show ?thesis using ok(3) s2 run by (auto simp: conv_basic got_def)
      next
        case False
        have b: "conv (send_body xs raw os c) es4 = Some (r, c')" using ok(3) unfolding run(1) if_not_P[OF False] by assumption
        have "sv_from s2 = Some sender" "sv_inbox s2 = sv_inbox s" "sv_rcpts s2 = pick (\<lambda>o1. o1 = None) xs os"
          by (simp_all add: run(3) got_def)
        note f = this
        have clr: "sv_clear (s2 \<lparr> sv_inbox := i \<rparr>) = sv_clear (s \<lparr> sv_inbox := i \<rparr>)" for i
          by (simp add: run(3) got_def sv_clear_def)
        have "list_all clear_event es \<Longrightarrow> list_all clear_event es4" using rest(1) ok(1) by simp
        then show ?thesis using send_body_run[OF b s2(2) f(1)] False run(2) pick_mset[OF run(2)] pick_errors[OF run(2)]
          by (auto simp: sent_as_def f(2,3) clr)
      qed
    qed
  qed
qed

text \<open>After a failure the client reports ready only when RSET was answered, and then the server is at rest.\<close>

lemma recover_run:
  assumes "conv (recover e c) es = Some (r, c')" "s' \<in> set (after_events es s)"
  shows "r = Inl e \<and> cl_sent c' = cl_sent c \<and> sv_inbox s' = sv_inbox s \<and> list_all clear_event es \<and> (cl_state c' = SReady \<longrightarrow> s' = sv_clear s)"
proof -
  have rset: "sv_line ''RSET'' s = sv_clear s" by (simp add: sv_line_def starts_with_def)
  have st: "cl_state (lose_on a (c \<lparr> cl_state := SError \<rparr>)) \<noteq> SReady" for a
    by (cases a) (auto simp: lose_on_def lose_def split: reply_loss.split)
  show ?thesis
  proof (cases "cl_socket c \<and> \<not> cl_destroyed c")
    case False
    then show ?thesis using assms by (auto simp: recover_def conv_bind conv_rules)
  next
    case True
    then consider rp where "es = [EvCommand ''RSET'' ''rset'' (Reply rp)]" "r_code rp < 400" "r = Inl e" "c' = c \<lparr> cl_state := SReady \<rparr>"
      | a where "es = [EvCommand ''RSET'' ''rset'' a, EvDestroy]" "r = Inl e"
        "c' = (lose_on a (c \<lparr> cl_state := SError \<rparr>)) \<lparr> cl_destroyed := True \<rparr>"
      using assms(1) by (auto simp: recover_def conv_bind conv_catch conv_rules split: if_splits)
    then show ?thesis
    proof cases
      case 1
      then show ?thesis using assms(2) rset by (auto simp: after_event_def after_line_def sv_clear_def clear_event_def)
    next
      case 2
      then show ?thesis using assms(2) st by (auto simp: after_event_def clear_event_def dest!: after_line_inbox)
    qed
  qed
qed

lemma mail_line_read: "cmd_mailFrom a ps = Inr l \<Longrightarrow> sv_line l s = s \<lparr> sv_from := Some a, sv_rcpts := [] \<rparr>"
proof -
  assume l: "cmd_mailFrom a ps = Inr l"
  then obtain b t where b: "envelopeAddr a = Inr b" "l = ''MAIL FROM:<'' @ b @ CHR ''>'' # t"
    by (auto simp: cmd_mailFrom_def split: sum.splits)
  then have "b = a" "CHR ''>'' \<notin> set a" using envelopeAddr_clean[OF b(1)] by auto
  then show ?thesis using b(2) by (simp add: sv_line_def starts_with_def sv_path_clean)
qed

text \<open>The checks before anything is written: they end the call, or the transaction is run under the recovery.\<close>

lemma send_starts:
  "(\<exists>e c1. smtp_send sender rcpts raw opts c = Done (Inl e, c1) \<and> cl_sent c1 = cl_sent c)
   \<or> (\<exists>ls ml. all_lines rcpts = Inr ls \<and> cmd_mailFrom sender (send_params (cl_caps c) raw opts) = Inr ml \<and>
        smtp_send sender rcpts raw opts c = catch (transaction (cl_caps c) ml rcpts ls raw opts) recover (c \<lparr> cl_state := SSending \<rparr>))"
proof -
  have pure: "bind (give x) f = f x" "bind (throw e) g = throw e" "bind (set_state st) h d = h () (d \<lparr> cl_state := st \<rparr>)"
    "throw e d = Done (Inl (ThrownMailTs e), d)"
    for x :: 'x and f :: "'x \<Rightarrow> 'y smtp" and e and g :: "'z \<Rightarrow> 'y smtp" and st and h :: "unit \<Rightarrow> 'y smtp" and d
    by (simp_all add: bind_def attempt_def give_def throw_def rethrow_def set_state_def put_def)
  show ?thesis
  proof (cases "cl_state c = SReady \<and> rcpts \<noteq> []")
    case False
    then show ?thesis by (auto simp: smtp_send_def with_client_def pure)
  next
    case True
    show ?thesis
    proof (cases "all_lines rcpts")
      case (Inl e)
      then show ?thesis using True by (simp add: smtp_send_def with_client_def lift_sum_def pure)
    next
      case (Inr ls)
      note ls = this
      show ?thesis
      proof (cases "cmd_mailFrom sender []")
        case (Inl e)
        then show ?thesis using True ls by (simp add: smtp_send_def with_client_def lift_sum_def pure)
      next
        case (Inr m)
        obtain ml where ml: "cmd_mailFrom sender (send_params (cl_caps c) raw opts) = Inr ml"
          using Inr by (auto simp: cmd_mailFrom_def split: sum.splits)
        show ?thesis using True ls Inr ml
          by (cases "send_refused (cl_caps c) raw opts"; cases "utf8_refused (cl_caps c) opts") (simp_all add: smtp_send_def with_client_def lift_sum_def pure)
      qed
    qed
  qed
qed


lemma run_rcpt:
  assumes "cl_socket c" "rcpt_outcome (settled_reply a) = Inr o1" "conv (serialRcpts ls (lose_on a c)) es = Some (Inr os, c')"
  shows "conv (serialRcpts (l # ls) c) (EvCommand l ''rcpt_to'' a # es) = Some (Inr (o1 # os), c')"
proof -
  have "conv (attempt (command l ''rcpt_to'') (\<lambda>x. case rcpt_outcome x of Inl e \<Rightarrow> rethrow e | Inr o1 \<Rightarrow> give o1) c) [EvCommand l ''rcpt_to'' a]
      = Some (Inr o1, lose_on a c)"
    unfolding conv_attempt using assms(1,2)
    by (intro exI[of _ "[EvCommand l ''rcpt_to'' a]"] exI[of _ "[]"]) (auto simp: conv_command_open conv_basic intro!: exI)
  moreover have "conv (bind (serialRcpts ls) (\<lambda>os. give (o1 # os)) (lose_on a c)) es = Some (Inr (o1 # os), c')"
    using run_bind[of "serialRcpts ls" "lose_on a c" es os c' "\<lambda>os. give (o1 # os)" "[]"] assms(3) by (simp add: conv_basic)
  ultimately show ?thesis unfolding serialRcpts.simps by (rule run_bind1)
qed

definition ready_demo :: smtp_client where
  "ready_demo = new_client \<lparr> cl_state := SReady, cl_socket := True, cl_caps := Some no_caps \<rparr>"

definition refused_b :: smtp_reply where "refused_b = \<lparr> r_code = 550, r_lines = [''550 no''] \<rparr>"

definition plain_demo :: send_options where
  "plain_demo = \<lparr> so_eightBit = False, so_smtpUtf8 = False, so_allRecipientsRequired = False \<rparr>"

definition demo_rcpts :: "smtp_event list" where
  "demo_rcpts = [EvCommand ''RCPT TO:<a@x>'' ''rcpt_to'' (Reply \<lparr> r_code = 250, r_lines = [''250 ok''] \<rparr>),
     EvCommand ''RCPT TO:<b@x>'' ''rcpt_to'' (Reply refused_b)]"

definition sent_demo :: "smtp_event list" where
  "sent_demo = EvCommand ''MAIL FROM:<me@x>'' ''mail_from'' (Reply \<lparr> r_code = 250, r_lines = [''250 ok''] \<rparr>)
     # demo_rcpts @ [EvCommand ''DATA'' ''data'' (Reply \<lparr> r_code = 354, r_lines = [''354 go''] \<rparr>),
     EvBody (dotStuff ''hi'') (Reply \<lparr> r_code = 250, r_lines = [''250 <q1>''] \<rparr>)]"

definition demo_result :: smtp_result where
  "demo_result = \<lparr> sr_serverId = ''q1'', sr_accepted = [''a@x''], sr_rejected = [''b@x''],
     sr_rejectedErrors = [smtp_error_from_reply 550 [''550 no'']] \<rparr>"

lemma sent_demo_run:
  "conv (smtp_send ''me@x'' [''a@x'', ''b@x''] ''hi'' plain_demo ready_demo) sent_demo
    = Some (Inr demo_result, ready_demo \<lparr> cl_sent := 1 \<rparr>)"
proof -
  let ?c = "ready_demo \<lparr> cl_state := SSending \<rparr>"
  let ?os = "[None, Some (smtp_error_from_reply 550 [''550 no''])]"
  have lines: "all_lines [''a@x'', ''b@x''] = Inr [''RCPT TO:<a@x>'', ''RCPT TO:<b@x>'']" by code_simp
  have from1: "cmd_mailFrom ''me@x'' [] = Inr ''MAIL FROM:<me@x>''" by code_simp
  have pars: "send_params (Some no_caps) ''hi'' plain_demo = []" "send_refused (Some no_caps) ''hi'' plain_demo = None"
    "\<not> utf8_refused (Some no_caps) plain_demo" by (simp_all add: send_params_def send_refused_def utf8_refused_def plain_demo_def no_caps_def)
  have sid: "server_id \<lparr> r_code = 250, r_lines = [''250 <q1>''] \<rparr> = ''q1''" by code_simp
  have sock: "cl_socket ?c" "cl_socket ready_demo" by (simp_all add: ready_demo_def)
  have lost: "lose_on (Reply r) d = d" for r d by simp
  have rc: "conv (serialRcpts [''RCPT TO:<a@x>'', ''RCPT TO:<b@x>''] ?c) demo_rcpts = Some (Inr ?os, ?c)"
    unfolding demo_rcpts_def
    by (rule run_rcpt, simp add: sock, simp add: outcome_Inr, rule run_rcpt, simp add: sock, simp add: outcome_Inr refused_b_def) (simp add: conv_basic)
  have serial: "(if case Some no_caps of Some k \<Rightarrow> cap_pipelining k | None \<Rightarrow> False then pipelineRcpts ls else serialRcpts ls) = serialRcpts ls" for ls
    by (simp add: no_caps_def)
  have picked: "pick (\<lambda>o1. o1 = None) [''a@x'', ''b@x''] ?os = [''a@x'']" "pick (\<lambda>o1. o1 \<noteq> None) [''a@x'', ''b@x''] ?os = [''b@x'']"
    "List.map_filter id ?os = [smtp_error_from_reply 550 [''550 no'']]"
    by (simp_all add: pick_def map_filter_simps)
  have start: "smtp_send ''me@x'' [''a@x'', ''b@x''] ''hi'' plain_demo ready_demo
      = catch (transaction (Some no_caps) ''MAIL FROM:<me@x>'' [''a@x'', ''b@x''] [''RCPT TO:<a@x>'', ''RCPT TO:<b@x>''] ''hi'' plain_demo) recover ?c"
    by (simp add: smtp_send_def with_client_def lines from1 pars ready_demo_def lift_sum_def bind_def attempt_def give_def set_state_def put_def del: all_lines.simps)
  have "conv (transaction (Some no_caps) ''MAIL FROM:<me@x>'' [''a@x'', ''b@x''] [''RCPT TO:<a@x>'', ''RCPT TO:<b@x>''] ''hi'' plain_demo ?c) sent_demo
      = Some (Inr demo_result, ready_demo \<lparr> cl_sent := 1 \<rparr>)"
    unfolding transaction_def sent_demo_def
    apply (rule run_bind1, simp add: conv_command sock)
    apply (rule run_bind, simp only: serial, rule rc)
    apply (subst if_not_P, simp only: picked, simp add: plain_demo_def)
    unfolding send_body_def picked
    apply (rule run_bind1, simp add: conv_command sock)
    apply (rule run_bind[of _ _ "[e]" _ _ _ "[]" for e, simplified], simp add: conv_body)
    apply (simp add: conv_bind conv_basic sid demo_result_def ready_demo_def new_client_def)
    done
  then show ?thesis unfolding start conv_catch by blast
qed

definition idle_server :: smtp_server where "idle_server = \<lparr> sv_from = None, sv_rcpts = [], sv_inbox = [] \<rparr>"

definition full_server :: smtp_server where
  "full_server = idle_server \<lparr> sv_inbox := [(''me@x'', [''a@x''], ''hi'' @ crlf)] \<rparr>"


end
