(* ===== verification/ImapReplies.thy ===== *)
theory ImapReplies
  imports ImapFraming ImapArgs ImapCommands Rfc2047 RetryPolicy
begin

text \<open>
  What src/src/imap/ImapClient.ts reads out of the server's responses: errors, capabilities, unsolicited counts,
  the status of a mailbox, LIST, STATUS, SEARCH and APPENDUID.  The regular expressions are written out as the
  search they perform; numbers are naturals (the code's are doubles).
\<close>

section \<open>Matching\<close>

definition ci_prefix :: "string \<Rightarrow> string \<Rightarrow> bool" where "ci_prefix w s \<longleftrightarrow> ascii_upper (take (length w) s) = w"

definition word_end :: "string \<Rightarrow> bool" where "word_end r \<longleftrightarrow> r = [] \<or> \<not> word_char (hd r)"

text \<open>A keyword followed by white space, or by the end of the word.\<close>

definition keyword_ws :: "string \<Rightarrow> string \<Rightarrow> bool" where
  "keyword_ws w s \<longleftrightarrow> ci_prefix w s \<and> drop (length w) s \<noteq> [] \<and> js_ws (hd (drop (length w) s))"

definition keyword :: "string \<Rightarrow> string \<Rightarrow> bool" where "keyword w s \<longleftrightarrow> ci_prefix w s \<and> word_end (drop (length w) s)"

text \<open>Digits at the start, white space, and what follows: n EXISTS.\<close>

definition num_ws :: "string \<Rightarrow> (nat \<times> string) option" where
  "num_ws s = (let ds = takeWhile is_digit s; r = drop (length ds) s; t = js_ltrim r in
     if ds = [] \<or> length t = length r then None else Some (read_digits ds, t))"

definition num_keyword :: "string list \<Rightarrow> string \<Rightarrow> (nat \<times> string) option" where
  "num_keyword ws s = (case num_ws s of None \<Rightarrow> None
     | Some (n, t) \<Rightarrow> (case find (\<lambda>w. keyword w t) ws of None \<Rightarrow> None | Some w \<Rightarrow> Some (n, w)))"

text \<open>The leftmost place where a matcher succeeds.\<close>

fun search_first :: "(string \<Rightarrow> 'a option) \<Rightarrow> string \<Rightarrow> 'a option" where
  "search_first f [] = f []"
| "search_first f (c # s) = (case f (c # s) of Some x \<Rightarrow> Some x | None \<Rightarrow> search_first f s)"

text \<open>White space, digits and a closing bracket.\<close>

definition ws_num_close :: "string \<Rightarrow> nat option" where
  "ws_num_close s = (let t = js_ltrim s; ds = takeWhile is_digit t; r = drop (length ds) t in
     if length t = length s \<or> ds = [] \<or> r = [] \<or> hd r \<noteq> CHR '']'' then None else Some (read_digits ds))"

text \<open>A response code with one number, [UIDNEXT 12].\<close>

definition code_num :: "string \<Rightarrow> string \<Rightarrow> nat option" where
  "code_num w = search_first (\<lambda>s. if ci_prefix (CHR ''['' # w) s then ws_num_close (drop (Suc (length w)) s) else None)"

definition contains_ci :: "string \<Rightarrow> string \<Rightarrow> bool" where
  "contains_ci w s \<longleftrightarrow> search_first (\<lambda>s. if ci_prefix w s then Some () else None) s \<noteq> None"

section \<open>Errors\<close>

definition response_code :: "string \<Rightarrow> string option" where
  "response_code d = (case d of [] \<Rightarrow> None | b # r \<Rightarrow>
     (let w = takeWhile (\<lambda>c. alnum c \<or> c = CHR ''-'') r in
      if b = CHR ''['' \<and> w \<noteq> [] then Some (ascii_upper w) else None))"

definition undefined_text :: "string option \<Rightarrow> string" where
  "undefined_text x = (case x of None \<Rightarrow> ''undefined'' | Some y \<Rightarrow> y)"

definition toImapError :: "imap_response \<Rightarrow> mail_error" where
  "toImapError r = (let code = response_code (ir_data r); msg = ''IMAP '' @ undefined_text (ir_status r) @ '': '' @ ir_data r in
     if code = Some ''AUTHENTICATIONFAILED'' \<or> code = Some ''AUTHORIZATIONFAILED'' then ImapAuthError msg code
     else ImapError msg (code = Some ''UNAVAILABLE'' \<or> code = Some ''INUSE'' \<or> code = Some ''LIMIT'' \<or> code = Some ''SERVERBUG'') EIMAP code)"

definition toAuthError :: "mail_error \<Rightarrow> string \<Rightarrow> mail_error" where
  "toAuthError e what = (if e_name e = NImapConnError then e
     else ImapAuthError (what @ '': '' @ e_message e)
       (if e_name e = NImapError \<or> e_name e = NImapAuthError then e_responseCode e else None))"

section \<open>Capabilities\<close>

definition capability_code :: "string \<Rightarrow> string option" where
  "capability_code = search_first (\<lambda>s. if ci_prefix ''[CAPABILITY '' s
     then (let r = drop 12 s; w = takeWhile (\<lambda>c. c \<noteq> CHR '']'') r in if w \<noteq> [] \<and> length w < length r then Some w else None)
     else None)"

definition captured :: "imap_response \<Rightarrow> string list option" where
  "captured r = map_option (\<lambda>l. js_words (ascii_upper (js_trim l)))
     (case capability_code (ir_data r) of Some l \<Rightarrow> Some l
      | None \<Rightarrow> if ir_type r = RUntagged \<and> keyword_ws ''CAPABILITY'' (ir_data r) then Some (drop 10 (ir_data r)) else None)"

section \<open>Mailboxes\<close>

record mailbox_status =
  ms_name :: units
  ms_flags :: "string list"
  ms_permanentFlags :: "string list option"
  ms_exists :: nat
  ms_recent :: nat
  ms_firstUnseen :: "nat option"
  ms_uidValidity :: nat
  ms_uidNext :: nat
  ms_readOnly :: bool
  ms_highestModSeq :: "nat option"

definition string_items :: "imap_token option \<Rightarrow> string list" where
  "string_items t = filter (\<lambda>s. s \<noteq> []) (map (\<lambda>x. or_default (tokStr (Some x)) []) (or_default (tokList t) []))"

definition permanent_flags :: "string \<Rightarrow> string list option" where
  "permanent_flags = search_first (\<lambda>s. if \<not> ci_prefix ''[PERMANENTFLAGS'' s then None
     else (let r = drop 15 s; t = js_ltrim r in
       if length t = length r \<or> t = [] \<or> hd t \<noteq> CHR ''('' then None
       else (let w = takeWhile (\<lambda>c. c \<noteq> CHR '')'') (tl t) in
         if take 2 (drop (length w) (tl t)) = '')]'' then Some (js_words w) else None)))"

definition status_of :: "imap_response \<Rightarrow> mailbox_status \<Rightarrow> mailbox_status" where
  "status_of r st = (let d = ir_data r in
     case num_keyword [''EXISTS''] d of Some (n, w) \<Rightarrow> st \<lparr> ms_exists := n \<rparr>
     | None \<Rightarrow> (case num_keyword [''RECENT''] d of Some (n, w) \<Rightarrow> st \<lparr> ms_recent := n \<rparr>
     | None \<Rightarrow>
       if keyword_ws ''FLAGS'' d then st \<lparr> ms_flags := string_items (nth_opt (tokenize (drop 5 d)) 0) \<rparr>
       else if ir_status r \<noteq> Some ''OK'' then st
       else (case code_num ''UNSEEN'' d of Some n \<Rightarrow> st \<lparr> ms_firstUnseen := Some n \<rparr>
       | None \<Rightarrow> (case code_num ''UIDVALIDITY'' d of Some n \<Rightarrow> st \<lparr> ms_uidValidity := n \<rparr>
       | None \<Rightarrow> (case code_num ''UIDNEXT'' d of Some n \<Rightarrow> st \<lparr> ms_uidNext := n \<rparr>
       | None \<Rightarrow> (case code_num ''HIGHESTMODSEQ'' d of Some n \<Rightarrow> st \<lparr> ms_highestModSeq := Some n \<rparr>
       | None \<Rightarrow> (case permanent_flags d of Some f \<Rightarrow> st \<lparr> ms_permanentFlags := Some f \<rparr> | None \<Rightarrow> st)))))))"

definition buildMailboxStatus :: "units \<Rightarrow> bool \<Rightarrow> imap_response list \<Rightarrow> imap_response \<Rightarrow> mailbox_status" where
  "buildMailboxStatus name readOnly untagged tagged =
     (let st = fold status_of untagged \<lparr> ms_name = name, ms_flags = [], ms_permanentFlags = None, ms_exists = 0, ms_recent = 0,
        ms_firstUnseen = None, ms_uidValidity = 0, ms_uidNext = 0, ms_readOnly = readOnly, ms_highestModSeq = None \<rparr>
      in if contains_ci ''[READ-ONLY]'' (ir_data tagged) then st \<lparr> ms_readOnly := True \<rparr>
         else if contains_ci ''[READ-WRITE]'' (ir_data tagged) then st \<lparr> ms_readOnly := False \<rparr> else st)"

record list_entry =
  le_name :: units
  le_delimiter :: string
  le_flags :: "string list"
  le_specialUse :: "string option"

definition SPECIAL_USE :: "string list" where
  "SPECIAL_USE = map (\<lambda>w. backslash # w) [''ALL'', ''ARCHIVE'', ''DRAFTS'', ''FLAGGED'', ''JUNK'', ''SENT'', ''TRASH'', ''IMPORTANT'']"

definition parseListResponse :: "string \<Rightarrow> list_entry" where
  "parseListResponse d = (let toks = tokenize d; flags = string_items (nth_opt toks 1) in
     \<lparr> le_name = decodeMailboxName (decodeLatin1Utf8 (units_of (or_default (tokStr (nth_opt toks 3)) []))),
       le_delimiter = (if isNil (nth_opt toks 2) then [] else or_default (tokStr (nth_opt toks 2)) []),
       le_flags = flags, le_specialUse = find (\<lambda>f. ascii_upper f \<in> set SPECIAL_USE) flags \<rparr>)"

record status_result =
  st_messages :: "nat option"
  st_recent :: "nat option"
  st_unseen :: "nat option"
  st_uidNext :: "nat option"
  st_uidValidity :: "nat option"
  st_highestModSeq :: "nat option"

definition no_status :: status_result where
  "no_status = \<lparr> st_messages = None, st_recent = None, st_unseen = None, st_uidNext = None, st_uidValidity = None, st_highestModSeq = None \<rparr>"

definition status_item :: "string option \<Rightarrow> nat \<Rightarrow> status_result \<Rightarrow> status_result" where
  "status_item key v st = (case map_option ascii_upper key of None \<Rightarrow> st
     | Some k \<Rightarrow> if k = ''MESSAGES'' then st \<lparr> st_messages := Some v \<rparr>
        else if k = ''RECENT'' then st \<lparr> st_recent := Some v \<rparr>
        else if k = ''UNSEEN'' then st \<lparr> st_unseen := Some v \<rparr>
        else if k = ''UIDNEXT'' then st \<lparr> st_uidNext := Some v \<rparr>
        else if k = ''UIDVALIDITY'' then st \<lparr> st_uidValidity := Some v \<rparr>
        else if k = ''HIGHESTMODSEQ'' then st \<lparr> st_highestModSeq := Some v \<rparr> else st)"

fun status_items :: "imap_token list \<Rightarrow> status_result \<Rightarrow> status_result" where
  "status_items (k # v # ts) st = status_items ts (case tokNum (Some v) of None \<Rightarrow> st | Some n \<Rightarrow> status_item (tokStr (Some k)) n st)"
| "status_items _ st = st"

definition parseStatusResponse :: "string \<Rightarrow> status_result" where
  "parseStatusResponse d = status_items (or_default (tokList (nth_opt (tokenize d) 2)) []) no_status"

definition search_uids :: "imap_response list \<Rightarrow> nat list" where
  "search_uids untagged = concat (map (\<lambda>r. if keyword ''SEARCH'' (ir_data r)
     then List.map_filter (\<lambda>t. tokNum (Some t)) (tokenize (drop 6 (ir_data r))) else []) untagged)"

text \<open>APPENDUID: the validity and the uid, when the server tells.\<close>

definition parseAppendUid :: "string \<Rightarrow> (nat \<times> nat) option" where
  "parseAppendUid = search_first (\<lambda>s. if \<not> ci_prefix ''[APPENDUID'' s then None
     else (let r = drop 10 s; t = js_ltrim r; ds = takeWhile is_digit t in
       if length t = length r \<or> ds = [] then None
       else map_option (Pair (read_digits ds)) (ws_num_close (drop (length ds) t))))"

end
