(* ===== verification/ImapEngine.thy ===== *)
theory ImapEngine
  imports ImapReplies
begin

text \<open>
  The command engine of src/src/imap/ImapClient.ts after login: commands run one at a time behind a lock, literals
  are sent when the server asks for them, responses are handed to the command in flight, and an IDLE loop holds
  the lock between commands.  A step is one turn of the event loop: a call, a chunk of responses, a timer, the end
  of the socket; the promise continuations it sets off run to their end (settle_all).  The await inside exec is
  the field xe_wait, its resolution xe_go; the race inside idleOnce is the field xe_passed.  What is written and
  what is received of the protocol is kept in a trace.  en_timed says whether socketTimeout is not 0.  Logging is
  left out.
\<close>

section \<open>State\<close>

datatype imap_state = IsIdle | IsConnecting | IsNotAuthenticated | IsAuthenticated | IsSelected | IsLogout

datatype imap_socket = NoSocket | SocketOpen | SocketDestroyed

datatype exec_kind = KCall nat | KOpen nat units bool | KLogout nat | KIdle

datatype engine_job = JCall nat "command_part list" bool | JOpen nat units bool | JLogout nat | JIdle

text \<open>A complete line, a line that announces a literal (its length, sent at once or on request), a literal; a continuation, the tagged
  response and a list of capabilities received.\<close>

datatype wire = WLine nat string | WAnnounce nat string nat bool | WLiteral nat bytes | WContinue nat | WTagged nat | WCaps "string list"

datatype client_event = IvExists nat | IvExpunge nat | IvFetch string | IvClose | IvError mail_error

record imap_pending =
  pe_tag :: nat
  pe_label :: string
  pe_armed :: bool

record imap_exec =
  xe_kind :: exec_kind
  xe_tag :: nat
  xe_nonSync :: bool
  xe_wait :: "(bytes \<times> command_part list) option"
  xe_go :: bool
  xe_untagged :: "imap_response list"
  xe_done :: "(mail_error + imap_response) option"
  xe_entered :: bool
  xe_woken :: bool
  xe_passed :: bool

record idle_loop =
  id_call :: nat
  id_first :: bool
  id_stopped :: bool

datatype outcome = Failed mail_error | Completed imap_response "imap_response list" | LoggedOut

record imap_engine =
  en_state :: imap_state
  en_sock :: imap_socket
  en_closedError :: "mail_error option"
  en_tagSeq :: nat
  en_current :: "imap_pending option"
  en_exec :: "imap_exec option"
  en_queue :: "engine_job list"
  en_idleWake :: bool
  en_idle :: "idle_loop option"
  en_caps :: "string list"
  en_capsVersion :: nat
  en_unsolicited :: "imap_response list"
  en_selected :: "mailbox_status option"
  en_results :: "(nat \<times> outcome) list"
  en_idleResults :: "(nat \<times> mail_error option) list"
  en_events :: "client_event list"
  en_trace :: "wire list"
  en_timed :: bool

section \<open>Writing a command\<close>

definition tag_text :: "nat \<Rightarrow> string" where
  "tag_text n = (let s = show_nat n in CHR ''M'' # replicate (4 - length s) (CHR ''0'') @ s)"

definition announce :: "bool \<Rightarrow> nat \<Rightarrow> string" where
  "announce nonSync n = CHR ''{'' # show_nat n @ (if nonSync then ''+}'' else ''}'') @ crlf"

text \<open>The bytes of what is written.\<close>

definition wire_text :: "wire \<Rightarrow> string" where
  "wire_text w = (case w of WLine t s \<Rightarrow> s @ crlf | WAnnounce t s n ns \<Rightarrow> s @ announce ns n | WLiteral t b \<Rightarrow> latin1 b | _ \<Rightarrow> [])"

text \<open>The loop over the parts, up to the end or to the await for a continuation.\<close>

fun send_parts :: "nat \<Rightarrow> bool \<Rightarrow> command_part list \<Rightarrow> string \<Rightarrow> wire list \<times> (bytes \<times> command_part list) option" where
  "send_parts t ns [] line = ([WLine t line], None)"
| "send_parts t ns (PText s # ps) line = send_parts t ns ps (line @ s)"
| "send_parts t ns (PLiteral b # ps) line =
     (if ns then (let (w, k) = send_parts t ns ps [] in (WAnnounce t line (length b) ns # WLiteral t b # w, k))
      else ([WAnnounce t line (length b) ns], Some (b, ps)))"

text \<open>The parts with the spaces between them, neighbouring texts merged.\<close>

fun with_spaces :: "command_part option \<Rightarrow> command_part list \<Rightarrow> command_part list" where
  "with_spaces prev [] = []"
| "with_spaces prev (p # ps) =
     (case prev of None \<Rightarrow> [] | Some q \<Rightarrow> if opens q \<or> glue_left p then [] else [PText '' '']) @ p # with_spaces (Some p) ps"

fun merge_texts :: "command_part list \<Rightarrow> command_part list" where
  "merge_texts [] = []"
| "merge_texts (PLiteral b # ps) = PLiteral b # merge_texts ps"
| "merge_texts (PText s # ps) = (case merge_texts ps of PText t # qs \<Rightarrow> PText (s @ t) # qs | qs \<Rightarrow> PText s # qs)"

definition joinWithSpaces :: "command_part list \<Rightarrow> command_part list" where
  "joinWithSpaces parts = merge_texts (with_spaces None parts)"

definition command_label :: "command_part list \<Rightarrow> string" where
  "command_label parts = (case parts of PText s # _ \<Rightarrow> js_join '' '' (take 2 (js_split sp s)) | _ \<Rightarrow> ''command'')"

definition has_cap :: "imap_engine \<Rightarrow> string \<Rightarrow> bool" where "has_cap e c \<longleftrightarrow> ascii_upper c \<in> set (en_caps e)"

definition closed_error :: "imap_engine \<Rightarrow> mail_error" where
  "closed_error e = or_default (en_closedError e) (ImapConnError ''IMAP connection is not open'')"

definition write_all :: "wire list \<Rightarrow> imap_engine \<Rightarrow> imap_engine" where "write_all ws e = e \<lparr> en_trace := en_trace e @ ws \<rparr>"

definition start_exec :: "exec_kind \<Rightarrow> command_part list \<Rightarrow> bool \<Rightarrow> imap_engine \<Rightarrow> imap_engine" where
  "start_exec kind parts timed e =
     (let t = Suc (en_tagSeq e); ns = has_cap e ''LITERAL+''; (ws, w) = send_parts t ns (joinWithSpaces parts) (tag_text t @ '' '')
      in write_all ws (e \<lparr> en_tagSeq := t,
           en_current := Some \<lparr> pe_tag = t, pe_label = command_label parts, pe_armed = timed \<rparr>,
           en_exec := Some \<lparr> xe_kind = kind, xe_tag = t, xe_nonSync = ns, xe_wait = w, xe_go = False, xe_untagged = [],
             xe_done = None, xe_entered = False, xe_woken = False, xe_passed = False \<rparr> \<rparr>))"

section \<open>The lock\<close>

definition deliver :: "nat \<Rightarrow> outcome \<Rightarrow> imap_engine \<Rightarrow> imap_engine" where
  "deliver i r e = e \<lparr> en_results := en_results e @ [(i, r)] \<rparr>"

definition deliver_idle :: "nat \<Rightarrow> mail_error option \<Rightarrow> imap_engine \<Rightarrow> imap_engine" where
  "deliver_idle i r e = e \<lparr> en_idleResults := en_idleResults e @ [(i, r)] \<rparr>"

definition destroy_engine :: "imap_engine \<Rightarrow> imap_engine" where
  "destroy_engine e = (if en_sock e = SocketOpen then e \<lparr> en_sock := SocketDestroyed \<rparr> else e)"

definition idle_stopped :: "imap_engine \<Rightarrow> bool" where
  "idle_stopped e = (case en_idle e of None \<Rightarrow> True | Some l \<Rightarrow> id_stopped l)"

text \<open>One turn of the IDLE loop is over without an error: the loop asks for the lock again, or ends.\<close>

definition idle_again :: "imap_engine \<Rightarrow> imap_engine" where
  "idle_again e = (if \<not> idle_stopped e \<and> en_sock e = SocketOpen then e \<lparr> en_queue := en_queue e @ [JIdle] \<rparr> else e \<lparr> en_idle := None \<rparr>)"

text \<open>loop.catch\<close>

definition idle_failed :: "mail_error \<Rightarrow> imap_engine \<Rightarrow> imap_engine" where
  "idle_failed err e = (case en_idle e of None \<Rightarrow> e
     | Some l \<Rightarrow> (let e1 = e \<lparr> en_idle := None \<rparr> in
         if id_first l then deliver_idle (id_call l) (Some err) e1
         else if id_stopped l then e1
         else destroy_engine (e1 \<lparr> en_events := en_events e1 @ [IvError err] \<rparr>)))"

text \<open>After LOGOUT, whatever its result, the socket is destroyed.\<close>

definition logout_done :: "nat \<Rightarrow> imap_engine \<Rightarrow> imap_engine" where
  "logout_done i e = deliver i LoggedOut ((destroy_engine e) \<lparr> en_state := IsLogout \<rparr>)"

definition open_parts :: "units \<Rightarrow> bool \<Rightarrow> imap_engine \<Rightarrow> command_part list" where
  "open_parts name ro e = (case ImapParts (if ro then CExamine name else CSelect name (has_cap e ''CONDSTORE'')) of Inr p \<Rightarrow> p | Inl _ \<Rightarrow> [])"

text \<open>The jobs behind the lock start one after the other, until one has something in flight.\<close>

fun next_job :: "engine_job list \<Rightarrow> imap_engine \<Rightarrow> imap_engine" where
  "next_job [] e = e \<lparr> en_queue := [] \<rparr>"
| "next_job (JCall i parts timed # q) e =
     (if en_sock e = SocketOpen then start_exec (KCall i) parts timed (e \<lparr> en_queue := q \<rparr>)
      else next_job q (deliver i (Failed (closed_error e)) e))"
| "next_job (JOpen i name ro # q) e =
     (let e1 = e \<lparr> en_selected := None \<rparr> in
      if en_sock e = SocketOpen then start_exec (KOpen i name ro) (open_parts name ro e) (en_timed e) (e1 \<lparr> en_queue := q \<rparr>)
      else next_job q (deliver i (Failed (closed_error e)) (e1 \<lparr> en_state := if en_state e = IsSelected then IsAuthenticated else en_state e \<rparr>)))"
| "next_job (JLogout i # q) e =
     (if en_sock e = SocketOpen then start_exec (KLogout i) [PText ''LOGOUT''] True (e \<lparr> en_state := IsLogout, en_queue := q \<rparr>)
      else next_job q (logout_done i e))"
| "next_job (JIdle # q) e =
     (if idle_stopped e then next_job q (e \<lparr> en_idle := None \<rparr>)
      else if en_sock e = SocketOpen then start_exec KIdle [PText ''IDLE''] False (e \<lparr> en_queue := q \<rparr>)
      else next_job q (idle_failed (closed_error e) e))"

section \<open>Continuations\<close>

text \<open>A literal was asked for: exec goes on with its loop.\<close>

definition resume_exec :: "imap_engine \<Rightarrow> imap_engine" where
  "resume_exec e = (case en_exec e of None \<Rightarrow> e
     | Some x \<Rightarrow> (case xe_wait x of None \<Rightarrow> e
         | Some (b, ps) \<Rightarrow>
             if \<not> xe_go x then e
             else if en_sock e \<noteq> SocketOpen then e \<lparr> en_exec := Some (x \<lparr> xe_go := False, xe_done := Some (Inl (closed_error e)) \<rparr>) \<rparr>
             else (let (ws, w) = send_parts (xe_tag x) (xe_nonSync x) ps [] in
               write_all (WLiteral (xe_tag x) b # ws) (e \<lparr> en_exec := Some (x \<lparr> xe_wait := w, xe_go := False \<rparr>) \<rparr>))))"

definition resolved :: "imap_exec \<Rightarrow> bool" where "resolved x = (case xe_done x of Some (Inr r) \<Rightarrow> True | _ \<Rightarrow> False)"

lemma resolved_iff [simp]: "resolved x \<longleftrightarrow> (\<exists>r. xe_done x = Some (Inr r))"
  by (simp add: resolved_def split: option.split sum.split)

text \<open>The race of idleOnce: the first time it is decided, DONE is written when IDLE was entered.\<close>

definition idle_race :: "imap_engine \<Rightarrow> imap_engine" where
  "idle_race e = (case en_exec e of None \<Rightarrow> e
     | Some x \<Rightarrow>
         if xe_kind x \<noteq> KIdle \<or> xe_passed x then e
         else if xe_woken x \<or> resolved x then
           (let e1 = e \<lparr> en_exec := Some (x \<lparr> xe_passed := True \<rparr>) \<rparr> in
            if xe_entered x \<and> en_sock e = SocketOpen
            then write_all [WLine (xe_tag x) ''DONE'']
              (e1 \<lparr> en_current := map_option (\<lambda>p. p \<lparr> pe_armed := en_timed e \<rparr>) (en_current e1) \<rparr>)
            else e1)
         else e)"

definition result_of :: "imap_exec \<Rightarrow> mail_error + imap_response \<Rightarrow> outcome" where
  "result_of x r = (case r of Inl err \<Rightarrow> Failed err | Inr t \<Rightarrow> Completed t (xe_untagged x))"

text \<open>exec has returned: what its caller does before the lock is free.\<close>

definition open_done :: "units \<Rightarrow> bool \<Rightarrow> outcome \<Rightarrow> imap_engine \<Rightarrow> imap_engine" where
  "open_done name ro r e = (case r of
     Completed t us \<Rightarrow> e \<lparr> en_selected := Some (buildMailboxStatus name ro us t), en_state := IsSelected \<rparr>
   | _ \<Rightarrow> e \<lparr> en_state := if en_state e = IsSelected then IsAuthenticated else en_state e \<rparr>)"

definition finish_exec :: "imap_engine \<Rightarrow> imap_engine" where
  "finish_exec e = (case en_exec e of None \<Rightarrow> e
     | Some x \<Rightarrow> (case xe_done x of None \<Rightarrow> e
         | Some d \<Rightarrow> (let e1 = e \<lparr> en_exec := None \<rparr>; r = result_of x d in
             (case xe_kind x of
                KCall i \<Rightarrow> (let e2 = deliver i r e1 in next_job (en_queue e2) e2)
              | KOpen i name ro \<Rightarrow> (let e2 = deliver i r (open_done name ro r e1) in next_job (en_queue e2) e2)
              | KLogout i \<Rightarrow> (let e2 = logout_done i e1 in next_job (en_queue e2) e2)
              | KIdle \<Rightarrow> (let e2 = e1 \<lparr> en_idleWake := False \<rparr> in
                  (case d of
                     Inr t \<Rightarrow> (let e3 = idle_again e2 in next_job (en_queue e3) e3)
                   | Inl err \<Rightarrow> idle_failed err (next_job (en_queue e2) e2)))))))"

definition settle_all :: "imap_engine \<Rightarrow> imap_engine" where "settle_all e = finish_exec (idle_race (resume_exec e))"

text \<open>When the lock is free, a new job starts at once.\<close>

definition enqueue_job :: "engine_job \<Rightarrow> imap_engine \<Rightarrow> imap_engine" where
  "enqueue_job j e = (if en_exec e = None then next_job (en_queue e @ [j]) e else e \<lparr> en_queue := en_queue e @ [j] \<rparr>)"

section \<open>Responses\<close>

definition wake_idle :: "imap_engine \<Rightarrow> imap_engine" where
  "wake_idle e = (if en_idleWake e
     then e \<lparr> en_idleWake := False, en_exec := map_option (\<lambda>x. x \<lparr> xe_woken := True \<rparr>) (en_exec e) \<rparr> else e)"

definition command_waits :: "imap_engine \<Rightarrow> bool" where "command_waits e \<longleftrightarrow> (\<exists>j\<in>set (en_queue e). j \<noteq> JIdle)"

text \<open>The server confirmed IDLE.\<close>

definition idle_entered :: "imap_engine \<Rightarrow> imap_engine" where
  "idle_entered e =
     (let e1 = e \<lparr> en_idleWake := True, en_exec := map_option (\<lambda>x. x \<lparr> xe_entered := True \<rparr>) (en_exec e) \<rparr>;
          e2 = (case en_idle e of None \<Rightarrow> e1
            | Some l \<Rightarrow> if id_first l then deliver_idle (id_call l) None (e1 \<lparr> en_idle := Some (l \<lparr> id_first := False \<rparr>) \<rparr>) else e1)
      in if command_waits e2 \<or> idle_stopped e2 then wake_idle e2 else e2)"

definition on_continuation :: "imap_engine \<Rightarrow> imap_engine" where
  "on_continuation e = (case en_current e of None \<Rightarrow> e | Some p \<Rightarrow> (case en_exec e of None \<Rightarrow> e
     | Some x \<Rightarrow> (let e1 = write_all [WContinue (xe_tag x)] e in
         if xe_wait x \<noteq> None \<and> \<not> xe_go x then e1 \<lparr> en_exec := Some (x \<lparr> xe_go := True \<rparr>) \<rparr>
         else if xe_kind x = KIdle then idle_entered e1 else e1)))"

definition captureCapabilities :: "imap_response \<Rightarrow> imap_engine \<Rightarrow> imap_engine" where
  "captureCapabilities r e = (case captured r of None \<Rightarrow> e
     | Some l \<Rightarrow> write_all [WCaps l] (e \<lparr> en_caps := l, en_capsVersion := Suc (en_capsVersion e) \<rparr>))"

definition settle_done :: "mail_error + imap_response \<Rightarrow> imap_engine \<Rightarrow> imap_engine" where
  "settle_done d e = e \<lparr> en_current := None, en_exec := map_option (\<lambda>x. x \<lparr> xe_done := Some d \<rparr>) (en_exec e) \<rparr>"

definition on_tagged :: "imap_response \<Rightarrow> imap_engine \<Rightarrow> imap_engine" where
  "on_tagged r e = (case en_current e of None \<Rightarrow> e
     | Some p \<Rightarrow> if ir_tag r \<noteq> Some (tag_text (pe_tag p)) then e
         else settle_done (if ir_status r = Some ''OK'' then Inr r else Inl (toImapError r)) (write_all [WTagged (pe_tag p)] e))"

definition strip_bye :: "string \<Rightarrow> string" where "strip_bye d = (if ci_prefix ''BYE'' d then js_ltrim (drop 3 d) else d)"

definition emit :: "client_event \<Rightarrow> imap_engine \<Rightarrow> imap_engine" where "emit v e = e \<lparr> en_events := en_events e @ [v] \<rparr>"

definition emitUnsolicited :: "imap_response \<Rightarrow> imap_engine \<Rightarrow> imap_engine" where
  "emitUnsolicited r e = (case num_keyword [''EXISTS'', ''EXPUNGE'', ''RECENT'', ''FETCH''] (ir_data r) of
     None \<Rightarrow> e
   | Some (n, k) \<Rightarrow>
       if k = ''EXISTS'' then emit (IvExists n) (e \<lparr> en_selected := map_option (\<lambda>m. m \<lparr> ms_exists := n \<rparr>) (en_selected e) \<rparr>)
       else if k = ''EXPUNGE'' then emit (IvExpunge n) (e \<lparr> en_selected := map_option (\<lambda>m. m \<lparr> ms_exists := ms_exists m - 1 \<rparr>) (en_selected e) \<rparr>)
       else if k = ''FETCH'' \<and> (en_current e = None \<or> en_idleWake e)
         \<and> (case num_ws (ir_data r) of Some (m, t) \<Rightarrow> keyword_ws ''FETCH'' t | None \<Rightarrow> False)
       then emit (IvFetch (ir_data r)) e else e)"

definition UNSOLICITED_LIMIT :: nat where "UNSOLICITED_LIMIT = 1000"

definition keep_last :: "nat \<Rightarrow> 'a list \<Rightarrow> 'a list" where "keep_last n xs = drop (length xs - n) xs"

definition on_untagged :: "imap_response \<Rightarrow> imap_engine \<Rightarrow> imap_engine" where
  "on_untagged r e =
     (let e1 = (if ir_status r = Some ''BYE'' \<and> en_state e \<noteq> IsLogout
            then e \<lparr> en_closedError := Some (ImapConnError (''Server closed the connection: '' @ strip_bye (ir_data r))) \<rparr> else e);
          e2 = emitUnsolicited r e1
      in if en_current e2 \<noteq> None then e2 \<lparr> en_exec := map_option (\<lambda>x. x \<lparr> xe_untagged := xe_untagged x @ [r] \<rparr>) (en_exec e2) \<rparr>
         else e2 \<lparr> en_unsolicited := keep_last UNSOLICITED_LIMIT (en_unsolicited e2 @ [r]) \<rparr>)"

definition handleResponse :: "imap_response \<Rightarrow> imap_engine \<Rightarrow> imap_engine" where
  "handleResponse r e = (case ir_type r of
     RContinuation \<Rightarrow> on_continuation e
   | RTagged \<Rightarrow> on_tagged r (captureCapabilities r e)
   | RUntagged \<Rightarrow> on_untagged r (captureCapabilities r e))"

section \<open>Steps\<close>

datatype engine_op =
    OpCall nat "command_part list" bool | OpOpen nat units bool | OpClose nat | OpIdle nat | OpIdleStop | OpRenewal
  | OpData "imap_response list" | OpLimit mail_error | OpSocketError string | OpSocketClose | OpTimer | OpDestroy

definition call_job :: "engine_job \<Rightarrow> imap_engine \<Rightarrow> imap_engine" where "call_job j e = settle_all (enqueue_job j (wake_idle e))"

definition on_timer :: "imap_engine \<Rightarrow> imap_engine" where
  "on_timer e = (case en_current e of None \<Rightarrow> e
     | Some p \<Rightarrow> if \<not> pe_armed p then e
         else (let err = ImapConnError (''IMAP command timeout: '' @ pe_label p) in
           settle_all (settle_done (Inl err) (destroy_engine (e \<lparr> en_closedError := Some err \<rparr>)))))"

definition onClosed :: "imap_engine \<Rightarrow> imap_engine" where
  "onClosed e = (if en_sock e = NoSocket then e
     else (let err = or_default (en_closedError e) (ImapConnError ''IMAP connection closed'');
               e1 = e \<lparr> en_state := IsIdle, en_selected := None, en_sock := NoSocket \<rparr>;
               e2 = (if en_current e = None then e1 else settle_done (Inl err) e1)
           in settle_all (emit IvClose (wake_idle e2))))"

definition start_idle :: "nat \<Rightarrow> imap_engine \<Rightarrow> imap_engine" where
  "start_idle i e = (if en_sock e = SocketOpen
     then settle_all (enqueue_job JIdle (e \<lparr> en_idle := Some \<lparr> id_call = i, id_first = True, id_stopped = False \<rparr> \<rparr>)) else e)"

definition idle :: "nat \<Rightarrow> imap_engine \<Rightarrow> imap_engine" where
  "idle i e = (if en_state e \<noteq> IsSelected then deliver_idle i (Some (ImapError ''No mailbox selected'' False EIMAP None)) e
     else if en_idleWake e then deliver_idle i (Some (ImapError ''IDLE is already active'' False EIMAP None)) e
     else if en_idle e = None then start_idle i e else e)"

definition openMailbox :: "nat \<Rightarrow> units \<Rightarrow> bool \<Rightarrow> imap_engine \<Rightarrow> imap_engine" where
  "openMailbox i name ro e = (if en_state e \<noteq> IsAuthenticated \<and> en_state e \<noteq> IsSelected
     then deliver i (Failed (ImapError (''Must be authenticated to '' @ (if ro then ''examine'' else ''select'') @ '' a mailbox'') False EIMAP None)) e
     else call_job (JOpen i name ro) e)"

definition close_client :: "nat \<Rightarrow> imap_engine \<Rightarrow> imap_engine" where
  "close_client i e = (if en_sock e = SocketOpen then call_job (JLogout i) e else logout_done i e)"

definition stop_idle :: "imap_engine \<Rightarrow> imap_engine" where
  "stop_idle e = settle_all (wake_idle (e \<lparr> en_idle := map_option (\<lambda>l. l \<lparr> id_stopped := True \<rparr>) (en_idle e) \<rparr>))"

definition on_renewal :: "imap_engine \<Rightarrow> imap_engine" where
  "on_renewal e = settle_all (e \<lparr> en_exec := map_option (\<lambda>x. if xe_kind x = KIdle then x \<lparr> xe_woken := True \<rparr> else x) (en_exec e) \<rparr>)"

definition on_data :: "imap_response list \<Rightarrow> imap_engine \<Rightarrow> imap_engine" where
  "on_data rs e = (if en_sock e = SocketOpen then settle_all (fold handleResponse rs e) else e)"

fun engine_step :: "imap_engine \<Rightarrow> engine_op \<Rightarrow> imap_engine" where
  "engine_step e (OpCall i parts timed) = call_job (JCall i parts timed) e"
| "engine_step e (OpOpen i name ro) = openMailbox i name ro e"
| "engine_step e (OpClose i) = close_client i e"
| "engine_step e (OpIdle i) = idle i e"
| "engine_step e OpIdleStop = stop_idle e"
| "engine_step e OpRenewal = on_renewal e"
| "engine_step e (OpData rs) = on_data rs e"
| "engine_step e (OpLimit err) = (if en_sock e = SocketOpen then destroy_engine (e \<lparr> en_closedError := Some err \<rparr>) else e)"
| "engine_step e (OpSocketError m) = (let err = ImapConnError (''IMAP socket error: '' @ m) in emit (IvError err) (e \<lparr> en_closedError := Some err \<rparr>))"
| "engine_step e OpSocketClose = onClosed e"
| "engine_step e OpTimer = on_timer e"
| "engine_step e OpDestroy = destroy_engine e"

definition new_engine :: "bool \<Rightarrow> string list \<Rightarrow> imap_state \<Rightarrow> imap_engine" where
  "new_engine timed caps st = \<lparr> en_state = st, en_sock = SocketOpen, en_closedError = None, en_tagSeq = 0, en_current = None, en_exec = None,
     en_queue = [], en_idleWake = False, en_idle = None, en_caps = caps, en_capsVersion = 0, en_unsolicited = [], en_selected = None,
     en_results = [], en_idleResults = [], en_events = [], en_trace = [WCaps caps], en_timed = timed \<rparr>"

end
