(* ===== verification/ImapEngineInv.thy ===== *)
theory ImapEngineInv
  imports ImapEngine
begin

text \<open>
  The command engine of the IMAP client against the protocol it speaks: an automaton for what may be written when,
  the bookkeeping of calls, and the timers.
\<close>

section \<open>The protocol\<close>

text \<open>
  What the connection is doing: no command (the last tag; whether it was an IDLE that was confirmed and has not
  been ended), a command that is complete (whether it is an IDLE not yet ended, whether it was sent a
  continuation), a literal announced, a literal granted (by the server, or unasked for by LITERAL+), the rest of a
  command after a literal; in the last two the server may have answered already, and the last flag says whether
  literals may go unasked.  That is so when the capabilities the server announced last before the command began
  have LITERAL+.
\<close>

datatype wire_state = WFree nat bool | WOpen nat bool bool | WAnnounced nat nat | WGranted nat nat bool bool | WPart nat bool bool

definition begins :: "nat \<Rightarrow> nat \<Rightarrow> string \<Rightarrow> bool" where "begins l t s \<longleftrightarrow> t = Suc l \<and> starts_with (tag_text t) s"

definition idle_line :: "nat \<Rightarrow> string" where "idle_line t = tag_text t @ '' IDLE''"

fun wire_next :: "bool \<Rightarrow> wire_state \<Rightarrow> wire \<Rightarrow> wire_state option" where
  "wire_next lp (WFree l d) (WLine t s) =
     (if t = l \<and> d \<and> s = ''DONE'' then Some (WFree l False)
      else if begins l t s then Some (WOpen t (s = idle_line t) False) else None)"
| "wire_next lp (WFree l d) (WAnnounce t s n ns) =
     (if begins l t s \<and> (ns \<longrightarrow> lp) then Some (if ns then WGranted t n False True else WAnnounced t n) else None)"
| "wire_next lp (WOpen t i c) (WContinue u) = (if u = t then Some (WOpen t i True) else None)"
| "wire_next lp (WOpen t i c) (WTagged u) = (if u = t then Some (WFree t (i \<and> c)) else None)"
| "wire_next lp (WOpen t i c) (WLine u s) = (if u = t \<and> i \<and> c \<and> s = ''DONE'' then Some (WOpen t False c) else None)"
| "wire_next lp (WAnnounced t n) (WContinue u) = (if u = t then Some (WGranted t n False False) else None)"
| "wire_next lp (WAnnounced t n) (WTagged u) = (if u = t then Some (WFree t False) else None)"
| "wire_next lp (WGranted t n ov pl) (WLiteral u b) = (if u = t \<and> length b = n then Some (WPart t ov pl) else None)"
| "wire_next lp (WGranted t n ov pl) (WTagged u) = (if u = t \<and> \<not> ov then Some (WGranted t n True pl) else None)"
| "wire_next lp (WGranted t n ov pl) (WContinue u) = (if u = t then Some (WGranted t n ov pl) else None)"
| "wire_next lp (WPart t ov pl) (WLine u s) = (if u = t then Some (if ov then WFree t False else WOpen t False False) else None)"
| "wire_next lp (WPart t ov pl) (WAnnounce u s n ns) =
     (if u = t \<and> (ns \<longrightarrow> pl) then Some (if ns then WGranted t n ov pl else if ov then WFree t False else WAnnounced t n) else None)"
| "wire_next _ _ _ = None"

text \<open>The automaton runs with what the server announced: whether it takes literals unasked.\<close>

fun wire_run :: "bool \<times> wire_state \<Rightarrow> wire list \<Rightarrow> (bool \<times> wire_state) option" where
  "wire_run st [] = Some st"
| "wire_run (lp, st) (WCaps l # ws) = wire_run (''LITERAL+'' \<in> set l, st) ws"
| "wire_run (lp, st) (w # ws) = (case wire_next lp st w of None \<Rightarrow> None | Some st' \<Rightarrow> wire_run (lp, st') ws)"

definition no_wire :: "bool \<times> wire_state" where "no_wire = (False, WFree 0 False)"

lemma wire_run_append: "wire_run st (ws @ vs) = (case wire_run st ws of None \<Rightarrow> None | Some st' \<Rightarrow> wire_run st' vs)"
  by (induction st ws rule: wire_run.induct) (auto split: option.split)

definition after_send :: "nat \<Rightarrow> bool \<Rightarrow> bool \<Rightarrow> (bytes \<times> 'a) option \<Rightarrow> wire_state" where
  "after_send t i ov w = (if ov then WFree t False else case w of None \<Rightarrow> WOpen t i False | Some (b, ps) \<Rightarrow> WAnnounced t (length b))"

lemma send_parts_unasked: "send_parts t True ps line = (ws, w) \<Longrightarrow> w = None"
proof (induction t True ps line arbitrary: ws w rule: send_parts.induct)
  case (3 t b ps line)
  then show ?case by (auto split: prod.splits)
qed auto

lemma send_parts_part: "send_parts t ns ps line = (ws, w) \<Longrightarrow> ns \<longrightarrow> pl \<Longrightarrow>
   wire_run (lp, WPart t ov pl) ws = Some (lp, after_send t False ov w)"
proof (induction t ns ps line arbitrary: ws w rule: send_parts.induct)
  case (3 t ns b ps line)
  then show ?case by (cases ns) (auto simp: after_send_def split: prod.splits)
qed (auto simp: after_send_def)

lemma starts_with_append: "starts_with p s \<Longrightarrow> starts_with p (s @ u)"
  unfolding starts_with_def by (metis append_take_drop_id append_eq_conv_conj append.assoc)

lemma send_parts_free: "send_parts t ns ps line = (ws, w) \<Longrightarrow> starts_with (tag_text t) line \<Longrightarrow> t = Suc l \<Longrightarrow> ns \<longrightarrow> lp \<Longrightarrow>
   \<exists>i. wire_run (lp, WFree l c) ws = Some (lp, after_send t i False w)"
proof (induction t ns ps line arbitrary: ws w rule: send_parts.induct)
  case (3 t ns b ps line)
  show ?case
  proof (cases ns)
    case True
    then obtain w' where "send_parts t ns ps [] = (w', w)" "ws = WAnnounce t line (length b) ns # WLiteral t b # w'"
      using "3.prems"(1) by (auto split: prod.splits)
    then show ?thesis using send_parts_part[of t ns ps "[]" w' w True lp False] True "3.prems"(2-4) by (auto simp: begins_def)
  qed (use "3.prems" in \<open>auto simp: after_send_def begins_def\<close>)
qed (auto simp: after_send_def begins_def intro: starts_with_append)

section \<open>Accounting\<close>

definition job_ids :: "engine_job \<Rightarrow> nat multiset" where
  "job_ids j = (case j of JCall i _ _ \<Rightarrow> {#i#} | JOpen i _ _ \<Rightarrow> {#i#} | JLogout i \<Rightarrow> {#i#} | JIdle \<Rightarrow> {#})"

definition kind_ids :: "exec_kind \<Rightarrow> nat multiset" where
  "kind_ids k = (case k of KCall i \<Rightarrow> {#i#} | KOpen i _ _ \<Rightarrow> {#i#} | KLogout i \<Rightarrow> {#i#} | KIdle \<Rightarrow> {#})"

definition queue_ids :: "engine_job list \<Rightarrow> nat multiset" where "queue_ids q = sum_list (map job_ids q)"

definition exec_ids :: "imap_engine \<Rightarrow> nat multiset" where
  "exec_ids e = (case en_exec e of None \<Rightarrow> {#} | Some x \<Rightarrow> kind_ids (xe_kind x))"

definition answered :: "imap_engine \<Rightarrow> nat multiset" where "answered e = mset (map fst (en_results e))"

definition accounted :: "imap_engine \<Rightarrow> nat multiset" where "accounted e = answered e + exec_ids e + queue_ids (en_queue e)"

definition op_ids :: "engine_op \<Rightarrow> nat multiset" where
  "op_ids op = (case op of OpCall i _ _ \<Rightarrow> {#i#} | OpOpen i _ _ \<Rightarrow> {#i#} | OpClose i \<Rightarrow> {#i#} | _ \<Rightarrow> {#})"

lemma queue_ids_simps [simp]: "queue_ids [] = {#}" "queue_ids (j # q) = job_ids j + queue_ids q" "queue_ids (q @ r) = queue_ids q + queue_ids r"
  by (simp_all add: queue_ids_def)

lemma deliver_simps [simp]: "answered (deliver i r e) = answered e + {#i#}" "exec_ids (deliver i r e) = exec_ids e"
  "en_queue (deliver i r e) = en_queue e" "en_exec (deliver i r e) = en_exec e" "en_sock (deliver i r e) = en_sock e"
  "en_idle (deliver i r e) = en_idle e" "en_trace (deliver i r e) = en_trace e" "en_tagSeq (deliver i r e) = en_tagSeq e"
  "en_current (deliver i r e) = en_current e" "en_idleWake (deliver i r e) = en_idleWake e"
  by (simp_all add: deliver_def answered_def exec_ids_def)

lemma logout_simps [simp]: "answered (logout_done i e) = answered e + {#i#}" "exec_ids (logout_done i e) = exec_ids e"
  "en_queue (logout_done i e) = en_queue e" "en_exec (logout_done i e) = en_exec e"
  "en_idle (logout_done i e) = en_idle e" "en_trace (logout_done i e) = en_trace e" "en_tagSeq (logout_done i e) = en_tagSeq e"
  "en_current (logout_done i e) = en_current e" "en_idleWake (logout_done i e) = en_idleWake e"
  "en_sock (logout_done i e) = (if en_sock e = SocketOpen then SocketDestroyed else en_sock e)"
  by (simp_all add: logout_done_def destroy_engine_def deliver_def answered_def exec_ids_def)

lemma destroy_simps [simp]: "answered (destroy_engine e) = answered e" "exec_ids (destroy_engine e) = exec_ids e"
  "en_queue (destroy_engine e) = en_queue e" "en_exec (destroy_engine e) = en_exec e" "en_trace (destroy_engine e) = en_trace e"
  "en_tagSeq (destroy_engine e) = en_tagSeq e" "en_current (destroy_engine e) = en_current e" "en_idleWake (destroy_engine e) = en_idleWake e"
  "en_sock (destroy_engine e) = (if en_sock e = SocketOpen then SocketDestroyed else en_sock e)" "en_idle (destroy_engine e) = en_idle e"
  by (simp_all add: destroy_engine_def answered_def exec_ids_def)

lemma idle_failed_simps [simp]: "answered (idle_failed err e) = answered e" "exec_ids (idle_failed err e) = exec_ids e"
  "en_queue (idle_failed err e) = en_queue e" "en_exec (idle_failed err e) = en_exec e" "en_trace (idle_failed err e) = en_trace e"
  "en_tagSeq (idle_failed err e) = en_tagSeq e" "en_current (idle_failed err e) = en_current e" "en_idleWake (idle_failed err e) = en_idleWake e"
  by (auto simp: idle_failed_def Let_def deliver_idle_def destroy_engine_def answered_def exec_ids_def split: option.split)

lemma answered_upd [simp]: "answered (e \<lparr> en_queue := q \<rparr>) = answered e" "answered (e \<lparr> en_idle := i \<rparr>) = answered e"
  "answered (e \<lparr> en_state := st \<rparr>) = answered e" "answered (e \<lparr> en_selected := m \<rparr>) = answered e" "answered (e \<lparr> en_exec := x \<rparr>) = answered e"
  "answered (e \<lparr> en_idleWake := w \<rparr>) = answered e" "answered (e \<lparr> en_current := c \<rparr>) = answered e" "answered (write_all ws e) = answered e"
  "answered (e \<lparr> en_tagSeq := t \<rparr>) = answered e" "answered (e \<lparr> en_closedError := ce \<rparr>) = answered e" "answered (e \<lparr> en_sock := so \<rparr>) = answered e"
  by (simp_all add: answered_def write_all_def)

lemma write_simps [simp]: "exec_ids (write_all ws e) = exec_ids e" "en_queue (write_all ws e) = en_queue e" "en_exec (write_all ws e) = en_exec e"
  "en_sock (write_all ws e) = en_sock e" "en_trace (write_all ws e) = en_trace e @ ws" "en_tagSeq (write_all ws e) = en_tagSeq e"
  "en_current (write_all ws e) = en_current e" "en_idleWake (write_all ws e) = en_idleWake e" "en_idle (write_all ws e) = en_idle e"
  by (simp_all add: write_all_def exec_ids_def)

lemma static_simps [simp]:
  "en_timed (deliver i r e) = en_timed e" "en_caps (deliver i r e) = en_caps e"
  "en_timed (logout_done i e) = en_timed e" "en_caps (logout_done i e) = en_caps e"
  "en_timed (destroy_engine e) = en_timed e" "en_caps (destroy_engine e) = en_caps e"
  "en_timed (idle_failed err e) = en_timed e" "en_caps (idle_failed err e) = en_caps e"
  "en_timed (write_all ws e) = en_timed e" "en_caps (write_all ws e) = en_caps e"
  "en_timed (emit v e) = en_timed e" "en_caps (emit v e) = en_caps e"
  "en_timed (open_done n ro x e) = en_timed e" "en_caps (open_done n ro x e) = en_caps e"
  "en_timed (idle_again e) = en_timed e" "en_caps (idle_again e) = en_caps e"
  "en_timed (wake_idle e) = en_timed e" "en_caps (wake_idle e) = en_caps e"
  "en_timed (settle_done d e) = en_timed e" "en_caps (settle_done d e) = en_caps e"
  "en_timed (deliver_idle j m e) = en_timed e" "en_caps (deliver_idle j m e) = en_caps e"
  "en_timed (idle_race e) = en_timed e" "en_caps (idle_race e) = en_caps e"
  "en_timed (resume_exec e) = en_timed e" "en_caps (resume_exec e) = en_caps e"
  by (auto simp: deliver_def logout_done_def destroy_engine_def idle_failed_def Let_def deliver_idle_def write_all_def emit_def open_done_def
      idle_again_def wake_idle_def settle_done_def idle_race_def resume_exec_def split: option.split outcome.split prod.split)

lemma start_accounted: "en_exec e = None \<Longrightarrow> accounted (start_exec k ps timed e) = answered e + kind_ids k + queue_ids (en_queue e)"
  by (simp add: start_exec_def Let_def accounted_def exec_ids_def write_all_def answered_def split: prod.split)

lemma next_job_accounted: "en_exec e = None \<Longrightarrow> accounted (next_job q e) = answered e + queue_ids q"
proof (induction q e rule: next_job.induct)
  case (1 e)
  then show ?case by (simp add: accounted_def exec_ids_def)
qed (auto simp: start_accounted Let_def job_ids_def kind_ids_def)

lemma resume_keeps: "answered (resume_exec e) = answered e" "exec_ids (resume_exec e) = exec_ids e" "en_queue (resume_exec e) = en_queue e"
  by (auto simp: resume_exec_def exec_ids_def write_all_def answered_def split: option.split prod.split)

lemma race_keeps: "answered (idle_race e) = answered e" "exec_ids (idle_race e) = exec_ids e" "en_queue (idle_race e) = en_queue e"
  by (auto simp: idle_race_def exec_ids_def write_all_def answered_def Let_def split: option.split)

lemma open_done_keeps [simp]: "answered (open_done n ro r e) = answered e" "en_exec (open_done n ro r e) = en_exec e"
  "en_queue (open_done n ro r e) = en_queue e" "en_sock (open_done n ro r e) = en_sock e" "en_trace (open_done n ro r e) = en_trace e"
  "en_tagSeq (open_done n ro r e) = en_tagSeq e" "en_current (open_done n ro r e) = en_current e"
  "en_idleWake (open_done n ro r e) = en_idleWake e" "en_idle (open_done n ro r e) = en_idle e"
  by (auto simp: open_done_def answered_def split: outcome.split)

lemma idle_again_keeps [simp]: "answered (idle_again e) = answered e" "en_exec (idle_again e) = en_exec e"
  "queue_ids (en_queue (idle_again e)) = queue_ids (en_queue e)" "en_sock (idle_again e) = en_sock e" "en_trace (idle_again e) = en_trace e"
  "en_tagSeq (idle_again e) = en_tagSeq e" "en_current (idle_again e) = en_current e" "en_idleWake (idle_again e) = en_idleWake e"
  by (auto simp: idle_again_def job_ids_def)

lemma finish_accounted: "accounted (finish_exec e) = accounted e"
proof (cases "en_exec e")
  case None
  then show ?thesis by (simp add: finish_exec_def)
next
  case (Some x)
  show ?thesis
  proof (cases "xe_done x")
    case None
    then show ?thesis using Some by (simp add: finish_exec_def)
  next
    case (Some d)
    note d = this
    have kept: "accounted (idle_failed err (next_job q e1)) = accounted (next_job q e1)" for err q e1 by (simp add: accounted_def)
    show ?thesis using \<open>en_exec e = Some x\<close> d
      by (cases "xe_kind x"; cases d) (simp_all add: finish_exec_def Let_def next_job_accounted kept, simp_all add: accounted_def exec_ids_def kind_ids_def)
  qed
qed

lemma settle_accounted: "accounted (settle_all e) = accounted e"
  by (simp add: settle_all_def finish_accounted) (simp add: accounted_def race_keeps resume_keeps)

lemma wake_keeps: "answered (wake_idle e) = answered e" "exec_ids (wake_idle e) = exec_ids e" "en_queue (wake_idle e) = en_queue e"
  "en_sock (wake_idle e) = en_sock e" "en_state (wake_idle e) = en_state e"
  by (auto simp: wake_idle_def exec_ids_def answered_def split: option.split)

lemma enqueue_accounted: "(en_exec e = None \<longrightarrow> en_queue e = []) \<Longrightarrow> accounted (enqueue_job j e) = accounted e + job_ids j"
  by (auto simp: enqueue_job_def next_job_accounted) (auto simp: accounted_def exec_ids_def)

lemma capture_keeps: "answered (captureCapabilities r e) = answered e" "exec_ids (captureCapabilities r e) = exec_ids e"
  "en_queue (captureCapabilities r e) = en_queue e"
  by (auto simp: captureCapabilities_def write_all_def answered_def exec_ids_def split: option.split)

lemma settle_done_keeps: "answered (settle_done d e) = answered e" "exec_ids (settle_done d e) = exec_ids e" "en_queue (settle_done d e) = en_queue e"
  by (auto simp: settle_done_def answered_def exec_ids_def split: option.split)

lemma emit_keeps [simp]: "answered (emit v e) = answered e" "exec_ids (emit v e) = exec_ids e" "en_queue (emit v e) = en_queue e"
  "en_exec (emit v e) = en_exec e" "en_sock (emit v e) = en_sock e" "en_trace (emit v e) = en_trace e"
  "en_tagSeq (emit v e) = en_tagSeq e" "en_current (emit v e) = en_current e" "en_idleWake (emit v e) = en_idleWake e" "en_idle (emit v e) = en_idle e"
  by (simp_all add: emit_def answered_def exec_ids_def)

lemma entered_keeps: "answered (idle_entered e) = answered e" "exec_ids (idle_entered e) = exec_ids e" "en_queue (idle_entered e) = en_queue e"
  by (auto simp: idle_entered_def Let_def wake_idle_def deliver_idle_def answered_def exec_ids_def split: option.split)

lemma continuation_keeps: "answered (on_continuation e) = answered e" "exec_ids (on_continuation e) = exec_ids e"
  "en_queue (on_continuation e) = en_queue e"
  by (auto simp: on_continuation_def Let_def entered_keeps split: option.splits) (auto simp: exec_ids_def)

lemma tagged_keeps: "answered (on_tagged r e) = answered e" "exec_ids (on_tagged r e) = exec_ids e" "en_queue (on_tagged r e) = en_queue e"
  by (auto simp: on_tagged_def settle_done_keeps split: option.splits)

lemma unsolicited_keeps: "answered (emitUnsolicited r e) = answered e" "exec_ids (emitUnsolicited r e) = exec_ids e"
  "en_queue (emitUnsolicited r e) = en_queue e"
  by (auto simp: emitUnsolicited_def emit_def answered_def exec_ids_def split: option.splits)

lemma untagged_keeps: "answered (on_untagged r e) = answered e" "exec_ids (on_untagged r e) = exec_ids e" "en_queue (on_untagged r e) = en_queue e"
proof -
  have "answered (e \<lparr> en_unsolicited := u \<rparr>) = answered e" "exec_ids (e \<lparr> en_unsolicited := u \<rparr>) = exec_ids e"
    "exec_ids (e \<lparr> en_closedError := ce \<rparr>) = exec_ids e" "exec_ids (e \<lparr> en_exec := map_option (\<lambda>x. x \<lparr> xe_untagged := f x \<rparr>) (en_exec e) \<rparr>) = exec_ids e"
    for e u ce f by (auto simp: answered_def exec_ids_def split: option.split)
  then show "answered (on_untagged r e) = answered e" "exec_ids (on_untagged r e) = exec_ids e" "en_queue (on_untagged r e) = en_queue e"
    by (auto simp: on_untagged_def Let_def unsolicited_keeps)
qed

lemma handle_accounted: "accounted (handleResponse r e) = accounted e"
  by (auto simp: handleResponse_def accounted_def continuation_keeps tagged_keeps untagged_keeps capture_keeps split: response_type.split)

section \<open>The invariant\<close>

definition wire_match :: "imap_engine \<Rightarrow> wire_state \<Rightarrow> bool" where
  "wire_match e st = (case en_exec e of None \<Rightarrow> \<exists>c. st = WFree (en_tagSeq e) c
     | Some x \<Rightarrow> xe_tag x = en_tagSeq e \<and> (case xe_wait x of
          Some (b, ps) \<Rightarrow> \<not> xe_nonSync x \<and>
            (if xe_go x then st = WGranted (xe_tag x) (length b) (xe_done x \<noteq> None) False
             else if xe_done x = None then st = WAnnounced (xe_tag x) (length b) else \<exists>c. st = WFree (xe_tag x) c)
        | None \<Rightarrow> \<exists>i c. (xe_kind x = KIdle \<and> \<not> xe_passed x \<longrightarrow> i) \<and> (xe_entered x \<longrightarrow> c) \<and>
            st = (if xe_done x = None then WOpen (xe_tag x) i c else WFree (xe_tag x) (i \<and> c))))"

lemma wire_match_open:
  assumes "wire_match e st" "en_exec e = Some x" "xe_wait x = None"
  obtains i c where "xe_tag x = en_tagSeq e" "xe_kind x = KIdle \<and> \<not> xe_passed x \<longrightarrow> i" "xe_entered x \<longrightarrow> c"
    "st = (if xe_done x = None then WOpen (xe_tag x) i c else WFree (xe_tag x) (i \<and> c))"
  using assms(1) unfolding wire_match_def assms(2,3) option.case by (elim conjE exE) (rule that; assumption)

lemma wire_match_openI:
  assumes "en_exec e = Some x" "xe_wait x = None" "xe_tag x = en_tagSeq e" "xe_kind x = KIdle \<and> \<not> xe_passed x \<longrightarrow> i" "xe_entered x \<longrightarrow> c"
    "st = (if xe_done x = None then WOpen (xe_tag x) i c else WFree (xe_tag x) (i \<and> c))"
  shows "wire_match e st"
  unfolding wire_match_def assms(1,2) option.case by (intro conjI exI[of _ i] exI[of _ c] assms(3-6))

text \<open>What wire_match looks at.\<close>

lemma wire_match_same:
  assumes "en_exec e = Some x" "en_exec e' = Some y" "en_tagSeq e' = en_tagSeq e" "xe_tag y = xe_tag x" "xe_wait y = xe_wait x"
    "xe_nonSync y = xe_nonSync x" "xe_go y = xe_go x" "xe_done y = xe_done x" "xe_kind y = xe_kind x"
    "xe_passed x \<longrightarrow> xe_passed y" "xe_entered y \<longrightarrow> xe_entered x"
  shows "wire_match e st \<Longrightarrow> wire_match e' st"
proof (cases "xe_wait x")
  case None
  assume "wire_match e st"
  from this assms(1) None obtain i c where k: "xe_tag x = en_tagSeq e" "xe_kind x = KIdle \<and> \<not> xe_passed x \<longrightarrow> i" "xe_entered x \<longrightarrow> c"
    "st = (if xe_done x = None then WOpen (xe_tag x) i c else WFree (xe_tag x) (i \<and> c))" by (rule wire_match_open)
  show ?thesis by (rule wire_match_openI[OF assms(2), where i = i and c = c]) (use None k assms in auto)
next
  case (Some bp)
  assume "wire_match e st"
  then show ?thesis using Some assms by (cases bp) (auto simp: wire_match_def)
qed

definition wire_legal :: "imap_engine \<Rightarrow> bool" where
  "wire_legal e \<longleftrightarrow> (\<exists>st. wire_run no_wire (en_trace e) = Some (''LITERAL+'' \<in> set (en_caps e), st) \<and> (en_sock e = SocketOpen \<longrightarrow> wire_match e st))"

lemma has_literal_plus: "has_cap e ''LITERAL+'' \<longleftrightarrow> ''LITERAL+'' \<in> set (en_caps e)"
proof -
  have "ascii_upper ''LITERAL+'' = ''LITERAL+''" by code_simp
  then show ?thesis by (simp only: has_cap_def)
qed

definition linked :: "imap_engine \<Rightarrow> bool" where
  "linked e = (case en_exec e of None \<Rightarrow> en_current e = None \<and> \<not> en_idleWake e \<and> en_queue e = []
     | Some x \<Rightarrow> (en_current e = None \<longleftrightarrow> xe_done x \<noteq> None) \<and> (\<forall>p. en_current e = Some p \<longrightarrow> pe_tag p = xe_tag x))"

text \<open>With T, every command is given a timeout; without, the timers are left aside.\<close>

definition timed_job :: "bool \<Rightarrow> engine_job \<Rightarrow> bool" where "timed_job T j = (T \<longrightarrow> (case j of JCall _ _ t \<Rightarrow> t | _ \<Rightarrow> True))"

lemma timed_simps [simp]: "timed_job T (JCall i ps t) = (T \<longrightarrow> t)" "timed_job T (JOpen i n ro)" "timed_job T (JLogout i)" "timed_job T JIdle"
  by (simp_all add: timed_job_def)

definition watched :: "imap_engine \<Rightarrow> imap_exec \<Rightarrow> bool" where
  "watched e x \<longleftrightarrow> (xe_entered x \<longrightarrow> (en_idleWake e \<or> xe_woken x) \<and> (command_waits e \<longrightarrow> xe_woken x)) \<and> (xe_woken x \<longrightarrow> xe_entered x)
     \<and> (\<forall>p. en_current e = Some p \<and> (xe_kind x \<noteq> KIdle \<or> xe_passed x \<and> en_sock e = SocketOpen) \<longrightarrow> pe_armed p)"

definition exec_ok :: "bool \<Rightarrow> imap_engine \<Rightarrow> imap_exec \<Rightarrow> bool" where
  "exec_ok T e x \<longleftrightarrow> (xe_go x \<longrightarrow> xe_wait x \<noteq> None \<and> en_sock e = SocketOpen) \<and> (xe_kind x = KIdle \<longrightarrow> xe_wait x = None)
     \<and> (xe_entered x \<or> xe_woken x \<longrightarrow> xe_kind x = KIdle) \<and> (en_idleWake e \<longrightarrow> xe_entered x) \<and> (xe_passed x \<longrightarrow> xe_woken x)
     \<and> (en_sock e = NoSocket \<longrightarrow> xe_done x \<noteq> None) \<and> (T \<longrightarrow> watched e x)"

definition engine_mid :: "bool \<Rightarrow> imap_engine \<Rightarrow> bool" where
  "engine_mid T e \<longleftrightarrow> wire_legal e \<and> linked e \<and> list_all (timed_job T) (en_queue e) \<and> (T \<longrightarrow> en_timed e) \<and> (\<forall>x. en_exec e = Some x \<longrightarrow> exec_ok T e x)"

definition engine_settled :: "imap_engine \<Rightarrow> bool" where
  "engine_settled e \<longleftrightarrow> (\<forall>x. en_exec e = Some x \<longrightarrow> xe_done x = None \<and> \<not> xe_go x \<and> (xe_woken x \<longrightarrow> xe_passed x))"

definition engine_inv :: "bool \<Rightarrow> imap_engine \<Rightarrow> bool" where "engine_inv T e \<longleftrightarrow> engine_mid T e \<and> engine_settled e"

text \<open>Nothing in flight: the lock is about to be given to the next job.\<close>

definition lock_free :: "imap_engine \<Rightarrow> bool" where
  "lock_free e \<longleftrightarrow> en_exec e = None \<and> en_current e = None \<and> \<not> en_idleWake e \<and> wire_legal e"

lemma starts_with_self: "starts_with p (p @ s)" by (simp add: starts_with_def)

lemma idle_parts: "send_parts t ns (joinWithSpaces [PText ''IDLE'']) (tag_text t @ '' '') = ([WLine t (idle_line t)], None)"
  by (simp add: joinWithSpaces_def idle_line_def)

lemma start_exec_inv:
  assumes "lock_free e" "en_sock e = SocketOpen" "list_all (timed_job T) (en_queue e)" "T \<longrightarrow> en_timed e"
    "k = KIdle \<longrightarrow> ps = [PText ''IDLE'']" "T \<longrightarrow> k \<noteq> KIdle \<longrightarrow> timed"
  shows "engine_inv T (start_exec k ps timed e)"
proof -
  let ?ns = "''LITERAL+'' \<in> set (en_caps e)" and ?t = "Suc (en_tagSeq e)"
  obtain ws w where sp: "send_parts ?t ?ns (joinWithSpaces ps) (tag_text ?t @ '' '') = (ws, w)" by fastforce
  obtain c where run: "wire_run no_wire (en_trace e) = Some (?ns, WFree (en_tagSeq e) c)"
    using assms(1,2) by (auto simp: lock_free_def wire_legal_def wire_match_def)
  have idle: "ws = [WLine ?t (idle_line ?t)] \<and> w = None" if "k = KIdle" using sp assms(5) that idle_parts by simp
  have "\<exists>i. wire_run (?ns, WFree (en_tagSeq e) c) ws = Some (?ns, after_send ?t i False w) \<and> (k = KIdle \<longrightarrow> i)"
  proof (cases "k = KIdle")
    case True
    have "begins (en_tagSeq e) ?t (idle_line ?t)" by (simp add: begins_def idle_line_def starts_with_self)
    moreover have "idle_line ?t \<noteq> ''DONE''" by (simp add: idle_line_def tag_text_def)
    ultimately show ?thesis using idle[OF True] by (auto simp: after_send_def)
  qed (use send_parts_free[OF sp starts_with_self refl, of ?ns] in auto)
  then obtain i where run2: "wire_run (?ns, WFree (en_tagSeq e) c) ws = Some (?ns, after_send ?t i False w)" "k = KIdle \<longrightarrow> i" by blast
  have n: "w \<noteq> None \<Longrightarrow> \<not> ?ns" using send_parts_unasked[of ?t "joinWithSpaces ps" "tag_text ?t @ '' ''" ws w] sp by auto
  define x where "x = \<lparr> xe_kind = k, xe_tag = ?t, xe_nonSync = ?ns, xe_wait = w, xe_go = False, xe_untagged = [],
             xe_done = None, xe_entered = False, xe_woken = False, xe_passed = False \<rparr>"
  have e': "start_exec k ps timed e = write_all ws (e \<lparr> en_tagSeq := ?t,
      en_current := Some \<lparr> pe_tag = ?t, pe_label = command_label ps, pe_armed = timed \<rparr>, en_exec := Some x \<rparr>)"
    using sp by (simp add: start_exec_def Let_def has_literal_plus x_def)
  have "wire_match (start_exec k ps timed e) (after_send ?t i False w)"
    using n run2(2) by (cases w) (auto simp: e' wire_match_def after_send_def x_def)
  then have "wire_legal (start_exec k ps timed e)" using run run2(1) by (auto simp: wire_legal_def e' wire_run_append write_all_def)
  moreover have "linked (start_exec k ps timed e)" by (simp add: e' linked_def x_def)
  moreover have "exec_ok T (start_exec k ps timed e) x"
    using assms(1,2,6) idle by (auto simp: e' exec_ok_def watched_def x_def lock_free_def command_waits_def)
  ultimately show ?thesis using assms(3,4)
    by (simp add: engine_inv_def engine_mid_def engine_settled_def e') (simp add: x_def write_all_def)
qed

lemma lock_free_upd:
  "lock_free e \<Longrightarrow> lock_free (idle_failed err e)" "lock_free e \<Longrightarrow> lock_free (deliver i r e)" "lock_free e \<Longrightarrow> lock_free (logout_done i e)"
  "lock_free (e \<lparr> en_queue := q \<rparr>) = lock_free e" "lock_free (e \<lparr> en_idle := l \<rparr>) = lock_free e" "lock_free (e \<lparr> en_selected := m \<rparr>) = lock_free e"
  "lock_free (e \<lparr> en_state := st \<rparr>) = lock_free e"
proof -
  show "lock_free e \<Longrightarrow> lock_free (idle_failed err e)"
    by (auto simp: lock_free_def wire_legal_def wire_match_def idle_failed_def Let_def deliver_idle_def destroy_engine_def split: option.split)
qed (auto simp: lock_free_def wire_legal_def wire_match_def)

lemma next_job_inv: "lock_free e \<Longrightarrow> T \<longrightarrow> en_timed e \<Longrightarrow> list_all (timed_job T) q \<Longrightarrow> engine_inv T (next_job q e)"
proof (induction q e rule: next_job.induct)
  case (1 e)
  then show ?case by (auto simp: lock_free_def engine_inv_def engine_mid_def engine_settled_def linked_def wire_legal_def wire_match_def)
next
  case (2 i ps t q e)
  then show ?case by (cases "en_sock e = SocketOpen") (simp_all add: start_exec_inv lock_free_upd)
next
  case (3 i n ro q e)
  then show ?case by (cases "en_sock e = SocketOpen") (simp_all add: Let_def start_exec_inv lock_free_upd)
next
  case (4 i q e)
  then show ?case by (cases "en_sock e = SocketOpen") (simp_all add: start_exec_inv lock_free_upd)
next
  case (5 q e)
  then show ?case by (cases "idle_stopped e"; cases "en_sock e = SocketOpen") (simp_all add: start_exec_inv lock_free_upd)
qed

lemma resume_mid:
  assumes "engine_mid T e"
  shows "engine_mid T (resume_exec e) \<and> (\<forall>x. en_exec (resume_exec e) = Some x \<longrightarrow> \<not> xe_go x)"
proof (cases "\<exists>x. en_exec e = Some x \<and> xe_go x")
  case False
  then have "resume_exec e = e" by (auto simp: resume_exec_def split: option.splits)
  then show ?thesis using False assms by simp
next
  case True
  then obtain x b ps where x: "en_exec e = Some x" "xe_go x" "xe_wait x = Some (b, ps)" "en_sock e = SocketOpen" "xe_kind x \<noteq> KIdle"
    using assms by (fastforce simp: engine_mid_def exec_ok_def watched_def)
  obtain ws w where sp: "send_parts (xe_tag x) (xe_nonSync x) ps [] = (ws, w)" by fastforce
  have r: "resume_exec e = write_all (WLiteral (xe_tag x) b # ws) (e \<lparr> en_exec := Some (x \<lparr> xe_wait := w, xe_go := False \<rparr>) \<rparr>)"
    by (simp add: resume_exec_def x sp)
  let ?lp = "''LITERAL+'' \<in> set (en_caps e)"
  have run: "wire_run no_wire (en_trace e) = Some (?lp, WGranted (xe_tag x) (length b) (xe_done x \<noteq> None) False)" "xe_tag x = en_tagSeq e"
    and ns: "\<not> xe_nonSync x"
    using assms x by (auto simp: engine_mid_def wire_legal_def wire_match_def)
  let ?x = "x \<lparr> xe_wait := w, xe_go := False \<rparr>"
  have ok: "exec_ok T e x" using assms x by (simp add: engine_mid_def)
  then have ent: "\<not> xe_entered x" "\<not> en_idleWake e" "\<not> xe_woken x" "\<not> xe_passed x" using x(5) by (auto simp: exec_ok_def watched_def)
  have "wire_match (resume_exec e) (after_send (xe_tag x) False (xe_done x \<noteq> None) w)"
    using run(2) ent ns x(5) by (cases w) (auto simp: wire_match_def r after_send_def)
  moreover have "wire_run (?lp, WPart (xe_tag x) (xe_done x \<noteq> None) False) ws = Some (?lp, after_send (xe_tag x) False (xe_done x \<noteq> None) w)"
    by (rule send_parts_part[OF sp]) (simp add: ns)
  ultimately have "wire_legal (resume_exec e)" by (simp add: wire_legal_def r wire_run_append run)
  moreover have "linked (resume_exec e)" using assms x by (simp add: engine_mid_def linked_def r)
  moreover have "exec_ok T (resume_exec e) ?x" using ok x(5) ent by (simp add: exec_ok_def watched_def r command_waits_def)
  moreover have "list_all (timed_job T) (en_queue (resume_exec e))" using assms by (simp add: engine_mid_def resume_keeps)
  moreover have "T \<longrightarrow> en_timed (resume_exec e)" using assms by (simp add: engine_mid_def)
  ultimately show ?thesis by (simp add: engine_mid_def r)
qed

definition same_view :: "imap_engine \<Rightarrow> imap_engine \<Rightarrow> bool" where
  "same_view e e' \<longleftrightarrow> en_sock e' = en_sock e \<and> en_tagSeq e' = en_tagSeq e \<and> en_current e' = en_current e \<and> en_exec e' = en_exec e
     \<and> en_queue e' = en_queue e \<and> en_idleWake e' = en_idleWake e \<and> en_trace e' = en_trace e
     \<and> en_caps e' = en_caps e \<and> en_timed e' = en_timed e"

lemma same_mid: "same_view e e' \<Longrightarrow> engine_mid T e' = engine_mid T e" and same_inv: "same_view e e' \<Longrightarrow> engine_inv T e' = engine_inv T e"
  by (simp_all add: same_view_def engine_inv_def engine_mid_def engine_settled_def wire_legal_def wire_match_def linked_def exec_ok_def watched_def command_waits_def
      cong: option.case_cong)

lemma engine_invD:
  assumes "engine_inv T e"
  shows "wire_legal e" "linked e" "list_all (timed_job T) (en_queue e)" "engine_settled e"
    "en_exec e = Some x \<Longrightarrow> exec_ok T e x" "en_exec e = Some x \<Longrightarrow> xe_done x = None" "en_exec e = Some x \<Longrightarrow> \<not> xe_go x"
    "en_exec e = Some x \<Longrightarrow> xe_woken x \<Longrightarrow> xe_passed x"
  using assms by (simp_all add: engine_inv_def engine_mid_def engine_settled_def)

lemma destroy_inv:
  assumes "engine_inv T e"
  shows "engine_inv T (destroy_engine e)"
proof (cases "en_sock e = SocketOpen")
  case True
  note i = engine_invD[OF assms]
  have "wire_legal (destroy_engine e)" using i(1) by (auto simp: wire_legal_def True)
  moreover have "linked (destroy_engine e)" using i(2) by (cases "en_exec e") (simp_all add: linked_def)
  moreover have "exec_ok T (destroy_engine e) x" if "en_exec e = Some x" for x
    using i(5,7)[OF that] by (simp add: exec_ok_def watched_def True command_waits_def)
  moreover have "T \<longrightarrow> en_timed (destroy_engine e)" using assms by (simp add: engine_inv_def engine_mid_def)
  ultimately show ?thesis using i(3,4) by (simp add: engine_inv_def engine_mid_def engine_settled_def)
qed (use assms in \<open>simp add: destroy_engine_def\<close>)

lemma idle_failed_inv: "engine_inv T e \<Longrightarrow> engine_inv T (idle_failed err e)"
proof -
  assume e: "engine_inv T e"
  have u: "engine_inv T (e1 \<lparr> en_idle := i \<rparr>) = engine_inv T e1" "engine_inv T (deliver_idle j m e1) = engine_inv T e1"
    "engine_inv T (e1 \<lparr> en_idle := i, en_events := v \<rparr>) = engine_inv T e1" for e1 i j m v
    by (rule same_inv, simp add: same_view_def deliver_idle_def)+
  show ?thesis using e by (auto simp: idle_failed_def Let_def u destroy_inv split: option.split)
qed

lemma finish_inv:
  assumes "engine_mid T e" "en_exec e = Some x" "xe_done x = Some d" "\<not> xe_go x"
  shows "engine_inv T (finish_exec (idle_race e))"
proof -
  define e0 where "e0 = idle_race e"
  have cur: "en_current e = None" using assms by (simp add: engine_mid_def linked_def)
  have ok: "exec_ok T e x" and wire: "wire_legal e" using assms by (simp_all add: engine_mid_def)
  let ?lp = "''LITERAL+'' \<in> set (en_caps e)"
  obtain c where run: "wire_run no_wire (en_trace e) = Some (?lp, c)" "en_sock e = SocketOpen \<Longrightarrow> wire_match e c"
    using wire by (auto simp: wire_legal_def)
  have free0: "xe_tag x = en_tagSeq e \<and> (\<exists>k. c = WFree (en_tagSeq e) k \<and> (xe_entered x \<and> \<not> xe_passed x \<longrightarrow> k))" if "en_sock e = SocketOpen"
  proof (cases "xe_wait x")
    case None
    from run(2)[OF that] assms(2) None obtain i k where "xe_tag x = en_tagSeq e" "xe_kind x = KIdle \<and> \<not> xe_passed x \<longrightarrow> i" "xe_entered x \<longrightarrow> k"
      "c = (if xe_done x = None then WOpen (xe_tag x) i k else WFree (xe_tag x) (i \<and> k))" by (rule wire_match_open)
    then show ?thesis using assms(3) ok by (auto simp: exec_ok_def)
  next
    case (Some bp)
    then have "\<not> xe_entered x" using ok by (auto simp: exec_ok_def)
    then show ?thesis using run(2)[OF that] assms(2,3,4) Some by (cases bp) (auto simp: wire_match_def)
  qed
  have run0: "\<exists>c. wire_run no_wire (en_trace e0) = Some (?lp, c) \<and> (en_sock e = SocketOpen \<longrightarrow> (\<exists>k. c = WFree (en_tagSeq e) k))"
  proof (cases "en_trace e0 = en_trace e")
    case True
    then show ?thesis using run free0 by auto
  next
    case False
    then have "en_trace e0 = en_trace e @ [WLine (xe_tag x) ''DONE'']" "xe_entered x" "\<not> xe_passed x" "en_sock e = SocketOpen"
      using assms(2) by (auto simp: e0_def idle_race_def Let_def split: if_splits)
    then show ?thesis using run free0 by (auto simp: wire_run_append)
  qed
  have "\<exists>x0. en_exec e0 = Some x0 \<and> xe_kind x0 = xe_kind x \<and> xe_done x0 = Some d"
    using assms(2,3) by (simp add: e0_def idle_race_def Let_def)
  then obtain x0 where x0: "en_exec e0 = Some x0" "xe_kind x0 = xe_kind x" "xe_done x0 = Some d" by blast
  have e0: "en_current e0 = None" "en_sock e0 = en_sock e" "en_tagSeq e0 = en_tagSeq e" "en_queue e0 = en_queue e" "en_idleWake e0 = en_idleWake e"
    "en_caps e0 = en_caps e" "en_timed e0 = en_timed e"
    using cur assms(2) by (auto simp: e0_def idle_race_def Let_def)
  have tm: "T \<longrightarrow> en_timed e" using assms(1) by (simp add: engine_mid_def)
  have q: "list_all (timed_job T) (en_queue e)" using assms(1) by (simp add: engine_mid_def)
  have free: "lock_free e2" if "en_exec e2 = None" "en_current e2 = None" "\<not> en_idleWake e2" "en_trace e2 = en_trace e0" "en_tagSeq e2 = en_tagSeq e" "en_caps e2 = en_caps e"
      "en_sock e2 = SocketOpen \<longrightarrow> en_sock e = SocketOpen" for e2
    using run0 that by (auto simp: lock_free_def wire_legal_def wire_match_def)
  have wake: "xe_kind x \<noteq> KIdle \<Longrightarrow> \<not> en_idleWake e" using assms(1,2) by (auto simp: engine_mid_def exec_ok_def watched_def)
  let ?e1 = "e0 \<lparr> en_exec := None \<rparr>"
  have "engine_inv T (finish_exec e0)"
  proof (cases "xe_kind x")
    case (KCall i)
    then show ?thesis using q wake tm
      by (auto simp: finish_exec_def x0 Let_def e0 intro!: next_job_inv free)
  next
    case (KOpen i n ro)
    then show ?thesis using q wake tm
      by (auto simp: finish_exec_def x0 Let_def e0 intro!: next_job_inv free)
  next
    case (KLogout i)
    then show ?thesis using q wake tm
      by (auto simp: finish_exec_def x0 Let_def e0 intro!: next_job_inv free split: if_splits)
  next
    case KIdle
    let ?e2 = "?e1 \<lparr> en_idleWake := False \<rparr>"
    have "list_all (timed_job T) (en_queue (idle_again ?e2))" using q by (simp add: idle_again_def e0)
    moreover have "lock_free ?e2" "lock_free (idle_again ?e2)" by (auto simp: e0 intro!: free)
    ultimately show ?thesis using KIdle q tm next_job_inv
      by (cases d) (auto simp: finish_exec_def x0 Let_def e0 intro!: idle_failed_inv)
  qed
  then show ?thesis by (simp add: e0_def)
qed

lemma settle_all_inv:
  assumes "engine_mid T e"
  shows "engine_inv T (settle_all e)"
proof -
  define r where "r = resume_exec e"
  have r: "engine_mid T r" "\<forall>x. en_exec r = Some x \<longrightarrow> \<not> xe_go x" using resume_mid[OF assms] by (simp_all add: r_def)
  have "engine_inv T (finish_exec (idle_race r))"
  proof (cases "en_exec r")
    case None
    then show ?thesis using r(1) by (simp add: idle_race_def finish_exec_def engine_inv_def engine_settled_def)
  next
    case (Some x)
    show ?thesis
    proof (cases "xe_done x")
      case None
      then have f: "finish_exec (idle_race r) = idle_race r" using Some
        by (auto simp: idle_race_def finish_exec_def Let_def split: option.splits)
      show ?thesis
      proof (cases "xe_kind x = KIdle \<and> \<not> xe_passed x \<and> xe_woken x")
        case False
        then have "idle_race r = r" using Some None by (auto simp: idle_race_def)
        then show ?thesis unfolding f using r Some None False
          by (auto simp: engine_inv_def engine_settled_def engine_mid_def exec_ok_def watched_def)
      next
        case True
        have ok: "exec_ok T r x" and link: "linked r" and wire: "wire_legal r" using r(1) Some by (simp_all add: engine_mid_def)
        obtain p where p: "en_current r = Some p" "pe_tag p = xe_tag x" using link Some None by (auto simp: linked_def)
        have ent: "xe_wait x = None" "T \<longrightarrow> xe_entered x" using ok True by (auto simp: exec_ok_def watched_def)
        let ?x = "x \<lparr> xe_passed := True \<rparr>"
        show ?thesis
        proof (cases "en_sock r = SocketOpen \<and> xe_entered x")
          case False
          then have race: "idle_race r = r \<lparr> en_exec := Some ?x \<rparr>" using Some None True by (auto simp: idle_race_def Let_def)
          have "exec_ok T (idle_race r) ?x" using ok True False ent by (auto simp: race exec_ok_def watched_def command_waits_def)
          moreover have "wire_legal (idle_race r)" using wire
            wire_match_same[OF Some, of "r \<lparr> en_exec := Some ?x \<rparr>" ?x] by (auto simp: race wire_legal_def)
          moreover have "linked (idle_race r)" using link Some by (simp add: race linked_def)
          ultimately show ?thesis unfolding f using r Some None True
            by (simp add: race engine_inv_def engine_settled_def engine_mid_def)
        next
          case entered: True
          then have sopen: "en_sock r = SocketOpen" and ent2: "xe_entered x" by auto
          have e1: "idle_race r = write_all [WLine (xe_tag x) ''DONE''] (r \<lparr> en_exec := Some ?x, en_current := Some (p \<lparr> pe_armed := en_timed r \<rparr>) \<rparr>)"
            using Some None True sopen ent2 p by (simp add: idle_race_def Let_def)
          obtain st where st: "wire_run no_wire (en_trace r) = Some (''LITERAL+'' \<in> set (en_caps r), st)" "wire_match r st"
            using wire sopen by (auto simp: wire_legal_def)
          from st(2) Some ent(1) obtain i c where "xe_tag x = en_tagSeq r" "xe_kind x = KIdle \<and> \<not> xe_passed x \<longrightarrow> i" "xe_entered x \<longrightarrow> c"
            "st = (if xe_done x = None then WOpen (xe_tag x) i c else WFree (xe_tag x) (i \<and> c))" by (rule wire_match_open)
          then have "st = WOpen (xe_tag x) True True" "xe_tag x = en_tagSeq r" using True ent2 None by auto
          moreover have "wire_match (idle_race r) (WOpen (xe_tag x) False True)"
            by (rule wire_match_openI[where x = ?x and i = False and c = True]) (use None ent(1) calculation(2) in \<open>simp_all add: e1\<close>)
          ultimately have "wire_legal (idle_race r)" using st(1) by (auto simp: e1 wire_legal_def wire_run_append)
          moreover have "T \<longrightarrow> en_timed r" using r(1) by (simp add: engine_mid_def)
          ultimately show ?thesis unfolding f using r Some None True ok link p
            by (simp add: e1 engine_inv_def engine_settled_def engine_mid_def linked_def exec_ok_def watched_def command_waits_def)
        qed
      qed
    next
      case (Some d)
      then show ?thesis using finish_inv[OF r(1) \<open>en_exec r = Some x\<close> Some] r(2) \<open>en_exec r = Some x\<close> by simp
    qed
  qed
  then show ?thesis by (simp add: settle_all_def r_def)
qed

section \<open>Every step keeps it\<close>

lemma mid_intro:
  assumes "wire_legal e" "linked e" "list_all (timed_job T) (en_queue e)" "T \<longrightarrow> en_timed e" "\<And>x. en_exec e = Some x \<Longrightarrow> exec_ok T e x"
  shows "engine_mid T e"
  using assms by (simp add: engine_mid_def)

lemma midD:
  assumes "engine_mid T e"
  shows "wire_legal e" "linked e" "list_all (timed_job T) (en_queue e)" "en_exec e = Some x \<Longrightarrow> exec_ok T e x" "T \<longrightarrow> en_timed e"
  using assms by (simp_all add: engine_mid_def)

lemma wake_mid: "engine_mid T e \<Longrightarrow> engine_mid T (wake_idle e)"
proof (cases "en_idleWake e")
  case True
  assume m: "engine_mid T e"
  then obtain x where x: "en_exec e = Some x" using True by (cases "en_exec e") (auto simp: engine_mid_def linked_def)
  note d = midD[OF m] and ok = midD(4)[OF m x]
  have p: "xe_entered x" "xe_wait x = None" "\<not> xe_go x" "xe_kind x = KIdle"
    using ok True by (auto simp: exec_ok_def watched_def)
  have w: "wake_idle e = e \<lparr> en_idleWake := False, en_exec := Some (x \<lparr> xe_woken := True \<rparr>) \<rparr>" using True x by (simp add: wake_idle_def)
  show ?thesis
  proof (rule mid_intro)
    show "T \<longrightarrow> en_timed (wake_idle e)" using midD(5)[OF m] by simp
    show "wire_legal (wake_idle e)" using d(1) wire_match_same[OF x, of "wake_idle e" "x \<lparr> xe_woken := True \<rparr>"] by (auto simp: w wire_legal_def)
    show "linked (wake_idle e)" using d(2) x by (simp add: w linked_def)
    show "list_all (timed_job T) (en_queue (wake_idle e))" using d(3) by (simp add: w)
    fix y assume "en_exec (wake_idle e) = Some y"
    then show "exec_ok T (wake_idle e) y" using ok p by (auto simp: w exec_ok_def watched_def)
  qed
qed (simp add: wake_idle_def)

lemma woken_after_wake: "engine_mid T e \<Longrightarrow> T \<Longrightarrow> en_exec (wake_idle e) = Some x \<Longrightarrow> xe_entered x \<Longrightarrow> xe_woken x"
  by (drule wake_mid) (auto simp: engine_mid_def exec_ok_def watched_def wake_idle_def split: if_splits)

lemma lock_free_inv: "engine_mid T e \<Longrightarrow> en_exec e = None \<Longrightarrow> lock_free e"
  by (simp add: engine_mid_def lock_free_def linked_def)

lemma exec_ok_queue:
  assumes "exec_ok T e x" "T \<Longrightarrow> xe_entered x \<Longrightarrow> command_waits (e \<lparr> en_queue := q \<rparr>) \<Longrightarrow> xe_woken x"
  shows "exec_ok T (e \<lparr> en_queue := q \<rparr>) x"
proof -
  let ?e = "e \<lparr> en_queue := q \<rparr>"
  have f: "en_sock ?e = en_sock e" "en_idleWake ?e = en_idleWake e" "en_current ?e = en_current e" by simp_all
  show ?thesis using assms unfolding exec_ok_def watched_def f by blast
qed

lemma enqueue_mid:
  assumes "engine_mid T e" "timed_job T j" "\<And>x. T \<Longrightarrow> en_exec e = Some x \<Longrightarrow> xe_entered x \<Longrightarrow> j \<noteq> JIdle \<Longrightarrow> xe_woken x"
  shows "engine_mid T (enqueue_job j e)"
proof (cases "en_exec e")
  case None
  then have "engine_inv T (next_job (en_queue e @ [j]) e)"
    using next_job_inv lock_free_inv assms midD(3,5)[OF assms(1)] by simp
  then show ?thesis using None by (simp add: enqueue_job_def engine_inv_def)
next
  case (Some x)
  note d = midD[OF assms(1)] and ok = midD(4)[OF assms(1) Some]
  have e: "enqueue_job j e = e \<lparr> en_queue := en_queue e @ [j] \<rparr>" using Some by (simp add: enqueue_job_def)
  show ?thesis
  proof (rule mid_intro)
    show "T \<longrightarrow> en_timed (enqueue_job j e)" using midD(5)[OF assms(1)] by (simp add: e)
    show "wire_legal (enqueue_job j e)" using d(1) wire_match_same[OF Some, of "enqueue_job j e" x] Some by (auto simp: e wire_legal_def)
    show "linked (enqueue_job j e)" using d(2) Some by (simp add: e linked_def)
    show "list_all (timed_job T) (en_queue (enqueue_job j e))" using d(3) assms(2) by (simp add: e)
    fix y assume "en_exec (enqueue_job j e) = Some y"
    then have y: "y = x" using Some by (simp add: e)
    have "command_waits (enqueue_job j e) \<longleftrightarrow> command_waits e \<or> j \<noteq> JIdle" by (auto simp: e command_waits_def)
    then have "T \<Longrightarrow> xe_entered x \<Longrightarrow> command_waits (enqueue_job j e) \<Longrightarrow> xe_woken x" using ok assms(3)[OF _ Some] by (auto simp: exec_ok_def watched_def)
    then show "exec_ok T (enqueue_job j e) y" unfolding y e by (rule exec_ok_queue[OF ok]) (simp_all add: e)
  qed
qed

lemma call_job_inv: "engine_inv T e \<Longrightarrow> timed_job T j \<Longrightarrow> engine_inv T (call_job j e)"
  unfolding call_job_def by (intro settle_all_inv enqueue_mid wake_mid) (auto simp: engine_inv_def intro: woken_after_wake)

lemma settle_done_mid:
  assumes "engine_mid T e" "en_exec e = Some x" "xe_done x = None" "en_trace e' = en_trace e @ ws"
    "en_exec e' = en_exec e" "en_queue e' = en_queue e" "en_idleWake e' = en_idleWake e" "en_tagSeq e' = en_tagSeq e"
    "en_caps e' = en_caps e" "en_timed e' = en_timed e"
    "en_sock e' = SocketOpen \<longrightarrow> en_sock e = SocketOpen \<and> ws = [WTagged (xe_tag x)]" "xe_go x \<longrightarrow> en_sock e' = SocketOpen"
    "en_sock e' \<noteq> SocketOpen \<longrightarrow> ws = []"
  shows "engine_mid T (settle_done d e')"
proof -
  note m = midD[OF assms(1)] and ok = midD(4)[OF assms(1,2)]
  show ?thesis
  proof (rule mid_intro)
    obtain st where st: "wire_run no_wire (en_trace e) = Some (''LITERAL+'' \<in> set (en_caps e), st)" "en_sock e = SocketOpen \<longrightarrow> wire_match e st"
      using m(1) by (auto simp: wire_legal_def)
    show "wire_legal (settle_done d e')"
    proof (cases "en_sock e' = SocketOpen")
      case True
      then have o: "en_sock e = SocketOpen" "ws = [WTagged (xe_tag x)]" using assms(11) by auto
      have m2: "wire_match e st" using st(2) o(1) by simp
      let ?x = "x \<lparr> xe_done := Some d \<rparr>"
      have x': "en_exec (settle_done d e') = Some ?x" "en_tagSeq (settle_done d e') = en_tagSeq e" using assms(2,5,8) by (simp_all add: settle_done_def)
      have "\<exists>st'. wire_next (''LITERAL+'' \<in> set (en_caps e)) st (WTagged (xe_tag x)) = Some st' \<and> wire_match (settle_done d e') st'"
      proof (cases "xe_wait x")
        case None
        from m2 assms(2) None obtain i c where k: "xe_tag x = en_tagSeq e" "xe_kind x = KIdle \<and> \<not> xe_passed x \<longrightarrow> i" "xe_entered x \<longrightarrow> c"
          "st = (if xe_done x = None then WOpen (xe_tag x) i c else WFree (xe_tag x) (i \<and> c))" by (rule wire_match_open)
        have "wire_match (settle_done d e') (WFree (xe_tag x) (i \<and> c))"
          by (rule wire_match_openI[OF x'(1), where i = i and c = c]) (use None k x'(2) in simp_all)
        then show ?thesis using k(4) assms(3) by simp
      next
        case (Some bp)
        then show ?thesis using m2 assms(2,3) x' by (cases bp; cases "xe_go x") (auto simp: wire_match_def)
      qed
      then show ?thesis using st(1) assms(4,9) o(2) by (auto simp: wire_legal_def settle_done_def wire_run_append)
    next
      case False
      then show ?thesis using st assms(4,9,13) by (auto simp: wire_legal_def settle_done_def)
    qed
    show "T \<longrightarrow> en_timed (settle_done d e')" using midD(5)[OF assms(1)] assms(10) by simp
    show "linked (settle_done d e')" using assms(2,5) by (simp add: settle_done_def linked_def)
    show "list_all (timed_job T) (en_queue (settle_done d e'))" using m(3) assms(6) by (simp add: settle_done_def)
    fix y assume "en_exec (settle_done d e') = Some y"
    then have y: "y = x \<lparr> xe_done := Some d \<rparr>" using assms(2,5) by (simp add: settle_done_def)
    have f: "en_current (settle_done d e') = None" "en_sock (settle_done d e') = en_sock e'" "en_idleWake (settle_done d e') = en_idleWake e"
      "command_waits (settle_done d e') = command_waits e" using assms(6,7) by (simp_all add: settle_done_def command_waits_def)
    have g: "(xe_go x \<longrightarrow> xe_wait x \<noteq> None \<and> en_sock e' = SocketOpen)" using ok assms(12) unfolding exec_ok_def by blast
    have h: "T \<Longrightarrow> watched (settle_done d e') (x \<lparr> xe_done := Some d \<rparr>)" using ok unfolding exec_ok_def watched_def f by simp
    show "exec_ok T (settle_done d e') y" using ok g h unfolding y exec_ok_def f by simp
  qed
qed

end
