(* ===== verification/ImapEngineSteps.thy ===== *)
theory ImapEngineSteps
  imports ImapEngineInv
begin

text \<open>
  Every step of the command engine of the IMAP client keeps its invariant: the responses, the timers, the end of the
  socket, the calls.  What follows for every run: commands, literals and DONE go out only when the protocol allows
  it, every call is answered once, and no call waits without a timer.
\<close>

section \<open>Responses\<close>

lemma current_linked:
  assumes "engine_mid T e" "en_current e = Some p"
  obtains x where "en_exec e = Some x" "pe_tag p = xe_tag x" "xe_done x = None"
  using midD(2)[OF assms(1)] assms(2) that by (cases "en_exec e") (auto simp: linked_def)

lemma exec_mid:
  assumes "engine_mid T e" "en_exec e = Some x" "wire_legal e'" "exec_ok T e' y" "en_exec e' = Some y" "xe_tag y = xe_tag x" "xe_done y = xe_done x"
    "en_current e' = en_current e" "en_queue e' = en_queue e" "en_timed e' = en_timed e"
  shows "engine_mid T e'"
proof (rule mid_intro)
  show "T \<longrightarrow> en_timed e'" using midD(5)[OF assms(1)] assms(10) by simp
  show "linked e'" using midD(2)[OF assms(1)] assms(2,5-8) by (simp add: linked_def)
  show "list_all (timed_job T) (en_queue e')" using midD(3)[OF assms(1)] assms(9) by simp
qed (use assms in auto)

text \<open>What watched and exec_ok look at.\<close>

lemma watched_same:
  assumes "en_idleWake e' = en_idleWake e" "en_queue e' = en_queue e" "en_current e' = en_current e" "en_sock e' = en_sock e"
    "xe_kind y = xe_kind x" "xe_entered y = xe_entered x" "xe_woken y = xe_woken x" "xe_passed y = xe_passed x"
  shows "watched e' y = watched e x"
  unfolding watched_def command_waits_def assms ..

lemma exec_ok_same:
  assumes "exec_ok T e x" "en_idleWake e' = en_idleWake e" "en_queue e' = en_queue e" "en_current e' = en_current e" "en_sock e' = en_sock e"
    "xe_kind y = xe_kind x" "xe_entered y = xe_entered x" "xe_woken y = xe_woken x" "xe_passed y = xe_passed x" "xe_wait y = xe_wait x"
    "xe_done y = xe_done x" "xe_go y \<longrightarrow> xe_wait x \<noteq> None \<and> en_sock e = SocketOpen"
  shows "exec_ok T e' y"
  using assms(1,12) unfolding exec_ok_def watched_same[OF assms(2-9)] assms(2-11) by blast

lemma wire_at:
  assumes "engine_mid T e" "en_sock e = SocketOpen" "en_exec e = Some x"
  obtains st where "wire_run no_wire (en_trace e) = Some (''LITERAL+'' \<in> set (en_caps e), st)" "wire_match e st"
  using midD(1)[OF assms(1)] assms(2) by (auto simp: wire_legal_def)

lemma entered_ok:
  assumes "exec_ok T e x" "xe_kind x = KIdle" "en_sock e = SocketOpen"
    and e': "en_sock e' = en_sock e" "en_current e' = en_current e" "en_queue e' = en_queue e"
    and f: "xe_entered y" "xe_kind y = xe_kind x" "xe_passed y = xe_passed x" "xe_wait y = xe_wait x" "xe_go y = xe_go x" "xe_done y = xe_done x"
    and y: "xe_woken x \<longrightarrow> xe_woken y" "en_idleWake e' \<or> xe_woken y" "command_waits e \<longrightarrow> xe_woken y"
  shows "exec_ok T e' y"
proof -
  have c: "command_waits e' = command_waits e" using e' by (simp add: command_waits_def)
  have "watched e' y" if T using assms(1) that y f(1) unfolding exec_ok_def watched_def c e' f(2-6) by blast
  then show ?thesis using assms(1-3) y(1) f(1) unfolding exec_ok_def e' f(2-6) by blast
qed

lemma continuation_mid:
  assumes "engine_mid T e" "en_sock e = SocketOpen"
  shows "engine_mid T (on_continuation e) \<and> en_sock (on_continuation e) = SocketOpen"
proof (cases "en_current e")
  case (Some p)
  obtain x where x: "en_exec e = Some x" "pe_tag p = xe_tag x" "xe_done x = None" by (rule current_linked[OF assms(1) Some])
  note ok = midD(4)[OF assms(1) x(1)]
  let ?lp = "''LITERAL+'' \<in> set (en_caps e)"
  obtain st where st: "wire_run no_wire (en_trace e) = Some (?lp, st)" "wire_match e st" by (rule wire_at[OF assms x(1)])
  have open_st: "\<exists>i c. (xe_kind x = KIdle \<and> \<not> xe_passed x \<longrightarrow> i) \<and> st = WOpen (xe_tag x) i c \<and> xe_tag x = en_tagSeq e" if "xe_wait x = None"
    using st(2) x(1) that by (rule wire_match_open) (use x(3) in auto)
  let ?e1 = "write_all [WContinue (xe_tag x)] e"
  consider (grant) b ps where "xe_wait x = Some (b, ps)" "\<not> xe_go x" | (again) b ps where "xe_wait x = Some (b, ps)" "xe_go x"
    | (idle) "xe_wait x = None" "xe_kind x = KIdle" | (plain) "xe_wait x = None" "xe_kind x \<noteq> KIdle" by fastforce
  then show ?thesis
  proof cases
    case grant
    let ?y = "x \<lparr> xe_go := True \<rparr>"
    have c: "on_continuation e = ?e1 \<lparr> en_exec := Some ?y \<rparr>" using Some x grant by (simp add: on_continuation_def Let_def)
    have "wire_legal (on_continuation e)" using st x grant by (simp add: c wire_legal_def wire_match_def wire_run_append)
    moreover have "exec_ok T (on_continuation e) ?y" by (rule exec_ok_same[OF ok]) (use grant assms(2) in \<open>simp_all add: c\<close>)
    ultimately show ?thesis using exec_mid[OF assms(1) x(1)] assms(2) by (simp add: c)
  next
    case again
    then have c: "on_continuation e = ?e1" using Some x ok by (simp add: on_continuation_def Let_def exec_ok_def)
    have "wire_legal ?e1" using st x again by (simp add: wire_legal_def wire_match_def wire_run_append)
    moreover have "exec_ok T ?e1 x" by (rule exec_ok_same[OF ok]) (use ok in \<open>simp_all add: exec_ok_def\<close>)
    ultimately show ?thesis using exec_mid[OF assms(1) x(1)] assms(2) x(1) by (simp add: c)
  next
    case plain
    then have c: "on_continuation e = ?e1" using Some x by (simp add: on_continuation_def Let_def)
    obtain i c where o: "st = WOpen (xe_tag x) i c" "xe_tag x = en_tagSeq e" using open_st[OF plain(1)] by blast
    have "wire_match ?e1 (WOpen (xe_tag x) i True)"
      by (rule wire_match_openI[where x = x and i = i and c = True]) (use x plain o in simp_all)
    then have "wire_legal ?e1" using st(1) o by (simp add: wire_legal_def wire_run_append)
    moreover have "exec_ok T ?e1 x" by (rule exec_ok_same[OF ok]) (use ok in \<open>simp_all add: exec_ok_def\<close>)
    ultimately show ?thesis using exec_mid[OF assms(1) x(1)] assms(2) x(1) by (simp add: c)
  next
    case idle
    let ?e' = "idle_entered ?e1"
    have c: "on_continuation e = ?e'" using Some x idle by (simp add: on_continuation_def Let_def)
    have k: "en_current ?e' = en_current e" "en_queue ?e' = en_queue e" "en_sock ?e' = en_sock e" "en_tagSeq ?e' = en_tagSeq e"
      "en_trace ?e' = en_trace e @ [WContinue (xe_tag x)]" "en_caps ?e' = en_caps e" "en_timed ?e' = en_timed e"
      by (auto simp: idle_entered_def Let_def wake_idle_def deliver_idle_def split: option.split)
    have "\<exists>y. en_exec ?e' = Some y \<and> xe_entered y \<and> xe_kind y = xe_kind x \<and> xe_passed y = xe_passed x \<and> xe_wait y = xe_wait x
        \<and> xe_go y = xe_go x \<and> xe_done y = xe_done x \<and> xe_tag y = xe_tag x
        \<and> (xe_woken x \<longrightarrow> xe_woken y) \<and> (en_idleWake ?e' \<or> xe_woken y) \<and> (command_waits e \<longrightarrow> xe_woken y)"
      using x(1) by (cases "en_idle e") (auto simp: idle_entered_def Let_def wake_idle_def deliver_idle_def command_waits_def)
    then obtain y where w: "en_exec ?e' = Some y" and y: "xe_entered y" "xe_kind y = xe_kind x" "xe_passed y = xe_passed x" "xe_wait y = xe_wait x"
        "xe_go y = xe_go x" "xe_done y = xe_done x" "xe_tag y = xe_tag x" "xe_woken x \<longrightarrow> xe_woken y" "en_idleWake ?e' \<or> xe_woken y"
        "command_waits e \<longrightarrow> xe_woken y" by blast
    have "exec_ok T ?e' y" by (rule entered_ok[OF ok idle(2) assms(2) k(3,1,2) y(1-6,8-10)])
    moreover have "wire_legal ?e'"
    proof -
      obtain i c where o: "st = WOpen (xe_tag x) i c" "xe_tag x = en_tagSeq e" "xe_kind x = KIdle \<and> \<not> xe_passed x \<longrightarrow> i"
        using open_st[OF idle(1)] by blast
      have "wire_match ?e' (WOpen (xe_tag x) i True)"
        by (rule wire_match_openI[where x = y and i = i and c = True]) (use w y k x idle o in simp_all)
      then show ?thesis using st(1) o k by (simp add: wire_legal_def wire_run_append)
    qed
    ultimately show ?thesis using exec_mid[OF assms(1) x(1)] w y k assms(2) by (simp add: c)
  qed
qed (use assms in \<open>simp add: on_continuation_def\<close>)

lemma capture_mid:
  assumes "engine_mid T e"
  shows "engine_mid T (captureCapabilities r e) \<and> en_sock (captureCapabilities r e) = en_sock e"
proof (cases "captured r")
  case (Some l)
  define e' where "e' = captureCapabilities r e"
  have k: "en_exec e' = en_exec e" "en_tagSeq e' = en_tagSeq e" "en_current e' = en_current e" "en_queue e' = en_queue e" "en_sock e' = en_sock e"
    "en_idleWake e' = en_idleWake e" "en_timed e' = en_timed e" "en_trace e' = en_trace e @ [WCaps l]" "en_caps e' = l"
    using Some by (simp_all add: e'_def captureCapabilities_def)
  note m = midD[OF assms]
  have "engine_mid T e'"
  proof (rule mid_intro)
    have "wire_match e' st = wire_match e st" for st unfolding wire_match_def k ..
    then show "wire_legal e'" using m(1) by (auto simp: wire_legal_def wire_run_append k)
    show "linked e'" using m(2) unfolding linked_def k .
    show "list_all (timed_job T) (en_queue e')" using m(3) unfolding k .
    show "T \<longrightarrow> en_timed e'" using m(5) unfolding k .
    fix x assume "en_exec e' = Some x"
    then have "exec_ok T e x" using m(4) by (simp add: k)
    then show "exec_ok T e' x" unfolding exec_ok_def watched_def command_waits_def k .
  qed
  then show ?thesis using k(5) by (simp add: e'_def)
qed (use assms in \<open>simp add: captureCapabilities_def\<close>)

lemma tagged_mid:
  assumes "engine_mid T e" "en_sock e = SocketOpen"
  shows "engine_mid T (on_tagged r e) \<and> en_sock (on_tagged r e) = SocketOpen"
proof (cases "\<exists>p. en_current e = Some p \<and> ir_tag r = Some (tag_text (pe_tag p))")
  case True
  then obtain p where p: "en_current e = Some p" "ir_tag r = Some (tag_text (pe_tag p))" by blast
  obtain x where x: "en_exec e = Some x" "pe_tag p = xe_tag x" "xe_done x = None" by (rule current_linked[OF assms(1) p(1)])
  have "engine_mid T (settle_done d (write_all [WTagged (xe_tag x)] e))" for d
    by (rule settle_done_mid[OF assms(1) x(1,3)]) (use assms(2) in simp_all)
  then show ?thesis using p x(2) assms(2) by (simp add: on_tagged_def) (simp add: settle_done_def)
qed (use assms in \<open>auto simp: on_tagged_def split: option.split\<close>)

lemma noted_mid:
  assumes "engine_mid T e" "same_view (e \<lparr> en_exec := map_option (\<lambda>x. x \<lparr> xe_untagged := f x \<rparr>) (en_exec e) \<rparr>) e'"
  shows "engine_mid T e'"
proof (cases "en_exec e")
  case None
  then have "same_view e e'" using assms(2) by (simp add: same_view_def)
  then show ?thesis using assms(1) same_mid by simp
next
  case (Some x)
  let ?y = "x \<lparr> xe_untagged := f x \<rparr>" and ?e = "e \<lparr> en_exec := map_option (\<lambda>x. x \<lparr> xe_untagged := f x \<rparr>) (en_exec e) \<rparr>"
  note ok = midD(4)[OF assms(1) Some]
  have "exec_ok T ?e ?y" by (rule exec_ok_same[OF ok]) (use ok in \<open>simp_all add: exec_ok_def\<close>)
  moreover have "wire_legal ?e" using midD(1)[OF assms(1)] wire_match_same[OF Some, of ?e ?y] Some by (auto simp: wire_legal_def)
  ultimately have "engine_mid T ?e" using exec_mid[OF assms(1) Some] Some by simp
  then show ?thesis using same_mid[OF assms(2)] by simp
qed

lemma untagged_mid:
  assumes "engine_mid T e" "en_sock e = SocketOpen"
  shows "engine_mid T (on_untagged r e) \<and> en_sock (on_untagged r e) = SocketOpen"
proof -
  define e1 where "e1 = (if ir_status r = Some ''BYE'' \<and> en_state e \<noteq> IsLogout
            then e \<lparr> en_closedError := Some (ImapConnError (''Server closed the connection: '' @ strip_bye (ir_data r))) \<rparr> else e)"
  have "same_view e e1" by (simp add: e1_def same_view_def)
  moreover have "same_view e1 (emitUnsolicited r e1)" by (auto simp: same_view_def emitUnsolicited_def emit_def split: option.split)
  ultimately have v: "same_view e (emitUnsolicited r e1)" by (simp add: same_view_def)
  have u: "on_untagged r e = (if en_current (emitUnsolicited r e1) \<noteq> None
      then (emitUnsolicited r e1) \<lparr> en_exec := map_option (\<lambda>x. x \<lparr> xe_untagged := xe_untagged x @ [r] \<rparr>) (en_exec (emitUnsolicited r e1)) \<rparr>
      else (emitUnsolicited r e1) \<lparr> en_unsolicited := keep_last UNSOLICITED_LIMIT (en_unsolicited (emitUnsolicited r e1) @ [r]) \<rparr>)"
    by (simp add: on_untagged_def Let_def e1_def)
  have "engine_mid T (on_untagged r e)"
  proof (cases "en_current (emitUnsolicited r e1) = None")
    case True
    then have "same_view e (on_untagged r e)" using v by (simp add: u same_view_def)
    then show ?thesis using assms(1) same_mid by simp
  next
    case False
    show ?thesis by (rule noted_mid[OF assms(1), of "\<lambda>x. xe_untagged x @ [r]"]) (use False v in \<open>simp add: u same_view_def\<close>)
  qed
  moreover have "en_sock (on_untagged r e) = SocketOpen" using v assms(2) by (simp add: u same_view_def)
  ultimately show ?thesis by simp
qed

lemma handle_mid:
  assumes "engine_mid T e" "en_sock e = SocketOpen"
  shows "engine_mid T (handleResponse r e) \<and> en_sock (handleResponse r e) = SocketOpen"
proof -
  have "engine_mid T (captureCapabilities r e)" "en_sock (captureCapabilities r e) = SocketOpen"
    using capture_mid[OF assms(1), of r] assms(2) by simp_all
  then show ?thesis using continuation_mid[OF assms] tagged_mid untagged_mid by (cases "ir_type r") (simp_all add: handleResponse_def)
qed

lemma data_inv: "engine_inv T e \<Longrightarrow> engine_inv T (on_data rs e)"
proof -
  assume e: "engine_inv T e"
  have "engine_mid T (fold handleResponse rs e)" if "engine_mid T e" "en_sock e = SocketOpen" for e
    using that handle_mid by (induction rs arbitrary: e) simp_all
  then show ?thesis using e by (auto simp: on_data_def engine_inv_def[of T e] intro: settle_all_inv)
qed

section \<open>The other steps\<close>

lemma timer_inv:
  assumes "engine_inv T e"
  shows "engine_inv T (on_timer e)"
proof (cases "en_current e")
  case (Some p)
  have mid: "engine_mid T e" using assms by (simp add: engine_inv_def)
  obtain x where x: "en_exec e = Some x" "pe_tag p = xe_tag x" "xe_done x = None" by (rule current_linked[OF mid Some])
  have "engine_mid T (settle_done d (destroy_engine (e \<lparr> en_closedError := ce \<rparr>)))" for d ce
    by (rule settle_done_mid[OF mid x(1,3), of _ "[]"]) (use engine_invD(7)[OF assms x(1)] in auto)
  then show ?thesis using assms Some by (simp add: on_timer_def Let_def settle_all_inv)
qed (use assms in \<open>simp add: on_timer_def\<close>)

lemma closed_inv:
  assumes "engine_inv T e"
  shows "engine_inv T (onClosed e)"
proof (cases "en_sock e = NoSocket")
  case False
  have mid: "engine_mid T e" using assms by (simp add: engine_inv_def)
  let ?e1 = "e \<lparr> en_state := IsIdle, en_selected := None, en_sock := NoSocket \<rparr>"
  have "engine_mid T (if en_current e = None then ?e1 else settle_done (Inl err) ?e1)" for err
  proof (cases "en_current e")
    case None
    then have "en_exec e = None" using engine_invD(2)[OF assms] engine_invD(6)[OF assms] by (cases "en_exec e") (auto simp: linked_def)
    then show ?thesis using None mid by (auto simp: engine_mid_def wire_legal_def linked_def)
  next
    case (Some p)
    obtain x where x: "en_exec e = Some x" "pe_tag p = xe_tag x" "xe_done x = None" by (rule current_linked[OF mid Some])
    have "engine_mid T (settle_done (Inl err) ?e1)"
      by (rule settle_done_mid[OF mid x(1,3), of _ "[]"]) (use engine_invD(7)[OF assms x(1)] in auto)
    then show ?thesis using Some by simp
  qed
  moreover have "engine_mid T (emit IvClose e')" if "engine_mid T e'" for e'
    using same_mid[of e' "emit IvClose e'" T] that by (simp add: same_view_def)
  ultimately have "engine_mid T (emit IvClose (wake_idle (if en_current e = None then ?e1 else settle_done (Inl err) ?e1)))" for err
    using wake_mid by blast
  then show ?thesis using False unfolding onClosed_def Let_def by (simp only: if_False settle_all_inv)
qed (use assms in \<open>simp add: onClosed_def\<close>)

definition engine_ok :: "bool \<Rightarrow> imap_engine \<Rightarrow> engine_op \<Rightarrow> bool" where
  "engine_ok T e op = (T \<longrightarrow> (case op of OpCall i ps timed \<Rightarrow> timed
     | OpRenewal \<Rightarrow> (case en_exec e of None \<Rightarrow> True | Some x \<Rightarrow> xe_kind x = KIdle \<longrightarrow> xe_entered x) | _ \<Rightarrow> True))"

lemma woken_ok:
  assumes "exec_ok T e x" "xe_kind x = KIdle" "T \<longrightarrow> xe_entered x"
    and e': "en_sock e' = en_sock e" "en_current e' = en_current e" "en_queue e' = en_queue e" "en_idleWake e' = en_idleWake e"
    and y: "y = x \<lparr> xe_woken := True \<rparr>"
  shows "exec_ok T e' y"
proof -
  have c: "command_waits e' = command_waits e" using e' by (simp add: command_waits_def)
  have f: "xe_woken y" "xe_entered y = xe_entered x" "xe_kind y = xe_kind x" "xe_passed y = xe_passed x" "xe_wait y = xe_wait x" "xe_go y = xe_go x"
    "xe_done y = xe_done x" by (simp_all add: y)
  have "watched e' y" if T using assms(1,3) that f(1) unfolding exec_ok_def watched_def c e' f(2-7) by blast
  then show ?thesis using assms(1,2) f(1) unfolding exec_ok_def e' f(2-7) by blast
qed

lemma renewal_inv:
  assumes "engine_inv T e" "engine_ok T e OpRenewal"
  shows "engine_inv T (on_renewal e)"
proof (cases "\<exists>x. en_exec e = Some x \<and> xe_kind x = KIdle")
  case True
  then obtain x where x: "en_exec e = Some x" "xe_kind x = KIdle" by blast
  have mid: "engine_mid T e" using assms(1) by (simp add: engine_inv_def)
  note ok = midD(4)[OF mid x(1)]
  let ?y = "x \<lparr> xe_woken := True \<rparr>"
  let ?e = "e \<lparr> en_exec := Some ?y \<rparr>"
  have "exec_ok T ?e ?y" by (rule woken_ok[OF ok x(2)]) (use x assms(2) in \<open>auto simp: engine_ok_def\<close>)
  moreover have "wire_legal ?e" using midD(1)[OF mid] wire_match_same[OF x(1), of ?e ?y] by (auto simp: wire_legal_def)
  ultimately have "engine_mid T ?e" using exec_mid[OF mid x(1)] by simp
  then show ?thesis using x by (simp add: on_renewal_def settle_all_inv)
next
  case False
  then have "e \<lparr> en_exec := map_option (\<lambda>x. if xe_kind x = KIdle then x \<lparr> xe_woken := True \<rparr> else x) (en_exec e) \<rparr> = e"
    by (cases "en_exec e") auto
  then show ?thesis using assms(1) by (simp add: on_renewal_def engine_inv_def[of T e] settle_all_inv)
qed

lemma view_inv: "same_view e e' \<Longrightarrow> engine_inv T e \<Longrightarrow> engine_inv T e'" by (simp add: same_inv)

lemma deliver_view: "same_view e (deliver i r e)" "same_view e (deliver_idle i d e)" "same_view e (emit v (e \<lparr> en_closedError := c \<rparr>))"
  "same_view e (e \<lparr> en_idle := l \<rparr>)" "same_view e (e \<lparr> en_closedError := c \<rparr>)" "en_sock e \<noteq> SocketOpen \<Longrightarrow> same_view e (logout_done i e)"
  by (simp_all add: same_view_def deliver_def deliver_idle_def emit_def logout_done_def destroy_engine_def)

lemma idle_inv: "engine_inv T e \<Longrightarrow> engine_inv T (idle i e)"
proof -
  assume e: "engine_inv T e"
  have "engine_mid T (e \<lparr> en_idle := l \<rparr>)" for l using e same_mid[OF deliver_view(4)] by (simp add: engine_inv_def)
  then have "engine_inv T (start_idle i e)" using e by (auto simp: start_idle_def intro!: settle_all_inv enqueue_mid)
  then show ?thesis using e by (simp add: idle_def view_inv[OF deliver_view(2)])
qed

lemma stop_idle_inv: "engine_inv T e \<Longrightarrow> engine_inv T (stop_idle e)"
  unfolding stop_idle_def by (intro settle_all_inv wake_mid) (simp add: same_mid[OF deliver_view(4)] engine_inv_def)

lemma engine_inv_step: "engine_inv T e \<Longrightarrow> engine_ok T e op \<Longrightarrow> engine_inv T (engine_step e op)"
proof (cases op)
  case (OpLimit err)
  moreover assume e: "engine_inv T e"
  ultimately show ?thesis using destroy_inv[OF view_inv[OF deliver_view(5) e]] by simp
qed (auto simp: engine_ok_def openMailbox_def close_client_def renewal_inv Let_def intro!: call_job_inv idle_inv stop_idle_inv data_inv closed_inv timer_inv
    destroy_inv intro: view_inv[OF deliver_view(1)] view_inv[OF deliver_view(3)] view_inv[OF deliver_view(6)])

interpretation engine: machine engine_step "engine_ok T" "engine_inv T" for T
  by unfold_locales (rule engine_inv_step)

lemma new_engine_inv: "T \<longrightarrow> timed \<Longrightarrow> engine_inv T (new_engine timed caps st)"
  by (auto simp: new_engine_def engine_inv_def engine_mid_def engine_settled_def wire_legal_def wire_match_def linked_def no_wire_def intro: exI[of _ False])

lemma legal_untimed: "legal_run engine_step (engine_ok False) e ops"
  by (induction ops arbitrary: e) (simp_all add: engine_ok_def)

end
