(* ===== verification/ImapEngineIdle.thy ===== *)
theory ImapEngineIdle
  imports ImapEngineSteps
begin

text \<open>
  The calls of idle() on the command engine of the IMAP client: the loop a call starts has one job behind the lock or
  in flight as long as it runs, and its caller is answered once, when the server confirms IDLE or the loop fails.
\<close>

section \<open>The loop and its caller\<close>

definition idle_answered :: "imap_engine \<Rightarrow> nat multiset" where "idle_answered e = mset (map fst (en_idleResults e))"

definition idle_waiting :: "imap_engine \<Rightarrow> nat multiset" where
  "idle_waiting e = (case en_idle e of Some l \<Rightarrow> if id_first l then {#id_call l#} else {#} | None \<Rightarrow> {#})"

definition idle_ids :: "engine_op \<Rightarrow> nat multiset" where "idle_ids op = (case op of OpIdle i \<Rightarrow> {#i#} | _ \<Rightarrow> {#})"

text \<open>idle() is called when no other loop runs and the socket is open, or it is refused at once; the function that ends a loop is
  called by those it was returned to.\<close>

definition idle_ok :: "imap_engine \<Rightarrow> engine_op \<Rightarrow> bool" where
  "idle_ok e op = (case op of
     OpIdle i \<Rightarrow> en_state e \<noteq> IsSelected \<or> en_idleWake e \<or> en_idle e = None \<and> en_sock e = SocketOpen
   | OpIdleStop \<Rightarrow> (case en_idle e of None \<Rightarrow> True | Some l \<Rightarrow> \<not> id_first l)
   | _ \<Rightarrow> True)"

definition idle_total :: "imap_engine \<Rightarrow> nat multiset" where "idle_total e = idle_answered e + idle_waiting e"

definition idles :: "imap_exec option \<Rightarrow> bool" where "idles xo = (case xo of None \<Rightarrow> False | Some x \<Rightarrow> xe_kind x = KIdle)"

definition idle_jobs :: "imap_engine \<Rightarrow> nat" where
  "idle_jobs e = count_list (en_queue e) JIdle + (if idles (en_exec e) then 1 else 0)"

definition paired :: "imap_engine \<Rightarrow> bool" where "paired e \<longleftrightarrow> idle_jobs e = (if en_idle e = None then 0 else 1)"

definition loop_sound :: "imap_engine \<Rightarrow> bool" where
  "loop_sound e \<longleftrightarrow> (\<forall>l. en_idle e = Some l \<longrightarrow> id_stopped l \<longrightarrow> \<not> id_first l)"

definition exec_sound :: "imap_engine \<Rightarrow> bool" where
  "exec_sound e \<longleftrightarrow> (\<forall>x. en_exec e = Some x \<longrightarrow> (resolved x \<longrightarrow> en_sock e = SocketOpen)
     \<and> (xe_entered x \<longrightarrow> xe_kind x = KIdle \<and> (\<forall>l. en_idle e = Some l \<longrightarrow> \<not> id_first l)))"

definition looped :: "imap_engine \<Rightarrow> bool" where
  "looped e \<longleftrightarrow> paired e \<and> loop_sound e \<and> exec_sound e"

lemma idles_simps [simp]: "idles None = False" "idles (Some x) = (xe_kind x = KIdle)"
  by (simp_all add: idles_def)

lemma loopedD:
  assumes "looped e"
  shows "idle_jobs e = (if en_idle e = None then 0 else 1)" "loop_sound e" "exec_sound e"
  using assms by (simp_all add: looped_def paired_def)

text \<open>What the bookkeeping of the loop looks at.\<close>

definition same_loop :: "imap_engine \<Rightarrow> imap_engine \<Rightarrow> bool" where
  "same_loop e e' \<longleftrightarrow> en_idle e' = en_idle e \<and> en_idleResults e' = en_idleResults e \<and> en_queue e' = en_queue e \<and> en_sock e' = en_sock e
     \<and> rel_option (\<lambda>x y. xe_kind y = xe_kind x \<and> xe_entered y = xe_entered x \<and> (resolved y \<longrightarrow> resolved x)) (en_exec e) (en_exec e')"

lemma same_loop_keeps: "same_loop e e' \<Longrightarrow> idle_total e' = idle_total e" "same_loop e e' \<Longrightarrow> looped e \<Longrightarrow> looped e'"
  by (cases "en_exec e"; cases "en_exec e'";
      auto simp: same_loop_def idle_total_def idle_answered_def idle_waiting_def looped_def paired_def idle_jobs_def loop_sound_def exec_sound_def)+

lemma same_loop_trans: "same_loop e1 e2 \<Longrightarrow> same_loop e2 e3 \<Longrightarrow> same_loop e1 e3"
  by (cases "en_exec e1"; cases "en_exec e2"; cases "en_exec e3") (auto simp: same_loop_def)

lemma option_rel_same: "(\<And>x. P x x) \<Longrightarrow> rel_option P xo xo" by (cases xo) simp_all

lemma option_rel_upd: "(\<And>x. P x (f x)) \<Longrightarrow> rel_option P xo (map_option f xo)" by (cases xo) simp_all

lemma resume_loop: "same_loop e (resume_exec e)"
  by (cases "en_exec e") (auto simp: same_loop_def resume_exec_def write_all_def split: option.split prod.split)

lemma race_loop: "same_loop e (idle_race e)"
  by (cases "en_exec e") (auto simp: same_loop_def idle_race_def write_all_def Let_def)

lemma wake_loop: "same_loop e (wake_idle e)"
  by (cases "en_exec e") (auto simp: same_loop_def wake_idle_def)

section \<open>The lock\<close>

lemma start_idle_total [simp]: "idle_total (start_exec k ps t e) = idle_total e" "en_idle (start_exec k ps t e) = en_idle e"
  "en_queue (start_exec k ps t e) = en_queue e" "loop_sound (start_exec k ps t e) = loop_sound e" "exec_sound (start_exec k ps t e)"
  "idle_jobs (start_exec k ps t e) = count_list (en_queue e) JIdle + (if k = KIdle then 1 else 0)"
  by (auto simp: start_exec_def Let_def write_all_def idle_total_def idle_answered_def idle_waiting_def loop_sound_def exec_sound_def idle_jobs_def
      split: prod.split)

lemma deliver_total [simp]: "idle_total (deliver i r e) = idle_total e" "idle_total (logout_done i e) = idle_total e"
  "loop_sound (deliver i r e) = loop_sound e" "loop_sound (logout_done i e) = loop_sound e"
  "idle_total (e \<lparr> en_queue := q \<rparr>) = idle_total e" "idle_total (e \<lparr> en_selected := s \<rparr>) = idle_total e" "idle_total (e \<lparr> en_state := st \<rparr>) = idle_total e"
  "loop_sound (e \<lparr> en_queue := q \<rparr>) = loop_sound e" "loop_sound (e \<lparr> en_selected := s \<rparr>) = loop_sound e" "loop_sound (e \<lparr> en_state := st \<rparr>) = loop_sound e"
  "idle_total (e \<lparr> en_exec := x \<rparr>) = idle_total e" "idle_total (e \<lparr> en_idleWake := w \<rparr>) = idle_total e"
  "loop_sound (e \<lparr> en_exec := x \<rparr>) = loop_sound e" "loop_sound (e \<lparr> en_idleWake := w \<rparr>) = loop_sound e"
  "idle_total (open_done n ro d e) = idle_total e" "loop_sound (open_done n ro d e) = loop_sound e"
  by (auto simp: idle_total_def idle_answered_def idle_waiting_def loop_sound_def deliver_def logout_done_def destroy_engine_def open_done_def
      split: outcome.split)

text \<open>The end of a loop answers a caller still waiting.\<close>

lemma failed_total: "loop_sound e \<Longrightarrow> idle_total (idle_failed err e) = idle_total e \<and> en_idle (idle_failed err e) = None"
  by (auto simp: idle_failed_def Let_def deliver_idle_def destroy_engine_def idle_total_def idle_answered_def idle_waiting_def loop_sound_def
      split: option.split)

lemma stopped_total: "loop_sound e \<Longrightarrow> idle_stopped e \<Longrightarrow> idle_total (e \<lparr> en_idle := None \<rparr>) = idle_total e"
  by (auto simp: idle_stopped_def idle_total_def idle_answered_def idle_waiting_def loop_sound_def split: option.splits)

lemma sound_none: "en_idle e = None \<Longrightarrow> loop_sound e" by (simp add: loop_sound_def)

text \<open>The jobs behind the lock: with no turn of the loop among them the loop is left alone; with one it is still there, or over.\<close>

lemma next_job_total: "en_exec e = None \<Longrightarrow> loop_sound e \<Longrightarrow> idle_total (next_job q e) = idle_total e \<and> loop_sound (next_job q e) \<and> exec_sound (next_job q e)"
proof (induction q e rule: next_job.induct)
  case (1 e)
  then show ?case by (simp add: exec_sound_def)
next
  case (5 q e)
  show ?case
  proof (cases "idle_stopped e")
    case True
    then show ?thesis using 5 stopped_total by (simp add: sound_none)
  next
    case False
    then show ?thesis using 5 failed_total[of e "closed_error e"] by (simp add: sound_none)
  qed
qed (simp_all add: Let_def)

lemma next_job_other: "en_exec e = None \<Longrightarrow> count_list q JIdle = 0 \<Longrightarrow> en_idle (next_job q e) = en_idle e \<and> idle_jobs (next_job q e) = 0"
proof (induction q e rule: next_job.induct)
  case (1 e)
  then show ?case by (simp add: idle_jobs_def)
next
  case (2 i ps t q e)
  then show ?case by (cases "en_sock e = SocketOpen") simp_all
next
  case (3 i n ro q e)
  then show ?case by (cases "en_sock e = SocketOpen") (simp_all add: Let_def)
next
  case (4 i q e)
  then show ?case by (cases "en_sock e = SocketOpen") simp_all
qed simp

lemma next_job_turn: "en_exec e = None \<Longrightarrow> loop_sound e \<Longrightarrow> count_list q JIdle = 1 \<Longrightarrow> en_idle e \<noteq> None \<Longrightarrow> paired (next_job q e)"
proof (induction q e rule: next_job.induct)
  case (2 i ps t q e)
  then show ?case by (cases "en_sock e = SocketOpen") (simp_all add: paired_def)
next
  case (3 i n ro q e)
  then show ?case by (cases "en_sock e = SocketOpen") (simp_all add: Let_def paired_def)
next
  case (4 i q e)
  then show ?case by (cases "en_sock e = SocketOpen") (simp_all add: paired_def)
next
  case (5 q e)
  have z: "count_list q JIdle = 0" using 5 by simp
  show ?case
  proof (cases "idle_stopped e")
    case True
    then show ?thesis using next_job_other[of "e \<lparr> en_idle := None \<rparr>" q] z 5 by (simp add: paired_def)
  next
    case stays: False
    show ?thesis
    proof (cases "en_sock e = SocketOpen")
      case True
      then show ?thesis using stays z 5 by (simp add: paired_def)
    next
      case False
      then show ?thesis using stays next_job_other[of "idle_failed (closed_error e) e" q] failed_total[of e "closed_error e"] z 5 by (simp add: paired_def)
    qed
  qed
qed simp

lemma next_job_looped:
  assumes "en_exec e = None" "loop_sound e" "count_list q JIdle = (if en_idle e = None then 0 else 1)"
  shows "looped (next_job q e)" "idle_total (next_job q e) = idle_total e"
proof -
  have "paired (next_job q e)"
  proof (cases "en_idle e = None")
    case True
    then show ?thesis using next_job_other[OF assms(1)] assms(3) by (simp add: paired_def)
  qed (use next_job_turn[OF assms(1,2)] assms(3) in simp)
  then show "looped (next_job q e)" "idle_total (next_job q e) = idle_total e" using next_job_total[OF assms(1,2)] by (simp_all add: looped_def)
qed

lemma again_total: "loop_sound e \<Longrightarrow> en_sock e = SocketOpen \<Longrightarrow> idle_total (idle_again e) = idle_total e"
  "loop_sound e \<Longrightarrow> loop_sound (idle_again e)"
  "en_sock e = SocketOpen \<Longrightarrow> count_list (en_queue e) JIdle = 0 \<Longrightarrow>
     count_list (en_queue (idle_again e)) JIdle = (if en_idle (idle_again e) = None then 0 else 1)"
  using stopped_total[of e] by (auto simp: idle_again_def sound_none idle_stopped_def split: option.splits)

lemma failed_looped:
  assumes "idle_jobs e = 0" "loop_sound e" "\<And>x. en_exec e = Some x \<Longrightarrow> \<not> resolved x \<and> (xe_entered x \<longrightarrow> xe_kind x = KIdle)"
  shows "looped (idle_failed err e)"
proof -
  have n: "en_idle (idle_failed err e) = None" using failed_total[OF assms(2)] by simp
  moreover have "idle_jobs (idle_failed err e) = idle_jobs e" by (simp add: idle_jobs_def)
  ultimately show ?thesis using assms(1,3) by (simp add: looped_def paired_def sound_none exec_sound_def)
qed

text \<open>A command the lock has just been given to is at its start.\<close>

lemma next_job_fresh: "en_exec e = None \<Longrightarrow> en_exec (next_job q e) = Some x \<Longrightarrow> xe_done x = None \<and> \<not> xe_entered x"
proof (induction q e rule: next_job.induct)
  case (2 i ps t q e)
  then show ?case by (cases "en_sock e = SocketOpen") (auto simp: start_exec_def Let_def write_all_def split: prod.splits)
next
  case (3 i n ro q e)
  then show ?case by (cases "en_sock e = SocketOpen") (auto simp: start_exec_def Let_def write_all_def split: prod.splits)
next
  case (4 i q e)
  then show ?case by (cases "en_sock e = SocketOpen") (auto simp: start_exec_def Let_def write_all_def split: prod.splits)
next
  case (5 q e)
  then show ?case by (cases "idle_stopped e"; cases "en_sock e = SocketOpen") (auto simp: start_exec_def Let_def write_all_def split: prod.splits)
qed simp

lemma finish_loop:
  assumes "looped e"
  shows "looped (finish_exec e)" "idle_total (finish_exec e) = idle_total e"
proof -
  note d = loopedD[OF assms]
  have "looped (finish_exec e) \<and> idle_total (finish_exec e) = idle_total e"
  proof (cases "\<exists>x r. en_exec e = Some x \<and> xe_done x = Some r")
    case False
    then have "finish_exec e = e" by (auto simp: finish_exec_def split: option.split)
    then show ?thesis using assms by simp
  next
    case True
    then obtain x r where x: "en_exec e = Some x" "xe_done x = Some r" by blast
    let ?e1 = "e \<lparr> en_exec := None \<rparr>"
    show ?thesis
    proof (cases "xe_kind x = KIdle")
      case False
      then have q: "count_list (en_queue e) JIdle = (if en_idle e = None then 0 else 1)" using d(1) x by (simp add: idle_jobs_def)
      have "looped (next_job (en_queue e2) e2) \<and> idle_total (next_job (en_queue e2) e2) = idle_total e"
        if "en_exec e2 = None" "en_queue e2 = en_queue e" "en_idle e2 = en_idle e" "loop_sound e2" "idle_total e2 = idle_total e" for e2
        using next_job_looped[of e2 "en_queue e2"] that q by simp
      then show ?thesis using False d(2) by (cases "xe_kind x") (simp_all add: finish_exec_def x Let_def)
    next
      case True
      then have q: "count_list (en_queue e) JIdle = 0" and l: "en_idle e \<noteq> None" using d(1) x by (simp_all add: idle_jobs_def split: if_splits)
      let ?e2 = "?e1 \<lparr> en_idleWake := False \<rparr>"
      show ?thesis
      proof (cases r)
        case (Inr t)
        then have o: "en_sock ?e2 = SocketOpen" using d(3) x by (simp add: exec_sound_def)
        have "looped (next_job (en_queue (idle_again ?e2)) (idle_again ?e2))
            \<and> idle_total (next_job (en_queue (idle_again ?e2)) (idle_again ?e2)) = idle_total ?e2"
          using next_job_looped[of "idle_again ?e2"] again_total[of ?e2] d(2) o q by simp
        then show ?thesis using True Inr by (simp add: finish_exec_def x Let_def)
      next
        case (Inl err)
        let ?n = "next_job (en_queue e) ?e2"
        have n: "en_idle ?n = en_idle e" "idle_jobs ?n = 0" "idle_total ?n = idle_total e" "loop_sound ?n" "exec_sound ?n"
          using next_job_other[of ?e2 "en_queue e"] next_job_total[of ?e2 "en_queue e"] q d(2) by simp_all
        have "looped (idle_failed err ?n)" by (rule failed_looped[OF n(2,4)]) (use next_job_fresh[of ?e2] in fastforce)
        then show ?thesis using True Inl n failed_total[OF n(4)] by (simp add: finish_exec_def x Let_def)
      qed
    qed
  qed
  then show "looped (finish_exec e)" "idle_total (finish_exec e) = idle_total e" by simp_all
qed

lemma settle_all_loop: "looped e \<Longrightarrow> looped (settle_all e) \<and> idle_total (settle_all e) = idle_total e"
proof -
  assume e: "looped e"
  have s: "same_loop e (idle_race (resume_exec e))" by (rule same_loop_trans[OF resume_loop race_loop])
  then show ?thesis using finish_loop[OF same_loop_keeps(2)[OF s e]] same_loop_keeps(1)[OF s] by (simp add: settle_all_def)
qed

lemma enqueue_loop:
  assumes "paired e" "loop_sound e" "exec_sound e" "j \<noteq> JIdle" "en_exec e = None \<longrightarrow> en_queue e = []"
  shows "looped (enqueue_job j e) \<and> idle_total (enqueue_job j e) = idle_total e"
proof (cases "en_exec e")
  case None
  then have "count_list [j] JIdle = (if en_idle e = None then 0 else 1)" using assms by (simp add: paired_def idle_jobs_def split: if_splits)
  then show ?thesis using next_job_looped[OF None assms(2), of "[j]"] None assms(5) by (simp add: enqueue_job_def)
next
  case (Some x)
  then have "enqueue_job j e = e \<lparr> en_queue := en_queue e @ [j] \<rparr>" by (simp add: enqueue_job_def)
  moreover have "looped (e \<lparr> en_queue := en_queue e @ [j] \<rparr>)"
    using assms Some by (simp add: looped_def paired_def idle_jobs_def exec_sound_def)
  ultimately show ?thesis by simp
qed

lemma call_loop: "looped e \<Longrightarrow> linked e \<Longrightarrow> j \<noteq> JIdle \<Longrightarrow> looped (call_job j e) \<and> idle_total (call_job j e) = idle_total e"
proof -
  assume e: "looped e" and l: "linked e" and j: "j \<noteq> JIdle"
  have w: "looped (wake_idle e)" using same_loop_keeps(2)[OF wake_loop e] .
  have "en_exec (wake_idle e) = None \<longrightarrow> en_queue (wake_idle e) = []" using l by (cases "en_exec e") (auto simp: linked_def wake_idle_def)
  then have "looped (enqueue_job j (wake_idle e)) \<and> idle_total (enqueue_job j (wake_idle e)) = idle_total (wake_idle e)"
    using enqueue_loop[of "wake_idle e" j] w j by (simp add: looped_def)
  then show ?thesis using settle_all_loop same_loop_keeps(1)[OF wake_loop] by (simp add: call_job_def)
qed

section \<open>Responses\<close>

lemma entered_loop:
  assumes "looped e" "en_exec e = Some x" "xe_kind x = KIdle"
  shows "looped (idle_entered e) \<and> idle_total (idle_entered e) = idle_total e"
proof -
  note d = loopedD[OF assms(1)]
  obtain l where l: "en_idle e = Some l" using d(1) assms(2,3) by (cases "en_idle e") (simp_all add: idle_jobs_def)
  let ?e1 = "e \<lparr> en_idleWake := True, en_exec := Some (x \<lparr> xe_entered := True \<rparr>) \<rparr>"
  let ?e2 = "if id_first l then deliver_idle (id_call l) None (?e1 \<lparr> en_idle := Some (l \<lparr> id_first := False \<rparr>) \<rparr>) else ?e1"
  have "looped ?e2 \<and> idle_total ?e2 = idle_total e"
    using d assms(2,3) l by (auto simp: looped_def paired_def idle_jobs_def loop_sound_def exec_sound_def deliver_idle_def idle_total_def
        idle_answered_def idle_waiting_def)
  moreover have "idle_entered e = (if command_waits ?e2 \<or> idle_stopped ?e2 then wake_idle ?e2 else ?e2)"
    by (simp add: idle_entered_def Let_def l assms(2))
  ultimately show ?thesis using same_loop_keeps[OF wake_loop, of ?e2] by simp
qed

lemma continuation_loop:
  assumes "looped e"
  shows "looped (on_continuation e) \<and> idle_total (on_continuation e) = idle_total e"
proof (cases "en_exec e")
  case (Some x)
  let ?e1 = "write_all [WContinue (xe_tag x)] e"
  have s: "same_loop e ?e1" "same_loop e (?e1 \<lparr> en_exec := Some (x \<lparr> xe_go := True \<rparr>) \<rparr>)"
    using Some by (simp_all add: same_loop_def write_all_def)
  show ?thesis
    using Some same_loop_keeps[OF s(1)] same_loop_keeps[OF s(2)] assms entered_loop[of ?e1 x]
    by (auto simp: on_continuation_def Let_def split: option.split)
qed (use assms in \<open>auto simp: on_continuation_def split: option.split\<close>)

lemma settle_done_loop:
  assumes "looped e" "isl d \<or> en_sock e = SocketOpen"
  shows "looped (settle_done d e) \<and> idle_total (settle_done d e) = idle_total e"
proof -
  note k = loopedD[OF assms(1)]
  show ?thesis using k assms(2)
    by (cases "en_exec e"; cases d) (auto simp: settle_done_def looped_def paired_def idle_jobs_def loop_sound_def exec_sound_def idle_total_def
        idle_answered_def idle_waiting_def)
qed

lemma capture_loop: "same_loop e (captureCapabilities r e)"
  by (cases "en_exec e") (auto simp: same_loop_def captureCapabilities_def write_all_def split: option.split)

lemma tagged_loop:
  assumes "looped e" "en_sock e = SocketOpen"
  shows "looped (on_tagged r e) \<and> idle_total (on_tagged r e) = idle_total e"
proof -
  have s: "same_loop e (write_all ws e)" for ws by (cases "en_exec e") (simp_all add: same_loop_def write_all_def)
  have "looped (settle_done d (write_all ws e)) \<and> idle_total (settle_done d (write_all ws e)) = idle_total e" for d ws
    using settle_done_loop[of "write_all ws e" d] same_loop_keeps[OF s[of ws]] assms by simp
  then show ?thesis using assms by (auto simp: on_tagged_def split: option.split)
qed

lemma untagged_loop: "same_loop e (on_untagged r e)"
proof -
  have u: "same_loop e (emitUnsolicited r e)" for e
    by (cases "en_exec e") (auto simp: same_loop_def emitUnsolicited_def emit_def split: option.split)
  define e1 where "e1 = (if ir_status r = Some ''BYE'' \<and> en_state e \<noteq> IsLogout
            then e \<lparr> en_closedError := Some (ImapConnError (''Server closed the connection: '' @ strip_bye (ir_data r))) \<rparr> else e)"
  have "same_loop e e1" by (cases "en_exec e") (simp_all add: e1_def same_loop_def)
  moreover have "same_loop e' (e' \<lparr> en_exec := map_option (\<lambda>x. x \<lparr> xe_untagged := xe_untagged x @ [r] \<rparr>) (en_exec e') \<rparr>)"
    "same_loop e' (e' \<lparr> en_unsolicited := q \<rparr>)" for e' q by (cases "en_exec e'"; simp add: same_loop_def)+
  ultimately show ?thesis using u[of e1] unfolding on_untagged_def Let_def e1_def[symmetric]
    by (cases "en_current (emitUnsolicited r e1) = None") (auto intro: same_loop_trans)
qed

lemma handle_sock: "en_sock (handleResponse r e) = en_sock e"
proof -
  have "en_sock (on_continuation e) = en_sock e" for e
    by (auto simp: on_continuation_def Let_def idle_entered_def wake_idle_def deliver_idle_def write_all_def split: option.split)
  moreover have "en_sock (captureCapabilities r e) = en_sock e" using capture_loop by (simp add: same_loop_def)
  moreover have "en_sock (on_tagged r e) = en_sock e" for e by (auto simp: on_tagged_def settle_done_def write_all_def split: option.split)
  moreover have "en_sock (on_untagged r e) = en_sock e" for e using untagged_loop by (simp add: same_loop_def)
  ultimately show ?thesis by (simp add: handleResponse_def split: response_type.split)
qed

lemma handle_loop:
  assumes "looped e" "en_sock e = SocketOpen"
  shows "looped (handleResponse r e) \<and> idle_total (handleResponse r e) = idle_total e"
proof -
  let ?c = "captureCapabilities r e"
  have c: "looped ?c" "idle_total ?c = idle_total e" "en_sock ?c = SocketOpen"
    using same_loop_keeps[OF capture_loop] capture_loop[of e r] assms by (simp_all add: same_loop_def)
  show ?thesis
    using continuation_loop[OF assms(1)] tagged_loop[OF c(1,3)] same_loop_keeps[OF untagged_loop[of ?c r]] c
    by (simp add: handleResponse_def split: response_type.split)
qed

lemma data_loop: "looped e \<Longrightarrow> looped (on_data rs e) \<and> idle_total (on_data rs e) = idle_total e"
proof -
  assume e: "looped e"
  have "looped (fold handleResponse rs e) \<and> idle_total (fold handleResponse rs e) = idle_total e" if "looped e" "en_sock e = SocketOpen" for e
    using that
  proof (induction rs arbitrary: e)
    case (Cons r rs)
    then show ?case using handle_loop[of e r] handle_sock[of r e] by simp
  qed simp
  then show ?thesis using e settle_all_loop by (auto simp: on_data_def)
qed

section \<open>Steps\<close>

lemma sock_loop: "looped e \<Longrightarrow> engine_settled e \<Longrightarrow> looped (e \<lparr> en_state := st, en_selected := m, en_sock := so \<rparr>)"
  "idle_total (e \<lparr> en_state := st, en_selected := m, en_sock := so \<rparr>) = idle_total e"
  by (auto simp: looped_def paired_def idle_jobs_def loop_sound_def exec_sound_def engine_settled_def idle_total_def idle_answered_def idle_waiting_def)

lemma destroy_loop: "looped e \<Longrightarrow> engine_settled e \<Longrightarrow> looped (destroy_engine (e \<lparr> en_closedError := c \<rparr>))"
  "looped e \<Longrightarrow> engine_settled e \<Longrightarrow> looped (destroy_engine e)"
  "idle_total (destroy_engine (e \<lparr> en_closedError := c \<rparr>)) = idle_total e" "idle_total (destroy_engine e) = idle_total e"
  by (auto simp: destroy_engine_def looped_def paired_def idle_jobs_def loop_sound_def exec_sound_def engine_settled_def idle_total_def
      idle_answered_def idle_waiting_def split: if_splits)

lemma timer_loop:
  assumes "looped e" "engine_settled e"
  shows "looped (on_timer e) \<and> idle_total (on_timer e) = idle_total e"
proof -
  have "looped (settle_done (Inl err) (destroy_engine (e \<lparr> en_closedError := c \<rparr>)))
      \<and> idle_total (settle_done (Inl err) (destroy_engine (e \<lparr> en_closedError := c \<rparr>))) = idle_total e" for err c
    using settle_done_loop[OF destroy_loop(1)[OF assms, of c], of "Inl err"] destroy_loop(3) by simp
  then show ?thesis using settle_all_loop assms(1) by (auto simp: on_timer_def Let_def split: option.split)
qed

lemma emit_loop: "same_loop e (emit v e)" by (cases "en_exec e") (simp_all add: same_loop_def emit_def)

lemma closed_loop:
  assumes "looped e" "engine_settled e"
  shows "looped (onClosed e) \<and> idle_total (onClosed e) = idle_total e"
proof -
  let ?e1 = "e \<lparr> en_state := IsIdle, en_selected := None, en_sock := NoSocket \<rparr>"
  have "looped (if en_current e = None then ?e1 else settle_done (Inl err) ?e1)
      \<and> idle_total (if en_current e = None then ?e1 else settle_done (Inl err) ?e1) = idle_total e" for err
    using settle_done_loop[OF sock_loop(1)[OF assms], of "Inl err"] sock_loop[where e = e] assms by simp
  then have "looped (emit IvClose (wake_idle (if en_current e = None then ?e1 else settle_done (Inl err) ?e1)))
      \<and> idle_total (emit IvClose (wake_idle (if en_current e = None then ?e1 else settle_done (Inl err) ?e1))) = idle_total e" for err
    using same_loop_keeps[OF same_loop_trans[OF wake_loop emit_loop]] by metis
  then show ?thesis using settle_all_loop assms(1) unfolding onClosed_def Let_def by simp
qed

lemma renewal_loop: "looped e \<Longrightarrow> looped (on_renewal e) \<and> idle_total (on_renewal e) = idle_total e"
proof -
  assume e: "looped e"
  have "same_loop e (e \<lparr> en_exec := map_option (\<lambda>x. if xe_kind x = KIdle then x \<lparr> xe_woken := True \<rparr> else x) (en_exec e) \<rparr>)"
    by (cases "en_exec e") (simp_all add: same_loop_def)
  from settle_all_loop[OF same_loop_keeps(2)[OF this e]] same_loop_keeps(1)[OF this] show ?thesis by (simp add: on_renewal_def)
qed

lemma stop_loop:
  assumes "looped e" "idle_ok e OpIdleStop"
  shows "looped (stop_idle e) \<and> idle_total (stop_idle e) = idle_total e"
proof -
  let ?e = "e \<lparr> en_idle := map_option (\<lambda>l. l \<lparr> id_stopped := True \<rparr>) (en_idle e) \<rparr>"
  have "looped ?e \<and> idle_total ?e = idle_total e" using loopedD[OF assms(1)] assms(2)
    by (cases "en_idle e") (auto simp: idle_ok_def looped_def paired_def idle_jobs_def loop_sound_def exec_sound_def idle_total_def
        idle_answered_def idle_waiting_def)
  then show ?thesis using settle_all_loop same_loop_keeps[OF wake_loop, of ?e] by (simp add: stop_idle_def)
qed

lemma deliver_idle_total: "looped (deliver_idle i d e) = looped e" "idle_total (deliver_idle i d e) = idle_total e + {#i#}"
  by (simp_all add: deliver_idle_def looped_def paired_def idle_jobs_def loop_sound_def exec_sound_def idle_total_def idle_answered_def idle_waiting_def)

lemma start_idle_loop:
  assumes "looped e" "linked e" "en_idle e = None" "en_sock e = SocketOpen"
  shows "looped (start_idle i e) \<and> idle_total (start_idle i e) = idle_total e + {#i#}"
proof -
  note d = loopedD[OF assms(1)]
  let ?e = "e \<lparr> en_idle := Some \<lparr> id_call = i, id_first = True, id_stopped = False \<rparr> \<rparr>"
  have k: "count_list (en_queue e) JIdle = 0" "\<not> idles (en_exec e)" using d(1) assms(3) by (simp_all add: idle_jobs_def split: if_splits)
  have t: "idle_total ?e = idle_total e + {#i#}" "loop_sound ?e"
    using assms(3) by (simp_all add: idle_total_def idle_answered_def idle_waiting_def loop_sound_def)
  have "looped (enqueue_job JIdle ?e) \<and> idle_total (enqueue_job JIdle ?e) = idle_total ?e"
  proof (cases "en_exec e")
    case None
    then show ?thesis using next_job_looped[of ?e "en_queue e @ [JIdle]"] k t(2) by (simp add: enqueue_job_def)
  next
    case (Some x)
    then show ?thesis using k d(3) t(2)
      by (auto simp: enqueue_job_def looped_def paired_def idle_jobs_def exec_sound_def)
  qed
  then show ?thesis using settle_all_loop t(1) assms(4) by (simp add: start_idle_def)
qed

lemma idle_step_loop:
  assumes "looped e" "linked e" "idle_ok e (OpIdle i)"
  shows "looped (idle i e) \<and> idle_total (idle i e) = idle_total e + {#i#}"
  using assms start_idle_loop[OF assms(1,2)] by (auto simp: idle_def deliver_idle_total idle_ok_def)

lemma deliver_loop: "same_loop e (deliver i r e)" "same_loop e (emit v (e \<lparr> en_closedError := c \<rparr>))"
  "en_sock e \<noteq> SocketOpen \<Longrightarrow> same_loop e (logout_done i e)"
  by (simp_all add: same_loop_def deliver_def emit_def logout_done_def destroy_engine_def option_rel_same)

lemma step_loop:
  assumes "looped e" "engine_inv False e" "idle_ok e op"
  shows "looped (engine_step e op)" "idle_total (engine_step e op) = idle_total e + idle_ids op"
proof -
  note i = engine_invD(2,4)[OF assms(2)]
  have "looped (engine_step e op) \<and> idle_total (engine_step e op) = idle_total e + idle_ids op"
  proof (cases op)
    case (OpOpen i n ro)
    then show ?thesis using call_loop[OF assms(1) \<open>linked e\<close>] same_loop_keeps[OF deliver_loop(1)] assms(1)
      by (simp add: openMailbox_def idle_ids_def)
  next
    case (OpClose i)
    then show ?thesis using call_loop[OF assms(1) \<open>linked e\<close>] same_loop_keeps[OF deliver_loop(3)] assms(1)
      by (simp add: close_client_def idle_ids_def)
  next
    case (OpLimit err)
    then show ?thesis using destroy_loop(1)[OF assms(1) i(2)] destroy_loop(3) assms(1)
      by (cases "en_sock e = SocketOpen") (simp_all only: engine_step.simps idle_ids_def engine_op.case if_True if_False empty_neutral simp_thms)
  next
    case (OpSocketError m)
    then show ?thesis using same_loop_keeps[OF deliver_loop(2)] assms(1) by (simp add: idle_ids_def Let_def)
  qed (use assms i in \<open>simp_all add: idle_ids_def call_loop idle_step_loop stop_loop renewal_loop data_loop timer_loop closed_loop destroy_loop\<close>)
  then show "looped (engine_step e op)" "idle_total (engine_step e op) = idle_total e + idle_ids op" by simp_all
qed

lemma run_loop: "looped e \<Longrightarrow> engine_inv False e \<Longrightarrow> legal_run engine_step idle_ok e ops \<Longrightarrow>
   looped (run engine_step e ops) \<and> idle_total (run engine_step e ops) = idle_total e + sum_list (map idle_ids ops)"
proof (induction ops arbitrary: e)
  case (Cons op ops)
  have "engine_inv False (engine_step e op)" using Cons.prems by (auto intro: engine_inv_step simp: engine_ok_def)
  then show ?case using Cons step_loop[OF Cons.prems(1,2)] by (simp add: add.assoc)
qed simp

lemma new_loop: "looped (new_engine timed caps st)" "idle_total (new_engine timed caps st) = {#}"
  by (simp_all add: new_engine_def looped_def paired_def idle_jobs_def loop_sound_def exec_sound_def idle_total_def idle_answered_def idle_waiting_def)

text \<open>A loop nothing is in flight for is over; one the server confirmed has answered its caller.\<close>

lemma no_loop_waits:
  assumes "looped e" "linked e"
  shows "en_exec e = None \<Longrightarrow> idle_waiting e = {#}" "en_exec e = Some x \<Longrightarrow> xe_entered x \<Longrightarrow> idle_waiting e = {#}"
  using loopedD[OF assms(1)] assms(2)
  by (auto simp: linked_def idle_jobs_def idle_waiting_def exec_sound_def split: option.splits if_splits)

end
