(* ===== verification/ImapEngineProps.thy ===== *)
theory ImapEngineProps
  imports ImapEngineIdle
begin

text \<open>
  What holds of every run of the command engine of the IMAP client: it speaks the protocol, it answers every call
  once, and no call waits without a timer.
\<close>

section \<open>Every call is accounted for\<close>

lemma wake_accounted: "accounted (wake_idle e) = accounted e" by (simp add: accounted_def wake_keeps)

lemma enqueue_wake_accounted: "linked e \<Longrightarrow> accounted (enqueue_job j (wake_idle e)) = accounted e + job_ids j"
proof -
  assume "linked e"
  then have "en_exec (wake_idle e) = None \<longrightarrow> en_queue (wake_idle e) = []" by (cases "en_exec e") (auto simp: linked_def wake_idle_def)
  then show ?thesis by (simp add: enqueue_accounted wake_accounted)
qed

lemma call_accounted: "linked e \<Longrightarrow> accounted (call_job j e) = accounted e + job_ids j"
  by (simp add: call_job_def settle_accounted enqueue_wake_accounted)

lemma fold_accounted: "accounted (fold handleResponse rs e) = accounted e"
  by (induction rs arbitrary: e) (simp_all add: handle_accounted)

text \<open>What the accounting looks at.\<close>

lemma accounted_same:
  "en_results e' = en_results e \<Longrightarrow> map_option xe_kind (en_exec e') = map_option xe_kind (en_exec e) \<Longrightarrow> en_queue e' = en_queue e \<Longrightarrow>
   accounted e' = accounted e"
  by (cases "en_exec e"; cases "en_exec e'") (auto simp: accounted_def answered_def exec_ids_def)

lemma timer_accounted: "accounted (on_timer e) = accounted e"
proof -
  have "accounted (settle_done d (destroy_engine (e \<lparr> en_closedError := c \<rparr>))) = accounted e" for d c
    by (rule accounted_same) (auto simp: settle_done_def destroy_engine_def option.map_comp o_def)
  then show ?thesis by (auto simp: on_timer_def Let_def settle_accounted split: option.split)
qed

lemma closed_accounted: "accounted (onClosed e) = accounted e"
proof -
  let ?e = "e \<lparr> en_state := IsIdle, en_selected := None, en_sock := NoSocket \<rparr>"
  have "accounted (settle_done d ?e) = accounted e" "accounted ?e = accounted e" for d
    by (rule accounted_same, auto simp: settle_done_def option.map_comp o_def)+
  moreover have "accounted (emit v e1) = accounted e1" for v e1 by (simp add: accounted_def)
  ultimately show ?thesis by (auto simp: onClosed_def Let_def settle_accounted wake_accounted)
qed

lemma renewal_accounted: "accounted (on_renewal e) = accounted e"
proof -
  have "accounted (e \<lparr> en_exec := map_option (\<lambda>x. if xe_kind x = KIdle then x \<lparr> xe_woken := True \<rparr> else x) (en_exec e) \<rparr>) = accounted e"
    by (rule accounted_same) (auto simp: option.map_comp o_def intro!: option.map_cong)
  then show ?thesis by (simp add: on_renewal_def settle_accounted)
qed

lemma idle_accounted: "linked e \<Longrightarrow> accounted (idle i e) = accounted e"
proof -
  assume l: "linked e"
  have "accounted (e \<lparr> en_idle := m \<rparr>) = accounted e" "accounted (deliver_idle i d e) = accounted e" for m d
    by (rule accounted_same; simp add: deliver_idle_def)+
  moreover have "en_exec e = None \<longrightarrow> en_queue e = []" using l by (auto simp: linked_def)
  ultimately show ?thesis by (simp add: idle_def start_idle_def settle_accounted enqueue_accounted job_ids_def)
qed

lemma stop_accounted: "accounted (stop_idle e) = accounted e"
  by (simp add: stop_idle_def settle_accounted wake_accounted) (rule accounted_same; simp)

lemma step_accounted: "linked e \<Longrightarrow> accounted (engine_step e op) = accounted e + op_ids op"
proof (cases op)
  case (OpOpen i n ro)
  moreover have "accounted (deliver i r e) = accounted e + {#i#}" for r by (simp add: accounted_def)
  moreover assume "linked e"
  ultimately show ?thesis by (simp add: openMailbox_def op_ids_def call_accounted job_ids_def)
next
  case (OpClose i)
  moreover have "accounted (logout_done i e) = accounted e + {#i#}" by (simp add: accounted_def)
  moreover assume "linked e"
  ultimately show ?thesis by (simp add: close_client_def op_ids_def call_accounted job_ids_def)
next
  case (OpLimit err)
  have "accounted (destroy_engine (e \<lparr> en_closedError := Some err \<rparr>)) = accounted e"
    by (rule accounted_same) (simp_all add: destroy_engine_def)
  then show ?thesis by (simp add: OpLimit op_ids_def)
next
  case (OpSocketError m)
  have "accounted (emit v (e \<lparr> en_closedError := c \<rparr>)) = accounted e" for v c by (rule accounted_same) (simp_all add: emit_def)
  then show ?thesis by (simp add: OpSocketError op_ids_def Let_def)
next
  case OpDestroy
  then show ?thesis by (simp add: op_ids_def accounted_def)
qed (simp_all add: op_ids_def call_accounted job_ids_def idle_accounted stop_accounted renewal_accounted timer_accounted closed_accounted
    on_data_def settle_accounted fold_accounted)

lemma run_accounted: "engine_inv False e \<Longrightarrow> accounted (run engine_step e ops) = accounted e + sum_list (map op_ids ops)"
proof (induction ops arbitrary: e)
  case (Cons op ops)
  have "engine_inv False (engine_step e op)" using Cons.prems by (auto intro: engine_inv_step simp: engine_ok_def)
  then show ?case using Cons step_accounted[OF engine_invD(2)[OF Cons.prems]] by simp
qed simp

lemma run_inv: "engine_inv False (run engine_step (new_engine timed caps st) ops)"
  by (rule engine.inv_run[OF new_engine_inv legal_untimed]) simp

lemma new_accounted: "accounted (run engine_step (new_engine timed caps st) ops) = sum_list (map op_ids ops)"
  by (simp add: run_accounted new_engine_inv) (simp add: new_engine_def accounted_def answered_def exec_ids_def)

lemma closed_settled:
  assumes "engine_inv T e" "en_sock e = NoSocket"
  shows "en_exec e = None"
proof (rule ccontr)
  assume "en_exec e \<noteq> None"
  then obtain x where x: "en_exec e = Some x" by blast
  then show False using engine_invD(5,6)[OF assms(1) x] assms(2) by (simp add: exec_ok_def)
qed

lemma at_rest: "engine_inv T e \<Longrightarrow> en_exec e = None \<Longrightarrow> accounted e = answered e"
  by (frule engine_invD(2)) (simp add: linked_def accounted_def exec_ids_def)

lemma queue_waits: "queue_ids q \<noteq> {#} \<Longrightarrow> \<exists>j\<in>set q. j \<noteq> JIdle"
  by (induction q) (auto simp: job_ids_def)

section \<open>Properties\<close>

text \<open>An IDLE, woken by a command with a literal; another command; the server refuses neither.\<close>

definition sample_reply :: "response_type \<Rightarrow> nat \<Rightarrow> string \<Rightarrow> imap_response" where
  "sample_reply t n d = \<lparr> ir_type = t, ir_tag = (if t = RTagged then Some (tag_text n) else None), ir_status = Some d, ir_data = d, ir_raw = d \<rparr>"

definition sample_ops :: "engine_op list" where
  "sample_ops = [OpIdle 9, OpCall 1 [PText ''CREATE'', PLiteral [104, 105]] True, OpData [sample_reply RContinuation 1 ''idling''],
     OpCall 2 [PText ''NOOP''] True, OpData [sample_reply RTagged 1 ''OK''], OpData [sample_reply RContinuation 2 ''go'', sample_reply RTagged 2 ''OK'']]"

text \<open>C33: Whatever the callers, the server, the timers and the network do, what the IMAP client writes is a sequence of commands that
  the protocol allows: a command begins with the next tag and only when the one before it was answered; a literal follows its announcement
  with the announced length, after the server asked for it, or unasked when the last capabilities the server announced before the command
  began have LITERAL+; DONE is written only for a command that is IDLE and that the server has continued, at most once, and before the next
  command (the client may write it after the server has ended the IDLE of itself).\<close>

theorem commands_follow_the_protocol: "wire_run no_wire (en_trace (run engine_step (new_engine timed caps st) ops)) \<noteq> None"
  using engine_invD(1)[OF run_inv[of timed caps st ops]] by (auto simp: wire_legal_def)

text \<open>C34: Every call made on the IMAP client (a command, select or examine, close) is answered once: at any moment the calls made so far are
  the answered ones, the one in flight and the ones in the queue, each once; when nothing is in flight, or the connection has closed, all of
  them are answered.  So is every call of idle(), when it is made while the socket is open and no other IDLE loop runs (or is refused at
  once) and the function that ends the loop is called only by the one it was returned to: at any moment the calls of idle() are the answered
  ones and the one that waits; none waits once the server has confirmed IDLE, when nothing is in flight, or when the connection has closed.\<close>

theorem every_call_is_answered_once:
  "let e0 = new_engine timed caps st; e = run engine_step e0 ops; calls = sum_list (map op_ids ops) in
     answered e + exec_ids e + queue_ids (en_queue e) = calls \<and> (en_exec e = None \<or> en_sock e = NoSocket \<longrightarrow> answered e = calls)
     \<and> (legal_run engine_step idle_ok e0 ops \<longrightarrow>
          idle_answered e + idle_waiting e = sum_list (map idle_ids ops)
          \<and> (en_exec e = None \<or> en_sock e = NoSocket \<or> (\<exists>x. en_exec e = Some x \<and> xe_entered x) \<longrightarrow> idle_waiting e = {#}))"
proof -
  let ?new = "new_engine timed caps st"
  let ?e = "run engine_step ?new ops"
  note inv = run_inv[of timed caps st ops]
  have rest: "accounted ?e = answered ?e" if "en_exec ?e = None \<or> en_sock ?e = NoSocket"
    using at_rest[OF inv] closed_settled[OF inv] that by auto
  have loop: "looped ?e" "idle_total ?e = sum_list (map idle_ids ops)" if "legal_run engine_step idle_ok ?new ops"
    using run_loop[OF new_loop(1) _ that] new_engine_inv[of False] new_loop(2) by simp_all
  have "idle_waiting ?e = {#}" if "legal_run engine_step idle_ok ?new ops"
      "en_exec ?e = None \<or> en_sock ?e = NoSocket \<or> (\<exists>x. en_exec ?e = Some x \<and> xe_entered x)"
    using that(2) no_loop_waits[OF loop(1)[OF that(1)] engine_invD(2)[OF inv]] closed_settled[OF inv] by auto
  with loop(2) show ?thesis using rest by (simp add: Let_def new_accounted idle_total_def flip: accounted_def)
qed

lemma commands_on_the_wire:
  "en_trace (run engine_step (new_engine True [] IsSelected) sample_ops) =
   [WCaps [], WLine 1 ''M0001 IDLE'', WContinue 1, WLine 1 ''DONE'', WTagged 1, WAnnounce 2 ''M0002 CREATE '' 2 False, WContinue 2, WTagged 2,
    WLiteral 2 [104, 105], WLine 2 [], WLine 3 ''M0003 NOOP'']"
  by code_simp

theorem every_call_is_answered_once_witness:
  "let e = run engine_step (new_engine True [] IsSelected) (sample_ops @ [OpSocketClose]) in answered e = {#1, 2#} \<and> idle_answered e = {#9#}"
proof -
  define ops where "ops = sample_ops @ [OpSocketClose]"
  let ?e = "run engine_step (new_engine True [] IsSelected) ops"
  have "en_sock ?e = NoSocket" "legal_run engine_step idle_ok (new_engine True [] IsSelected) ops" unfolding ops_def by code_simp+
  then have "answered ?e = sum_list (map op_ids ops)" "idle_answered ?e = sum_list (map idle_ids ops)"
    using every_call_is_answered_once[of True "[]" IsSelected ops] by (auto simp: Let_def)
  then show ?thesis by (simp add: ops_def sample_ops_def op_ids_def idle_ids_def)
qed

text \<open>C35: No call waits without a timer, when socketTimeout is not 0, every command is given a timeout and the IDLE renewal does not fire
  before the server confirmed IDLE: at any moment with a call (a command, select or examine, close) not yet answered, either the command in
  flight has its timer armed, or the socket has been destroyed (so that its close event will answer), or an IDLE is in flight that the server
  has not confirmed, which has no timer.\<close>

theorem waiting_calls_are_timed:
  assumes "legal_run engine_step (engine_ok True) (new_engine True caps st) ops" "answered (run engine_step (new_engine True caps st) ops) \<noteq> sum_list (map op_ids ops)"
  shows "let e = run engine_step (new_engine True caps st) ops in
    (\<exists>p. en_current e = Some p \<and> pe_armed p) \<or> en_sock e = SocketDestroyed
      \<or> (\<exists>x. en_exec e = Some x \<and> xe_kind x = KIdle \<and> \<not> xe_entered x)"
proof -
  let ?e = "run engine_step (new_engine True caps st) ops"
  have inv: "engine_inv True ?e" by (rule engine.inv_run[OF new_engine_inv assms(1)]) simp
  have acc: "accounted ?e \<noteq> answered ?e" using assms(2) by (simp add: new_accounted)
  then obtain x where x: "en_exec ?e = Some x" using at_rest[OF inv] by blast
  note d = engine_invD(5,6,8)[OF inv x]
  obtain p where p: "en_current ?e = Some p" using engine_invD(2)[OF inv] x d(2) by (auto simp: linked_def)
  have w: "watched ?e x" and sock: "en_sock ?e \<noteq> NoSocket" using d(1,2) by (auto simp: exec_ok_def)
  show ?thesis
  proof (cases "xe_kind x = KIdle \<and> xe_entered x")
    case True
    then have "queue_ids (en_queue ?e) \<noteq> {#}" using acc x by (simp add: accounted_def exec_ids_def kind_ids_def)
    then have "command_waits ?e" using queue_waits by (simp add: command_waits_def)
    then have "xe_passed x" using w True d(3) by (simp add: watched_def)
    then have "en_sock ?e = SocketOpen \<longrightarrow> pe_armed p" using w p by (simp add: watched_def)
    then show ?thesis using p sock by (cases "en_sock ?e") (auto simp: Let_def)
  next
    case False
    then have "xe_kind x \<noteq> KIdle \<longrightarrow> pe_armed p" using w p by (simp add: watched_def)
    then show ?thesis using False p x by (auto simp: Let_def)
  qed
qed

theorem waiting_calls_are_timed_witness:
  "let e = run engine_step (new_engine True [] IsSelected) (take 4 sample_ops) in (\<exists>p. en_current e = Some p \<and> pe_armed p)"
proof -
  let ?e = "run engine_step (new_engine True [] IsSelected) (take 4 sample_ops)"
  have "legal_run engine_step (engine_ok True) (new_engine True [] IsSelected) (take 4 sample_ops)" by code_simp
  moreover have "en_results ?e = []" "en_sock ?e = SocketOpen" "(case en_exec ?e of None \<Rightarrow> True | Some x \<Rightarrow> xe_entered x)" by code_simp+
  moreover have "sum_list (map op_ids (take 4 sample_ops)) \<noteq> {#}" by (simp add: sample_ops_def op_ids_def)
  ultimately show ?thesis
    using waiting_calls_are_timed[of "[]" IsSelected "take 4 sample_ops"] by (auto simp: Let_def answered_def)
qed

end
