(* ===== verification/ImapFetch.thy ===== *)
theory ImapFetch
  imports ImapReplies MimeTree
begin

text \<open>
  src/src/imap/ImapFetch.ts and src/src/imap/ImapBodyStructure.ts: the attributes of FETCH responses, the MIME
  structure with its section numbers, and the message view built from them.  Response text is a byte string (a
  character is a byte); what is decoded from it is a list of UTF-16 code units.  new Date(text) and the text
  decoders are parameters, as in MimeTree.
\<close>

section \<open>BODYSTRUCTURE\<close>

datatype body_node =
    BodyLeaf (bn_section: string) (bn_contentType: units) (bn_charset: "units option") (bn_encoding: units) (bn_size: nat)
      (bn_lines: "nat option") (bn_contentId: "units option") (bn_filename: "units option") (bn_disposition: "units option")
      (bn_body: "body_node option")
  | BodyMultipart (bn_section: string) (bn_contentType: units) (bn_boundary: units) (bn_parts: "body_node list")

text \<open>A name and value pair as a header parameter; pairs without a name or a value are skipped.\<close>

fun param_segments :: "imap_token list \<Rightarrow> string list" where
  "param_segments (k # v # ts) = (case (tokStr (Some k), tokStr (Some v)) of
     (Some n, Some x) \<Rightarrow> if n = [] then param_segments ts
        else (n @ ''='' @ [dquote] @ escape_quoted x @ [dquote]) # param_segments ts
   | _ \<Rightarrow> param_segments ts)"
| "param_segments _ = []"

definition paramsFromList :: "text_decoders \<Rightarrow> imap_token option \<Rightarrow> (units, units) jsmap" where
  "paramsFromList td t = (case tokList t of None \<Rightarrow> []
     | Some l \<Rightarrow> hv_params (parseHeaderValue td (Some (units_of (''x; '' @ js_join ''; '' (param_segments l))))))"

definition param :: "string \<Rightarrow> (units, units) jsmap \<Rightarrow> units option" where "param k m = map_of m (units_of k)"

definition nonempty :: "units option \<Rightarrow> units option" where "nonempty v = (case v of Some u \<Rightarrow> some_name u | None \<Rightarrow> None)"

definition is_list :: "imap_token \<Rightarrow> bool" where "is_list t = (case t of TList _ \<Rightarrow> True | _ \<Rightarrow> False)"

definition lower_or :: "imap_token option \<Rightarrow> string \<Rightarrow> units" where
  "lower_or t d = units_lower (units_of (or_default (tokStr t) d))"

text \<open>The first list that looks like a disposition.\<close>

fun findDisposition :: "text_decoders \<Rightarrow> imap_token list \<Rightarrow> (units \<times> (units, units) jsmap) option" where
  "findDisposition td [] = None"
| "findDisposition td (x # xs) = (case tokList (Some x) of None \<Rightarrow> findDisposition td xs
     | Some l \<Rightarrow> (case tokStr (nth_opt l 0) of None \<Rightarrow> findDisposition td xs
         | Some t \<Rightarrow> if t \<noteq> [] \<and> (isNil (nth_opt l 1) \<or> tokList (nth_opt l 1) \<noteq> None)
             then Some (units_lower (units_of t), paramsFromList td (nth_opt l 1)) else findDisposition td xs))"

definition message_type :: "imap_token list \<Rightarrow> bool" where
  "message_type f \<longleftrightarrow> lower_or (nth_opt f 0) ''application'' = units_of ''message''
     \<and> lower_or (nth_opt f 1) ''octet-stream'' \<in> {units_of ''rfc822'', units_of ''global''}"

text \<open>A part that is not a multipart; the structure of an enclosed message is given.\<close>

definition parseLeaf :: "text_decoders \<Rightarrow> imap_token list \<Rightarrow> string \<Rightarrow> body_node option \<Rightarrow> body_node" where
  "parseLeaf td f section body =
     (let type = lower_or (nth_opt f 0) ''application''; subtype = lower_or (nth_opt f 1) ''octet-stream'';
          params = paramsFromList td (nth_opt f 2);
          text = (type = units_of ''text'');
          dsp = findDisposition td (drop (if text then 8 else if body \<noteq> None then 10 else 7) f);
          filename = (case dsp of Some (t, ps) \<Rightarrow> (case param ''filename'' ps of Some n \<Rightarrow> Some n | None \<Rightarrow> param ''name'' params)
            | None \<Rightarrow> param ''name'' params)
      in BodyLeaf section (type @ [47] @ subtype) (nonempty (param ''charset'' params)) (lower_or (nth_opt f 5) ''7bit'')
           (or_default (tokNum (nth_opt f 6)) 0) (if text then tokNum (nth_opt f 7) else None)
           (nonempty (map_option (\<lambda>c. strip_angles (units_of c)) (tokStr (nth_opt f 3)))) (nonempty filename)
           (map_option fst dsp) body)"

definition section_of :: "string \<Rightarrow> nat \<Rightarrow> string" where
  "section_of pre i = (if pre = [] then show_nat i else pre @ ''.'' @ show_nat i)"

lemma size_list_nth: "nth_opt f i = Some (TList sub) \<Longrightarrow> size_list size sub < size_list size f"
proof -
  assume "nth_opt f i = Some (TList sub)"
  then have "TList sub \<in> set f" by (auto simp: nth_opt_def in_set_conv_nth split: if_splits)
  then have "size (TList sub) \<le> size_list size f" by (simp add: size_list_estimation')
  then show ?thesis by simp
qed

text \<open>The token's items; the first argument of multipart_parts is the rest of the list, with the number of the next part.\<close>

definition enclosed :: "imap_token list \<Rightarrow> imap_token list option" where
  "enclosed f = (if message_type f then tokList (nth_opt f 8) else None)"

lemma size_enclosed: "enclosed f = Some sub \<Longrightarrow> size_list size sub < size_list size f"
  by (auto simp: enclosed_def tokList_def split: if_splits option.splits imap_token.splits dest!: size_list_nth)

function bodyStructure :: "text_decoders \<Rightarrow> imap_token list \<Rightarrow> string \<Rightarrow> body_node"
  and multipart_parts :: "text_decoders \<Rightarrow> imap_token list \<Rightarrow> nat \<Rightarrow> string \<Rightarrow> body_node list" where
  "bodyStructure td f pre =
     (if f \<noteq> [] \<and> is_list (hd f) then
        (let rest = dropWhile is_list f in
         BodyMultipart pre (units_of ''multipart/'' @ lower_or (nth_opt rest 0) ''mixed'')
           (or_default (param ''boundary'' (paramsFromList td (nth_opt rest 1))) []) (multipart_parts td f 1 pre))
      else (let section = (if pre = [] then ''1'' else pre) in
         parseLeaf td f section (case enclosed f of Some sub \<Rightarrow> Some (bodyStructure td sub section) | None \<Rightarrow> None)))"
| "multipart_parts td ts i pre = (case ts of [] \<Rightarrow> []
     | t # r \<Rightarrow> (case tokList (Some t) of Some sub \<Rightarrow> bodyStructure td sub (section_of pre i) # multipart_parts td r (Suc i) pre | None \<Rightarrow> []))"
  by pat_completeness auto
termination
  by (relation "measure (\<lambda>x. case x of Inl (td, f, p) \<Rightarrow> 2 * size_list size f + 1 | Inr (td, f, i, p) \<Rightarrow> 2 * size_list size f)")
    (auto dest!: size_enclosed simp: tokList_def split: imap_token.splits)

declare bodyStructure.simps [simp del] multipart_parts.simps [simp del]

definition bodyStructureFromToken :: "text_decoders \<Rightarrow> imap_token \<Rightarrow> string \<Rightarrow> body_node" where
  "bodyStructureFromToken td t pre = bodyStructure td (or_default (tokList (Some t)) []) pre"

fun findBodyStructure :: "imap_token list \<Rightarrow> imap_token option" and find_in_token :: "imap_token \<Rightarrow> imap_token option" where
  "findBodyStructure [] = None"
| "findBodyStructure (t # ts) =
     (if map_option ascii_upper (tokStr (Some t)) \<in> {Some ''BODYSTRUCTURE'', Some ''BODY''} \<and> ts \<noteq> [] \<and> is_list (hd ts) then Some (hd ts)
      else (case find_in_token t of Some x \<Rightarrow> Some x | None \<Rightarrow> findBodyStructure ts))"
| "find_in_token (TList ts) = findBodyStructure ts"
| "find_in_token _ = None"

text \<open>None: no structure found, an error.\<close>

definition parseBodyStructure :: "text_decoders \<Rightarrow> string \<Rightarrow> body_node option" where
  "parseBodyStructure td raw = (let toks = tokenize raw in
     map_option (\<lambda>t. bodyStructureFromToken td t [])
       (case findBodyStructure toks of Some t \<Rightarrow> Some t | None \<Rightarrow> find is_list toks))"

section \<open>FETCH attributes\<close>

text \<open>An attribute that is there without a number is Some None (undefined).\<close>

record fetch_attributes =
  fa_seq :: nat
  fa_uid :: "nat option"
  fa_flags :: "string list option"
  fa_size :: "nat option option"
  fa_internalDate :: "int option option"
  fa_modSeq :: "nat option option"
  fa_envelope :: "imap_envelope option"
  fa_bodyStructure :: "body_node option"
  fa_sections :: "(string, bytes) jsmap"

text \<open>Spaces after an opening parenthesis and before a closing one.\<close>

fun tighten :: "string \<Rightarrow> string" where
  "tighten (a # b # r) =
     (if a = CHR ''('' \<and> b = sp then a # tighten r else if a = sp \<and> b = CHR '')'' then tighten (b # r) else a # tighten (b # r))"
| "tighten s = s"

definition normalizeSection :: "string \<Rightarrow> string" where
  "normalizeSection s = ascii_upper (tighten (js_join '' '' (js_words s)))"

definition sectionBytes :: "imap_token option \<Rightarrow> bytes" where
  "sectionBytes t = (if isNil t then [] else map of_char (or_default (tokStr t) []))"

definition envelopeAddressesFromTokens :: "text_decoders \<Rightarrow> imap_token option \<Rightarrow> mail_address list" where
  "envelopeAddressesFromTokens td t = List.map_filter (\<lambda>a. case tokList (Some a) of None \<Rightarrow> None
     | Some f \<Rightarrow> (case (tokStr (nth_opt f 2), tokStr (nth_opt f 3)) of
         (Some mailbox, Some host) \<Rightarrow> if isNil (nth_opt f 3) \<or> mailbox = [] \<or> host = [] then None
            else Some \<lparr> ma_email = decodeLatin1Utf8 (units_of mailbox) @ [64] @ decodeLatin1Utf8 (units_of host),
              ma_name = (case tokStr (nth_opt f 0) of None \<Rightarrow> None
                 | Some n \<Rightarrow> if n = [] then None else some_name (decodeRfc2047 td (units_of n))) \<rparr>
       | _ \<Rightarrow> None)) (or_default (tokList t) [])"

definition str_or_null :: "imap_token option \<Rightarrow> units option" where
  "str_or_null t = (if isNil t then None else map_option units_of (tokStr t))"

definition envelopeFromToken :: "text_decoders \<Rightarrow> (units \<Rightarrow> int option) \<Rightarrow> imap_token option \<Rightarrow> imap_envelope" where
  "envelopeFromToken td pd t = (let f = or_default (tokList t) []; get = nth_opt f in
     \<lparr> env_date = (case nonempty (str_or_null (get 0)) of Some d \<Rightarrow> pd d | None \<Rightarrow> None),
       env_subject = (case nonempty (str_or_null (get 1)) of Some s \<Rightarrow> decodeRfc2047 td s | None \<Rightarrow> []),
       env_from = envelopeAddressesFromTokens td (get 2), env_sender = envelopeAddressesFromTokens td (get 3),
       env_replyTo = envelopeAddressesFromTokens td (get 4), env_to = envelopeAddressesFromTokens td (get 5),
       env_cc = envelopeAddressesFromTokens td (get 6), env_bcc = envelopeAddressesFromTokens td (get 7),
       env_inReplyTo = map_option decodeLatin1Utf8 (nonempty (str_or_null (get 8))),
       env_messageId = map_option decodeLatin1Utf8 (nonempty (str_or_null (get 9))),
       env_references = [] \<rparr>)"

text \<open>BODY[section], BINARY.PEEK[section], with an origin at the end: the section.\<close>

definition origin_ok :: "string \<Rightarrow> bool" where
  "origin_ok r \<longleftrightarrow> r = [] \<or> (length r \<ge> 3 \<and> hd r = CHR ''<'' \<and> last r = CHR ''>'' \<and> list_all is_digit (butlast (tl r)))"

definition section_key :: "string \<Rightarrow> string option" where
  "section_key key =
     (let u = ascii_upper key;
          n = (if take 4 u = ''BODY'' then 4 else if take 6 u = ''BINARY'' then 6 else 0);
          m = (if take 5 (drop n u) = ''.PEEK'' then n + 5 else n);
          r = drop m key
      in if n = 0 \<or> r = [] \<or> hd r \<noteq> CHR ''['' then None
         else (let back = rev (tl r); origin = rev (takeWhile (\<lambda>c. c \<noteq> CHR '']'') back); left = dropWhile (\<lambda>c. c \<noteq> CHR '']'') back in
           if left = [] \<or> \<not> origin_ok origin then None else Some (rev (tl left))))"

definition fetch_item :: "text_decoders \<Rightarrow> (units \<Rightarrow> int option) \<Rightarrow> string \<Rightarrow> imap_token \<Rightarrow> fetch_attributes \<Rightarrow> fetch_attributes" where
  "fetch_item td pd key v a = (let k = ascii_upper key; set = (\<lambda>s. a \<lparr> fa_sections := AList.update s (sectionBytes (Some v)) (fa_sections a) \<rparr>) in
     if k = ''UID'' then a \<lparr> fa_uid := tokNum (Some v) \<rparr>
     else if k = ''FLAGS'' then a \<lparr> fa_flags := Some (string_items (Some v)) \<rparr>
     else if k = ''RFC822.SIZE'' then a \<lparr> fa_size := Some (tokNum (Some v)) \<rparr>
     else if k = ''INTERNALDATE'' then a \<lparr> fa_internalDate :=
       Some (case nonempty (map_option units_of (tokStr (Some v))) of Some d \<Rightarrow> pd d | None \<Rightarrow> None) \<rparr>
     else if k = ''MODSEQ'' then a \<lparr> fa_modSeq := Some (tokNum (case tokList (Some v) of Some l \<Rightarrow> nth_opt l 0 | None \<Rightarrow> None)) \<rparr>
     else if k = ''ENVELOPE'' then a \<lparr> fa_envelope := Some (envelopeFromToken td pd (Some v)) \<rparr>
     else if k = ''BODYSTRUCTURE'' \<or> (k = ''BODY'' \<and> is_list v) then a \<lparr> fa_bodyStructure := Some (bodyStructureFromToken td v []) \<rparr>
     else if k = ''RFC822'' then set []
     else if k = ''RFC822.HEADER'' then set ''HEADER''
     else if k = ''RFC822.TEXT'' then set ''TEXT''
     else (case section_key key of Some s \<Rightarrow> set (normalizeSection s) | None \<Rightarrow> a))"

fun fetch_items :: "text_decoders \<Rightarrow> (units \<Rightarrow> int option) \<Rightarrow> imap_token list \<Rightarrow> fetch_attributes \<Rightarrow> fetch_attributes" where
  "fetch_items td pd (k # v # ts) a = fetch_items td pd ts
     (case tokStr (Some k) of None \<Rightarrow> a | Some key \<Rightarrow> if key = [] then a else fetch_item td pd key v a)"
| "fetch_items td pd _ a = a"

definition no_attributes :: "nat \<Rightarrow> fetch_attributes" where
  "no_attributes n = \<lparr> fa_seq = n, fa_uid = None, fa_flags = None, fa_size = None, fa_internalDate = None, fa_modSeq = None,
     fa_envelope = None, fa_bodyStructure = None, fa_sections = [] \<rparr>"

definition parseFetchAttributes :: "text_decoders \<Rightarrow> (units \<Rightarrow> int option) \<Rightarrow> string \<Rightarrow> fetch_attributes option" where
  "parseFetchAttributes td pd d = (case num_ws d of None \<Rightarrow> None
     | Some (n, t) \<Rightarrow> if \<not> keyword_ws ''FETCH'' t then None
         else Some (fetch_items td pd (or_default (tokList (nth_opt (tokenize (js_ltrim (drop 5 t))) 0)) []) (no_attributes n)))"

section \<open>The message view\<close>

record imap_message =
  im_uid :: nat
  im_seq :: nat
  im_flags :: "string list"
  im_envelope :: imap_envelope
  im_body :: "parsed_body option"
  im_structure :: "body_node option"
  im_size :: nat
  im_internalDate :: "int option"
  im_modSeq :: "nat option"

definition no_envelope :: imap_envelope where
  "no_envelope = \<lparr> env_date = None, env_subject = [], env_from = [], env_sender = [], env_replyTo = [], env_to = [], env_cc = [], env_bcc = [],
     env_inReplyTo = None, env_messageId = None, env_references = [] \<rparr>"

text \<open>The envelope: what the server sent, with the references of the full message or of fetched headers.\<close>

definition headers_envelope :: "text_decoders \<Rightarrow> (units \<Rightarrow> int option) \<Rightarrow> string \<times> bytes \<Rightarrow> imap_envelope option \<Rightarrow> imap_envelope option" where
  "headers_envelope td pd s env = (case s of (key, buf) \<Rightarrow>
     if take 6 key \<noteq> ''HEADER'' then env
     else (let h = MimeHeaders buf; e = (case env of Some e \<Rightarrow> e | None \<Rightarrow> envelopeFromHeaders td pd h)
       in Some (if header_has h ''references'' then e \<lparr> env_references := parseMessageIds (header_raw h ''references'') \<rparr> else e)))"

definition full_message :: "text_decoders \<Rightarrow> (units \<Rightarrow> int option) \<Rightarrow> fetch_attributes \<Rightarrow> parsed_message option" where
  "full_message td pd a = map_option (parseMessage td pd default_mime_limits) (map_of (fa_sections a) [])"

definition attributes_envelope :: "text_decoders \<Rightarrow> (units \<Rightarrow> int option) \<Rightarrow> fetch_attributes \<Rightarrow> imap_envelope option" where
  "attributes_envelope td pd a =
     fold (headers_envelope td pd) (fa_sections a)
       (case full_message td pd a of None \<Rightarrow> fa_envelope a
        | Some m \<Rightarrow> (case fa_envelope a of None \<Rightarrow> Some (pm_envelope m) | Some e \<Rightarrow> Some (e \<lparr> env_references := pm_references m \<rparr>)))"

text \<open>messageFromAttributes, then buildFullMessage.\<close>

definition buildFullMessage :: "text_decoders \<Rightarrow> (units \<Rightarrow> int option) \<Rightarrow> fetch_attributes \<Rightarrow> imap_message" where
  "buildFullMessage td pd a =
     \<lparr> im_uid = or_default (fa_uid a) 0, im_seq = fa_seq a, im_flags = or_default (fa_flags a) [],
       im_envelope = or_default (attributes_envelope td pd a) no_envelope,
       im_body = map_option pm_body (full_message td pd a), im_structure = fa_bodyStructure a,
       im_size = or_default (or_default (fa_size a) None) 0, im_internalDate = or_default (fa_internalDate a) None, im_modSeq = or_default (fa_modSeq a) None \<rparr>"

definition fetch_line :: "string \<Rightarrow> bool" where
  "fetch_line d = (case num_ws d of Some (n, t) \<Rightarrow> keyword_ws ''FETCH'' t | None \<Rightarrow> False)"

text \<open>The section of a response: None when it is not there.\<close>

definition parseSectionResponse :: "text_decoders \<Rightarrow> (units \<Rightarrow> int option) \<Rightarrow> string \<Rightarrow> string \<Rightarrow> bytes option" where
  "parseSectionResponse td pd d section =
     (case parseFetchAttributes td pd (if fetch_line d then d else ''0 FETCH '' @ d) of None \<Rightarrow> None
      | Some a \<Rightarrow> map_of (fa_sections a) (normalizeSection section))"

section \<open>Several responses\<close>

definition or_else :: "'a option \<Rightarrow> 'a option \<Rightarrow> 'a option" where "or_else x y = (case x of None \<Rightarrow> y | Some v \<Rightarrow> Some v)"

text \<open>Object.assign of the later attributes, with the sections of both.\<close>

definition merge_attributes :: "fetch_attributes \<Rightarrow> fetch_attributes \<Rightarrow> fetch_attributes" where
  "merge_attributes prev a =
     \<lparr> fa_seq = fa_seq a, fa_uid = fa_uid a, fa_flags = or_else (fa_flags a) (fa_flags prev),
       fa_size = or_else (fa_size a) (fa_size prev), fa_internalDate = or_else (fa_internalDate a) (fa_internalDate prev),
       fa_modSeq = or_else (fa_modSeq a) (fa_modSeq prev), fa_envelope = or_else (fa_envelope a) (fa_envelope prev),
       fa_bodyStructure = or_else (fa_bodyStructure a) (fa_bodyStructure prev),
       fa_sections = fold (\<lambda>(k, v). AList.update k v) (fa_sections a) (fa_sections prev) \<rparr>"

fun merge_one :: "fetch_attributes \<Rightarrow> fetch_attributes list \<Rightarrow> fetch_attributes list" where
  "merge_one a [] = [a]"
| "merge_one a (p # ps) = (if fa_uid a \<noteq> None \<and> fa_uid p = fa_uid a then merge_attributes p a # ps else p # merge_one a ps)"

definition mergeByUid :: "fetch_attributes list \<Rightarrow> fetch_attributes list" where "mergeByUid as = fold merge_one as []"

text \<open>Requested sections of one message: those the server sent.\<close>

definition requested_sections :: "string list \<Rightarrow> fetch_attributes \<Rightarrow> (string, bytes) jsmap" where
  "requested_sections ss a = fold (\<lambda>s m. case map_of (fa_sections a) (normalizeSection s) of Some b \<Rightarrow> AList.update s b m | None \<Rightarrow> m) ss []"

text \<open>The attributes with a uid among the untagged responses of the commands of one fetch, merged.\<close>

definition fetched :: "text_decoders \<Rightarrow> (units \<Rightarrow> int option) \<Rightarrow> imap_response list \<Rightarrow> fetch_attributes list" where
  "fetched td pd rs = mergeByUid (filter (\<lambda>a. fa_uid a \<noteq> None) (List.map_filter (\<lambda>r. parseFetchAttributes td pd (ir_data r)) rs))"

end
