(* ===== verification/ImapFetchProps.thy ===== *)
theory ImapFetchProps
  imports ImapFetch
begin

text \<open>
  The section numbers of a body structure against the numbering of RFC 3501, and the way of fetched bytes from the
  connection to the caller.
\<close>

section \<open>Section numbers\<close>

text \<open>The sections of a structure, in order; an enclosed message comes after its part.\<close>

fun leaf_sections :: "body_node \<Rightarrow> string list" where
  "leaf_sections (BodyLeaf s ct cs enc n l cid fn d b) = s # (case b of None \<Rightarrow> [] | Some m \<Rightarrow> leaf_sections m)"
| "leaf_sections (BodyMultipart s ct bd ps) = concat (map leaf_sections ps)"

text \<open>RFC 3501, 6.4.5: the parts of a multipart are numbered from 1, below the number of the multipart; a message that is
  not a multipart has the one part 1; the parts of an enclosed message are below the number of its part.\<close>

definition multipart_node :: "body_node \<Rightarrow> bool" where "multipart_node b = (case b of BodyMultipart _ _ _ _ \<Rightarrow> True | _ \<Rightarrow> False)"

definition leaf_path :: "nat list \<Rightarrow> nat list" where "leaf_path p = (if p = [] then [1] else p)"

fun node_paths :: "body_node \<Rightarrow> nat list \<Rightarrow> nat list list" and parts_paths :: "body_node list \<Rightarrow> nat \<Rightarrow> nat list \<Rightarrow> nat list list" where
  "node_paths (BodyLeaf s ct cs enc n l cid fn d b) p =
     leaf_path p # (case b of None \<Rightarrow> [] | Some m \<Rightarrow> node_paths m (if multipart_node m then leaf_path p else leaf_path p @ [1]))"
| "node_paths (BodyMultipart s ct bd ps) p = parts_paths ps 1 p"
| "parts_paths [] i p = []"
| "parts_paths (n # ns) i p = node_paths n (p @ [i]) @ parts_paths ns (Suc i) p"

definition dotted :: "nat list \<Rightarrow> string" where "dotted p = js_join ''.'' (map show_nat p)"

text \<open>Every enclosed message is a multipart.\<close>

fun encloses_multiparts :: "body_node \<Rightarrow> bool" where
  "encloses_multiparts (BodyLeaf s ct cs enc n l cid fn d b) = (case b of None \<Rightarrow> True | Some m \<Rightarrow> multipart_node m \<and> encloses_multiparts m)"
| "encloses_multiparts (BodyMultipart s ct bd ps) = list_all encloses_multiparts ps"

lemma join_snoc: "xs \<noteq> [] \<Longrightarrow> js_join d (xs @ [x]) = js_join d xs @ d @ x"
  by (induction xs rule: induct_list012) simp_all

lemma join_empty: "list_all (\<lambda>x. x \<noteq> []) xs \<Longrightarrow> js_join d xs = [] \<longleftrightarrow> xs = []"
  by (induction xs rule: induct_list012) auto

lemma dotted_empty: "dotted p = [] \<longleftrightarrow> p = []"
  using join_empty[of "map show_nat p"] by (simp add: dotted_def list_all_iff show_nat_nonempty)

lemma dotted_snoc: "dotted (p @ [i]) = section_of (dotted p) i"
  by (cases "p = []") (simp_all add: section_of_def dotted_empty, simp_all add: dotted_def join_snoc)

lemma js_split_join: "list_all (\<lambda>x. d \<notin> set x) xs \<Longrightarrow> xs \<noteq> [] \<Longrightarrow> js_split d (js_join [d] xs) = xs"
proof (induction xs rule: rev_induct)
  case (snoc x xs)
  then show ?case by (cases "xs = []") (simp_all add: join_snoc split_append split_no_sep)
qed simp

lemma dotted_inj: "dotted p = dotted q \<longleftrightarrow> p = q"
proof
  have no: "list_all (\<lambda>x. CHR ''.'' \<notin> set x) (map show_nat p)" for p
    using show_nat_digits by (fastforce simp: list_all_iff is_digit_def)
  have inv: "p = map read_digits (js_split (CHR ''.'') (dotted p))" if "p \<noteq> []" for p
    using js_split_join[OF no, of p] that by (simp add: dotted_def read_show_nat o_def)
  assume "dotted p = dotted q"
  then show "p = q" using inv dotted_empty by metis
qed simp

lemma leaf_of [simp]: "leaf_sections (parseLeaf td f s b) = s # (case b of None \<Rightarrow> [] | Some m \<Rightarrow> leaf_sections m)"
  "node_paths (parseLeaf td f s b) p =
     leaf_path p # (case b of None \<Rightarrow> [] | Some m \<Rightarrow> node_paths m (if multipart_node m then leaf_path p else leaf_path p @ [1]))"
  "encloses_multiparts (parseLeaf td f s b) = (case b of None \<Rightarrow> True | Some m \<Rightarrow> multipart_node m \<and> encloses_multiparts m)"
  by (simp_all add: parseLeaf_def Let_def)

lemma show_one: "show_nat 1 = ''1''" by code_simp

lemma leaf_path_dotted: "dotted (leaf_path p) = (if dotted p = [] then ''1'' else dotted p)"
  using show_one by (simp add: leaf_path_def dotted_empty) (simp add: dotted_def)

lemma leaf_path_snoc [simp]: "leaf_path (p @ [i]) = p @ [i]" by (simp add: leaf_path_def)

lemma structure_multi: "f \<noteq> [] \<and> is_list (hd f) \<Longrightarrow> \<exists>ct bd. bodyStructure td f pre = BodyMultipart pre ct bd (multipart_parts td f 1 pre)"
  by (simp add: bodyStructure.simps[of td f] Let_def)

lemma structure_leaf: "\<not> (f \<noteq> [] \<and> is_list (hd f)) \<Longrightarrow> bodyStructure td f pre = parseLeaf td f (if pre = [] then ''1'' else pre)
    (case enclosed f of Some sub \<Rightarrow> Some (bodyStructure td sub (if pre = [] then ''1'' else pre)) | None \<Rightarrow> None)"
  by (subst bodyStructure.simps) (simp only: if_False Let_def)

lemma structure_sections:
  "dotted p = pre \<Longrightarrow> encloses_multiparts (bodyStructure td f pre) \<Longrightarrow>
     leaf_sections (bodyStructure td f pre) = map dotted (node_paths (bodyStructure td f pre) p)"
  "dotted p = pre \<Longrightarrow> list_all encloses_multiparts (multipart_parts td ts i pre) \<Longrightarrow>
     concat (map leaf_sections (multipart_parts td ts i pre)) = map dotted (parts_paths (multipart_parts td ts i pre) i p)"
proof (induction td f pre and td ts i pre arbitrary: p and p rule: bodyStructure_multipart_parts.induct)
  case (1 td f pre)
  show ?case
  proof (cases "f \<noteq> [] \<and> is_list (hd f)")
    case True
    obtain ct bd where m: "bodyStructure td f pre = BodyMultipart pre ct bd (multipart_parts td f 1 pre)" using structure_multi[OF True] by blast
    show ?thesis using "1.IH"(1)[OF True refl "1.prems"(1)] "1.prems"(2) by (simp add: m)
  next
    case False
    show ?thesis
    proof (cases "enclosed f")
      case None
      then show ?thesis using "1.prems" by (simp add: structure_leaf[OF False] leaf_path_dotted)
    next
      case (Some sub)
      then show ?thesis using "1.IH"(2)[OF False refl Some, of "leaf_path p"] "1.prems"
        by (simp add: structure_leaf[OF False] leaf_path_dotted)
    qed
  qed
next
  case (2 td ts i pre)
  then show ?case
    by (cases ts; cases "tokList (Some (hd ts))") (simp_all add: multipart_parts.simps[of td "[]"] multipart_parts.simps[of td "_ # _"] dotted_snoc)
qed

lemma paths_extend:
  "q \<in> set (node_paths b p) \<Longrightarrow> \<exists>r. q = p @ r"
  "q \<in> set (parts_paths ns i p) \<Longrightarrow> \<exists>j r. i \<le> j \<and> q = p @ j # r"
proof (induction b p and ns i p rule: node_paths_parts_paths.induct)
  case (1 s ct cs enc n l cid fn d b p)
  then show ?case by (cases b) (auto simp: leaf_path_def split: if_splits)
next
  case (4 n ns i p)
  from 4(3) consider "q \<in> set (node_paths n (p @ [i]))" | "q \<in> set (parts_paths ns (Suc i) p)" by auto
  then show ?case
  proof cases
    case 1
    then show ?thesis using "4.IH"(1) by fastforce
  next
    case 2
    then obtain j r where "Suc i \<le> j" "q = p @ j # r" using "4.IH"(2) by blast
    then show ?thesis by (intro exI[of _ j] exI[of _ r]) simp
  qed
qed auto

lemma paths_distinct: "distinct (node_paths b p)" "distinct (parts_paths ns i p)"
proof (induction b p and ns i p rule: node_paths_parts_paths.induct)
  case (1 s ct cs enc n l cid fn d b p)
  show ?case
  proof (cases b)
    case (Some m)
    have "leaf_path p \<notin> set (node_paths m (if multipart_node m then leaf_path p else leaf_path p @ [1]))"
      by (cases "leaf_path p = []"; cases "multipart_node m"; cases m)
        (auto simp: multipart_node_def leaf_path_def dest!: paths_extend split: if_splits)
    then show ?thesis using 1 Some by simp
  qed simp
next
  case (4 n ns i p)
  have "set (node_paths n (p @ [i])) \<inter> set (parts_paths ns (Suc i) p) = {}" by (fastforce dest: paths_extend)
  then show ?case using 4 by simp
qed simp_all

text \<open>C37: The sections the client gives to the parts of a message are the section numbers of RFC 3501, in order, and no two parts have
  the same, as long as every enclosed message is a multipart: whatever structure the server reports, to any depth of multiparts and
  enclosed messages.\<close>

theorem sections_are_rfc3501:
  assumes "encloses_multiparts (bodyStructureFromToken td t [])"
  shows "leaf_sections (bodyStructureFromToken td t []) = map dotted (node_paths (bodyStructureFromToken td t []) [])
    \<and> distinct (leaf_sections (bodyStructureFromToken td t []))"
proof -
  have "leaf_sections (bodyStructureFromToken td t []) = map dotted (node_paths (bodyStructureFromToken td t []) [])"
    using structure_sections(1)[of "[]" "[]"] assms by (simp add: bodyStructureFromToken_def dotted_def)
  then show ?thesis using paths_distinct(1) dotted_inj by (auto simp: distinct_map intro: inj_onI)
qed

definition demo_structure :: imap_token where
  "demo_structure = TList [TList [TAtom ''TEXT'', TAtom ''PLAIN'', TNil, TNil, TNil, TAtom ''7BIT'', TAtom ''5'', TAtom ''1''],
     TList [TAtom ''MESSAGE'', TAtom ''RFC822'', TNil, TNil, TNil, TAtom ''7BIT'', TAtom ''9'', TNil,
       TList [TList [TAtom ''TEXT'', TAtom ''HTML'', TNil, TNil, TNil, TAtom ''7BIT'', TAtom ''3'', TAtom ''1''], TAtom ''MIXED''], TAtom ''4''],
     TAtom ''MIXED'']"

theorem sections_are_rfc3501_witness:
  "leaf_sections (bodyStructureFromToken (\<lambda>_. None) demo_structure []) = [''1'', ''2'', ''2.1'']"
proof -
  have "encloses_multiparts (bodyStructureFromToken (\<lambda>_. None) demo_structure [])" by code_simp
  moreover have "map dotted (node_paths (bodyStructureFromToken (\<lambda>_. None) demo_structure []) []) = [''1'', ''2'', ''2.1'']" by code_simp
  ultimately show ?thesis using sections_are_rfc3501[of "\<lambda>_. None" demo_structure] by simp
qed

section \<open>From the connection to the caller\<close>

text \<open>What a server answers to UID FETCH of some sections: the attributes as tokens, and as lines with literals.\<close>

definition fetch_tokens :: "nat \<Rightarrow> (string \<times> string) list \<Rightarrow> imap_token list" where
  "fetch_tokens u xs = TAtom ''UID'' # TAtom (show_nat u) # concat (map (\<lambda>(s, b). [TAtom (''BODY['' @ s @ '']''), TString b True]) xs)"

fun body_segments :: "string \<Rightarrow> (string \<times> string) list \<Rightarrow> (string \<times> string) list" where
  "body_segments h [] = []"
| "body_segments h ((s, b) # xs) = (h @ '' BODY['' @ s @ ''] '', b) # body_segments [] xs"

definition fetch_response :: "nat \<Rightarrow> nat \<Rightarrow> (string \<times> string) list \<Rightarrow> (string \<times> string) list \<times> string" where
  "fetch_response n u xs = (body_segments (''* '' @ show_nat n @ '' FETCH (UID '' @ show_nat u) xs, '')'')"

definition plain_section :: "string \<Rightarrow> bool" where "plain_section s \<longleftrightarrow> list_all (\<lambda>c. c \<noteq> CHR ''['' \<and> c \<noteq> CHR '']'') s"

lemma js_join_cons: "xs \<noteq> [] \<Longrightarrow> js_join d (x # xs) = x @ d @ js_join d xs" by (cases xs) simp_all

lemma segments_text:
  "xs \<noteq> [] \<Longrightarrow> concat (map wire_segment (body_segments h xs)) =
     h @ '' '' @ js_join '' '' (map show_token (concat (map (\<lambda>(s, b). [TAtom (''BODY['' @ s @ '']''), TString b True]) xs)))"
proof (induction xs arbitrary: h)
  case (Cons x xs)
  obtain s b where x: "x = (s, b)" by fastforce
  show ?case
  proof (cases "xs = []")
    case False
    then have "concat (map (\<lambda>(s, b). [TAtom (''BODY['' @ s @ '']''), TString b True]) xs) \<noteq> []" by (cases xs) auto
    then show ?thesis using Cons.IH[OF False, of "[]"] by (simp add: x wire_segment_def js_join_cons)
  qed (simp add: x wire_segment_def)
qed simp

lemma fetch_text:
  assumes "xs \<noteq> []"
  shows "response_text (fetch_response n u xs) = ''* '' @ show_nat n @ '' FETCH '' @ show_token (TList (fetch_tokens u xs))"
proof -
  have "concat (map (\<lambda>(s, b). [TAtom (''BODY['' @ s @ '']''), TString b True]) xs) \<noteq> []" using assms by (cases xs) auto
  then show ?thesis by (simp add: response_text_def fetch_response_def segments_text[OF assms] fetch_tokens_def js_join_cons)
qed

lemma atom_closed_plain: "plain_section s \<Longrightarrow> atom_closed (Suc d) (s @ CHR '']'' # r) = atom_closed d r"
  by (induction s) (auto simp: plain_section_def)

lemma section_key_body: "plain_section s \<Longrightarrow> section_key (''BODY['' @ s @ '']'') = Some s"
proof -
  have "ascii_upper (''BODY['' @ s @ '']'') = ''BODY['' @ ascii_upper s @ '']''" by (simp add: ascii_upper_def char_upper_def)
  then show ?thesis by (simp add: section_key_def Let_def origin_ok_def)
qed

lemma section_not_key: "ascii_upper (''BODY['' @ s @ '']'') \<notin> {''UID'', ''FLAGS'', ''RFC822.SIZE'', ''INTERNALDATE'', ''MODSEQ'', ''ENVELOPE'',
    ''BODYSTRUCTURE'', ''BODY'', ''RFC822'', ''RFC822.HEADER'', ''RFC822.TEXT''}"
  by (simp add: ascii_upper_def char_upper_def)

lemma fetch_item_body: "plain_section s \<Longrightarrow>
   fetch_item td pd (''BODY['' @ s @ '']'') (TString b True) a = a \<lparr> fa_sections := AList.update (normalizeSection s) (map of_char b) (fa_sections a) \<rparr>"
  using section_not_key[of s] section_key_body[of s]
  by (simp add: fetch_item_def Let_def sectionBytes_def isNil_def tokStr_def or_default_def)

lemma fetch_items_body:
  "list_all plain_section (map fst xs) \<Longrightarrow>
   fetch_items td pd (concat (map (\<lambda>(s, b). [TAtom (''BODY['' @ s @ '']''), TString b True]) xs)) a =
     a \<lparr> fa_sections := fold (\<lambda>(s, b). AList.update (normalizeSection s) (map of_char b)) xs (fa_sections a) \<rparr>"
proof (induction xs arbitrary: a)
  case (Cons x xs)
  obtain s b where x: "x = (s, b)" by fastforce
  show ?case using Cons by (simp add: x tokStr_def fetch_item_body[simplified])
qed simp

lemma update_append: "k \<notin> fst ` set m \<Longrightarrow> AList.update k v m = m @ [(k, v)]"
  by (induction m) auto

lemma fold_update_fresh:
  "distinct (map f xs) \<Longrightarrow> fst ` set m \<inter> f ` set xs = {} \<Longrightarrow> fold (\<lambda>x. AList.update (f x) (g x)) xs m = m @ map (\<lambda>x. (f x, g x)) xs"
proof (induction xs arbitrary: m)
  case (Cons x xs)
  then show ?case by (auto simp: update_append)
qed simp

lemma takeWhile_digits: "list_all is_digit ds \<Longrightarrow> r = [] \<or> \<not> is_digit (hd r) \<Longrightarrow> takeWhile is_digit (ds @ r) = ds"
  by (induction ds) (cases r, auto)+

lemma num_ws_show: "num_ws (show_nat n @ '' FETCH '' @ w) = Some (n, ''FETCH '' @ w)"
proof -
  have "takeWhile is_digit (show_nat n @ '' FETCH '' @ w) = show_nat n"
    using takeWhile_digits[OF show_nat_digits, of "'' FETCH '' @ w"] by (simp add: is_digit_def)
  then show ?thesis by (simp add: num_ws_def Let_def show_nat_nonempty read_show_nat js_ltrim_def js_ws_def)
qed

lemma tokens_ok:
  assumes "list_all plain_section (map fst xs)" "list_all (\<lambda>b. length (show_nat (length b)) \<le> 28) (map snd xs)"
  shows "token_ok (TList (fetch_tokens u xs))"
proof -
  have a: "atom_ok (''BODY['' @ s @ '']'')" if "plain_section s" for s
    using atom_closed_plain[OF that, of 0 "[]"] by (simp add: atom_ok_def atom_end_def ascii_upper_def char_upper_def sp_def cr_def lf_def dquote_def)
  have d: "atom_ok (show_nat u)"
  proof -
    have "atom_closed 0 ds" if "list_all is_digit ds" for ds
      using that by (induction ds) (auto simp: is_digit_def atom_end_def sp_def cr_def lf_def)
    moreover have "is_digit (hd (show_nat u))" using show_nat_digits[of u] show_nat_nonempty[of u] by (cases "show_nat u") auto
    moreover have "ascii_upper (show_nat u) \<noteq> ''NIL''"
    proof
      assume n: "ascii_upper (show_nat u) = ''NIL''"
      then obtain c r where c: "show_nat u = c # r" "char_upper c = CHR ''N''" by (cases "show_nat u") (auto simp: ascii_upper_def)
      then show False using \<open>is_digit (hd (show_nat u))\<close> by (auto simp: is_digit_def char_upper_def Let_def split: if_splits)
    qed
    ultimately show ?thesis using show_nat_digits[of u] show_nat_nonempty[of u]
      by (cases "show_nat u") (auto simp: atom_ok_def atom_end_def sp_def cr_def lf_def is_digit_def dquote_def Let_def)
  qed
  have u: "atom_ok ''UID''" by code_simp
  have "list_all token_ok (concat (map (\<lambda>(s, b). [TAtom (''BODY['' @ s @ '']''), TString b True]) xs))"
    using assms a[simplified] by (induction xs) auto
  then show ?thesis using d u by (simp add: fetch_tokens_def)
qed

lemma parsed_response:
  assumes "xs \<noteq> []" "list_all plain_section (map fst xs)" "list_all (\<lambda>b. length (show_nat (length b)) \<le> 28) (map snd xs)"
    "distinct (map (\<lambda>x. normalizeSection (fst x)) xs)"
  shows "\<exists>r. parseLine (response_text (fetch_response n u xs)) = Some r \<and> ir_type r = RUntagged \<and>
    parseFetchAttributes td pd (ir_data r) = Some ((no_attributes n)\<lparr> fa_uid := Some u, fa_sections := map (\<lambda>(s, b). (normalizeSection s, map of_char b)) xs \<rparr>)"
proof -
  let ?w = "show_token (TList (fetch_tokens u xs))"
  let ?d = "show_nat n @ '' FETCH '' @ ?w"
  obtain c r where n: "show_nat n = c # r" "is_digit c" using show_nat_digits[of n] show_nat_nonempty[of n] by (cases "show_nat n") auto
  have "\<not> js_ws c" using n(2) by (auto simp: is_digit_def js_ws_def Let_def)
  then have trim: "js_ltrim (CHR '' '' # ?d) = ?d" by (simp add: js_ltrim_def js_ws_def n(1))
  have "tokenize ?w = [TList (fetch_tokens u xs)]" using tokenize_show[of "[TList (fetch_tokens u xs)]"] tokens_ok[OF assms(2,3)] by simp
  moreover have "js_ltrim (drop 5 (''FETCH '' @ ?w)) = ?w" by (simp add: js_ltrim_def js_ws_def)
  moreover have "keyword_ws ''FETCH'' (''FETCH '' @ ?w)" by (simp add: keyword_ws_def ci_prefix_def ascii_upper_def char_upper_def js_ws_def)
  ultimately have "parseFetchAttributes td pd ?d = Some (fetch_items td pd (fetch_tokens u xs) (no_attributes n))"
    using num_ws_show[of n ?w] by (simp add: parseFetchAttributes_def nth_opt_def tokList_def or_default_def)
  moreover have "fetch_item td pd ''UID'' (TAtom (show_nat u)) (no_attributes n) = (no_attributes n)\<lparr> fa_uid := Some u \<rparr>"
    using show_nat_digits[of u] show_nat_nonempty[of u]
    by (simp add: fetch_item_def Let_def ascii_upper_def char_upper_def tokNum_def tokStr_def read_show_nat)
  moreover have "fold (\<lambda>(s, b). AList.update (normalizeSection s) (map of_char b)) xs [] = map (\<lambda>(s, b). (normalizeSection s, map of_char b)) xs"
    using fold_update_fresh[OF assms(4), of "[]" "\<lambda>x. map of_char (snd x)"] by (simp add: case_prod_unfold)
  ultimately have "parseFetchAttributes td pd ?d =
      Some ((no_attributes n)\<lparr> fa_uid := Some u, fa_sections := map (\<lambda>(s, b). (normalizeSection s, map of_char b)) xs \<rparr>)"
    using fetch_items_body[OF assms(2), of td pd "(no_attributes n)\<lparr> fa_uid := Some u \<rparr>"]
    by (simp add: fetch_tokens_def tokStr_def) (simp add: no_attributes_def)
  moreover have "js_trim (CHR ''*'' # v) \<noteq> []" for v
  proof -
    have "js_trim (CHR ''*'' # v) = rev (dropWhile js_ws (rev v @ ''*''))" by (simp add: js_trim_def js_rtrim_def js_ltrim_def js_ws_def)
    moreover have "dropWhile js_ws (rev v @ ''*'') \<noteq> []" by (simp add: dropWhile_eq_Nil_conv js_ws_def)
    ultimately show ?thesis by simp
  qed
  ultimately show ?thesis using trim fetch_text[OF assms(1), of n u]
    by (simp add: parseLine_def starts_with_def Let_def)
qed

text \<open>C36: The bytes of message sections arrive as the server has them: for a FETCH response that carries any sections of a message as literals
  of any bytes (line breaks, parentheses, text that looks like attributes or like the end of the command), however the network cuts it into
  chunks, the client parses one response and reads from it the sequence number, the uid and every section with exactly its bytes.\<close>

theorem fetched_bytes_are_exact:
  assumes "response_ok (lm\<lparr>il_maxLineBytes := m\<rparr>) (fetch_response n u xs)" "Suc m = il_maxLineBytes lm" "xs \<noteq> []"
    "list_all plain_section (map fst xs)" "list_all (\<lambda>b. length (show_nat (length b)) \<le> 28) (map snd xs)"
    "distinct (map (\<lambda>x. normalizeSection (fst x)) xs)" "concat cs = response_text (fetch_response n u xs) @ crlf"
  shows "\<exists>r. feed_all (imap_feed lm) new_parser cs = (new_parser, [r]) \<and> parseFetchAttributes td pd (ir_data r) =
    Some ((no_attributes n)\<lparr> fa_uid := Some u, fa_sections := map (\<lambda>(s, b). (normalizeSection s, map of_char b)) xs \<rparr>)"
  using parsed_response[OF assms(3-6), of n u td pd] frame_any_chunks[OF _ assms(2), of "[fetch_response n u xs]" cs] assms(1,7)
  by (auto simp: map_filter_simps)

definition fetch_limits :: imap_limits where
  "fetch_limits = \<lparr> il_maxLiteralBytes = 50, il_maxResponseBytes = 100, il_maxLineBytes = 40 \<rparr>"

definition demo_sections :: "(string \<times> string) list" where
  "demo_sections = [(''HEADER'', ''A: b'' @ crlf), (''1'', '') FLAGS (x)'' @ crlf @ ''M1 OK'' @ crlf)]"

theorem fetched_bytes_are_exact_witness:
  "\<exists>r. feed_all (imap_feed fetch_limits) new_parser
      [''* 7 FETCH (UID 42 BODY[HEADER] {6'', ''}'' @ [cr], [lf] @ ''A: b'' @ crlf @ '' BODY[1] {20}'' @ crlf @ '') FLAGS (x)'', crlf, ''M1 OK'' @ crlf @ '')'' @ crlf]
      = (new_parser, [r]) \<and>
    parseFetchAttributes (\<lambda>_. None) (\<lambda>_. None) (ir_data r) = Some ((no_attributes 7)\<lparr> fa_uid := Some 42,
      fa_sections := map (\<lambda>(s, b). (normalizeSection s, map of_char b)) demo_sections \<rparr>)"
  by (rule fetched_bytes_are_exact[where m = 39]) code_simp+

end
