(* ===== verification/ImapOps.thy ===== *)
theory ImapOps
  imports ImapFetch
begin

text \<open>
  The operations of src/src/imap/ImapClient.ts on mailboxes and messages, as programs over what a command returns.
  The connection is a parameter: what running a command under the lock gives (an error, or the tagged response and
  the untagged ones) and what the client knows at that moment (whether a mailbox is selected, the capabilities).
  The command engine itself is modelled in ImapEngine.
\<close>

section \<open>Programs\<close>

record 's conn =
  cn_exec :: "'s \<Rightarrow> command_part list \<Rightarrow> (mail_error + imap_response \<times> imap_response list) \<times> 's"
  cn_selected :: "'s \<Rightarrow> bool"
  cn_has :: "'s \<Rightarrow> string \<Rightarrow> bool"

type_synonym ('s, 'a) prog = "'s \<Rightarrow> (mail_error + 'a) \<times> 's"

definition done_with :: "'a \<Rightarrow> ('s, 'a) prog" where "done_with a s = (Inr a, s)"

definition fail_with :: "mail_error \<Rightarrow> ('s, 'a) prog" where "fail_with e s = (Inl e, s)"

definition bind :: "('s, 'a) prog \<Rightarrow> ('a \<Rightarrow> ('s, 'b) prog) \<Rightarrow> ('s, 'b) prog" where
  "bind p f s = (case p s of (Inl e, s') \<Rightarrow> (Inl e, s') | (Inr a, s') \<Rightarrow> f a s')"

text \<open>A loop of commands: it ends at the first that fails.\<close>

fun each :: "('x \<Rightarrow> ('s, 'a) prog) \<Rightarrow> 'x list \<Rightarrow> ('s, 'a list) prog" where
  "each f [] = done_with []"
| "each f (x # xs) = bind (f x) (\<lambda>a. bind (each f xs) (\<lambda>as. done_with (a # as)))"

definition run_command :: "'s conn \<Rightarrow> imap_command \<Rightarrow> ('s, imap_response \<times> imap_response list) prog" where
  "run_command c cmd = (case ImapParts cmd of Inl e \<Rightarrow> fail_with e | Inr parts \<Rightarrow> (\<lambda>s. cn_exec c s parts))"

definition no_value :: "('s, 'a) prog \<Rightarrow> ('s, unit) prog" where "no_value p = bind p (\<lambda>_. done_with ())"

definition requireSelected :: "'s conn \<Rightarrow> ('s, unit) prog" where
  "requireSelected c s = (if cn_selected c s then done_with () s else fail_with (ImapError ''No mailbox selected'' False EIMAP None) s)"

section \<open>Mailboxes\<close>

definition noop :: "'s conn \<Rightarrow> ('s, unit) prog" where "noop c = no_value (\<lambda>s. cn_exec c s [PText ''NOOP''])"

definition list_mailboxes :: "'s conn \<Rightarrow> units \<Rightarrow> units \<Rightarrow> ('s, list_entry list) prog" where
  "list_mailboxes c ref pat s =
     bind (run_command c (CList ref pat (cn_has c s ''SPECIAL-USE'' \<and> cn_has c s ''LIST-EXTENDED'')))
       (\<lambda>(t, us). done_with (map (\<lambda>r. parseListResponse (ir_data r)) (filter (\<lambda>r. keyword_ws ''LIST'' (ir_data r)) us))) s"

definition listSubscribed :: "'s conn \<Rightarrow> units \<Rightarrow> units \<Rightarrow> ('s, list_entry list) prog" where
  "listSubscribed c ref pat = bind (run_command c (CLsub ref pat))
     (\<lambda>(t, us). done_with (map (\<lambda>r. parseListResponse (ir_data r)) (filter (\<lambda>r. keyword_ws ''LSUB'' (ir_data r)) us)))"

definition getStatus :: "'s conn \<Rightarrow> units \<Rightarrow> string list \<Rightarrow> ('s, status_result) prog" where
  "getStatus c mailbox items = bind (run_command c (CStatus mailbox items))
     (\<lambda>(t, us). done_with (case find (\<lambda>r. keyword_ws ''STATUS'' (ir_data r)) us of
        Some r \<Rightarrow> parseStatusResponse (ir_data r) | None \<Rightarrow> no_status))"

definition createMailbox :: "'s conn \<Rightarrow> units \<Rightarrow> ('s, unit) prog" where "createMailbox c m = no_value (run_command c (CCreate m))"
definition deleteMailbox :: "'s conn \<Rightarrow> units \<Rightarrow> ('s, unit) prog" where "deleteMailbox c m = no_value (run_command c (CDelete m))"
definition renameMailbox :: "'s conn \<Rightarrow> units \<Rightarrow> units \<Rightarrow> ('s, unit) prog" where
  "renameMailbox c m n = no_value (run_command c (CRename m n))"
definition subscribe :: "'s conn \<Rightarrow> units \<Rightarrow> ('s, unit) prog" where "subscribe c m = no_value (run_command c (CSubscribe m))"
definition unsubscribe :: "'s conn \<Rightarrow> units \<Rightarrow> ('s, unit) prog" where "unsubscribe c m = no_value (run_command c (CUnsubscribe m))"

section \<open>Messages\<close>

definition UID_SET_LENGTH :: nat where "UID_SET_LENGTH = 4000"

definition search :: "'s conn \<Rightarrow> imap_query \<Rightarrow> ('s, nat list) prog" where
  "search c q = bind (requireSelected c) (\<lambda>_. bind (run_command c (CUidSearch q)) (\<lambda>(t, us). done_with (search_uids us)))"

definition fetchAttributes :: "text_decoders \<Rightarrow> (units \<Rightarrow> int option) \<Rightarrow> 's conn \<Rightarrow> int list \<Rightarrow> string \<Rightarrow> ('s, fetch_attributes list) prog" where
  "fetchAttributes td pd c uids items = bind (requireSelected c) (\<lambda>_.
     if uids = [] then done_with []
     else bind (each (\<lambda>us. run_command c (CUidFetch us items)) (uidSets uids UID_SET_LENGTH))
       (\<lambda>rs. done_with (fetched td pd (concat (map snd rs)))))"

definition fetch_messages :: "text_decoders \<Rightarrow> (units \<Rightarrow> int option) \<Rightarrow> 's conn \<Rightarrow> int list \<Rightarrow> string \<Rightarrow> ('s, imap_message list) prog" where
  "fetch_messages td pd c uids items = bind (fetchAttributes td pd c uids items) (\<lambda>as. done_with (map (buildFullMessage td pd) as))"

definition uid_of :: "fetch_attributes \<Rightarrow> nat" where "uid_of a = or_default (fa_uid a) 0"

definition fetchBodyStructure :: "text_decoders \<Rightarrow> (units \<Rightarrow> int option) \<Rightarrow> 's conn \<Rightarrow> int list \<Rightarrow> ('s, (nat, body_node) jsmap) prog" where
  "fetchBodyStructure td pd c uids = bind (fetchAttributes td pd c uids ''UID BODYSTRUCTURE'')
     (\<lambda>as. done_with (fold (\<lambda>a m. case fa_bodyStructure a of Some b \<Rightarrow> AList.update (uid_of a) b m | None \<Rightarrow> m) as []))"

definition section_items :: "string list \<Rightarrow> string" where
  "section_items ss = ''UID '' @ js_join '' '' (map (\<lambda>s. ''BODY.PEEK['' @ s @ '']'') ss)"

fun first_error :: "(mail_error + 'a) list \<Rightarrow> mail_error option" where
  "first_error [] = None"
| "first_error (Inl e # rs) = Some e"
| "first_error (Inr a # rs) = first_error rs"

definition fetchSections :: "text_decoders \<Rightarrow> (units \<Rightarrow> int option) \<Rightarrow> 's conn \<Rightarrow> int list \<Rightarrow> string list \<Rightarrow>
    ('s, (nat, (string, bytes) jsmap) jsmap) prog" where
  "fetchSections td pd c uids ss =
     (if uids = [] \<or> ss = [] then done_with []
      else case first_error (map checkSection ss) of
        Some e \<Rightarrow> fail_with e
      | None \<Rightarrow> bind (fetchAttributes td pd c uids (section_items ss))
          (\<lambda>as. done_with (fold (\<lambda>a. AList.update (uid_of a) (requested_sections ss a)) as [])))"

definition setFlags :: "'s conn \<Rightarrow> int list \<Rightarrow> string list \<Rightarrow> bool \<Rightarrow> ('s, unit) prog" where
  "setFlags c uids flags add = bind (requireSelected c)
     (\<lambda>_. no_value (each (\<lambda>us. run_command c (CUidStore us flags add False)) (uidSets uids UID_SET_LENGTH)))"

definition setFlagsSilent :: "'s conn \<Rightarrow> int list \<Rightarrow> string list \<Rightarrow> bool \<Rightarrow> ('s, unit) prog" where
  "setFlagsSilent c uids flags add = bind (requireSelected c)
     (\<lambda>_. no_value (each (\<lambda>us. run_command c (CUidStore us flags add True)) (uidSets uids UID_SET_LENGTH)))"

definition copy :: "'s conn \<Rightarrow> int list \<Rightarrow> units \<Rightarrow> ('s, unit) prog" where
  "copy c uids dest = bind (requireSelected c)
     (\<lambda>_. no_value (each (\<lambda>us. run_command c (CUidCopy us dest)) (uidSets uids UID_SET_LENGTH)))"

definition expunge :: "'s conn \<Rightarrow> ('s, unit) prog" where
  "expunge c = bind (requireSelected c) (\<lambda>_. no_value (\<lambda>s. cn_exec c s [PText ''EXPUNGE'']))"

definition expungeUids :: "'s conn \<Rightarrow> int list \<Rightarrow> ('s, unit) prog" where
  "expungeUids c uids = bind (requireSelected c) (\<lambda>_ s.
     if cn_has c s ''UIDPLUS'' then no_value (each (\<lambda>us. run_command c (CUidExpunge us)) (uidSets uids UID_SET_LENGTH)) s
     else expunge c s)"

definition DELETED :: string where "DELETED = backslash # ''Deleted''"

definition move :: "'s conn \<Rightarrow> int list \<Rightarrow> units \<Rightarrow> ('s, unit) prog" where
  "move c uids dest = bind (requireSelected c) (\<lambda>_ s.
     if cn_has c s ''MOVE'' then no_value (each (\<lambda>us. run_command c (CUidMove us dest)) (uidSets uids UID_SET_LENGTH)) s
     else bind (copy c uids dest) (\<lambda>_. bind (setFlagsSilent c uids [DELETED] True) (\<lambda>_. expungeUids c uids)) s)"

definition append_message :: "'s conn \<Rightarrow> units \<Rightarrow> bytes \<Rightarrow> string list \<Rightarrow> date_fields option \<Rightarrow> ('s, (nat \<times> nat) option) prog" where
  "append_message c mailbox raw flags date = bind (run_command c (CAppend mailbox flags raw date))
     (\<lambda>(t, us). done_with (parseAppendUid (ir_data t)))"

definition fetchChanged :: "text_decoders \<Rightarrow> (units \<Rightarrow> int option) \<Rightarrow> 's conn \<Rightarrow> string \<Rightarrow> rat \<Rightarrow> string \<Rightarrow> ('s, imap_message list) prog" where
  "fetchChanged td pd c uids modseq items = bind (requireSelected c) (\<lambda>_.
     bind (run_command c (CUidFetchChangedSince uids items modseq))
       (\<lambda>(t, us). done_with (map (buildFullMessage td pd) (mergeByUid (List.map_filter (\<lambda>r. parseFetchAttributes td pd (ir_data r)) us)))))"

end
