(* ===== verification/ImapMove.thy ===== *)
theory ImapMove
  imports ImapOps
begin

text \<open>
  Moving messages with the IMAP client, on a server that does what RFC 3501, RFC 4315 and RFC 6851 say of the commands
  it is sent: no message is lost, whatever fails on the way.
\<close>

section \<open>What a UID set names\<close>

definition range_has :: "string \<Rightarrow> nat \<Rightarrow> bool" where
  "range_has r u = (case js_split (CHR '':'') r of [a] \<Rightarrow> read_digits a = u | [a, b] \<Rightarrow> read_digits a \<le> u \<and> u \<le> read_digits b | _ \<Rightarrow> False)"

definition set_has :: "string \<Rightarrow> nat \<Rightarrow> bool" where "set_has us u \<longleftrightarrow> list_ex (\<lambda>r. range_has r u) (js_split (CHR '','') us)"

lemma show_int_pos: "0 < i \<Longrightarrow> show_int i = show_nat (nat i)" by (simp add: show_int_def)

lemma no_colon: "CHR '':'' \<notin> set (show_nat n)" using show_nat_digits[of n] by (auto simp: list_all_iff is_digit_def)

lemma range_has_text: "0 < a \<Longrightarrow> a \<le> b \<Longrightarrow> range_has (range_text (a, b)) u \<longleftrightarrow> int u \<in> {a..b}"
  using split_append[of "CHR '':''" "show_nat (nat b)" "show_nat (nat a)"]
  by (auto simp: range_has_def range_text_def show_int_pos read_show_nat split_no_sep no_colon)

lemma uid_sets_have: "(\<exists>us\<in>set (uidSets uids m). set_has us u) \<longleftrightarrow> int u \<in> set uids \<and> 0 < u"
proof -
  let ?rs = "uid_ranges (sorted_uids uids)"
  have texts: "concat (map (js_split (CHR '','')) (uidSets uids m)) = map range_text ?rs"
    using pack_ranges_split[of "map range_text ?rs" m "[]"] range_text_facts by (simp add: uidSets_def)
  have cover: "(\<Union>(a, b)\<in>set ?rs. {a..b}) = {u \<in> set uids. 0 < u}" "\<forall>r\<in>set ?rs. fst r \<le> snd r \<and> fst r \<in> set (sorted_uids uids)"
    using uid_ranges_cover[OF sorted_uids_strict(1), of uids] sorted_uids_strict(2)[of uids] by simp_all
  have "(\<exists>us\<in>set (uidSets uids m). set_has us u) \<longleftrightarrow> (\<exists>r\<in>set (concat (map (js_split (CHR '','')) (uidSets uids m))). range_has r u)"
    by (auto simp: set_has_def list_ex_iff)
  also have "\<dots> \<longleftrightarrow> (\<exists>r\<in>set ?rs. range_has (range_text r) u)" unfolding texts by simp
  also have "\<dots> \<longleftrightarrow> (\<exists>r\<in>set ?rs. int u \<in> {fst r..snd r})"
  proof (rule bex_cong[OF refl])
    fix r assume "r \<in> set ?rs"
    then have "0 < fst r" "fst r \<le> snd r" using cover(2) sorted_uids_strict(2)[of uids] by auto
    then show "range_has (range_text r) u \<longleftrightarrow> int u \<in> {fst r..snd r}" using range_has_text[of "fst r" "snd r" u] by simp
  qed
  also have "\<dots> \<longleftrightarrow> int u \<in> (\<Union>(a, b)\<in>set ?rs. {a..b})" by (simp add: case_prod_beta)
  finally show ?thesis unfolding cover(1) by auto
qed

section \<open>Loops of commands\<close>

lemma each_inv:
  assumes "each f xs s = (r, s')" "I s" "\<And>x s r s'. x \<in> set xs \<Longrightarrow> I s \<Longrightarrow> f x s = (r, s') \<Longrightarrow> I s'"
  shows "I s'"
  using assms
proof (induction xs arbitrary: s r)
  case (Cons x xs)
  obtain r1 s1 where 1: "f x s = (r1, s1)" by fastforce
  have "I s1" using Cons.prems 1 by auto
  then show ?case using Cons.IH[of s1] Cons.prems 1
    by (cases r1; cases "each f xs s1"; cases "fst (each f xs s1)") (auto simp: bind_def done_with_def)
qed (simp add: done_with_def)

lemma each_post:
  assumes "each f xs s = (Inr as, s')" "I s" "\<And>x s r s'. x \<in> set xs \<Longrightarrow> I s \<Longrightarrow> f x s = (r, s') \<Longrightarrow> I s'"
    "\<And>x s a s'. x \<in> set xs \<Longrightarrow> I s \<Longrightarrow> f x s = (Inr a, s') \<Longrightarrow> Q x s'"
    "\<And>x y s r s'. y \<in> set xs \<Longrightarrow> I s \<Longrightarrow> Q x s \<Longrightarrow> f y s = (r, s') \<Longrightarrow> Q x s'"
  shows "\<forall>x\<in>set xs. Q x s'"
  using assms
proof (induction xs arbitrary: s as)
  case (Cons x xs)
  obtain a s1 where 1: "f x s = (Inr a, s1)" using Cons.prems(1) by (cases "f x s"; cases "fst (f x s)") (auto simp: bind_def)
  obtain as1 where 2: "each f xs s1 = (Inr as1, s')" using Cons.prems(1) 1
    by (cases "each f xs s1"; cases "fst (each f xs s1)") (auto simp: bind_def done_with_def)
  have i: "I s1" "Q x s1" using Cons.prems(3)[OF list.set_intros(1) Cons.prems(2) 1] Cons.prems(4)[OF list.set_intros(1) Cons.prems(2) 1] by auto
  note keep = Cons.prems(3)[OF list.set_intros(2)] and post = Cons.prems(4)[OF list.set_intros(2)] and stay = Cons.prems(5)[OF list.set_intros(2)]
  have "I s' \<and> Q x s'"
  proof (rule each_inv[where I = "\<lambda>t. I t \<and> Q x t", OF 2])
    show "I s1 \<and> Q x s1" using i by blast
    show "I t' \<and> Q x t'" if "y \<in> set xs" "I t \<and> Q x t" "f y t = (q, t')" for y t q t'
      using keep[OF that(1) _ that(3)] stay[OF that(1) _ _ that(3)] that(2) by blast
  qed
  moreover have "\<forall>y\<in>set xs. Q y s'" by (rule Cons.IH[OF 2 i(1) keep post stay])
  ultimately show ?case by simp
next
  case Nil
  show ?case by simp
qed

section \<open>The server\<close>

text \<open>here: the messages of the selected mailbox by uid, with their \Deleted flag; there: the messages of the destination.  What
  the commands of a move do, successful or not; a failed command may have been carried out in part.\<close>

record ('s, 'm) mail_view =
  vw_here :: "'s \<Rightarrow> nat \<Rightarrow> ('m \<times> bool) option"
  vw_there :: "'s \<Rightarrow> 'm set"

definition copies :: "'s conn \<Rightarrow> ('s, 'm) mail_view \<Rightarrow> units \<Rightarrow> bool" where
  "copies c v dest \<longleftrightarrow> (\<forall>s us r s'. seq_set_ok us \<and> cn_exec c s [PText (''UID COPY '' @ us), mailboxArg dest] = (r, s') \<longrightarrow>
     vw_here v s' = vw_here v s \<and> vw_there v s \<subseteq> vw_there v s' \<and>
     (isl r \<or> (\<forall>u m d. set_has us u \<and> vw_here v s u = Some (m, d) \<longrightarrow> m \<in> vw_there v s')))"

definition marks :: "'s conn \<Rightarrow> ('s, 'm) mail_view \<Rightarrow> bool" where
  "marks c v \<longleftrightarrow> (\<forall>s us r s'. seq_set_ok us \<and> cn_exec c s [PText (''UID STORE '' @ us @ '' +FLAGS.SILENT ('' @ DELETED @ '')'')] = (r, s') \<longrightarrow>
     vw_there v s' = vw_there v s \<and>
     (\<forall>u. vw_here v s' u = vw_here v s u \<or> (set_has us u \<and> vw_here v s' u = map_option (\<lambda>(m, d). (m, True)) (vw_here v s u))) \<and>
     (isl r \<or> (\<forall>u. set_has us u \<longrightarrow> vw_here v s' u = map_option (\<lambda>(m, d). (m, True)) (vw_here v s u))))"

definition removes :: "'s conn \<Rightarrow> ('s, 'm) mail_view \<Rightarrow> bool" where
  "removes c v \<longleftrightarrow> (\<forall>s ps us r s'. seq_set_ok us \<and> cn_exec c s ps = (r, s') \<and> (ps = [PText (''UID EXPUNGE '' @ us)] \<or> ps = [PText ''EXPUNGE'']) \<longrightarrow>
     vw_there v s' = vw_there v s \<and>
     (\<forall>u. vw_here v s' u = vw_here v s u \<or>
        (vw_here v s' u = None \<and> (\<exists>m. vw_here v s u = Some (m, True)) \<and> (ps = [PText ''EXPUNGE''] \<or> set_has us u))) \<and>
     (isl r \<or> (\<forall>u m. (ps = [PText ''EXPUNGE''] \<or> set_has us u) \<and> vw_here v s u = Some (m, True) \<longrightarrow> vw_here v s' u = None)))"

definition moves :: "'s conn \<Rightarrow> ('s, 'm) mail_view \<Rightarrow> units \<Rightarrow> bool" where
  "moves c v dest \<longleftrightarrow> (\<forall>s us r s'. seq_set_ok us \<and> cn_exec c s [PText (''UID MOVE '' @ us), mailboxArg dest] = (r, s') \<longrightarrow>
     vw_there v s \<subseteq> vw_there v s' \<and>
     (\<forall>u. vw_here v s' u = vw_here v s u \<or>
        (vw_here v s' u = None \<and> set_has us u \<and> (\<forall>m d. vw_here v s u = Some (m, d) \<longrightarrow> m \<in> vw_there v s'))) \<and>
     (isl r \<or> (\<forall>u. set_has us u \<longrightarrow> vw_here v s' u = None)))"

definition follows_rfc :: "'s conn \<Rightarrow> ('s, 'm) mail_view \<Rightarrow> units \<Rightarrow> bool" where
  "follows_rfc c v dest \<longleftrightarrow> copies c v dest \<and> marks c v \<and> removes c v \<and> moves c v dest"

section \<open>The steps of a move\<close>

lemma command_cases:
  assumes "run_command c cmd s = (r, s')"
  obtains e where "r = Inl e" "s' = s" | ps where "ImapParts cmd = Inr ps" "cn_exec c s ps = (r, s')"
  using assms by (cases "ImapParts cmd") (auto simp: run_command_def fail_with_def)

lemma required: "bind (requireSelected c) f s = (r, s') \<Longrightarrow> (\<exists>e. r = Inl e \<and> s' = s) \<or> f () s = (r, s')"
  by (auto simp: bind_def requireSelected_def done_with_def fail_with_def split: if_splits)

lemma no_value_run: "no_value p s = (r, s') \<Longrightarrow> \<exists>r1. p s = (r1, s') \<and> isl r1 = isl r"
  by (auto simp: no_value_def bind_def done_with_def split: prod.splits sum.splits)

lemma seq_text: "checkSeqSet us = Inr t \<Longrightarrow> t = us \<and> seq_set_ok us" by (simp add: checkSeqSet_def split: if_splits)

lemma copy_step:
  assumes "copies c v dest" "run_command c (CUidCopy us dest) s = (r, s')"
  shows "vw_here v s' = vw_here v s \<and> vw_there v s \<subseteq> vw_there v s' \<and>
     (isl r \<or> (\<forall>u m d. set_has us u \<and> vw_here v s u = Some (m, d) \<longrightarrow> m \<in> vw_there v s'))"
  using assms(2)
proof (cases rule: command_cases)
  case (2 ps)
  then have "ps = [PText (''UID COPY '' @ us), mailboxArg dest] \<and> seq_set_ok us" by (cases "checkSeqSet us") (auto simp: and_then_def dest: seq_text)
  then show ?thesis using assms(1) 2(2) unfolding copies_def by blast
qed simp

text \<open>A loop of commands after the check for a selected mailbox.\<close>

lemma loop_runs:
  assumes "bind (requireSelected c) (\<lambda>_. no_value (each f xs)) s = (r, s')"
  shows "(isl r \<and> s' = s) \<or> (\<exists>r1. each f xs s = (r1, s') \<and> isl r1 = isl r)"
  using required[OF assms] by (auto dest: no_value_run)

lemma loop_inv:
  assumes "bind (requireSelected c) (\<lambda>_. no_value (each f xs)) s = (r, s')" "I s"
    "\<And>x t q t'. x \<in> set xs \<Longrightarrow> I t \<Longrightarrow> f x t = (q, t') \<Longrightarrow> I t'"
  shows "I s'"
  using loop_runs[OF assms(1)]
proof
  assume "\<exists>r1. each f xs s = (r1, s') \<and> isl r1 = isl r"
  then obtain r1 where "each f xs s = (r1, s')" by blast
  then show ?thesis by (rule each_inv[where I = I]) (fact assms(2), fact assms(3))
qed (use assms(2) in simp)

lemma loop_post:
  assumes "bind (requireSelected c) (\<lambda>_. no_value (each f xs)) s = (r, s')" "\<not> isl r" "I s"
    "\<And>x t q t'. x \<in> set xs \<Longrightarrow> I t \<Longrightarrow> f x t = (q, t') \<Longrightarrow> I t'"
    "\<And>x t a t'. x \<in> set xs \<Longrightarrow> I t \<Longrightarrow> f x t = (Inr a, t') \<Longrightarrow> Q x t'"
    "\<And>x y t q t'. y \<in> set xs \<Longrightarrow> I t \<Longrightarrow> Q x t \<Longrightarrow> f y t = (q, t') \<Longrightarrow> Q x t'"
  shows "\<forall>x\<in>set xs. Q x s'"
proof -
  obtain r1 where "each f xs s = (r1, s')" "isl r1 = isl r" using loop_runs[OF assms(1)] assms(2) by blast
  then obtain as where e: "each f xs s = (Inr as, s')" using assms(2) by (cases r1) auto
  show ?thesis by (rule each_post[OF e, where I = I]) (fact assms(3), fact assms(4), fact assms(5), fact assms(6))
qed

lemma copy_run:
  assumes "copies c v dest" "copy c uids dest s = (r, s')"
  shows "vw_here v s' = vw_here v s" "vw_there v s \<subseteq> vw_there v s'"
    "\<not> isl r \<Longrightarrow> int u \<in> set uids \<Longrightarrow> 0 < u \<Longrightarrow> vw_here v s u = Some (m, d) \<Longrightarrow> m \<in> vw_there v s'"
proof -
  let ?f = "\<lambda>us. run_command c (CUidCopy us dest)" and ?I = "\<lambda>t. vw_here v t = vw_here v s \<and> vw_there v s \<subseteq> vw_there v t"
  let ?Q = "\<lambda>us t. \<forall>u m d. set_has us u \<and> vw_here v s u = Some (m, d) \<longrightarrow> m \<in> vw_there v t"
  note run = assms(2)[unfolded copy_def]
  have keep: "?I t'" if "?I t" "?f us t = (q, t')" for us t q t' using copy_step[OF assms(1) that(2)] that(1) by auto
  have "?I s'" by (rule loop_inv[OF run, where I = ?I]) (simp, rule keep)
  then show "vw_here v s' = vw_here v s" "vw_there v s \<subseteq> vw_there v s'" by simp_all
  assume a: "\<not> isl r" "int u \<in> set uids" "0 < u" "vw_here v s u = Some (m, d)"
  have "\<forall>us\<in>set (uidSets uids UID_SET_LENGTH). ?Q us s'"
  proof (rule loop_post[OF run a(1), where I = ?I])
    show "?I s" by simp
    show "?I t'" if "?I t" "?f us t = (q, t')" for us t q t' by (rule keep[OF that])
    show "?Q us t'" if "?I t" "?f us t = (Inr x, t')" for us t x t' using copy_step[OF assms(1) that(2)] that(1) by auto
    show "?Q us t'" if "?Q us t" "?f y t = (q, t')" for us y t q t' using copy_step[OF assms(1) that(2)] that(1) by blast
  qed
  then show "m \<in> vw_there v s'" using uid_sets_have[of uids UID_SET_LENGTH u] a(2-4) by blast
qed

definition marked :: "('m \<times> bool) option \<Rightarrow> ('m \<times> bool) option" where "marked x = map_option (\<lambda>(m, d). (m, True)) x"

lemma marked_marked: "marked (marked x) = marked x" by (cases x) (auto simp: marked_def)

lemma seq_flags: "checkFlags [DELETED] = Inr DELETED" by code_simp

lemma mark_step:
  assumes "marks c v" "run_command c (CUidStore us [DELETED] True True) s = (r, s')"
  shows "vw_there v s' = vw_there v s"
    "vw_here v s' u = vw_here v s u \<or> (set_has us u \<and> vw_here v s' u = marked (vw_here v s u))"
    "\<not> isl r \<Longrightarrow> set_has us u \<Longrightarrow> vw_here v s' u = marked (vw_here v s u)"
proof -
  have "(vw_there v s' = vw_there v s) \<and> (vw_here v s' u = vw_here v s u \<or> (set_has us u \<and> vw_here v s' u = marked (vw_here v s u)))
      \<and> (isl r \<or> (set_has us u \<longrightarrow> vw_here v s' u = marked (vw_here v s u)))"
    using assms(2)
  proof (cases rule: command_cases)
    case (2 ps)
    then have "ps = [PText (''UID STORE '' @ us @ '' +FLAGS.SILENT ('' @ DELETED @ '')'')] \<and> seq_set_ok us"
      using seq_flags by (cases "checkSeqSet us") (auto simp: and_then_def dest: seq_text)
    then show ?thesis using assms(1) 2(2) unfolding marks_def marked_def by blast
  qed simp
  then show "vw_there v s' = vw_there v s" "vw_here v s' u = vw_here v s u \<or> (set_has us u \<and> vw_here v s' u = marked (vw_here v s u))"
    "\<not> isl r \<Longrightarrow> set_has us u \<Longrightarrow> vw_here v s' u = marked (vw_here v s u)" by blast+
qed

lemma mark_run:
  assumes "marks c v" "setFlagsSilent c uids [DELETED] True s = (r, s')"
  shows "vw_there v s' = vw_there v s"
    "vw_here v s' u = vw_here v s u \<or> (int u \<in> set uids \<and> vw_here v s' u = marked (vw_here v s u))"
    "\<not> isl r \<Longrightarrow> int u \<in> set uids \<Longrightarrow> 0 < u \<Longrightarrow> vw_here v s' u = marked (vw_here v s u)"
proof -
  let ?f = "\<lambda>us. run_command c (CUidStore us [DELETED] True True)"
  let ?I = "\<lambda>t. vw_there v t = vw_there v s \<and> (\<forall>u. vw_here v t u = vw_here v s u \<or> (int u \<in> set uids \<and> vw_here v t u = marked (vw_here v s u)))"
  let ?Q = "\<lambda>us t. \<forall>u. set_has us u \<longrightarrow> vw_here v t u = marked (vw_here v s u)"
  note run = assms(2)[unfolded setFlagsSilent_def]
  have keep: "?I t'" if "us \<in> set (uidSets uids UID_SET_LENGTH)" "?I t" "?f us t = (q, t')" for us t q t'
  proof (intro conjI allI)
    show "vw_there v t' = vw_there v s" using mark_step(1)[OF assms(1) that(3)] that(2) by simp
    show "vw_here v t' u = vw_here v s u \<or> (int u \<in> set uids \<and> vw_here v t' u = marked (vw_here v s u))" for u
      using mark_step(2)[OF assms(1) that(3), of u] that(1,2) uid_sets_have[of uids UID_SET_LENGTH u] by (metis marked_marked)
  qed
  have "?I s'" by (rule loop_inv[OF run, where I = ?I]) (simp, rule keep)
  then show "vw_there v s' = vw_there v s" "vw_here v s' u = vw_here v s u \<or> (int u \<in> set uids \<and> vw_here v s' u = marked (vw_here v s u))"
    by simp_all
  assume a: "\<not> isl r" "int u \<in> set uids" "0 < u"
  have "\<forall>us\<in>set (uidSets uids UID_SET_LENGTH). ?Q us s'"
  proof (rule loop_post[OF run a(1), where I = ?I])
    show "?I s" by simp
    show "?I t'" if "us \<in> set (uidSets uids UID_SET_LENGTH)" "?I t" "?f us t = (q, t')" for us t q t' by (rule keep[OF that])
    show "?Q us t'" if "?I t" "?f us t = (Inr x, t')" for us t x t'
    proof (intro allI impI)
      fix u assume "set_has us u"
      then have "vw_here v t' u = marked (vw_here v t u)" using mark_step(3)[OF assms(1) that(2)] by simp
      then show "vw_here v t' u = marked (vw_here v s u)" using that(1) by (metis marked_marked)
    qed
    show "?Q us t'" if "?Q us t" "?f y t = (q, t')" for us y t q t'
      using mark_step(2)[OF assms(1) that(2)] that(1) by (metis marked_marked)
  qed
  then show "vw_here v s' u = marked (vw_here v s u)" using uid_sets_have[of uids UID_SET_LENGTH u] a(2,3) by blast
qed

text \<open>What EXPUNGE removes: everything marked; UID EXPUNGE: what is marked and named.\<close>

lemma remove_step:
  assumes "removes c v" "cn_exec c s ps = (r, s')" "seq_set_ok us" "ps = [PText (''UID EXPUNGE '' @ us)] \<or> ps = [PText ''EXPUNGE'']"
  shows "vw_there v s' = vw_there v s"
    "vw_here v s' u = vw_here v s u \<or> (vw_here v s' u = None \<and> (\<exists>m. vw_here v s u = Some (m, True)) \<and> (ps = [PText ''EXPUNGE''] \<or> set_has us u))"
    "\<not> isl r \<Longrightarrow> ps = [PText ''EXPUNGE''] \<or> set_has us u \<Longrightarrow> vw_here v s u = Some (m, True) \<Longrightarrow> vw_here v s' u = None"
  using assms unfolding removes_def by blast+

lemma expunge_step:
  assumes "removes c v" "run_command c (CUidExpunge us) s = (r, s')"
  shows "vw_there v s' = vw_there v s"
    "vw_here v s' u = vw_here v s u \<or> (vw_here v s' u = None \<and> (\<exists>m. vw_here v s u = Some (m, True)) \<and> set_has us u)"
    "\<not> isl r \<Longrightarrow> set_has us u \<Longrightarrow> vw_here v s u = Some (m, True) \<Longrightarrow> vw_here v s' u = None"
proof -
  have "(vw_there v s' = vw_there v s) \<and> (vw_here v s' u = vw_here v s u \<or>
      (vw_here v s' u = None \<and> (\<exists>m. vw_here v s u = Some (m, True)) \<and> set_has us u))
      \<and> (\<not> isl r \<longrightarrow> set_has us u \<longrightarrow> vw_here v s u = Some (m, True) \<longrightarrow> vw_here v s' u = None)"
    using assms(2)
  proof (cases rule: command_cases)
    case (2 ps)
    then have "ps = [PText (''UID EXPUNGE '' @ us)] \<and> seq_set_ok us" by (cases "checkSeqSet us") (auto simp: and_then_def dest: seq_text)
    then show ?thesis using remove_step(1)[OF assms(1) 2(2), of us] remove_step(2,3)[OF assms(1) 2(2), of us u] by auto
  qed simp
  then show "vw_there v s' = vw_there v s"
    "vw_here v s' u = vw_here v s u \<or> (vw_here v s' u = None \<and> (\<exists>m. vw_here v s u = Some (m, True)) \<and> set_has us u)"
    "\<not> isl r \<Longrightarrow> set_has us u \<Longrightarrow> vw_here v s u = Some (m, True) \<Longrightarrow> vw_here v s' u = None" by blast+
qed

lemma selected_then: "bind (requireSelected c) (\<lambda>_ t. f t) s = bind (requireSelected c) (\<lambda>_ t. f s) s"
  by (simp add: bind_def requireSelected_def done_with_def fail_with_def)

lemma expungeUids_cases: "expungeUids c uids s = (if cn_has c s ''UIDPLUS''
    then bind (requireSelected c) (\<lambda>_. no_value (each (\<lambda>us. run_command c (CUidExpunge us)) (uidSets uids UID_SET_LENGTH))) s
    else bind (requireSelected c) (\<lambda>_. expunge c) s)"
  by (simp add: expungeUids_def bind_def requireSelected_def done_with_def fail_with_def)

lemma any_set: "seq_set_ok ''1''" by code_simp

lemma expunge_run:
  assumes "removes c v" "expungeUids c uids s = (r, s')"
  shows "vw_there v s' = vw_there v s"
    "vw_here v s' u = vw_here v s u \<or>
      (vw_here v s' u = None \<and> (\<exists>m. vw_here v s u = Some (m, True)) \<and> (int u \<in> set uids \<or> \<not> cn_has c s ''UIDPLUS''))"
    "\<not> isl r \<Longrightarrow> int u \<in> set uids \<Longrightarrow> 0 < u \<Longrightarrow> vw_here v s u = Some (m, True) \<Longrightarrow> vw_here v s' u = None"
proof -
  let ?gone = "\<lambda>t u. vw_here v t u = vw_here v s u \<or> (vw_here v t u = None \<and> (\<exists>m. vw_here v s u = Some (m, True)) \<and> int u \<in> set uids)"
  have "vw_there v s' = vw_there v s \<and>
    (\<forall>u. vw_here v s' u = vw_here v s u \<or>
      (vw_here v s' u = None \<and> (\<exists>m. vw_here v s u = Some (m, True)) \<and> (int u \<in> set uids \<or> \<not> cn_has c s ''UIDPLUS'')))
    \<and> (\<not> isl r \<longrightarrow> (\<forall>u m. int u \<in> set uids \<and> 0 < u \<and> vw_here v s u = Some (m, True) \<longrightarrow> vw_here v s' u = None))"
  proof (cases "cn_has c s ''UIDPLUS''")
    case True
    let ?f = "\<lambda>us. run_command c (CUidExpunge us)" and ?I = "\<lambda>t. vw_there v t = vw_there v s \<and> (\<forall>u. ?gone t u)"
    let ?Q = "\<lambda>us t. \<forall>u m. set_has us u \<and> vw_here v s u = Some (m, True) \<longrightarrow> vw_here v t u = None"
    have run: "bind (requireSelected c) (\<lambda>_. no_value (each ?f (uidSets uids UID_SET_LENGTH))) s = (r, s')"
      using assms(2) True by (simp add: expungeUids_cases)
    have keep: "?I t'" if "us \<in> set (uidSets uids UID_SET_LENGTH)" "?I t" "?f us t = (q, t')" for us t q t'
    proof (intro conjI allI)
      show "vw_there v t' = vw_there v s" using expunge_step(1)[OF assms(1) that(3)] that(2) by simp
      show "?gone t' u" for u
        using expunge_step(2)[OF assms(1) that(3), of u] that(1,2) uid_sets_have[of uids UID_SET_LENGTH u] by (metis option.distinct(1))
    qed
    have "?I s'" by (rule loop_inv[OF run, where I = ?I]) (simp, rule keep)
    moreover have "\<forall>u m. int u \<in> set uids \<and> 0 < u \<and> vw_here v s u = Some (m, True) \<longrightarrow> vw_here v s' u = None" if "\<not> isl r"
    proof -
      have "\<forall>us\<in>set (uidSets uids UID_SET_LENGTH). ?Q us s'"
      proof (rule loop_post[OF run that, where I = ?I])
        show "?I s" by simp
        show "?I t'" if "us \<in> set (uidSets uids UID_SET_LENGTH)" "?I t" "?f us t = (q, t')" for us t q t' by (rule keep[OF that])
        show "?Q us t'" if "?I t" "?f us t = (Inr x, t')" for us t x t'
        proof (intro allI impI)
          fix u m assume h: "set_has us u \<and> vw_here v s u = Some (m, True)"
          have "vw_here v t u = None \<or> vw_here v t u = Some (m, True)" using that(1) h by metis
          then show "vw_here v t' u = None" using expunge_step(2,3)[OF assms(1) that(2), of u] h by auto
        qed
        show "?Q us t'" if "?Q us t" "?f y t = (q, t')" for us y t q t'
          using expunge_step(2)[OF assms(1) that(2)] that(1) by metis
      qed
      then show ?thesis using uid_sets_have[of uids UID_SET_LENGTH] by blast
    qed
    ultimately show ?thesis by auto
  next
    case False
    then have "bind (requireSelected c) (\<lambda>_. expunge c) s = (r, s')" using assms(2) by (simp add: expungeUids_cases)
    then have "(isl r \<and> s' = s) \<or> (\<exists>r1. cn_exec c s [PText ''EXPUNGE''] = (r1, s') \<and> isl r1 = isl r)"
      by (auto dest!: required no_value_run simp: expunge_def)
    then show ?thesis
    proof
      assume "\<exists>r1. cn_exec c s [PText ''EXPUNGE''] = (r1, s') \<and> isl r1 = isl r"
      then obtain r1 where e: "cn_exec c s [PText ''EXPUNGE''] = (r1, s')" "isl r1 = isl r" by blast
      show ?thesis using remove_step[OF assms(1) e(1) any_set] e(2) False by auto
    qed simp
  qed
  then show "vw_there v s' = vw_there v s"
    "vw_here v s' u = vw_here v s u \<or>
      (vw_here v s' u = None \<and> (\<exists>m. vw_here v s u = Some (m, True)) \<and> (int u \<in> set uids \<or> \<not> cn_has c s ''UIDPLUS''))"
    "\<not> isl r \<Longrightarrow> int u \<in> set uids \<Longrightarrow> 0 < u \<Longrightarrow> vw_here v s u = Some (m, True) \<Longrightarrow> vw_here v s' u = None" by blast+
qed

lemma move_step:
  assumes "moves c v dest" "run_command c (CUidMove us dest) s = (r, s')"
  shows "vw_there v s \<subseteq> vw_there v s'"
    "vw_here v s' u = vw_here v s u \<or> (vw_here v s' u = None \<and> set_has us u \<and> (\<forall>m d. vw_here v s u = Some (m, d) \<longrightarrow> m \<in> vw_there v s'))"
    "\<not> isl r \<Longrightarrow> set_has us u \<Longrightarrow> vw_here v s' u = None"
proof -
  have "vw_there v s \<subseteq> vw_there v s' \<and> (vw_here v s' u = vw_here v s u \<or>
      (vw_here v s' u = None \<and> set_has us u \<and> (\<forall>m d. vw_here v s u = Some (m, d) \<longrightarrow> m \<in> vw_there v s')))
      \<and> (isl r \<or> (set_has us u \<longrightarrow> vw_here v s' u = None))"
    using assms(2)
  proof (cases rule: command_cases)
    case (2 ps)
    then have "ps = [PText (''UID MOVE '' @ us), mailboxArg dest] \<and> seq_set_ok us" by (cases "checkSeqSet us") (auto simp: and_then_def dest: seq_text)
    then show ?thesis using assms(1) 2(2) unfolding moves_def by blast
  qed simp
  then show "vw_there v s \<subseteq> vw_there v s'"
    "vw_here v s' u = vw_here v s u \<or> (vw_here v s' u = None \<and> set_has us u \<and> (\<forall>m d. vw_here v s u = Some (m, d) \<longrightarrow> m \<in> vw_there v s'))"
    "\<not> isl r \<Longrightarrow> set_has us u \<Longrightarrow> vw_here v s' u = None" by blast+
qed

lemma native_move:
  assumes "moves c v dest" "bind (requireSelected c) (\<lambda>_. no_value (each (\<lambda>us. run_command c (CUidMove us dest)) (uidSets uids UID_SET_LENGTH))) s = (r, s')"
  shows "vw_there v s \<subseteq> vw_there v s'"
    "vw_here v s' u = vw_here v s u \<or> (vw_here v s' u = None \<and> int u \<in> set uids \<and> (\<forall>m d. vw_here v s u = Some (m, d) \<longrightarrow> m \<in> vw_there v s'))"
    "\<not> isl r \<Longrightarrow> int u \<in> set uids \<Longrightarrow> 0 < u \<Longrightarrow> vw_here v s' u = None"
proof -
  let ?f = "\<lambda>us. run_command c (CUidMove us dest)"
  let ?gone = "\<lambda>t u. vw_here v t u = vw_here v s u \<or> (vw_here v t u = None \<and> int u \<in> set uids \<and> (\<forall>m d. vw_here v s u = Some (m, d) \<longrightarrow> m \<in> vw_there v t))"
  let ?I = "\<lambda>t. vw_there v s \<subseteq> vw_there v t \<and> (\<forall>u. ?gone t u)" and ?Q = "\<lambda>us t. \<forall>u. set_has us u \<longrightarrow> vw_here v t u = None"
  have keep: "?I t'" if "us \<in> set (uidSets uids UID_SET_LENGTH)" "?I t" "?f us t = (q, t')" for us t q t'
  proof (intro conjI allI)
    note st = move_step[OF assms(1) that(3)]
    show "vw_there v s \<subseteq> vw_there v t'" using st(1) that(2) by blast
    show "?gone t' u" for u
    proof (cases "vw_here v t' u = vw_here v t u")
      case True
      then show ?thesis using that(2) st(1) by (metis subsetD)
    next
      case False
      then have "vw_here v t' u = None" "set_has us u" "\<forall>m d. vw_here v t u = Some (m, d) \<longrightarrow> m \<in> vw_there v t'" "vw_here v t u \<noteq> None"
        using st(2)[of u] by auto
      moreover from this(4) have "vw_here v t u = vw_here v s u" using that(2) by metis
      ultimately show ?thesis using that(1) uid_sets_have[of uids UID_SET_LENGTH u] by auto
    qed
  qed
  have i: "?I s'" by (rule loop_inv[OF assms(2), where I = ?I]) (simp, rule keep)
  then show "vw_there v s \<subseteq> vw_there v s'" "?gone s' u" by blast+
  assume a: "\<not> isl r" "int u \<in> set uids" "0 < u"
  have "\<forall>us\<in>set (uidSets uids UID_SET_LENGTH). ?Q us s'"
  proof (rule loop_post[OF assms(2) a(1), where I = ?I])
    show "?I s" by simp
    show "?I t'" if "us \<in> set (uidSets uids UID_SET_LENGTH)" "?I t" "?f us t = (q, t')" for us t q t' by (rule keep[OF that])
    show "?Q us t'" if "?f us t = (Inr x, t')" for us t x t' using move_step(3)[OF assms(1) that] by simp
    show "?Q us t'" if "?Q us t" "?f y t = (q, t')" for us y t q t' using move_step(2)[OF assms(1) that(2)] that(1) by metis
  qed
  then show "vw_here v s' u = None" using uid_sets_have[of uids UID_SET_LENGTH u] a(2,3) by blast
qed

lemma bind_cases:
  assumes "bind p f s = (r, s')"
  obtains e where "p s = (Inl e, s')" "r = Inl e" | a t where "p s = (Inr a, t)" "f a t = (r, s')"
  using assms by (cases "p s"; cases "fst (p s)") (auto simp: bind_def)

text \<open>What a message asked to be moved may have become, and one that was not.\<close>

definition safe_after :: "('s, 'm) mail_view \<Rightarrow> int list \<Rightarrow> bool \<Rightarrow> 's \<Rightarrow> 's \<Rightarrow> bool" where
  "safe_after v uids plain s s' \<longleftrightarrow> vw_there v s \<subseteq> vw_there v s' \<and> (\<forall>u m d. 0 < u \<and> vw_here v s u = Some (m, d) \<longrightarrow>
     (if int u \<in> set uids then (\<exists>d'. vw_here v s' u = Some (m, d')) \<or> m \<in> vw_there v s'
      else vw_here v s' u = Some (m, d) \<or> (d \<and> plain)))"

lemma fallback_move:
  assumes "follows_rfc c v dest"
    "bind (copy c uids dest) (\<lambda>_. bind (setFlagsSilent c uids [DELETED] True) (\<lambda>_. expungeUids c uids)) s = (r, s')"
  shows "safe_after v uids (\<exists>t. \<not> cn_has c t ''UIDPLUS'') s s' \<and>
    (\<not> isl r \<longrightarrow> (\<forall>u m d. int u \<in> set uids \<and> 0 < u \<and> vw_here v s u = Some (m, d) \<longrightarrow> vw_here v s' u = None \<and> m \<in> vw_there v s'))"
proof -
  have laws: "copies c v dest" "marks c v" "removes c v" using assms(1) by (simp_all add: follows_rfc_def)
  from assms(2) show ?thesis
  proof (cases rule: bind_cases)
    case (1 e)
    then show ?thesis using copy_run(1,2)[OF laws(1) 1(1)] by (auto simp: safe_after_def)
  next
    case copied: (2 a s1)
    note cp = copy_run[OF laws(1) copied(1)]
    from copied(2) show ?thesis
    proof (cases rule: bind_cases)
      case (1 e)
      note mk = mark_run[OF laws(2) 1(1)]
      have "\<exists>d'. vw_here v s' u = Some (m, d')" "int u \<notin> set uids \<Longrightarrow> vw_here v s' u = Some (m, d)" if "vw_here v s u = Some (m, d)" for u m d
        using mk(2)[of u] cp(1) that by (auto simp: marked_def)
      then show ?thesis using mk(1) cp(2) 1(2) by (auto simp: safe_after_def)
    next
      case marked: (2 b s2)
      note mk = mark_run[OF laws(2) marked(1)] and ex = expunge_run[OF laws(3) marked(2)]
      have there: "vw_there v s' = vw_there v s1" using mk(1) ex(1) by simp
      have fin: "vw_here v s' u = None \<and> m \<in> vw_there v s'" if "\<not> isl r" "int u \<in> set uids" "0 < u" "vw_here v s u = Some (m, d)" for u m d
        using ex(3)[OF that(1-3)] mk(3)[OF _ that(2,3)] cp(1) cp(3)[OF _ that(2,3)] that(4) there by (simp add: marked_def)
      have "(if int u \<in> set uids then (\<exists>d'. vw_here v s' u = Some (m, d')) \<or> m \<in> vw_there v s'
          else vw_here v s' u = Some (m, d) \<or> (d \<and> (\<exists>t. \<not> cn_has c t ''UIDPLUS'')))" if u: "vw_here v s u = Some (m, d)" "0 < u" for u m d
      proof (cases "int u \<in> set uids")
        case True
        show ?thesis
        proof (cases "isl (fst (copy c uids dest s))")
          case False
          then have "m \<in> vw_there v s1" using cp(3)[OF _ True u(2,1)] copied(1) by simp
          then show ?thesis using True there by simp
        qed (use copied(1) in simp)
      next
        case False
        then show ?thesis using ex(2)[of u] mk(2)[of u] cp(1) u by auto
      qed
      then have "safe_after v uids (\<exists>t. \<not> cn_has c t ''UIDPLUS'') s s'" unfolding safe_after_def using cp(2) there by blast
      then show ?thesis using fin by blast
    qed
  qed
qed

text \<open>C38: Moving messages loses none: on a server that does what the IMAP RFCs say of UID MOVE, UID COPY, UID STORE and EXPUNGE,
  whatever command fails (the connection too), every message that was to be moved is afterwards in the mailbox or in the destination; a
  message that was not is untouched, unless it was already marked as deleted and the server has neither MOVE nor UIDPLUS; and when the
  call succeeds all the messages are in the destination and none of them is left in the mailbox.\<close>

theorem move_loses_nothing:
  assumes "follows_rfc c v dest" "move c uids dest s = (r, s')"
  shows "safe_after v uids (\<not> cn_has c s ''MOVE'' \<and> (\<exists>t. \<not> cn_has c t ''UIDPLUS'')) s s' \<and>
    (\<not> isl r \<longrightarrow> (\<forall>u m d. int u \<in> set uids \<and> 0 < u \<and> vw_here v s u = Some (m, d) \<longrightarrow> vw_here v s' u = None \<and> m \<in> vw_there v s'))"
proof -
  have m: "moves c v dest" using assms(1) by (simp add: follows_rfc_def)
  let ?plain = "\<not> cn_has c s ''MOVE'' \<and> (\<exists>t. \<not> cn_has c t ''UIDPLUS'')"
  have "safe_after v uids ?plain s s' \<and>
    (\<not> isl r \<longrightarrow> (\<forall>u m d. int u \<in> set uids \<and> 0 < u \<and> vw_here v s u = Some (m, d) \<longrightarrow> vw_here v s' u = None \<and> m \<in> vw_there v s'))"
  proof (cases "cn_has c s ''MOVE''")
    case True
    then have run: "bind (requireSelected c) (\<lambda>_. no_value (each (\<lambda>us. run_command c (CUidMove us dest)) (uidSets uids UID_SET_LENGTH))) s = (r, s')"
      using assms(2) True by (cases "cn_selected c s") (auto simp: move_def bind_def requireSelected_def done_with_def fail_with_def)
    note nm = native_move[OF m run]
    have "(if int u \<in> set uids then (\<exists>d'. vw_here v s' u = Some (m, d')) \<or> m \<in> vw_there v s' else vw_here v s' u = Some (m, d))"
      if "vw_here v s u = Some (m, d)" for u m d using nm(2)[of u] that by auto
    moreover have "m \<in> vw_there v s'" if "vw_here v s u = Some (m, d)" "vw_here v s' u = None" for u m d using nm(2)[of u] that by auto
    ultimately show ?thesis using nm(1,3) by (auto simp: safe_after_def)
  next
    case False
    then have "(isl r \<and> s' = s) \<or>
        bind (copy c uids dest) (\<lambda>_. bind (setFlagsSilent c uids [DELETED] True) (\<lambda>_. expungeUids c uids)) s = (r, s')"
      using required[of c _ s r s'] assms(2) by (fastforce simp: move_def)
    then show ?thesis
    proof
      assume "bind (copy c uids dest) (\<lambda>_. bind (setFlagsSilent c uids [DELETED] True) (\<lambda>_. expungeUids c uids)) s = (r, s')"
      from fallback_move[OF assms(1) this] show ?thesis using False by simp
    qed (simp add: safe_after_def)
  qed
  then show ?thesis .
qed

text \<open>A small server: the messages by uid and those of the destination.\<close>

record demo_box =
  db_here :: "nat \<Rightarrow> (string \<times> bool) option"
  db_there :: "string set"

definition demo_ok :: "mail_error + imap_response \<times> imap_response list" where
  "demo_ok = Inr (\<lparr> ir_type = RTagged, ir_tag = None, ir_status = Some ''OK'', ir_data = [], ir_raw = [] \<rparr>, [])"

definition named :: "string \<Rightarrow> demo_box \<Rightarrow> string set" where
  "named us b = {m. \<exists>u d. set_has us u \<and> db_here b u = Some (m, d)}"

definition demo_next :: "demo_box \<Rightarrow> command_part list \<Rightarrow> demo_box" where
  "demo_next b ps = (case ps of PText t # r \<Rightarrow>
       if starts_with ''UID COPY '' t then b\<lparr> db_there := db_there b \<union> named (drop 9 t) b \<rparr>
       else if starts_with ''UID MOVE '' t then b\<lparr> db_there := db_there b \<union> named (drop 9 t) b,
         db_here := (\<lambda>u. if set_has (drop 9 t) u then None else db_here b u) \<rparr>
       else if starts_with ''UID STORE '' t then
         (let us = takeWhile (\<lambda>c. c \<noteq> CHR '' '') (drop 10 t) in
          b\<lparr> db_here := (\<lambda>u. if set_has us u then map_option (\<lambda>(m, d). (m, True)) (db_here b u) else db_here b u) \<rparr>)
       else if starts_with ''UID EXPUNGE '' t then
         b\<lparr> db_here := (\<lambda>u. if set_has (drop 12 t) u \<and> map_option snd (db_here b u) = Some True then None else db_here b u) \<rparr>
       else if t = ''EXPUNGE'' then
         b\<lparr> db_here := (\<lambda>u. if map_option snd (db_here b u) = Some True then None else db_here b u) \<rparr>
       else b | _ \<Rightarrow> b)"

definition demo_exec :: "demo_box \<Rightarrow> command_part list \<Rightarrow> (mail_error + imap_response \<times> imap_response list) \<times> demo_box" where
  "demo_exec b ps = (demo_ok, demo_next b ps)"

definition demo_conn :: "demo_box conn" where
  "demo_conn = \<lparr> cn_exec = demo_exec, cn_selected = (\<lambda>_. True), cn_has = (\<lambda>_ w. w = ''UIDPLUS'') \<rparr>"

definition demo_view :: "(demo_box, string) mail_view" where "demo_view = \<lparr> vw_here = db_here, vw_there = db_there \<rparr>"

lemma split_char: "x \<in> set s \<Longrightarrow> x \<noteq> d \<Longrightarrow> \<exists>p\<in>set (js_split d s). x \<in> set p"
  using js_join_split[of d s]
proof -
  assume a: "x \<in> set s" "x \<noteq> d"
  have "x \<in> set (js_join [d] ps) \<Longrightarrow> \<exists>p\<in>set ps. x \<in> set p" for ps
    using a(2) by (induction ps rule: induct_list012) auto
  then show ?thesis using a(1) js_join_split[of d s] by metis
qed

lemma set_no_space: "seq_set_ok us \<Longrightarrow> takeWhile (\<lambda>c. c \<noteq> CHR '' '') (us @ CHR '' '' # r) = us"
proof -
  assume "seq_set_ok us"
  have n: "CHR '' '' \<notin> set a" if "seq_num_ok a" for a using that by (auto simp: seq_num_ok_def list_all_iff is_digit_def)
  have "CHR '' '' \<notin> set r" if "seq_range_ok r" for r
    using that n split_char[of "CHR '' ''" r "CHR '':''"] by (auto simp: seq_range_ok_def split: list.splits)
  then have "CHR '' '' \<notin> set us" using \<open>seq_set_ok us\<close> split_char[of "CHR '' ''" us "CHR '',''"] by (auto simp: seq_set_ok_def list_all_iff)
  then show ?thesis by (simp add: takeWhile_append takeWhile_eq_all_conv)
qed

lemma demo_follows_rfc: "follows_rfc demo_conn demo_view dest"
proof -
  have "copies demo_conn demo_view dest"
    by (auto simp: copies_def demo_conn_def demo_view_def demo_exec_def demo_next_def starts_with_def named_def demo_ok_def)
  moreover have "moves demo_conn demo_view dest"
    by (auto simp: moves_def demo_conn_def demo_view_def demo_exec_def demo_next_def starts_with_def named_def demo_ok_def)
  moreover have "marks demo_conn demo_view"
    using set_no_space by (auto simp: marks_def demo_conn_def demo_view_def demo_exec_def demo_next_def starts_with_def demo_ok_def Let_def)
  moreover have "removes demo_conn demo_view"
    by (auto simp: removes_def demo_conn_def demo_view_def demo_exec_def demo_next_def starts_with_def demo_ok_def split: if_splits)
  ultimately show ?thesis by (simp add: follows_rfc_def)
qed

definition demo_start :: demo_box where
  "demo_start = \<lparr> db_here = (\<lambda>u. if u = 3 then Some (''three'', False) else if u = 5 then Some (''five'', True) else None), db_there = {} \<rparr>"

theorem move_loses_nothing_witness:
  "\<exists>r s'. move demo_conn [3] (units_of ''Archive'') demo_start = (r, s') \<and> \<not> isl r \<and> ''three'' \<in> db_there s' \<and> db_here s' 3 = None
     \<and> db_here s' 5 = Some (''five'', True)"
proof -
  obtain r s' where run: "move demo_conn [3] (units_of ''Archive'') demo_start = (r, s')" by fastforce
  note p = move_loses_nothing[OF demo_follows_rfc run]
  have sets: "uidSets [3] UID_SET_LENGTH = [''3'']" by code_simp
  have "\<not> isl (fst (move demo_conn [3] (units_of ''Archive'') demo_start))"
  proof -
    have chk: "checkSeqSet ''3'' = Inr ''3''" by code_simp
    show ?thesis
      by (simp add: move_def copy_def setFlagsSilent_def expungeUids_def no_value_def bind_def requireSelected_def done_with_def sets run_command_def
          chk seq_flags and_then_def demo_conn_def demo_exec_def demo_ok_def Let_def)
  qed
  then have "\<not> isl r" using run by simp
  moreover have h: "vw_here demo_view demo_start 3 = Some (''three'', False)" "vw_here demo_view demo_start 5 = Some (''five'', True)"
    by (simp_all add: demo_view_def demo_start_def)
  ultimately have "vw_here demo_view s' 3 = None \<and> ''three'' \<in> vw_there demo_view s'"
    using p[THEN conjunct2, rule_format, of 3 "''three''" False] by simp
  moreover have "vw_here demo_view s' 5 = Some (''five'', True)"
    using p[THEN conjunct1, unfolded safe_after_def, THEN conjunct2, rule_format, of 5 "''five''" True] h(2) by (simp add: demo_conn_def)
  ultimately show ?thesis using run \<open>\<not> isl r\<close> by (simp add: demo_view_def)
qed

end
