(* ===== verification/ImapPool.thy ===== *)
theory ImapPool
  imports Errors
begin

text \<open>
  src/src/imap/ImapPool.ts: IMAP sessions lent to callers, a bounded number per account and in total.  A step is one
  turn of the event loop.  The slots are objects: the map of the pool holds their numbers, a store their contents.
  A session is a number; opening, using and closing one is left to the caller, the pool only counts the close()
  calls.  pl_leases, pl_ended and pl_refused record who holds a slot and how each use() ended.
\<close>

section \<open>State\<close>

record ipool_config =
  ic_maxSessions :: nat
  ic_maxPerAccount :: nat
  ic_idleTimeoutMs :: nat
  ic_acquireTimeoutMs :: nat

record ipool_slot =
  sl_key :: string
  sl_session :: "nat option"
  sl_busy :: bool
  sl_retired :: bool
  sl_lastUsed :: nat
  sl_timer :: bool

record ipool_waiter =
  wt_caller :: nat
  wt_key :: string

record imap_pool =
  pl_store :: "nat \<Rightarrow> ipool_slot"
  pl_next :: nat
  pl_slots :: "(string, nat list) jsmap"
  pl_waiters :: "ipool_waiter list"
  pl_closed :: bool
  pl_closes :: "nat list"
  pl_leases :: "(nat \<times> nat) list"
  pl_ended :: "nat list"
  pl_refused :: "(nat \<times> mail_error) list"

section \<open>Slots\<close>

definition change_slot :: "nat \<Rightarrow> (ipool_slot \<Rightarrow> ipool_slot) \<Rightarrow> imap_pool \<Rightarrow> imap_pool" where
  "change_slot i f p = p \<lparr> pl_store := (pl_store p)(i := f (pl_store p i)) \<rparr>"

definition slots_of :: "imap_pool \<Rightarrow> string \<Rightarrow> nat list" where
  "slots_of p key = (case map_of (pl_slots p) key of Some l \<Rightarrow> l | None \<Rightarrow> [])"

definition all_slots :: "imap_pool \<Rightarrow> nat list" where "all_slots p = concat (jsvals (pl_slots p))"

definition ipool_total :: "imap_pool \<Rightarrow> nat" where "ipool_total p = length (all_slots p)"

definition idle_slot :: "imap_pool \<Rightarrow> nat \<Rightarrow> bool" where
  "idle_slot p i \<longleftrightarrow> \<not> sl_busy (pl_store p i) \<and> \<not> sl_retired (pl_store p i)"

definition older_idle :: "imap_pool \<Rightarrow> nat \<Rightarrow> nat option \<Rightarrow> nat option" where
  "older_idle p i best = (if idle_slot p i \<and> (case best of None \<Rightarrow> True | Some b \<Rightarrow> sl_lastUsed (pl_store p i) < sl_lastUsed (pl_store p b))
     then Some i else best)"

definition lruIdle :: "imap_pool \<Rightarrow> nat option" where "lruIdle p = fold (older_idle p) (all_slots p) None"

definition remove_slot :: "nat \<Rightarrow> imap_pool \<Rightarrow> imap_pool" where
  "remove_slot i p = (let s = pl_store p i; l = filter (\<lambda>j. j \<noteq> i) (slots_of p (sl_key s)) in
     (change_slot i (\<lambda>s. s \<lparr> sl_timer := False \<rparr>) p)
       \<lparr> pl_slots := (if l \<noteq> [] then AList.update (sl_key s) l (pl_slots p) else AList.delete (sl_key s) (pl_slots p)),
         pl_closes := pl_closes p @ (case sl_session s of Some n \<Rightarrow> [n] | None \<Rightarrow> []) \<rparr>)"

definition add_slot :: "string \<Rightarrow> nat list \<Rightarrow> nat \<Rightarrow> imap_pool \<Rightarrow> imap_pool" where
  "add_slot key l now p = (let i = pl_next p in p \<lparr> pl_next := Suc i,
     pl_store := (pl_store p)(i := \<lparr> sl_key = key, sl_session = None, sl_busy = True, sl_retired = False, sl_lastUsed = now, sl_timer = False \<rparr>),
     pl_slots := AList.update key (l @ [i]) (pl_slots p) \<rparr>)"

text \<open>An idle session of the account, or a new slot, for which another account's session may be closed.\<close>

definition tryTake :: "ipool_config \<Rightarrow> string \<Rightarrow> nat \<Rightarrow> imap_pool \<Rightarrow> (nat \<times> imap_pool) option" where
  "tryTake cfg key now p = (let l = slots_of p key in
     case find (idle_slot p) l of
       Some i \<Rightarrow> Some (i, change_slot i (\<lambda>s. s \<lparr> sl_timer := False, sl_busy := True \<rparr>) p)
     | None \<Rightarrow>
         if ic_maxPerAccount cfg \<le> length l then None
         else if ic_maxSessions cfg \<le> ipool_total p then
           (case lruIdle p of None \<Rightarrow> None
            | Some v \<Rightarrow> Some (pl_next p, add_slot key l now (remove_slot v (change_slot v (\<lambda>s. s \<lparr> sl_retired := True \<rparr>) p))))
         else Some (pl_next p, add_slot key l now p))"

section \<open>Callers\<close>

definition lend :: "nat \<Rightarrow> nat \<Rightarrow> imap_pool \<Rightarrow> imap_pool" where "lend i c p = p \<lparr> pl_leases := pl_leases p @ [(i, c)] \<rparr>"

definition refuse_use :: "nat \<Rightarrow> mail_error \<Rightarrow> imap_pool \<Rightarrow> imap_pool" where "refuse_use c e p = p \<lparr> pl_refused := pl_refused p @ [(c, e)] \<rparr>"

definition pool_closed_error :: mail_error where "pool_closed_error = ImapError ''ImapPool is closed'' False EIMAP None"

definition acquire_slot :: "ipool_config \<Rightarrow> nat \<Rightarrow> string \<Rightarrow> nat \<Rightarrow> imap_pool \<Rightarrow> imap_pool" where
  "acquire_slot cfg c key now p =
     (if pl_closed p then refuse_use c pool_closed_error p
      else case (if pl_waiters p = [] then tryTake cfg key now p else None) of
        Some (i, p1) \<Rightarrow> lend i c p1
      | None \<Rightarrow> p \<lparr> pl_waiters := pl_waiters p @ [\<lparr> wt_caller = c, wt_key = key \<rparr>] \<rparr>)"

text \<open>The waiters left, and the pool after serving the others in order.\<close>

fun pump_from :: "ipool_config \<Rightarrow> nat \<Rightarrow> ipool_waiter list \<Rightarrow> imap_pool \<Rightarrow> ipool_waiter list \<times> imap_pool" where
  "pump_from cfg now [] p = ([], p)"
| "pump_from cfg now (w # ws) p = (case tryTake cfg (wt_key w) now p of
     None \<Rightarrow> (let (left, p1) = pump_from cfg now ws p in (w # left, p1))
   | Some (i, p1) \<Rightarrow> pump_from cfg now ws (lend i (wt_caller w) p1))"

definition pump :: "ipool_config \<Rightarrow> nat \<Rightarrow> imap_pool \<Rightarrow> imap_pool" where
  "pump cfg now p = (let (left, p1) = pump_from cfg now (pl_waiters p) p in p1 \<lparr> pl_waiters := left \<rparr>)"

definition retire :: "ipool_config \<Rightarrow> nat \<Rightarrow> nat \<Rightarrow> imap_pool \<Rightarrow> imap_pool" where
  "retire cfg now i p = (let p1 = change_slot i (\<lambda>s. s \<lparr> sl_retired := True \<rparr>) p in
     if sl_busy (pl_store p i) then p1 else pump cfg now (remove_slot i p1))"

text \<open>The callback has ended, with an authentication error or not; a slot whose session was never opened is given up.\<close>

definition release_slot :: "ipool_config \<Rightarrow> nat \<Rightarrow> bool \<Rightarrow> nat \<Rightarrow> imap_pool \<Rightarrow> imap_pool" where
  "release_slot cfg i authFailed now p =
     (let p1 = change_slot i (\<lambda>s. s \<lparr> sl_busy := False, sl_lastUsed := now, sl_retired := sl_retired s \<or> authFailed \<or> sl_session s = None \<rparr>)
           (p \<lparr> pl_leases := filter (\<lambda>l. fst l \<noteq> i) (pl_leases p),
                pl_ended := pl_ended p @ map snd (filter (\<lambda>l. fst l = i) (pl_leases p)) \<rparr>);
          p2 = (if sl_retired (pl_store p1 i) then remove_slot i p1
                else if 0 < ic_idleTimeoutMs cfg then change_slot i (\<lambda>s. s \<lparr> sl_timer := True \<rparr>) p1 else p1)
      in pump cfg now p2)"

definition rejectWaiters :: "(ipool_waiter \<Rightarrow> bool) \<Rightarrow> mail_error \<Rightarrow> imap_pool \<Rightarrow> imap_pool" where
  "rejectWaiters match e p = p \<lparr> pl_waiters := filter (\<lambda>w. \<not> match w) (pl_waiters p),
     pl_refused := pl_refused p @ rev (map (\<lambda>w. (wt_caller w, e)) (filter match (pl_waiters p))) \<rparr>"

definition close_account :: "ipool_config \<Rightarrow> string \<Rightarrow> nat \<Rightarrow> imap_pool \<Rightarrow> imap_pool" where
  "close_account cfg key now p =
     (let p1 = rejectWaiters (\<lambda>w. wt_key w = key) (ImapError (''ImapPool: sessions for '' @ [dquote] @ key @ [dquote] @ '' were closed'') False EIMAP None) p
      in fold (retire cfg now) (slots_of p1 key) p1)"

definition closeAll :: "ipool_config \<Rightarrow> nat \<Rightarrow> imap_pool \<Rightarrow> imap_pool" where
  "closeAll cfg now p = (let p1 = rejectWaiters (\<lambda>w. True) pool_closed_error (p \<lparr> pl_closed := True \<rparr>)
     in fold (retire cfg now) (all_slots p1) p1)"

definition acquire_timeout :: "ipool_config \<Rightarrow> nat \<Rightarrow> imap_pool \<Rightarrow> imap_pool" where
  "acquire_timeout cfg c p = (case find (\<lambda>w. wt_caller w = c) (pl_waiters p) of None \<Rightarrow> p
     | Some w \<Rightarrow> refuse_use c (ImapError (''ImapPool: no session for '' @ [dquote] @ wt_key w @ [dquote] @ '' within '' @ show_nat (ic_acquireTimeoutMs cfg) @ '' ms'')
          True ETIMEOUT None) (p \<lparr> pl_waiters := remove1 w (pl_waiters p) \<rparr>))"

text \<open>settle() goes on while a retired slot is still lent.\<close>

definition hasRetiredBusy :: "imap_pool \<Rightarrow> bool" where
  "hasRetiredBusy p \<longleftrightarrow> list_ex (\<lambda>i. sl_retired (pl_store p i) \<and> sl_busy (pl_store p i)) (all_slots p)"

record ipool_stats =
  is_accounts :: nat
  is_sessions :: nat
  is_busy :: nat
  is_waiting :: nat

definition ipool_stats_of :: "imap_pool \<Rightarrow> ipool_stats" where
  "ipool_stats_of p = \<lparr> is_accounts = length (pl_slots p), is_sessions = ipool_total p,
     is_busy = length (filter (\<lambda>i. sl_busy (pl_store p i)) (all_slots p)), is_waiting = length (pl_waiters p) \<rparr>"

section \<open>Steps\<close>

datatype ipool_op = PUse nat string nat | POpened nat nat | PRelease nat bool nat | PTimeout nat | PIdleTimer nat nat
  | PClose string nat | PCloseAll nat

fun ipool_step :: "ipool_config \<Rightarrow> imap_pool \<Rightarrow> ipool_op \<Rightarrow> imap_pool" where
  "ipool_step cfg p (PUse c key now) = acquire_slot cfg c key now p"
| "ipool_step cfg p (POpened i n) = change_slot i (\<lambda>s. s \<lparr> sl_session := Some n \<rparr>) p"
| "ipool_step cfg p (PRelease i authFailed now) = release_slot cfg i authFailed now p"
| "ipool_step cfg p (PTimeout c) = acquire_timeout cfg c p"
| "ipool_step cfg p (PIdleTimer i now) = retire cfg now i p"
| "ipool_step cfg p (PClose key now) = close_account cfg key now p"
| "ipool_step cfg p (PCloseAll now) = closeAll cfg now p"

text \<open>A slot is opened and released by the caller it is lent to; an idle timer fires when it is set.\<close>

definition ipool_ok :: "imap_pool \<Rightarrow> ipool_op \<Rightarrow> bool" where
  "ipool_ok p op = (case op of POpened i n \<Rightarrow> i \<in> fst ` set (pl_leases p) | PRelease i f now \<Rightarrow> i \<in> fst ` set (pl_leases p)
     | PIdleTimer i now \<Rightarrow> sl_timer (pl_store p i) | _ \<Rightarrow> True)"

definition new_ipool :: imap_pool where
  "new_ipool = \<lparr> pl_store = (\<lambda>_. \<lparr> sl_key = [], sl_session = None, sl_busy = False, sl_retired = False, sl_lastUsed = 0, sl_timer = False \<rparr>),
     pl_next = 0, pl_slots = [], pl_waiters = [], pl_closed = False, pl_closes = [], pl_leases = [], pl_ended = [], pl_refused = [] \<rparr>"

section \<open>The invariant\<close>

text \<open>The slots in X are being changed: what is said of busy, retired and the timer does not hold of them.\<close>

definition lists_good :: "ipool_config \<Rightarrow> imap_pool \<Rightarrow> bool" where
  "lists_good cfg p \<longleftrightarrow> distinct (jskeys (pl_slots p)) \<and> distinct (all_slots p) \<and> ipool_total p \<le> ic_maxSessions cfg \<and>
     (\<forall>k l. map_of (pl_slots p) k = Some l \<longrightarrow> l \<noteq> [] \<and> length l \<le> ic_maxPerAccount cfg \<and> (\<forall>i\<in>set l. sl_key (pl_store p i) = k \<and> i < pl_next p))"

definition leases_good :: "nat set \<Rightarrow> imap_pool \<Rightarrow> bool" where
  "leases_good X p \<longleftrightarrow> fst ` set (pl_leases p) \<subseteq> set (all_slots p) \<and> distinct (map fst (pl_leases p)) \<and>
     (\<forall>i\<in>set (all_slots p) - X. (sl_busy (pl_store p i) \<longleftrightarrow> i \<in> fst ` set (pl_leases p)) \<and> (sl_retired (pl_store p i) \<longrightarrow> sl_busy (pl_store p i))) \<and>
     (\<forall>i. i \<notin> X \<and> sl_timer (pl_store p i) \<longrightarrow> i \<in> set (all_slots p) \<and> \<not> sl_busy (pl_store p i))"

definition ipool_good :: "ipool_config \<Rightarrow> nat set \<Rightarrow> imap_pool \<Rightarrow> bool" where
  "ipool_good cfg X p \<longleftrightarrow> lists_good cfg p \<and> leases_good X p"

lemma mset_jsvals_update: "distinct (jskeys m) \<Longrightarrow>
   mset (concat (jsvals (AList.update k v m))) + mset (case map_of m k of Some l \<Rightarrow> l | None \<Rightarrow> []) = mset (concat (jsvals m)) + mset v"
proof (induction m)
  case (Cons a m)
  obtain k' v' where a: "a = (k', v')" by fastforce
  have "map_of m k = None" if "k' = k" using Cons.prems that a by (simp add: map_of_eq_None_iff)
  then show ?case using Cons a by (cases "k' = k") (auto simp: ac_simps)
qed simp

lemma mset_jsvals_delete: "distinct (jskeys m) \<Longrightarrow>
   mset (concat (jsvals (AList.delete k m))) + mset (case map_of m k of Some l \<Rightarrow> l | None \<Rightarrow> []) = mset (concat (jsvals m))"
proof (induction m)
  case (Cons a m)
  obtain k' v' where a: "a = (k', v')" by fastforce
  have "map_of m k = None" "AList.delete k m = m" if "k' = k" using Cons.prems that a by (simp_all add: map_of_eq_None_iff delete_fresh)
  then show ?case using Cons a by (cases "k' = k") (auto simp: ac_simps)
qed simp

lemma mset_concat_eq: "mset xs = mset ys \<Longrightarrow> set xs = set ys \<and> length xs = length ys \<and> distinct xs = distinct ys"
  by (metis mset_eq_setD mset_eq_length mset_eq_imp_distinct_iff)

lemma slots_of_sub: "set (slots_of p k) \<subseteq> set (all_slots p)"
proof (cases "map_of (pl_slots p) k")
  case (Some l)
  then show ?thesis using map_of_SomeD[OF Some] by (force simp: slots_of_def all_slots_def)
qed (simp add: slots_of_def)

lemma slots_of_distinct: "distinct (all_slots p) \<Longrightarrow> distinct (slots_of p k)"
  by (auto simp: slots_of_def all_slots_def distinct_concat_iff split: option.split dest!: map_of_SomeD)

lemma slot_listed: "lists_good cfg p \<Longrightarrow> i \<in> set (all_slots p) \<longleftrightarrow> i \<in> set (slots_of p (sl_key (pl_store p i)))"
proof -
  assume g: "lists_good cfg p"
  show ?thesis
  proof
    assume "i \<in> set (all_slots p)"
    then obtain k l where "(k, l) \<in> set (pl_slots p)" "i \<in> set l" by (auto simp: all_slots_def)
    then have "map_of (pl_slots p) k = Some l" using g by (simp add: lists_good_def)
    then show "i \<in> set (slots_of p (sl_key (pl_store p i)))" using g \<open>i \<in> set l\<close> by (auto simp: lists_good_def slots_of_def)
  next
    assume "i \<in> set (slots_of p (sl_key (pl_store p i)))"
    then show "i \<in> set (all_slots p)" using slots_of_sub by blast
  qed
qed

lemma change_simps [simp]: "pl_slots (change_slot i f p) = pl_slots p" "pl_leases (change_slot i f p) = pl_leases p" "pl_next (change_slot i f p) = pl_next p"
  "pl_store (change_slot i f p) = (pl_store p)(i := f (pl_store p i))" "all_slots (change_slot i f p) = all_slots p" "slots_of (change_slot i f p) k = slots_of p k"
  "ipool_total (change_slot i f p) = ipool_total p" "pl_waiters (change_slot i f p) = pl_waiters p" "pl_closed (change_slot i f p) = pl_closed p"
  "pl_ended (change_slot i f p) = pl_ended p" "pl_refused (change_slot i f p) = pl_refused p"
  by (simp_all add: change_slot_def all_slots_def slots_of_def ipool_total_def)

lemma change_good: "ipool_good cfg X p \<Longrightarrow> (\<And>s. sl_key (f s) = sl_key s) \<Longrightarrow> ipool_good cfg (insert i X) (change_slot i f p)"
  by (auto simp: ipool_good_def lists_good_def leases_good_def)

lemma remove_all:
  assumes "lists_good cfg p"
  shows "mset (all_slots (remove_slot i p)) = filter_mset (\<lambda>j. j \<noteq> i) (mset (all_slots p))"
proof -
  let ?k = "sl_key (pl_store p i)"
  let ?l = "filter (\<lambda>j. j \<noteq> i) (slots_of p ?k)"
  have d: "distinct (jskeys (pl_slots p))" using assms by (simp add: lists_good_def)
  have "mset (all_slots (remove_slot i p)) + mset (slots_of p ?k) = mset (all_slots p) + mset ?l"
    using mset_jsvals_update[OF d, of ?k ?l] mset_jsvals_delete[OF d, of ?k]
    by (cases "?l = []") (simp_all add: remove_slot_def Let_def all_slots_def flip: slots_of_def)
  moreover have "mset (slots_of p ?k) = mset ?l + filter_mset (\<lambda>j. j = i) (mset (slots_of p ?k))"
    by (metis mset_filter multiset_partition add.commute)
  moreover have "filter_mset (\<lambda>j. j = i) (mset (slots_of p ?k)) = filter_mset (\<lambda>j. j = i) (mset (all_slots p))"
  proof -
    have "distinct (all_slots p)" using assms by (simp add: lists_good_def)
    moreover have "distinct (slots_of p ?k)" using slots_of_distinct calculation by blast
    ultimately show ?thesis using slot_listed[OF assms, of i] by (simp add: filter_eq_replicate_mset count_mset_set distinct_count_atmost_1)
  qed
  moreover have "mset (all_slots p) = filter_mset (\<lambda>j. j \<noteq> i) (mset (all_slots p)) + filter_mset (\<lambda>j. j = i) (mset (all_slots p))"
    by (metis multiset_partition add.commute)
  ultimately show ?thesis by (smt (verit) add.assoc add.commute add_right_cancel)
qed

lemma remove_simps [simp]: "pl_leases (remove_slot i p) = pl_leases p" "pl_next (remove_slot i p) = pl_next p" "pl_waiters (remove_slot i p) = pl_waiters p"
  "pl_closed (remove_slot i p) = pl_closed p" "pl_ended (remove_slot i p) = pl_ended p" "pl_refused (remove_slot i p) = pl_refused p"
  "pl_store (remove_slot i p) = (pl_store p)(i := (pl_store p i) \<lparr> sl_timer := False \<rparr>)"
  by (simp_all add: remove_slot_def Let_def change_slot_def)

lemma remove_view:
  assumes "lists_good cfg p"
  shows "set (all_slots (remove_slot i p)) = set (all_slots p) - {i}" "distinct (all_slots (remove_slot i p))"
    "ipool_total (remove_slot i p) = (if i \<in> set (all_slots p) then ipool_total p - 1 else ipool_total p)"
proof -
  have "mset (all_slots (remove_slot i p)) = mset (filter (\<lambda>j. j \<noteq> i) (all_slots p))" using remove_all[OF assms, of i] by simp
  note m = mset_concat_eq[OF this]
  have d: "distinct (all_slots p)" using assms by (simp add: lists_good_def)
  show "set (all_slots (remove_slot i p)) = set (all_slots p) - {i}" using m by auto
  show "distinct (all_slots (remove_slot i p))" using m d by simp
  have "length (filter (\<lambda>j. j \<noteq> i) (all_slots p)) = length (remove1 i (all_slots p))"
    using d by (simp add: distinct_remove1_removeAll removeAll_filter_not_eq neq_commute)
  also have "\<dots> = (if i \<in> set (all_slots p) then length (all_slots p) - 1 else length (all_slots p))" by (simp add: length_remove1)
  finally have "length (filter (\<lambda>j. j \<noteq> i) (all_slots p)) = (if i \<in> set (all_slots p) then length (all_slots p) - 1 else length (all_slots p))" .
  then show "ipool_total (remove_slot i p) = (if i \<in> set (all_slots p) then ipool_total p - 1 else ipool_total p)" using m by (simp add: ipool_total_def)
qed

lemma slots_of_remove: "k \<noteq> sl_key (pl_store p i) \<Longrightarrow> slots_of (remove_slot i p) k = slots_of p k"
  by (simp add: remove_slot_def Let_def slots_of_def map_of_update map_of_delete)

lemma map_of_remove: "map_of (pl_slots (remove_slot i p)) k =
   (if k = sl_key (pl_store p i) then (let l = filter (\<lambda>j. j \<noteq> i) (slots_of p k) in if l = [] then None else Some l) else map_of (pl_slots p) k)"
  by (simp add: remove_slot_def Let_def map_of_update map_of_delete)

lemma remove_good:
  assumes "ipool_good cfg {i} p" "i \<notin> fst ` set (pl_leases p)"
  shows "ipool_good cfg {} (remove_slot i p)"
proof -
  have l: "lists_good cfg p" and g: "leases_good {i} p" using assms(1) by (simp_all add: ipool_good_def)
  note v = remove_view[OF l, of i]
  have "distinct (jskeys (pl_slots (remove_slot i p)))"
    using l by (simp add: remove_slot_def Let_def lists_good_def distinct_keys_update distinct_keys_delete)
  moreover have "ipool_total (remove_slot i p) \<le> ic_maxSessions cfg" using v(3) l by (auto simp: lists_good_def)
  moreover have "la \<noteq> [] \<and> length la \<le> ic_maxPerAccount cfg \<and> (\<forall>j\<in>set la. sl_key (pl_store (remove_slot i p) j) = k \<and> j < pl_next (remove_slot i p))"
    if "map_of (pl_slots (remove_slot i p)) k = Some la" for k la
  proof -
    have "\<exists>l0. map_of (pl_slots p) k = Some l0 \<and> set la \<subseteq> set l0 \<and> length la \<le> length l0 \<and> la \<noteq> []"
    proof (cases "k = sl_key (pl_store p i)")
      case True
      then have "la = filter (\<lambda>j. j \<noteq> i) (slots_of p k)" "la \<noteq> []" using that by (auto simp: map_of_remove Let_def split: if_splits)
      then show ?thesis by (cases "map_of (pl_slots p) k") (auto simp: slots_of_def)
    next
      case False
      then show ?thesis using that l by (auto simp: map_of_remove lists_good_def)
    qed
    then obtain l0 where l0: "map_of (pl_slots p) k = Some l0" "set la \<subseteq> set l0" "length la \<le> length l0" "la \<noteq> []" by blast
    have "length l0 \<le> ic_maxPerAccount cfg" "\<forall>j\<in>set l0. sl_key (pl_store p j) = k \<and> j < pl_next p" using l l0(1) by (simp_all add: lists_good_def)
    then show ?thesis using l0 by auto
  qed
  ultimately have "lists_good cfg (remove_slot i p)" using v(2) by (simp add: lists_good_def)
  moreover have "leases_good {} (remove_slot i p)" using g assms(2) v(1) by (auto simp: leases_good_def)
  ultimately show ?thesis by (simp add: ipool_good_def)
qed

lemma older_idle_cases: "older_idle p i best = best \<and> (best = None \<longrightarrow> \<not> idle_slot p i) \<or> older_idle p i best = Some i \<and> idle_slot p i"
  by (auto simp: older_idle_def split: option.splits)

lemma lru_fold: "fold (older_idle p) is b0 = b0 \<and> (b0 = None \<longrightarrow> (\<forall>i\<in>set is. \<not> idle_slot p i)) \<or>
   (\<exists>v\<in>set is. fold (older_idle p) is b0 = Some v \<and> idle_slot p v)"
proof (induction "is" arbitrary: b0)
  case (Cons i "is")
  let ?b = "older_idle p i b0"
  have f: "fold (older_idle p) (i # is) b0 = fold (older_idle p) is ?b" by simp
  consider (later) v where "v \<in> set is" "fold (older_idle p) is ?b = Some v" "idle_slot p v"
    | (same) "fold (older_idle p) is ?b = ?b" "?b = None \<longrightarrow> (\<forall>i\<in>set is. \<not> idle_slot p i)" using Cons.IH[of ?b] by blast
  then show ?case
  proof cases
    case later
    then show ?thesis unfolding f by (metis list.set_intros(2))
  next
    case same
    then show ?thesis unfolding f using older_idle_cases[of p i b0] by (metis list.set_intros(1) set_ConsD)
  qed
qed simp

lemma lru_some: "lruIdle p = Some v \<Longrightarrow> v \<in> set (all_slots p) \<and> idle_slot p v"
  using lru_fold[of p "all_slots p" None] by (auto simp: lruIdle_def)

lemma lru_none: "lruIdle p = None \<longleftrightarrow> (\<forall>i\<in>set (all_slots p). \<not> idle_slot p i)"
  using lru_fold[of p "all_slots p" None] by (auto simp: lruIdle_def)

text \<open>When no session can be had for an account.\<close>

definition blocked :: "ipool_config \<Rightarrow> string \<Rightarrow> imap_pool \<Rightarrow> bool" where
  "blocked cfg key p \<longleftrightarrow> (\<forall>i\<in>set (slots_of p key). \<not> idle_slot p i) \<and>
     (ic_maxPerAccount cfg \<le> length (slots_of p key) \<or> (ic_maxSessions cfg \<le> ipool_total p \<and> (\<forall>i\<in>set (all_slots p). \<not> idle_slot p i)))"

lemma tryTake_none: "tryTake cfg key now p = None \<longleftrightarrow> blocked cfg key p"
proof (cases "find (idle_slot p) (slots_of p key)")
  case None
  then have n: "\<forall>i\<in>set (slots_of p key). \<not> idle_slot p i" by (simp add: find_None_iff)
  show ?thesis
  proof (cases "lruIdle p")
    case N: None
    then have "\<forall>i\<in>set (all_slots p). \<not> idle_slot p i" by (simp add: lru_none)
    then show ?thesis using n None N by (simp add: tryTake_def blocked_def Let_def)
  next
    case (Some v)
    then have "\<exists>i\<in>set (all_slots p). idle_slot p i" using lru_some by blast
    then show ?thesis using n None Some by (auto simp add: tryTake_def blocked_def Let_def)
  qed
next
  case (Some i)
  then have "i \<in> set (slots_of p key)" "idle_slot p i" by (auto simp: find_Some_iff)
  then show ?thesis using Some by (simp add: tryTake_def blocked_def Let_def) blast
qed

section \<open>Taking a session\<close>

lemma slots_below: "lists_good cfg p \<Longrightarrow> i \<in> set (all_slots p) \<Longrightarrow> i < pl_next p"
proof -
  assume g: "lists_good cfg p" and "i \<in> set (all_slots p)"
  then obtain k l where "(k, l) \<in> set (pl_slots p)" "i \<in> set l" by (auto simp: all_slots_def)
  then have "map_of (pl_slots p) k = Some l" using g by (simp add: lists_good_def)
  then show ?thesis using g \<open>i \<in> set l\<close> by (auto simp: lists_good_def)
qed

lemma lend_simps [simp]: "pl_store (lend i c p) = pl_store p" "pl_slots (lend i c p) = pl_slots p" "pl_next (lend i c p) = pl_next p"
  "pl_leases (lend i c p) = pl_leases p @ [(i, c)]" "all_slots (lend i c p) = all_slots p" "slots_of (lend i c p) k = slots_of p k"
  "ipool_total (lend i c p) = ipool_total p" "pl_waiters (lend i c p) = pl_waiters p" "pl_closed (lend i c p) = pl_closed p"
  "pl_ended (lend i c p) = pl_ended p" "pl_refused (lend i c p) = pl_refused p" "idle_slot (lend i c p) = idle_slot p"
  by (simp_all add: lend_def all_slots_def slots_of_def ipool_total_def idle_slot_def fun_eq_iff)

lemma add_simps [simp]: "pl_leases (add_slot key l now p) = pl_leases p" "pl_next (add_slot key l now p) = Suc (pl_next p)"
  "pl_waiters (add_slot key l now p) = pl_waiters p" "pl_closed (add_slot key l now p) = pl_closed p"
  "pl_ended (add_slot key l now p) = pl_ended p" "pl_refused (add_slot key l now p) = pl_refused p"
  "slots_of (add_slot key l now p) k = (if k = key then l @ [pl_next p] else slots_of p k)"
  "pl_store (add_slot key l now p) = (pl_store p)(pl_next p := \<lparr> sl_key = key, sl_session = None, sl_busy = True, sl_retired = False, sl_lastUsed = now, sl_timer = False \<rparr>)"
  by (simp_all add: add_slot_def Let_def slots_of_def map_of_update)

lemma add_all:
  assumes "lists_good cfg p"
  shows "mset (all_slots (add_slot key (slots_of p key) now p)) = add_mset (pl_next p) (mset (all_slots p))"
proof -
  have "distinct (jskeys (pl_slots p))" using assms by (simp add: lists_good_def)
  note mset_jsvals_update[OF this, of key "slots_of p key @ [pl_next p]"]
  then show ?thesis by (simp add: add_slot_def Let_def all_slots_def flip: slots_of_def)
qed

lemma add_good:
  assumes "ipool_good cfg {} p" "length (slots_of p key) < ic_maxPerAccount cfg" "ipool_total p < ic_maxSessions cfg"
  shows "ipool_good cfg {} (lend (pl_next p) c (add_slot key (slots_of p key) now p))"
proof -
  let ?p = "add_slot key (slots_of p key) now p"
  have l: "lists_good cfg p" and g: "leases_good {} p" using assms(1) by (simp_all add: ipool_good_def)
  have "mset (all_slots ?p) = mset (pl_next p # all_slots p)" using add_all[OF l] by simp
  note m = mset_concat_eq[OF this]
  have new: "pl_next p \<notin> set (all_slots p)" using slots_below[OF l] by blast
  have "distinct (jskeys (pl_slots ?p))" using l by (simp add: add_slot_def Let_def lists_good_def distinct_keys_update)
  moreover have "distinct (all_slots ?p)" using m new l by (simp add: lists_good_def)
  moreover have "ipool_total ?p \<le> ic_maxSessions cfg" using m assms(3) by (simp add: ipool_total_def)
  moreover have "la \<noteq> [] \<and> length la \<le> ic_maxPerAccount cfg \<and> (\<forall>j\<in>set la. sl_key (pl_store ?p j) = k \<and> j < pl_next ?p)"
    if "map_of (pl_slots ?p) k = Some la" for k la
  proof (cases "k = key")
    case True
    have "\<forall>j\<in>set (slots_of p key). sl_key (pl_store p j) = key \<and> j < pl_next p"
      using l by (auto simp: lists_good_def slots_of_def split: option.split)
    then show ?thesis using that True assms(2) by (auto simp: add_slot_def Let_def map_of_update less_SucI)
  next
    case False
    then have "map_of (pl_slots p) k = Some la" using that by (simp add: add_slot_def Let_def map_of_update)
    then show ?thesis using l by (fastforce simp: lists_good_def)
  qed
  ultimately have "lists_good cfg ?p" by (simp add: lists_good_def)
  then have "lists_good cfg (lend (pl_next p) c ?p)" by (simp add: lists_good_def)
  moreover have "leases_good {} (lend (pl_next p) c ?p)"
    using g new m by (auto simp: leases_good_def)
  ultimately show ?thesis by (simp add: ipool_good_def)
qed

lemma evict_good:
  assumes "ipool_good cfg {} p" "lruIdle p = Some v"
  shows "ipool_good cfg {} (remove_slot v (change_slot v (\<lambda>s. s \<lparr> sl_retired := True \<rparr>) p))" (is "ipool_good _ _ ?p")
    and "ipool_total (remove_slot v (change_slot v (\<lambda>s. s \<lparr> sl_retired := True \<rparr>) p)) = ipool_total p - 1"
    and "ipool_total p \<noteq> 0"
proof -
  have v: "v \<in> set (all_slots p)" "idle_slot p v" using lru_some assms(2) by blast+
  let ?q = "change_slot v (\<lambda>s. s \<lparr> sl_retired := True \<rparr>) p"
  have q: "ipool_good cfg {v} ?q" using change_good[OF assms(1)] by simp
  have "v \<notin> fst ` set (pl_leases p)" using assms(1) v by (simp add: ipool_good_def leases_good_def idle_slot_def)
  then show "ipool_good cfg {} ?p" using remove_good[OF q] by simp
  have "lists_good cfg ?q" using q by (simp add: ipool_good_def)
  then show "ipool_total ?p = ipool_total p - 1" using remove_view(3) v(1) by simp
  show "ipool_total p \<noteq> 0" using v(1) by (auto simp: ipool_total_def)
qed

lemma evict_key:
  assumes "ipool_good cfg {} p" "lruIdle p = Some v" "\<forall>i\<in>set (slots_of p key). \<not> idle_slot p i"
  shows "slots_of (remove_slot v (change_slot v (\<lambda>s. s \<lparr> sl_retired := True \<rparr>) p)) key = slots_of p key"
proof -
  have v: "v \<in> set (all_slots p)" "idle_slot p v" using lru_some assms(2) by blast+
  have "lists_good cfg p" using assms(1) by (simp add: ipool_good_def)
  then have "v \<in> set (slots_of p (sl_key (pl_store p v)))" using slot_listed v(1) by blast
  then have "key \<noteq> sl_key (pl_store p v)" using assms(3) v(2) by blast
  then show ?thesis by (simp add: slots_of_remove)
qed

text \<open>Nothing taken makes a session available to an account that had to wait.\<close>

lemma add_set: "lists_good cfg p \<Longrightarrow> set (all_slots (add_slot key (slots_of p key) now p)) = insert (pl_next p) (set (all_slots p))"
  using mset_eq_setD[of "all_slots (add_slot key (slots_of p key) now p)" "pl_next p # all_slots p"] add_all[of cfg p key now] by simp

lemma add_total: "lists_good cfg p \<Longrightarrow> ipool_total (add_slot key (slots_of p key) now p) = Suc (ipool_total p)"
  using mset_eq_length[of "all_slots (add_slot key (slots_of p key) now p)" "pl_next p # all_slots p"] add_all[of cfg p key now] by (simp add: ipool_total_def)

lemma tryTake_cases:
  assumes "tryTake cfg key now p = Some (i, p1)"
  obtains (idle) "i \<in> set (slots_of p key)" "idle_slot p i" "p1 = change_slot i (\<lambda>s. s \<lparr> sl_timer := False, sl_busy := True \<rparr>) p"
  | (new) "\<forall>j\<in>set (slots_of p key). \<not> idle_slot p j" "length (slots_of p key) < ic_maxPerAccount cfg" "ipool_total p < ic_maxSessions cfg"
      "i = pl_next p" "p1 = add_slot key (slots_of p key) now p"
  | (evict) v where "\<forall>j\<in>set (slots_of p key). \<not> idle_slot p j" "length (slots_of p key) < ic_maxPerAccount cfg" "ic_maxSessions cfg \<le> ipool_total p"
      "lruIdle p = Some v" "i = pl_next p"
      "p1 = add_slot key (slots_of p key) now (remove_slot v (change_slot v (\<lambda>s. s \<lparr> sl_retired := True \<rparr>) p))"
proof (cases "find (idle_slot p) (slots_of p key)")
  case None
  then have n: "\<forall>j\<in>set (slots_of p key). \<not> idle_slot p j" by (simp add: find_None_iff)
  then show ?thesis using None assms new evict by (auto simp: tryTake_def Let_def split: if_splits option.splits)
next
  case (Some j)
  then have "j \<in> set (slots_of p key)" "idle_slot p j" by (auto simp: find_Some_iff)
  then show ?thesis using Some assms idle by (auto simp: tryTake_def Let_def)
qed

lemma take_good:
  assumes g: "ipool_good cfg {} p" and t: "tryTake cfg key now p = Some (i, p1)"
  shows "ipool_good cfg {} (lend i c p1)"
  using t
proof (cases rule: tryTake_cases)
  case idle
  then have "i \<in> set (all_slots p)" using slots_of_sub by blast
  moreover have "lists_good cfg (lend i c p1)" using g idle(3) by (auto simp: ipool_good_def lists_good_def)
  ultimately show ?thesis using g idle(2) unfolding idle(3) by (auto simp: ipool_good_def leases_good_def idle_slot_def)
next
  case new
  then show ?thesis using add_good[OF g] by simp
next
  case (evict v)
  let ?q = "remove_slot v (change_slot v (\<lambda>s. s \<lparr> sl_retired := True \<rparr>) p)"
  have k: "slots_of ?q key = slots_of p key" by (rule evict_key[OF g evict(4) evict(1)])
  have "ipool_total p \<le> ic_maxSessions cfg" using g by (simp add: ipool_good_def lists_good_def)
  then have "ipool_total ?q < ic_maxSessions cfg" using evict_good(2,3)[OF g evict(4)] by simp
  then have "ipool_good cfg {} (lend (pl_next ?q) c (add_slot key (slots_of ?q key) now ?q))"
    using evict(2) k by (intro add_good[OF evict_good(1)[OF g evict(4)]]) simp_all
  then show ?thesis using evict(5,6) k by simp
qed

lemma take_blocked:
  assumes g: "ipool_good cfg {} p" and t: "tryTake cfg key now p = Some (i, p1)" and b: "blocked cfg k p"
  shows "blocked cfg k (lend i c p1)"
  using t
proof (cases rule: tryTake_cases)
  case idle
  then have "idle_slot p1 j \<Longrightarrow> idle_slot p j" for j by (auto simp: idle_slot_def split: if_splits)
  then show ?thesis using b idle(3) unfolding blocked_def by auto
next
  case new
  have l: "lists_good cfg p" using g by (simp add: ipool_good_def)
  have k: "k \<noteq> key" "ic_maxPerAccount cfg \<le> length (slots_of p k)" using b new(2,3) by (auto simp: blocked_def)
  have "\<not> idle_slot p1 j" if "j \<in> set (slots_of p k)" for j
    using b that slots_below[OF l, of j] slots_of_sub[of p k] new(5) by (auto simp: blocked_def idle_slot_def)
  then show ?thesis using k new(5) by (simp add: blocked_def)
next
  case (evict v)
  let ?q = "remove_slot v (change_slot v (\<lambda>s. s \<lparr> sl_retired := True \<rparr>) p)"
  have l: "lists_good cfg p" using g by (simp add: ipool_good_def)
  have v: "v \<in> set (all_slots p)" "idle_slot p v" using lru_some evict(4) by blast+
  have k: "k \<noteq> key" "ic_maxPerAccount cfg \<le> length (slots_of p k)" "\<forall>j\<in>set (slots_of p k). \<not> idle_slot p j"
    using b evict(2) v by (auto simp: blocked_def)
  have q: "slots_of ?q k = slots_of p k" by (rule evict_key[OF g evict(4) k(3)])
  have "\<not> idle_slot p1 j" if "j \<in> set (slots_of p k)" for j
    using k(3) that slots_below[OF l, of j] slots_of_sub[of p k] evict(6) by (auto simp: idle_slot_def)
  then show ?thesis using k q evict(6) by (simp add: blocked_def)
qed

section \<open>Serving the waiters\<close>

definition callers :: "imap_pool \<Rightarrow> nat multiset" where
  "callers p = mset (map wt_caller (pl_waiters p)) + mset (map snd (pl_leases p)) + mset (pl_ended p) + mset (map fst (pl_refused p))"

text \<open>The waiters being served are still listed: they are counted apart.\<close>

definition answered :: "imap_pool \<Rightarrow> nat multiset" where
  "answered p = mset (map snd (pl_leases p)) + mset (pl_ended p) + mset (map fst (pl_refused p))"

lemma callers_answered: "callers p = mset (map wt_caller (pl_waiters p)) + answered p" by (simp add: callers_def answered_def)

lemma take_same:
  assumes "tryTake cfg key now p = Some (i, p1)"
  shows "pl_waiters p1 = pl_waiters p" "pl_closed p1 = pl_closed p" "answered p1 = answered p"
  using assms by (cases rule: tryTake_cases; simp add: answered_def)+

lemma lend_answered: "answered (lend i c p) = add_mset c (answered p)" by (simp add: answered_def)

lemma pump_from_good:
  assumes "ipool_good cfg {} p" "pump_from cfg now ws p = (left, p1)"
  shows "ipool_good cfg {} p1 \<and> (\<forall>k. blocked cfg k p \<longrightarrow> blocked cfg k p1) \<and> (\<forall>w\<in>set left. blocked cfg (wt_key w) p1) \<and> set left \<subseteq> set ws \<and>
    mset (map wt_caller left) + answered p1 = mset (map wt_caller ws) + answered p \<and> pl_closed p1 = pl_closed p \<and> pl_waiters p1 = pl_waiters p"
  using assms
proof (induction ws arbitrary: p left p1)
  case (Cons w ws)
  show ?case
  proof (cases "tryTake cfg (wt_key w) now p")
    case None
    then obtain l where l: "pump_from cfg now ws p = (l, p1)" "left = w # l" using Cons.prems(2) by (auto split: prod.splits)
    have "blocked cfg (wt_key w) p" using None by (simp add: tryTake_none)
    then show ?thesis using Cons.IH[OF Cons.prems(1) l(1)] l(2) by auto
  next
    case (Some t)
    obtain i q where t: "t = (i, q)" by fastforce
    note g = take_good[OF Cons.prems(1) Some[unfolded t]] and b = take_blocked[OF Cons.prems(1) Some[unfolded t]]
    have "pump_from cfg now ws (lend i (wt_caller w) q) = (left, p1)" using Cons.prems(2) Some t by simp
    then show ?thesis using Cons.IH[OF g] b take_same[OF Some[unfolded t]] by (auto simp: lend_answered)
  qed
qed simp

lemma set_waiters_simps [simp]: "all_slots (p\<lparr>pl_waiters := ws\<rparr>) = all_slots p" "slots_of (p\<lparr>pl_waiters := ws\<rparr>) k = slots_of p k"
  "ipool_total (p\<lparr>pl_waiters := ws\<rparr>) = ipool_total p" "idle_slot (p\<lparr>pl_waiters := ws\<rparr>) = idle_slot p" "answered (p\<lparr>pl_waiters := ws\<rparr>) = answered p"
  "ipool_good cfg X (p\<lparr>pl_waiters := ws\<rparr>) = ipool_good cfg X p" "blocked cfg k (p\<lparr>pl_waiters := ws\<rparr>) = blocked cfg k p"
  by (simp_all add: all_slots_def slots_of_def ipool_total_def idle_slot_def answered_def fun_eq_iff ipool_good_def lists_good_def leases_good_def blocked_def)

lemma pump_good:
  assumes "ipool_good cfg {} p"
  shows "ipool_good cfg {} (pump cfg now p)" "\<forall>w\<in>set (pl_waiters (pump cfg now p)). blocked cfg (wt_key w) (pump cfg now p)"
    "callers (pump cfg now p) = callers p" "pl_closed (pump cfg now p) = pl_closed p" "set (pl_waiters (pump cfg now p)) \<subseteq> set (pl_waiters p)"
proof -
  obtain l q where q: "pump_from cfg now (pl_waiters p) p = (l, q)" by fastforce
  note g = pump_from_good[OF assms q]
  have e: "pump cfg now p = q\<lparr>pl_waiters := l\<rparr>" using q by (simp add: pump_def)
  show "ipool_good cfg {} (pump cfg now p)" "\<forall>w\<in>set (pl_waiters (pump cfg now p)). blocked cfg (wt_key w) (pump cfg now p)"
    "callers (pump cfg now p) = callers p" "pl_closed (pump cfg now p) = pl_closed p" "set (pl_waiters (pump cfg now p)) \<subseteq> set (pl_waiters p)"
    using g unfolding e by (simp_all add: callers_answered)
qed

lemma pump_nobody: "pl_waiters p = [] \<Longrightarrow> pump cfg now p = p" by (simp add: pump_def)

section \<open>Every step keeps the invariant\<close>

lemma same_view:
  assumes "pl_store q = pl_store p" "pl_slots q = pl_slots p" "pl_next q = pl_next p" "pl_leases q = pl_leases p"
  shows "ipool_good cfg X q = ipool_good cfg X p" "all_slots q = all_slots p"
  using assms by (simp_all add: ipool_good_def lists_good_def leases_good_def all_slots_def ipool_total_def)

text \<open>After closeAll() nobody waits and every session left is one that will be closed on its release.\<close>

definition closing :: "imap_pool \<Rightarrow> bool" where
  "closing p \<longleftrightarrow> pl_closed p \<longrightarrow> pl_waiters p = [] \<and> (\<forall>i\<in>set (all_slots p). sl_retired (pl_store p i))"

lemma remove_callers: "callers (remove_slot i p) = callers p" by (simp add: callers_def)

lemma change_callers: "callers (change_slot i f p) = callers p" by (simp add: callers_def)

lemma busy_leased: "leases_good {} p \<Longrightarrow> \<not> sl_busy (pl_store p i) \<Longrightarrow> i \<notin> fst ` set (pl_leases p)"
  by (auto simp: leases_good_def)

lemma retire_good:
  assumes "ipool_good cfg {} p"
  shows "ipool_good cfg {} (retire cfg now i p)" "callers (retire cfg now i p) = callers p" "pl_closed (retire cfg now i p) = pl_closed p"
    "set (pl_waiters (retire cfg now i p)) \<subseteq> set (pl_waiters p)"
proof -
  let ?q = "change_slot i (\<lambda>s. s \<lparr> sl_retired := True \<rparr>) p"
  have g: "ipool_good cfg {i} ?q" using change_good[OF assms] by simp
  have "ipool_good cfg {} (retire cfg now i p) \<and> callers (retire cfg now i p) = callers p \<and> pl_closed (retire cfg now i p) = pl_closed p \<and>
    set (pl_waiters (retire cfg now i p)) \<subseteq> set (pl_waiters p)"
  proof (cases "sl_busy (pl_store p i)")
    case True
    then have "ipool_good cfg {} ?q" using assms by (auto simp: ipool_good_def lists_good_def leases_good_def)
    then show ?thesis using True by (simp add: retire_def Let_def change_callers)
  next
    case False
    then have "i \<notin> fst ` set (pl_leases ?q)" using busy_leased assms by (simp add: ipool_good_def)
    note r = pump_good[OF remove_good[OF g this], of now]
    show ?thesis using r(1,3,4,5) False by (simp add: retire_def Let_def change_callers remove_callers)
  qed
  then show "ipool_good cfg {} (retire cfg now i p)" "callers (retire cfg now i p) = callers p" "pl_closed (retire cfg now i p) = pl_closed p"
    "set (pl_waiters (retire cfg now i p)) \<subseteq> set (pl_waiters p)" by blast+
qed

lemma retire_all_good:
  assumes "ipool_good cfg {} p"
  shows "ipool_good cfg {} (fold (retire cfg now) is p) \<and> callers (fold (retire cfg now) is p) = callers p \<and>
    pl_closed (fold (retire cfg now) is p) = pl_closed p \<and> set (pl_waiters (fold (retire cfg now) is p)) \<subseteq> set (pl_waiters p)"
  using assms
proof (induction "is" arbitrary: p)
  case (Cons i "is")
  then show ?case using retire_good[OF Cons.prems, of now i] by fastforce
qed simp

lemma retire_quiet:
  assumes "lists_good cfg p" "pl_waiters p = []"
  shows "set (all_slots (retire cfg now i p)) \<subseteq> set (all_slots p)" "pl_waiters (retire cfg now i p) = []"
    "sl_retired (pl_store (retire cfg now i p) j) \<longleftrightarrow> sl_retired (pl_store p j) \<or> j = i"
proof -
  let ?q = "change_slot i (\<lambda>s. s \<lparr> sl_retired := True \<rparr>) p"
  have e: "retire cfg now i p = (if sl_busy (pl_store p i) then ?q else remove_slot i ?q)"
    using assms(2) by (simp add: retire_def Let_def pump_nobody)
  have "lists_good cfg ?q" using assms(1) by (simp add: lists_good_def)
  then show "set (all_slots (retire cfg now i p)) \<subseteq> set (all_slots p)" unfolding e using remove_view(1)[of cfg ?q i] by auto
  show "pl_waiters (retire cfg now i p) = []" unfolding e using assms(2) by simp
  show "sl_retired (pl_store (retire cfg now i p) j) \<longleftrightarrow> sl_retired (pl_store p j) \<or> j = i" unfolding e by auto
qed

lemma retire_all_quiet:
  assumes "ipool_good cfg {} p" "pl_waiters p = []"
  shows "set (all_slots (fold (retire cfg now) is p)) \<subseteq> set (all_slots p) \<and> pl_waiters (fold (retire cfg now) is p) = [] \<and>
    (\<forall>j. sl_retired (pl_store (fold (retire cfg now) is p) j) \<longleftrightarrow> sl_retired (pl_store p j) \<or> j \<in> set is)"
  using assms
proof (induction "is" arbitrary: p)
  case (Cons i "is")
  have l: "lists_good cfg p" using Cons.prems by (simp add: ipool_good_def)
  show ?case using Cons.IH[OF retire_good(1)[OF Cons.prems(1)] retire_quiet(2)[OF l Cons.prems(2)]] retire_quiet[OF l Cons.prems(2)] by fastforce
qed simp

lemma closing_open: "\<not> pl_closed p \<Longrightarrow> closing p" by (simp add: closing_def)

lemma reject_simps [simp]: "pl_closed (rejectWaiters m e p) = pl_closed p" "all_slots (rejectWaiters m e p) = all_slots p"
  "slots_of (rejectWaiters m e p) k = slots_of p k" "pl_store (rejectWaiters m e p) = pl_store p"
  "pl_waiters (rejectWaiters m e p) = filter (\<lambda>w. \<not> m w) (pl_waiters p)"
  by (simp_all add: rejectWaiters_def all_slots_def slots_of_def)

lemma reject_good: "ipool_good cfg X (rejectWaiters m e p) = ipool_good cfg X p"
  by (simp add: rejectWaiters_def ipool_good_def lists_good_def leases_good_def all_slots_def ipool_total_def)

lemma filter_callers: "mset (map f (filter (\<lambda>x. \<not> P x) xs)) + mset (map f (filter P xs)) = mset (map f xs)"
  by (induction xs) auto

lemma reject_callers: "callers (rejectWaiters m e p) = callers p"
  using filter_callers[of wt_caller m "pl_waiters p"] by (simp add: callers_def rejectWaiters_def ac_simps o_def rev_map)

lemma release_good:
  assumes g: "ipool_good cfg {} p" and i: "i \<in> fst ` set (pl_leases p)"
  shows "ipool_good cfg {} (release_slot cfg i f now p)" "callers (release_slot cfg i f now p) = callers p"
    "pl_closed (release_slot cfg i f now p) = pl_closed p" "closing p \<Longrightarrow> closing (release_slot cfg i f now p)"
    "\<forall>w\<in>set (pl_waiters (release_slot cfg i f now p)). blocked cfg (wt_key w) (release_slot cfg i f now p)"
proof -
  let ?p0 = "p \<lparr> pl_leases := filter (\<lambda>l. fst l \<noteq> i) (pl_leases p), pl_ended := pl_ended p @ map snd (filter (\<lambda>l. fst l = i) (pl_leases p)) \<rparr>"
  define p1 where "p1 = change_slot i (\<lambda>s. s \<lparr> sl_busy := False, sl_lastUsed := now, sl_retired := sl_retired s \<or> f \<or> sl_session s = None \<rparr>) ?p0"
  define p2 where "p2 = (if sl_retired (pl_store p1 i) then remove_slot i p1
                else if 0 < ic_idleTimeoutMs cfg then change_slot i (\<lambda>s. s \<lparr> sl_timer := True \<rparr>) p1 else p1)"
  have r: "release_slot cfg i f now p = pump cfg now p2" by (simp add: release_slot_def p1_def p2_def Let_def)
  have s0: "all_slots ?p0 = all_slots p" "ipool_total ?p0 = ipool_total p" by (simp_all add: all_slots_def ipool_total_def)
  have iall: "i \<in> set (all_slots p)" using g i by (auto simp: ipool_good_def leases_good_def)
  have d: "distinct (map fst (filter (\<lambda>l. fst l \<noteq> i) (pl_leases p)))" using g by (simp add: ipool_good_def leases_good_def distinct_map_filter)
  have s1: "pl_slots p1 = pl_slots p" "all_slots p1 = all_slots p" "ipool_total p1 = ipool_total p" "pl_next p1 = pl_next p" "pl_closed p1 = pl_closed p"
    "pl_waiters p1 = pl_waiters p" "pl_leases p1 = filter (\<lambda>l. fst l \<noteq> i) (pl_leases p)" by (simp_all add: p1_def s0)
  have g1: "ipool_good cfg {i} p1"
    using g d unfolding ipool_good_def lists_good_def leases_good_def s1 by (auto simp: p1_def)
  have n: "i \<notin> fst ` set (pl_leases p1)" by (auto simp: s1)
  have g2: "ipool_good cfg {} p2"
  proof (cases "sl_retired (pl_store p1 i)")
    case True
    then show ?thesis using remove_good[OF g1 n] by (simp add: p2_def)
  next
    case False
    have b: "\<not> sl_busy (pl_store p1 i)" by (simp add: p1_def)
    then show ?thesis using g1 n False iall unfolding p2_def ipool_good_def lists_good_def leases_good_def
      by (auto simp: s1)
  qed
  have c: "callers p2 = callers p" "pl_closed p2 = pl_closed p"
    using filter_callers[of snd "\<lambda>l. fst l = i" "pl_leases p"] by (auto simp: p2_def p1_def callers_def ac_simps)
  show "ipool_good cfg {} (release_slot cfg i f now p)" "callers (release_slot cfg i f now p) = callers p"
    "pl_closed (release_slot cfg i f now p) = pl_closed p"
    "\<forall>w\<in>set (pl_waiters (release_slot cfg i f now p)). blocked cfg (wt_key w) (release_slot cfg i f now p)"
    unfolding r using pump_good[OF g2, of now] c by simp_all
  assume z: "closing p"
  show "closing (release_slot cfg i f now p)"
  proof (cases "pl_closed p")
    case True
    then have w: "pl_waiters p = []" "sl_retired (pl_store p i)" using z iall by (simp_all add: closing_def)
    then have p2: "p2 = remove_slot i p1" by (simp add: p2_def p1_def)
    then have e: "release_slot cfg i f now p = p2" unfolding r using w(1) s1 by (simp add: pump_nobody)
    have "set (all_slots p2) = set (all_slots p) - {i}" unfolding p2 using remove_view(1)[of cfg p1 i] g1 s1 by (simp add: ipool_good_def)
    moreover have "sl_retired (pl_store p2 j)" if "sl_retired (pl_store p j)" for j using that by (auto simp: p2 p1_def)
    moreover have "pl_waiters p2 = []" using w(1) s1 by (simp add: p2)
    ultimately show ?thesis unfolding e using z True by (auto simp: closing_def)
  next
    case False
    then show ?thesis using closing_open c(2) pump_good(4)[OF g2, of now] r by simp
  qed
qed

definition used_by :: "ipool_op \<Rightarrow> nat list" where "used_by op = (case op of PUse c key now \<Rightarrow> [c] | _ \<Rightarrow> [])"

lemma acquire_good:
  assumes "ipool_good cfg {} p" "closing p"
  shows "ipool_good cfg {} (acquire_slot cfg c key now p) \<and> closing (acquire_slot cfg c key now p) \<and>
    callers (acquire_slot cfg c key now p) = add_mset c (callers p)"
proof (cases "pl_closed p")
  case True
  let ?q = "refuse_use c pool_closed_error p"
  have "ipool_good cfg {} ?q" "all_slots ?q = all_slots p" using same_view[of ?q p] assms(1) by (simp_all add: refuse_use_def)
  then show ?thesis using True assms(2) by (simp add: acquire_slot_def closing_def callers_def refuse_use_def)
next
  case False
  show ?thesis
  proof (cases "if pl_waiters p = [] then tryTake cfg key now p else None")
    case None
    then show ?thesis using assms(1) False by (simp add: acquire_slot_def closing_open callers_def)
  next
    case (Some t)
    obtain i q where t: "t = (i, q)" by fastforce
    have q: "tryTake cfg key now p = Some (i, q)" using Some t by (simp split: if_splits)
    show ?thesis using take_good[OF assms(1) q, of c] take_same[OF q] False Some t
      by (simp add: acquire_slot_def closing_open callers_answered lend_answered)
  qed
qed

lemma timeout_good:
  assumes "ipool_good cfg {} p" "closing p"
  shows "ipool_good cfg {} (acquire_timeout cfg c p) \<and> closing (acquire_timeout cfg c p) \<and> callers (acquire_timeout cfg c p) = callers p"
proof (cases "find (\<lambda>w. wt_caller w = c) (pl_waiters p)")
  case (Some w)
  then have w: "wt_caller w = c" "w \<in> set (pl_waiters p)" by (auto simp: find_Some_iff)
  then have m: "mset (map wt_caller (pl_waiters p)) = add_mset c (mset (map wt_caller (remove1 w (pl_waiters p))))"
    by (metis image_mset_add_mset insert_DiffM mset_map mset_remove1 set_mset_mset)
  have "pl_waiters p \<noteq> []" using w(2) by auto
  then have "\<not> pl_closed (acquire_timeout cfg c p)" using assms(2) Some by (simp add: closing_def acquire_timeout_def refuse_use_def)
  moreover have "ipool_good cfg {} (acquire_timeout cfg c p)"
    using same_view(1)[of "acquire_timeout cfg c p" p] assms(1) Some by (simp add: acquire_timeout_def refuse_use_def)
  ultimately show ?thesis using closing_open Some m w(1) by (simp add: acquire_timeout_def refuse_use_def callers_def)
qed (use assms in \<open>simp add: acquire_timeout_def\<close>)

lemma close_good:
  assumes "ipool_good cfg {} p" "closing p"
  shows "ipool_good cfg {} (close_account cfg key now p) \<and> closing (close_account cfg key now p) \<and> callers (close_account cfg key now p) = callers p"
proof -
  define q where "q = rejectWaiters (\<lambda>w. wt_key w = key) (ImapError (''ImapPool: sessions for '' @ [dquote] @ key @ [dquote] @ '' were closed'') False EIMAP None) p"
  have e: "close_account cfg key now p = fold (retire cfg now) (slots_of q key) q" by (simp add: close_account_def q_def)
  have g: "ipool_good cfg {} q" "callers q = callers p" "pl_closed q = pl_closed p" using assms(1) by (simp_all add: q_def reject_good reject_callers)
  have "closing (fold (retire cfg now) (slots_of q key) q)"
  proof (cases "pl_closed p")
    case True
    then have "pl_waiters q = []" "\<forall>i\<in>set (all_slots q). sl_retired (pl_store q i)" using assms(2) by (simp_all add: closing_def q_def)
    then show ?thesis using retire_all_quiet[OF g(1), of now "slots_of q key"] by (auto simp: closing_def)
  next
    case False
    then show ?thesis using retire_all_good[OF g(1), of now "slots_of q key"] g(3) closing_open by simp
  qed
  then show ?thesis using retire_all_good[OF g(1), of now "slots_of q key"] g(2) e by simp
qed

lemma close_all_good:
  assumes "ipool_good cfg {} p"
  shows "ipool_good cfg {} (closeAll cfg now p) \<and> closing (closeAll cfg now p) \<and> callers (closeAll cfg now p) = callers p"
proof -
  define q where "q = rejectWaiters (\<lambda>w. True) pool_closed_error (p \<lparr> pl_closed := True \<rparr>)"
  have e: "closeAll cfg now p = fold (retire cfg now) (all_slots q) q" by (simp add: closeAll_def q_def)
  have "ipool_good cfg {} (p \<lparr> pl_closed := True \<rparr>)" "callers (p \<lparr> pl_closed := True \<rparr>) = callers p"
    using same_view(1)[of "p \<lparr> pl_closed := True \<rparr>" p] assms by (simp_all add: callers_def)
  then have g: "ipool_good cfg {} q" "callers q = callers p" "pl_waiters q = []" by (simp_all add: q_def reject_good reject_callers)
  show ?thesis using retire_all_good[OF g(1), of now "all_slots q"] retire_all_quiet[OF g(1,3), of now "all_slots q"] g(2) unfolding e
    by (auto simp: closing_def)
qed

definition pool_fine :: "ipool_config \<Rightarrow> imap_pool \<Rightarrow> bool" where
  "pool_fine cfg p \<longleftrightarrow> ipool_good cfg {} p \<and> closing p"

lemma ipool_step_fine:
  assumes "pool_fine cfg p" "ipool_ok p op"
  shows "pool_fine cfg (ipool_step cfg p op) \<and> callers (ipool_step cfg p op) = callers p + mset (used_by op)"
proof -
  have g: "ipool_good cfg {} p" "closing p" using assms(1) by (simp_all add: pool_fine_def)
  show ?thesis
  proof (cases op)
    case (PUse c key now)
    then show ?thesis using acquire_good[OF g, of c key now] by (simp add: pool_fine_def used_by_def)
  next
    case (POpened i n)
    have "ipool_good cfg {} (ipool_step cfg p op)" using g(1) POpened
      by (auto simp: ipool_good_def lists_good_def leases_good_def)
    moreover have "closing (ipool_step cfg p op)" using g(2) POpened by (auto simp: closing_def)
    ultimately show ?thesis using POpened by (simp add: pool_fine_def used_by_def callers_def)
  next
    case (PRelease i f now)
    then have "i \<in> fst ` set (pl_leases p)" using assms(2) by (simp add: ipool_ok_def)
    then show ?thesis using release_good[OF g(1)] g(2) PRelease by (simp add: pool_fine_def used_by_def)
  next
    case (PTimeout c)
    then show ?thesis using timeout_good[OF g, of c] by (simp add: pool_fine_def used_by_def)
  next
    case (PIdleTimer i now)
    then have "closing (retire cfg now i p)"
    proof (cases "pl_closed p")
      case True
      then show ?thesis using g retire_quiet[of cfg p now i] by (auto simp: closing_def ipool_good_def)
    next
      case False
      then show ?thesis using retire_good(3)[OF g(1), of now i] closing_open by simp
    qed
    then show ?thesis using retire_good[OF g(1), of now i] PIdleTimer by (simp add: pool_fine_def used_by_def)
  next
    case (PClose key now)
    then show ?thesis using close_good[OF g, of key now] by (simp add: pool_fine_def used_by_def)
  next
    case (PCloseAll now)
    then show ?thesis using close_all_good[OF g(1), of now] by (simp add: pool_fine_def used_by_def)
  qed
qed

interpretation ipl: machine "ipool_step cfg" ipool_ok "pool_fine cfg" for cfg
  by unfold_locales (simp add: ipool_step_fine)

lemma new_ipool_fine: "pool_fine cfg new_ipool"
  by (simp add: pool_fine_def ipool_good_def lists_good_def leases_good_def closing_def new_ipool_def all_slots_def ipool_total_def)

lemma ipool_run_fine: "legal_run (ipool_step cfg) ipool_ok new_ipool ops \<Longrightarrow> pool_fine cfg (run (ipool_step cfg) new_ipool ops)"
  by (rule ipl.inv_run[OF new_ipool_fine])

lemma ipool_run_callers: "pool_fine cfg p \<Longrightarrow> legal_run (ipool_step cfg) ipool_ok p ops \<Longrightarrow>
   callers (run (ipool_step cfg) p ops) = callers p + mset (concat (map used_by ops))"
  by (induction ops arbitrary: p) (auto simp: ipool_step_fine ac_simps)

lemma slots_of_length: "lists_good cfg p \<Longrightarrow> length (slots_of p k) \<le> ic_maxPerAccount cfg"
  by (auto simp: lists_good_def slots_of_def split: option.split)

section \<open>What the pool promises\<close>

text \<open>C39: In every reachable state of the IMAP pool the sessions keep the limits in all and per account; no session is
  lent to two callers, one that is lent is busy and listed under one account, one that is not lent is idle and neither
  retired nor forgotten by its timer; every use() call made is waiting, holds one session, has ended or was refused,
  each exactly once; and once closeAll() was called nobody waits and every session left is still lent and will be
  closed on its release.\<close>

theorem imap_pool_lends_exclusively:
  assumes "legal_run (ipool_step cfg) ipool_ok new_ipool ops"
  defines "p \<equiv> run (ipool_step cfg) new_ipool ops"
  shows "ipool_total p \<le> ic_maxSessions cfg \<and> (\<forall>key. length (slots_of p key) \<le> ic_maxPerAccount cfg) \<and> distinct (all_slots p) \<and>
    distinct (map fst (pl_leases p)) \<and> (\<forall>i\<in>set (all_slots p). sl_busy (pl_store p i) \<longleftrightarrow> i \<in> fst ` set (pl_leases p)) \<and>
    fst ` set (pl_leases p) \<subseteq> set (all_slots p) \<and>
    (\<forall>i. sl_timer (pl_store p i) \<longrightarrow> i \<in> set (all_slots p) \<and> idle_slot p i) \<and>
    mset (concat (map used_by ops)) = mset (map wt_caller (pl_waiters p)) + mset (map snd (pl_leases p)) + mset (pl_ended p) + mset (map fst (pl_refused p)) \<and>
    (pl_closed p \<longrightarrow> pl_waiters p = [] \<and> (\<forall>i\<in>set (all_slots p). sl_retired (pl_store p i) \<and> i \<in> fst ` set (pl_leases p)))"
proof -
  have f: "pool_fine cfg p" unfolding p_def by (rule ipool_run_fine[OF assms(1)])
  then have l: "lists_good cfg p" and g: "leases_good {} p" and c: "closing p" by (simp_all add: pool_fine_def ipool_good_def)
  have "callers p = mset (concat (map used_by ops))"
    unfolding p_def using ipool_run_callers[OF new_ipool_fine assms(1)] by (simp add: new_ipool_def callers_def)
  moreover have "ipool_total p \<le> ic_maxSessions cfg \<and> distinct (all_slots p)" using l by (simp add: lists_good_def)
  moreover have "distinct (map fst (pl_leases p)) \<and> (\<forall>i\<in>set (all_slots p). sl_busy (pl_store p i) \<longleftrightarrow> i \<in> fst ` set (pl_leases p)) \<and>
    fst ` set (pl_leases p) \<subseteq> set (all_slots p) \<and> (\<forall>i. sl_timer (pl_store p i) \<longrightarrow> i \<in> set (all_slots p) \<and> idle_slot p i)"
    using g by (auto simp: leases_good_def idle_slot_def)
  moreover have "pl_closed p \<longrightarrow> pl_waiters p = [] \<and> (\<forall>i\<in>set (all_slots p). sl_retired (pl_store p i) \<and> i \<in> fst ` set (pl_leases p))"
    using c g by (auto simp: closing_def leases_good_def)
  ultimately show ?thesis using slots_of_length[OF l] by (simp add: callers_def)
qed

definition demo_ipool :: ipool_config where
  "demo_ipool = \<lparr> ic_maxSessions = 1, ic_maxPerAccount = 1, ic_idleTimeoutMs = 300000, ic_acquireTimeoutMs = 30000 \<rparr>"

definition demo_pool_ops :: "ipool_op list" where
  "demo_pool_ops = [PUse 0 ''a'' 1, PUse 1 ''b'' 2, PUse 2 ''b'' 3, POpened 0 7]"

definition demo_pool :: imap_pool where "demo_pool = run (ipool_step demo_ipool) new_ipool demo_pool_ops"

lemmas pool_eval = demo_pool_ops_def demo_ipool_def new_ipool_def ipool_ok_def acquire_slot_def tryTake_def slots_of_def all_slots_def ipool_total_def
  lend_def add_slot_def change_slot_def lruIdle_def older_idle_def idle_slot_def Let_def

lemma demo_pool_legal: "legal_run (ipool_step demo_ipool) ipool_ok new_ipool demo_pool_ops"
  by (simp add: pool_eval)

lemma demo_pool_at: "pl_leases demo_pool = [(0, 0)] \<and> pl_slots demo_pool = [(''a'', [0])] \<and> pl_next demo_pool = 1 \<and>
   pl_waiters demo_pool = [\<lparr> wt_caller = 1, wt_key = ''b'' \<rparr>, \<lparr> wt_caller = 2, wt_key = ''b'' \<rparr>] \<and>
   pl_store demo_pool 0 = \<lparr> sl_key = ''a'', sl_session = Some 7, sl_busy = True, sl_retired = False, sl_lastUsed = 1, sl_timer = False \<rparr>"
  by (simp add: demo_pool_def pool_eval)

theorem imap_pool_lends_exclusively_witness: "ipool_total demo_pool = 1 \<and> ipool_total demo_pool \<le> ic_maxSessions demo_ipool"
  using imap_pool_lends_exclusively[OF demo_pool_legal] demo_pool_at
  by (simp add: demo_pool_def[symmetric] ipool_total_def all_slots_def)

text \<open>After a session is given back, or retired by its timer, no waiter is left that the pool could serve: for the
  account of each one still waiting there is no idle session, and no room for a new one even by closing another
  account's idle session.  The waiters served are served in the order of the queue.\<close>

lemma release_serves_all_it_can:
  assumes "legal_run (ipool_step cfg) ipool_ok new_ipool ops"
  defines "p \<equiv> run (ipool_step cfg) new_ipool ops"
  assumes "i \<in> fst ` set (pl_leases p)" "w \<in> set (pl_waiters (ipool_step cfg p (PRelease i f now)))"
  shows "tryTake cfg (wt_key w) later (ipool_step cfg p (PRelease i f now)) = None"
proof -
  have "pool_fine cfg p" unfolding p_def by (rule ipool_run_fine[OF assms(1)])
  then have "ipool_good cfg {} p" by (simp add: pool_fine_def)
  then show ?thesis using release_good(5)[OF _ assms(3)] assms(4) by (simp add: tryTake_none)
qed

text \<open>The idle session of a is closed for the first waiter of b; the second goes on waiting.\<close>

lemma demo_pool_released: "pl_waiters (ipool_step demo_ipool demo_pool (PRelease 0 False 5)) = [\<lparr> wt_caller = 2, wt_key = ''b'' \<rparr>] \<and>
   pl_leases (ipool_step demo_ipool demo_pool (PRelease 0 False 5)) = [(1, 1)] \<and> pl_closes (ipool_step demo_ipool demo_pool (PRelease 0 False 5)) = [7]"
proof -
  have "pl_closes demo_pool = []" by (simp add: demo_pool_def pool_eval)
  then show ?thesis using demo_pool_at by (simp add: release_slot_def pump_def remove_slot_def pool_eval)
qed

lemma release_serves_all_it_can_witness: "tryTake demo_ipool ''b'' 6 (ipool_step demo_ipool demo_pool (PRelease 0 False 5)) = None"
  using release_serves_all_it_can[OF demo_pool_legal, of 0 "\<lparr> wt_caller = 2, wt_key = ''b'' \<rparr>" False 5 6] demo_pool_at demo_pool_released
  by (simp add: demo_pool_def[symmetric])

end
