(* ===== verification/ImapSession.thy ===== *)
theory ImapSession
  imports ImapOps ImapEngine
begin

text \<open>
  src/src/imap/ImapSession.ts: one account's connection, opened and opened again when it is needed, with the mailbox an
  operation wants selected before it runs.  The network is a parameter: what opening a connection and running one
  command gives, and whether the connection is still there after a failure.  The client's own state (its phase and the
  mailbox it has selected) is part of the session's, as its class keeps it.
\<close>

section \<open>State\<close>

datatype reconnect_setting = NoReconnect | Reconnect "nat option" "nat option"

record 'n session_net =
  sn_connect :: "'n \<Rightarrow> (mail_error + unit) \<times> 'n"
  sn_exec :: "'n \<Rightarrow> command_part list \<Rightarrow> (mail_error + imap_response \<times> imap_response list) \<times> 'n"
  sn_open :: "'n \<Rightarrow> bool"
  sn_has :: "'n \<Rightarrow> string \<Rightarrow> bool"
  sn_reconnect :: reconnect_setting
  sn_text :: text_decoders
  sn_date :: "units \<Rightarrow> int option"

datatype session_event = SvReconnect nat | SvError mail_error | SvClose | SvWait nat

record 'n session =
  se_net :: 'n
  se_state :: imap_state
  se_selected :: "mailbox_status option"
  se_client :: bool
  se_current :: "mailbox_status option"
  se_closed :: bool
  se_events :: "session_event list"

definition new_session :: "'n \<Rightarrow> 'n session" where
  "new_session n = \<lparr> se_net = n, se_state = IsIdle, se_selected = None, se_client = False, se_current = None, se_closed = False, se_events = [] \<rparr>"

definition session_emit :: "session_event \<Rightarrow> 'n session \<Rightarrow> 'n session" where "session_emit v s = s \<lparr> se_events := se_events s @ [v] \<rparr>"

definition isConnected :: "'n session \<Rightarrow> bool" where
  "isConnected s \<longleftrightarrow> se_client s \<and> (se_state s = IsAuthenticated \<or> se_state s = IsSelected)"

text \<open>The client's close event, as long as it is the session's client.\<close>

definition connection_lost :: "'n session \<Rightarrow> 'n session" where
  "connection_lost s = session_emit SvClose (s \<lparr> se_state := IsIdle, se_selected := None, se_current := None \<rparr>)"

definition client_exec :: "'n session_net \<Rightarrow> 'n session \<Rightarrow> command_part list \<Rightarrow> (mail_error + imap_response \<times> imap_response list) \<times> 'n session" where
  "client_exec N s ps = (let (r, n) = sn_exec N (se_net s) ps; s1 = s \<lparr> se_net := n \<rparr>
     in (r, if isl r \<and> \<not> sn_open N n then connection_lost s1 else s1))"

definition session_conn :: "'n session_net \<Rightarrow> 'n session conn" where
  "session_conn N = \<lparr> cn_exec = client_exec N, cn_selected = (\<lambda>s. se_state s = IsSelected), cn_has = (\<lambda>s. sn_has N (se_net s)) \<rparr>"

text \<open>select() and examine() of the client.\<close>

definition client_open :: "'n session_net \<Rightarrow> units \<Rightarrow> bool \<Rightarrow> ('n session, mailbox_status) prog" where
  "client_open N m ro s =
     (if se_state s \<noteq> IsAuthenticated \<and> se_state s \<noteq> IsSelected
      then fail_with (ImapError (''Must be authenticated to '' @ (if ro then ''examine'' else ''select'') @ '' a mailbox'') False EIMAP None) s
      else (let s0 = s \<lparr> se_selected := None \<rparr> in
        case ImapParts (if ro then CExamine m else CSelect m (sn_has N (se_net s) ''CONDSTORE'')) of
          Inl e \<Rightarrow> (Inl e, s0)
        | Inr ps \<Rightarrow> (case client_exec N s0 ps of
            (Inl e, s1) \<Rightarrow> (Inl e, s1 \<lparr> se_state := if se_state s1 = IsSelected then IsAuthenticated else se_state s1 \<rparr>)
          | (Inr (t, us), s1) \<Rightarrow> (let st = buildMailboxStatus m ro us t in (Inr st, s1 \<lparr> se_selected := Some st, se_state := IsSelected \<rparr>)))))"

section \<open>The connection\<close>

definition reconnect_of :: "reconnect_setting \<Rightarrow> nat \<times> nat" where
  "reconnect_of c = (case c of NoReconnect \<Rightarrow> (0, 0) | Reconnect r d \<Rightarrow> (or_default r 3, or_default d 1000))"

fun connect_loop :: "'n session_net \<Rightarrow> bool \<Rightarrow> nat \<Rightarrow> nat \<Rightarrow> nat \<Rightarrow> ('n session, unit) prog" where
  "connect_loop N was delay attempt left s =
     (let s0 = (if was \<or> 0 < attempt then session_emit (SvReconnect (attempt + 1)) s else s);
          (r, n) = sn_connect N (se_net s0); s1 = s0 \<lparr> se_net := n \<rparr>
      in case r of
        Inr _ \<Rightarrow> (Inr (), s1 \<lparr> se_client := True, se_state := IsAuthenticated, se_selected := None, se_current := None \<rparr>)
      | Inl e \<Rightarrow> if e_name e \<noteq> NImapConnError then (Inl e, s1)
          else (case left of 0 \<Rightarrow> (Inl e, s1)
            | Suc l \<Rightarrow> connect_loop N was delay (attempt + 1) l (session_emit (SvWait (delay * 2 ^ attempt)) (session_emit (SvError e) s1))))"

declare connect_loop.simps [simp del]

definition ensureClient :: "'n session_net \<Rightarrow> ('n session, unit) prog" where
  "ensureClient N s = (if se_closed s then fail_with (ImapError ''Session is closed'' False EIMAP None) s
     else if isConnected s then done_with () s
     else (let (retries, delay) = reconnect_of (sn_reconnect N) in connect_loop N (se_client s) delay 0 retries s))"

text \<open>connect() of the session.\<close>

definition session_connect :: "'n session_net \<Rightarrow> ('n session, unit) prog" where
  "session_connect N s = ensureClient N (s \<lparr> se_closed := False \<rparr>)"

section \<open>The mailbox\<close>

text \<open>String.prototype.toUpperCase, as far as the result can be INBOX: the dotless i becomes an I as well.\<close>

definition upper_unit :: "nat \<Rightarrow> nat" where "upper_unit u = (if 97 \<le> u \<and> u \<le> 122 then u - 32 else if u = 305 then 73 else u)"

definition is_inbox :: "units \<Rightarrow> bool" where "is_inbox m \<longleftrightarrow> map upper_unit m = units_of ''INBOX''"

definition sameMailbox :: "units \<Rightarrow> units \<Rightarrow> bool" where "sameMailbox a b \<longleftrightarrow> (if is_inbox a \<and> is_inbox b then True else a = b)"

definition locked :: "'n session_net \<Rightarrow> ('n session, 'a) prog \<Rightarrow> ('n session, 'a) prog" where
  "locked N fn = bind (ensureClient N) (\<lambda>_. fn)"

definition open_current :: "'n session_net \<Rightarrow> units \<Rightarrow> bool \<Rightarrow> ('n session, mailbox_status) prog" where
  "open_current N m ro = bind (client_open N m ro) (\<lambda>st s. (Inr st, s \<lparr> se_current := Some st \<rparr>))"

definition withMailbox :: "'n session_net \<Rightarrow> units \<Rightarrow> ('n session, 'a) prog \<Rightarrow> ('n session, 'a) prog" where
  "withMailbox N m fn = locked N (\<lambda>s. case se_current s of
       Some st \<Rightarrow> if se_selected s = None \<or> \<not> sameMailbox (ms_name st) m then bind (open_current N m False) (\<lambda>_. fn) s else fn s
     | None \<Rightarrow> bind (open_current N m False) (\<lambda>_. fn) s)"

definition withWritable :: "'n session_net \<Rightarrow> units \<Rightarrow> ('n session, 'a) prog \<Rightarrow> ('n session, 'a) prog" where
  "withWritable N m fn = locked N (\<lambda>s. case se_current s of
       Some st \<Rightarrow> if se_selected s = None \<or> \<not> sameMailbox (ms_name st) m \<or> ms_readOnly st then bind (open_current N m False) (\<lambda>_. fn) s else fn s
     | None \<Rightarrow> bind (open_current N m False) (\<lambda>_. fn) s)"

definition DEFAULT_MAILBOX :: units where "DEFAULT_MAILBOX = units_of ''INBOX''"

definition mailboxOr :: "'n session \<Rightarrow> units option \<Rightarrow> units" where
  "mailboxOr s mb = (case mb of Some m \<Rightarrow> m | None \<Rightarrow> (case se_current s of Some st \<Rightarrow> ms_name st | None \<Rightarrow> DEFAULT_MAILBOX))"

section \<open>Mailboxes\<close>

definition session_list :: "'n session_net \<Rightarrow> units \<Rightarrow> units \<Rightarrow> ('n session, list_entry list) prog" where
  "session_list N ref pat = locked N (list_mailboxes (session_conn N) ref pat)"

definition session_lsub :: "'n session_net \<Rightarrow> units \<Rightarrow> units \<Rightarrow> ('n session, list_entry list) prog" where
  "session_lsub N ref pat = locked N (listSubscribed (session_conn N) ref pat)"

definition SPECIAL_USE_FALLBACK :: "(string \<times> string list) list" where
  "SPECIAL_USE_FALLBACK =
     [(backslash # ''Sent'', [''Sent'', ''Sent Items'', ''Sent Messages'', ''Sent Mail'', ''[Gmail]/Sent Mail'', ''INBOX.Sent'']),
      (backslash # ''Drafts'', [''Drafts'', ''[Gmail]/Drafts'', ''INBOX.Drafts'']),
      (backslash # ''Trash'', [''Trash'', ''Deleted Items'', ''Deleted Messages'', ''[Gmail]/Trash'', ''INBOX.Trash'']),
      (backslash # ''Junk'', [''Junk'', ''Spam'', ''Junk Email'', ''[Gmail]/Spam'', ''INBOX.Junk'']),
      (backslash # ''Archive'', [''Archive'', ''Archives'', ''[Gmail]/All Mail'', ''INBOX.Archive''])]"

definition lower_text :: "string \<Rightarrow> units" where "lower_text s = units_lower (units_of s)"

definition has_use :: "units \<Rightarrow> list_entry \<Rightarrow> bool" where
  "has_use want b \<longleftrightarrow> map_option lower_text (le_specialUse b) = Some want \<or> list_ex (\<lambda>f. lower_text f = want) (le_flags b)"

fun first_named :: "list_entry list \<Rightarrow> string list \<Rightarrow> units option" where
  "first_named boxes [] = None"
| "first_named boxes (n # ns) = (case find (\<lambda>b. units_lower (le_name b) = lower_text n) boxes of
     Some b \<Rightarrow> Some (le_name b) | None \<Rightarrow> first_named boxes ns)"

definition find_special :: "units \<Rightarrow> list_entry list \<Rightarrow> units option" where
  "find_special specialUse boxes = (let want = units_lower specialUse in
     case find (has_use want) boxes of Some b \<Rightarrow> Some (le_name b)
     | None \<Rightarrow> (case find (\<lambda>(k, ns). lower_text k = want) SPECIAL_USE_FALLBACK of
         Some (k, ns) \<Rightarrow> first_named boxes ns | None \<Rightarrow> None))"

definition findMailbox :: "'n session_net \<Rightarrow> units \<Rightarrow> ('n session, units option) prog" where
  "findMailbox N specialUse = bind (session_list N [] (units_of ''*'')) (\<lambda>boxes. done_with (find_special specialUse boxes))"

definition session_create :: "'n session_net \<Rightarrow> units \<Rightarrow> ('n session, unit) prog" where
  "session_create N m = locked N (createMailbox (session_conn N) m)"

definition session_delete :: "'n session_net \<Rightarrow> units \<Rightarrow> ('n session, unit) prog" where
  "session_delete N m = locked N (bind (deleteMailbox (session_conn N) m) (\<lambda>_ s. (Inr (),
     case se_current s of Some st \<Rightarrow> if sameMailbox (ms_name st) m then s \<lparr> se_current := None \<rparr> else s | None \<Rightarrow> s)))"

definition session_rename :: "'n session_net \<Rightarrow> units \<Rightarrow> units \<Rightarrow> ('n session, unit) prog" where
  "session_rename N a b = locked N (renameMailbox (session_conn N) a b)"

definition session_subscribe :: "'n session_net \<Rightarrow> units \<Rightarrow> ('n session, unit) prog" where
  "session_subscribe N m = locked N (subscribe (session_conn N) m)"

definition session_unsubscribe :: "'n session_net \<Rightarrow> units \<Rightarrow> ('n session, unit) prog" where
  "session_unsubscribe N m = locked N (unsubscribe (session_conn N) m)"

text \<open>open(): the status, and the number of unseen messages when STATUS has told it; a STATUS that fails is passed over.\<close>

definition or_no_status :: "('n session, status_result) prog \<Rightarrow> ('n session, status_result) prog" where
  "or_no_status p s = (case p s of (Inl e, s1) \<Rightarrow> (Inr no_status, s1) | (Inr c, s1) \<Rightarrow> (Inr c, s1))"

definition session_open :: "'n session_net \<Rightarrow> units \<Rightarrow> ('n session, mailbox_status \<times> nat option) prog" where
  "session_open N m = locked N (bind (or_no_status (getStatus (session_conn N) m [''UNSEEN'']))
     (\<lambda>c. bind (open_current N m False) (\<lambda>st. done_with (st, st_unseen c))))"

definition openReadOnly :: "'n session_net \<Rightarrow> units \<Rightarrow> ('n session, mailbox_status) prog" where
  "openReadOnly N m = locked N (open_current N m True)"

definition session_status :: "'n session_net \<Rightarrow> units \<Rightarrow> string list \<Rightarrow> ('n session, status_result) prog" where
  "session_status N m items = locked N (getStatus (session_conn N) m items)"

section \<open>Fetching\<close>

record fetch_options =
  fo_seen :: "bool option"
  fo_search :: "imap_query option"
  fo_uids :: "int list option"
  fo_limit :: "int option"
  fo_markSeen :: bool
  fo_bodies :: bool
  fo_headers :: "string list"
  fo_structure :: bool
  fo_textOnly :: bool

definition BASE_ITEMS :: string where "BASE_ITEMS = ''UID FLAGS ENVELOPE RFC822.SIZE INTERNALDATE''"

definition no_query :: imap_query where
  "no_query = Query \<lparr> qf_seen = None, qf_unseen = None, qf_flagged = None, qf_unflagged = None, qf_answered = None, qf_deleted = None, qf_draft = None,
     qf_from = None, qf_to = None, qf_cc = None, qf_bcc = None, qf_subject = None, qf_body = None, qf_text = None, qf_since = None, qf_before = None,
     qf_on = None, qf_sentSince = None, qf_sentBefore = None, qf_larger = None, qf_smaller = None, qf_uid = None, qf_header = None,
     qf_keyword = None, qf_unkeyword = None \<rparr> None None"

definition fetch_query :: "fetch_options \<Rightarrow> imap_query" where
  "fetch_query opts = (case or_default (fo_search opts) no_query of Query f n r \<Rightarrow>
     Query (case fo_seen opts of Some True \<Rightarrow> f \<lparr> qf_seen := Some True \<rparr> | Some False \<Rightarrow> f \<lparr> qf_unseen := Some True \<rparr> | None \<Rightarrow> f) n r)"

definition newest :: "int option \<Rightarrow> nat list \<Rightarrow> nat list" where
  "newest limit uids = (let us = sort uids in case limit of None \<Rightarrow> us
     | Some l \<Rightarrow> if 0 < l then drop (length us - nat l) us else [])"

definition field_name :: "string \<Rightarrow> string" where "field_name h = filter (\<lambda>c. alnum c \<or> c = CHR ''-'') h"

definition fetch_items_text :: "fetch_options \<Rightarrow> string" where
  "fetch_items_text opts = BASE_ITEMS @ (if fo_structure opts then '' BODYSTRUCTURE'' else []) @ (if fo_bodies opts then '' BODY.PEEK[]'' else [])
     @ (if fo_headers opts \<noteq> [] then '' BODY.PEEK[HEADER.FIELDS ('' @ js_join '' '' (map field_name (fo_headers opts)) @ '')]'' else [])"

fun first_some :: "'a option list \<Rightarrow> 'a option" where
  "first_some [] = None"
| "first_some (None # xs) = first_some xs"
| "first_some (Some x # xs) = Some x"

fun findLeaf :: "units \<Rightarrow> body_node \<Rightarrow> body_node option" where
  "findLeaf ct (BodyLeaf sec t cs enc sz ls cid fname disp body) =
     (if t = ct \<and> disp \<noteq> Some (units_of ''attachment'') then Some (BodyLeaf sec t cs enc sz ls cid fname disp body) else None)"
| "findLeaf ct (BodyMultipart sec t b ps) = first_some (map (findLeaf ct) ps)"

definition text_leaves :: "body_node \<Rightarrow> body_node option \<times> body_node option" where
  "text_leaves b = (findLeaf (units_of ''text/plain'') b, findLeaf (units_of ''text/html'') b)"

definition add_section :: "body_node option \<Rightarrow> string list \<Rightarrow> string list" where
  "add_section leaf ss = (case leaf of Some l \<Rightarrow> if bn_section l \<in> set ss then ss else ss @ [bn_section l] | None \<Rightarrow> ss)"

definition message_leaves :: "imap_message list \<Rightarrow> (nat, body_node option \<times> body_node option) jsmap" where
  "message_leaves ms = fold (\<lambda>m acc. case im_structure m of Some b \<Rightarrow> AList.update (im_uid m) (text_leaves b) acc | None \<Rightarrow> acc) ms []"

definition text_sections :: "imap_message list \<Rightarrow> string list" where
  "text_sections ms = fold (\<lambda>m acc. case im_structure m of Some b \<Rightarrow> add_section (snd (text_leaves b)) (add_section (fst (text_leaves b)) acc) | None \<Rightarrow> acc) ms []"

definition leaf_text :: "text_decoders \<Rightarrow> (string, bytes) jsmap option \<Rightarrow> body_node option \<Rightarrow> units option" where
  "leaf_text td sections leaf = (case leaf of None \<Rightarrow> None
     | Some l \<Rightarrow> (case sections of None \<Rightarrow> None
       | Some m \<Rightarrow> map_option (\<lambda>raw. decodeText td (decodeTransfer raw (bn_encoding l)) (bn_charset l)) (map_of m (bn_section l))))"

definition with_text :: "text_decoders \<Rightarrow> (nat, body_node option \<times> body_node option) jsmap \<Rightarrow> (nat, (string, bytes) jsmap) jsmap \<Rightarrow>
    imap_message \<Rightarrow> imap_message" where
  "with_text td leaves got m = (case map_of leaves (im_uid m) of None \<Rightarrow> m
     | Some (t, h) \<Rightarrow> (let sections = map_of got (im_uid m) in
         m \<lparr> im_body := Some (ParsedBody (leaf_text td sections t) (leaf_text td sections h) []) \<rparr>))"

definition fetchTextOnly :: "'n session_net \<Rightarrow> int list \<Rightarrow> ('n session, imap_message list) prog" where
  "fetchTextOnly N uids = bind (fetch_messages (sn_text N) (sn_date N) (session_conn N) uids (BASE_ITEMS @ '' BODYSTRUCTURE''))
     (\<lambda>ms. if text_sections ms = [] then done_with ms
       else bind (fetchSections (sn_text N) (sn_date N) (session_conn N) uids (text_sections ms))
         (\<lambda>got. done_with (map (with_text (sn_text N) (message_leaves ms) got) ms)))"

definition SEEN :: string where "SEEN = backslash # ''Seen''"
definition FLAGGED :: string where "FLAGGED = backslash # ''Flagged''"

definition fetch_uids :: "'n session_net \<Rightarrow> fetch_options \<Rightarrow> ('n session, int list) prog" where
  "fetch_uids N opts = (case fo_uids opts of Some us \<Rightarrow> done_with us
     | None \<Rightarrow> bind (search (session_conn N) (fetch_query opts)) (\<lambda>us. done_with (map int (newest (fo_limit opts) us))))"

definition session_fetch :: "'n session_net \<Rightarrow> fetch_options \<Rightarrow> units \<Rightarrow> ('n session, imap_message list) prog" where
  "session_fetch N opts m = withMailbox N m (bind (fetch_uids N opts) (\<lambda>uids.
     if uids = [] then done_with []
     else bind (if fo_textOnly opts then fetchTextOnly N uids
                else fetch_messages (sn_text N) (sn_date N) (session_conn N) uids (fetch_items_text opts))
       (\<lambda>ms. if fo_markSeen opts then bind (setFlagsSilent (session_conn N) uids [SEEN] True) (\<lambda>_. done_with ms) else done_with ms)))"

definition session_search :: "'n session_net \<Rightarrow> imap_query \<Rightarrow> units \<Rightarrow> ('n session, nat list) prog" where
  "session_search N q m = withMailbox N m (search (session_conn N) q)"

definition fetchStructure :: "'n session_net \<Rightarrow> nat \<Rightarrow> units \<Rightarrow> ('n session, body_node option) prog" where
  "fetchStructure N uid m = withMailbox N m (bind (fetchBodyStructure (sn_text N) (sn_date N) (session_conn N) [int uid])
     (\<lambda>bs. done_with (map_of bs uid)))"

text \<open>fetchSection of the client: nothing where the server sent nothing.\<close>

definition one_section :: "nat \<Rightarrow> string \<Rightarrow> (nat, (string, bytes) jsmap) jsmap \<Rightarrow> bytes" where
  "one_section uid sec r = or_default (case map_of r uid of Some m \<Rightarrow> map_of m sec | None \<Rightarrow> None) []"

definition session_section :: "'n session_net \<Rightarrow> nat \<Rightarrow> string \<Rightarrow> units \<Rightarrow> ('n session, bytes) prog" where
  "session_section N uid sec m = withMailbox N m
     (bind (fetchSections (sn_text N) (sn_date N) (session_conn N) [int uid] [sec]) (\<lambda>r. done_with (one_section uid sec r)))"

definition fetchRaw :: "'n session_net \<Rightarrow> nat \<Rightarrow> units \<Rightarrow> ('n session, bytes) prog" where
  "fetchRaw N uid m = session_section N uid [] m"

definition fetchText :: "'n session_net \<Rightarrow> int list \<Rightarrow> units \<Rightarrow> ('n session, imap_message list) prog" where
  "fetchText N uids m = withMailbox N m (fetchTextOnly N uids)"

definition CHANGED_ITEMS :: string where "CHANGED_ITEMS = ''UID FLAGS ENVELOPE RFC822.SIZE INTERNALDATE MODSEQ''"

definition session_changed :: "'n session_net \<Rightarrow> rat \<Rightarrow> units \<Rightarrow> string \<Rightarrow> ('n session, imap_message list) prog" where
  "session_changed N modseq m uids = withMailbox N m (fetchChanged (sn_text N) (sn_date N) (session_conn N) uids modseq CHANGED_ITEMS)"

section \<open>Flags, copies, removal\<close>

definition session_flags :: "'n session_net \<Rightarrow> int list \<Rightarrow> string list \<Rightarrow> bool \<Rightarrow> units \<Rightarrow> ('n session, unit) prog" where
  "session_flags N uids flags add m = withWritable N m (setFlags (session_conn N) uids flags add)"

definition markSeen :: "'n session_net \<Rightarrow> int list \<Rightarrow> units \<Rightarrow> ('n session, unit) prog" where "markSeen N uids m = session_flags N uids [SEEN] True m"
definition markUnseen :: "'n session_net \<Rightarrow> int list \<Rightarrow> units \<Rightarrow> ('n session, unit) prog" where "markUnseen N uids m = session_flags N uids [SEEN] False m"
definition markFlagged :: "'n session_net \<Rightarrow> int list \<Rightarrow> units \<Rightarrow> ('n session, unit) prog" where "markFlagged N uids m = session_flags N uids [FLAGGED] True m"
definition markUnflagged :: "'n session_net \<Rightarrow> int list \<Rightarrow> units \<Rightarrow> ('n session, unit) prog" where "markUnflagged N uids m = session_flags N uids [FLAGGED] False m"

definition session_copy :: "'n session_net \<Rightarrow> int list \<Rightarrow> units \<Rightarrow> units \<Rightarrow> ('n session, unit) prog" where
  "session_copy N uids dest m = withMailbox N m (copy (session_conn N) uids dest)"

definition session_move :: "'n session_net \<Rightarrow> int list \<Rightarrow> units \<Rightarrow> units \<Rightarrow> ('n session, unit) prog" where
  "session_move N uids dest m = withWritable N m (move (session_conn N) uids dest)"

definition delete_messages :: "'n session_net \<Rightarrow> int list \<Rightarrow> units \<Rightarrow> ('n session, unit) prog" where
  "delete_messages N uids m = withWritable N m (bind (setFlagsSilent (session_conn N) uids [DELETED] True) (\<lambda>_. expungeUids (session_conn N) uids))"

definition session_expunge :: "'n session_net \<Rightarrow> units \<Rightarrow> ('n session, unit) prog" where
  "session_expunge N m = withWritable N m (expunge (session_conn N))"

definition session_append :: "'n session_net \<Rightarrow> units \<Rightarrow> bytes \<Rightarrow> string list \<Rightarrow> date_fields option \<Rightarrow> ('n session, (nat \<times> nat) option) prog" where
  "session_append N m raw flags d = locked N (append_message (session_conn N) m raw flags d)"

section \<open>Calls\<close>

text \<open>A call waits for the lock; the mailbox it goes without is taken from the session when it is made.\<close>

datatype session_call = CoNoop | CoList units units | CoLsub units units | CoFind units | CoCreate units | CoDelete units | CoRename units units
  | CoSubscribe units | CoUnsubscribe units | CoOpen units | CoExamine units | CoStatus units "string list"
  | CoFetch fetch_options units | CoSearch imap_query units | CoStructure nat units | CoSection nat string units | CoText "int list" units
  | CoChanged rat units string | CoFlags "int list" "string list" bool units | CoCopy "int list" units units | CoMove "int list" units units
  | CoDeleteMessages "int list" units | CoExpunge units | CoAppend units bytes "string list" "date_fields option"

fun session_call_run :: "'n session_net \<Rightarrow> session_call \<Rightarrow> ('n session, unit) prog" where
  "session_call_run N CoNoop = locked N (noop (session_conn N))"
| "session_call_run N (CoList r p) = no_value (session_list N r p)"
| "session_call_run N (CoLsub r p) = no_value (session_lsub N r p)"
| "session_call_run N (CoFind u) = no_value (findMailbox N u)"
| "session_call_run N (CoCreate m) = session_create N m"
| "session_call_run N (CoDelete m) = session_delete N m"
| "session_call_run N (CoRename a b) = session_rename N a b"
| "session_call_run N (CoSubscribe m) = session_subscribe N m"
| "session_call_run N (CoUnsubscribe m) = session_unsubscribe N m"
| "session_call_run N (CoOpen m) = no_value (session_open N m)"
| "session_call_run N (CoExamine m) = no_value (openReadOnly N m)"
| "session_call_run N (CoStatus m is) = no_value (session_status N m is)"
| "session_call_run N (CoFetch opts m) = no_value (session_fetch N opts m)"
| "session_call_run N (CoSearch q m) = no_value (session_search N q m)"
| "session_call_run N (CoStructure u m) = no_value (fetchStructure N u m)"
| "session_call_run N (CoSection u sec m) = no_value (session_section N u sec m)"
| "session_call_run N (CoText us m) = no_value (fetchText N us m)"
| "session_call_run N (CoChanged q m us) = no_value (session_changed N q m us)"
| "session_call_run N (CoFlags us fs a m) = session_flags N us fs a m"
| "session_call_run N (CoCopy us d m) = session_copy N us d m"
| "session_call_run N (CoMove us d m) = session_move N us d m"
| "session_call_run N (CoDeleteMessages us m) = delete_messages N us m"
| "session_call_run N (CoExpunge m) = session_expunge N m"
| "session_call_run N (CoAppend m raw fs d) = no_value (session_append N m raw fs d)"

text \<open>close() does not wait for the lock; the client logs out and its close event is no longer the session's.\<close>

definition session_close :: "'n session_net \<Rightarrow> 'n session \<Rightarrow> 'n session" where
  "session_close N s = s \<lparr> se_closed := True, se_client := False, se_current := None, se_selected := None, se_state := IsLogout,
     se_net := (if isConnected s then snd (sn_exec N (se_net s) [PText ''LOGOUT'']) else se_net s) \<rparr>"

text \<open>The mailbox of a call that may be made without one.\<close>

fun at_mailbox :: "units \<Rightarrow> session_call \<Rightarrow> session_call" where
  "at_mailbox m (CoFetch opts b) = CoFetch opts m"
| "at_mailbox m (CoSearch q b) = CoSearch q m"
| "at_mailbox m (CoStructure u b) = CoStructure u m"
| "at_mailbox m (CoSection u sec b) = CoSection u sec m"
| "at_mailbox m (CoText us b) = CoText us m"
| "at_mailbox m (CoChanged q b us) = CoChanged q m us"
| "at_mailbox m (CoFlags us fs a b) = CoFlags us fs a m"
| "at_mailbox m (CoCopy us d b) = CoCopy us d m"
| "at_mailbox m (CoMove us d b) = CoMove us d m"
| "at_mailbox m (CoDeleteMessages us b) = CoDeleteMessages us m"
| "at_mailbox m (CoExpunge b) = CoExpunge m"
| "at_mailbox m c = c"

text \<open>The calls behind the lock; a step makes a call, runs the first one, loses the connection between two of them, connects or closes.\<close>

record 'n session_sys =
  sy_session :: "'n session"
  sy_calls :: "session_call list"

datatype session_event_in = QCall "units option" session_call | QRun | QLost | QConnect | QClose

definition session_step :: "'n session_net \<Rightarrow> 'n session_sys \<Rightarrow> session_event_in \<Rightarrow> 'n session_sys" where
  "session_step N sy e = (case e of
     QCall mb c \<Rightarrow> sy \<lparr> sy_calls := sy_calls sy @ [at_mailbox (mailboxOr (sy_session sy) mb) c] \<rparr>
   | QRun \<Rightarrow> (case sy_calls sy of [] \<Rightarrow> sy
       | c # cs \<Rightarrow> sy \<lparr> sy_session := snd (session_call_run N c (sy_session sy)), sy_calls := cs \<rparr>)
   | QLost \<Rightarrow> if isConnected (sy_session sy) then sy \<lparr> sy_session := connection_lost (sy_session sy) \<rparr> else sy
   | QConnect \<Rightarrow> sy \<lparr> sy_session := snd (session_connect N (sy_session sy)) \<rparr>
   | QClose \<Rightarrow> sy \<lparr> sy_session := session_close N (sy_session sy) \<rparr>)"

end
