(* ===== verification/ImapSessionProps.thy ===== *)
theory ImapSessionProps
  imports ImapSession
begin

text \<open>
  What the session promises of src/src/imap/ImapSession.ts: an operation runs on the mailbox it was asked for, whatever was
  called, failed, reconnected or was closed before.  The server is described by the mailbox each connection has selected.
\<close>

section \<open>The server\<close>

text \<open>sv tells the mailbox selected on the connection and whether it is read-only.  SELECT and EXAMINE that succeed select the
  mailbox named, DELETE and RENAME may change the selection only when they are of the selected mailbox, other commands leave it.\<close>

type_synonym 'n selection = "'n \<Rightarrow> (units \<times> bool) option"

definition plain_parts :: "command_part list \<Rightarrow> bool" where
  "plain_parts ps \<longleftrightarrow> (case ps of PText t # r \<Rightarrow> t \<notin> {''SELECT'', ''EXAMINE'', ''DELETE'', ''RENAME'', ''LOGOUT''} | _ \<Rightarrow> False)"

definition still_there :: "'n session_net \<Rightarrow> (mail_error + 'a) \<Rightarrow> 'n \<Rightarrow> bool" where "still_there N r n \<longleftrightarrow> isl r \<longrightarrow> sn_open N n"

definition opens_truly :: "'n session_net \<Rightarrow> 'n selection \<Rightarrow> bool" where
  "opens_truly N sv \<longleftrightarrow> (\<forall>n m cs ps t us n'. name_ok m \<and> sn_exec N n ps = (Inr (t, us), n') \<longrightarrow>
     (ImapParts (CSelect m cs) = Inr ps \<longrightarrow> sv n' = Some (m, ms_readOnly (buildMailboxStatus m False us t))) \<and>
     (ImapParts (CExamine m) = Inr ps \<longrightarrow> sv n' = Some (m, ms_readOnly (buildMailboxStatus m True us t))))"

definition leaves_selection :: "'n session_net \<Rightarrow> 'n selection \<Rightarrow> bool" where
  "leaves_selection N sv \<longleftrightarrow> (\<forall>n ps r n'. sn_exec N n ps = (r, n') \<and> still_there N r n' \<longrightarrow>
     (plain_parts ps \<longrightarrow> sv n' = sv n) \<and>
     (\<forall>m. name_ok m \<and> (ImapParts (CDelete m) = Inr ps \<or> (\<exists>m'. ImapParts (CRename m m') = Inr ps)) \<longrightarrow>
        sv n' = sv n \<or> (\<not> isl r \<and> (\<exists>m0 ro. sv n = Some (m0, ro) \<and> sameMailbox m0 m))))"

definition selects_truly :: "'n session_net \<Rightarrow> 'n selection \<Rightarrow> bool" where
  "selects_truly N sv \<longleftrightarrow> opens_truly N sv \<and> leaves_selection N sv"

section \<open>What the session knows\<close>

definition knows_mailbox :: "'n selection \<Rightarrow> 'n session \<Rightarrow> bool" where
  "knows_mailbox sv s \<longleftrightarrow> (\<forall>st. se_current s = Some st \<and> se_selected s \<noteq> None \<longrightarrow>
     se_state s = IsSelected \<and> sv (se_net s) = Some (ms_name st, ms_readOnly st)) \<and>
   (\<forall>st. se_current s = Some st \<longrightarrow> name_ok (ms_name st)) \<and>
   (se_state s = IsAuthenticated \<or> se_state s = IsSelected \<longrightarrow> se_client s)"

definition keeps :: "('s \<Rightarrow> bool) \<Rightarrow> ('s, 'a) prog \<Rightarrow> bool" where
  "keeps I p \<longleftrightarrow> (\<forall>s r s'. I s \<and> p s = (r, s') \<longrightarrow> I s')"

named_theorems keeps_intros \<open>programs that keep an invariant, from their parts\<close>

lemma keeps_done [keeps_intros]: "keeps I (done_with a)" by (simp add: keeps_def done_with_def)

lemma keeps_fail [keeps_intros]: "keeps I (fail_with e)" by (simp add: keeps_def fail_with_def)

lemma keeps_then [keeps_intros]: "keeps I p \<Longrightarrow> (\<And>a. keeps I (f a)) \<Longrightarrow> keeps I (bind p f)"
proof -
  assume p: "keeps I p" and f: "\<And>a. keeps I (f a)"
  have "I s'" if "I s" "bind p f s = (r, s')" for s r s'
  proof -
    obtain q s1 where q: "p s = (q, s1)" by fastforce
    then have "I s1" using p that(1) by (auto simp: keeps_def)
    then show "I s'" using that(2) q f by (cases q) (auto simp: bind_def keeps_def)
  qed
  then show ?thesis by (auto simp: keeps_def)
qed

lemma keeps_if [keeps_intros]: "keeps I p \<Longrightarrow> keeps I q \<Longrightarrow> keeps I (if b then p else q)" by simp

lemma keeps_at: "(\<And>s. keeps I (f s)) \<Longrightarrow> keeps I (\<lambda>s. f s s)" by (simp add: keeps_def)

lemma keeps_cond [keeps_intros]: "keeps I p \<Longrightarrow> keeps I q \<Longrightarrow> keeps I (\<lambda>s. if c s then p s else q s)"
  unfolding keeps_def by metis

lemma keeps_no_value [keeps_intros]: "keeps I p \<Longrightarrow> keeps I (no_value p)" unfolding no_value_def by (intro keeps_intros)

lemma keeps_each [keeps_intros]: "(\<And>x. x \<in> set xs \<Longrightarrow> keeps I (f x)) \<Longrightarrow> keeps I (each f xs)"
proof (induction xs)
  case (Cons x xs)
  have "keeps I (f x)" "keeps I (each f xs)" using Cons by simp_all
  then show ?case unfolding each.simps by (intro keeps_intros)
qed (simp add: keeps_intros)

lemma keeps_selected [keeps_intros]: "keeps I (requireSelected c)" by (simp add: keeps_def requireSelected_def done_with_def fail_with_def)

lemma keeps_run: "(\<And>ps. ImapParts cmd = Inr ps \<Longrightarrow> keeps I (\<lambda>s. cn_exec c s ps)) \<Longrightarrow> keeps I (run_command c cmd)"
  unfolding run_command_def by (cases "ImapParts cmd") (simp_all add: keeps_fail)

section \<open>Commands on messages\<close>

lemma exec_keeps:
  assumes "leaves_selection N sv" "plain_parts ps"
  shows "keeps (knows_mailbox sv) (\<lambda>s. client_exec N s ps)"
  unfolding keeps_def
proof (intro allI impI, elim conjE)
  fix s r s' assume k: "knows_mailbox sv s" and e: "client_exec N s ps = (r, s')"
  obtain r0 n where n: "sn_exec N (se_net s) ps = (r0, n)" by fastforce
  show "knows_mailbox sv s'"
  proof (cases "still_there N r0 n")
    case True
    then have "sv n = sv (se_net s)" using assms n unfolding leaves_selection_def by blast
    then show ?thesis using k e n True by (auto simp: client_exec_def knows_mailbox_def still_there_def)
  next
    case False
    then show ?thesis using e n by (auto simp: client_exec_def knows_mailbox_def still_there_def connection_lost_def session_emit_def)
  qed
qed

definition plain_command :: "imap_command \<Rightarrow> bool" where
  "plain_command c = (case c of CSelect m cs \<Rightarrow> False | CExamine m \<Rightarrow> False | CDelete m \<Rightarrow> False | CRename a b \<Rightarrow> False | _ \<Rightarrow> True)"

lemma plain_command_parts: "plain_command c \<Longrightarrow> ImapParts c = Inr ps \<Longrightarrow> plain_parts ps"
  by (cases c) (auto simp: plain_command_def plain_parts_def and_then_Inr)

lemma plain_run: "leaves_selection N sv \<Longrightarrow> plain_command c \<Longrightarrow> keeps (knows_mailbox sv) (run_command (session_conn N) c)"
  by (rule keeps_run) (simp add: session_conn_def exec_keeps plain_command_parts)

lemma plain_exec: "leaves_selection N sv \<Longrightarrow> plain_parts ps \<Longrightarrow> keeps (knows_mailbox sv) (\<lambda>s. cn_exec (session_conn N) s ps)"
  by (simp add: session_conn_def exec_keeps)

lemma keeps_prod [keeps_intros]: "(\<And>a b. keeps I (f a b)) \<Longrightarrow> keeps I (case x of (a, b) \<Rightarrow> f a b)" by (cases x) simp

lemma keeps_option [keeps_intros]: "keeps I p \<Longrightarrow> (\<And>a. keeps I (f a)) \<Longrightarrow> keeps I (case x of None \<Rightarrow> p | Some a \<Rightarrow> f a)" by (cases x) simp_all

lemma message_programs:
  assumes "leaves_selection N sv"
  shows "keeps (knows_mailbox sv) (search (session_conn N) q)"
    "keeps (knows_mailbox sv) (fetchAttributes td pd (session_conn N) uids items)"
    "keeps (knows_mailbox sv) (setFlags (session_conn N) uids flags add)"
    "keeps (knows_mailbox sv) (setFlagsSilent (session_conn N) uids flags add)"
    "keeps (knows_mailbox sv) (copy (session_conn N) uids dest)"
    "keeps (knows_mailbox sv) (expunge (session_conn N))"
    "keeps (knows_mailbox sv) (append_message (session_conn N) m raw flags d)"
    "keeps (knows_mailbox sv) (fetchChanged td pd (session_conn N) us modseq items)"
    "keeps (knows_mailbox sv) (getStatus (session_conn N) m is)"
    "keeps (knows_mailbox sv) (listSubscribed (session_conn N) m p)"
    "keeps (knows_mailbox sv) (createMailbox (session_conn N) m)"
    "keeps (knows_mailbox sv) (subscribe (session_conn N) m)"
    "keeps (knows_mailbox sv) (unsubscribe (session_conn N) m)"
    "keeps (knows_mailbox sv) (noop (session_conn N))"
  unfolding search_def fetchAttributes_def setFlags_def setFlagsSilent_def copy_def expunge_def append_message_def fetchChanged_def getStatus_def
    listSubscribed_def createMailbox_def subscribe_def unsubscribe_def noop_def
  by (intro keeps_intros plain_run[OF assms] plain_exec[OF assms]; simp add: plain_command_def plain_parts_def)+

lemma list_program:
  assumes "leaves_selection N sv"
  shows "keeps (knows_mailbox sv) (list_mailboxes (session_conn N) m p)"
proof -
  let ?has = "\<lambda>s. cn_has (session_conn N) s ''SPECIAL-USE'' \<and> cn_has (session_conn N) s ''LIST-EXTENDED''"
  let ?f = "\<lambda>b. bind (run_command (session_conn N) (CList m p b))
    (\<lambda>(t, us). done_with (map (\<lambda>r. parseListResponse (ir_data r)) (filter (\<lambda>r. keyword_ws ''LIST'' (ir_data r)) us)))"
  have "list_mailboxes (session_conn N) m p = (\<lambda>s. ?f (?has s) s)" by (simp add: list_mailboxes_def fun_eq_iff)
  moreover have "keeps (knows_mailbox sv) (?f b)" for b
    by (intro keeps_intros plain_run[OF assms]) (simp add: plain_command_def)
  then have "keeps (knows_mailbox sv) (\<lambda>s. ?f (?has s) s)" by (rule keeps_at[where f = "\<lambda>s. ?f (?has s)"])
  ultimately show ?thesis by simp
qed

lemma removal_programs:
  assumes "leaves_selection N sv"
  shows "keeps (knows_mailbox sv) (expungeUids (session_conn N) uids)" "keeps (knows_mailbox sv) (move (session_conn N) uids dest)"
proof -
  note p = message_programs[OF assms] plain_run[OF assms]
  show e: "keeps (knows_mailbox sv) (expungeUids (session_conn N) uids)" for uids
    unfolding expungeUids_def by (intro keeps_intros p; simp add: plain_command_def)
  show "keeps (knows_mailbox sv) (move (session_conn N) uids dest)"
    unfolding move_def by (intro keeps_intros p e; simp add: plain_command_def)
qed

lemma fetch_programs:
  assumes "leaves_selection N sv"
  shows "keeps (knows_mailbox sv) (fetch_messages td pd (session_conn N) uids items)"
    "keeps (knows_mailbox sv) (fetchBodyStructure td pd (session_conn N) uids)"
    "keeps (knows_mailbox sv) (fetchSections td pd (session_conn N) uids ss)"
    "keeps (knows_mailbox sv) (fetchTextOnly N uids)"
    "keeps (knows_mailbox sv) (fetch_uids N opts)"
proof -
  note p = message_programs[OF assms]
  show m: "keeps (knows_mailbox sv) (fetch_messages td pd (session_conn N) uids items)" for td pd uids items
    unfolding fetch_messages_def by (intro keeps_intros p)
  show "keeps (knows_mailbox sv) (fetchBodyStructure td pd (session_conn N) uids)"
    unfolding fetchBodyStructure_def by (intro keeps_intros p)
  show s: "keeps (knows_mailbox sv) (fetchSections td pd (session_conn N) uids ss)" for td pd uids ss
    unfolding fetchSections_def by (intro keeps_intros p)
  show "keeps (knows_mailbox sv) (fetchTextOnly N uids)"
    unfolding fetchTextOnly_def by (intro keeps_intros m s)
  show "keeps (knows_mailbox sv) (fetch_uids N opts)"
    unfolding fetch_uids_def by (intro keeps_intros p)
qed

section \<open>The connection and the selection\<close>

lemma emit_simps [simp]: "se_current (session_emit v t) = se_current t" "se_selected (session_emit v t) = se_selected t"
  "se_state (session_emit v t) = se_state t" "se_client (session_emit v t) = se_client t" "se_net (session_emit v t) = se_net t"
  "se_closed (session_emit v t) = se_closed t"
  by (simp_all add: session_emit_def)

lemma lost_knows: "knows_mailbox sv (connection_lost s)" by (simp add: knows_mailbox_def connection_lost_def)

lemma connect_facts: "connect_loop N was d att left s = (r, s') \<Longrightarrow>
   (isl r \<and> se_current s' = se_current s \<and> se_selected s' = se_selected s \<and> se_state s' = se_state s \<and> se_client s' = se_client s) \<or>
   (\<not> isl r \<and> se_current s' = None \<and> se_state s' = IsAuthenticated \<and> se_client s')"
proof (induction N was d att left s arbitrary: r s' rule: connect_loop.induct)
  case (1 N was d att left s)
  let ?s0 = "if was \<or> 0 < att then session_emit (SvReconnect (att + 1)) s else s"
  obtain q n where q: "sn_connect N (se_net ?s0) = (q, n)" by fastforce
  show ?case using 1 q by (auto simp: connect_loop.simps[of N was d att left s] Let_def split: sum.splits if_splits nat.splits)
qed

lemma ensure_knows:
  assumes "knows_mailbox sv s" "ensureClient N s = (r, s')"
  shows "knows_mailbox sv s' \<and> (isl r \<or> isConnected s') \<and> (s' = s \<or> se_current s' = None \<or> (isl r \<and> se_current s' = se_current s))"
proof (cases "se_closed s \<or> isConnected s")
  case True
  then show ?thesis using assms by (auto simp: ensureClient_def fail_with_def done_with_def split: if_splits)
next
  case False
  obtain n d where "reconnect_of (sn_reconnect N) = (n, d)" by fastforce
  then have c: "connect_loop N (se_client s) d 0 n s = (r, s')" using assms(2) False by (simp add: ensureClient_def)
  from connect_facts[OF c] show ?thesis
  proof (elim disjE conjE)
    assume f: "isl r" "se_current s' = se_current s" "se_selected s' = se_selected s" "se_state s' = se_state s" "se_client s' = se_client s"
    have "se_state s = IsAuthenticated \<or> se_state s = IsSelected \<longrightarrow> se_client s" using assms(1) unfolding knows_mailbox_def by blast
    then have "se_state s \<noteq> IsAuthenticated \<and> se_state s \<noteq> IsSelected" using False unfolding isConnected_def by blast
    then have "knows_mailbox sv s'" using assms(1) f(2-5) by (simp add: knows_mailbox_def)
    then show ?thesis using f(1,2) by simp
  next
    assume "\<not> isl r" "se_current s' = None" "se_state s' = IsAuthenticated" "se_client s'"
    then show ?thesis by (simp add: knows_mailbox_def isConnected_def)
  qed
qed

lemma status_name: "ms_name (buildMailboxStatus m ro us t) = m"
proof -
  have one: "ms_name (status_of r st) = ms_name st" for r st
    by (auto simp: status_of_def Let_def split: option.splits)
  have "ms_name (fold status_of us st) = ms_name st" for st by (induction us arbitrary: st) (simp_all add: one)
  then show ?thesis by (simp add: buildMailboxStatus_def Let_def)
qed

text \<open>What the server said when it opened the mailbox of st.\<close>

definition opened_by :: "'n session_net \<Rightarrow> units \<Rightarrow> bool \<Rightarrow> mailbox_status \<Rightarrow> bool" where
  "opened_by N m ro st \<longleftrightarrow> (\<exists>ps n n' t us. ImapParts (if ro then CExamine m else CSelect m (sn_has N n ''CONDSTORE'')) = Inr ps \<and>
     sn_exec N n ps = (Inr (t, us), n') \<and> st = buildMailboxStatus m ro us t)"

lemma open_knows:
  assumes "selects_truly N sv" "name_ok m" "knows_mailbox sv s" "open_current N m ro s = (r, s')"
  shows "knows_mailbox sv s'"
    and "r = Inr st \<Longrightarrow> se_current s' = Some st \<and> se_selected s' = Some st \<and> se_state s' = IsSelected \<and> ms_name st = m \<and>
      sv (se_net s') = Some (m, ms_readOnly st) \<and>
      opened_by N m ro st"
proof -
  have o: "opens_truly N sv" using assms(1) by (simp add: selects_truly_def)
  let ?ps = "if ro then CExamine m else CSelect m (sn_has N (se_net s) ''CONDSTORE'')" and ?s0 = "s \<lparr> se_selected := None \<rparr>"
  have "knows_mailbox sv s' \<and> (\<forall>st. r = Inr st \<longrightarrow> se_current s' = Some st \<and> se_selected s' = Some st \<and> se_state s' = IsSelected \<and> ms_name st = m \<and>
      sv (se_net s') = Some (m, ms_readOnly st) \<and>
      opened_by N m ro st)"
  proof (cases "se_state s \<noteq> IsAuthenticated \<and> se_state s \<noteq> IsSelected")
    case True
    then show ?thesis using assms(3,4) by (auto simp: open_current_def client_open_def bind_def fail_with_def)
  next
    case False
    then have c: "se_client s" using assms(3) by (auto simp: knows_mailbox_def)
    show ?thesis
    proof (cases "ImapParts ?ps")
      case (Inl e)
      then have "r = Inl e" "s' = ?s0" using assms(4) False by (auto simp: open_current_def client_open_def bind_def Let_def)
      then show ?thesis using assms(3) by (simp add: knows_mailbox_def)
    next
      case (Inr ps)
      obtain q n' where q: "sn_exec N (se_net s) ps = (q, n')" by fastforce
      show ?thesis
      proof (cases q)
        case (Inl e)
        then have "r = Inl e" "se_selected s' = None" "se_current s' = se_current s \<or> se_current s' = None" "se_client s' = se_client s"
          using assms(4) False Inr q
          by (cases "sn_open N n'"; auto simp: open_current_def client_open_def client_exec_def bind_def Let_def connection_lost_def)+
        then show ?thesis using assms(3) c by (auto simp: knows_mailbox_def)
      next
        case Q: (Inr tu)
        obtain t us where tu: "tu = (t, us)" by fastforce
        let ?st = "buildMailboxStatus m ro us t"
        have s': "r = Inr ?st" "se_current s' = Some ?st" "se_selected s' = Some ?st" "se_state s' = IsSelected" "se_net s' = n'" "se_client s' = se_client s"
          using assms(4) False Inr q Q tu by (auto simp: open_current_def client_open_def client_exec_def bind_def Let_def)
        have "sv n' = Some (m, ms_readOnly ?st)" using o assms(2) q Q tu Inr unfolding opens_truly_def by (cases ro) force+
        moreover have "opened_by N m ro ?st" unfolding opened_by_def using Inr q Q tu by blast
        ultimately show ?thesis using s' c assms(2) by (auto simp: knows_mailbox_def status_name)
      qed
    qed
  qed
  then show "knows_mailbox sv s'"
    and "r = Inr st \<Longrightarrow> se_current s' = Some st \<and> se_selected s' = Some st \<and> se_state s' = IsSelected \<and> ms_name st = m \<and>
      sv (se_net s') = Some (m, ms_readOnly st) \<and>
      opened_by N m ro st" by blast+
qed

section \<open>Operations on a mailbox\<close>

definition on_mailbox :: "'n selection \<Rightarrow> units \<Rightarrow> 'n session \<Rightarrow> mailbox_status \<Rightarrow> bool" where
  "on_mailbox sv m s st \<longleftrightarrow> se_current s = Some st \<and> se_state s = IsSelected \<and> sameMailbox (ms_name st) m \<and>
     sv (se_net s) = Some (ms_name st, ms_readOnly st)"

definition needs_open :: "bool \<Rightarrow> units \<Rightarrow> 'n session \<Rightarrow> bool" where
  "needs_open w m s \<longleftrightarrow> (case se_current s of None \<Rightarrow> True
     | Some st \<Rightarrow> se_selected s = None \<or> \<not> sameMailbox (ms_name st) m \<or> (w \<and> ms_readOnly st))"

lemma with_forms:
  "withMailbox N m fn = locked N (\<lambda>s. if needs_open False m s then bind (open_current N m False) (\<lambda>_. fn) s else fn s)"
  "withWritable N m fn = locked N (\<lambda>s. if needs_open True m s then bind (open_current N m False) (\<lambda>_. fn) s else fn s)"
  unfolding withMailbox_def withWritable_def needs_open_def by (rule arg_cong[where f = "locked N"], rule ext, simp split: option.split)+

lemma same_refl: "sameMailbox m m" by (simp add: sameMailbox_def)

text \<open>Either the mailbox cannot be opened, whatever was to be done, or it is done on the mailbox.\<close>

definition on_open :: "'n session_net \<Rightarrow> bool \<Rightarrow> units \<Rightarrow> ('n session, 'a) prog \<Rightarrow> ('n session, 'a) prog" where
  "on_open N w m fn = locked N (\<lambda>s. if needs_open w m s then bind (open_current N m False) (\<lambda>_. fn) s else fn s)"

lemma opened_first:
  assumes N: "selects_truly N sv" and m: "name_ok m" and k: "knows_mailbox sv s"
  shows "(\<exists>e s'. knows_mailbox sv s' \<and> (\<forall>fn :: ('n session, 'a) prog. on_open N w m fn s = (Inl e, s'))) \<or>
    (\<exists>s1 st. knows_mailbox sv s1 \<and> on_mailbox sv m s1 st \<and> (w \<and> ms_readOnly st \<longrightarrow> opened_by N m False st) \<and>
      (\<forall>fn :: ('n session, 'a) prog. on_open N w m fn s = fn s1))"
proof -
  obtain r1 s1 where 1: "ensureClient N s = (r1, s1)" by fastforce
  note k1 = ensure_knows[OF k 1]
  show ?thesis
  proof (cases r1)
    case (Inl e)
    then have "\<forall>fn :: ('n session, 'a) prog. on_open N w m fn s = (Inl e, s1)" using 1 by (simp add: on_open_def locked_def bind_def)
    then show ?thesis using k1 by blast
  next
    case u: (Inr u)
    show ?thesis
    proof (cases "needs_open w m s1")
      case True
      obtain r2 s2 where 2: "open_current N m False s1 = (r2, s2)" by fastforce
      note k2 = open_knows[OF N m conjunct1[OF k1] 2]
      show ?thesis
      proof (cases r2)
        case (Inl e)
        then have "\<forall>fn :: ('n session, 'a) prog. on_open N w m fn s = (Inl e, s2)" using 1 2 u True by (simp add: on_open_def locked_def bind_def)
        then show ?thesis using k2(1) by blast
      next
        case (Inr st)
        then have "\<forall>fn :: ('n session, 'a) prog. on_open N w m fn s = fn s2" using 1 2 u True by (simp add: on_open_def locked_def bind_def)
        moreover have "on_mailbox sv m s2 st" "opened_by N m False st" using k2(2)[OF Inr] same_refl by (simp_all add: on_mailbox_def)
        ultimately show ?thesis using k2(1) by blast
      qed
    next
      case False
      then obtain st where st: "se_current s1 = Some st" "se_selected s1 \<noteq> None" "sameMailbox (ms_name st) m" "w \<longrightarrow> \<not> ms_readOnly st"
        by (auto simp: needs_open_def split: option.splits)
      then have "on_mailbox sv m s1 st" using k1 by (auto simp: on_mailbox_def knows_mailbox_def)
      moreover have "\<forall>fn :: ('n session, 'a) prog. on_open N w m fn s = fn s1" using 1 u False by (simp add: on_open_def locked_def bind_def)
      ultimately show ?thesis using k1 st(4) by blast
    qed
  qed
qed

lemma with_keeps:
  assumes "selects_truly N sv" "name_ok m" "keeps (knows_mailbox sv) (fn :: ('n session, 'a) prog)"
  shows "keeps (knows_mailbox sv) (withMailbox N m fn)" "keeps (knows_mailbox sv) (withWritable N m fn)"
proof -
  have "knows_mailbox sv s'" if "knows_mailbox sv s" "on_open N w m fn s = (r, s')" for w s r s'
    using opened_first[OF assms(1,2) that(1), of w, where ?'a = 'a] that(2) assms(3) by (auto simp: keeps_def)
  then show "keeps (knows_mailbox sv) (withMailbox N m fn)" "keeps (knows_mailbox sv) (withWritable N m fn)"
    unfolding with_forms on_open_def[symmetric] keeps_def by blast+
qed

section \<open>Every call keeps what the session knows\<close>

lemma locked_keeps:
  assumes "keeps (knows_mailbox sv) fn"
  shows "keeps (knows_mailbox sv) (locked N fn)"
proof -
  have "keeps (knows_mailbox sv) (ensureClient N)" unfolding keeps_def using ensure_knows by blast
  then show ?thesis unfolding locked_def using assms by (intro keeps_then)
qed

lemma open_current_keeps: "selects_truly N sv \<Longrightarrow> name_ok m \<Longrightarrow> keeps (knows_mailbox sv) (open_current N m ro)"
  unfolding keeps_def using open_knows(1) by blast

lemma or_no_status_keeps [keeps_intros]: "keeps I p \<Longrightarrow> keeps I (or_no_status p)"
  unfolding keeps_def or_no_status_def by (auto split: prod.splits sum.splits)

fun call_names :: "session_call \<Rightarrow> units list" where
  "call_names (CoDelete m) = [m]"
| "call_names (CoRename a b) = [a, b]"
| "call_names (CoOpen m) = [m]"
| "call_names (CoExamine m) = [m]"
| "call_names (CoFetch opts m) = [m]"
| "call_names (CoSearch q m) = [m]"
| "call_names (CoStructure u m) = [m]"
| "call_names (CoSection u sec m) = [m]"
| "call_names (CoText us m) = [m]"
| "call_names (CoChanged q m us) = [m]"
| "call_names (CoFlags us fs a m) = [m]"
| "call_names (CoCopy us d m) = [m]"
| "call_names (CoMove us d m) = [m]"
| "call_names (CoDeleteMessages us m) = [m]"
| "call_names (CoExpunge m) = [m]"
| "call_names c = []"

text \<open>RENAME of the mailbox selected is left out: the session goes on taking it for the one of the old name.\<close>

definition call_ok :: "'n session \<Rightarrow> session_call \<Rightarrow> bool" where
  "call_ok s c \<longleftrightarrow> list_all name_ok (call_names c) \<and>
     (case c of CoRename a b \<Rightarrow> (case se_current s of Some st \<Rightarrow> \<not> sameMailbox (ms_name st) a | None \<Rightarrow> True) | _ \<Rightarrow> True)"

lemma selection_command:
  assumes N: "leaves_selection N sv" and k: "knows_mailbox sv s" and m: "name_ok m"
    and c: "ImapParts c = Inr ps" "c = CDelete m \<or> (\<exists>m'. c = CRename m m')"
    and e: "client_exec N s ps = (r, s')"
  shows "knows_mailbox sv s' \<or> (\<not> isl r \<and> (\<exists>st. se_current s = Some st \<and> sameMailbox (ms_name st) m) \<and> knows_mailbox sv (s' \<lparr> se_current := None \<rparr>))"
proof -
  obtain r0 n where n: "sn_exec N (se_net s) ps = (r0, n)" by fastforce
  show ?thesis
  proof (cases "still_there N r0 n")
    case True
    then have s': "r = r0" "s' = s \<lparr> se_net := n \<rparr>" using e n by (auto simp: client_exec_def still_there_def)
    have "sv n = sv (se_net s) \<or> (\<not> isl r0 \<and> (\<exists>m0 ro. sv (se_net s) = Some (m0, ro) \<and> sameMailbox m0 m))"
      using N n True m c unfolding leaves_selection_def by blast
    then show ?thesis
    proof
      assume "sv n = sv (se_net s)"
      then show ?thesis using k s' by (simp add: knows_mailbox_def)
    next
      assume a: "\<not> isl r0 \<and> (\<exists>m0 ro. sv (se_net s) = Some (m0, ro) \<and> sameMailbox m0 m)"
      show ?thesis
      proof (cases "se_current s = None \<or> se_selected s = None")
        case True
        then show ?thesis using k s' by (auto simp: knows_mailbox_def)
      next
        case False
        then show ?thesis using k s' a by (auto simp: knows_mailbox_def)
      qed
    qed
  next
    case False
    then show ?thesis using e n lost_knows by (auto simp: client_exec_def still_there_def)
  qed
qed

lemma delete_keeps:
  assumes "selects_truly N sv" "name_ok m"
  shows "keeps (knows_mailbox sv) (session_delete N m)"
  unfolding session_delete_def
proof (rule locked_keeps)
  have N: "leaves_selection N sv" using assms(1) by (simp add: selects_truly_def)
  show "keeps (knows_mailbox sv) (bind (deleteMailbox (session_conn N) m) (\<lambda>_ s. (Inr (),
     case se_current s of Some st \<Rightarrow> if sameMailbox (ms_name st) m then s \<lparr> se_current := None \<rparr> else s | None \<Rightarrow> s)))"
    unfolding keeps_def
  proof (intro allI impI, elim conjE)
    fix s r s' assume k: "knows_mailbox sv s"
      and e: "bind (deleteMailbox (session_conn N) m) (\<lambda>_ s. (Inr (),
     case se_current s of Some st \<Rightarrow> if sameMailbox (ms_name st) m then s \<lparr> se_current := None \<rparr> else s | None \<Rightarrow> s)) s = (r, s')"
    obtain r1 s1 where 1: "client_exec N s [PText ''DELETE'', mailboxArg m] = (r1, s1)" by fastforce
    note st = selection_command[OF N k assms(2) _ _ 1, of "CDelete m"]
    have cur: "se_current s1 = se_current s \<or> isl r1" using 1 by (auto simp: client_exec_def Let_def split: prod.splits if_splits)
    show "knows_mailbox sv s'"
    proof (cases r1)
      case (Inl x)
      then show ?thesis using e 1 st by (simp add: deleteMailbox_def no_value_def run_command_def bind_def session_conn_def)
    next
      case (Inr x)
      then have s': "s' = (case se_current s1 of Some st \<Rightarrow> if sameMailbox (ms_name st) m then s1 \<lparr> se_current := None \<rparr> else s1 | None \<Rightarrow> s1)"
        using e 1 by (simp add: deleteMailbox_def no_value_def run_command_def bind_def session_conn_def done_with_def)
      have "knows_mailbox sv (s1 \<lparr> se_current := None \<rparr>)" if "knows_mailbox sv s1" using that by (simp add: knows_mailbox_def)
      then show ?thesis using st cur Inr s' by (auto split: option.splits)
    qed
  qed
qed

lemma rename_keeps:
  assumes "selects_truly N sv" "name_ok a" "knows_mailbox sv s" "session_rename N a b s = (r, s')"
    "\<And>st. se_current s = Some st \<Longrightarrow> \<not> sameMailbox (ms_name st) a"
  shows "knows_mailbox sv s'"
proof -
  obtain r1 s1 where 1: "ensureClient N s = (r1, s1)" by fastforce
  note k1 = ensure_knows[OF assms(3) 1]
  show ?thesis
  proof (cases r1)
    case (Inl e)
    then show ?thesis using assms(4) 1 k1 by (simp add: session_rename_def locked_def bind_def)
  next
    case (Inr u)
    obtain r2 s2 where 2: "client_exec N s1 [PText ''RENAME'', mailboxArg a, mailboxArg b] = (r2, s2)" by fastforce
    have s': "s' = s2" using assms(4) 1 2 Inr
      by (cases r2) (auto simp: session_rename_def locked_def renameMailbox_def no_value_def run_command_def bind_def session_conn_def done_with_def)
    have N: "leaves_selection N sv" using assms(1) by (simp add: selects_truly_def)
    have "\<nexists>st. se_current s1 = Some st \<and> sameMailbox (ms_name st) a" using k1 assms(5) Inr by auto
    then show ?thesis using selection_command[OF N conjunct1[OF k1] assms(2) _ _ 2, of "CRename a b"] s' by auto
  qed
qed

lemma calls_keep:
  assumes N: "selects_truly N sv" and m: "list_all name_ok (call_names c)" "\<And>a b. c \<noteq> CoRename a b"
  shows "keeps (knows_mailbox sv) (session_call_run N c)"
proof -
  have L: "leaves_selection N sv" using N by (simp add: selects_truly_def)
  note p = message_programs[OF L] list_program[OF L] removal_programs[OF L] fetch_programs[OF L]
  note w = with_keeps[OF N]
  show ?thesis
  proof (cases c)
    case (CoDelete x)
    then show ?thesis using delete_keeps[OF N] m by simp
  next
    case (CoOpen x)
    then have x: "name_ok x" using m by simp
    show ?thesis unfolding CoOpen session_call_run.simps session_open_def by (intro keeps_intros locked_keeps p open_current_keeps[OF N x])
  next
    case (CoExamine x)
    then have x: "name_ok x" using m by simp
    show ?thesis unfolding CoExamine session_call_run.simps openReadOnly_def by (intro keeps_intros locked_keeps open_current_keeps[OF N x])
  next
    case (CoFetch opts x)
    then have x: "name_ok x" using m by simp
    show ?thesis unfolding CoFetch session_call_run.simps session_fetch_def by (intro keeps_intros w x p)
  next
    case (CoSearch q x)
    then have x: "name_ok x" using m by simp
    show ?thesis unfolding CoSearch session_call_run.simps session_search_def by (intro keeps_intros w x p)
  next
    case (CoStructure u x)
    then have x: "name_ok x" using m by simp
    show ?thesis unfolding CoStructure session_call_run.simps fetchStructure_def by (intro keeps_intros w x p)
  next
    case (CoSection u sec x)
    then have x: "name_ok x" using m by simp
    show ?thesis unfolding CoSection session_call_run.simps session_section_def by (intro keeps_intros w x p)
  next
    case (CoText us x)
    then have x: "name_ok x" using m by simp
    show ?thesis unfolding CoText session_call_run.simps fetchText_def by (intro keeps_intros w x p)
  next
    case (CoChanged q x us)
    then have x: "name_ok x" using m by simp
    show ?thesis unfolding CoChanged session_call_run.simps session_changed_def by (intro keeps_intros w x p)
  next
    case (CoFlags us fs a x)
    then have x: "name_ok x" using m by simp
    show ?thesis unfolding CoFlags session_call_run.simps session_flags_def by (intro w x p)
  next
    case (CoCopy us d x)
    then have x: "name_ok x" using m by simp
    show ?thesis unfolding CoCopy session_call_run.simps session_copy_def by (intro w x p)
  next
    case (CoMove us d x)
    then have x: "name_ok x" using m by simp
    show ?thesis unfolding CoMove session_call_run.simps session_move_def by (intro w x p)
  next
    case (CoDeleteMessages us x)
    then have x: "name_ok x" using m by simp
    show ?thesis unfolding CoDeleteMessages session_call_run.simps delete_messages_def by (intro keeps_intros w x p)
  next
    case (CoExpunge x)
    then have x: "name_ok x" using m by simp
    show ?thesis unfolding CoExpunge session_call_run.simps session_expunge_def by (intro w x p)
  next
    case (CoRename a b)
    then show ?thesis using m(2) by blast
  qed (erule ssubst, unfold session_call_run.simps session_list_def session_lsub_def findMailbox_def session_create_def session_subscribe_def
      session_unsubscribe_def session_status_def session_append_def, intro keeps_intros locked_keeps p)+
qed

definition sys_knows :: "'n selection \<Rightarrow> 'n session_sys \<Rightarrow> bool" where
  "sys_knows sv sy \<longleftrightarrow> knows_mailbox sv (sy_session sy) \<and> list_all (\<lambda>c. list_all name_ok (call_names c)) (sy_calls sy)"

definition session_ok :: "'n session_sys \<Rightarrow> session_event_in \<Rightarrow> bool" where
  "session_ok sy e = (case e of
     QCall mb c \<Rightarrow> list_all name_ok (call_names c) \<and> (case mb of Some m \<Rightarrow> name_ok m | None \<Rightarrow> True)
   | QRun \<Rightarrow> (case sy_calls sy of c # cs \<Rightarrow> call_ok (sy_session sy) c | [] \<Rightarrow> True)
   | _ \<Rightarrow> True)"

lemma default_name_ok: "name_ok DEFAULT_MAILBOX" by (simp add: DEFAULT_MAILBOX_def name_ok_def units_of_def)

lemma at_mailbox_names: "list_all name_ok (call_names c) \<Longrightarrow> name_ok m \<Longrightarrow> list_all name_ok (call_names (at_mailbox m c))"
  by (cases c) simp_all

lemma session_step_knows:
  assumes N: "selects_truly N sv" and k: "sys_knows sv sy" and ok: "session_ok sy e"
  shows "sys_knows sv (session_step N sy e)"
proof (cases e)
  case (QCall mb c)
  have "name_ok (mailboxOr (sy_session sy) mb)"
    using k ok QCall default_name_ok by (auto simp: mailboxOr_def session_ok_def sys_knows_def knows_mailbox_def split: option.splits)
  then show ?thesis using k ok QCall at_mailbox_names by (simp add: session_step_def sys_knows_def session_ok_def)
next
  case QRun
  show ?thesis
  proof (cases "sy_calls sy")
    case Nil
    then show ?thesis using k QRun by (simp add: session_step_def)
  next
    case (Cons c cs)
    have c: "call_ok (sy_session sy) c" using ok QRun Cons by (simp add: session_ok_def)
    have "knows_mailbox sv (snd (session_call_run N c (sy_session sy)))"
    proof (cases "\<exists>a b. c = CoRename a b")
      case True
      then obtain a b where r: "c = CoRename a b" by blast
      obtain q s' where q: "session_rename N a b (sy_session sy) = (q, s')" by fastforce
      have "knows_mailbox sv s'"
        by (rule rename_keeps[OF N _ _ q]) (use k c r in \<open>auto simp: sys_knows_def call_ok_def\<close>)
      then show ?thesis using r q by simp
    next
      case False
      then have "keeps (knows_mailbox sv) (session_call_run N c)" using calls_keep[OF N] c by (auto simp: call_ok_def)
      then show ?thesis using k unfolding keeps_def sys_knows_def by (metis prod.collapse)
    qed
    then show ?thesis using k QRun Cons by (simp add: session_step_def sys_knows_def)
  qed
next
  case QLost
  then show ?thesis using k by (simp add: session_step_def sys_knows_def lost_knows)
next
  case QConnect
  obtain q s' where q: "session_connect N (sy_session sy) = (q, s')" by fastforce
  have "knows_mailbox sv ((sy_session sy) \<lparr> se_closed := False \<rparr>)" using k by (simp add: sys_knows_def knows_mailbox_def)
  then have "knows_mailbox sv s'" using ensure_knows q unfolding session_connect_def by blast
  then show ?thesis using k QConnect q by (simp add: session_step_def sys_knows_def)
next
  case QClose
  then show ?thesis using k by (simp add: session_step_def sys_knows_def session_close_def knows_mailbox_def)
qed

definition new_system :: "'n \<Rightarrow> 'n session_sys" where "new_system n = \<lparr> sy_session = new_session n, sy_calls = [] \<rparr>"

interpretation ses: machine "session_step N" session_ok "\<lambda>sy. selects_truly N sv \<longrightarrow> sys_knows sv sy" for N :: "'n session_net" and sv
  by unfold_locales (simp add: session_step_knows)

lemma new_system_knows: "sys_knows sv (new_system n)" by (simp add: sys_knows_def knows_mailbox_def new_system_def new_session_def)

section \<open>Where operations run\<close>


text \<open>What RENAME of the selected mailbox does: an operation on the old name runs without opening it again, on the mailbox renamed.\<close>

lemma renamed_mailbox_is_not_reopened:
  assumes "\<not> se_closed s" "isConnected s" "se_current s = Some st" "se_selected s \<noteq> None" "session_rename N (ms_name st) b s = (Inr (), s')"
  shows "withMailbox N (ms_name st) fn s' = fn s'"
proof -
  obtain r s1 where 1: "client_exec N s [PText ''RENAME'', mailboxArg (ms_name st), mailboxArg b] = (r, s1)" by fastforce
  have "\<not> isl r" "s' = s1" using assms(1,2,5) 1
    by (cases r; auto simp: session_rename_def locked_def ensureClient_def bind_def done_with_def renameMailbox_def no_value_def run_command_def session_conn_def)+
  then have "s' = s \<lparr> se_net := se_net s' \<rparr>" using 1 by (auto simp: client_exec_def Let_def split: prod.splits)
  then have "se_current s' = Some st" "se_selected s' \<noteq> None" "isConnected s'" "\<not> se_closed s'"
    using assms(1-4) by (metis session.select_convs session.surjective session.update_convs(1) isConnected_def)+
  then show ?thesis by (auto simp: withMailbox_def locked_def ensureClient_def bind_def done_with_def same_refl)
qed

section \<open>A server\<close>

lemma mailbox_arg_inj:
  assumes "name_ok m" "name_ok n" "mailboxArg m = mailboxArg n"
  shows "m = n"
proof -
  have a: "list_all (\<lambda>u. 32 \<le> u \<and> u \<le> 126) (encodeMailboxName x)" if "name_ok x" for x
    using that mb_encode_ascii[of "[]" x] by (simp add: encodeMailboxName_def name_ok_def)
  have t: "mailboxArg x = PText (dquote # escape_quoted (latin1 (encodeMailboxName x)) @ [dquote])" if "name_ok x" for x
    using a[OF that] by (auto simp: mailboxArg_def astring_def list_all_iff list_ex_iff)
  have "escape_quoted (latin1 (encodeMailboxName m)) @ [dquote] = escape_quoted (latin1 (encodeMailboxName n)) @ [dquote]"
    using assms(3) t[OF assms(1)] t[OF assms(2)] by simp
  then have "latin1 (encodeMailboxName m) = latin1 (encodeMailboxName n)"
    by (metis tok_quoted_escape fst_conv)
  moreover have "bytes_ok (encodeMailboxName x)" if "name_ok x" for x using a[OF that] by (auto simp: bytes_ok_def list_all_iff)
  ultimately have "encodeMailboxName m = encodeMailboxName n" using units_latin1 assms(1,2) by metis
  then show ?thesis using mailbox.enc_inj[OF assms(1,2)] by simp
qed

text \<open>A server with one mailbox besides INBOX, Notes, that can be opened and nothing else.\<close>

definition notes_box :: units where "notes_box = units_of ''Notes''"

definition ok_response :: imap_response where
  "ok_response = \<lparr> ir_type = RTagged, ir_tag = Some ''A1'', ir_status = Some ''OK'', ir_data = [], ir_raw = ''A1 OK'' \<rparr>"

definition notes_exec :: "(units \<times> bool) option \<Rightarrow> command_part list \<Rightarrow> (mail_error + imap_response \<times> imap_response list) \<times> (units \<times> bool) option" where
  "notes_exec n ps =
     (if ps = [PText ''SELECT'', mailboxArg notes_box] \<or> ps = [PText ''SELECT'', mailboxArg notes_box, PText ''(CONDSTORE)''] then (Inr (ok_response, []), Some (notes_box, False))
      else if ps = [PText ''EXAMINE'', mailboxArg notes_box] then (Inr (ok_response, []), Some (notes_box, True))
      else (Inl (ImapError ''NO'' False EIMAP None), n))"

definition notes_server :: "(units \<times> bool) option session_net" where
  "notes_server = \<lparr> sn_connect = (\<lambda>n. (Inr (), None)), sn_exec = notes_exec, sn_open = (\<lambda>n. True), sn_has = (\<lambda>n c. False),
     sn_reconnect = NoReconnect, sn_text = (\<lambda>cs. None), sn_date = (\<lambda>u. None) \<rparr>"

lemma notes_name: "name_ok notes_box" by (simp add: notes_box_def name_ok_def units_of_def)

lemma notes_status: "\<not> ms_readOnly (buildMailboxStatus m False [] ok_response)" "ms_readOnly (buildMailboxStatus m True [] ok_response)"
  by (simp_all add: buildMailboxStatus_def ok_response_def Let_def contains_ci_def ci_prefix_def ascii_upper_def)

lemma notes_truly: "selects_truly notes_server (\<lambda>n. n)"
proof -
  have inj: "mailboxArg m = mailboxArg notes_box \<longleftrightarrow> m = notes_box" if "name_ok m" for m using mailbox_arg_inj[OF that notes_name] by auto
  have "opens_truly notes_server (\<lambda>n. n)"
    unfolding opens_truly_def by (auto simp: notes_server_def notes_exec_def inj notes_status split: if_splits)
  moreover have "leaves_selection notes_server (\<lambda>n. n)"
    unfolding leaves_selection_def by (auto simp: notes_server_def notes_exec_def plain_parts_def split: if_splits)
  ultimately show ?thesis by (simp add: selects_truly_def)
qed

definition notes_run :: "session_event_in list" where "notes_run = [QConnect, QCall None (CoSearch no_query []), QLost]"

lemma notes_legal: "legal_run (session_step notes_server) session_ok (new_system None) notes_run"
  by (simp add: notes_run_def session_ok_def name_ok_def)

definition notes_session :: "(units \<times> bool) option session" where
  "notes_session = sy_session (run (session_step notes_server) (new_system None) notes_run)"

lemma notes_session_is: "notes_session = \<lparr> se_net = None, se_state = IsIdle, se_selected = None, se_client = True, se_current = None, se_closed = False, se_events = [SvClose] \<rparr>"
  by (simp add: notes_session_def notes_run_def session_step_def new_system_def new_session_def session_connect_def ensureClient_def isConnected_def
      connect_loop.simps notes_server_def reconnect_of_def Let_def connection_lost_def session_emit_def)

lemma notes_opens: "\<not> isl (fst (withWritable notes_server notes_box (done_with (0 :: nat)) notes_session))"
  by (simp add: notes_session_is withWritable_def locked_def ensureClient_def isConnected_def connect_loop.simps notes_server_def reconnect_of_def Let_def
      bind_def open_current_def client_open_def client_exec_def notes_exec_def session_emit_def done_with_def)


end
