(* ===== verification/Spec2Isabelle.thy ===== *)
theory Spec2Isabelle
  imports MailQueueProps MailQueueProps2 MailWorker SmtpProtocol SmtpPool ImapCommands ImapFraming HeaderBlock SqliteProps SmtpDelivery ImapEngineProps ImapFetchProps ImapMove ImapPool ImapSessionProps
begin

text \<open>
  A verification library for mailts (src/src), a TypeScript library that builds, queues and sends mail and reads
  mailboxes.

  THE PROGRAM.  A message is built from the caller's options (core/Message.ts with Headers.ts, Attachment.ts,
  ICal.ts, Address.ts, Unsubscribe.ts) and parsed back by MimeParser.ts.  Sending goes through a queue
  (queue/MailQueue.ts with RetryPolicy, RateLimiter, DeadLetterQueue and JobController), which SqliteQueue.ts makes
  persistent and shares between processes, and MailWorker.ts feeds from an external broker.  The queue calls a send
  function; for SMTP this is SmtpClient.ts over SmtpStream.ts and SmtpCommand.ts, pooled by SmtpPool.ts.  Mailboxes
  are read with ImapClient.ts over the framing of ImapParser.ts, the tokenizer, and the commands of ImapCommands.ts.

  CONVENTIONS.  A JavaScript string of a wire protocol is a HOL string (a character is a byte, Latin-1); text with any
  character is the list of its UTF-16 units; a Buffer is a list of naturals below 256 or a string.  A Map is an
  association list in insertion order.  An object is a record, an enumeration or a tagged union is a datatype.  An
  error is a record with the name of its class (Errors), a function that throws returns a sum.  Times are integer
  milliseconds; numbers are integers, naturals or rationals, never doubles.  Random values, clocks, file systems, the
  tables of Unicode and character sets, and the callbacks of the user are parameters.  Logging is left out.  An
  asynchronous function is cut at its awaits: a component is a machine whose steps are what happens between two
  awaits (the locale machine), or a program that talks to a server (SmtpClient).

  THE THEORIES.
  Prelude: strings, maps, runs of machines; the interfaces machine, refinement, codec, stream decoder and pool.
  Errors: src/errors.ts.  Address, QueueTypes: core/Address.ts, types/queue.ts, queue/JobController.ts.
  RetryPolicy, RateLimiter: the two policies; delays within bounds, no window over its limit, waiting times exact.
  MailQueue: queue/MailQueue.ts and DeadLetterQueue.ts over a heap of shared job objects.  MailQueueInv (every job is
    where its status says), MailQueueBook (frame and bookkeeping), MailQueueCalm (executions against the running
    map), MailQueueCount (counters, no idle slot), MailQueueJobs (invariants of one job) carry the properties of
    MailQueueProps and MailQueueProps2.
  JobCodec: queue/JobCodec.ts.  QueueHold: what the queue promises to one built on it.  SqliteQueue, SqliteWorld,
    SqliteProps: queue/SqliteQueue.ts, several processes on one database, and the contract of leases they refine.
  MailWorker: queue/MailWorker.ts and QueueDriver.ts.
  SmtpProtocol: smtp/SmtpReply.ts, SmtpCommand.ts, SmtpStream.ts.  SmtpPool: smtp/SmtpPool.ts.
  Credential: core/Credential.ts, core/net.ts.  SmtpClient: smtp/SmtpClient.ts as programs (a tree of what is written
    and awaited); SmtpRuns: conversations of composed programs, nothing secret before TLS; SmtpDelivery: a server that
    does what its replies say, and what send leaves there.
  Base64, JsText: what the program uses of Buffer and of JavaScript strings.  Headers, Rfc2047, HeaderBlock: header
    values written and read back.  QuotedPrintable, Attachment, ICal: bodies, attachments, calendar parts.  MimeParser,
    MimeTree: core/MimeParser.ts.  Message: core/Message.ts.
  ImapTokenizer, ImapArgs, ImapCommands, ImapFraming: imap/ImapTokenizer.ts, ImapCommands.ts, ImapParser.ts.

  THE PROPERTIES are the theorems after a text block that starts with C and a number; each is followed by a witness
  (a concrete run or input where its hypotheses hold) when it has hypotheses.

  BOUNDS.  Every function is total: scanners recurse on what is left of their input (their termination proofs carry
  the measure), the depth and size limits of the MIME parser and of the IMAP and SMTP streams are the code's.  No
  fuel is used.

  NOT MODELLED.  Sockets, TLS, DNS, timers and files themselves; the proxies of SmtpProxy.ts; DKIM (a call of the
  crypto module around a canonical form); OAuth and the HTTP transports and mailboxes (glue around remote services);
  the facade MailTs.ts, which wires these parts; rich content, templates and text from HTML; logging, telemetry, the
  command line and the trap server with its user interface (packages/).  The manifest lists each with its reason.
\<close>

end
